(* ===== verification/Prelude.thy ===== *)
theory Prelude
  imports Main "HOL-Library.AList" "HOL-Library.Word" "HOL-Library.Sublist"
    "HOL-Library.State_Monad"
begin

text \<open>
  The prelude of the development: what the components share about the Go language and its
  standard library.

  \<^item> A Go string and a Go byte slice are sequences of bytes: both are \<open>string\<close> here
    (\<open>char\<close> is an 8-bit value).
  \<^item> A Go map is an association list with distinct keys. \<open>map_of\<close> is the lookup,
    \<open>AList.update\<close> the assignment \<open>m[k] = v\<close>, \<open>AList.delete\<close> the builtin
    \<open>delete(m, k)\<close>. The position of a key in the list stands for its place in one
    iteration order; theorems quantify over all lists, hence over all orders.
  \<^item> \<open>strings.HasPrefix\<close>, \<open>strings.Split\<close> with a one byte separator, and the
    decimal formatting of \<open>fmt.Sprintf("%d")\<close> with the parsing of a JSON integer.
  \<^item> A fallible call returns \<open>'e + 'a\<close>, \<open>Inl\<close> being the non-nil error.

  The locale \<open>machine\<close> is the contract of every component that processes a sequence of
  commands: one step keeps the invariant; the runs are dealt with once, in the locale.
\<close>

named_theorems go_simps \<open>unfolding rules for the Go primitives\<close>
named_theorems inv_intros \<open>preservation of the invariants of the components\<close>

subsection \<open>Types\<close>

type_synonym bytes = string
type_synonym ('k, 'v) gomap = "('k \<times> 'v) list"
type_synonym ('e, 'a) result = "'e + 'a"

abbreviation is_ok :: "('e, 'a) result \<Rightarrow> bool" where
  "is_ok r \<equiv> \<not> isl r"

subsection \<open>Strings\<close>

definition HasPrefix :: "string \<Rightarrow> string \<Rightarrow> bool" where
  "HasPrefix s p = (take (length p) s = p)"

fun Split :: "char \<Rightarrow> string \<Rightarrow> string list" where
  "Split sep [] = [[]]"
| "Split sep (c # cs) =
     (if c = sep then [] # Split sep cs
      else (case Split sep cs of [] \<Rightarrow> [[c]] | w # ws \<Rightarrow> (c # w) # ws))"

fun Join :: "char \<Rightarrow> string list \<Rightarrow> string" where
  "Join sep [] = []"
| "Join sep [w] = w"
| "Join sep (w # v # ws) = w @ sep # Join sep (v # ws)"

subsection \<open>Decimal numbers\<close>

definition digit_char :: "nat \<Rightarrow> char" where
  "digit_char d = char_of (48 + d)"

definition digit_val :: "char \<Rightarrow> nat" where
  "digit_val c = of_char c - 48"

definition is_digit :: "char \<Rightarrow> bool" where
  "is_digit c = (48 \<le> (of_char c :: nat) \<and> (of_char c :: nat) \<le> 57)"

fun show_nat :: "nat \<Rightarrow> string" where
  "show_nat n = (if n < 10 then [digit_char n] else show_nat (n div 10) @ [digit_char (n mod 10)])"

definition nat_of_digits :: "string \<Rightarrow> nat" where
  "nat_of_digits s = foldl (\<lambda>a c. 10 * a + digit_val c) 0 s"

definition show_int :: "int \<Rightarrow> string" where
  "show_int i = (if i < 0 then CHR ''-'' # show_nat (nat (- i)) else show_nat (nat i))"

text \<open>
  The digits of a JSON number: non-empty, only digits, no superfluous leading zero.
\<close>

definition json_digits :: "string \<Rightarrow> bool" where
  "json_digits s = (s \<noteq> [] \<and> list_all is_digit s \<and> (hd s = CHR ''0'' \<longrightarrow> length s = 1))"

definition int64_range :: "int \<Rightarrow> bool" where
  "int64_range i = (- (2 ^ 63) \<le> i \<and> i < 2 ^ 63)"

text \<open>\<open>json.Unmarshal\<close> of a number text into an \<open>int64\<close>: a number with a
  fraction or an exponent, or out of range, is refused.\<close>

definition parse_int64 :: "string \<Rightarrow> int option" where
  "parse_int64 s =
     (case s of
        [] \<Rightarrow> None
      | c # cs \<Rightarrow>
          (if c = CHR ''-''
           then (if json_digits cs \<and> int64_range (- int (nat_of_digits cs))
                 then Some (- int (nat_of_digits cs)) else None)
           else (if json_digits s \<and> int64_range (int (nat_of_digits s))
                 then Some (int (nat_of_digits s)) else None)))"

definition json_space :: "char \<Rightarrow> bool" where
  "json_space c = (c \<in> {CHR '' '', CHR 0x09, CHR 0x0A, CHR 0x0D})"

definition json_trim :: "string \<Rightarrow> string" where
  "json_trim s = rev (dropWhile json_space (rev (dropWhile json_space s)))"

text \<open>White space around the value is skipped, and \<open>null\<close> leaves the target at its
  zero value without an error.\<close>

definition unmarshal_int64 :: "string \<Rightarrow> int option" where
  "unmarshal_int64 s =
     (let t = json_trim s in if t = ''null'' then Some 0 else parse_int64 t)"

text \<open>\<open>json.Marshal\<close> of a string: quotes, backslashes and control characters are escaped,
  and so are the three HTML characters; other bytes of a UTF-8 string are copied.\<close>

definition hex_digit :: "nat \<Rightarrow> char" where
  "hex_digit d = (if d < 10 then char_of (48 + d) else char_of (87 + d))"

definition json_char :: "char \<Rightarrow> string" where
  "json_char c =
     (if c = CHR 0x22 then [CHR 0x5C, c]
      else if c = CHR 0x5C then [CHR 0x5C, c]
      else if c = CHR 0x08 then [CHR 0x5C, CHR ''b'']
      else if c = CHR 0x0C then [CHR 0x5C, CHR ''f'']
      else if c = CHR 0x0A then [CHR 0x5C, CHR ''n'']
      else if c = CHR 0x0D then [CHR 0x5C, CHR ''r'']
      else if c = CHR 0x09 then [CHR 0x5C, CHR ''t'']
      else if (of_char c :: nat) < 32 \<or> c \<in> {CHR ''<'', CHR ''>'', CHR 0x26}
      then CHR 0x5C # ''u00'' @ [hex_digit (of_char c div 16), hex_digit (of_char c mod 16)]
      else [c])"

definition json_string :: "string \<Rightarrow> string" where
  "json_string s = CHR 0x22 # concat (map json_char s) @ [CHR 0x22]"

text \<open>An object with the given fields, whose values are already printed.\<close>

definition json_object :: "(string \<times> string) list \<Rightarrow> string" where
  "json_object fs =
     CHR ''{'' # Join (CHR '','') (map (\<lambda>(k, v). json_string k @ CHR '':'' # v) fs) @ ''}''"

text \<open>The wrap-around of a Go \<open>int64\<close> operation, and the conversion of seconds to a
  \<open>time.Duration\<close> in nanoseconds, which wraps.\<close>

definition int64_wrap :: "int \<Rightarrow> int" where
  "int64_wrap i = (i + 2 ^ 63) mod 2 ^ 64 - 2 ^ 63"

text \<open>Go's integer division truncates towards zero.\<close>

definition go_div :: "int \<Rightarrow> int \<Rightarrow> int" where
  "go_div a b = sgn a * sgn b * (\<bar>a\<bar> div \<bar>b\<bar>)"

definition seconds :: "int \<Rightarrow> int" where
  "seconds n = int64_wrap (n * 1000000000)"

subsection \<open>Sums over a Go map\<close>

definition gm_sum :: "('k \<Rightarrow> 'v \<Rightarrow> int) \<Rightarrow> ('k, 'v) gomap \<Rightarrow> int" where
  "gm_sum f m = (\<Sum>(k, v)\<leftarrow>m. f k v)"

definition gm_map :: "('v \<Rightarrow> 'w) \<Rightarrow> ('k, 'v) gomap \<Rightarrow> ('k, 'w) gomap" where
  "gm_map f m = map (\<lambda>(k, v). (k, f v)) m"

subsection \<open>Lemmas: Go maps\<close>

declare show_nat.simps [simp del]
declare map_of_eq_Some_iff [simp del]

lemma map_of_update_gm [simp]: "map_of (AList.update k v m) = (map_of m)(k \<mapsto> v)"
  by (rule update_conv')

lemma map_of_delete_gm [simp]: "map_of (AList.delete k m) = (map_of m)(k := None)"
  by (rule delete_conv')

lemma distinct_keys_update [simp]:
  "distinct (map fst m) \<Longrightarrow> distinct (map fst (AList.update k v m))"
  by (rule distinct_update)

lemma distinct_keys_delete [simp]:
  "distinct (map fst m) \<Longrightarrow> distinct (map fst (AList.delete k m))"
  by (rule distinct_delete)

lemma gm_sum_Nil [simp]: "gm_sum f [] = 0"
  by (simp add: gm_sum_def)

lemma gm_sum_Cons [simp]: "gm_sum f ((k, v) # m) = f k v + gm_sum f m"
  by (simp add: gm_sum_def)

lemma gm_sum_append [simp]: "gm_sum f (m @ n) = gm_sum f m + gm_sum f n"
  by (simp add: gm_sum_def)

lemma gm_update_new: "k \<notin> fst ` set m \<Longrightarrow> AList.update k v m = m @ [(k, v)]"
  by (induction m) auto

lemma gm_sum_delete:
  "distinct (map fst m) \<Longrightarrow> map_of m k = Some v \<Longrightarrow>
     gm_sum f (AList.delete k m) = gm_sum f m - f k v"
proof (induction m)
  case Nil
  then show ?case by simp
next
  case (Cons a m)
  obtain k' v' where a: "a = (k', v')" by (cases a)
  show ?case
  proof (cases "k' = k")
    case True
    with Cons.prems a have "AList.delete k m = m"
      by (auto simp: delete_id)
    with Cons.prems a True show ?thesis by simp
  next
    case False
    with Cons a show ?thesis by simp
  qed
qed

lemma gm_sum_update_new:
  "map_of m k = None \<Longrightarrow> gm_sum f (AList.update k v m) = gm_sum f m + f k v"
  by (induction m) (auto split: if_splits)

lemma gm_sum_update_old:
  "distinct (map fst m) \<Longrightarrow> map_of m k = Some v0 \<Longrightarrow>
     gm_sum f (AList.update k v m) = gm_sum f m - f k v0 + f k v"
  by (induction m) (auto split: if_splits)

lemma gm_sum_nonneg: "(\<And>k v. (k, v) \<in> set m \<Longrightarrow> 0 \<le> f k v) \<Longrightarrow> 0 \<le> gm_sum f m"
proof (induction m)
  case (Cons a m)
  then show ?case by (cases a) auto
qed simp

lemma set_gm_update:
  "distinct (map fst m) \<Longrightarrow>
     set (AList.update k v m) = insert (k, v) {p \<in> set m. fst p \<noteq> k}"
  by (induction m) (auto simp: image_iff split: if_splits)

lemma set_gm_delete: "set (AList.delete k m) = {p \<in> set m. fst p \<noteq> k}"
  by (induction m) auto

lemma gm_lookup_iff: "distinct (map fst m) \<Longrightarrow> map_of m k = Some v \<longleftrightarrow> (k, v) \<in> set m"
  by (rule map_of_eq_Some_iff)

lemma map_of_gm_map [simp]: "map_of (gm_map f m) k = map_option f (map_of m k)"
  by (simp add: gm_map_def map_of_map)

lemma gm_map_update: "gm_map f (AList.update k v m) = AList.update k (f v) (gm_map f m)"
  by (induction m) (auto simp: gm_map_def)

lemma gm_map_delete: "gm_map f (AList.delete k m) = AList.delete k (gm_map f m)"
  by (induction m) (auto simp: gm_map_def)

lemma gm_map_map [simp]: "gm_map f (gm_map g m) = gm_map (f \<circ> g) m"
  by (induction m) (auto simp: gm_map_def)

lemma keys_gm_map [simp]: "map fst (gm_map f m) = map fst m"
  by (induction m) (auto simp: gm_map_def)

subsection \<open>Lemmas: splitting and joining\<close>

lemma HasPrefix_iff_prefix [go_simps]: "HasPrefix s p \<longleftrightarrow> prefix p s"
  by (metis HasPrefix_def append_eq_conv_conj append_take_drop_id prefix_def)

lemma Split_not_Nil [simp]: "Split sep s \<noteq> []"
  by (induction s) (auto split: list.splits)

lemma Split_no_sep: "w \<in> set (Split sep s) \<Longrightarrow> sep \<notin> set w"
proof (induction s arbitrary: w)
  case (Cons c cs)
  then show ?case
    by (cases "Split sep cs") (auto split: if_splits)
qed simp

lemma Join_Cons_Split: "Join sep (w # Split sep s) = w @ sep # Join sep (Split sep s)"
  by (cases "Split sep s") auto

lemma Join_Cons_Cons_char: "Join sep ((c # w) # ws) = c # Join sep (w # ws)"
  by (cases ws) auto

lemma Join_Split [simp]: "Join sep (Split sep s) = s"
proof (induction s)
  case (Cons c cs)
  show ?case
  proof (cases "c = sep")
    case True
    with Cons show ?thesis by (simp add: Join_Cons_Split)
  next
    case False
    obtain w ws where "Split sep cs = w # ws" by (cases "Split sep cs") auto
    with False Cons show ?thesis by (simp add: Join_Cons_Cons_char)
  qed
qed simp

lemma Split_append_sep: "sep \<notin> set w \<Longrightarrow> Split sep (w @ sep # s) = w # Split sep s"
  by (induction w) auto

lemma Split_word: "sep \<notin> set w \<Longrightarrow> Split sep w = [w]"
  by (induction w) auto

lemma Split_Join:
  "ws \<noteq> [] \<Longrightarrow> (\<And>w. w \<in> set ws \<Longrightarrow> sep \<notin> set w) \<Longrightarrow> Split sep (Join sep ws) = ws"
proof (induction sep ws rule: Join.induct)
  case (2 sep w)
  then show ?case by (simp add: Split_word)
next
  case (3 sep w v ws)
  then show ?case by (simp add: Split_append_sep)
qed simp

subsection \<open>Lemmas: decimal numbers\<close>

lemma digit_val_char [simp]: "d < 10 \<Longrightarrow> digit_val (digit_char d) = d"
  by (simp add: digit_val_def digit_char_def)

lemma is_digit_char [simp]: "d < 10 \<Longrightarrow> is_digit (digit_char d)"
  by (simp add: is_digit_def digit_char_def)

lemma nat_of_digits_snoc [simp]: "nat_of_digits (s @ [c]) = 10 * nat_of_digits s + digit_val c"
  by (simp add: nat_of_digits_def)

lemma nat_of_digits_show [simp]: "nat_of_digits (show_nat n) = n"
proof (induction n rule: show_nat.induct)
  case (1 n)
  show ?case
  proof (cases "n < 10")
    case True
    then show ?thesis by (simp add: show_nat.simps [of n] nat_of_digits_def)
  next
    case False
    with 1 show ?thesis by (simp add: show_nat.simps [of n])
  qed
qed

lemma show_nat_inject [simp]: "show_nat m = show_nat n \<longleftrightarrow> m = n"
  by (metis nat_of_digits_show)

lemma show_nat_digits: "c \<in> set (show_nat n) \<Longrightarrow> is_digit c"
proof (induction n rule: show_nat.induct)
  case (1 n)
  then show ?case by (cases "n < 10") (auto simp: show_nat.simps [of n])
qed

lemma show_nat_not_Nil [simp]: "show_nat n \<noteq> []"
  by (simp add: show_nat.simps [of n])

lemma digit_char_eq_zero: "d < 10 \<Longrightarrow> digit_char d = CHR ''0'' \<longleftrightarrow> d = 0"
proof
  assume "d < 10" and "digit_char d = CHR ''0''"
  then have "d = digit_val (CHR ''0'')" by (metis digit_val_char)
  then show "d = 0" by (simp add: digit_val_def)
next
  assume "d = 0"
  moreover have "(48 :: nat) = of_char (CHR ''0'')" by simp
  ultimately show "digit_char d = CHR ''0''" by (metis add_0_right char_of_char digit_char_def)
qed

lemma show_nat_hd: "0 < n \<Longrightarrow> hd (show_nat n) \<noteq> CHR ''0''"
proof (induction n rule: show_nat.induct)
  case (1 n)
  show ?case
  proof (cases "n < 10")
    case True
    with "1.prems" show ?thesis by (simp add: show_nat.simps [of n] digit_char_eq_zero)
  next
    case False
    with "1.IH" have "hd (show_nat (n div 10)) \<noteq> CHR ''0''" by simp
    with False show ?thesis by (simp add: show_nat.simps [of n])
  qed
qed

lemma json_digits_show: "json_digits (show_nat n)"
proof (cases "n = 0")
  case True
  then show ?thesis by (simp add: json_digits_def show_nat.simps [of 0])
next
  case False
  then show ?thesis
    using show_nat_hd [of n] show_nat_digits [of _ n] by (auto simp: json_digits_def list_all_iff)
qed

lemma show_nat_no_minus: "show_nat n = c # cs \<Longrightarrow> c \<noteq> CHR ''-''"
  using show_nat_digits [of c n] by (auto simp: is_digit_def)

lemma parse_int64_show: "int64_range i \<Longrightarrow> parse_int64 (show_int i) = Some i"
proof (cases "i < 0")
  case True
  moreover assume "int64_range i"
  ultimately show ?thesis by (simp add: parse_int64_def show_int_def json_digits_show)
next
  case False
  moreover assume "int64_range i"
  moreover obtain c cs where c: "show_nat (nat i) = c # cs" by (cases "show_nat (nat i)") auto
  moreover have "c \<noteq> CHR ''-''" using c by (rule show_nat_no_minus)
  moreover have "json_digits (c # cs)" using json_digits_show [of "nat i"] c by simp
  moreover have "nat_of_digits (c # cs) = nat i" using c by (metis nat_of_digits_show)
  ultimately show ?thesis by (simp add: parse_int64_def show_int_def)
qed

lemma is_digit_no_space: "is_digit c \<Longrightarrow> \<not> json_space c"
  by (auto simp: is_digit_def json_space_def)

lemma show_nat_last_no_space: "\<not> json_space (last (show_nat n))"
  by (intro is_digit_no_space show_nat_digits [of _ n]) simp

lemma json_trim_id:
  assumes "s \<noteq> []" and "\<not> json_space (hd s)" and "\<not> json_space (last s)"
  shows "json_trim s = s"
proof -
  have "dropWhile json_space s = s"
    using assms by (cases s) auto
  moreover have "dropWhile json_space (rev s) = rev s"
    using assms by (cases s rule: rev_cases) auto
  ultimately show ?thesis by (simp add: json_trim_def)
qed

lemma json_trim_show_int: "json_trim (show_int i) = show_int i"
proof (rule json_trim_id)
  have "\<not> json_space (hd (show_nat n))" for n
    by (intro is_digit_no_space show_nat_digits [of _ n]) simp
  then show "\<not> json_space (hd (show_int i))" by (simp add: show_int_def json_space_def)
  show "\<not> json_space (last (show_int i))" by (simp add: show_int_def show_nat_last_no_space)
qed (simp add: show_int_def)

lemma show_int_not_null: "show_int i \<noteq> ''null''"
proof
  assume "show_int i = ''null''"
  then have "show_nat (nat i) = ''null''" by (simp add: show_int_def split: if_splits)
  then have "is_digit (CHR ''n'')" using show_nat_digits [of "CHR ''n''" "nat i"] by simp
  then show False by (simp add: is_digit_def)
qed

lemma unmarshal_int64_show: "int64_range i \<Longrightarrow> unmarshal_int64 (show_int i) = Some i"
  by (simp add: unmarshal_int64_def json_trim_show_int show_int_not_null parse_int64_show)

lemma int64_wrap_id: "int64_range i \<Longrightarrow> int64_wrap i = i"
  by (simp add: int64_wrap_def int64_range_def)

lemma int64_wrap_range: "int64_range (int64_wrap i)"
proof -
  have "0 \<le> (i + 2 ^ 63) mod 2 ^ 64" and "(i + 2 ^ 63) mod 2 ^ 64 < (2 :: int) ^ 64"
    by simp_all
  then show ?thesis by (simp add: int64_wrap_def int64_range_def)
qed

subsection \<open>Runs of a command processor\<close>

text \<open>
  The contract shared by the components that process commands one at a time under a lock:
  a step function and an invariant that each step keeps. What follows for whole sequences
  of commands is proved here once.
\<close>

locale machine =
  fixes step :: "'c \<Rightarrow> 's \<Rightarrow> 's"
    and inv :: "'s \<Rightarrow> bool"
  assumes step_inv: "inv s \<Longrightarrow> inv (step c s)"
begin

lemma run_inv: "inv s \<Longrightarrow> inv (fold step cs s)"
  by (induction cs arbitrary: s) (auto intro: step_inv)

lemma run_frame:
  assumes "\<And>c t. inv t \<Longrightarrow> f (step c t) = f t" and "inv s"
  shows "f (fold step cs s) = f s"
  using assms(2)
proof (induction cs arbitrary: s)
  case (Cons c cs)
  then show ?case by (simp add: step_inv assms(1))
qed simp

lemma run_mono:
  fixes f :: "'s \<Rightarrow> 'o :: order"
  assumes "\<And>c t. inv t \<Longrightarrow> f t \<le> f (step c t)" and "inv s"
  shows "f s \<le> f (fold step cs s)"
  using assms(2)
proof (induction cs arbitrary: s)
  case (Cons c cs)
  have "f s \<le> f (step c s)" using Cons.prems by (rule assms(1))
  also have "f (step c s) \<le> f (fold step cs (step c s))"
    using Cons.prems by (intro Cons.IH step_inv)
  finally show ?case by simp
qed simp

end

subsection \<open>Sequences of fallible steps\<close>

text \<open>
  Two runs of the same commands from related states stay related: the pattern of every
  determinism and refinement argument of the development.
\<close>

locale lockstep =
  fixes stepA :: "'c \<Rightarrow> 'a \<Rightarrow> 'a"
    and stepB :: "'c \<Rightarrow> 'b \<Rightarrow> 'b"
    and rel :: "'a \<Rightarrow> 'b \<Rightarrow> bool"
  assumes step_rel: "rel s t \<Longrightarrow> rel (stepA c s) (stepB c t)"
begin

lemma run_rel: "rel s t \<Longrightarrow> rel (fold stepA cs s) (fold stepB cs t)"
  by (induction cs arbitrary: s t) (auto intro: step_rel)

end

subsection \<open>Relations kept by actions of the state monad\<close>

text \<open>
  A reflexive and transitive relation between the states before and after an action is kept
  by every action built from actions that keep it.
\<close>

locale io_preorder =
  fixes P :: "'s \<Rightarrow> 's \<Rightarrow> bool"
  assumes P_refl: "P s s" and P_trans: "P s t \<Longrightarrow> P t u \<Longrightarrow> P s u"
begin

lemma io_return: "state_io_rel P (State_Monad.return x)"
  by (simp add: state_io_rel_def P_refl)

lemma io_get: "state_io_rel P State_Monad.get"
  by (simp add: state_io_rel_def P_refl)

lemma io_bind:
  assumes "state_io_rel P m" and "\<And>x. state_io_rel P (f x)"
  shows "state_io_rel P (State_Monad.bind m f)"
  using assms by (auto simp: state_io_rel_def split: prod.split intro: P_trans)

lemma io_if: "(b \<Longrightarrow> state_io_rel P m) \<Longrightarrow> (\<not> b \<Longrightarrow> state_io_rel P k) \<Longrightarrow> state_io_rel P (if b then m else k)"
  by simp

lemma io_case_option:
  "(x = None \<Longrightarrow> state_io_rel P m) \<Longrightarrow> (\<And>y. x = Some y \<Longrightarrow> state_io_rel P (f y)) \<Longrightarrow>
     state_io_rel P (case x of None \<Rightarrow> m | Some y \<Rightarrow> f y)"
  by (cases x) auto

lemma io_case_sum:
  "(\<And>y. x = Inl y \<Longrightarrow> state_io_rel P (f y)) \<Longrightarrow> (\<And>y. x = Inr y \<Longrightarrow> state_io_rel P (g y)) \<Longrightarrow>
     state_io_rel P (case x of Inl y \<Rightarrow> f y | Inr y \<Rightarrow> g y)"
  by (cases x) auto

lemma io_Let: "state_io_rel P (f v) \<Longrightarrow> state_io_rel P (let x = v in f x)"
  by simp

lemmas io_intros = io_return io_get io_bind io_if io_case_option io_case_sum io_Let

end

end
