(* ===== verification/Raft_Types.thy ===== *)
theory Raft_Types
  imports Prelude
begin

text \<open>
  The data model of \<open>internal/raft\<close>: \<open>types.go\<close> and \<open>errors.go\<close>. Times are
  nanoseconds as \<open>int\<close>, \<open>uint64\<close> revisions are \<open>64 word\<close> (they wrap), sizes are
  \<open>int\<close>. Errors are compared by identity in the code (\<open>err != ErrKeyNotFound\<close>): the
  predefined errors are constructors of their own, an error made by \<open>NewRaftError\<close> is
  \<open>RaftError code message\<close>, \<open>fmt.Errorf\<close> without and with \<open>%w\<close> are
  \<open>Errorf\<close> and \<open>Wrapf\<close>.
\<close>

subsection \<open>types.go\<close>

datatype NodeRole = RoleLeader | RoleFollower | RoleLearner | RoleCandidate

datatype ReadMode = ReadModeLinearizable | ReadModeStale | ReadModeOther string

text \<open>The voting status of a server in the configuration of the Raft library.\<close>

datatype ServerSuffrage = Voter | Nonvoter | Staging

record NodeConfig =
  cfg_NodeID :: string
  cfg_BindAddr :: string
  cfg_AdvertiseAddr :: string
  cfg_DataDir :: string
  cfg_Bootstrap :: bool
  cfg_BootstrapPeers :: "string list"
  cfg_HeartbeatTimeout :: int
  cfg_ElectionTimeout :: int
  cfg_LeaderLeaseTimeout :: int
  cfg_SnapshotInterval :: int
  cfg_SnapshotThreshold :: "64 word"
  cfg_MaxValueSize :: int
  cfg_MaxStorageSize :: int

definition DefaultNodeConfig :: NodeConfig where
  "DefaultNodeConfig =
     \<lparr>cfg_NodeID = [], cfg_BindAddr = [], cfg_AdvertiseAddr = [], cfg_DataDir = [],
      cfg_Bootstrap = False, cfg_BootstrapPeers = [],
      cfg_HeartbeatTimeout = 1000 * 1000000, cfg_ElectionTimeout = 1000 * 1000000,
      cfg_LeaderLeaseTimeout = 500 * 1000000, cfg_SnapshotInterval = 120 * 1000000000,
      cfg_SnapshotThreshold = 8192, cfg_MaxValueSize = 1024 * 1024,
      cfg_MaxStorageSize = 100 * 1024 * 1024\<rparr>"

record NodeInfo =
  info_ID :: string
  info_Address :: string
  info_Role :: NodeRole
  info_Suffrage :: ServerSuffrage
  info_LastContact :: int
  info_IsLeader :: bool

record ClusterConfig =
  cc_Nodes :: "(string, NodeInfo) gomap"
  cc_MaintenanceMode :: bool

record KVEntry =
  entry_Key :: string
  entry_Value :: bytes
  entry_Revision :: "64 word"
  entry_CreatedRevision :: "64 word"
  entry_ModifiedRevision :: "64 word"
  entry_Version :: int
  entry_CreateTime :: int
  entry_ModTime :: int

record LeaseInfo =
  lease_ID :: string
  lease_TTL :: int
  lease_GrantedAt :: int
  lease_ExpiresAt :: int
  lease_Holder :: string
  lease_Keys :: "string list"

record LockInfo =
  lock_Key :: string
  lock_LeaseID :: string
  lock_Holder :: string
  lock_AcquiredAt :: int

datatype WatchEventType = WatchEventPut | WatchEventDelete

record WatchEvent =
  ev_Type :: WatchEventType
  ev_Key :: string
  ev_Value :: bytes
  ev_Revision :: "64 word"
  ev_PrevValue :: "bytes option"

record ClusterStats =
  stats_NodeID :: string
  stats_Role :: NodeRole
  stats_LeaderID :: string
  stats_Term :: "64 word"
  stats_CommitIndex :: "64 word"
  stats_AppliedIndex :: "64 word"
  stats_LastLogIndex :: "64 word"
  stats_NumPeers :: nat
  stats_Revision :: "64 word"
  stats_KeyCount :: nat
  stats_StorageSize :: int

subsection \<open>errors.go\<close>

datatype raft_err =
    ErrNotLeader | ErrNoQuorum | ErrKeyNotFound | ErrValueTooLarge | ErrStorageFull
  | ErrInvalidKey | ErrNodeAlreadyExists | ErrNodeNotFound | ErrMaintenanceModeRequired
  | ErrMembershipChangeInProgress | ErrNodeNotSynced | ErrInsufficientVoters
  | ErrLeaseNotFound | ErrLeaseExpired | ErrLeaseAlreadyHeld | ErrLockHeld
  | RaftError string string
  | Errorf string
  | Wrapf string raft_err

text \<open>The predefined error variables, in the order of the file.\<close>

definition predefined_errors :: "raft_err list" where
  "predefined_errors =
     [ErrNotLeader, ErrNoQuorum, ErrKeyNotFound, ErrValueTooLarge, ErrStorageFull,
      ErrInvalidKey, ErrNodeAlreadyExists, ErrNodeNotFound, ErrMaintenanceModeRequired,
      ErrMembershipChangeInProgress, ErrNodeNotSynced, ErrInsufficientVoters,
      ErrLeaseNotFound, ErrLeaseExpired, ErrLeaseAlreadyHeld, ErrLockHeld]"

text \<open>\<open>err_code e\<close> is the \<open>Code\<close> field when \<open>e\<close> is a \<open>*RaftError\<close>.\<close>

fun err_code :: "raft_err \<Rightarrow> string option" where
  "err_code ErrNotLeader = Some ''not_leader''"
| "err_code ErrNoQuorum = Some ''no_quorum''"
| "err_code ErrKeyNotFound = Some ''key_not_found''"
| "err_code ErrValueTooLarge = Some ''value_too_large''"
| "err_code ErrStorageFull = Some ''storage_full''"
| "err_code ErrInvalidKey = Some ''invalid_key''"
| "err_code ErrNodeAlreadyExists = Some ''node_already_exists''"
| "err_code ErrNodeNotFound = Some ''node_not_found''"
| "err_code ErrMaintenanceModeRequired = Some ''maintenance_mode_required''"
| "err_code ErrMembershipChangeInProgress = Some ''membership_change_in_progress''"
| "err_code ErrNodeNotSynced = Some ''node_not_synced''"
| "err_code ErrInsufficientVoters = Some ''insufficient_voters''"
| "err_code ErrLeaseNotFound = Some ''lease_not_found''"
| "err_code ErrLeaseExpired = Some ''lease_expired''"
| "err_code ErrLeaseAlreadyHeld = Some ''lease_already_held''"
| "err_code ErrLockHeld = Some ''lock_held''"
| "err_code (RaftError c m) = Some c"
| "err_code (Errorf m) = None"
| "err_code (Wrapf m e) = None"

definition NewRaftError :: "string \<Rightarrow> string \<Rightarrow> raft_err" where
  "NewRaftError code message = RaftError code message"

definition IsRaftError :: "raft_err option \<Rightarrow> string \<Rightarrow> bool" where
  "IsRaftError err code =
     (case err of
        None \<Rightarrow> False
      | Some e \<Rightarrow> (case err_code e of None \<Rightarrow> False | Some c \<Rightarrow> c = code))"

subsection \<open>Lemmas\<close>

lemma predefined_codes_distinct: "distinct (map err_code predefined_errors)"
  by (simp add: predefined_errors_def)

lemma predefined_has_code: "e \<in> set predefined_errors \<Longrightarrow> \<exists>c. err_code e = Some c"
  by (auto simp: predefined_errors_def)

text \<open>A predefined error is identified by its code among the predefined errors.\<close>

lemma IsRaftError_identifies:
  assumes "d \<in> set predefined_errors" and "e \<in> set predefined_errors" and "err_code e = Some c"
  shows "IsRaftError (Some d) c \<longleftrightarrow> d = e"
proof
  assume "IsRaftError (Some d) c"
  then have "err_code d = err_code e"
    using assms(3) by (simp add: IsRaftError_def split: option.splits)
  with assms(1,2) predefined_codes_distinct show "d = e"
    by (simp add: distinct_map inj_on_def)
qed (use assms in \<open>simp add: IsRaftError_def\<close>)

end
