(* ===== verification/KV_FSM.thy ===== *)
theory KV_FSM
  imports Raft_Types
begin

text \<open>
  The replicated key-value state machine, \<open>internal/raft/fsm.go\<close>. The fields of
  \<open>KVStateMachine\<close> are a record; its mutex makes every method one atomic step, so a
  method is a function from the state to its result and the new state. \<open>time.Now()\<close> is
  the argument \<open>now\<close>. A log entry is \<open>log_data\<close>: what \<open>json.Unmarshal\<close> makes of
  the bytes of the entry, a command or an error; commands travel through \<open>json.Marshal\<close>
  and back unchanged, which \<open>Encoded\<close> stands for. The time-to-live of a lease is really
  printed and parsed, as JSON text.
\<close>

subsection \<open>Data\<close>

record FSMCommand =
  cmd_Op :: string
  cmd_Key :: string
  cmd_Value :: bytes
  cmd_Lease :: string

datatype log_data = Undecodable string | Encoded FSMCommand

record KVStateMachine =
  fsm_data :: "(string, KVEntry) gomap"
  fsm_revision :: "64 word"
  fsm_maxValueSize :: int
  fsm_maxStorageSize :: int
  fsm_currentSize :: int
  fsm_leases :: "(string, LeaseInfo) gomap"

definition NewKVStateMachine :: "int \<Rightarrow> int \<Rightarrow> KVStateMachine" where
  "NewKVStateMachine maxValueSize maxStorageSize =
     \<lparr>fsm_data = [], fsm_revision = 0, fsm_maxValueSize = maxValueSize,
      fsm_maxStorageSize = maxStorageSize, fsm_currentSize = 0, fsm_leases = []\<rparr>"

subsection \<open>Operations\<close>

definition isValidKey :: "string \<Rightarrow> bool" where
  "isValidKey key =
     (if \<not> HasPrefix key ''/'' then False
      else let parts = Split (CHR ''/'') key in
        if length parts < 2 then False
        else list_all (\<lambda>i. parts ! i \<noteq> []) [1..<length parts])"

definition entry_size :: "string \<Rightarrow> KVEntry \<Rightarrow> int" where
  "entry_size key e = int (length key + length (entry_Value e))"

text \<open>The lease bookkeeping at the end of \<open>applyPut\<close>: an unknown lease is ignored.\<close>

definition append_lease_key :: "string \<Rightarrow> string \<Rightarrow> KVStateMachine \<Rightarrow> KVStateMachine" where
  "append_lease_key leaseID key s =
     (case map_of (fsm_leases s) leaseID of
        None \<Rightarrow> s
      | Some l \<Rightarrow>
          s\<lparr>fsm_leases :=
              AList.update leaseID (l\<lparr>lease_Keys := lease_Keys l @ [key]\<rparr>) (fsm_leases s)\<rparr>)"

definition applyPut ::
  "int \<Rightarrow> string \<Rightarrow> bytes \<Rightarrow> string \<Rightarrow> KVStateMachine \<Rightarrow> raft_err option \<times> KVStateMachine" where
  "applyPut now key val leaseID s =
     (if \<not> isValidKey key then (Some ErrInvalidKey, s)
      else if int (length val) > fsm_maxValueSize s then (Some ErrValueTooLarge, s)
      else
        (let finish = (\<lambda>s'. (None, if leaseID \<noteq> [] then append_lease_key leaseID key s' else s'))
         in case map_of (fsm_data s) key of
           Some existing \<Rightarrow>
             (let oldSize = int (length (entry_Value existing));
                  newSize = int (length val);
                  entry = existing\<lparr>entry_Value := val,
                                   entry_ModifiedRevision := fsm_revision s,
                                   entry_ModTime := now,
                                   entry_Version := entry_Version existing + 1\<rparr>
              in finish (s\<lparr>fsm_currentSize := fsm_currentSize s - oldSize + newSize,
                           fsm_data := AList.update key entry (fsm_data s)\<rparr>))
         | None \<Rightarrow>
             (let newSize = int (length key + length val) in
              if fsm_currentSize s + newSize > fsm_maxStorageSize s
              then (Some ErrStorageFull, s)
              else
                (let entry = \<lparr>entry_Key = key, entry_Value = val,
                              entry_Revision = fsm_revision s,
                              entry_CreatedRevision = fsm_revision s,
                              entry_ModifiedRevision = fsm_revision s,
                              entry_Version = 1, entry_CreateTime = now,
                              entry_ModTime = now\<rparr>
                 in finish (s\<lparr>fsm_data := AList.update key entry (fsm_data s),
                              fsm_currentSize := fsm_currentSize s + newSize\<rparr>)))))"

definition applyDelete :: "string \<Rightarrow> KVStateMachine \<Rightarrow> raft_err option \<times> KVStateMachine" where
  "applyDelete key s =
     (case map_of (fsm_data s) key of
        None \<Rightarrow> (Some ErrKeyNotFound, s)
      | Some entry \<Rightarrow>
          (None, s\<lparr>fsm_currentSize := fsm_currentSize s - entry_size key entry,
                   fsm_data := AList.delete key (fsm_data s)\<rparr>))"

definition applyGrantLease ::
  "int \<Rightarrow> string \<Rightarrow> bytes \<Rightarrow> KVStateMachine \<Rightarrow> raft_err option \<times> KVStateMachine" where
  "applyGrantLease now leaseID ttlBytes s =
     (case unmarshal_int64 ttlBytes of
        None \<Rightarrow> (Some (Errorf ''json: cannot unmarshal into int64''), s)
      | Some ttl \<Rightarrow>
          (let lease = \<lparr>lease_ID = leaseID, lease_TTL = ttl, lease_GrantedAt = now,
                        lease_ExpiresAt = now + seconds ttl, lease_Holder = [],
                        lease_Keys = []\<rparr>
           in (None, s\<lparr>fsm_leases := AList.update leaseID lease (fsm_leases s)\<rparr>)))"

definition applyRevokeLease :: "string \<Rightarrow> KVStateMachine \<Rightarrow> raft_err option \<times> KVStateMachine" where
  "applyRevokeLease leaseID s =
     (case map_of (fsm_leases s) leaseID of
        None \<Rightarrow> (Some ErrLeaseNotFound, s)
      | Some lease \<Rightarrow>
          (let s' = fold (\<lambda>key t. snd (applyDelete key t)) (lease_Keys lease) s
           in (None, s'\<lparr>fsm_leases := AList.delete leaseID (fsm_leases s')\<rparr>)))"

definition applyAttachLease ::
  "string \<Rightarrow> string \<Rightarrow> KVStateMachine \<Rightarrow> raft_err option \<times> KVStateMachine" where
  "applyAttachLease key leaseID s =
     (case map_of (fsm_leases s) leaseID of
        None \<Rightarrow> (Some ErrLeaseNotFound, s)
      | Some lease \<Rightarrow>
          (case map_of (fsm_data s) key of
             None \<Rightarrow> (Some ErrKeyNotFound, s)
           | Some _ \<Rightarrow> (None, append_lease_key leaseID key s)))"

text \<open>\<open>Apply\<close>: the revision grows for every entry that decodes, also when the command
  fails or is unknown.\<close>

definition apply_cmd :: "int \<Rightarrow> FSMCommand \<Rightarrow> KVStateMachine \<Rightarrow> raft_err option \<times> KVStateMachine" where
  "apply_cmd now cmd s =
     (if cmd_Op cmd = ''put'' then applyPut now (cmd_Key cmd) (cmd_Value cmd) (cmd_Lease cmd) s
      else if cmd_Op cmd = ''delete'' then applyDelete (cmd_Key cmd) s
      else if cmd_Op cmd = ''grant_lease'' then applyGrantLease now (cmd_Key cmd) (cmd_Value cmd) s
      else if cmd_Op cmd = ''revoke_lease'' then applyRevokeLease (cmd_Key cmd) s
      else if cmd_Op cmd = ''attach_lease'' then applyAttachLease (cmd_Key cmd) (cmd_Lease cmd) s
      else (Some (Errorf (''unknown command: '' @ cmd_Op cmd)), s))"

definition Apply :: "int \<Rightarrow> log_data \<Rightarrow> KVStateMachine \<Rightarrow> raft_err option \<times> KVStateMachine" where
  "Apply now d s =
     (case d of
        Undecodable e \<Rightarrow> (Some (Errorf e), s)
      | Encoded cmd \<Rightarrow> apply_cmd now cmd (s\<lparr>fsm_revision := fsm_revision s + 1\<rparr>))"

text \<open>Snapshot and restore. The size is not part of the snapshot: \<open>Restore\<close> recomputes it.\<close>

record snapshot_data =
  snap_Revision :: "64 word"
  snap_Data :: "(string, KVEntry) gomap"
  snap_Leases :: "(string, LeaseInfo) gomap"

definition Snapshot :: "KVStateMachine \<Rightarrow> snapshot_data" where
  "Snapshot s =
     \<lparr>snap_Revision = fsm_revision s, snap_Data = fsm_data s, snap_Leases = fsm_leases s\<rparr>"

definition Restore :: "snapshot_data \<Rightarrow> KVStateMachine \<Rightarrow> KVStateMachine" where
  "Restore d s =
     s\<lparr>fsm_revision := snap_Revision d, fsm_data := snap_Data d, fsm_leases := snap_Leases d,
       fsm_currentSize := foldl (\<lambda>sz (k, e). sz + entry_size k e) 0 (snap_Data d)\<rparr>"

definition fsm_Get :: "string \<Rightarrow> KVStateMachine \<Rightarrow> (raft_err, KVEntry) result" where
  "fsm_Get key s = (case map_of (fsm_data s) key of None \<Rightarrow> Inl ErrKeyNotFound | Some e \<Rightarrow> Inr e)"

definition fsm_List :: "string \<Rightarrow> KVStateMachine \<Rightarrow> KVEntry list" where
  "fsm_List pre s = map snd (filter (\<lambda>(k, e). HasPrefix k pre) (fsm_data s))"

definition GetRevision :: "KVStateMachine \<Rightarrow> 64 word" where
  "GetRevision s = fsm_revision s"

definition GetLease :: "string \<Rightarrow> KVStateMachine \<Rightarrow> (raft_err, LeaseInfo) result" where
  "GetLease leaseID s =
     (case map_of (fsm_leases s) leaseID of None \<Rightarrow> Inl ErrLeaseNotFound | Some l \<Rightarrow> Inr l)"

definition fsm_GetStats :: "KVStateMachine \<Rightarrow> 64 word \<times> nat \<times> int" where
  "fsm_GetStats s = (fsm_revision s, length (fsm_data s), fsm_currentSize s)"

subsection \<open>Invariants\<close>

text \<open>
  \<open>fsm_wf\<close>: the maps have distinct keys, every stored entry carries its own valid key, a
  value within the limit and a positive version, and \<open>currentSize\<close> is exactly the sum of
  the lengths of keys and values.
\<close>

definition entry_wf :: "int \<Rightarrow> string \<Rightarrow> KVEntry \<Rightarrow> bool" where
  "entry_wf maxV k e \<longleftrightarrow>
     entry_Key e = k \<and> isValidKey k \<and> int (length (entry_Value e)) \<le> maxV \<and> 1 \<le> entry_Version e
     \<and> entry_Revision e = entry_CreatedRevision e"

definition fsm_wf :: "KVStateMachine \<Rightarrow> bool" where
  "fsm_wf s \<longleftrightarrow>
     distinct (map fst (fsm_data s)) \<and> distinct (map fst (fsm_leases s))
     \<and> (\<forall>k e. map_of (fsm_data s) k = Some e \<longrightarrow> entry_wf (fsm_maxValueSize s) k e)
     \<and> (\<forall>i l. map_of (fsm_leases s) i = Some l \<longrightarrow> lease_ID l = i)
     \<and> fsm_currentSize s = gm_sum entry_size (fsm_data s)"

text \<open>\<open>rev_wf\<close>: no entry is newer than the store, as unsigned numbers.\<close>

definition rev_wf :: "KVStateMachine \<Rightarrow> bool" where
  "rev_wf s \<longleftrightarrow>
     (\<forall>k e. map_of (fsm_data s) k = Some e \<longrightarrow>
        entry_CreatedRevision e \<le> entry_ModifiedRevision e \<and> entry_ModifiedRevision e \<le> fsm_revision s)"

text \<open>The contents of the store, as its clients see them: an abstract map.\<close>

definition kv_abs :: "KVStateMachine \<Rightarrow> string \<rightharpoonup> bytes" where
  "kv_abs s k = map_option entry_Value (map_of (fsm_data s) k)"

definition lease_abs :: "KVStateMachine \<Rightarrow> string \<rightharpoonup> string list" where
  "lease_abs s i = map_option lease_Keys (map_of (fsm_leases s) i)"

subsection \<open>Specification\<close>

text \<open>
  What the store promises for a command, over the abstract map and the keys of each lease:
  a relation with one rule per outcome. \<open>spec_step cmd err st st'\<close> reads: answering
  \<open>err\<close>, the command takes \<open>st\<close> to \<open>st'\<close>. A put may be refused for the key, the
  size of the value or the budget; everything else is determined by the abstract state.
\<close>

type_synonym spec_state = "(string \<rightharpoonup> bytes) \<times> (string \<rightharpoonup> string list)"

inductive spec_step :: "FSMCommand \<Rightarrow> raft_err option \<Rightarrow> spec_state \<Rightarrow> spec_state \<Rightarrow> bool" where
  put_ok: "cmd_Op c = ''put'' \<Longrightarrow> isValidKey (cmd_Key c) \<Longrightarrow>
     ls' = (if cmd_Lease c \<noteq> [] \<and> cmd_Lease c \<in> dom ls
            then ls(cmd_Lease c \<mapsto> the (ls (cmd_Lease c)) @ [cmd_Key c]) else ls) \<Longrightarrow>
     spec_step c None (kv, ls) (kv(cmd_Key c \<mapsto> cmd_Value c), ls')"
| put_refused: "cmd_Op c = ''put'' \<Longrightarrow> e \<in> {ErrInvalidKey, ErrValueTooLarge, ErrStorageFull} \<Longrightarrow>
     (e = ErrInvalidKey \<longleftrightarrow> \<not> isValidKey (cmd_Key c)) \<Longrightarrow>
     (e = ErrStorageFull \<longrightarrow> kv (cmd_Key c) = None) \<Longrightarrow>
     spec_step c (Some e) (kv, ls) (kv, ls)"
| delete_ok: "cmd_Op c = ''delete'' \<Longrightarrow> cmd_Key c \<in> dom kv \<Longrightarrow>
     spec_step c None (kv, ls) (kv(cmd_Key c := None), ls)"
| delete_missing: "cmd_Op c = ''delete'' \<Longrightarrow> cmd_Key c \<notin> dom kv \<Longrightarrow>
     spec_step c (Some ErrKeyNotFound) (kv, ls) (kv, ls)"
| grant_ok: "cmd_Op c = ''grant_lease'' \<Longrightarrow> unmarshal_int64 (cmd_Value c) \<noteq> None \<Longrightarrow>
     spec_step c None (kv, ls) (kv, ls(cmd_Key c \<mapsto> []))"
| grant_bad_ttl: "cmd_Op c = ''grant_lease'' \<Longrightarrow> unmarshal_int64 (cmd_Value c) = None \<Longrightarrow>
     spec_step c (Some (Errorf m)) (kv, ls) (kv, ls)"
| revoke_ok: "cmd_Op c = ''revoke_lease'' \<Longrightarrow> ls (cmd_Key c) = Some ks \<Longrightarrow>
     spec_step c None (kv, ls) (kv |` (- set ks), ls(cmd_Key c := None))"
| revoke_missing: "cmd_Op c = ''revoke_lease'' \<Longrightarrow> cmd_Key c \<notin> dom ls \<Longrightarrow>
     spec_step c (Some ErrLeaseNotFound) (kv, ls) (kv, ls)"
| attach_ok: "cmd_Op c = ''attach_lease'' \<Longrightarrow> ls (cmd_Lease c) = Some ks \<Longrightarrow> cmd_Key c \<in> dom kv \<Longrightarrow>
     spec_step c None (kv, ls) (kv, ls(cmd_Lease c \<mapsto> ks @ [cmd_Key c]))"
| attach_no_lease: "cmd_Op c = ''attach_lease'' \<Longrightarrow> cmd_Lease c \<notin> dom ls \<Longrightarrow>
     spec_step c (Some ErrLeaseNotFound) (kv, ls) (kv, ls)"
| attach_no_key: "cmd_Op c = ''attach_lease'' \<Longrightarrow> cmd_Lease c \<in> dom ls \<Longrightarrow> cmd_Key c \<notin> dom kv \<Longrightarrow>
     spec_step c (Some ErrKeyNotFound) (kv, ls) (kv, ls)"
| unknown_op: "cmd_Op c \<notin> {''put'', ''delete'', ''grant_lease'', ''revoke_lease'', ''attach_lease''} \<Longrightarrow>
     spec_step c (Some (Errorf m)) (kv, ls) (kv, ls)"

subsection \<open>Replicas\<close>

text \<open>
  Every replica applies the same log, at its own wall clock. \<open>erase_times\<close> forgets the four
  time stamps; it is what two replicas can agree on.
\<close>

definition erase_entry :: "KVEntry \<Rightarrow> KVEntry" where
  "erase_entry e = e\<lparr>entry_CreateTime := 0, entry_ModTime := 0\<rparr>"

definition erase_lease :: "LeaseInfo \<Rightarrow> LeaseInfo" where
  "erase_lease l = l\<lparr>lease_GrantedAt := 0, lease_ExpiresAt := 0\<rparr>"

definition erase_times :: "KVStateMachine \<Rightarrow> KVStateMachine" where
  "erase_times s =
     s\<lparr>fsm_data := gm_map erase_entry (fsm_data s),
       fsm_leases := gm_map erase_lease (fsm_leases s)\<rparr>"

subsection \<open>Lemmas: keys\<close>

lemma concat_segments_Join:
  "ws \<noteq> [] \<Longrightarrow> concat (map (\<lambda>w. sep # w) ws) = sep # Join sep ws"
  by (induction sep ws rule: Join.induct) auto

lemma isValidKey_Split:
  "isValidKey k \<longleftrightarrow> (\<exists>r. k = CHR ''/'' # r \<and> [] \<notin> set (Split (CHR ''/'') r))"
proof (cases k)
  case (Cons c r)
  have "list_all (\<lambda>i. (x # xs) ! i \<noteq> []) [1..<length (x # xs)] \<longleftrightarrow> [] \<notin> set xs"
    for x :: string and xs
  proof -
    have eq: "[1..<length (x # xs)] = map Suc [0..<length xs]"
      by (metis One_nat_def length_Cons map_Suc_upt)
    show ?thesis
      unfolding eq list.pred_map comp_def by (auto simp: list_all_iff in_set_conv_nth)
  qed
  with Cons show ?thesis
    by (auto simp: isValidKey_def HasPrefix_def Let_def simp del: upt_Suc)
qed (simp add: isValidKey_def HasPrefix_def)

lemma isValidKey_segments:
  "isValidKey k \<longleftrightarrow>
     (\<exists>ws. ws \<noteq> [] \<and> (\<forall>w\<in>set ws. w \<noteq> [] \<and> CHR ''/'' \<notin> set w) \<and>
           k = concat (map (\<lambda>w. CHR ''/'' # w) ws))" (is "_ \<longleftrightarrow> (\<exists>ws. ?P ws)")
proof
  assume "isValidKey k"
  then obtain r where r: "k = CHR ''/'' # r" "[] \<notin> set (Split (CHR ''/'') r)"
    by (auto simp: isValidKey_Split)
  then have "?P (Split (CHR ''/'') r)"
    by (auto simp: concat_segments_Join dest: Split_no_sep)
  then show "\<exists>ws. ?P ws" ..
next
  assume "\<exists>ws. ?P ws"
  then obtain ws where ws: "?P ws" ..
  then have "k = CHR ''/'' # Join (CHR ''/'') ws" and "Split (CHR ''/'') (Join (CHR ''/'') ws) = ws"
    by (auto simp: concat_segments_Join intro!: Split_Join)
  with ws show "isValidKey k" unfolding isValidKey_Split by metis
qed

subsection \<open>Lemmas: frames\<close>

lemma append_lease_key_frame [simp]:
  "fsm_data (append_lease_key i k s) = fsm_data s"
  "fsm_revision (append_lease_key i k s) = fsm_revision s"
  "fsm_maxValueSize (append_lease_key i k s) = fsm_maxValueSize s"
  "fsm_maxStorageSize (append_lease_key i k s) = fsm_maxStorageSize s"
  "fsm_currentSize (append_lease_key i k s) = fsm_currentSize s"
  by (simp_all add: append_lease_key_def split: option.split)

lemma applyDelete_frame [simp]:
  "fsm_leases (snd (applyDelete k s)) = fsm_leases s"
  "fsm_revision (snd (applyDelete k s)) = fsm_revision s"
  "fsm_maxValueSize (snd (applyDelete k s)) = fsm_maxValueSize s"
  "fsm_maxStorageSize (snd (applyDelete k s)) = fsm_maxStorageSize s"
  by (simp_all add: applyDelete_def split: option.split)

lemma delete_keys_frame [simp]:
  "fsm_leases (fold (\<lambda>k t. snd (applyDelete k t)) ks s) = fsm_leases s"
  "fsm_revision (fold (\<lambda>k t. snd (applyDelete k t)) ks s) = fsm_revision s"
  "fsm_maxValueSize (fold (\<lambda>k t. snd (applyDelete k t)) ks s) = fsm_maxValueSize s"
  "fsm_maxStorageSize (fold (\<lambda>k t. snd (applyDelete k t)) ks s) = fsm_maxStorageSize s"
  by (induction ks arbitrary: s) simp_all

lemma apply_cmd_frame [simp]:
  "fsm_revision (snd (apply_cmd now c s)) = fsm_revision s"
  "fsm_maxValueSize (snd (apply_cmd now c s)) = fsm_maxValueSize s"
  "fsm_maxStorageSize (snd (apply_cmd now c s)) = fsm_maxStorageSize s"
  by (simp_all add: apply_cmd_def applyPut_def applyGrantLease_def applyRevokeLease_def
      applyAttachLease_def Let_def split: option.split)

lemma Apply_frame [simp]:
  "fsm_maxValueSize (snd (Apply now d s)) = fsm_maxValueSize s"
  "fsm_maxStorageSize (snd (Apply now d s)) = fsm_maxStorageSize s"
  by (simp_all add: Apply_def split: log_data.split)

subsection \<open>Lemmas: the abstract map\<close>

lemma kv_abs_eq: "fsm_data s = fsm_data t \<Longrightarrow> kv_abs s = kv_abs t"
  by (simp add: kv_abs_def fun_eq_iff)

lemma kv_abs_revision [simp]: "kv_abs (s\<lparr>fsm_revision := r\<rparr>) = kv_abs s"
  by (simp add: kv_abs_def fun_eq_iff)

lemma lease_abs_revision [simp]: "lease_abs (s\<lparr>fsm_revision := r\<rparr>) = lease_abs s"
  by (simp add: lease_abs_def fun_eq_iff)

lemma kv_abs_append_lease [simp]: "kv_abs (append_lease_key i k s) = kv_abs s"
  by (rule kv_abs_eq) simp

lemma lease_abs_append:
  "lease_abs (append_lease_key i k s) =
     (case lease_abs s i of None \<Rightarrow> lease_abs s | Some ks \<Rightarrow> (lease_abs s)(i \<mapsto> ks @ [k]))"
  by (auto simp: append_lease_key_def lease_abs_def fun_eq_iff split: option.split)

lemma kv_abs_delete: "kv_abs (snd (applyDelete k s)) = (kv_abs s)(k := None)"
  by (auto simp: applyDelete_def kv_abs_def fun_eq_iff split: option.split)

lemma lease_abs_delete [simp]: "lease_abs (snd (applyDelete k s)) = lease_abs s"
  by (simp add: lease_abs_def fun_eq_iff)

lemma kv_abs_delete_keys:
  "kv_abs (fold (\<lambda>k t. snd (applyDelete k t)) ks s) = kv_abs s |` (- set ks)"
proof (induction ks arbitrary: s)
  case (Cons k ks)
  then show ?case by (auto simp: kv_abs_delete restrict_map_def fun_eq_iff)
qed (simp add: restrict_map_def)

subsection \<open>Lemmas: the invariants\<close>

lemma fsm_wf_init: "fsm_wf (NewKVStateMachine mv ms)"
  by (simp add: fsm_wf_def NewKVStateMachine_def)

lemma rev_wf_init: "rev_wf (NewKVStateMachine mv ms)"
  by (simp add: rev_wf_def NewKVStateMachine_def)

lemma append_lease_key_wf [inv_intros]: "fsm_wf s \<Longrightarrow> fsm_wf (append_lease_key i k s)"
  by (auto simp: append_lease_key_def fsm_wf_def split: option.split)

lemma applyPut_wf [inv_intros]:
  assumes "fsm_wf s"
  shows "fsm_wf (snd (applyPut now k v l s))"
proof (cases "map_of (fsm_data s) k")
  case None
  with assms show ?thesis
    by (auto simp: applyPut_def Let_def intro!: append_lease_key_wf)
       (auto simp: fsm_wf_def entry_wf_def gm_sum_update_new entry_size_def)
next
  case (Some e)
  with assms show ?thesis
    by (auto simp: applyPut_def Let_def intro!: append_lease_key_wf)
       (fastforce simp: fsm_wf_def entry_wf_def gm_sum_update_old entry_size_def)+
qed

lemma applyDelete_wf [inv_intros]: "fsm_wf s \<Longrightarrow> fsm_wf (snd (applyDelete k s))"
  by (auto simp: applyDelete_def fsm_wf_def gm_sum_delete split: option.split)

lemma delete_keys_wf [inv_intros]:
  "fsm_wf s \<Longrightarrow> fsm_wf (fold (\<lambda>k t. snd (applyDelete k t)) ks s)"
  by (induction ks arbitrary: s) (auto intro: applyDelete_wf)

lemma applyGrantLease_wf [inv_intros]: "fsm_wf s \<Longrightarrow> fsm_wf (snd (applyGrantLease now i b s))"
  by (auto simp: applyGrantLease_def fsm_wf_def Let_def split: option.split)

lemma fsm_wf_drop_lease: "fsm_wf s \<Longrightarrow> fsm_wf (s\<lparr>fsm_leases := AList.delete i (fsm_leases s)\<rparr>)"
  by (auto simp: fsm_wf_def)

lemma applyRevokeLease_wf [inv_intros]: "fsm_wf s \<Longrightarrow> fsm_wf (snd (applyRevokeLease i s))"
  by (auto simp: applyRevokeLease_def Let_def intro: inv_intros split: option.split)
     (metis delete_keys_frame(1) delete_keys_wf fsm_wf_drop_lease)

lemma applyAttachLease_wf [inv_intros]: "fsm_wf s \<Longrightarrow> fsm_wf (snd (applyAttachLease k i s))"
  by (auto simp: applyAttachLease_def intro: inv_intros split: option.split)

lemma apply_cmd_wf [inv_intros]: "fsm_wf s \<Longrightarrow> fsm_wf (snd (apply_cmd now c s))"
  by (simp add: apply_cmd_def inv_intros)

lemma fsm_wf_revision [simp]: "fsm_wf (s\<lparr>fsm_revision := r\<rparr>) \<longleftrightarrow> fsm_wf s"
  by (simp add: fsm_wf_def)

lemma Apply_wf [inv_intros]: "fsm_wf s \<Longrightarrow> fsm_wf (snd (Apply now d s))"
  by (simp add: Apply_def inv_intros split: log_data.split)

text \<open>The replicated log is processed one entry at a time: the store is a \<open>machine\<close>.\<close>

interpretation fsm_run: machine "\<lambda>(now, d) s. snd (Apply now d s)" fsm_wf
  by unfold_locales (auto intro: Apply_wf)

lemma rev_wf_data:
  assumes "rev_wf s" and "fsm_revision t = fsm_revision s"
    and "\<And>k e. map_of (fsm_data t) k = Some e \<Longrightarrow> map_of (fsm_data s) k = Some e"
  shows "rev_wf t"
  using assms unfolding rev_wf_def by metis

lemma applyPut_rev_wf: "rev_wf s \<Longrightarrow> rev_wf (snd (applyPut now k v l s))"
  by (auto simp: applyPut_def Let_def rev_wf_def split: option.split)
     (blast intro: order_trans)+

lemma delete_keys_data:
  "map_of (fsm_data (fold (\<lambda>k t. snd (applyDelete k t)) ks s)) k = Some e \<Longrightarrow>
     map_of (fsm_data s) k = Some e"
proof (induction ks arbitrary: s)
  case (Cons a ks)
  then have "map_of (fsm_data (snd (applyDelete a s))) k = Some e" by simp
  then show ?case by (auto simp: applyDelete_def split: option.splits if_splits)
qed simp

lemma apply_cmd_rev_wf: "rev_wf s \<Longrightarrow> rev_wf (snd (apply_cmd now c s))"
proof -
  assume s: "rev_wf s"
  have "rev_wf (snd (applyDelete k s))" for k
    using s by (rule rev_wf_data) (auto simp: applyDelete_def split: option.splits if_splits)
  moreover have "rev_wf (snd (applyGrantLease now i b s))" for i b
    using s by (rule rev_wf_data) (auto simp: applyGrantLease_def Let_def split: option.splits)
  moreover have "rev_wf (snd (applyRevokeLease i s))" for i
    using s by (rule rev_wf_data)
      (auto simp: applyRevokeLease_def Let_def dest: delete_keys_data split: option.splits)
  moreover have "rev_wf (snd (applyAttachLease k i s))" for k i
    using s by (rule rev_wf_data) (auto simp: applyAttachLease_def split: option.splits)
  ultimately show ?thesis using s by (simp add: apply_cmd_def applyPut_rev_wf)
qed

lemma Apply_rev_wf:
  assumes "rev_wf s" and "fsm_revision s \<noteq> - 1"
  shows "rev_wf (snd (Apply now d s))"
proof -
  have "\<not> fsm_revision s + 1 \<le> fsm_revision s"
    using assms(2) by (simp add: inc_less_eq_self_iff_eq)
  then have "fsm_revision s \<le> fsm_revision s + 1" by (simp add: not_le order_less_imp_le)
  with assms(1) have "rev_wf (s\<lparr>fsm_revision := fsm_revision s + 1\<rparr>)"
    by (auto simp: rev_wf_def intro: order_trans)
  with assms(1) show ?thesis
    by (simp add: Apply_def apply_cmd_rev_wf split: log_data.split)
qed

subsection \<open>Lemmas: refinement of the specification\<close>

lemma dom_kv_abs: "k \<in> dom (kv_abs s) \<longleftrightarrow> map_of (fsm_data s) k \<noteq> None"
  by (auto simp: kv_abs_def dom_def)

lemma applyPut_cases [consumes 1, case_names refused stored]:
  assumes "applyPut now k v i s = (r, t)"
  obtains e where "r = Some e" and "t = s" and "e \<in> {ErrInvalidKey, ErrValueTooLarge, ErrStorageFull}"
      and "e = ErrInvalidKey \<longleftrightarrow> \<not> isValidKey k" and "e = ErrStorageFull \<Longrightarrow> kv_abs s k = None"
  | "r = None" and "isValidKey k" and "kv_abs t = (kv_abs s)(k \<mapsto> v)"
      and "lease_abs t = (if i \<noteq> [] \<and> i \<in> dom (lease_abs s)
              then (lease_abs s)(i \<mapsto> the (lease_abs s i) @ [k]) else lease_abs s)"
proof (cases r)
  case (Some e)
  with assms show thesis
    by (intro that(1) [of e])
       (auto simp: applyPut_def Let_def kv_abs_def split: if_splits option.splits)
next
  case None
  have "kv_abs t = (kv_abs s)(k \<mapsto> v)"
    using assms None
    by (auto simp: applyPut_def Let_def kv_abs_def fun_eq_iff split: if_splits option.splits)
  moreover have "lease_abs t = (if i \<noteq> [] then lease_abs (append_lease_key i k s) else lease_abs s)"
    using assms None
    by (auto simp: applyPut_def Let_def lease_abs_def append_lease_key_def fun_eq_iff
        split: if_splits option.splits)
  moreover have "isValidKey k"
    using assms None by (auto simp: applyPut_def Let_def split: if_splits option.splits)
  ultimately show thesis
    using None by (intro that(2)) (auto simp: lease_abs_append split: option.split)
qed

lemma applyRevokeLease_abs:
  "lease_abs s i = Some ks \<Longrightarrow>
     kv_abs (snd (applyRevokeLease i s)) = kv_abs s |` (- set ks)
     \<and> lease_abs (snd (applyRevokeLease i s)) = (lease_abs s)(i := None)
     \<and> fst (applyRevokeLease i s) = None"
proof -
  assume "lease_abs s i = Some ks"
  then obtain l where l: "map_of (fsm_leases s) i = Some l" "lease_Keys l = ks"
    by (auto simp: lease_abs_def)
  have "kv_abs (t\<lparr>fsm_leases := x\<rparr>) = kv_abs t" for t x
    by (rule kv_abs_eq) simp
  with l show ?thesis
    by (auto simp: applyRevokeLease_def Let_def kv_abs_delete_keys lease_abs_def fun_eq_iff)
qed

lemma apply_cmd_refines:
  "spec_step c (fst (apply_cmd now c s)) (kv_abs s, lease_abs s)
     (kv_abs (snd (apply_cmd now c s)), lease_abs (snd (apply_cmd now c s)))"
proof -
  consider (put) "cmd_Op c = ''put''" | (del) "cmd_Op c = ''delete''"
    | (grant) "cmd_Op c = ''grant_lease''" | (revoke) "cmd_Op c = ''revoke_lease''"
    | (attach) "cmd_Op c = ''attach_lease''"
    | (other) "cmd_Op c \<notin> {''put'', ''delete'', ''grant_lease'', ''revoke_lease'', ''attach_lease''}"
    by blast
  then show ?thesis
  proof cases
    case put
    obtain r t where rt: "applyPut now (cmd_Key c) (cmd_Value c) (cmd_Lease c) s = (r, t)"
      by fastforce
    then show ?thesis
    proof (cases rule: applyPut_cases)
      case (refused e)
      with rt put show ?thesis by (auto simp: apply_cmd_def intro!: put_refused)
    next
      case stored
      with rt put show ?thesis by (simp add: apply_cmd_def put_ok)
    qed
  next
    case del
    then show ?thesis
      using delete_ok [OF del] delete_missing [OF del]
        kv_abs_delete [of "cmd_Key c" s] lease_abs_delete [of "cmd_Key c" s]
      by (auto simp: apply_cmd_def applyDelete_def dom_kv_abs split: option.splits)
  next
    case grant
    have "kv_abs (s\<lparr>fsm_leases := x\<rparr>) = kv_abs s" for x by (rule kv_abs_eq) simp
    moreover have "lease_abs (s\<lparr>fsm_leases := AList.update i l (fsm_leases s)\<rparr>)
        = (lease_abs s)(i \<mapsto> lease_Keys l)" for i l
      by (simp add: lease_abs_def fun_eq_iff)
    ultimately show ?thesis using grant grant_ok [OF grant] grant_bad_ttl [OF grant]
      by (auto simp: apply_cmd_def applyGrantLease_def Let_def split: option.split)
  next
    case revoke
    show ?thesis
    proof (cases "lease_abs s (cmd_Key c)")
      case None
      then have "cmd_Key c \<notin> dom (lease_abs s)" by (simp add: domIff)
      then show ?thesis
        using revoke None revoke_missing [OF revoke, of "lease_abs s" "kv_abs s"]
        by (auto simp: apply_cmd_def applyRevokeLease_def lease_abs_def)
    next
      case (Some ks)
      with revoke applyRevokeLease_abs [OF Some] revoke_ok [of c "lease_abs s" ks "kv_abs s"] Some
      show ?thesis by (simp add: apply_cmd_def)
    qed
  next
    case attach
    show ?thesis
    proof (cases "lease_abs s (cmd_Lease c)")
      case None
      then have "cmd_Lease c \<notin> dom (lease_abs s)" by (simp add: domIff)
      then show ?thesis
        using attach None attach_no_lease [OF attach, of "lease_abs s" "kv_abs s"]
        by (auto simp: apply_cmd_def applyAttachLease_def lease_abs_def)
    next
      case (Some ks)
      with attach show ?thesis
        using domI [of "lease_abs s", OF Some] attach_ok [of c "lease_abs s" ks "kv_abs s"] attach_no_key [OF attach, of "lease_abs s" "kv_abs s"]
        by (auto simp: apply_cmd_def applyAttachLease_def lease_abs_append dom_kv_abs
            simp: lease_abs_def split: option.splits)
    qed
  next
    case other
    then show ?thesis by (simp add: apply_cmd_def unknown_op)
  qed
qed

subsection \<open>Lemmas: replicas\<close>

lemma erase_entry_idem [simp]: "erase_entry \<circ> erase_entry = erase_entry"
  by (simp add: erase_entry_def fun_eq_iff)

lemma erase_lease_idem [simp]: "erase_lease \<circ> erase_lease = erase_lease"
  by (simp add: erase_lease_def fun_eq_iff)

lemma erase_fields [simp]:
  "entry_Value (erase_entry e) = entry_Value e"
  "lease_Keys (erase_lease l) = lease_Keys l"
  "fsm_revision (erase_times s) = fsm_revision s"
  "fsm_maxValueSize (erase_times s) = fsm_maxValueSize s"
  "fsm_maxStorageSize (erase_times s) = fsm_maxStorageSize s"
  "fsm_currentSize (erase_times s) = fsm_currentSize s"
  "fsm_data (erase_times s) = gm_map erase_entry (fsm_data s)"
  "fsm_leases (erase_times s) = gm_map erase_lease (fsm_leases s)"
  by (simp_all add: erase_entry_def erase_lease_def erase_times_def)

lemma erase_entry_size [simp]: "entry_size k (erase_entry e) = entry_size k e"
  by (simp add: entry_size_def)

lemma erase_lease_Keys [simp]:
  "erase_lease (l\<lparr>lease_Keys := ks\<rparr>) = (erase_lease l)\<lparr>lease_Keys := ks\<rparr>"
  by (cases l) (simp add: erase_lease_def)

lemma erase_append_lease:
  "erase_times (append_lease_key i k s) = append_lease_key i k (erase_times s)"
  by (auto simp: append_lease_key_def erase_times_def gm_map_update split: option.split)

lemma erase_applyPut:
  "erase_times (snd (applyPut now k v i s)) = erase_times (snd (applyPut 0 k v i (erase_times s)))
   \<and> fst (applyPut now k v i s) = fst (applyPut 0 k v i (erase_times s))"
  by (auto simp: applyPut_def Let_def erase_append_lease split: option.split)
     (auto simp: erase_times_def gm_map_update erase_entry_def intro!: arg_cong [where f = "append_lease_key i k"])

lemma erase_applyDelete:
  "erase_times (snd (applyDelete k s)) = snd (applyDelete k (erase_times s))
   \<and> fst (applyDelete k s) = fst (applyDelete k (erase_times s))"
  by (auto simp: applyDelete_def erase_times_def gm_map_delete split: option.split)

lemma erase_delete_keys:
  "erase_times (fold (\<lambda>k t. snd (applyDelete k t)) ks s)
     = fold (\<lambda>k t. snd (applyDelete k t)) ks (erase_times s)"
  by (induction ks arbitrary: s) (simp_all add: erase_applyDelete)

lemma erase_applyGrantLease:
  "erase_times (snd (applyGrantLease now i b s)) = erase_times (snd (applyGrantLease 0 i b (erase_times s)))
   \<and> fst (applyGrantLease now i b s) = fst (applyGrantLease 0 i b (erase_times s))"
  by (auto simp: applyGrantLease_def Let_def erase_times_def gm_map_update erase_lease_def
      split: option.split)

lemma erase_drop_lease:
  "erase_times (s\<lparr>fsm_leases := AList.delete i (fsm_leases s)\<rparr>)
     = (erase_times s)\<lparr>fsm_leases := AList.delete i (fsm_leases (erase_times s))\<rparr>"
  by (simp add: erase_times_def gm_map_delete)

lemma erase_applyRevokeLease:
  "erase_times (snd (applyRevokeLease i s)) = snd (applyRevokeLease i (erase_times s))
   \<and> fst (applyRevokeLease i s) = fst (applyRevokeLease i (erase_times s))"
proof (cases "map_of (fsm_leases s) i")
  case (Some l)
  let ?t = "fold (\<lambda>k t. snd (applyDelete k t)) (lease_Keys l) s"
  have "erase_times (?t\<lparr>fsm_leases := AList.delete i (fsm_leases ?t)\<rparr>)
      = (erase_times ?t)\<lparr>fsm_leases := AList.delete i (fsm_leases (erase_times ?t))\<rparr>"
    by (rule erase_drop_lease)
  with Some show ?thesis by (simp add: applyRevokeLease_def Let_def erase_delete_keys)
qed (simp add: applyRevokeLease_def)

lemma erase_applyAttachLease:
  "erase_times (snd (applyAttachLease k i s)) = snd (applyAttachLease k i (erase_times s))
   \<and> fst (applyAttachLease k i s) = fst (applyAttachLease k i (erase_times s))"
  by (auto simp: applyAttachLease_def erase_append_lease split: option.split)

lemma erase_times_idem [simp]: "erase_times (erase_times s) = erase_times s"
  by (simp add: erase_times_def)

lemma erase_apply_cmd:
  "erase_times (snd (apply_cmd now c s)) = erase_times (snd (apply_cmd 0 c (erase_times s)))
   \<and> fst (apply_cmd now c s) = fst (apply_cmd 0 c (erase_times s))"
proof -
  have "erase_times (snd (applyDelete k s)) = erase_times (snd (applyDelete k (erase_times s)))" for k
    by (metis erase_applyDelete erase_times_idem)
  moreover have "erase_times (snd (applyRevokeLease i s)) = erase_times (snd (applyRevokeLease i (erase_times s)))" for i
    by (metis erase_applyRevokeLease erase_times_idem)
  moreover have "erase_times (snd (applyAttachLease k i s)) = erase_times (snd (applyAttachLease k i (erase_times s)))" for k i
    by (metis erase_applyAttachLease erase_times_idem)
  ultimately show ?thesis
    using erase_applyPut erase_applyGrantLease erase_applyDelete erase_applyRevokeLease
      erase_applyAttachLease
    by (simp add: apply_cmd_def)
qed

lemma erase_Apply:
  "erase_times (snd (Apply now d s)) = erase_times (snd (Apply 0 d (erase_times s)))
   \<and> fst (Apply now d s) = fst (Apply 0 d (erase_times s))"
proof (cases d)
  case (Encoded c)
  have "erase_times (s\<lparr>fsm_revision := r\<rparr>) = (erase_times s)\<lparr>fsm_revision := r\<rparr>" for r
    by (simp add: erase_times_def)
  with erase_apply_cmd [of now c "s\<lparr>fsm_revision := fsm_revision s + 1\<rparr>"] Encoded
  show ?thesis by (simp add: Apply_def)
qed (simp add: Apply_def)

lemma Apply_lockstep:
  assumes "erase_times s = erase_times t"
  shows "erase_times (snd (Apply now d s)) = erase_times (snd (Apply now' d t))"
    and "fst (Apply now d s) = fst (Apply now' d t)"
  using assms erase_Apply [of now d s] erase_Apply [of now' d t] by simp_all

interpretation replicas: lockstep
  "\<lambda>(now, now', d) s. snd (Apply now d s)" "\<lambda>(now, now', d) s. snd (Apply now' d s)"
  "\<lambda>s t. erase_times s = erase_times t"
  by unfold_locales (auto intro: Apply_lockstep(1))

lemma foldl_sum_eq: "foldl (\<lambda>sz (k, e). sz + entry_size k e) a m = a + gm_sum entry_size m"
  by (induction m arbitrary: a) auto

subsection \<open>Lemmas: revisions along a log\<close>

abbreviation apply_log :: "(int \<times> log_data) list \<Rightarrow> KVStateMachine \<Rightarrow> KVStateMachine" where
  "apply_log \<equiv> fold (\<lambda>(now, d) s. snd (Apply now d s))"

definition is_encoded :: "log_data \<Rightarrow> bool" where
  "is_encoded d = (case d of Undecodable _ \<Rightarrow> False | Encoded _ \<Rightarrow> True)"

lemma Apply_revision:
  "fsm_revision (snd (Apply now d s)) = (if is_encoded d then fsm_revision s + 1 else fsm_revision s)"
  by (simp add: Apply_def is_encoded_def split: log_data.split)

lemma apply_log_revision:
  "fsm_revision (apply_log es s) = fsm_revision s + of_nat (length (filter (is_encoded \<circ> snd) es))"
  by (induction es arbitrary: s) (auto simp: Apply_revision algebra_simps)

lemma apply_log_limits [simp]:
  "fsm_maxValueSize (apply_log es s) = fsm_maxValueSize s"
  "fsm_maxStorageSize (apply_log es s) = fsm_maxStorageSize s"
  by (induction es arbitrary: s) auto

lemma unat_revision_step:
  fixes r :: "64 word"
  assumes "unat r + 1 < 2 ^ 64"
  shows "r \<noteq> - 1" and "unat (r + 1) = unat r + 1"
proof -
  show "unat (r + 1) = unat r + 1"
    using assms by (simp add: unat_word_ariths)
  then show "r \<noteq> - 1" by auto
qed

lemma apply_log_rev_wf:
  "rev_wf s \<Longrightarrow> unat (fsm_revision s) + length es < 2 ^ 64 \<Longrightarrow> rev_wf (apply_log es s)"
proof (induction es arbitrary: s)
  case (Cons x es)
  obtain now d where x: "x = (now, d)" by (cases x)
  have lt: "unat (fsm_revision s) + 1 < 2 ^ 64" using Cons.prems(2) by simp
  have "rev_wf (snd (Apply now d s))"
    using Cons.prems(1) unat_revision_step(1) [OF lt] by (rule Apply_rev_wf)
  moreover have "unat (fsm_revision (snd (Apply now d s))) + length es < 2 ^ 64"
    using Cons.prems(2) unat_revision_step(2) [OF lt] by (simp add: Apply_revision)
  ultimately show ?case using Cons.IH [of "snd (Apply now d s)"] x by simp
qed simp

subsection \<open>Properties\<close>

text \<open>
  C2: whatever entries the log holds, decodable or not, and whenever they are applied, a
  store that starts empty keeps its invariant: its maps have distinct keys, every entry is
  filed under its own key, which is valid, with a value within the limit, a positive version
  and a revision equal to its creation revision, every lease is filed under its identifier,
  and the accounted size is exactly the sum of the lengths of all keys and values.
\<close>

theorem fsm_log_invariant: "fsm_wf (apply_log es (NewKVStateMachine maxV maxS))"
  by (rule fsm_run.run_inv [OF fsm_wf_init])

text \<open>
  C1: every command the state machine applies is a step of the abstract specification: the
  answer and the change of the visible map and of the keys attached to the leases are the
  ones the specification allows for that command, on every branch.
\<close>

theorem fsm_refines_spec:
  "spec_step c (fst (Apply now (Encoded c) s)) (kv_abs s, lease_abs s)
     (kv_abs (snd (Apply now (Encoded c) s)), lease_abs (snd (Apply now (Encoded c) s)))"
  using apply_cmd_refines [of c now "s\<lparr>fsm_revision := fsm_revision s + 1\<rparr>"]
  by (simp add: Apply_def)

text \<open>
  C3: two replicas that apply the same log at different wall clocks agree on everything but
  the four time stamps, and give the same answer to the next entry.
\<close>

theorem replicas_agree:
  assumes "map snd es = map snd es'"
  shows "erase_times (apply_log es s) = erase_times (apply_log es' s)
       \<and> fst (Apply now d (apply_log es s)) = fst (Apply now' d (apply_log es' s))"
proof -
  have "fold (\<lambda>(now, now', d) s. snd (Apply now d s)) (zip (map fst es) es') t = apply_log es t"
    "fold (\<lambda>(now, now', d) s. snd (Apply now' d s)) (zip (map fst es) es') t = apply_log es' t" for t
    using assms by (induction es es' arbitrary: t rule: list_induct2' ) auto
  with replicas.run_rel [of s s "zip (map fst es) es'"]
  have "erase_times (apply_log es s) = erase_times (apply_log es' s)" by simp
  then show ?thesis using Apply_lockstep(2) by blast
qed

theorem replicas_agree_witness:
  "erase_times (apply_log [(1, Encoded \<lparr>cmd_Op = ''put'', cmd_Key = ''/a'', cmd_Value = ''v'', cmd_Lease = []\<rparr>)]
       (NewKVStateMachine 10 100))
   = erase_times (apply_log [(7, Encoded \<lparr>cmd_Op = ''put'', cmd_Key = ''/a'', cmd_Value = ''v'', cmd_Lease = []\<rparr>)]
       (NewKVStateMachine 10 100))"
  using replicas_agree [of "[(1, Encoded \<lparr>cmd_Op = ''put'', cmd_Key = ''/a'', cmd_Value = ''v'', cmd_Lease = []\<rparr>)]"
      "[(7, Encoded \<lparr>cmd_Op = ''put'', cmd_Key = ''/a'', cmd_Value = ''v'', cmd_Lease = []\<rparr>)]"
      "NewKVStateMachine 10 100" 0 "Undecodable []" 0]
  by simp



text \<open>
  The accepted keys are exactly the hierarchical ones: one or more segments, each
  non-empty and free of slashes, each preceded by a slash.
\<close>

theorem valid_key_iff_hierarchical:
  "isValidKey k \<longleftrightarrow>
     (\<exists>ws. ws \<noteq> [] \<and> (\<forall>w\<in>set ws. w \<noteq> [] \<and> CHR ''/'' \<notin> set w) \<and>
           k = concat (map (\<lambda>w. CHR ''/'' # w) ws))"
  by (rule isValidKey_segments)

theorem valid_key_iff_hierarchical_witness: "isValidKey ''/org/o1'' \<and> \<not> isValidKey ''/org//o1''"
proof -
  have "isValidKey ''/org/o1''"
    by (rule valid_key_iff_hierarchical [THEN iffD2], rule exI [of _ "[''org'', ''o1'']"]) simp
  moreover have "\<not> isValidKey ''/org//o1''" by (simp add: isValidKey_def HasPrefix_def Let_def)
  ultimately show ?thesis ..
qed

text \<open>
  C30: along any log shorter than the range of the revision counter, the revision counts the
  decodable entries, it never wraps, and no entry of the store claims a revision beyond it
  or a creation after its last modification.
\<close>

theorem revision_counts_entries:
  assumes "length es < 2 ^ 64"
  shows "unat (fsm_revision (apply_log es (NewKVStateMachine maxV maxS))) = length (filter (is_encoded \<circ> snd) es)
       \<and> rev_wf (apply_log es (NewKVStateMachine maxV maxS))"
proof
  have "length (filter (is_encoded \<circ> snd) es) < 2 ^ 64"
    using assms length_filter_le le_less_trans by blast
  then show "unat (fsm_revision (apply_log es (NewKVStateMachine maxV maxS))) = length (filter (is_encoded \<circ> snd) es)"
    by (simp add: apply_log_revision NewKVStateMachine_def unat_of_nat)
  show "rev_wf (apply_log es (NewKVStateMachine maxV maxS))"
    using assms by (intro apply_log_rev_wf rev_wf_init) (simp add: NewKVStateMachine_def)
qed

theorem revision_counts_entries_witness:
  "unat (fsm_revision (apply_log [(0, Undecodable []), (3, Encoded \<lparr>cmd_Op = ''nop'', cmd_Key = [], cmd_Value = [], cmd_Lease = []\<rparr>)]
      (NewKVStateMachine 10 100))) = 1"
  using revision_counts_entries [of "[(0, Undecodable []), (3, Encoded \<lparr>cmd_Op = ''nop'', cmd_Key = [], cmd_Value = [], cmd_Lease = []\<rparr>)]" 10 100]
  by (simp add: is_encoded_def)

text \<open>
  The storage budget is checked for new keys only. Overwriting an existing key with any
  value within the per-value limit is accepted whatever the budget, so the accounted size
  can grow past it; a new key is accepted exactly when it still fits.
\<close>

theorem budget_checked_for_new_keys_only:
  assumes "isValidKey k" and "int (length v) \<le> fsm_maxValueSize s"
  shows "fst (applyPut now k v i s) = None \<longleftrightarrow>
           k \<in> dom (kv_abs s) \<or> fsm_currentSize s + int (length k + length v) \<le> fsm_maxStorageSize s"
  using assms by (auto simp: applyPut_def Let_def dom_kv_abs split: option.split)

text \<open>The witness: with a budget of four bytes, a key of two bytes ends up holding nine.\<close>

theorem budget_checked_for_new_keys_only_witness:
  "(let s = snd (applyPut 0 ''/a'' ''x'' [] (NewKVStateMachine 10 4)) in
      fst (applyPut 0 ''/a'' ''123456789'' [] s) = None
      \<and> fsm_currentSize (snd (applyPut 0 ''/a'' ''123456789'' [] s)) > fsm_maxStorageSize s)"
proof -
  let ?s = "snd (applyPut 0 ''/a'' ''x'' [] (NewKVStateMachine 10 4))"
  have k: "isValidKey ''/a''" by (simp add: isValidKey_def HasPrefix_def)
  have s: "fsm_maxValueSize ?s = 10" "''/a'' \<in> dom (kv_abs ?s)" "fsm_maxStorageSize ?s = 4"
    by (simp_all add: k applyPut_def NewKVStateMachine_def Let_def dom_kv_abs)
  have "fst (applyPut 0 ''/a'' ''123456789'' [] ?s) = None"
    using budget_checked_for_new_keys_only [OF k, of "''123456789''" ?s] s by simp
  moreover have "fsm_currentSize (snd (applyPut 0 ''/a'' ''123456789'' [] ?s)) = 11"
    by (simp add: k applyPut_def NewKVStateMachine_def Let_def)
  ultimately show ?thesis using s by (simp add: Let_def)
qed

end
