(* ===== verification/Raft_Node.thy ===== *)
theory Raft_Node
  imports KV_FSM "HOL-Library.List_Lexorder" "HOL-Library.Char_ord"
begin

text \<open>
  A node of the cluster and its key-value interface: \<open>internal/raft/node.go\<close> and
  \<open>internal/raft/kv.go\<close>. The consensus library (hashicorp/raft) is not part of the
  repository: what the code observes of it is a parameter. \<open>R :: raft_env\<close> gives, for the
  \<open>n\<close>-th interaction of this node with the library or with the state machine it drives,
  one \<open>raft_obs\<close>: the state of the local Raft instance, the outcome of \<open>VerifyLeader\<close>,
  the known leader, the error of the future of \<open>Apply\<close>, the clock, the identifier drawn,
  and the log entries that other clients got committed and applied since the previous
  interaction. Theorems quantify over all environments, hence over all interleavings.

  A method is an action of the state monad over the node; a pair \<open>(x, err)\<close> of the code is
  a \<open>result\<close>, a lone \<open>error\<close> an \<open>raft_err option\<close>.
\<close>

subsection \<open>The environment and the node\<close>

datatype raft_state = Follower | Candidate | Leader | Shutdown

record raft_obs =
  ob_State :: raft_state
  ob_verify :: bool
  ob_leader_addr :: string
  ob_apply_err :: "raft_err option"
  ob_now :: int
  ob_uuid :: string
  ob_log :: "(int \<times> log_data) list"

type_synonym raft_env = "nat \<Rightarrow> raft_obs"

record Node =
  node_config :: NodeConfig
  node_started :: bool
  node_fsm :: KVStateMachine
  node_clock :: nat
  node_maintenanceMode :: bool
  node_lastKnownRole :: "NodeRole option"

type_synonym 'a action = "(Node, 'a) state"

abbreviation ret :: "'a \<Rightarrow> 'a action" where
  "ret \<equiv> State_Monad.return"

abbreviation get_node :: "Node action" where
  "get_node \<equiv> State_Monad.get"

definition observe :: "raft_env \<Rightarrow> raft_obs action" where
  "observe R = State (\<lambda>n. let ob = R (node_clock n) in
     (ob, n\<lparr>node_clock := Suc (node_clock n), node_fsm := apply_log (ob_log ob) (node_fsm n)\<rparr>))"

text \<open>One committed entry of our own reaches the state machine.\<close>

definition commit_entry :: "int \<Rightarrow> log_data \<Rightarrow> raft_err option action" where
  "commit_entry now d = State (\<lambda>n.
     (fst (Apply now d (node_fsm n)), n\<lparr>node_fsm := snd (Apply now d (node_fsm n))\<rparr>))"

subsection \<open>node.go\<close>

text \<open>The configuration checks of \<open>NewNode\<close>; creating the data directory is the
  parameter \<open>mkdir\<close>.\<close>

definition NewNode :: "(string \<Rightarrow> raft_err option) \<Rightarrow> NodeConfig option \<Rightarrow> (raft_err, Node) result" where
  "NewNode mkdir config =
     (let c = (case config of None \<Rightarrow> DefaultNodeConfig | Some c \<Rightarrow> c) in
      if cfg_NodeID c = [] then Inl (Errorf ''node ID is required'')
      else if cfg_BindAddr c = [] then Inl (Errorf ''bind address is required'')
      else if cfg_DataDir c = [] then Inl (Errorf ''data directory is required'')
      else case mkdir (cfg_DataDir c) of
          Some e \<Rightarrow> Inl (Wrapf ''failed to create data directory'' e)
        | None \<Rightarrow> Inr \<lparr>node_config = c, node_started = False, node_fsm = NewKVStateMachine 0 0,
                       node_clock = 0, node_maintenanceMode = False, node_lastKnownRole = None\<rparr>)"

definition GetRole :: "raft_env \<Rightarrow> NodeRole action" where
  "GetRole R = do {
     n \<leftarrow> get_node;
     if \<not> node_started n then ret RoleFollower
     else do {
       ob \<leftarrow> observe R;
       ret (case ob_State ob of
              Leader \<Rightarrow> RoleLeader | Candidate \<Rightarrow> RoleCandidate
            | Follower \<Rightarrow> RoleFollower | Shutdown \<Rightarrow> RoleFollower)
     }
   }"

definition IsLeader :: "raft_env \<Rightarrow> bool action" where
  "IsLeader R = do { r \<leftarrow> GetRole R; ret (r = RoleLeader) }"

definition GetLeader :: "raft_env \<Rightarrow> (raft_err, string) result action" where
  "GetLeader R = do {
     n \<leftarrow> get_node;
     if \<not> node_started n then ret (Inl (Errorf ''raft not initialized''))
     else do {
       ob \<leftarrow> observe R;
       if ob_leader_addr ob = [] then ret (Inl (Errorf ''no leader elected''))
       else ret (Inr (ob_leader_addr ob))
     }
   }"

definition node_Apply :: "raft_env \<Rightarrow> log_data \<Rightarrow> raft_err option action" where
  "node_Apply R cmd = do {
     n \<leftarrow> get_node;
     if \<not> node_started n then ret (Some (Errorf ''raft not initialized''))
     else do {
       leader \<leftarrow> IsLeader R;
       if \<not> leader then ret (Some ErrNotLeader)
       else do {
         ob \<leftarrow> observe R;
         case ob_apply_err ob of
           Some e \<Rightarrow> ret (Some e)
         | None \<Rightarrow> commit_entry (ob_now ob) cmd
       }
     }
   }"

definition SetMaintenanceMode :: "raft_env \<Rightarrow> bool \<Rightarrow> raft_err option action" where
  "SetMaintenanceMode R enabled = do {
     leader \<leftarrow> IsLeader R;
     if \<not> leader then ret (Some ErrNotLeader)
     else do {
       n \<leftarrow> get_node;
       State_Monad.set (n\<lparr>node_maintenanceMode := enabled\<rparr>);
       ret None
     }
   }"

definition VerifyLeader :: "raft_env \<Rightarrow> raft_err option action" where
  "VerifyLeader R = do {
     n \<leftarrow> get_node;
     if \<not> node_started n then ret (Some (Errorf ''raft not initialized''))
     else do {
       ob \<leftarrow> observe R;
       if \<not> ob_verify ob then do {
         r \<leftarrow> GetLeader R;
         ret (Some (RaftError ''not_leader''
            (''this node is not the leader; current leader is '' @ (case r of Inl _ \<Rightarrow> [] | Inr a \<Rightarrow> a))))
       }
       else ret None
     }
   }"

text \<open>One tick of \<open>monitorLeadershipChanges\<close>: the flag given to the callbacks, if they are
  invoked. The initial role is the empty string, no role.\<close>

definition monitor_tick :: "raft_env \<Rightarrow> bool option action" where
  "monitor_tick R = do {
     currentRole \<leftarrow> GetRole R;
     n \<leftarrow> get_node;
     if node_lastKnownRole n \<noteq> Some currentRole then do {
       State_Monad.set (n\<lparr>node_lastKnownRole := Some currentRole\<rparr>);
       (let wasLeader = (node_lastKnownRole n = Some RoleLeader);
            isLeader = (currentRole = RoleLeader)
        in ret (if wasLeader \<noteq> isLeader then Some isLeader else None))
     }
     else ret None
   }"

text \<open>The servers a bootstrap submits: the node itself, then the peers but for itself, all
  voters, at most three.\<close>

definition bootstrap_servers :: "NodeConfig \<Rightarrow> string \<Rightarrow> (string \<times> string \<times> ServerSuffrage) list" where
  "bootstrap_servers c localAddr =
     (let servers = (cfg_NodeID c, localAddr, Voter)
            # map (\<lambda>peer. (peer, peer, Voter)) (filter (\<lambda>peer. peer \<noteq> cfg_NodeID c) (cfg_BootstrapPeers c))
      in if length servers > 3 then take 3 servers else servers)"

subsection \<open>kv.go\<close>

definition read_fsm :: "raft_env \<Rightarrow> (KVStateMachine \<Rightarrow> 'a) \<Rightarrow> 'a action" where
  "read_fsm R f = do { ob \<leftarrow> observe R; n \<leftarrow> get_node; ret (f (node_fsm n)) }"

definition getLinearizable :: "raft_env \<Rightarrow> string \<Rightarrow> (raft_err, KVEntry) result action" where
  "getLinearizable R key = do {
     v \<leftarrow> VerifyLeader R;
     case v of
       Some _ \<Rightarrow> do {
         r \<leftarrow> GetLeader R;
         case r of
           Inl _ \<Rightarrow> ret (Inl ErrNotLeader)
         | Inr addr \<Rightarrow> ret (Inl (RaftError ''not_leader'' (''not the leader; leader is at '' @ addr)))
       }
     | None \<Rightarrow> read_fsm R (fsm_Get key)
   }"

definition getStale :: "raft_env \<Rightarrow> string \<Rightarrow> (raft_err, KVEntry) result action" where
  "getStale R key = read_fsm R (fsm_Get key)"

definition kv_Get :: "raft_env \<Rightarrow> string \<Rightarrow> ReadMode \<Rightarrow> (raft_err, KVEntry) result action" where
  "kv_Get R key mode = do {
     n \<leftarrow> get_node;
     if \<not> node_started n then ret (Inl (Errorf ''raft not initialized''))
     else case mode of
         ReadModeLinearizable \<Rightarrow> getLinearizable R key
       | ReadModeStale \<Rightarrow> getStale R key
       | ReadModeOther m \<Rightarrow> ret (Inl (Errorf (''invalid read mode: '' @ m)))
   }"

definition put_command :: "string \<Rightarrow> bytes \<Rightarrow> string \<Rightarrow> FSMCommand" where
  "put_command key val leaseID =
     \<lparr>cmd_Op = ''put'', cmd_Key = key, cmd_Value = val, cmd_Lease = leaseID\<rparr>"

definition delete_command :: "string \<Rightarrow> FSMCommand" where
  "delete_command key = \<lparr>cmd_Op = ''delete'', cmd_Key = key, cmd_Value = [], cmd_Lease = []\<rparr>"

definition kv_Put :: "raft_env \<Rightarrow> string \<Rightarrow> bytes \<Rightarrow> string \<Rightarrow> raft_err option action" where
  "kv_Put R key val leaseID = do {
     n \<leftarrow> get_node;
     if \<not> node_started n then ret (Some (Errorf ''raft not initialized''))
     else if \<not> isValidKey key then ret (Some ErrInvalidKey)
     else node_Apply R (Encoded (put_command key val leaseID))
   }"

definition kv_Delete :: "raft_env \<Rightarrow> string \<Rightarrow> raft_err option action" where
  "kv_Delete R key = do {
     n \<leftarrow> get_node;
     if \<not> node_started n then ret (Some (Errorf ''raft not initialized''))
     else node_Apply R (Encoded (delete_command key))
   }"

definition kv_List :: "raft_env \<Rightarrow> string \<Rightarrow> ReadMode \<Rightarrow> (raft_err, KVEntry list) result action" where
  "kv_List R pre mode = do {
     n \<leftarrow> get_node;
     if \<not> node_started n then ret (Inl (Errorf ''raft not initialized''))
     else case mode of
         ReadModeLinearizable \<Rightarrow> do {
           v \<leftarrow> VerifyLeader R;
           case v of
             Some _ \<Rightarrow> do {
               r \<leftarrow> GetLeader R;
               ret (Inl (RaftError ''not_leader''
                  (''not the leader; leader is at '' @ (case r of Inl _ \<Rightarrow> [] | Inr a \<Rightarrow> a))))
             }
           | None \<Rightarrow> read_fsm R (\<lambda>s. Inr (fsm_List pre s))
         }
       | ReadModeStale \<Rightarrow> read_fsm R (\<lambda>s. Inr (fsm_List pre s))
       | ReadModeOther m \<Rightarrow> ret (Inl (Errorf (''invalid read mode: '' @ m)))
   }"

text \<open>Go compares strings bytewise in lexicographic order, which is the order of
  \<open>List_Lexorder\<close> on characters.\<close>

definition GetRange :: "raft_env \<Rightarrow> string \<Rightarrow> string \<Rightarrow> ReadMode \<Rightarrow> (raft_err, KVEntry list) result action" where
  "GetRange R startKey endKey mode = do {
     r \<leftarrow> kv_List R [] mode;
     ret (case r of
            Inl e \<Rightarrow> Inl e
          | Inr entries \<Rightarrow> Inr (filter (\<lambda>e. startKey \<le> entry_Key e \<and> entry_Key e < endKey) entries))
   }"

definition CompareAndSwap :: "raft_env \<Rightarrow> string \<Rightarrow> 64 word \<Rightarrow> bytes \<Rightarrow> raft_err option action" where
  "CompareAndSwap R key expectedRevision newValue = do {
     n \<leftarrow> get_node;
     if \<not> node_started n then ret (Some (Errorf ''raft not initialized''))
     else do {
       r \<leftarrow> kv_Get R key ReadModeLinearizable;
       case r of
         Inl e \<Rightarrow>
           (if e \<noteq> ErrKeyNotFound then ret (Some e)
            else if expectedRevision \<noteq> 0
            then ret (Some (RaftError ''revision_mismatch''
                   (''key does not exist, but expected revision '' @ show_nat (unat expectedRevision))))
            else kv_Put R key newValue [])
       | Inr current \<Rightarrow>
           (if entry_Revision current \<noteq> expectedRevision
            then ret (Some (RaftError ''revision_mismatch''
                   (''revision mismatch: expected '' @ show_nat (unat expectedRevision)
                    @ '', got '' @ show_nat (unat (entry_Revision current)))))
            else kv_Put R key newValue [])
     }
   }"

definition PutIfNotExists :: "raft_env \<Rightarrow> string \<Rightarrow> bytes \<Rightarrow> (raft_err, bool) result action" where
  "PutIfNotExists R key val = do {
     n \<leftarrow> get_node;
     if \<not> node_started n then ret (Inl (Errorf ''raft not initialized''))
     else do {
       r \<leftarrow> kv_Get R key ReadModeLinearizable;
       case r of
         Inr _ \<Rightarrow> ret (Inr False)
       | Inl e \<Rightarrow>
           (if e \<noteq> ErrKeyNotFound then ret (Inl e)
            else do {
              p \<leftarrow> kv_Put R key val [];
              ret (case p of Some e' \<Rightarrow> Inl e' | None \<Rightarrow> Inr True)
            })
     }
   }"

type_synonym Transaction = "FSMCommand list"

definition NewTransaction :: Transaction where
  "NewTransaction = []"

definition tx_Put :: "string \<Rightarrow> bytes \<Rightarrow> Transaction \<Rightarrow> Transaction" where
  "tx_Put key val tx = tx @ [put_command key val []]"

definition tx_Delete :: "string \<Rightarrow> Transaction \<Rightarrow> Transaction" where
  "tx_Delete key tx = tx @ [delete_command key]"

fun commit_ops :: "raft_env \<Rightarrow> FSMCommand list \<Rightarrow> raft_err option action" where
  "commit_ops R [] = ret None"
| "commit_ops R (c # cs) = do {
     e \<leftarrow> node_Apply R (Encoded c);
     case e of Some err \<Rightarrow> ret (Some err) | None \<Rightarrow> commit_ops R cs
   }"

definition kv_Commit :: "raft_env \<Rightarrow> Transaction \<Rightarrow> raft_err option action" where
  "kv_Commit R tx = do {
     n \<leftarrow> get_node;
     if \<not> node_started n then ret (Some (Errorf ''raft not initialized''))
     else commit_ops R tx
   }"

definition kv_GetRevision :: "raft_env \<Rightarrow> (64 word) action" where
  "kv_GetRevision R = do {
     n \<leftarrow> get_node;
     if \<not> node_started n then ret 0 else read_fsm R GetRevision
   }"

subsection \<open>Sequences of client calls\<close>

datatype kv_op =
    OpGet string ReadMode | OpPut string bytes string | OpDelete string
  | OpList string ReadMode | OpGetRange string string ReadMode
  | OpCompareAndSwap string "64 word" bytes | OpPutIfNotExists string bytes
  | OpCommit Transaction | OpSetMaintenance bool | OpMonitor

fun exec_kv_op :: "raft_env \<Rightarrow> kv_op \<Rightarrow> unit action" where
  "exec_kv_op R (OpGet k m) = do { _ \<leftarrow> kv_Get R k m; ret () }"
| "exec_kv_op R (OpPut k v l) = do { _ \<leftarrow> kv_Put R k v l; ret () }"
| "exec_kv_op R (OpDelete k) = do { _ \<leftarrow> kv_Delete R k; ret () }"
| "exec_kv_op R (OpList p m) = do { _ \<leftarrow> kv_List R p m; ret () }"
| "exec_kv_op R (OpGetRange a b m) = do { _ \<leftarrow> GetRange R a b m; ret () }"
| "exec_kv_op R (OpCompareAndSwap k r v) = do { _ \<leftarrow> CompareAndSwap R k r v; ret () }"
| "exec_kv_op R (OpPutIfNotExists k v) = do { _ \<leftarrow> PutIfNotExists R k v; ret () }"
| "exec_kv_op R (OpCommit tx) = do { _ \<leftarrow> kv_Commit R tx; ret () }"
| "exec_kv_op R (OpSetMaintenance b) = do { _ \<leftarrow> SetMaintenanceMode R b; ret () }"
| "exec_kv_op R OpMonitor = do { _ \<leftarrow> monitor_tick R; ret () }"

definition run_kv_ops :: "raft_env \<Rightarrow> kv_op list \<Rightarrow> Node \<Rightarrow> Node" where
  "run_kv_ops R ops n = fold (\<lambda>op m. snd (run_state (exec_kv_op R op) m)) ops n"

subsection \<open>Environments\<close>

text \<open>\<open>stable_leader R\<close>: the node is and stays the leader, and its entries get committed.
  \<open>quiet R\<close>: no other client writes.\<close>

definition stable_leader :: "raft_env \<Rightarrow> bool" where
  "stable_leader R \<longleftrightarrow> (\<forall>i. ob_State (R i) = Leader \<and> ob_verify (R i) \<and> ob_apply_err (R i) = None)"

definition quiet :: "raft_env \<Rightarrow> bool" where
  "quiet R \<longleftrightarrow> (\<forall>i. ob_log (R i) = [])"

text \<open>A concrete environment and node, for the witnesses.\<close>

definition demo_env :: raft_env where
  "demo_env = (\<lambda>i. \<lparr>ob_State = Leader, ob_verify = True, ob_leader_addr = ''n1'', ob_apply_err = None,
                    ob_now = int i, ob_uuid = ''id'' @ show_nat i, ob_log = []\<rparr>)"

definition demo_node :: Node where
  "demo_node = \<lparr>node_config = DefaultNodeConfig, node_started = True, node_fsm = NewKVStateMachine 100 1000,
                node_clock = 0, node_maintenanceMode = False, node_lastKnownRole = None\<rparr>"

definition race_env :: raft_env where
  "race_env = (\<lambda>i. if i = 3 then (demo_env i)\<lparr>ob_log := [(9, Encoded (put_command ''/locks/a'' ''B'' []))]\<rparr>
                  else demo_env i)"

definition demo_node1 :: Node where
  "demo_node1 = demo_node\<lparr>node_fsm := (NewKVStateMachine 100 1000)
     \<lparr>fsm_data := [(''/a'', \<lparr>entry_Key = ''/a'', entry_Value = ''0'', entry_Revision = 1,
                            entry_CreatedRevision = 1, entry_ModifiedRevision = 1, entry_Version = 1,
                            entry_CreateTime = 0, entry_ModTime = 0\<rparr>)],
       fsm_revision := 1, fsm_currentSize := 3\<rparr>\<rparr>"

subsection \<open>Lemmas: writes go through the log\<close>

text \<open>\<open>log_extends n n'\<close>: the state machine of \<open>n'\<close> is the one of \<open>n\<close> after some
  log entries.\<close>

definition log_extends :: "Node \<Rightarrow> Node \<Rightarrow> bool" where
  "log_extends n n' \<longleftrightarrow>
     (\<exists>es. node_fsm n' = apply_log es (node_fsm n))
     \<and> node_started n' = node_started n \<and> node_config n' = node_config n"

named_theorems via_log \<open>actions that write the store only through the log\<close>

lemma log_extends_refl: "log_extends n n"
  unfolding log_extends_def by (metis fold_simps(1))

lemma log_extends_trans: "log_extends n m \<Longrightarrow> log_extends m k \<Longrightarrow> log_extends n k"
  unfolding log_extends_def by (metis comp_apply fold_append)

interpretation ext: io_preorder log_extends
  by unfold_locales (fact log_extends_refl, fact log_extends_trans)

lemma log_extends_wf: "log_extends n n' \<Longrightarrow> fsm_wf (node_fsm n) \<Longrightarrow> fsm_wf (node_fsm n')"
  unfolding log_extends_def by (metis fsm_run.run_inv)

lemma observe_via_log [via_log]: "state_io_rel log_extends (observe R)"
  by (auto simp: state_io_rel_def observe_def Let_def log_extends_def)

lemma commit_entry_via_log [via_log]: "state_io_rel log_extends (commit_entry now d)"
proof -
  have "\<exists>es. snd (Apply now d s) = apply_log es s" for s
    by (rule exI [of _ "[(now, d)]"]) simp
  then show ?thesis by (simp add: state_io_rel_def commit_entry_def log_extends_def)
qed

lemma GetRole_via_log [via_log]: "state_io_rel log_extends (GetRole R)"
  unfolding GetRole_def by (intro ext.io_intros via_log)

lemma IsLeader_via_log [via_log]: "state_io_rel log_extends (IsLeader R)"
  unfolding IsLeader_def by (intro ext.io_intros via_log)

lemma GetLeader_via_log [via_log]: "state_io_rel log_extends (GetLeader R)"
  unfolding GetLeader_def by (intro ext.io_intros via_log)

lemma node_Apply_via_log [via_log]: "state_io_rel log_extends (node_Apply R d)"
  unfolding node_Apply_def by (intro ext.io_intros via_log)

lemma VerifyLeader_via_log [via_log]: "state_io_rel log_extends (VerifyLeader R)"
  unfolding VerifyLeader_def by (intro ext.io_intros via_log)

lemma log_extends_fields:
  "log_extends n n' \<Longrightarrow> log_extends n (n'\<lparr>node_maintenanceMode := b\<rparr>)"
  "log_extends n n' \<Longrightarrow> log_extends n (n'\<lparr>node_lastKnownRole := r\<rparr>)"
  by (simp_all add: log_extends_def)

lemma SetMaintenanceMode_via_log [via_log]: "state_io_rel log_extends (SetMaintenanceMode R b)"
  using state_io_relD [OF IsLeader_via_log]
  by (auto simp: SetMaintenanceMode_def state_io_rel_def split: prod.split
      intro: log_extends_fields)

lemma monitor_tick_via_log [via_log]: "state_io_rel log_extends (monitor_tick R)"
  using state_io_relD [OF GetRole_via_log]
  by (auto simp: monitor_tick_def state_io_rel_def Let_def split: prod.split
      intro: log_extends_fields)

lemma read_fsm_via_log [via_log]: "state_io_rel log_extends (read_fsm R f)"
  unfolding read_fsm_def by (intro ext.io_intros via_log)

lemma getLinearizable_via_log [via_log]: "state_io_rel log_extends (getLinearizable R k)"
  unfolding getLinearizable_def by (intro ext.io_intros via_log)

lemma kv_Get_via_log [via_log]: "state_io_rel log_extends (kv_Get R k m)"
  unfolding kv_Get_def getStale_def
  by (cases m) (auto intro!: ext.io_intros via_log)

lemma kv_Put_via_log [via_log]: "state_io_rel log_extends (kv_Put R k v l)"
  unfolding kv_Put_def by (intro ext.io_intros via_log)

lemma kv_Delete_via_log [via_log]: "state_io_rel log_extends (kv_Delete R k)"
  unfolding kv_Delete_def by (intro ext.io_intros via_log)

lemma kv_List_via_log [via_log]: "state_io_rel log_extends (kv_List R p m)"
  unfolding kv_List_def
  by (cases m) (auto intro!: ext.io_intros via_log)

lemma GetRange_via_log [via_log]: "state_io_rel log_extends (GetRange R a b m)"
  unfolding GetRange_def by (intro ext.io_intros via_log)

lemma CompareAndSwap_via_log [via_log]: "state_io_rel log_extends (CompareAndSwap R k r v)"
  unfolding CompareAndSwap_def by (intro ext.io_intros via_log)

lemma PutIfNotExists_via_log [via_log]: "state_io_rel log_extends (PutIfNotExists R k v)"
  unfolding PutIfNotExists_def by (intro ext.io_intros via_log)

lemma commit_ops_via_log [via_log]: "state_io_rel log_extends (commit_ops R cs)"
  by (induction cs) (auto intro!: ext.io_intros via_log)

lemma kv_Commit_via_log [via_log]: "state_io_rel log_extends (kv_Commit R tx)"
  unfolding kv_Commit_def by (intro ext.io_intros via_log)

lemma exec_kv_op_via_log [via_log]: "state_io_rel log_extends (exec_kv_op R op)"
  by (cases op) (auto intro!: ext.io_intros via_log)

interpretation kv_clients: machine "\<lambda>op n. snd (run_state (exec_kv_op R op) n)" "fsm_wf \<circ> node_fsm"
  by unfold_locales
     (auto simp: state_io_rel_def intro: log_extends_wf exec_kv_op_via_log [unfolded state_io_rel_def, rule_format])

subsection \<open>Lemmas: running the actions\<close>

named_theorems runs \<open>the runs of the primitive actions\<close>

lemma run_observe [runs]:
  "run_state (observe R) n =
     (R (node_clock n), n\<lparr>node_clock := Suc (node_clock n),
        node_fsm := apply_log (ob_log (R (node_clock n))) (node_fsm n)\<rparr>)"
  by (simp add: observe_def Let_def)

lemma run_commit_entry [runs]:
  "run_state (commit_entry now d) n =
     (fst (Apply now d (node_fsm n)), n\<lparr>node_fsm := snd (Apply now d (node_fsm n))\<rparr>)"
  by (simp add: commit_entry_def)

lemma run_read_fsm [runs]:
  "run_state (read_fsm R f) n =
     (let m = n\<lparr>node_clock := Suc (node_clock n),
                node_fsm := apply_log (ob_log (R (node_clock n))) (node_fsm n)\<rparr>
      in (f (node_fsm m), m))"
  by (simp add: read_fsm_def runs Let_def)

text \<open>What \<open>node_Apply\<close> answers \<open>None\<close> for: the entry was applied, as the last one.\<close>

lemma node_Apply_ok:
  assumes "run_state (node_Apply R d) n = (None, n')"
  shows "node_started n
       \<and> (\<exists>es now. fst (Apply now d (apply_log es (node_fsm n))) = None
                \<and> node_fsm n' = snd (Apply now d (apply_log es (node_fsm n))))"
proof -
  let ?es = "ob_log (R (node_clock n)) @ ob_log (R (Suc (node_clock n)))"
  have "apply_log ?es (node_fsm n)
      = apply_log (ob_log (R (Suc (node_clock n)))) (apply_log (ob_log (R (node_clock n))) (node_fsm n))"
    by simp
  with assms show ?thesis
    by (auto simp: node_Apply_def IsLeader_def GetRole_def runs split: if_splits option.splits raft_state.splits
        intro!: exI [of _ ?es] exI [of _ "ob_now (R (Suc (node_clock n)))"])
qed

lemma node_Apply_stable [runs]:
  assumes "stable_leader R" and "quiet R" and "node_started n"
  shows "run_state (node_Apply R d) n =
     (fst (Apply (ob_now (R (Suc (node_clock n)))) d (node_fsm n)),
      n\<lparr>node_clock := node_clock n + 2,
        node_fsm := snd (Apply (ob_now (R (Suc (node_clock n)))) d (node_fsm n))\<rparr>)"
  using assms
  by (simp add: node_Apply_def IsLeader_def GetRole_def runs stable_leader_def quiet_def)

lemma kv_Get_stable [runs]:
  assumes "stable_leader R" and "quiet R" and "node_started n"
  shows "run_state (kv_Get R k ReadModeLinearizable) n =
           (fsm_Get k (node_fsm n), n\<lparr>node_clock := node_clock n + 2\<rparr>)"
  using assms
  by (simp add: kv_Get_def getLinearizable_def VerifyLeader_def runs Let_def stable_leader_def quiet_def)

lemma kv_Put_stable [runs]:
  assumes "stable_leader R" and "quiet R" and "node_started n" and "isValidKey k"
  shows "run_state (kv_Put R k v l) n =
     (let now = ob_now (R (Suc (node_clock n))); d = Encoded (put_command k v l) in
      (fst (Apply now d (node_fsm n)),
       n\<lparr>node_clock := node_clock n + 2, node_fsm := snd (Apply now d (node_fsm n))\<rparr>))"
  using assms by (simp add: kv_Put_def runs Let_def)

lemma Apply_put:
  "Apply now (Encoded (put_command k v l)) s =
     applyPut now k v l (s\<lparr>fsm_revision := fsm_revision s + 1\<rparr>)"
  by (simp add: Apply_def apply_cmd_def put_command_def)

text \<open>A put into a store where the key exists keeps the revision of its creation.\<close>

lemma Apply_put_existing:
  assumes "map_of (fsm_data s) k = Some e" and "isValidKey k" and "int (length v) \<le> fsm_maxValueSize s"
  obtains e' where "fst (Apply now (Encoded (put_command k v [])) s) = None"
    and "map_of (fsm_data (snd (Apply now (Encoded (put_command k v [])) s))) k = Some e'"
    and "entry_Value e' = v" and "entry_Revision e' = entry_Revision e"
    and "entry_ModifiedRevision e' = fsm_revision s + 1"
  using assms by (simp add: Apply_put applyPut_def Let_def)

lemma kv_abs_Some_entry: "kv_abs s k = Some v \<longleftrightarrow> (\<exists>e. map_of (fsm_data s) k = Some e \<and> entry_Value e = v)"
  by (auto simp: kv_abs_def)

lemma Apply_put_ok_abs:
  assumes "fst (Apply now (Encoded (put_command k v l)) s) = None"
  shows "isValidKey k" and "kv_abs (snd (Apply now (Encoded (put_command k v l)) s)) = (kv_abs s)(k \<mapsto> v)"
proof -
  obtain r t where rt: "applyPut now k v l (s\<lparr>fsm_revision := fsm_revision s + 1\<rparr>) = (r, t)"
    by fastforce
  have "r = None" using assms rt by (simp add: Apply_put)
  with rt have "isValidKey k \<and> kv_abs t = (kv_abs s)(k \<mapsto> v)"
    by (cases rule: applyPut_cases) auto
  with rt show "isValidKey k" "kv_abs (snd (Apply now (Encoded (put_command k v l)) s)) = (kv_abs s)(k \<mapsto> v)"
    by (simp_all add: Apply_put)
qed

lemma Apply_put_failed_abs:
  assumes "fst (Apply now (Encoded (put_command k v l)) s) = Some e"
  shows "kv_abs (snd (Apply now (Encoded (put_command k v l)) s)) = kv_abs s"
proof -
  obtain r t where rt: "applyPut now k v l (s\<lparr>fsm_revision := fsm_revision s + 1\<rparr>) = (r, t)"
    by fastforce
  have "r = Some e" using assms rt by (simp add: Apply_put)
  with rt have "kv_abs t = kv_abs s"
    by (cases rule: applyPut_cases) auto
  with rt show ?thesis by (simp add: Apply_put)
qed

lemma Apply_put_lease_abs: "lease_abs (snd (Apply now (Encoded (put_command k v [])) s)) = lease_abs s"
proof -
  obtain r t where rt: "applyPut now k v [] (s\<lparr>fsm_revision := fsm_revision s + 1\<rparr>) = (r, t)"
    by fastforce
  then have "lease_abs t = lease_abs s" by (cases rule: applyPut_cases) auto
  with rt show ?thesis by (simp add: Apply_put)
qed

lemma PutIfNotExists_stable [consumes 4, case_names held created refused]:
  assumes "stable_leader R" and "quiet R" and "node_started n" and "isValidKey k"
  obtains n' where "run_state (PutIfNotExists R k v) n = (Inr False, n')" and "node_started n'"
      and "k \<in> dom (kv_abs (node_fsm n))" and "node_fsm n' = node_fsm n"
  | n' where "run_state (PutIfNotExists R k v) n = (Inr True, n')" and "node_started n'"
      and "k \<notin> dom (kv_abs (node_fsm n))" and "kv_abs (node_fsm n') = (kv_abs (node_fsm n))(k \<mapsto> v)"
      and "lease_abs (node_fsm n') = lease_abs (node_fsm n)"
  | e n' where "run_state (PutIfNotExists R k v) n = (Inl e, n')" and "node_started n'"
      and "k \<notin> dom (kv_abs (node_fsm n))" and "kv_abs (node_fsm n') = kv_abs (node_fsm n)"
      and "lease_abs (node_fsm n') = lease_abs (node_fsm n)"
proof (cases "map_of (fsm_data (node_fsm n)) k")
  case (Some e)
  with assms have "run_state (PutIfNotExists R k v) n = (Inr False, n\<lparr>node_clock := node_clock n + 2\<rparr>)"
    by (simp add: PutIfNotExists_def runs fsm_Get_def)
  then show thesis
    using Some assms(3) by (intro that(1) [of "n\<lparr>node_clock := node_clock n + 2\<rparr>"]) (auto simp: dom_kv_abs)
next
  case None
  let ?now = "ob_now (R (Suc (node_clock n + 2)))"
  let ?a = "Apply ?now (Encoded (put_command k v [])) (node_fsm n)"
  let ?n' = "n\<lparr>node_clock := node_clock n + 4, node_fsm := snd ?a\<rparr>"
  have run: "run_state (PutIfNotExists R k v) n
      = (case fst ?a of Some e \<Rightarrow> Inl e | None \<Rightarrow> Inr True, ?n')"
    using assms None by (simp add: PutIfNotExists_def runs fsm_Get_def Let_def)
  have absent: "k \<notin> dom (kv_abs (node_fsm n))" using None by (simp add: dom_kv_abs)
  show thesis
  proof (cases "fst ?a")
    case None
    with run absent assms(3) show thesis
      using Apply_put_ok_abs(2) [OF None] Apply_put_lease_abs by (intro that(2) [of ?n']) auto
  next
    case (Some e)
    with run absent assms(3) show thesis
      using Apply_put_failed_abs [OF Some] Apply_put_lease_abs by (intro that(3) [of e ?n']) auto
  qed
qed

text \<open>How far a transaction got.\<close>

lemma commit_ops_prefix:
  assumes "stable_leader R" and "quiet R" and "node_started n"
    and "run_state (commit_ops R cs) n = (r, n')"
  shows "\<exists>es. map snd es = map Encoded (take (length es) cs) \<and> length es \<le> length cs
       \<and> node_fsm n' = apply_log es (node_fsm n)
       \<and> (r = None \<longrightarrow> length es = length cs)
       \<and> (\<forall>e. r = Some e \<longrightarrow> es \<noteq> []
            \<and> fst (Apply (fst (last es)) (snd (last es)) (apply_log (butlast es) (node_fsm n))) = Some e)"
  using assms(3,4)
proof (induction cs arbitrary: n)
  case Nil
  then show ?case by (intro exI [of _ "[]"]) simp
next
  case (Cons c cs)
  let ?t = "ob_now (R (Suc (node_clock n)))"
  let ?m = "n\<lparr>node_clock := node_clock n + 2, node_fsm := snd (Apply ?t (Encoded c) (node_fsm n))\<rparr>"
  show ?case
  proof (cases "fst (Apply ?t (Encoded c) (node_fsm n))")
    case None
    with Cons.prems have "run_state (commit_ops R cs) ?m = (r, n')"
      by (simp add: runs assms(1,2))
    with Cons.IH [of ?m] Cons.prems(1) obtain es where es:
        "map snd es = map Encoded (take (length es) cs)" "length es \<le> length cs"
        "node_fsm n' = apply_log es (node_fsm ?m)" "r = None \<longrightarrow> length es = length cs"
        "\<forall>e. r = Some e \<longrightarrow> es \<noteq> []
            \<and> fst (Apply (fst (last es)) (snd (last es)) (apply_log (butlast es) (node_fsm ?m))) = Some e"
      by auto
    then show ?thesis by (intro exI [of _ "(?t, Encoded c) # es"]) auto
  next
    case (Some e)
    with Cons.prems have "r = Some e" "node_fsm n' = snd (Apply ?t (Encoded c) (node_fsm n))"
      by (auto simp: runs assms(1,2))
    with Some show ?thesis by (intro exI [of _ "[(?t, Encoded c)]"]) auto
  qed
qed

lemma demo_env_stable [simp]: "stable_leader demo_env" "quiet demo_env"
  by (simp_all add: stable_leader_def quiet_def demo_env_def)

lemma demo_node_fields [simp]:
  "node_started demo_node" "node_clock demo_node = 0" "node_fsm demo_node = NewKVStateMachine 100 1000"
  by (simp_all add: demo_node_def)

subsection \<open>Properties\<close>



text \<open>
  Read your writes. When \<open>Put\<close> reports success, whatever happened in between, the key
  is valid and the local store holds the value; a stale read with no other entry in between
  returns it.
\<close>

theorem put_then_get:
  assumes "run_state (kv_Put R k v l) n = (None, n')" and "ob_log (R' (node_clock n')) = []"
  shows "isValidKey k \<and> kv_abs (node_fsm n') k = Some v
       \<and> (\<exists>e n''. run_state (kv_Get R' k ReadModeStale) n' = (Inr e, n'') \<and> entry_Value e = v)"
proof -
  have started: "node_started n" and valid: "isValidKey k"
      and run: "run_state (node_Apply R (Encoded (put_command k v l))) n = (None, n')"
    using assms(1) by (auto simp: kv_Put_def split: if_splits)
  then have "kv_abs (node_fsm n') k = Some v"
    using node_Apply_ok [OF run] Apply_put_ok_abs(2) by (metis fun_upd_same)
  moreover have "node_started n'"
    using state_io_relD [OF node_Apply_via_log run] started by (simp add: log_extends_def)
  ultimately show ?thesis
    using valid assms(2)
    by (auto simp: kv_Get_def getStale_def runs Let_def fsm_Get_def kv_abs_Some_entry)
qed

theorem put_then_get_witness:
  "(let n' = snd (run_state (kv_Put demo_env ''/a'' ''1'' []) demo_node) in
     kv_abs (node_fsm n') ''/a'' = Some ''1'')"
proof -
  have "run_state (kv_Put demo_env ''/a'' ''1'' []) demo_node
      = (None, snd (run_state (kv_Put demo_env ''/a'' ''1'' []) demo_node))"
    by (simp add: runs isValidKey_def HasPrefix_def Apply_put applyPut_def Let_def NewKVStateMachine_def)
  from put_then_get [OF this, of demo_env] show ?thesis by (simp add: demo_env_def Let_def)
qed

text \<open>
  On a stable leader with no other writer, \<open>PutIfNotExists\<close> creates the key exactly
  when it is absent and the store accepts it, reports \<open>false\<close> and changes nothing when the
  key is there, and on a refused write reports the error and changes nothing.
\<close>

theorem put_if_not_exists_sequential:
  assumes "stable_leader R" and "quiet R" and "node_started n" and "isValidKey k"
    and "run_state (PutIfNotExists R k v) n = (r, n')"
  shows "(k \<in> dom (kv_abs (node_fsm n)) \<longrightarrow> r = Inr False \<and> node_fsm n' = node_fsm n)
       \<and> (k \<notin> dom (kv_abs (node_fsm n)) \<longrightarrow>
             (r = Inr True \<and> kv_abs (node_fsm n') = (kv_abs (node_fsm n))(k \<mapsto> v))
             \<or> (isl r \<and> kv_abs (node_fsm n') = kv_abs (node_fsm n)))"
  using assms(1-4)
proof (cases rule: PutIfNotExists_stable [where v = v])
qed (use assms(5) in auto)

theorem put_if_not_exists_sequential_witness:
  "(let n' = snd (run_state (PutIfNotExists demo_env ''/a'' ''1'') demo_node) in
      \<exists>r. run_state (PutIfNotExists demo_env ''/a'' ''1'') demo_node = (r, n')
        \<and> (r = Inr True \<and> kv_abs (node_fsm n') = (kv_abs (node_fsm demo_node))(''/a'' \<mapsto> ''1'')
           \<or> isl r))"
proof -
  obtain r n' where rn: "run_state (PutIfNotExists demo_env ''/a'' ''1'') demo_node = (r, n')"
    by fastforce
  have "isValidKey ''/a''" by (simp add: isValidKey_def HasPrefix_def)
  moreover have "''/a'' \<notin> dom (kv_abs (node_fsm demo_node))"
    by (simp add: dom_kv_abs NewKVStateMachine_def)
  ultimately show ?thesis
    using put_if_not_exists_sequential [OF _ _ _ _ rn] rn by (auto simp: Let_def)
qed

text \<open>
  \<open>PutIfNotExists\<close> is a read followed by a write, not one atomic step. If another
  client's put of the same key is committed between the two, both clients are told that they
  created the key, and the value of the first is overwritten.
\<close>

theorem put_if_not_exists_race:
  assumes "stable_leader R" and "node_started n" and "isValidKey k" and "w \<noteq> v"
    and "\<forall>i. i \<noteq> node_clock n + 3 \<longrightarrow> ob_log (R i) = []"
    and "ob_log (R (node_clock n + 3)) = [(t, Encoded (put_command k w []))]"
    and "k \<notin> dom (kv_abs (node_fsm n))"
    and "fst (Apply t (Encoded (put_command k w [])) (node_fsm n)) = None"
    and "int (length v) \<le> fsm_maxValueSize (node_fsm n)"
    and "run_state (PutIfNotExists R k v) n = (r, n')"
  shows "r = Inr True \<and> kv_abs (node_fsm n') k = Some v"
proof -
  let ?s = "snd (Apply t (Encoded (put_command k w [])) (node_fsm n))"
  let ?t = "ob_now (R (node_clock n + 3))"
  have "kv_abs ?s k = Some w" using Apply_put_ok_abs(2) [OF assms(8)] by simp
  then obtain e where e: "map_of (fsm_data ?s) k = Some e" by (auto simp: kv_abs_Some_entry)
  have size: "int (length v) \<le> fsm_maxValueSize ?s" using assms(9) by simp
  obtain e' where ok: "fst (Apply ?t (Encoded (put_command k v [])) ?s) = None"
    using Apply_put_existing [OF e assms(3) size] by metis
  have absent: "map_of (fsm_data (node_fsm n)) k = None" using assms(7) by (simp add: dom_kv_abs)
  have clock: "Suc (Suc (Suc (node_clock n))) = node_clock n + 3" by simp
  have "r = Inr True \<and> node_fsm n' = snd (Apply ?t (Encoded (put_command k v [])) ?s)"
    using assms(1-3,5,6,10) absent ok
    by (auto simp: PutIfNotExists_def kv_Get_def getLinearizable_def VerifyLeader_def kv_Put_def
        node_Apply_def IsLeader_def GetRole_def stable_leader_def fsm_Get_def runs Let_def clock)
  then show ?thesis using Apply_put_ok_abs(2) [OF ok] by simp
qed

text \<open>The witness: the other client's lock value is lost, both see a creation.\<close>

theorem put_if_not_exists_race_witness:
  "fst (Apply 9 (Encoded (put_command ''/locks/a'' ''B'' [])) (node_fsm demo_node)) = None
   \<and> fst (run_state (PutIfNotExists race_env ''/locks/a'' ''A'') demo_node) = Inr True
   \<and> kv_abs (node_fsm (snd (run_state (PutIfNotExists race_env ''/locks/a'' ''A'') demo_node))) ''/locks/a'' = Some ''A''"
proof -
  obtain r n' where run: "run_state (PutIfNotExists race_env ''/locks/a'' ''A'') demo_node = (r, n')"
    by fastforce
  have other: "fst (Apply 9 (Encoded (put_command ''/locks/a'' ''B'' [])) (node_fsm demo_node)) = None"
    by (simp add: Apply_put applyPut_def isValidKey_def HasPrefix_def NewKVStateMachine_def Let_def)
  have "r = Inr True \<and> kv_abs (node_fsm n') ''/locks/a'' = Some ''A''"
  proof (rule put_if_not_exists_race [OF _ _ _ _ _ _ _ other _ run])
    show "stable_leader race_env" by (simp add: stable_leader_def race_env_def demo_env_def)
    show "\<forall>i. i \<noteq> node_clock demo_node + 3 \<longrightarrow> ob_log (race_env i) = []"
      by (simp add: race_env_def demo_env_def)
    show "ob_log (race_env (node_clock demo_node + 3)) = [(9, Encoded (put_command ''/locks/a'' ''B'' []))]"
      by (simp add: race_env_def)
    show "isValidKey ''/locks/a''" by (simp add: isValidKey_def HasPrefix_def Let_def)
    show "''/locks/a'' \<notin> dom (kv_abs (node_fsm demo_node))" by (simp add: dom_kv_abs NewKVStateMachine_def)
  qed (simp_all add: NewKVStateMachine_def)
  with run other show ?thesis by simp
qed

text \<open>
  \<open>CompareAndSwap\<close> compares with the \<open>Revision\<close> of the entry, which is set when the
  key is created and not when it is updated. A client that read the key before somebody
  else's update can still swap with the revision it read: the update is lost.
\<close>

theorem compare_and_swap_misses_updates:
  assumes "stable_leader R" and "quiet R" and "node_started n" and "isValidKey k"
    and "map_of (fsm_data (node_fsm n)) k = Some e"
    and "int (length w) \<le> fsm_maxValueSize (node_fsm n)" and "int (length v) \<le> fsm_maxValueSize (node_fsm n)"
    and "run_state (kv_Put R k w []) n = (r, m)"
    and "run_state (CompareAndSwap R k (entry_Revision e) v) m = (r', n')"
  shows "r = None \<and> kv_abs (node_fsm m) k = Some w \<and> r' = None \<and> kv_abs (node_fsm n') k = Some v"
proof -
  let ?t = "ob_now (R (Suc (node_clock n)))"
  obtain e1 where e1: "fst (Apply ?t (Encoded (put_command k w [])) (node_fsm n)) = None"
      "map_of (fsm_data (snd (Apply ?t (Encoded (put_command k w [])) (node_fsm n)))) k = Some e1"
      "entry_Value e1 = w" "entry_Revision e1 = entry_Revision e"
    using Apply_put_existing [OF assms(5,4,6)] by metis
  have m: "r = None" "node_fsm m = snd (Apply ?t (Encoded (put_command k w [])) (node_fsm n))" "node_started m"
    using assms(1-4,8) e1(1) by (auto simp: runs Let_def)
  let ?t' = "ob_now (R (Suc (node_clock m + 2)))"
  have size: "int (length v) \<le> fsm_maxValueSize (node_fsm m)" using assms(7) m(2) by simp
  obtain e2 where e2: "fst (Apply ?t' (Encoded (put_command k v [])) (node_fsm m)) = None"
    using Apply_put_existing [OF e1(2) [folded m(2)] assms(4) size] by metis
  have "r' = None \<and> node_fsm n' = snd (Apply ?t' (Encoded (put_command k v [])) (node_fsm m))"
    using assms(1,2,4,9) m(3) e1(2,4) m(2) e2
    by (auto simp: CompareAndSwap_def runs fsm_Get_def Let_def)
  then show ?thesis
    using m(1) e1(2,3) m(2) Apply_put_ok_abs(2) [OF e2] by (auto simp: kv_abs_Some_entry)
qed

theorem compare_and_swap_misses_updates_witness:
  "(let m = snd (run_state (kv_Put demo_env ''/a'' ''1'' []) demo_node1) in
      kv_abs (node_fsm m) ''/a'' = Some ''1''
      \<and> fst (run_state (CompareAndSwap demo_env ''/a'' 1 ''2'') m) = None)"
proof -
  obtain r m where m: "run_state (kv_Put demo_env ''/a'' ''1'' []) demo_node1 = (r, m)" by fastforce
  obtain r' n' where n': "run_state (CompareAndSwap demo_env ''/a'' 1 ''2'') m = (r', n')" by fastforce
  obtain e where e: "map_of (fsm_data (node_fsm demo_node1)) ''/a'' = Some e" "entry_Revision e = 1"
    by (simp add: demo_node1_def)
  have "kv_abs (node_fsm m) ''/a'' = Some ''1'' \<and> r' = None"
    using compare_and_swap_misses_updates [OF _ _ _ _ e(1) _ _ m, of "''2''" r' n'] n' e(2)
    by (simp add: demo_node1_def isValidKey_def HasPrefix_def NewKVStateMachine_def)
  with m n' show ?thesis by (simp add: Let_def)
qed

text \<open>
  A transaction is applied command by command. On a stable leader the store ends up
  with a prefix of the transaction applied, all of it if \<open>Commit\<close> reports success; if it
  reports an error, that is the error of the last command tried, and the commands before it
  stay applied.
\<close>

theorem commit_applies_prefix:
  assumes "stable_leader R" and "quiet R" and "node_started n"
    and "run_state (kv_Commit R tx) n = (r, n')"
  shows "\<exists>es. map snd es = map Encoded (take (length es) tx) \<and> length es \<le> length tx
       \<and> node_fsm n' = apply_log es (node_fsm n)
       \<and> (r = None \<longrightarrow> length es = length tx)
       \<and> (\<forall>e. r = Some e \<longrightarrow> es \<noteq> []
            \<and> fst (Apply (fst (last es)) (snd (last es)) (apply_log (butlast es) (node_fsm n))) = Some e)"
  using commit_ops_prefix [OF assms(1-3)] assms(3,4) by (simp add: kv_Commit_def)

theorem commit_applies_prefix_witness:
  "\<exists>es. map snd es = map Encoded (take (length es) (tx_Delete ''/b'' (tx_Put ''/a'' ''1'' NewTransaction)))
      \<and> node_fsm (snd (run_state (kv_Commit demo_env (tx_Delete ''/b'' (tx_Put ''/a'' ''1'' NewTransaction))) demo_node))
          = apply_log es (node_fsm demo_node)"
proof -
  obtain r n' where run:
      "run_state (kv_Commit demo_env (tx_Delete ''/b'' (tx_Put ''/a'' ''1'' NewTransaction))) demo_node = (r, n')"
    by fastforce
  show ?thesis using commit_applies_prefix [OF _ _ _ run] run by auto
qed

end
