(* ===== verification/Lease_Lock.thy ===== *)
theory Lease_Lock
  imports Raft_Node
begin

text \<open>
  Leases, locks and elections, \<open>internal/raft/lease.go\<close>, on top of the key-value
  interface of a node. Everything is built from log entries: a lease is granted, revoked and
  attached to by commands of the state machine, a lock is a key under \<open>/locks\<close> created with
  \<open>PutIfNotExists\<close> and attached to a lease. An identifier (\<open>uuid.New\<close>) and the
  clock come from the environment. \<open>Election.GetLeader\<close> and \<open>Observe\<close> only decode what
  is stored and are not modelled.
\<close>

subsection \<open>Leases\<close>

definition grant_command :: "string \<Rightarrow> int \<Rightarrow> FSMCommand" where
  "grant_command leaseID ttl =
     \<lparr>cmd_Op = ''grant_lease'', cmd_Key = leaseID, cmd_Value = show_int ttl, cmd_Lease = []\<rparr>"

definition revoke_command :: "string \<Rightarrow> FSMCommand" where
  "revoke_command leaseID =
     \<lparr>cmd_Op = ''revoke_lease'', cmd_Key = leaseID, cmd_Value = [], cmd_Lease = []\<rparr>"

definition attach_command :: "string \<Rightarrow> string \<Rightarrow> FSMCommand" where
  "attach_command key leaseID =
     \<lparr>cmd_Op = ''attach_lease'', cmd_Key = key, cmd_Value = [], cmd_Lease = leaseID\<rparr>"

definition Grant :: "raft_env \<Rightarrow> int \<Rightarrow> string \<Rightarrow> (raft_err, string) result action" where
  "Grant R ttl holder = do {
     n \<leftarrow> get_node;
     if \<not> node_started n then ret (Inl (Errorf ''raft not initialized''))
     else do {
       ob \<leftarrow> observe R;
       e \<leftarrow> node_Apply R (Encoded (grant_command (ob_uuid ob) ttl));
       case e of
         Some err \<Rightarrow> ret (Inl err)
       | None \<Rightarrow> ret (Inr (ob_uuid ob))
     }
   }"

definition Revoke :: "raft_env \<Rightarrow> string \<Rightarrow> raft_err option action" where
  "Revoke R leaseID = do {
     n \<leftarrow> get_node;
     if \<not> node_started n then ret (Some (Errorf ''raft not initialized''))
     else node_Apply R (Encoded (revoke_command leaseID))
   }"

text \<open>The period of the ticker of \<open>KeepAlive\<close>, half the time-to-live in whole
  seconds; \<open>time.NewTicker\<close> panics on a period that is not positive, here \<open>None\<close>.\<close>

definition KeepAlive_period :: "int \<Rightarrow> int option" where
  "KeepAlive_period ttl = (let d = seconds (go_div ttl 2) in if d \<le> 0 then None else Some d)"

text \<open>One tick of \<open>KeepAlive\<close>: it ends with an error once the lease is gone; a lease
  close to its expiry is only logged, nothing is renewed.\<close>

definition KeepAlive_tick :: "raft_env \<Rightarrow> string \<Rightarrow> int \<Rightarrow> raft_err option action" where
  "KeepAlive_tick R leaseID ttl = do {
     r \<leftarrow> read_fsm R (GetLease leaseID);
     case r of
       Inl e \<Rightarrow> ret (Some (Wrapf ''lease not found or expired'' e))
     | Inr lease \<Rightarrow> ret None
   }"

definition GetLeaseInfo :: "raft_env \<Rightarrow> string \<Rightarrow> (raft_err, LeaseInfo) result action" where
  "GetLeaseInfo R leaseID = do {
     n \<leftarrow> get_node;
     if \<not> node_started n then ret (Inl (Errorf ''fsm not initialized''))
     else read_fsm R (GetLease leaseID)
   }"

definition AttachKey :: "raft_env \<Rightarrow> string \<Rightarrow> string \<Rightarrow> raft_err option action" where
  "AttachKey R leaseID key = do {
     n \<leftarrow> get_node;
     if \<not> node_started n then ret (Some (Errorf ''raft not initialized''))
     else node_Apply R (Encoded (attach_command key leaseID))
   }"

subsection \<open>Locks\<close>

definition lockKey :: "string \<Rightarrow> string" where
  "lockKey key = ''/locks'' @ key"

definition lock_data :: "string \<Rightarrow> string \<Rightarrow> bytes" where
  "lock_data holder leaseID =
     json_object [(''holder'', json_string holder), (''lease_id'', json_string leaseID)]"

definition Acquire :: "raft_env \<Rightarrow> string \<Rightarrow> int \<Rightarrow> string \<Rightarrow> (raft_err, LockInfo) result action" where
  "Acquire R key ttl holder = do {
     g \<leftarrow> Grant R ttl holder;
     case g of
       Inl err \<Rightarrow> ret (Inl err)
     | Inr leaseID \<Rightarrow> do {
         c \<leftarrow> PutIfNotExists R (lockKey key) (lock_data holder leaseID);
         case c of
           Inl err \<Rightarrow> do { _ \<leftarrow> Revoke R leaseID; ret (Inl err) }
         | Inr created \<Rightarrow>
             (if \<not> created then do { _ \<leftarrow> Revoke R leaseID; ret (Inl ErrLockHeld) }
              else do {
                a \<leftarrow> AttachKey R leaseID (lockKey key);
                case a of
                  Some err \<Rightarrow> do {
                    _ \<leftarrow> kv_Delete R (lockKey key);
                    _ \<leftarrow> Revoke R leaseID;
                    ret (Inl err)
                  }
                | None \<Rightarrow> do {
                    ob \<leftarrow> observe R;
                    ret (Inr \<lparr>lock_Key = key, lock_LeaseID = leaseID, lock_Holder = holder,
                             lock_AcquiredAt = ob_now ob\<rparr>)
                  }
              })
       }
   }"

definition Release :: "raft_env \<Rightarrow> LockInfo \<Rightarrow> raft_err option action" where
  "Release R lockInfo = do {
     d \<leftarrow> kv_Delete R (lockKey (lock_Key lockInfo));
     case d of
       Some err \<Rightarrow> ret (Some err)
     | None \<Rightarrow> do {
         v \<leftarrow> Revoke R (lock_LeaseID lockInfo);
         case v of Some err \<Rightarrow> ret (Some err) | None \<Rightarrow> ret None
       }
   }"

text \<open>The context of \<open>TryAcquire\<close> bounds no call of \<open>Acquire\<close>, which ignores it.\<close>

definition TryAcquire :: "raft_env \<Rightarrow> string \<Rightarrow> int \<Rightarrow> string \<Rightarrow> (raft_err, LockInfo) result action" where
  "TryAcquire R key ttl holder = Acquire R key ttl holder"

subsection \<open>Elections\<close>

record ElectionInfo =
  el_Name :: string
  el_LeaseID :: string
  el_Leader :: string
  el_ElectedAt :: int

definition electionKey :: "string \<Rightarrow> string" where
  "electionKey name = ''/elections/'' @ name @ ''/leader''"

definition leader_data :: "string \<Rightarrow> string \<Rightarrow> int \<Rightarrow> bytes" where
  "leader_data candidateID leaseID unixTime =
     json_object [(''elected_at'', show_int unixTime), (''leader'', json_string candidateID),
                  (''lease_id'', json_string leaseID)]"

definition Campaign :: "raft_env \<Rightarrow> string \<Rightarrow> string \<Rightarrow> int \<Rightarrow> (raft_err, ElectionInfo) result action" where
  "Campaign R name candidateID ttl = do {
     g \<leftarrow> Grant R ttl candidateID;
     case g of
       Inl err \<Rightarrow> ret (Inl err)
     | Inr leaseID \<Rightarrow> do {
         ob \<leftarrow> observe R;
         c \<leftarrow> PutIfNotExists R (electionKey name)
                (leader_data candidateID leaseID (ob_now ob div 1000000000));
         case c of
           Inl err \<Rightarrow> do { _ \<leftarrow> Revoke R leaseID; ret (Inl err) }
         | Inr created \<Rightarrow>
             (if \<not> created then do {
                _ \<leftarrow> Revoke R leaseID;
                ret (Inl (NewRaftError ''not_elected'' ''another candidate is already the leader''))
              }
              else do {
                a \<leftarrow> AttachKey R leaseID (electionKey name);
                case a of
                  Some err \<Rightarrow> do {
                    _ \<leftarrow> kv_Delete R (electionKey name);
                    _ \<leftarrow> Revoke R leaseID;
                    ret (Inl err)
                  }
                | None \<Rightarrow> do {
                    ob' \<leftarrow> observe R;
                    ret (Inr \<lparr>el_Name = name, el_LeaseID = leaseID, el_Leader = candidateID,
                             el_ElectedAt = ob_now ob'\<rparr>)
                  }
              })
       }
   }"

definition Resign :: "raft_env \<Rightarrow> ElectionInfo \<Rightarrow> raft_err option action" where
  "Resign R info = do {
     d \<leftarrow> kv_Delete R (electionKey (el_Name info));
     case d of
       Some err \<Rightarrow> ret (Some err)
     | None \<Rightarrow> do {
         v \<leftarrow> Revoke R (el_LeaseID info);
         case v of Some err \<Rightarrow> ret (Some err) | None \<Rightarrow> ret None
       }
   }"

subsection \<open>Sequences of calls\<close>

datatype lock_op =
    LGrant int string | LRevoke string | LAttach string string | LKeepAlive string int
  | LAcquire string int string | LRelease LockInfo
  | LCampaign string string int | LResign ElectionInfo | LKV kv_op

fun exec_lock_op :: "raft_env \<Rightarrow> lock_op \<Rightarrow> unit action" where
  "exec_lock_op R (LGrant t h) = do { _ \<leftarrow> Grant R t h; ret () }"
| "exec_lock_op R (LRevoke i) = do { _ \<leftarrow> Revoke R i; ret () }"
| "exec_lock_op R (LAttach i k) = do { _ \<leftarrow> AttachKey R i k; ret () }"
| "exec_lock_op R (LKeepAlive i t) = do { _ \<leftarrow> KeepAlive_tick R i t; ret () }"
| "exec_lock_op R (LAcquire k t h) = do { _ \<leftarrow> Acquire R k t h; ret () }"
| "exec_lock_op R (LRelease i) = do { _ \<leftarrow> Release R i; ret () }"
| "exec_lock_op R (LCampaign a c t) = do { _ \<leftarrow> Campaign R a c t; ret () }"
| "exec_lock_op R (LResign i) = do { _ \<leftarrow> Resign R i; ret () }"
| "exec_lock_op R (LKV k) = exec_kv_op R k"

text \<open>A node whose store holds one lock, for the witnesses.\<close>

definition held_node :: Node where
  "held_node = demo_node\<lparr>node_fsm := snd (Apply 0 (Encoded (put_command ''/locks/job'' ''x'' [])) (NewKVStateMachine 100 1000))\<rparr>"

subsection \<open>Lemmas: writes go through the log\<close>

lemma Grant_via_log [via_log]: "state_io_rel log_extends (Grant R t h)"
  unfolding Grant_def by (intro ext.io_intros via_log)

lemma Revoke_via_log [via_log]: "state_io_rel log_extends (Revoke R i)"
  unfolding Revoke_def by (intro ext.io_intros via_log)

lemma AttachKey_via_log [via_log]: "state_io_rel log_extends (AttachKey R i k)"
  unfolding AttachKey_def by (intro ext.io_intros via_log)

lemma KeepAlive_tick_via_log [via_log]: "state_io_rel log_extends (KeepAlive_tick R i t)"
  unfolding KeepAlive_tick_def by (intro ext.io_intros via_log)

lemma Acquire_via_log [via_log]: "state_io_rel log_extends (Acquire R k t h)"
  unfolding Acquire_def by (intro ext.io_intros via_log)

lemma Release_via_log [via_log]: "state_io_rel log_extends (Release R i)"
  unfolding Release_def by (intro ext.io_intros via_log)

lemma Campaign_via_log [via_log]: "state_io_rel log_extends (Campaign R a c t)"
  unfolding Campaign_def by (intro ext.io_intros via_log)

lemma Resign_via_log [via_log]: "state_io_rel log_extends (Resign R i)"
  unfolding Resign_def by (intro ext.io_intros via_log)

lemma exec_lock_op_via_log: "state_io_rel log_extends (exec_lock_op R op)"
  by (cases op) (auto intro!: ext.io_intros via_log)

interpretation lock_clients: machine "\<lambda>op n. snd (run_state (exec_lock_op R op) n)" "fsm_wf \<circ> node_fsm"
  by unfold_locales
     (auto intro: log_extends_wf exec_lock_op_via_log [unfolded state_io_rel_def, rule_format])

subsection \<open>Lemmas: the commands on the abstract store\<close>

lemma Apply_grant_abs:
  assumes "int64_range ttl"
  shows "fst (Apply now (Encoded (grant_command i ttl)) s) = None"
    and "kv_abs (snd (Apply now (Encoded (grant_command i ttl)) s)) = kv_abs s"
    and "lease_abs (snd (Apply now (Encoded (grant_command i ttl)) s)) = (lease_abs s)(i \<mapsto> [])"
  using assms
  by (auto simp: Apply_def apply_cmd_def grant_command_def applyGrantLease_def unmarshal_int64_show
      Let_def kv_abs_def lease_abs_def fun_eq_iff)

lemma Apply_revoke_abs:
  assumes "lease_abs s i = Some ks"
  shows "fst (Apply now (Encoded (revoke_command i)) s) = None"
    and "kv_abs (snd (Apply now (Encoded (revoke_command i)) s)) = kv_abs s |` (- set ks)"
    and "lease_abs (snd (Apply now (Encoded (revoke_command i)) s)) = (lease_abs s)(i := None)"
  using assms applyRevokeLease_abs [of "s\<lparr>fsm_revision := fsm_revision s + 1\<rparr>" i ks]
  by (simp_all add: Apply_def apply_cmd_def revoke_command_def)

lemma Apply_attach_abs:
  assumes "lease_abs s i = Some ks" and "k \<in> dom (kv_abs s)"
  shows "fst (Apply now (Encoded (attach_command k i)) s) = None"
    and "kv_abs (snd (Apply now (Encoded (attach_command k i)) s)) = kv_abs s"
    and "lease_abs (snd (Apply now (Encoded (attach_command k i)) s)) = (lease_abs s)(i \<mapsto> ks @ [k])"
proof -
  let ?s = "s\<lparr>fsm_revision := fsm_revision s + 1\<rparr>"
  obtain l where l: "map_of (fsm_leases s) i = Some l" using assms(1) by (auto simp: lease_abs_def)
  obtain e where e: "map_of (fsm_data s) k = Some e" using assms(2) by (auto simp: dom_kv_abs)
  have eq: "Apply now (Encoded (attach_command k i)) s = (None, append_lease_key i k ?s)"
    using l e by (simp add: Apply_def apply_cmd_def attach_command_def applyAttachLease_def)
  from eq show "fst (Apply now (Encoded (attach_command k i)) s) = None" by simp
  from eq show "kv_abs (snd (Apply now (Encoded (attach_command k i)) s)) = kv_abs s" by simp
  from eq assms(1) show "lease_abs (snd (Apply now (Encoded (attach_command k i)) s)) = (lease_abs s)(i \<mapsto> ks @ [k])"
    by (simp add: lease_abs_append)
qed

lemma Apply_delete_abs:
  assumes "k \<in> dom (kv_abs s)"
  shows "fst (Apply now (Encoded (delete_command k)) s) = None"
    and "kv_abs (snd (Apply now (Encoded (delete_command k)) s)) = (kv_abs s)(k := None)"
    and "lease_abs (snd (Apply now (Encoded (delete_command k)) s)) = lease_abs s"
proof -
  let ?s = "s\<lparr>fsm_revision := fsm_revision s + 1\<rparr>"
  have eq: "Apply now (Encoded (delete_command k)) s = applyDelete k ?s"
    by (simp add: Apply_def apply_cmd_def delete_command_def)
  show "kv_abs (snd (Apply now (Encoded (delete_command k)) s)) = (kv_abs s)(k := None)"
    "lease_abs (snd (Apply now (Encoded (delete_command k)) s)) = lease_abs s"
    unfolding eq by (simp_all add: kv_abs_delete)
  show "fst (Apply now (Encoded (delete_command k)) s) = None"
    using assms unfolding eq by (auto simp: applyDelete_def dom_kv_abs)
qed

subsection \<open>Lemmas: the calls on a stable leader\<close>

text \<open>One committed command on a stable leader without other writers.\<close>

lemma node_Apply_stable_obtain:
  assumes "stable_leader R" and "quiet R" and "node_started n"
  obtains now n' where "run_state (node_Apply R d) n = (fst (Apply now d (node_fsm n)), n')"
    and "node_fsm n' = snd (Apply now d (node_fsm n))" and "node_started n'"
  using assms by (simp add: runs)

lemma Grant_stable:
  assumes "stable_leader R" and "quiet R" and "node_started n" and "int64_range ttl"
  obtains n' where "run_state (Grant R ttl h) n = (Inr (ob_uuid (R (node_clock n))), n')"
    and "node_started n'" and "kv_abs (node_fsm n') = kv_abs (node_fsm n)"
    and "lease_abs (node_fsm n') = (lease_abs (node_fsm n))(ob_uuid (R (node_clock n)) \<mapsto> [])"
proof -
  let ?m = "n\<lparr>node_clock := Suc (node_clock n)\<rparr>" and ?i = "ob_uuid (R (node_clock n))"
  have obs: "run_state (observe R) n = (R (node_clock n), ?m)"
    using assms(2) by (simp add: runs quiet_def)
  have "node_started ?m" using assms(3) by simp
  then obtain now n' where n': "run_state (node_Apply R (Encoded (grant_command ?i ttl))) ?m
        = (fst (Apply now (Encoded (grant_command ?i ttl)) (node_fsm ?m)), n')"
      "node_fsm n' = snd (Apply now (Encoded (grant_command ?i ttl)) (node_fsm ?m))" "node_started n'"
    using node_Apply_stable_obtain [OF assms(1,2)] by metis
  show thesis
    by (rule that [of n']) (use n' assms(3,4) in \<open>simp_all add: Grant_def obs Apply_grant_abs\<close>)
qed

lemma Revoke_stable:
  assumes "stable_leader R" and "quiet R" and "node_started n" and "lease_abs (node_fsm n) i = Some ks"
  obtains n' where "run_state (Revoke R i) n = (None, n')" and "node_started n'"
    and "kv_abs (node_fsm n') = kv_abs (node_fsm n) |` (- set ks)"
    and "lease_abs (node_fsm n') = (lease_abs (node_fsm n))(i := None)"
proof -
  obtain now n' where n': "run_state (node_Apply R (Encoded (revoke_command i))) n
        = (fst (Apply now (Encoded (revoke_command i)) (node_fsm n)), n')"
      "node_fsm n' = snd (Apply now (Encoded (revoke_command i)) (node_fsm n))" "node_started n'"
    by (rule node_Apply_stable_obtain [OF assms(1-3)])
  show thesis
    by (rule that [of n']) (use n' assms(3,4) in \<open>simp_all add: Revoke_def Apply_revoke_abs\<close>)
qed

lemma AttachKey_stable:
  assumes "stable_leader R" and "quiet R" and "node_started n"
    and "lease_abs (node_fsm n) i = Some ks" and "k \<in> dom (kv_abs (node_fsm n))"
  obtains n' where "run_state (AttachKey R i k) n = (None, n')" and "node_started n'"
    and "kv_abs (node_fsm n') = kv_abs (node_fsm n)"
    and "lease_abs (node_fsm n') = (lease_abs (node_fsm n))(i \<mapsto> ks @ [k])"
proof -
  obtain now n' where n': "run_state (node_Apply R (Encoded (attach_command k i))) n
        = (fst (Apply now (Encoded (attach_command k i)) (node_fsm n)), n')"
      "node_fsm n' = snd (Apply now (Encoded (attach_command k i)) (node_fsm n))" "node_started n'"
    by (rule node_Apply_stable_obtain [OF assms(1-3)])
  show thesis
    by (rule that [of n']) (use n' assms(3) in \<open>simp_all add: AttachKey_def Apply_attach_abs [OF assms(4,5)]\<close>)
qed

lemma kv_Delete_stable:
  assumes "stable_leader R" and "quiet R" and "node_started n" and "k \<in> dom (kv_abs (node_fsm n))"
  obtains n' where "run_state (kv_Delete R k) n = (None, n')" and "node_started n'"
    and "kv_abs (node_fsm n') = (kv_abs (node_fsm n))(k := None)"
    and "lease_abs (node_fsm n') = lease_abs (node_fsm n)"
proof -
  obtain now n' where n': "run_state (node_Apply R (Encoded (delete_command k))) n
        = (fst (Apply now (Encoded (delete_command k)) (node_fsm n)), n')"
      "node_fsm n' = snd (Apply now (Encoded (delete_command k)) (node_fsm n))" "node_started n'"
    by (rule node_Apply_stable_obtain [OF assms(1-3)])
  show thesis
    by (rule that [of n']) (use n' assms(3) in \<open>simp_all add: kv_Delete_def Apply_delete_abs [OF assms(4)]\<close>)
qed

text \<open>
  Acquiring a lock: it is held and nothing changes, or it is granted and the lock key and the
  lease are there, or the store refuses the key and nothing changes.
\<close>

lemma Acquire_stable [consumes 6, case_names held acquired refused]:
  fixes n :: Node and R :: raft_env
  defines "i \<equiv> ob_uuid (R (node_clock n))"
  assumes "stable_leader R" and "quiet R" and "node_started n" and "int64_range ttl"
    and "isValidKey (lockKey key)" and "lease_abs (node_fsm n) i = None"
  obtains n' where "run_state (Acquire R key ttl holder) n = (Inl ErrLockHeld, n')" and "node_started n'"
      and "lockKey key \<in> dom (kv_abs (node_fsm n))"
      and "kv_abs (node_fsm n') = kv_abs (node_fsm n)" and "lease_abs (node_fsm n') = lease_abs (node_fsm n)"
  | t n' where "run_state (Acquire R key ttl holder) n
        = (Inr \<lparr>lock_Key = key, lock_LeaseID = i, lock_Holder = holder, lock_AcquiredAt = t\<rparr>, n')"
      and "node_started n'" and "lockKey key \<notin> dom (kv_abs (node_fsm n))"
      and "kv_abs (node_fsm n') = (kv_abs (node_fsm n))(lockKey key \<mapsto> lock_data holder i)"
      and "lease_abs (node_fsm n') = (lease_abs (node_fsm n))(i \<mapsto> [lockKey key])"
  | e n' where "run_state (Acquire R key ttl holder) n = (Inl e, n')" and "node_started n'"
      and "lockKey key \<notin> dom (kv_abs (node_fsm n))"
      and "kv_abs (node_fsm n') = kv_abs (node_fsm n)" and "lease_abs (node_fsm n') = lease_abs (node_fsm n)"
proof -
  obtain n1 where n1: "run_state (Grant R ttl holder) n = (Inr i, n1)" "node_started n1"
      "kv_abs (node_fsm n1) = kv_abs (node_fsm n)" "lease_abs (node_fsm n1) = (lease_abs (node_fsm n))(i \<mapsto> [])"
    using Grant_stable [OF assms(2-5)] unfolding i_def by metis
  have undo: "\<exists>n3. run_state (Revoke R i) n2 = (None, n3) \<and> node_started n3
        \<and> kv_abs (node_fsm n3) = kv_abs (node_fsm n) \<and> lease_abs (node_fsm n3) = lease_abs (node_fsm n)"
    if n2: "node_started n2" "kv_abs (node_fsm n2) = kv_abs (node_fsm n)"
      "lease_abs (node_fsm n2) = (lease_abs (node_fsm n))(i \<mapsto> [])" for n2
  proof -
    have "lease_abs (node_fsm n2) i = Some []" using n2(3) by simp
    then obtain n3 where "run_state (Revoke R i) n2 = (None, n3)" "node_started n3"
        "kv_abs (node_fsm n3) = kv_abs (node_fsm n2) |` (- set [])"
        "lease_abs (node_fsm n3) = (lease_abs (node_fsm n2))(i := None)"
      by (rule Revoke_stable [OF assms(2,3) n2(1)])
    moreover have "(lease_abs (node_fsm n2))(i := None) = lease_abs (node_fsm n)"
      using n2(3) assms(7) by (auto simp: fun_eq_iff)
    ultimately show ?thesis using n2(2) by (auto simp: restrict_map_def)
  qed
  from assms(2,3) n1(2) assms(6) show thesis
  proof (cases rule: PutIfNotExists_stable [where v = "lock_data holder i"])
    case (held n2)
    with n1 undo [of n2] show thesis by (auto simp: Acquire_def intro: that(1))
  next
    case (created n2)
    have lease: "lease_abs (node_fsm n2) i = Some []" and key: "lockKey key \<in> dom (kv_abs (node_fsm n2))"
      using created n1(4) by auto
    obtain n3 where n3: "run_state (AttachKey R i (lockKey key)) n2 = (None, n3)" "node_started n3"
        "kv_abs (node_fsm n3) = kv_abs (node_fsm n2)"
        "lease_abs (node_fsm n3) = (lease_abs (node_fsm n2))(i \<mapsto> [] @ [lockKey key])"
      by (rule AttachKey_stable [OF assms(2,3) created(2) lease key])
    let ?n' = "n3\<lparr>node_clock := Suc (node_clock n3)\<rparr>"
    have "run_state (observe R) n3 = (R (node_clock n3), ?n')"
      using assms(3) by (simp add: runs quiet_def)
    with n1 created n3 show thesis
      by (intro that(2) [of "ob_now (R (node_clock n3))" ?n']) (auto simp: Acquire_def)
  next
    case (refused e n2)
    with n1 undo [of n2] show thesis by (auto simp: Acquire_def intro: that(3))
  qed
qed

inductive_cases spec_step_elim: "spec_step c r (kv, ls) st'"

lemma spec_step_keeps_lease:
  assumes "spec_step c r (kv, ls) st'" and "i \<in> dom ls" and "\<not> (cmd_Op c = ''revoke_lease'' \<and> cmd_Key c = i)"
  shows "i \<in> dom (snd st')"
  using assms by (elim spec_step_elim) auto

lemma seconds_small: "\<bar>n\<bar> \<le> 9223372036 \<Longrightarrow> seconds n = n * 1000000000"
proof -
  assume "\<bar>n\<bar> \<le> 9223372036"
  then have "int64_range (n * 1000000000)" by (auto simp: int64_range_def)
  then show ?thesis by (simp add: seconds_def int64_wrap_id)
qed

lemma acquire_demo: "\<not> isl (fst (run_state (Acquire demo_env ''/job'' 30 ''h'') demo_node))"
  by code_simp

lemma ttl_demo: "unmarshal_int64 ''1'' = Some 1"
  by code_simp

subsection \<open>Properties\<close>

text \<open>
  C29: acquiring a free lock and releasing it, on a stable leader without other writers,
  gives back the store and the leases as they were; between the two the lock key holds the
  holder and the lease, and the lease owns exactly the lock key.
\<close>

theorem acquire_release_roundtrip:
  assumes "stable_leader R" and "quiet R" and "node_started n" and "int64_range ttl"
    and "isValidKey (lockKey key)" and "lease_abs (node_fsm n) (ob_uuid (R (node_clock n))) = None"
    and "run_state (Acquire R key ttl holder) n = (Inr info, m)"
    and "run_state (Release R info) m = (r, n')"
  shows "kv_abs (node_fsm m) (lockKey key) = Some (lock_data holder (lock_LeaseID info))
       \<and> lease_abs (node_fsm m) (lock_LeaseID info) = Some [lockKey key]
       \<and> r = None \<and> kv_abs (node_fsm n') = kv_abs (node_fsm n) \<and> lease_abs (node_fsm n') = lease_abs (node_fsm n)"
  using assms(1-6)
proof (cases rule: Acquire_stable [where holder = holder])
  case (acquired t m')
  let ?i = "ob_uuid (R (node_clock n))"
  have m: "m' = m" "lock_Key info = key" "lock_LeaseID info = ?i" using acquired(1) assms(7) by auto
  have key: "lockKey key \<in> dom (kv_abs (node_fsm m))" using acquired(4) m(1) by simp
  obtain m1 where m1: "run_state (kv_Delete R (lockKey key)) m = (None, m1)" "node_started m1"
      "kv_abs (node_fsm m1) = (kv_abs (node_fsm m))(lockKey key := None)"
      "lease_abs (node_fsm m1) = lease_abs (node_fsm m)"
    using kv_Delete_stable [OF assms(1,2) acquired(2) [unfolded m(1)] key] by metis
  have lease: "lease_abs (node_fsm m1) ?i = Some [lockKey key]" using m1(4) acquired(5) m(1) by simp
  obtain m2 where m2: "run_state (Revoke R ?i) m1 = (None, m2)"
      "kv_abs (node_fsm m2) = kv_abs (node_fsm m1) |` (- set [lockKey key])"
      "lease_abs (node_fsm m2) = (lease_abs (node_fsm m1))(?i := None)"
    using Revoke_stable [OF assms(1,2) m1(2) lease] by metis
  have "r = None" "n' = m2" using assms(8) m m1(1) m2(1) by (auto simp: Release_def)
  moreover have "kv_abs (node_fsm m2) = kv_abs (node_fsm n)"
    using m2(2) m1(3) acquired(3,4) m(1) by (auto simp: restrict_map_def fun_eq_iff domIff)
  moreover have "lease_abs (node_fsm m2) = lease_abs (node_fsm n)"
    using m2(3) m1(4) acquired(5) m(1) assms(6) by (auto simp: fun_eq_iff)
  ultimately show ?thesis using acquired(4,5) m by auto
qed (use assms(7) in auto)

theorem acquire_release_roundtrip_witness:
  "\<exists>info m n'. run_state (Acquire demo_env ''/job'' 30 ''h'') demo_node = (Inr info, m)
     \<and> run_state (Release demo_env info) m = (None, n')
     \<and> kv_abs (node_fsm n') = kv_abs (node_fsm demo_node)"
proof -
  have pre: "stable_leader demo_env" "quiet demo_env" "node_started demo_node" "int64_range 30"
      "isValidKey (lockKey ''/job'')"
      "lease_abs (node_fsm demo_node) (ob_uuid (demo_env (node_clock demo_node))) = None"
    by (simp_all add: int64_range_def isValidKey_def HasPrefix_def lockKey_def Let_def lease_abs_def NewKVStateMachine_def)
  obtain g m where run: "run_state (Acquire demo_env ''/job'' 30 ''h'') demo_node = (g, m)" by fastforce
  have "\<exists>info. g = Inr info"
    using run acquire_demo by (cases g) auto
  then obtain info where "g = Inr info" ..
  moreover obtain r n' where "run_state (Release demo_env info) m = (r, n')" by fastforce
  ultimately show ?thesis using acquire_release_roundtrip [OF pre, of "''h''" info m r n'] run by auto
qed

text \<open>
  On a stable leader without other writers a held lock is not granted again: \<open>Acquire\<close>
  answers \<open>ErrLockHeld\<close>, and its own lease is gone again, so that nothing changed.
\<close>

theorem held_lock_refused:
  assumes "stable_leader R" and "quiet R" and "node_started n" and "int64_range ttl"
    and "isValidKey (lockKey key)" and "lease_abs (node_fsm n) (ob_uuid (R (node_clock n))) = None"
    and "lockKey key \<in> dom (kv_abs (node_fsm n))"
    and "run_state (Acquire R key ttl holder) n = (r, n')"
  shows "r = Inl ErrLockHeld \<and> kv_abs (node_fsm n') = kv_abs (node_fsm n)
       \<and> lease_abs (node_fsm n') = lease_abs (node_fsm n)"
  using assms(1-6) by (cases rule: Acquire_stable [where holder = holder]) (use assms(7,8) in auto)

theorem held_lock_refused_witness:
  "fst (run_state (Acquire demo_env ''/job'' 30 ''h2'') held_node) = Inl ErrLockHeld"
proof -
  obtain r n' where run: "run_state (Acquire demo_env ''/job'' 30 ''h2'') held_node = (r, n')" by fastforce
  have "r = Inl ErrLockHeld \<and> kv_abs (node_fsm n') = kv_abs (node_fsm held_node)
      \<and> lease_abs (node_fsm n') = lease_abs (node_fsm held_node)"
    by (rule held_lock_refused [OF _ _ _ _ _ _ _ run])
       (simp_all add: held_node_def int64_range_def isValidKey_def HasPrefix_def lockKey_def Let_def
          lease_abs_def dom_kv_abs NewKVStateMachine_def Apply_put applyPut_def)
  with run show ?thesis by simp
qed

text \<open>
  \<open>Release\<close> does not check who holds the lock. Whatever the lock information says
  about holder and lease, the lock key is gone afterwards, also when somebody else holds it.
\<close>

theorem release_ignores_owner:
  assumes "stable_leader R" and "quiet R" and "node_started n"
    and "lockKey (lock_Key info) \<in> dom (kv_abs (node_fsm n))"
    and "run_state (Release R info) n = (r, n')"
  shows "lockKey (lock_Key info) \<notin> dom (kv_abs (node_fsm n'))"
proof -
  let ?k = "lockKey (lock_Key info)"
  obtain m where m: "run_state (kv_Delete R ?k) n = (None, m)" "node_started m"
      "kv_abs (node_fsm m) = (kv_abs (node_fsm n))(?k := None)"
    using kv_Delete_stable [OF assms(1-4)] by metis
  obtain now n1 where n1: "run_state (node_Apply R (Encoded (revoke_command (lock_LeaseID info)))) m
        = (fst (Apply now (Encoded (revoke_command (lock_LeaseID info))) (node_fsm m)), n1)"
      "node_fsm n1 = snd (Apply now (Encoded (revoke_command (lock_LeaseID info))) (node_fsm m))"
    using node_Apply_stable_obtain [OF assms(1,2) m(2)] by metis
  have "n' = n1" using assms(5) m(1,2) n1(1) by (auto simp: Release_def Revoke_def split: option.splits)
  moreover have "?k \<notin> dom (kv_abs (snd (Apply now (Encoded (revoke_command (lock_LeaseID info))) (node_fsm m))))"
  proof (cases "lease_abs (node_fsm m) (lock_LeaseID info)")
    case None
    then have "kv_abs (snd (Apply now (Encoded (revoke_command (lock_LeaseID info))) (node_fsm m))) = kv_abs (node_fsm m)"
      by (simp add: Apply_def apply_cmd_def revoke_command_def applyRevokeLease_def lease_abs_def)
    with m(3) show ?thesis by simp
  next
    case (Some ks)
    with m(3) show ?thesis by (simp add: Apply_revoke_abs restrict_map_def domIff)
  qed
  ultimately show ?thesis using n1(2) by simp
qed

theorem release_ignores_owner_witness:
  "''/locks/job'' \<notin> dom (kv_abs (node_fsm (snd (run_state
      (Release demo_env \<lparr>lock_Key = ''/job'', lock_LeaseID = ''gone'', lock_Holder = ''old'', lock_AcquiredAt = 0\<rparr>) held_node))))"
proof -
  let ?info = "\<lparr>lock_Key = ''/job'', lock_LeaseID = ''gone'', lock_Holder = ''old'', lock_AcquiredAt = 0\<rparr>"
  obtain r n' where run: "run_state (Release demo_env ?info) held_node = (r, n')" by fastforce
  have "lockKey (lock_Key ?info) \<notin> dom (kv_abs (node_fsm n'))"
    by (rule release_ignores_owner [OF _ _ _ _ run])
       (simp_all add: held_node_def isValidKey_def HasPrefix_def lockKey_def Let_def dom_kv_abs
          NewKVStateMachine_def Apply_put applyPut_def)
  with run show ?thesis by (simp add: lockKey_def)
qed

text \<open>
  A lease leaves the state machine only by being revoked. Any other command, applied at
  any time, however long after the recorded expiry, keeps it.
\<close>

theorem leases_never_expire:
  assumes "i \<in> dom (lease_abs s)" and "\<not> (cmd_Op c = ''revoke_lease'' \<and> cmd_Key c = i)"
  shows "i \<in> dom (lease_abs (snd (Apply now (Encoded c) s)))"
  using spec_step_keeps_lease [OF apply_cmd_refines [of c now "s\<lparr>fsm_revision := fsm_revision s + 1\<rparr>"]] assms
  by (simp add: Apply_def)

theorem leases_never_expire_witness:
  "''L'' \<in> dom (lease_abs (snd (Apply (10 ^ 18) (Encoded (put_command ''/a'' ''1'' []))
      (snd (applyGrantLease 0 ''L'' ''1'' (NewKVStateMachine 10 100))))))"
  by (rule leases_never_expire)
     (simp_all add: applyGrantLease_def NewKVStateMachine_def lease_abs_def Let_def put_command_def
        ttl_demo domIff)

text \<open>
  For every time-to-live whose conversion does not overflow, \<open>KeepAlive\<close> panics
  exactly when the time-to-live is below two seconds, since half of it rounds to zero.
\<close>

theorem keep_alive_panics_below_two_seconds:
  assumes "0 \<le> ttl" and "ttl \<le> 18446744072"
  shows "KeepAlive_period ttl = None \<longleftrightarrow> ttl < 2"
proof -
  have "go_div ttl 2 = ttl div 2" using assms(1) by (cases "ttl = 0") (simp_all add: go_div_def)
  moreover have "seconds (ttl div 2) = (ttl div 2) * 1000000000"
    using assms by (intro seconds_small) auto
  ultimately show ?thesis using assms by (auto simp: KeepAlive_period_def Let_def)
qed

theorem keep_alive_panics_below_two_seconds_witness: "KeepAlive_period 1 = None \<and> KeepAlive_period 2 \<noteq> None"
  using keep_alive_panics_below_two_seconds [of 1] keep_alive_panics_below_two_seconds [of 2] by simp

end
