(* ===== verification/Watch.thy ===== *)
theory Watch
  imports Raft_Node
begin

text \<open>
  Watch streams over the store, \<open>internal/raft/watch.go\<close>. The registry of watchers is a
  record. The background loop polls: it reads the revision, and if it grew lists the entries
  under the prefix and sends those modified after the last seen revision. The read of the
  revision and the listing are two lock sections, so a poll takes two states of the store,
  the second being the first after some more log entries.
\<close>

subsection \<open>The registry\<close>

record WatchOptions =
  wo_Prefix :: string
  wo_StartRevision :: "64 word"
  wo_BufferSize :: int

record Watcher =
  w_id :: string
  w_prefix :: string
  w_startRevision :: "64 word"
  w_buffer :: int
  w_cancelled :: bool

record Watch =
  watch_watchers :: "(string, Watcher) gomap"
  watch_nextWatcherID :: "64 word"

definition NewWatch :: Watch where
  "NewWatch = \<lparr>watch_watchers = [], watch_nextWatcherID = 0\<rparr>"

definition DefaultWatchOptions :: WatchOptions where
  "DefaultWatchOptions = \<lparr>wo_Prefix = ''/'', wo_StartRevision = 0, wo_BufferSize = 100\<rparr>"

text \<open>\<open>make(chan WatchEvent, n)\<close> panics for a negative \<open>n\<close>: no watcher, although
  its number is used up.\<close>

definition CreateWatcher :: "WatchOptions option \<Rightarrow> Watch \<Rightarrow> Watcher option \<times> Watch" where
  "CreateWatcher opts w =
     (let o' = (case opts of None \<Rightarrow> DefaultWatchOptions | Some x \<Rightarrow> x);
          nxt = watch_nextWatcherID w + 1;
          watcherID = ''watcher-'' @ show_nat (unat nxt);
          watcher = \<lparr>w_id = watcherID, w_prefix = wo_Prefix o', w_startRevision = wo_StartRevision o',
                     w_buffer = wo_BufferSize o', w_cancelled = False\<rparr>;
          w' = w\<lparr>watch_nextWatcherID := nxt\<rparr>
      in if wo_BufferSize o' < 0 then (None, w')
         else (Some watcher, w'\<lparr>watch_watchers := AList.update watcherID watcher (watch_watchers w')\<rparr>))"

text \<open>The deferred cleanup of \<open>watchLoop\<close>.\<close>

definition watcher_exit :: "string \<Rightarrow> Watch \<Rightarrow> Watch" where
  "watcher_exit watcherID w = w\<lparr>watch_watchers := AList.delete watcherID (watch_watchers w)\<rparr>"

definition Watcher_Close :: "Watcher \<Rightarrow> Watcher" where
  "Watcher_Close x = x\<lparr>w_cancelled := True\<rparr>"

text \<open>\<open>CloseAll\<close>: the cancelled watchers, and the cleared registry.\<close>

definition CloseAll :: "Watch \<Rightarrow> Watcher list \<times> Watch" where
  "CloseAll w = (map (Watcher_Close \<circ> snd) (watch_watchers w), w\<lparr>watch_watchers := []\<rparr>)"

definition GetActiveWatchersCount :: "Watch \<Rightarrow> nat" where
  "GetActiveWatchersCount w = length (watch_watchers w)"

definition WatchKey :: "string \<Rightarrow> 64 word \<Rightarrow> Watch \<Rightarrow> Watcher option \<times> Watch" where
  "WatchKey key startRevision w =
     CreateWatcher (Some \<lparr>wo_Prefix = key, wo_StartRevision = startRevision, wo_BufferSize = 10\<rparr>) w"

definition WatchPrefix :: "string \<Rightarrow> 64 word \<Rightarrow> Watch \<Rightarrow> Watcher option \<times> Watch" where
  "WatchPrefix pre startRevision w =
     CreateWatcher (Some \<lparr>wo_Prefix = pre, wo_StartRevision = startRevision, wo_BufferSize = 100\<rparr>) w"

subsection \<open>The loop\<close>

definition watch_start :: "Watcher \<Rightarrow> KVStateMachine \<Rightarrow> 64 word" where
  "watch_start watcher s =
     (if w_startRevision watcher = 0 then GetRevision s else w_startRevision watcher)"

definition put_event :: "KVEntry \<Rightarrow> WatchEvent" where
  "put_event e = \<lparr>ev_Type = WatchEventPut, ev_Key = entry_Key e, ev_Value = entry_Value e,
                  ev_Revision = entry_ModifiedRevision e, ev_PrevValue = None\<rparr>"

text \<open>One iteration: the events sent and the new last seen revision. \<open>s1\<close> is the store
  when the revision is read, \<open>s2\<close> the store when it is listed.\<close>

definition watch_poll ::
  "Watcher \<Rightarrow> 64 word \<Rightarrow> KVStateMachine \<Rightarrow> KVStateMachine \<Rightarrow> WatchEvent list \<times> 64 word" where
  "watch_poll watcher lastSeen s1 s2 =
     (let currentRev = GetRevision s1 in
      if currentRev > lastSeen
      then (map put_event (filter (\<lambda>e. entry_ModifiedRevision e > lastSeen) (fsm_List (w_prefix watcher) s2)),
            currentRev)
      else ([], lastSeen))"

text \<open>A client that keeps a copy of the watched part by replaying the events.\<close>

fun replay :: "WatchEvent list \<Rightarrow> (string \<rightharpoonup> bytes) \<Rightarrow> (string \<rightharpoonup> bytes)" where
  "replay [] m = m"
| "replay (ev # evs) m =
     replay evs (case ev_Type ev of
                   WatchEventPut \<Rightarrow> m(ev_Key ev \<mapsto> ev_Value ev)
                 | WatchEventDelete \<Rightarrow> m(ev_Key ev := None))"

text \<open>The copy \<open>m\<close> is up to date for the live keys under the prefix.\<close>

definition copy_current :: "string \<Rightarrow> (string \<rightharpoonup> bytes) \<Rightarrow> KVStateMachine \<Rightarrow> bool" where
  "copy_current pre m s \<longleftrightarrow> (\<forall>k v. HasPrefix k pre \<and> kv_abs s k = Some v \<longrightarrow> m k = Some v)"

text \<open>
  A client that follows a watcher through a sequence of polls. Each poll comes with the log
  entries applied before it reads the revision and between that and the listing. The third
  component is the store as the poll saw it last.
\<close>

type_synonym client_state = "(string \<rightharpoonup> bytes) \<times> 64 word \<times> KVStateMachine"

definition client_poll ::
  "Watcher \<Rightarrow> (int \<times> log_data) list \<times> (int \<times> log_data) list \<Rightarrow> client_state \<Rightarrow> client_state" where
  "client_poll watcher = (\<lambda>(es1, es2) (m, lastSeen, s).
     (let s1 = apply_log es1 s; s2 = apply_log es2 s1; (evs, seen) = watch_poll watcher lastSeen s1 s2
      in (replay evs m, seen, if GetRevision s1 > lastSeen then s2 else s1)))"

subsection \<open>The invariant of the registry\<close>

definition watch_inv :: "Watch \<Rightarrow> bool" where
  "watch_inv w \<longleftrightarrow>
     distinct (map fst (watch_watchers w))
     \<and> (\<forall>i x. map_of (watch_watchers w) i = Some x \<longrightarrow>
          w_id x = i \<and> (\<exists>k. i = ''watcher-'' @ show_nat k \<and> 1 \<le> k \<and> k \<le> unat (watch_nextWatcherID w)))"

subsection \<open>Lemmas: the registry\<close>

lemma watch_inv_new: "watch_inv NewWatch"
  by (simp add: watch_inv_def NewWatch_def)

lemma unat_next_id: "unat (r :: 64 word) + 1 < 2 ^ 64 \<Longrightarrow> unat (r + 1) = unat r + 1"
  by (rule unat_revision_step(2))

lemma CreateWatcher_fresh:
  assumes "watch_inv w" and "unat (watch_nextWatcherID w) + 1 < 2 ^ 64"
    and "CreateWatcher opts w = (Some x, w')"
  shows "map_of (watch_watchers w) (w_id x) = None"
proof (rule ccontr)
  assume "map_of (watch_watchers w) (w_id x) \<noteq> None"
  then obtain k where "w_id x = ''watcher-'' @ show_nat k"
      and "k \<le> unat (watch_nextWatcherID w)"
    using assms(1) unfolding watch_inv_def by blast
  with unat_next_id [OF assms(2)] assms(3) show False
    by (auto simp: CreateWatcher_def Let_def split: if_splits)
qed

lemma watch_inv_number:
  "watch_inv w \<Longrightarrow> unat (watch_nextWatcherID w) \<le> unat r \<Longrightarrow> watch_inv (w\<lparr>watch_nextWatcherID := r\<rparr>)"
  unfolding watch_inv_def using order_trans by fastforce

lemma watch_inv_add:
  assumes "watch_inv w" and "i = ''watcher-'' @ show_nat (unat (watch_nextWatcherID w))"
    and "0 < watch_nextWatcherID w" and "w_id x = i"
  shows "watch_inv (w\<lparr>watch_watchers := AList.update i x (watch_watchers w)\<rparr>)"
  using assms by (auto simp: watch_inv_def unat_gt_0 word_greater_zero_iff Suc_le_eq)

lemma CreateWatcher_inv:
  assumes "watch_inv w" and "unat (watch_nextWatcherID w) + 1 < 2 ^ 64"
  shows "watch_inv (snd (CreateWatcher opts w))"
proof -
  have n: "watch_inv (w\<lparr>watch_nextWatcherID := watch_nextWatcherID w + 1\<rparr>)"
    using assms unat_next_id [OF assms(2)] by (intro watch_inv_number) simp_all
  have "0 < watch_nextWatcherID w + 1"
    using unat_next_id [OF assms(2)] by (simp add: word_less_nat_alt)
  with watch_inv_add [OF n] n show ?thesis by (simp add: CreateWatcher_def Let_def)
qed

lemma watcher_exit_inv: "watch_inv w \<Longrightarrow> watch_inv (watcher_exit i w)"
  by (auto simp: watch_inv_def watcher_exit_def)

lemma CloseAll_inv: "watch_inv (snd (CloseAll w))"
  by (simp add: watch_inv_def CloseAll_def)

subsection \<open>Lemmas: entries that did not change\<close>

text \<open>A command either leaves an entry alone or gives it the revision of the command.\<close>

lemma applyDelete_entry:
  "map_of (fsm_data (snd (applyDelete k s))) j = Some e \<Longrightarrow> map_of (fsm_data s) j = Some e"
  by (auto simp: applyDelete_def split: option.splits if_splits)

lemma apply_cmd_entry:
  assumes "map_of (fsm_data (snd (apply_cmd now c s))) j = Some e"
  shows "map_of (fsm_data s) j = Some e \<or> entry_ModifiedRevision e = fsm_revision s"
  using assms
  by (auto simp: apply_cmd_def applyPut_def applyGrantLease_def applyRevokeLease_def applyAttachLease_def
      Let_def split: if_splits option.splits dest: applyDelete_entry delete_keys_data)

lemma Apply_entry:
  assumes "map_of (fsm_data (snd (Apply now d s))) j = Some e"
  shows "map_of (fsm_data s) j = Some e \<or> entry_ModifiedRevision e = fsm_revision s + 1"
  using assms apply_cmd_entry by (fastforce simp: Apply_def split: log_data.splits)

lemma word_le_next:
  fixes r :: "64 word"
  assumes "unat r + 1 < 2 ^ 64"
  shows "r < r + 1"
  using unat_next_id [OF assms] by (simp add: word_less_nat_alt)

lemma Apply_revision_mono:
  assumes "unat (fsm_revision s) + 1 < 2 ^ 64"
  shows "fsm_revision s \<le> fsm_revision (snd (Apply now d s))"
    and "unat (fsm_revision (snd (Apply now d s))) \<le> unat (fsm_revision s) + 1"
  using word_le_next [OF assms] unat_next_id [OF assms]
  by (auto simp: Apply_revision order_less_imp_le)

text \<open>An entry not modified since revision \<open>r\<close> was there already, unchanged.\<close>

lemma apply_log_old_entry:
  assumes "map_of (fsm_data (apply_log es s)) k = Some e"
    and "entry_ModifiedRevision e \<le> fsm_revision s"
    and "unat (fsm_revision s) + length es < 2 ^ 64"
  shows "map_of (fsm_data s) k = Some e"
  using assms
proof (induction es arbitrary: s)
  case (Cons x es)
  obtain now d where x: "x = (now, d)" by (cases x)
  let ?t = "snd (Apply now d s)"
  have lt: "unat (fsm_revision s) + 1 < 2 ^ 64" using Cons.prems(3) by simp
  have "fsm_revision s \<le> fsm_revision ?t" by (rule Apply_revision_mono(1) [OF lt])
  then have "entry_ModifiedRevision e \<le> fsm_revision ?t" using Cons.prems(2) by (rule order_trans [rotated])
  moreover have "unat (fsm_revision ?t) + length es < 2 ^ 64"
    using Apply_revision_mono(2) [OF lt, of now d] Cons.prems(3) by simp
  moreover have "map_of (fsm_data (apply_log es ?t)) k = Some e" using Cons.prems(1) x by simp
  ultimately have "map_of (fsm_data ?t) k = Some e" using Cons.IH [of ?t] by blast
  moreover have "entry_ModifiedRevision e \<noteq> fsm_revision s + 1"
    using Cons.prems(2) word_le_next [OF lt] by auto
  ultimately show ?case using Apply_entry by blast
qed simp

subsection \<open>Lemmas: replaying\<close>

lemma replay_put_event [simp]:
  "replay (put_event e # evs) m = replay evs (m(entry_Key e \<mapsto> entry_Value e))"
  by (simp add: put_event_def)

declare replay.simps(2) [simp del]

lemma replay_puts_other: "k \<notin> entry_Key ` set es \<Longrightarrow> replay (map put_event es) m k = m k"
  by (induction es arbitrary: m) auto

lemma replay_puts:
  assumes "distinct (map entry_Key es)" and "e \<in> set es"
  shows "replay (map put_event es) m (entry_Key e) = Some (entry_Value e)"
  using assms by (induction es arbitrary: m) (auto simp: replay_puts_other)

lemma replay_puts_dom: "dom m \<subseteq> dom (replay (map put_event es) m)"
proof (induction es arbitrary: m)
  case (Cons e es)
  then show ?case by (metis (no_types, lifting) dom_fun_upd insert_subset list.simps(9) option.distinct(1) replay_put_event)
qed simp

lemma fsm_entry_own:
  assumes "fsm_wf s" and "(k, x) \<in> set (fsm_data s)"
  shows "entry_Key x = k"
proof -
  have d: "distinct (map fst (fsm_data s))" using assms by (simp add: fsm_wf_def)
  show ?thesis using assms gm_lookup_iff [OF d] by (auto simp: fsm_wf_def entry_wf_def)
qed

lemma fsm_List_in:
  assumes "fsm_wf s"
  shows "e \<in> set (fsm_List pre s) \<longleftrightarrow>
           map_of (fsm_data s) (entry_Key e) = Some e \<and> HasPrefix (entry_Key e) pre"
proof -
  have d: "distinct (map fst (fsm_data s))" using assms by (simp add: fsm_wf_def)
  have "e \<in> set (fsm_List pre s) \<longleftrightarrow> (\<exists>k. (k, e) \<in> set (fsm_data s) \<and> HasPrefix k pre)"
    by (auto simp: fsm_List_def image_iff)
  also have "\<dots> \<longleftrightarrow> (entry_Key e, e) \<in> set (fsm_data s) \<and> HasPrefix (entry_Key e) pre"
    using fsm_entry_own [OF assms] by blast
  finally show ?thesis by (simp only: gm_lookup_iff [OF d])
qed

lemma fsm_List_keys:
  assumes "fsm_wf s"
  shows "map entry_Key (fsm_List pre s) = filter (\<lambda>k. HasPrefix k pre) (map fst (fsm_data s))"
proof -
  have "map entry_Key (map snd (filter (\<lambda>(k, e). HasPrefix k pre) m)) = filter (\<lambda>k. HasPrefix k pre) (map fst m)"
    if "set m \<subseteq> set (fsm_data s)" for m
    using that fsm_entry_own [OF assms] by (induction m) (auto split: if_splits)
  then show ?thesis by (simp add: fsm_List_def)
qed

lemma fsm_List_distinct: "fsm_wf s \<Longrightarrow> distinct (map entry_Key (filter P (fsm_List pre s)))"
  by (rule distinct_map_filter) (simp only: fsm_List_keys, simp add: fsm_wf_def)

subsection \<open>Lemmas: following a watcher\<close>

text \<open>What the client knows between polls: every entry not modified after the last seen
  revision has its value in the copy.\<close>

definition client_inv :: "string \<Rightarrow> client_state \<Rightarrow> bool" where
  "client_inv pre = (\<lambda>(m, lastSeen, s).
     fsm_wf s \<and> rev_wf s \<and> lastSeen \<le> fsm_revision s \<and> copy_current pre m s
     \<and> (\<forall>k e. map_of (fsm_data s) k = Some e \<and> HasPrefix k pre \<and> entry_ModifiedRevision e \<le> lastSeen
            \<longrightarrow> m k = Some (entry_Value e)))"

definition log_room :: "nat \<Rightarrow> KVStateMachine \<Rightarrow> bool" where
  "log_room n s \<longleftrightarrow> unat (fsm_revision s) + n < 2 ^ 64"

lemma apply_log_room:
  assumes "log_room (length es + n) s"
  shows "log_room n (apply_log es s)" and "fsm_revision s \<le> fsm_revision (apply_log es s)"
proof -
  let ?d = "length (filter (is_encoded \<circ> snd) es)"
  have le: "?d \<le> length es" by simp
  then have "unat (fsm_revision s) + ?d < 2 ^ 64" using assms unfolding log_room_def by linarith
  then have u: "unat (fsm_revision (apply_log es s)) = unat (fsm_revision s) + ?d"
    by (simp add: apply_log_revision unat_word_ariths unat_of_nat mod_add_right_eq)
  with le assms show "log_room n (apply_log es s)" unfolding log_room_def by linarith
  from u show "fsm_revision s \<le> fsm_revision (apply_log es s)" by (simp add: word_le_nat_alt)
qed

lemma apply_log_wf: "fsm_wf s \<Longrightarrow> fsm_wf (apply_log es s)"
  by (rule fsm_run.run_inv)

lemma apply_log_rev_room: "rev_wf s \<Longrightarrow> log_room (length es) s \<Longrightarrow> rev_wf (apply_log es s)"
  by (rule apply_log_rev_wf) (simp_all add: log_room_def)

lemma known_after_log:
  assumes "client_inv pre (m, r, s)" and "log_room (length es) s"
    and "map_of (fsm_data (apply_log es s)) k = Some e" and "HasPrefix k pre" and "entry_ModifiedRevision e \<le> r"
  shows "m k = Some (entry_Value e)"
proof -
  have "entry_ModifiedRevision e \<le> fsm_revision s"
    using assms(1,5) by (auto simp: client_inv_def)
  with assms(2,3) have "map_of (fsm_data s) k = Some e"
    using apply_log_old_entry [of es s k e] by (simp add: log_room_def)
  with assms(1,4,5) show ?thesis by (auto simp: client_inv_def)
qed

lemma poll_sends_changes:
  assumes "fsm_wf s2" and "\<And>k e. map_of (fsm_data s2) k = Some e \<Longrightarrow> HasPrefix k pre \<Longrightarrow>
      entry_ModifiedRevision e \<le> r \<Longrightarrow> m k = Some (entry_Value e)"
    and "map_of (fsm_data s2) k = Some e" and "HasPrefix k pre"
  shows "replay (map put_event (filter (\<lambda>e. entry_ModifiedRevision e > r) (fsm_List pre s2))) m k
           = Some (entry_Value e)"
proof -
  let ?es = "filter (\<lambda>e. entry_ModifiedRevision e > r) (fsm_List pre s2)"
  have key: "entry_Key e = k" using assms(1,3) by (auto simp: fsm_wf_def entry_wf_def)
  have d: "distinct (map entry_Key ?es)" using assms(1) by (rule fsm_List_distinct)
  show ?thesis
  proof (cases "entry_ModifiedRevision e > r")
    case True
    then have "e \<in> set ?es" using assms key by (simp add: fsm_List_in)
    with d show ?thesis using replay_puts key by metis
  next
    case False
    then have "k \<notin> entry_Key ` set ?es"
      using assms(1,3) by (auto simp: fsm_List_in)
    then have "replay (map put_event ?es) m k = m k" by (rule replay_puts_other)
    also have "m k = Some (entry_Value e)" using False assms by simp
    finally show ?thesis .
  qed
qed

lemma client_invI:
  assumes "fsm_wf s" and "rev_wf s" and "r \<le> fsm_revision s"
    and "\<And>k e. map_of (fsm_data s) k = Some e \<Longrightarrow> HasPrefix k pre \<Longrightarrow> m k = Some (entry_Value e)"
  shows "client_inv pre (m, r, s)"
  using assms by (auto simp: client_inv_def copy_current_def kv_abs_def)

lemma client_poll_inv:
  assumes "client_inv (w_prefix x) (m, r, s)" and "log_room (length es1 + length es2) s"
  shows "client_inv (w_prefix x) (client_poll x (es1, es2) (m, r, s))"
proof -
  let ?s1 = "apply_log es1 s" and ?s2 = "apply_log es2 (apply_log es1 s)"
  have inv: "fsm_wf s" "rev_wf s" "r \<le> fsm_revision s" using assms(1) by (simp_all add: client_inv_def)
  have room1: "log_room (length es1) s" using assms(2) by (simp add: log_room_def)
  have room2: "log_room (length es2) ?s1" and le1: "fsm_revision s \<le> fsm_revision ?s1"
    using apply_log_room [OF assms(2)] by simp_all
  have le2: "fsm_revision ?s1 \<le> fsm_revision ?s2" using apply_log_room(2) [of es2 0 ?s1] room2 by simp
  have s12: "?s2 = apply_log (es1 @ es2) s" by simp
  have room: "log_room (length (es1 @ es2)) s" using assms(2) by simp
  show ?thesis
  proof (cases "GetRevision ?s1 > r")
    case True
    let ?m = "replay (map put_event (filter (\<lambda>e. entry_ModifiedRevision e > r) (fsm_List (w_prefix x) ?s2))) m"
    have "client_inv (w_prefix x) (?m, fsm_revision ?s1, ?s2)"
    proof (rule client_invI)
      show "fsm_wf ?s2" by (intro apply_log_wf inv)
      show "rev_wf ?s2" by (intro apply_log_rev_room inv room1 room2)
      show "?m k = Some (entry_Value e)" if "map_of (fsm_data ?s2) k = Some e" "HasPrefix k (w_prefix x)" for k e
        using \<open>fsm_wf ?s2\<close> known_after_log [OF assms(1) room] that unfolding s12
        by (rule poll_sends_changes)
    qed (rule le2)
    with True show ?thesis by (simp add: client_poll_def watch_poll_def GetRevision_def Let_def)
  next
    case False
    then have "fsm_revision ?s1 = r" using inv(3) le1 by (simp add: GetRevision_def)
    have rw: "rev_wf ?s1" by (intro apply_log_rev_room inv room1)
    have "client_inv (w_prefix x) (m, r, ?s1)"
    proof (rule client_invI)
      show "m k = Some (entry_Value e)" if "map_of (fsm_data ?s1) k = Some e" "HasPrefix k (w_prefix x)" for k e
        using known_after_log [OF assms(1) room1] that rw \<open>fsm_revision ?s1 = r\<close> by (auto simp: rev_wf_def)
    qed (use \<open>fsm_revision ?s1 = r\<close> rw in \<open>auto intro: apply_log_wf inv\<close>)
    with False show ?thesis by (simp add: client_poll_def watch_poll_def Let_def)
  qed
qed

lemma client_run_inv:
  assumes "client_inv (w_prefix x) (m, r, s)"
    and "log_room (\<Sum>(es1, es2)\<leftarrow>ps. length es1 + length es2) s"
  shows "client_inv (w_prefix x) (fold (client_poll x) ps (m, r, s))"
  using assms
proof (induction ps arbitrary: m r s)
  case (Cons p ps)
  obtain es1 es2 where p: "p = (es1, es2)" by (cases p)
  let ?n = "\<Sum>(es1, es2)\<leftarrow>ps. length es1 + length es2"
  obtain m' r' s' where st: "client_poll x p (m, r, s) = (m', r', s')" by (cases "client_poll x p (m, r, s)")
  have "log_room ?n (apply_log es1 s)" "log_room ?n (apply_log es2 (apply_log es1 s))"
    using Cons.prems(2) p apply_log_room(1) [of es1 "length es2 + ?n" s]
      apply_log_room(1) [of es2 ?n "apply_log es1 s"]
    by (simp_all add: add.assoc) (simp add: log_room_def)
  then have "log_room ?n s'"
    using st p by (auto simp: client_poll_def Let_def split: prod.splits if_splits)
  moreover have "client_inv (w_prefix x) (m', r', s')"
    using client_poll_inv [OF Cons.prems(1), of es1 es2] Cons.prems(2) p st by (simp add: log_room_def)
  ultimately show ?case using Cons.IH st by simp
qed simp

subsection \<open>Properties\<close>

text \<open>
  C27: a client that starts a watcher at the current revision with a copy of the watched
  keys and replays the events it receives has, after any number of polls, whatever log
  entries were applied before, between and during the polls, the current value of every
  live key under the prefix: no update is missed, although the revision is read before the
  entries are listed. The one bound is that the revision counter does not wrap.
\<close>

theorem watch_misses_no_update:
  assumes "fsm_wf s" and "rev_wf s" and "copy_current (w_prefix x) m s" and "w_startRevision x = 0"
    and "unat (fsm_revision s) + (\<Sum>(es1, es2)\<leftarrow>ps. length es1 + length es2) < 2 ^ 64"
    and "fold (client_poll x) ps (m, watch_start x s, s) = (m', seen, s')"
  shows "copy_current (w_prefix x) m' s'"
proof -
  have "client_inv (w_prefix x) (m, watch_start x s, s)"
    using assms(1-4)
    by (intro client_invI) (auto simp: watch_start_def GetRevision_def copy_current_def kv_abs_def)
  then have "client_inv (w_prefix x) (m', seen, s')"
    using client_run_inv [of x m "watch_start x s" s ps] assms(5,6) by (simp add: log_room_def)
  then show ?thesis by (simp add: client_inv_def)
qed

theorem watch_misses_no_update_witness:
  "let x = \<lparr>w_id = ''watcher-1'', w_prefix = ''/a'', w_startRevision = 0, w_buffer = 100, w_cancelled = False\<rparr>;
       s = NewKVStateMachine 10 100;
       (m, seen, t) = client_poll x ([(0, Encoded (put_command ''/a'' ''1'' []))], [(0, Encoded (put_command ''/a'' ''2'' []))])
                        (Map.empty, watch_start x s, s)
   in copy_current ''/a'' m t"
proof -
  let ?x = "\<lparr>w_id = ''watcher-1'', w_prefix = ''/a'', w_startRevision = 0, w_buffer = 100, w_cancelled = False\<rparr>"
    and ?s = "NewKVStateMachine 10 100"
    and ?p = "([(0, Encoded (put_command ''/a'' ''1'' []))], [(0, Encoded (put_command ''/a'' ''2'' []))])"
  obtain m seen t where r: "client_poll ?x ?p (Map.empty, watch_start ?x ?s, ?s) = (m, seen, t)"
    by (cases "client_poll ?x ?p (Map.empty, watch_start ?x ?s, ?s)")
  have "copy_current ''/a'' m t"
    using watch_misses_no_update [of ?s ?x Map.empty "[?p]" m seen t, OF fsm_wf_init rev_wf_init] r
    by (simp add: copy_current_def kv_abs_def NewKVStateMachine_def)
  with r show ?thesis by (simp only: Let_def) simp
qed

text \<open>
  A watcher never reports a deletion. Whatever happens to the store, every event is a
  put of a key that is in the store, and a key the client has in its copy stays in it
  forever, also after it was deleted.
\<close>

theorem watch_never_reports_deletion:
  "(\<forall>ev. ev \<in> set (fst (watch_poll x r s1 s2)) \<longrightarrow> ev_Type ev = WatchEventPut)
   \<and> dom m \<subseteq> dom (fst (fold (client_poll x) ps (m, r', s)))"
proof
  show "\<forall>ev. ev \<in> set (fst (watch_poll x r s1 s2)) \<longrightarrow> ev_Type ev = WatchEventPut"
    by (auto simp: watch_poll_def Let_def put_event_def)
  have step: "dom m \<subseteq> dom (fst (client_poll x p (m, r, s)))" for p m r s
    using replay_puts_dom by (cases p) (simp add: client_poll_def watch_poll_def Let_def)
  show "dom m \<subseteq> dom (fst (fold (client_poll x) ps (m, r', s)))"
  proof (induction ps arbitrary: m r' s)
    case (Cons p ps)
    obtain m'' r'' s'' where "client_poll x p (m, r', s) = (m'', r'', s'')" by (cases "client_poll x p (m, r', s)")
    with Cons [of m'' r'' s''] step [of m p r' s] show ?case by simp
  qed simp
qed

theorem watch_never_reports_deletion_witness:
  "let x = \<lparr>w_id = ''watcher-1'', w_prefix = ''/a'', w_startRevision = 0, w_buffer = 100, w_cancelled = False\<rparr>;
       s = snd (Apply 0 (Encoded (put_command ''/a'' ''1'' [])) (NewKVStateMachine 10 100));
       (m, seen, t) = client_poll x ([(0, Encoded (delete_command ''/a''))], []) ([''/a'' \<mapsto> ''1''], watch_start x s, s)
   in kv_abs t ''/a'' = None \<and> m ''/a'' \<noteq> None"
proof -
  let ?x = "\<lparr>w_id = ''watcher-1'', w_prefix = ''/a'', w_startRevision = 0, w_buffer = 100, w_cancelled = False\<rparr>"
    and ?s = "snd (Apply 0 (Encoded (put_command ''/a'' ''1'' [])) (NewKVStateMachine 10 100))"
    and ?p = "([(0, Encoded (delete_command ''/a''))], [])"
  let ?r = "client_poll ?x ?p ([''/a'' \<mapsto> ''1''], watch_start ?x ?s, ?s)"
  have "dom [''/a'' \<mapsto> ''1''] \<subseteq> dom (fst ?r)"
    using watch_never_reports_deletion [of ?x 0 ?s ?s "[''/a'' \<mapsto> ''1'']" "[?p]" "watch_start ?x ?s" ?s] by simp
  then have "fst ?r ''/a'' \<noteq> None" by auto
  moreover have "kv_abs (snd (snd ?r)) ''/a'' = None"
    by (simp add: client_poll_def watch_poll_def watch_start_def Apply_def apply_cmd_def applyPut_def applyDelete_def
        put_command_def delete_command_def isValidKey_def HasPrefix_def NewKVStateMachine_def kv_abs_def Let_def
        GetRevision_def)
  ultimately show ?thesis by (simp only: Let_def case_prod_beta) simp
qed

text \<open>
  \<open>WatchKey\<close> is a prefix watch. The watcher it creates reports the changed entries of
  all keys that extend the given key, siblings included, and only those.
\<close>

theorem watch_key_is_prefix_watch:
  assumes "fsm_wf s2" and "WatchKey key start w = (Some x, w')" and "GetRevision s1 > r"
  shows "set (fst (watch_poll x r s1 s2))
         = {put_event e |e k. map_of (fsm_data s2) k = Some e \<and> HasPrefix k key \<and> entry_ModifiedRevision e > r}"
proof -
  have pre: "w_prefix x = key" using assms(2) by (auto simp: WatchKey_def CreateWatcher_def Let_def)
  have "e \<in> set (fsm_List key s2) \<longleftrightarrow> (\<exists>k. map_of (fsm_data s2) k = Some e \<and> HasPrefix k key)" for e
    using assms(1) fsm_List_in [OF assms(1)] by (auto simp: fsm_wf_def entry_wf_def)
  then have "{e \<in> set (fsm_List key s2). entry_ModifiedRevision e > r}
      = {e. \<exists>k. map_of (fsm_data s2) k = Some e \<and> HasPrefix k key \<and> entry_ModifiedRevision e > r}" by blast
  with assms(3) pre show ?thesis by (simp add: watch_poll_def Let_def) blast
qed

theorem watch_key_is_prefix_watch_witness:
  "let s = snd (Apply 0 (Encoded (put_command ''/lock10'' ''1'' [])) (NewKVStateMachine 10 100));
       (x, w) = WatchKey ''/lock1'' 0 NewWatch
   in ''/lock10'' \<in> ev_Key ` set (fst (watch_poll (the x) 0 s s))"
proof -
  let ?s = "snd (Apply 0 (Encoded (put_command ''/lock10'' ''1'' [])) (NewKVStateMachine 10 100))"
  let ?e = "\<lparr>entry_Key = ''/lock10'', entry_Value = ''1'', entry_Revision = 1, entry_CreatedRevision = 1,
             entry_ModifiedRevision = 1, entry_Version = 1, entry_CreateTime = 0, entry_ModTime = 0\<rparr>"
  obtain x w' where x: "WatchKey ''/lock1'' 0 NewWatch = (Some x, w')"
    by (simp add: WatchKey_def CreateWatcher_def Let_def)
  have s: "fsm_wf ?s" by (rule apply_log_wf [of _ "[(0, Encoded (put_command ''/lock10'' ''1'' []))]", simplified]) (rule fsm_wf_init)
  have e: "map_of (fsm_data ?s) ''/lock10'' = Some ?e" and r: "GetRevision ?s > 0"
    by (simp_all add: Apply_def apply_cmd_def applyPut_def put_command_def isValidKey_def HasPrefix_def
        NewKVStateMachine_def Let_def GetRevision_def)
  have "put_event ?e \<in> set (fst (watch_poll x 0 ?s ?s))"
    using e by (subst watch_key_is_prefix_watch [OF s x r]) (force simp: HasPrefix_def)
  then have "ev_Key (put_event ?e) \<in> ev_Key ` set (fst (watch_poll x 0 ?s ?s))" by (rule imageI)
  then have "''/lock10'' \<in> ev_Key ` set (fst (watch_poll x 0 ?s ?s))" by (simp add: put_event_def)
  then show ?thesis by (simp add: x Let_def)
qed

end
