(* ===== verification/Dep_Graph.thy ===== *)
theory Dep_Graph
  imports Prelude "HOL-Library.Multiset"
begin

text \<open>
  The dependency graph of a deployment, \<open>internal/compiler/graph.go\<close>. Go visits the keys
  of a map in an order that changes from one loop to the next: the \<open>n\<close>-th loop over a map
  visits the keys in the order \<open>rng n keys\<close>, where \<open>rng\<close> is a parameter of which the
  theorems only assume \<open>range_order\<close>, that it permutes.

  The loop of the sort is given fuel; the sort itself starts it with one unit per node and
  one more, and \<open>None\<close>, running out, is shown not to happen.
\<close>

type_synonym 'a range = "nat \<Rightarrow> 'a list \<Rightarrow> 'a list"

definition range_order :: "'a range \<Rightarrow> bool" where
  "range_order rng \<longleftrightarrow> (\<forall>n xs. mset (rng n xs) = mset xs)"

subsection \<open>graph.go\<close>

definition edge_list :: "('a, 'a list) gomap \<Rightarrow> 'a \<Rightarrow> 'a list" where
  "edge_list edges i = (case map_of edges i of None \<Rightarrow> [] | Some deps \<Rightarrow> deps)"

definition degree :: "('a, int) gomap \<Rightarrow> 'a \<Rightarrow> int" where
  "degree inDegree i = (case map_of inDegree i of None \<Rightarrow> 0 | Some d \<Rightarrow> d)"

definition initial_degrees :: "'a list \<Rightarrow> ('a, 'a list) gomap \<Rightarrow> ('a, int) gomap" where
  "initial_degrees keys edges = fold (\<lambda>i m. AList.update i (int (length (edge_list edges i))) m) keys []"

text \<open>The body of the two inner loops, for one occurrence of a dependency.\<close>

definition release_one :: "'a \<Rightarrow> 'a \<Rightarrow> 'a \<Rightarrow> ('a, int) gomap \<times> 'a list \<Rightarrow> ('a, int) gomap \<times> 'a list" where
  "release_one current i depID = (\<lambda>(inDegree, queue).
     if depID = current
     then (let inDegree' = AList.update i (degree inDegree i - 1) inDegree
           in (inDegree', if degree inDegree' i = 0 then queue @ [i] else queue))
     else (inDegree, queue))"

definition release_node :: "('a, 'a list) gomap \<Rightarrow> 'a \<Rightarrow> 'a \<Rightarrow> ('a, int) gomap \<times> 'a list \<Rightarrow> ('a, int) gomap \<times> 'a list" where
  "release_node edges current i st = fold (release_one current i) (edge_list edges i) st"

fun sort_loop ::
  "nat \<Rightarrow> 'a range \<Rightarrow> ('a, 'a list) gomap \<Rightarrow> nat \<Rightarrow> ('a, int) gomap \<Rightarrow> 'a list \<Rightarrow> 'a list \<Rightarrow> 'a list option" where
  "sort_loop fuel rng edges n inDegree [] sortedIDs = Some sortedIDs"
| "sort_loop 0 rng edges n inDegree (current # queue) sortedIDs = None"
| "sort_loop (Suc fuel) rng edges n inDegree (current # queue) sortedIDs =
     (let (inDegree', queue') =
            fold (release_node edges current) (rng n (map fst edges)) (inDegree, queue)
      in sort_loop fuel rng edges (Suc n) inDegree' queue' (sortedIDs @ [current]))"

datatype graph_err = CycleDetected | MissingDependency string string

definition TopologicalSort ::
  "'a range \<Rightarrow> ('a, 'n) gomap \<Rightarrow> ('a, 'a list) gomap \<Rightarrow> (graph_err, 'a list) result option" where
  "TopologicalSort rng nodes edges =
     (let inDegree = initial_degrees (rng 0 (map fst nodes)) edges;
          queue = filter (\<lambda>i. degree inDegree i = 0) (rng 1 (map fst inDegree))
      in case sort_loop (Suc (length nodes)) rng edges 2 inDegree queue [] of
           None \<Rightarrow> None
         | Some sortedIDs \<Rightarrow> Some (if length sortedIDs \<noteq> length nodes then Inl CycleDetected else Inr sortedIDs))"

text \<open>The loop of \<open>ReverseOrder\<close> writes element \<open>i\<close> at position \<open>len - 1 - i\<close> of a slice of
  zero values.\<close>

definition ReverseOrder :: "'a \<Rightarrow> 'a list \<Rightarrow> 'a list" where
  "ReverseOrder zero order =
     fold (\<lambda>i reversed. reversed[length order - 1 - i := order ! i]) [0..<length order]
       (replicate (length order) zero)"

text \<open>\<open>deps\<close> reads the \<open>Dependencies\<close> field of a node.\<close>

definition BuildDependencyEdges :: "('n \<Rightarrow> 'a list) \<Rightarrow> ('a, 'n) gomap \<Rightarrow> ('a, 'a list) gomap" where
  "BuildDependencyEdges deps nodes = fold (\<lambda>(i, node) m. AList.update i (deps node) m) nodes []"

fun missing_dep :: "('a, 'n) gomap \<Rightarrow> 'a list \<Rightarrow> 'a option" where
  "missing_dep nodes [] = None"
| "missing_dep nodes (d # ds) = (if map_of nodes d = None then Some d else missing_dep nodes ds)"

fun validate_range :: "('a \<Rightarrow> string) \<Rightarrow> ('n \<Rightarrow> 'a list) \<Rightarrow> ('a, 'n) gomap \<Rightarrow> 'a list \<Rightarrow> graph_err option" where
  "validate_range show_id deps nodes [] = None"
| "validate_range show_id deps nodes (i # is) =
     (case map_of nodes i of
        None \<Rightarrow> validate_range show_id deps nodes is
      | Some node \<Rightarrow>
          (case missing_dep nodes (deps node) of
             Some d \<Rightarrow> Some (MissingDependency (show_id i) (show_id d))
           | None \<Rightarrow> validate_range show_id deps nodes is))"

definition ValidateGraph ::
  "'a range \<Rightarrow> ('a \<Rightarrow> string) \<Rightarrow> ('n \<Rightarrow> 'a list) \<Rightarrow> ('a, 'n) gomap \<Rightarrow> graph_err option" where
  "ValidateGraph rng show_id deps nodes = validate_range show_id deps nodes (rng 0 (map fst nodes))"

subsection \<open>Specification\<close>

text \<open>An order of the keys in which every node comes after all its dependencies.\<close>

definition valid_order :: "'a set \<Rightarrow> ('a \<Rightarrow> 'a list) \<Rightarrow> 'a list \<Rightarrow> bool" where
  "valid_order keys deps order \<longleftrightarrow>
     distinct order \<and> set order = keys
     \<and> (\<forall>j < length order. set (deps (order ! j)) \<subseteq> set (take j order))"

subsection \<open>Lemmas: degrees\<close>

lemma degree_update [simp]: "degree (AList.update i d m) j = (if i = j then d else degree m j)"
  by (simp add: degree_def)

lemma initial_degrees_map:
  "map_of (fold (\<lambda>i m. AList.update i (int (length (edge_list edges i))) m) keys m0)
     = (\<lambda>i. if i \<in> set keys then Some (int (length (edge_list edges i))) else map_of m0 i)"
  by (induction keys arbitrary: m0) auto

lemma initial_degrees_keys:
  "distinct (map fst m0) \<Longrightarrow>
     set (map fst (fold (\<lambda>i m. AList.update i (int (length (edge_list edges i))) m) keys m0)) = set keys \<union> set (map fst m0)
     \<and> distinct (map fst (fold (\<lambda>i m. AList.update i (int (length (edge_list edges i))) m) keys m0))"
  by (induction keys arbitrary: m0) (auto simp: dom_update [simplified])

lemma range_set: "range_order rng \<Longrightarrow> set (rng n xs) = set xs"
  by (metis range_order_def set_mset_mset)

lemma range_distinct: "range_order rng \<Longrightarrow> distinct (rng n xs) = distinct xs"
  by (metis mset_eq_imp_distinct_iff range_order_def)

text \<open>Releasing the occurrences of one node in a list of dependencies: the degree drops by
  their number, and the node is queued when it reaches zero, which happens at most once.\<close>

lemma release_one_hit:
  "release_one c i c (m, q) =
     (AList.update i (degree m i - 1) m, if degree m i = 1 then q @ [i] else q)"
  by (simp add: release_one_def Let_def)

lemma release_one_miss: "d \<noteq> c \<Longrightarrow> release_one c i d st = st"
  by (simp add: release_one_def split: prod.split)

lemma degree_update_fun: "degree (AList.update i d m) = (degree m)(i := d)"
  by auto

lemma release_list:
  assumes "degree m i \<ge> int (count_list ds c)"
  shows "\<exists>m'. fold (release_one c i) ds (m, q) =
           (m', if count_list ds c > 0 \<and> degree m i = int (count_list ds c) then q @ [i] else q)
       \<and> degree m' = (degree m)(i := degree m i - int (count_list ds c))"
  using assms
proof (induction ds arbitrary: m q)
  case (Cons d ds)
  show ?case
  proof (cases "d = c")
    case True
    let ?m = "AList.update i (degree m i - 1) m" and ?q = "if degree m i = 1 then q @ [i] else q"
    have le: "int (count_list ds c) \<le> degree ?m i" using Cons.prems True by simp
    obtain m' where m': "fold (release_one c i) ds (?m, ?q) =
        (m', if count_list ds c > 0 \<and> degree ?m i = int (count_list ds c) then ?q @ [i] else ?q)"
        "degree m' = (degree ?m)(i := degree ?m i - int (count_list ds c))"
      using Cons.IH [OF le] by blast
    have "degree m' = (degree m)(i := degree m i - int (count_list (d # ds) c))"
      using m'(2) True by (simp add: degree_update_fun diff_diff_eq)
    moreover have "(if count_list ds c > 0 \<and> degree ?m i = int (count_list ds c) then ?q @ [i] else ?q)
        = (if count_list (d # ds) c > 0 \<and> degree m i = int (count_list (d # ds) c) then q @ [i] else q)"
      using Cons.prems True by auto
    moreover have "fold (release_one c i) (d # ds) (m, q) = fold (release_one c i) ds (?m, ?q)"
      using True by (simp add: release_one_hit)
    ultimately show ?thesis using m'(1) by (intro exI [of _ m']) (simp only: conj_absorb)
  next
    case False
    with Cons show ?thesis by (simp add: release_one_miss)
  qed
qed simp

lemma count_list_pos: "0 < count_list xs c \<longleftrightarrow> c \<in> set xs"
  using count_list_0_iff [of xs c] by auto

lemma release_range:
  assumes "distinct ks" and "\<And>i. i \<in> set ks \<Longrightarrow> degree m i \<ge> int (count_list (edge_list edges i) c)"
  shows "\<exists>m'. fold (release_node edges c) ks (m, q) =
           (m', q @ filter (\<lambda>i. c \<in> set (edge_list edges i) \<and> degree m i = int (count_list (edge_list edges i) c)) ks)
       \<and> degree m' = (\<lambda>i. if i \<in> set ks then degree m i - int (count_list (edge_list edges i) c) else degree m i)"
  using assms
proof (induction ks arbitrary: m q)
  case (Cons k ks)
  let ?n = "\<lambda>i. int (count_list (edge_list edges i) c)"
  obtain m1 where m1: "fold (release_one c k) (edge_list edges k) (m, q) =
      (m1, if c \<in> set (edge_list edges k) \<and> degree m k = ?n k then q @ [k] else q)"
      "degree m1 = (degree m)(k := degree m k - ?n k)"
    using release_list [of "edge_list edges k" c m k q] Cons.prems(2) [of k] by (auto simp: count_list_pos)
  let ?q = "if c \<in> set (edge_list edges k) \<and> degree m k = ?n k then q @ [k] else q"
  have "\<And>i. i \<in> set ks \<Longrightarrow> degree m1 i \<ge> ?n i" using Cons.prems m1(2) by auto
  then obtain m' where m': "fold (release_node edges c) ks (m1, ?q) =
      (m', ?q @ filter (\<lambda>i. c \<in> set (edge_list edges i) \<and> degree m1 i = ?n i) ks)"
      "degree m' = (\<lambda>i. if i \<in> set ks then degree m1 i - ?n i else degree m1 i)"
    using Cons.IH [of m1 ?q] Cons.prems(1) by auto
  have "filter (\<lambda>i. c \<in> set (edge_list edges i) \<and> degree m1 i = ?n i) ks
      = filter (\<lambda>i. c \<in> set (edge_list edges i) \<and> degree m i = ?n i) ks"
    using Cons.prems(1) m1(2) by (intro filter_cong) auto
  moreover have "degree m' = (\<lambda>i. if i \<in> set (k # ks) then degree m i - ?n i else degree m i)"
    using m'(2) m1(2) Cons.prems(1) by auto
  moreover have "fold (release_node edges c) (k # ks) (m, q) = fold (release_node edges c) ks (m1, ?q)"
    using m1(1) by (simp add: release_node_def [of edges c k])
  moreover have "?q @ filter P ks = q @ filter P (k # ks)"
    if "P k \<longleftrightarrow> c \<in> set (edge_list edges k) \<and> degree m k = ?n k" for P
    using that by simp
  ultimately show ?case using m'(1) by (intro exI [of _ m']) simp
qed simp

subsection \<open>Lemmas: the loop\<close>

definition open_deps :: "('a \<Rightarrow> 'a list) \<Rightarrow> 'a list \<Rightarrow> 'a \<Rightarrow> 'a list" where
  "open_deps deps out i = filter (\<lambda>d. d \<notin> set out) (deps i)"

definition sort_inv :: "'a set \<Rightarrow> ('a \<Rightarrow> 'a list) \<Rightarrow> ('a, int) gomap \<Rightarrow> 'a list \<Rightarrow> 'a list \<Rightarrow> bool" where
  "sort_inv keys deps m queue out \<longleftrightarrow>
     distinct (out @ queue) \<and> set (out @ queue) \<subseteq> keys
     \<and> (\<forall>i\<in>keys. degree m i = int (length (open_deps deps out i)))
     \<and> (\<forall>i\<in>keys. open_deps deps out i = [] \<longleftrightarrow> i \<in> set (out @ queue))
     \<and> (\<forall>j < length out. set (deps (out ! j)) \<subseteq> set (take j out))"

lemma open_deps_snoc:
  assumes "c \<notin> set out"
  shows "int (length (open_deps deps (out @ [c]) i)) = int (length (open_deps deps out i)) - int (count_list (deps i) c)"
    and "count_list (deps i) c \<le> length (open_deps deps out i)"
proof -
  have "length (filter (\<lambda>d. d \<notin> set out) ds)
      = length (filter (\<lambda>d. d \<notin> set (out @ [c])) ds) + count_list ds c" for ds
    using assms by (induction ds) auto
  from this [of "deps i"]
  show "int (length (open_deps deps (out @ [c]) i)) = int (length (open_deps deps out i)) - int (count_list (deps i) c)"
    and "count_list (deps i) c \<le> length (open_deps deps out i)"
    by (simp_all add: open_deps_def)
qed

lemma sort_inv_step:
  assumes inv: "sort_inv keys (edge_list edges) m (c # queue) out"
    and ks: "distinct ks" "set ks = keys"
  shows "\<exists>m' queue'. fold (release_node edges c) ks (m, queue) = (m', queue')
       \<and> sort_inv keys (edge_list edges) m' queue' (out @ [c])"
proof -
  let ?D = "edge_list edges" and ?new = "\<lambda>i. c \<in> set (edge_list edges i) \<and> degree m i = int (count_list (edge_list edges i) c)"
  have c: "c \<notin> set out" "c \<in> keys" "c \<notin> set queue" using inv by (auto simp: sort_inv_def)
  have deg: "degree m i = int (length (open_deps ?D out i))" if "i \<in> keys" for i
    using inv that by (simp add: sort_inv_def)
  then obtain m' where m': "fold (release_node edges c) ks (m, queue) = (m', queue @ filter ?new ks)"
      "degree m' = (\<lambda>i. if i \<in> keys then degree m i - int (count_list (?D i) c) else degree m i)"
    using release_range [OF ks(1), of edges c m queue] ks(2) open_deps_snoc(2) [OF c(1), of ?D] by auto
  have new: "?new i \<longleftrightarrow> open_deps ?D (out @ [c]) i = [] \<and> open_deps ?D out i \<noteq> []" if "i \<in> keys" for i
  proof -
    have "open_deps ?D (out @ [c]) i = [] \<longleftrightarrow> degree m i = int (count_list (?D i) c)"
      using open_deps_snoc(1) [OF c(1), of ?D i] deg [OF that] by (metis length_0_conv of_nat_0_eq_iff eq_iff_diff_eq_0)
    moreover have "c \<in> set (?D i) \<longleftrightarrow> count_list (?D i) c \<noteq> 0" by (simp add: count_list_0_iff)
    ultimately show ?thesis using deg [OF that] by auto
  qed
  have q: "open_deps ?D out i = [] \<longleftrightarrow> i \<in> set (out @ c # queue)" if "i \<in> keys" for i
    using inv that by (simp add: sort_inv_def)
  have mono: "open_deps ?D out i = [] \<Longrightarrow> open_deps ?D (out @ [c]) i = []" for i
    by (auto simp: open_deps_def filter_empty_conv)
  have done_c: "set (?D c) \<subseteq> set out"
    using q [OF c(2)] by (auto simp: open_deps_def filter_empty_conv)
  have fresh: "i \<notin> set (out @ c # queue)" if "i \<in> set (filter ?new ks)" for i
  proof -
    have "i \<in> keys" "?new i" using that ks(2) by auto
    then show ?thesis using new q by blast
  qed
  have "sort_inv keys ?D m' (queue @ filter ?new ks) (out @ [c])"
    unfolding sort_inv_def
  proof (intro conjI)
    show "distinct ((out @ [c]) @ queue @ filter ?new ks)"
      using inv ks(1) fresh by (auto simp: sort_inv_def simp del: set_filter)
    show "set ((out @ [c]) @ queue @ filter ?new ks) \<subseteq> keys" using inv ks by (auto simp: sort_inv_def)
    show "\<forall>i\<in>keys. degree m' i = int (length (open_deps ?D (out @ [c]) i))"
      using m'(2) deg open_deps_snoc(1) [OF c(1), of ?D] by simp
    show "\<forall>i\<in>keys. open_deps ?D (out @ [c]) i = [] \<longleftrightarrow> i \<in> set ((out @ [c]) @ queue @ filter ?new ks)"
      using new q mono ks(2) by auto
    show "\<forall>j < length (out @ [c]). set (?D ((out @ [c]) ! j)) \<subseteq> set (take j (out @ [c]))"
      using inv done_c by (auto simp: sort_inv_def nth_append less_Suc_eq)
  qed
  with m'(1) show ?thesis by blast
qed

lemma sort_loop_inv:
  assumes "range_order rng" and "finite keys" and "distinct (map fst edges)" and "set (map fst edges) = keys"
    and "sort_inv keys (edge_list edges) m queue out" and "card keys < length out + Suc fuel"
  shows "\<exists>m' s. sort_loop fuel rng edges n m queue out = Some s \<and> sort_inv keys (edge_list edges) m' [] s"
  using assms(5,6)
proof (induction fuel arbitrary: n m queue out)
  case 0
  have "length (out @ queue) \<le> card keys"
    using 0(1) assms(2) by (metis card_mono distinct_card sort_inv_def)
  with 0 have "queue = []" by (cases queue) simp_all
  with 0 show ?case by auto
next
  case (Suc fuel)
  show ?case
  proof (cases queue)
    case (Cons c rest)
    have "distinct (rng n (map fst edges))" "set (rng n (map fst edges)) = keys"
      using assms(1,3,4) range_distinct range_set by metis+
    then obtain m' queue' where "fold (release_node edges c) (rng n (map fst edges)) (m, rest) = (m', queue')"
        "sort_inv keys (edge_list edges) m' queue' (out @ [c])"
      using sort_inv_step [of keys edges m c rest out] Suc.prems(1) Cons by blast
    with Suc.IH [of m' queue' "out @ [c]" "Suc n"] Suc.prems(2) Cons show ?thesis by auto
  qed (use Suc.prems in auto)
qed

text \<open>The start of the loop.\<close>

lemma sort_inv_start:
  assumes "range_order rng" and "distinct (map fst nodes)"
    and m_def: "m = initial_degrees (rng 0 (map fst nodes)) edges"
  shows "sort_inv (set (map fst nodes)) (edge_list edges) m (filter (\<lambda>i. degree m i = 0) (rng 1 (map fst m))) []"
proof -
  have keys: "set (rng 0 (map fst nodes)) = set (map fst nodes)" by (rule range_set [OF assms(1)])
  have m: "set (map fst m) = set (map fst nodes)" "distinct (map fst m)"
    using initial_degrees_keys [of "[]" edges "rng 0 (map fst nodes)"] keys
    by (simp_all add: m_def initial_degrees_def)
  have deg: "degree m i = int (length (edge_list edges i))" if "i \<in> set (map fst nodes)" for i
    using that keys by (simp add: degree_def m_def initial_degrees_def initial_degrees_map)
  have q: "set (rng 1 (map fst m)) = set (map fst nodes)" "distinct (rng 1 (map fst m))"
    using range_set [OF assms(1)] range_distinct [OF assms(1)] m by auto
  have "i \<in> set (filter (\<lambda>i. degree m i = 0) (rng 1 (map fst m))) \<longleftrightarrow> edge_list edges i = []"
    if "i \<in> set (map fst nodes)" for i
    using that q(1) deg [OF that] by simp
  then show ?thesis
    unfolding sort_inv_def using q deg by (auto simp: open_deps_def)
qed

lemma sort_result:
  assumes "range_order rng" and "distinct (map fst nodes)"
    and "distinct (map fst edges)" and "set (map fst edges) = set (map fst nodes)"
  obtains m s where "TopologicalSort rng nodes edges =
      Some (if length s \<noteq> length nodes then Inl CycleDetected else Inr s)"
    and "sort_inv (set (map fst nodes)) (edge_list edges) m [] s"
proof -
  have "card (set (map fst nodes)) = length nodes"
    using distinct_card [OF assms(2)] by simp
  then show ?thesis
    using sort_loop_inv [OF assms(1) _ assms(3,4) sort_inv_start [OF assms(1,2) refl], of "Suc (length nodes)" 2] that
    unfolding TopologicalSort_def Let_def by fastforce
qed

text \<open>A node left over has a dependency left over, so no valid order exists.\<close>

lemma leftover_no_order:
  assumes "sort_inv keys deps m [] s" and "valid_order keys deps order"
  shows "set s = keys"
proof (rule ccontr)
  assume "set s \<noteq> keys"
  then obtain u where u: "u \<in> keys" "u \<notin> set s" using assms(1) by (auto simp: sort_inv_def)
  define j where "j = (LEAST j. j < length order \<and> order ! j \<notin> set s)"
  have ex: "\<exists>j. j < length order \<and> order ! j \<notin> set s"
    using u assms(2) by (metis in_set_conv_nth valid_order_def)
  have j: "j < length order" "order ! j \<notin> set s" using LeastI_ex [OF ex] by (simp_all add: j_def)
  have before: "order ! k \<in> set s" if "k < j" for k
    using not_less_Least [of k "\<lambda>j. j < length order \<and> order ! j \<notin> set s"] that j(1) by (auto simp: j_def)
  have "set (deps (order ! j)) \<subseteq> set (take j order)" using assms(2) j(1) by (simp add: valid_order_def)
  also have "\<dots> \<subseteq> set s" using before by (auto simp: in_set_conv_nth)
  finally have "open_deps deps s (order ! j) = []" by (auto simp: open_deps_def filter_empty_conv)
  moreover have "order ! j \<in> keys" using assms(2) j(1) by (auto simp: valid_order_def)
  ultimately show False using assms(1) j(2) by (auto simp: sort_inv_def)
qed

lemma sort_inv_valid:
  assumes "sort_inv keys deps m [] s" and "length s = card keys" and "finite keys"
  shows "valid_order keys deps s"
proof -
  have "set s = keys" using assms by (intro card_subset_eq) (auto simp: sort_inv_def distinct_card)
  with assms(1) show ?thesis by (auto simp: sort_inv_def valid_order_def)
qed

lemma TopologicalSort_cases:
  assumes "range_order rng" and "distinct (map fst nodes)"
    and "distinct (map fst edges)" and "set (map fst edges) = set (map fst nodes)"
  shows "(\<exists>s. TopologicalSort rng nodes edges = Some (Inr s) \<and> valid_order (set (map fst nodes)) (edge_list edges) s)
       \<or> (TopologicalSort rng nodes edges = Some (Inl CycleDetected)
          \<and> \<not> (\<exists>order. valid_order (set (map fst nodes)) (edge_list edges) order))"
proof -
  obtain m s where s: "TopologicalSort rng nodes edges =
        Some (if length s \<noteq> length nodes then Inl CycleDetected else Inr s)"
      "sort_inv (set (map fst nodes)) (edge_list edges) m [] s"
    by (rule sort_result [OF assms])
  have len: "card (set (map fst nodes)) = length nodes" using distinct_card [OF assms(2)] by simp
  show ?thesis
  proof (cases "length s = length nodes")
    case True
    then show ?thesis using s sort_inv_valid [OF s(2)] len by auto
  next
    case False
    have "length s = card (set s)" using s(2) by (simp add: sort_inv_def distinct_card)
    with False len leftover_no_order [OF s(2)] s(1) show ?thesis by metis
  qed
qed

subsection \<open>Lemmas: the other functions\<close>

lemma ReverseOrder_rev: "ReverseOrder zero order = rev order"
proof -
  let ?n = "length order"
  let ?f = "\<lambda>i reversed. reversed[?n - Suc i := order ! i]"
  have eq: "ReverseOrder zero order = fold ?f [0..<?n] (replicate ?n zero)" by (simp add: ReverseOrder_def)
  have len [simp]: "length (fold ?f is r) = length r" for "is" r by (induction "is" arbitrary: r) auto
  have "fold ?f [0..<k] (replicate ?n zero) ! j = order ! (?n - Suc j)"
    if "k \<le> ?n" "j < ?n" "?n - k \<le> j" for k j
    using that
  proof (induction k)
    case (Suc k)
    show ?case
    proof (cases "j = ?n - Suc k")
      case True
      then have "k = ?n - Suc j" using Suc.prems by simp
      with True Suc.prems show ?thesis by simp
    next
      case False
      with Suc show ?thesis by simp
    qed
  qed simp
  then show ?thesis unfolding eq by (intro nth_equalityI) (simp_all add: rev_nth)
qed

lemma BuildDependencyEdges_keys:
  assumes "distinct (map fst nodes)"
  shows "map fst (BuildDependencyEdges deps nodes) = map fst nodes"
    and "edge_list (BuildDependencyEdges deps nodes) i
           = (case map_of nodes i of None \<Rightarrow> [] | Some node \<Rightarrow> deps node)"
proof -
  have "fold (\<lambda>(i, node) m. AList.update i (deps node) m) nodes acc = acc @ map (\<lambda>(i, node). (i, deps node)) nodes"
    if "distinct (map fst acc @ map fst nodes)" for acc
    using that assms
  proof (induction nodes arbitrary: acc)
    case (Cons p nodes)
    then show ?case by (cases p) (auto simp: gm_update_new)
  qed simp
  from this [of "[]"] assms
  have eq: "BuildDependencyEdges deps nodes = map (\<lambda>(i, node). (i, deps node)) nodes"
    by (simp add: BuildDependencyEdges_def)
  show "map fst (BuildDependencyEdges deps nodes) = map fst nodes" by (simp add: eq case_prod_beta)
  show "edge_list (BuildDependencyEdges deps nodes) i
           = (case map_of nodes i of None \<Rightarrow> [] | Some node \<Rightarrow> deps node)"
    by (simp add: eq edge_list_def map_of_map split: option.split)
qed

lemma missing_dep_None: "missing_dep nodes ds = None \<longleftrightarrow> (\<forall>d\<in>set ds. map_of nodes d \<noteq> None)"
  by (induction ds) auto

lemma missing_dep_Some: "missing_dep nodes ds = Some d \<Longrightarrow> d \<in> set ds \<and> map_of nodes d = None"
  by (induction ds) (auto split: if_splits)

lemma validate_range_None:
  "validate_range show_id deps nodes ks = None \<longleftrightarrow>
     (\<forall>i\<in>set ks. \<forall>node. map_of nodes i = Some node \<longrightarrow> missing_dep nodes (deps node) = None)"
  by (induction ks) (auto split: option.split)

lemma validate_range_Some:
  assumes "validate_range show_id deps nodes ks = Some e"
  shows "\<exists>i node d. map_of nodes i = Some node \<and> d \<in> set (deps node) \<and> map_of nodes d = None
           \<and> e = MissingDependency (show_id i) (show_id d)"
  using assms
proof (induction ks)
  case (Cons i ks)
  show ?case
  proof (cases "map_of nodes i")
    case (Some node)
    with Cons missing_dep_Some [of nodes "deps node"] show ?thesis
      by (cases "missing_dep nodes (deps node)") auto
  qed (use Cons in simp)
qed simp

lemma ValidateGraph_ok:
  assumes "range_order rng"
  shows "ValidateGraph rng show_id deps nodes = None \<longleftrightarrow>
     (\<forall>i node. map_of nodes i = Some node \<longrightarrow> (\<forall>d\<in>set (deps node). map_of nodes d \<noteq> None))"
proof -
  have "i \<in> set (rng 0 (map fst nodes))" if "map_of nodes i = Some node" for i node
    using range_set [OF assms] map_of_SomeD [OF that] by (metis image_eqI fst_conv set_map)
  then show ?thesis unfolding ValidateGraph_def validate_range_None missing_dep_None by blast
qed

subsection \<open>Properties\<close>

text \<open>
  C23: the sort always returns, whatever order Go visits the maps in. It returns an order
  that lists every node once, after all its dependencies, exactly when there is such an
  order; otherwise it reports a cycle.
\<close>

theorem topological_sort_correct:
  assumes "range_order rng" and "distinct (map fst nodes)"
    and "distinct (map fst edges)" and "set (map fst edges) = set (map fst nodes)"
  shows "case TopologicalSort rng nodes edges of
           None \<Rightarrow> False
         | Some (Inl e) \<Rightarrow> e = CycleDetected
             \<and> \<not> (\<exists>order. valid_order (set (map fst nodes)) (edge_list edges) order)
         | Some (Inr s) \<Rightarrow> valid_order (set (map fst nodes)) (edge_list edges) s"
  using TopologicalSort_cases [OF assms] by auto

theorem topological_sort_correct_witness:
  "let nodes = [(''web'', ()), (''net'', ()), (''vol'', ())];
       edges = [(''web'', [''net'', ''vol'', ''vol'']), (''vol'', []), (''net'', [])]
   in valid_order {''web'', ''net'', ''vol''} (edge_list edges) [''net'', ''vol'', ''web'']"
proof -
  let ?nodes = "[(''web'', ()), (''net'', ()), (''vol'', ())]"
  let ?edges = "[(''web'', [''net'', ''vol'', ''vol'']), (''vol'', []), (''net'', [])]"
  have r: "range_order (\<lambda>n. rev)" by (simp add: range_order_def)
  have e: "TopologicalSort (\<lambda>n. rev) ?nodes ?edges = Some (Inr [''net'', ''vol'', ''web''])" by code_simp
  have "{''web'', ''net'', ''vol''} = set (map fst ?nodes)" by simp
  with topological_sort_correct [of "\<lambda>n. rev" ?nodes ?edges] r e show ?thesis
    by (simp add: Let_def insert_commute)
qed

end
