(* ===== verification/Deploy_Compiler.thy ===== *)
theory Deploy_Compiler
  imports Dep_Graph
begin

text \<open>
  The deployment compiler: the data model of \<open>internal/types/deployment.go\<close> as far as the
  compiler and the planner use it, and \<open>internal/compiler/compiler.go\<close>. A Go slice or map
  that can be nil where JSON shows the difference is an option. Running out of the fuel of the
  sort is \<open>None\<close>, which \<open>compile_correct\<close> excludes.
\<close>

subsection \<open>deployment.go\<close>

type_synonym strmap = "(string, string) gomap"
type_synonym 'a slice = "'a list option"

definition elems :: "'a slice \<Rightarrow> 'a list" where
  "elems s = (case s of None \<Rightarrow> [] | Some xs \<Rightarrow> xs)"

record NetworkSpec =
  net_Name :: string
  net_Driver :: string

record VolumeSpec =
  vol_Name :: string
  vol_Path :: string

record BuildConfig =
  bc_Context :: string
  bc_Dockerfile :: string
  bc_Args :: "strmap option"

record ExposeConfig =
  exp_Port :: int
  exp_Hostname :: string

record ServiceSpec =
  svc_Name :: string
  svc_Image :: string
  svc_Build :: "BuildConfig option"
  svc_Environment :: "strmap option"
  svc_Volumes :: "string slice"
  svc_Networks :: "string slice"
  svc_Ports :: "string slice"
  svc_Expose :: "ExposeConfig option"

record AppDeployment =
  ad_ID :: string
  ad_OrgID :: string
  ad_Name :: string
  ad_Slug :: string
  ad_Version :: int
  ad_Networks :: "NetworkSpec list"
  ad_Volumes :: "VolumeSpec list"
  ad_Services :: "ServiceSpec list"

datatype ResourceType =
    ResourceTypeNetwork | ResourceTypeVolume | ResourceTypeContainer | ResourceTypeImage
  | ResourceTypeOther string

fun type_string :: "ResourceType \<Rightarrow> string" where
  "type_string ResourceTypeNetwork = ''network''"
| "type_string ResourceTypeVolume = ''volume''"
| "type_string ResourceTypeContainer = ''container''"
| "type_string ResourceTypeImage = ''image''"
| "type_string (ResourceTypeOther s) = s"

record ResourceID =
  rid_DeploymentID :: string
  rid_Type :: ResourceType
  rid_Name :: string

definition rid_String :: "ResourceID \<Rightarrow> string" where
  "rid_String r = rid_DeploymentID r @ '':'' @ type_string (rid_Type r) @ '':'' @ rid_Name r"

datatype config =
    NetworkConfig (nc_Driver: string) (cfg_Labels: "strmap option")
  | VolumeConfig (cfg_Labels: "strmap option")
  | ContainerConfig (cc_Image: string) (cc_Environment: "strmap option") (cc_Volumes: "string slice")
      (cc_Networks: "string slice") (cc_Ports: "string slice") (cfg_Labels: "strmap option")

record ResourceNode =
  rn_ID :: ResourceID
  rn_Type :: ResourceType
  rn_Name :: string
  rn_Config :: config
  rn_Dependencies :: "ResourceID list"
  rn_Labels :: strmap

record CompiledGraph =
  cg_DeploymentID :: string
  cg_Version :: int
  cg_Slug :: string
  cg_Nodes :: "(ResourceID, ResourceNode) gomap"
  cg_Edges :: "(ResourceID, ResourceID list) gomap"
  cg_CreationOrder :: "ResourceID list"
  cg_DeletionOrder :: "ResourceID list"

subsection \<open>compiler.go\<close>

text \<open>\<open>indexOf(s, ":")\<close> and the name in front of the colon.\<close>

fun index_from :: "string \<Rightarrow> char \<Rightarrow> int \<Rightarrow> int" where
  "index_from [] c i = - 1"
| "index_from (x # xs) c i = (if x = c then i else index_from xs c (i + 1))"

definition indexOf :: "string \<Rightarrow> char \<Rightarrow> int" where
  "indexOf s c = index_from s c 0"

definition mount_volume :: "string \<Rightarrow> string" where
  "mount_volume volMount =
     (let colonIdx = indexOf volMount (CHR '':'') in if colonIdx \<ge> 0 then take (nat colonIdx) volMount else volMount)"

definition prefixed :: "AppDeployment \<Rightarrow> string \<Rightarrow> string" where
  "prefixed d name = ad_Slug d @ ''_'' @ name"

definition res_id :: "AppDeployment \<Rightarrow> ResourceType \<Rightarrow> string \<Rightarrow> ResourceID" where
  "res_id d t name = \<lparr>rid_DeploymentID = ad_ID d, rid_Type = t, rid_Name = prefixed d name\<rparr>"

definition deployment_labels :: "AppDeployment \<Rightarrow> ResourceType \<Rightarrow> strmap" where
  "deployment_labels d t =
     [(''underleaf.deployment'', ad_ID d), (''underleaf.slug'', ad_Slug d), (''underleaf.type'', type_string t)]"

definition network_node :: "AppDeployment \<Rightarrow> NetworkSpec \<Rightarrow> ResourceNode" where
  "network_node d spec =
     \<lparr>rn_ID = res_id d ResourceTypeNetwork (net_Name spec), rn_Type = ResourceTypeNetwork,
      rn_Name = prefixed d (net_Name spec),
      rn_Config = NetworkConfig (if net_Driver spec = [] then ''bridge'' else net_Driver spec)
                    (Some (deployment_labels d ResourceTypeNetwork)),
      rn_Dependencies = [], rn_Labels = deployment_labels d ResourceTypeNetwork\<rparr>"

definition volume_node :: "AppDeployment \<Rightarrow> VolumeSpec \<Rightarrow> ResourceNode" where
  "volume_node d spec =
     \<lparr>rn_ID = res_id d ResourceTypeVolume (vol_Name spec), rn_Type = ResourceTypeVolume,
      rn_Name = prefixed d (vol_Name spec),
      rn_Config = VolumeConfig (Some (deployment_labels d ResourceTypeVolume)),
      rn_Dependencies = [], rn_Labels = deployment_labels d ResourceTypeVolume\<rparr>"

definition service_deps :: "AppDeployment \<Rightarrow> ServiceSpec \<Rightarrow> ResourceID list" where
  "service_deps d spec =
     map (res_id d ResourceTypeNetwork) (elems (svc_Networks spec))
     @ map (\<lambda>volMount. res_id d ResourceTypeVolume (mount_volume volMount)) (elems (svc_Volumes spec))"

text \<open>\<open>append\<close> to a nil slice stays nil when nothing is appended.\<close>

definition prefixed_networks :: "AppDeployment \<Rightarrow> ServiceSpec \<Rightarrow> string slice" where
  "prefixed_networks d spec =
     (case elems (svc_Networks spec) of [] \<Rightarrow> None | ns \<Rightarrow> Some (map (prefixed d) ns))"

definition service_node :: "AppDeployment \<Rightarrow> ServiceSpec \<Rightarrow> ResourceNode" where
  "service_node d spec =
     \<lparr>rn_ID = res_id d ResourceTypeContainer (svc_Name spec), rn_Type = ResourceTypeContainer,
      rn_Name = prefixed d (svc_Name spec),
      rn_Config = ContainerConfig (svc_Image spec) (svc_Environment spec) (svc_Volumes spec)
                    (prefixed_networks d spec) (svc_Ports spec)
                    (Some (deployment_labels d ResourceTypeContainer)),
      rn_Dependencies = service_deps d spec, rn_Labels = deployment_labels d ResourceTypeContainer\<rparr>"

definition add_node :: "ResourceNode \<Rightarrow> (ResourceID, ResourceNode) gomap \<Rightarrow> (ResourceID, ResourceNode) gomap" where
  "add_node node nodes = AList.update (rn_ID node) node nodes"

definition compile_nodes :: "AppDeployment \<Rightarrow> (ResourceID, ResourceNode) gomap" where
  "compile_nodes d =
     fold (\<lambda>spec. add_node (service_node d spec)) (ad_Services d)
      (fold (\<lambda>spec. add_node (volume_node d spec)) (ad_Volumes d)
        (fold (\<lambda>spec. add_node (network_node d spec)) (ad_Networks d) []))"

datatype compile_err = InvalidGraph graph_err | NoCreationOrder graph_err

definition zero_id :: ResourceID where
  "zero_id = \<lparr>rid_DeploymentID = [], rid_Type = ResourceTypeOther [], rid_Name = []\<rparr>"

definition Compile :: "ResourceID range \<Rightarrow> AppDeployment \<Rightarrow> (compile_err, CompiledGraph) result option" where
  "Compile rng d =
     (let nodes = compile_nodes d in
      case ValidateGraph rng rid_String rn_Dependencies nodes of
        Some e \<Rightarrow> Some (Inl (InvalidGraph e))
      | None \<Rightarrow>
          (let edges = BuildDependencyEdges rn_Dependencies nodes in
           case TopologicalSort (\<lambda>n. rng (Suc n)) nodes edges of
             None \<Rightarrow> None
           | Some (Inl e) \<Rightarrow> Some (Inl (NoCreationOrder e))
           | Some (Inr creationOrder) \<Rightarrow>
               Some (Inr \<lparr>cg_DeploymentID = ad_ID d, cg_Version = ad_Version d, cg_Slug = ad_Slug d,
                          cg_Nodes = nodes, cg_Edges = edges, cg_CreationOrder = creationOrder,
                          cg_DeletionOrder = ReverseOrder zero_id creationOrder\<rparr>)))"

text \<open>What a service refers to is declared in the deployment.\<close>

definition refs_declared :: "AppDeployment \<Rightarrow> ServiceSpec \<Rightarrow> bool" where
  "refs_declared d spec \<longleftrightarrow>
     set (elems (svc_Networks spec)) \<subseteq> net_Name ` set (ad_Networks d)
     \<and> mount_volume ` set (elems (svc_Volumes spec)) \<subseteq> vol_Name ` set (ad_Volumes d)"

text \<open>A concrete deployment, for the witnesses.\<close>

definition demo_service :: ServiceSpec where
  "demo_service = \<lparr>svc_Name = ''web'', svc_Image = ''nginx'', svc_Build = None, svc_Environment = Some [(''A'', ''1'')],
     svc_Volumes = Some [''data:/var/lib''], svc_Networks = Some [''lan''], svc_Ports = Some [''80:80''], svc_Expose = None\<rparr>"

definition demo_deployment :: AppDeployment where
  "demo_deployment = \<lparr>ad_ID = ''d1'', ad_OrgID = ''o1'', ad_Name = ''shop'', ad_Slug = ''shop'', ad_Version = 1,
     ad_Networks = [\<lparr>net_Name = ''lan'', net_Driver = []\<rparr>], ad_Volumes = [\<lparr>vol_Name = ''data'', vol_Path = []\<rparr>],
     ad_Services = [demo_service]\<rparr>"

subsection \<open>Lemmas: the nodes\<close>

text \<open>Adding nodes: the map then holds, under an identifier, the last node added with it.\<close>

lemma fold_add_node:
  assumes "distinct (map fst m)"
  shows "distinct (map fst (fold (\<lambda>x. add_node (f x)) xs m))"
    and "map_of (fold (\<lambda>x. add_node (f x)) xs m) i
           = (case find (\<lambda>x. rn_ID (f x) = i) (rev xs) of Some x \<Rightarrow> Some (f x) | None \<Rightarrow> map_of m i)"
  using assms
proof (induction xs arbitrary: m)
  case (Cons x xs)
  have find_app: "find P (ys @ [y]) = (case find P ys of None \<Rightarrow> if P y then Some y else None | r \<Rightarrow> r)" for P and y :: 'a and ys
    by (induction ys) auto
  case 1
  then show ?case using Cons.IH(1) [of "add_node (f x) m"] by (simp add: add_node_def)
  case 2
  then show ?case using Cons.IH(2) [of "add_node (f x) m"]
    by (auto simp: add_node_def find_app split: option.split)
qed simp_all

lemma find_SomeD: "find P xs = Some x \<Longrightarrow> x \<in> set xs \<and> P x"
  by (auto simp: find_Some_iff)

lemma node_ids [simp]:
  "rn_ID (network_node d a) = res_id d ResourceTypeNetwork (net_Name a)"
  "rn_ID (volume_node d b) = res_id d ResourceTypeVolume (vol_Name b)"
  "rn_ID (service_node d c) = res_id d ResourceTypeContainer (svc_Name c)"
  "rn_Dependencies (network_node d a) = []" "rn_Dependencies (volume_node d b) = []"
  "rn_Dependencies (service_node d c) = service_deps d c"
  by (simp_all add: network_node_def volume_node_def service_node_def)

lemma res_id_inject [simp]: "res_id d t a = res_id d u b \<longleftrightarrow> t = u \<and> a = b"
  by (auto simp: res_id_def prefixed_def)

lemma compile_nodes_distinct: "distinct (map fst (compile_nodes d))"
  unfolding compile_nodes_def by (intro fold_add_node(1)) simp

lemma compile_nodes_map:
  "map_of (compile_nodes d) i =
     (case find (\<lambda>x. rn_ID (service_node d x) = i) (rev (ad_Services d)) of Some x \<Rightarrow> Some (service_node d x)
      | None \<Rightarrow> (case find (\<lambda>x. rn_ID (volume_node d x) = i) (rev (ad_Volumes d)) of Some x \<Rightarrow> Some (volume_node d x)
      | None \<Rightarrow> (case find (\<lambda>x. rn_ID (network_node d x) = i) (rev (ad_Networks d)) of Some x \<Rightarrow> Some (network_node d x)
      | None \<Rightarrow> None)))"
  unfolding compile_nodes_def
  by (simp only: fold_add_node(2) [OF fold_add_node(1) [OF fold_add_node(1)]] fold_add_node(2) [OF fold_add_node(1)]
      fold_add_node(2) list.map distinct.simps map_of.simps simp_thms)

lemma compile_nodes_cases:
  assumes "map_of (compile_nodes d) i = Some n"
  obtains (network) a where "a \<in> set (ad_Networks d)" "i = res_id d ResourceTypeNetwork (net_Name a)" "n = network_node d a"
  | (volume) b where "b \<in> set (ad_Volumes d)" "i = res_id d ResourceTypeVolume (vol_Name b)" "n = volume_node d b"
  | (service) c where "c \<in> set (ad_Services d)" "i = res_id d ResourceTypeContainer (svc_Name c)" "n = service_node d c"
  using assms
  by (auto simp: compile_nodes_map split: option.splits dest!: find_SomeD)

lemma compile_nodes_None:
  "map_of (compile_nodes d) i = None \<longleftrightarrow>
     (\<forall>a\<in>set (ad_Networks d). res_id d ResourceTypeNetwork (net_Name a) \<noteq> i)
     \<and> (\<forall>b\<in>set (ad_Volumes d). res_id d ResourceTypeVolume (vol_Name b) \<noteq> i)
     \<and> (\<forall>c\<in>set (ad_Services d). res_id d ResourceTypeContainer (svc_Name c) \<noteq> i)"
  by (auto simp: compile_nodes_map find_None_iff split: option.splits dest!: find_SomeD)

lemma compile_nodes_service:
  assumes "distinct (map svc_Name (ad_Services d))" and "c \<in> set (ad_Services d)"
  shows "map_of (compile_nodes d) (res_id d ResourceTypeContainer (svc_Name c)) = Some (service_node d c)"
proof (cases "map_of (compile_nodes d) (res_id d ResourceTypeContainer (svc_Name c))")
  case None
  with assms(2) show ?thesis by (auto simp: compile_nodes_None)
next
  case (Some n)
  from Some obtain x where x: "x \<in> set (ad_Services d)" "svc_Name c = svc_Name x" "n = service_node d x"
    by (cases rule: compile_nodes_cases) simp_all
  have "x = c" using assms x(1,2) by (metis distinct_map inj_onD)
  with Some x(3) show ?thesis by simp
qed

text \<open>Only services have dependencies, and only on networks and volumes.\<close>

lemma compile_nodes_network:
  "map_of (compile_nodes d) (res_id d ResourceTypeNetwork x) = None \<longleftrightarrow> x \<notin> net_Name ` set (ad_Networks d)"
  by (auto simp: compile_nodes_None)

lemma compile_nodes_volume:
  "map_of (compile_nodes d) (res_id d ResourceTypeVolume x) = None \<longleftrightarrow> x \<notin> vol_Name ` set (ad_Volumes d)"
  by (auto simp: compile_nodes_None)

lemma service_deps_declared:
  "(\<forall>i\<in>set (service_deps d c). map_of (compile_nodes d) i \<noteq> None) \<longleftrightarrow> refs_declared d c"
  by (simp add: refs_declared_def service_deps_def ball_Un compile_nodes_network compile_nodes_volume
      subset_eq del: not_None_eq image_iff)

lemma compile_edges:
  "edge_list (BuildDependencyEdges rn_Dependencies (compile_nodes d)) i
     = (case map_of (compile_nodes d) i of None \<Rightarrow> [] | Some n \<Rightarrow> rn_Dependencies n)"
  by (rule BuildDependencyEdges_keys(2) [OF compile_nodes_distinct])

lemma valid_order_exists:
  assumes "\<forall>i n. map_of (compile_nodes d) i = Some n \<longrightarrow> (\<forall>j\<in>set (rn_Dependencies n). map_of (compile_nodes d) j \<noteq> None)"
  shows "\<exists>order. valid_order (set (map fst (compile_nodes d)))
           (edge_list (BuildDependencyEdges rn_Dependencies (compile_nodes d))) order"
proof -
  let ?keys = "map fst (compile_nodes d)" and ?E = "edge_list (BuildDependencyEdges rn_Dependencies (compile_nodes d))"
  let ?leaf = "\<lambda>i. rid_Type i \<noteq> ResourceTypeContainer"
  let ?order = "filter ?leaf ?keys @ filter (\<lambda>i. \<not> ?leaf i) ?keys"
  have E: "set (?E i) \<subseteq> {j \<in> set ?keys. ?leaf j} \<and> (?leaf i \<longrightarrow> ?E i = [])" for i
  proof (cases "map_of (compile_nodes d) i")
    case (Some n)
    have "j \<in> set ?keys" if "j \<in> set (rn_Dependencies n)" for j
      using assms Some that by (metis map_of_eq_None_iff set_map)
    with Some show ?thesis
      by (cases rule: compile_nodes_cases [OF Some]) (auto simp: compile_edges service_deps_def res_id_def)
  qed (simp add: compile_edges)
  have "set (?E (?order ! k)) \<subseteq> set (take k ?order)" if "k < length ?order" for k
  proof (cases "k < length (filter ?leaf ?keys)")
    case True
    then have "?leaf (?order ! k)" using nth_mem [OF True] by (simp add: nth_append)
    with E show ?thesis by simp
  next
    case False
    then have "{j \<in> set ?keys. ?leaf j} \<subseteq> set (take k ?order)" by auto
    with E [of "?order ! k"] show ?thesis by (meson subset_trans)
  qed
  then have "valid_order (set ?keys) ?E ?order"
    using compile_nodes_distinct [of d] unfolding valid_order_def by auto
  then show ?thesis by blast
qed

lemma range_shift: "range_order rng \<Longrightarrow> range_order (\<lambda>n. rng (Suc n))"
  by (simp add: range_order_def)

lemma Compile_cases:
  assumes "range_order rng"
  shows "(\<exists>e. Compile rng d = Some (Inl (InvalidGraph e))
            \<and> ValidateGraph rng rid_String rn_Dependencies (compile_nodes d) = Some e)
       \<or> (\<exists>g. Compile rng d = Some (Inr g)
            \<and> ValidateGraph rng rid_String rn_Dependencies (compile_nodes d) = None
            \<and> cg_Nodes g = compile_nodes d \<and> cg_DeploymentID g = ad_ID d
            \<and> valid_order (set (map fst (compile_nodes d)))
                (edge_list (BuildDependencyEdges rn_Dependencies (compile_nodes d))) (cg_CreationOrder g)
            \<and> cg_DeletionOrder g = rev (cg_CreationOrder g))"
proof (cases "ValidateGraph rng rid_String rn_Dependencies (compile_nodes d)")
  case None
  have keys: "map fst (BuildDependencyEdges rn_Dependencies (compile_nodes d)) = map fst (compile_nodes d)"
    by (rule BuildDependencyEdges_keys(1) [OF compile_nodes_distinct])
  have "\<exists>order. valid_order (set (map fst (compile_nodes d)))
      (edge_list (BuildDependencyEdges rn_Dependencies (compile_nodes d))) order"
    by (rule valid_order_exists [OF ValidateGraph_ok [THEN iffD1, OF assms None]])
  moreover note TopologicalSort_cases [OF range_shift [OF assms] compile_nodes_distinct, of
        "BuildDependencyEdges rn_Dependencies (compile_nodes d)" d, unfolded keys, OF compile_nodes_distinct refl]
  ultimately obtain s where "TopologicalSort (\<lambda>n. rng (Suc n)) (compile_nodes d) (BuildDependencyEdges rn_Dependencies (compile_nodes d))
        = Some (Inr s)"
      "valid_order (set (map fst (compile_nodes d))) (edge_list (BuildDependencyEdges rn_Dependencies (compile_nodes d))) s"
    by blast
  with None show ?thesis by (simp add: Compile_def Let_def ReverseOrder_rev)
qed (simp add: Compile_def)

subsection \<open>Properties\<close>

text \<open>
  C24: compilation always returns, and never fails for a cycle. It succeeds exactly when
  every network a service joins and every volume it mounts is declared in the deployment,
  the services having distinct names, whatever order Go visits its maps in.
\<close>

theorem compile_succeeds_iff:
  assumes "range_order rng" and "distinct (map svc_Name (ad_Services d))"
  shows "(\<exists>g. Compile rng d = Some (Inr g)) = (\<forall>c\<in>set (ad_Services d). refs_declared d c)
       \<and> (\<exists>r. Compile rng d = Some r \<and> (\<forall>e. r \<noteq> Inl (NoCreationOrder e)))"
proof -
  have deps: "(\<forall>i n. map_of (compile_nodes d) i = Some n \<longrightarrow> (\<forall>j\<in>set (rn_Dependencies n). map_of (compile_nodes d) j \<noteq> None))
      \<longleftrightarrow> (\<forall>c\<in>set (ad_Services d). refs_declared d c)"
  proof
    assume all: "\<forall>i n. map_of (compile_nodes d) i = Some n \<longrightarrow> (\<forall>j\<in>set (rn_Dependencies n). map_of (compile_nodes d) j \<noteq> None)"
    show "\<forall>c\<in>set (ad_Services d). refs_declared d c"
      using all compile_nodes_service [OF assms(2)] service_deps_declared by (metis node_ids(6))
  next
    assume "\<forall>c\<in>set (ad_Services d). refs_declared d c"
    then show "\<forall>i n. map_of (compile_nodes d) i = Some n \<longrightarrow> (\<forall>j\<in>set (rn_Dependencies n). map_of (compile_nodes d) j \<noteq> None)"
      using service_deps_declared by (auto elim!: compile_nodes_cases) (metis not_None_eq)
  qed
  show ?thesis
    using Compile_cases [OF assms(1), of d] ValidateGraph_ok [OF assms(1), of rid_String rn_Dependencies "compile_nodes d"]
    unfolding deps by auto
qed

theorem compile_succeeds_iff_witness:
  "(\<exists>g. Compile (\<lambda>n. rev) demo_deployment = Some (Inr g))
   \<and> \<not> (\<exists>g. Compile (\<lambda>n. rev) (demo_deployment\<lparr>ad_Networks := []\<rparr>) = Some (Inr g))"
  using compile_succeeds_iff [of "\<lambda>n. rev" demo_deployment]
    compile_succeeds_iff [of "\<lambda>n. rev" "demo_deployment\<lparr>ad_Networks := []\<rparr>"]
  by (simp add: range_order_def demo_deployment_def refs_declared_def demo_service_def elems_def
      mount_volume_def indexOf_def Let_def)

text \<open>
  The creation order of a compiled deployment lists each of its networks, volumes and
  containers once, every container after the networks it joins and the volumes it mounts;
  the deletion order is its reverse.
\<close>

theorem compile_orders:
  assumes "range_order rng" and "Compile rng d = Some (Inr g)"
  shows "valid_order (set (map fst (cg_Nodes g)))
           (\<lambda>i. case map_of (cg_Nodes g) i of None \<Rightarrow> [] | Some n \<Rightarrow> rn_Dependencies n) (cg_CreationOrder g)
       \<and> cg_DeletionOrder g = rev (cg_CreationOrder g)
       \<and> set (cg_CreationOrder g) = (res_id d ResourceTypeNetwork \<circ> net_Name) ` set (ad_Networks d)
           \<union> (res_id d ResourceTypeVolume \<circ> vol_Name) ` set (ad_Volumes d)
           \<union> (res_id d ResourceTypeContainer \<circ> svc_Name) ` set (ad_Services d)"
proof -
  have g: "cg_Nodes g = compile_nodes d" "cg_DeletionOrder g = rev (cg_CreationOrder g)"
      "valid_order (set (map fst (compile_nodes d)))
        (edge_list (BuildDependencyEdges rn_Dependencies (compile_nodes d))) (cg_CreationOrder g)"
    using Compile_cases [OF assms(1), of d] assms(2) by auto
  have E: "edge_list (BuildDependencyEdges rn_Dependencies (compile_nodes d))
      = (\<lambda>i. case map_of (compile_nodes d) i of None \<Rightarrow> [] | Some n \<Rightarrow> rn_Dependencies n)"
    by (rule ext) (rule compile_edges)
  have "i \<in> set (map fst (compile_nodes d)) \<longleftrightarrow> map_of (compile_nodes d) i \<noteq> None" for i
    by (simp add: map_of_eq_None_iff)
  then have "i \<in> set (map fst (compile_nodes d)) \<longleftrightarrow>
      i \<in> (res_id d ResourceTypeNetwork \<circ> net_Name) ` set (ad_Networks d)
           \<union> (res_id d ResourceTypeVolume \<circ> vol_Name) ` set (ad_Volumes d)
           \<union> (res_id d ResourceTypeContainer \<circ> svc_Name) ` set (ad_Services d)" for i
    by (simp only: compile_nodes_None Un_iff image_iff comp_apply) blast
  then have "set (map fst (compile_nodes d)) = (res_id d ResourceTypeNetwork \<circ> net_Name) ` set (ad_Networks d)
           \<union> (res_id d ResourceTypeVolume \<circ> vol_Name) ` set (ad_Volumes d)
           \<union> (res_id d ResourceTypeContainer \<circ> svc_Name) ` set (ad_Services d)"
    by (rule set_eqI)
  with g E show ?thesis by (simp add: valid_order_def)
qed

theorem compile_orders_witness:
  "\<exists>g. Compile (\<lambda>n. rev) demo_deployment = Some (Inr g)
     \<and> valid_order (set (map fst (cg_Nodes g)))
         (\<lambda>i. case map_of (cg_Nodes g) i of None \<Rightarrow> [] | Some n \<Rightarrow> rn_Dependencies n) (cg_CreationOrder g)"
proof -
  have r: "range_order (\<lambda>n. rev)" by (simp add: range_order_def)
  have "\<not> isl (the (Compile (\<lambda>n. rev) demo_deployment)) \<and> Compile (\<lambda>n. rev) demo_deployment \<noteq> None" by code_simp
  then obtain g where g: "Compile (\<lambda>n. rev) demo_deployment = Some (Inr g)" by (cases "the (Compile (\<lambda>n. rev) demo_deployment)") auto
  with compile_orders [OF r g] show ?thesis by blast
qed

end
