(* ===== verification/Reconcile_Plan.thy ===== *)
theory Reconcile_Plan
  imports Deploy_Compiler
begin

text \<open>
  Reconciliation and planning: \<open>internal/compiler/reconciler.go\<close> and
  \<open>internal/compiler/planner.go\<close>, and what \<open>internal/compiler/state/observed.go\<close> makes of
  a Docker network, volume or container. The Docker client and the identifiers drawn by the
  planner are parameters. \<open>rng\<close> and \<open>rngs\<close> are the orders in which Go visits the maps keyed
  by resource identifier and by name. Comparing two configurations through JSON is comparing
  the objects they marshal to: a nil slice or map gives \<open>null\<close>.
\<close>

subsection \<open>Data\<close>

datatype OperationType = OpCreate | OpUpdate | OpDelete | OpNoOp | OpAdopt

record Operation =
  op_ID :: string
  op_ResourceID :: ResourceID
  op_ResourceType :: ResourceType
  op_ResourceName :: string
  op_Type :: OperationType
  op_Description :: string
  op_DesiredConfig :: "config option"
  op_ObservedConfig :: "config option"
  op_DependsOn :: "string list"

record ObservedResource =
  obs_Type :: ResourceType
  obs_ID :: string
  obs_Name :: string
  obs_Labels :: "strmap option"
  obs_State :: string
  obs_Config :: config
  obs_ManagedBy :: string

record ObservedState =
  os_Networks :: "(string, ObservedResource) gomap"
  os_Volumes :: "(string, ObservedResource) gomap"
  os_Containers :: "(string, ObservedResource) gomap"
  os_Images :: "(string, ObservedResource) gomap"

definition os_Get :: "ObservedState \<Rightarrow> ResourceID \<Rightarrow> ObservedResource option" where
  "os_Get s resID =
     (case rid_Type resID of
        ResourceTypeNetwork \<Rightarrow> map_of (os_Networks s) (rid_Name resID)
      | ResourceTypeVolume \<Rightarrow> map_of (os_Volumes s) (rid_Name resID)
      | ResourceTypeContainer \<Rightarrow> map_of (os_Containers s) (rid_Name resID)
      | ResourceTypeImage \<Rightarrow> map_of (os_Images s) (rid_Name resID)
      | ResourceTypeOther _ \<Rightarrow> None)"

text \<open>The recorded configuration of a resource may be a nil interface.\<close>

record LastAppliedSnapshot =
  la_DeploymentID :: string
  la_Version :: int
  la_Resources :: "(string, config option) gomap"
  la_AppliedAt :: int

record ReconcileOptions =
  ro_PruneUnknown :: bool
  ro_AdoptOrphan :: bool

record PlanOptions =
  po_DryRun :: bool
  po_DeploymentID :: string
  po_Slug :: string
  po_FromVersion :: int
  po_ToVersion :: int

record ExecutionPlan =
  plan_ID :: string
  plan_DeploymentID :: string
  plan_DeploymentSlug :: string
  plan_FromVersion :: int
  plan_ToVersion :: int
  plan_Operations :: "Operation list"
  plan_EstimatedSeconds :: int
  plan_DryRun :: bool
  plan_CreatedAt :: int

subsection \<open>observed.go\<close>

definition label :: "strmap option \<Rightarrow> string \<Rightarrow> string" where
  "label labels k = (case labels of None \<Rightarrow> [] | Some m \<Rightarrow> (case map_of m k of None \<Rightarrow> [] | Some v \<Rightarrow> v))"

definition belongsToDeployment :: "string \<Rightarrow> strmap option \<Rightarrow> string \<Rightarrow> string \<Rightarrow> bool" where
  "belongsToDeployment name labels deploymentID slug \<longleftrightarrow>
     (labels \<noteq> None \<and> label labels ''underleaf.deployment'' = deploymentID) \<or> HasPrefix name (slug @ ''_'')"

text \<open>What the Docker client reports.\<close>

record docker_network =
  dn_ID :: string
  dn_Name :: string
  dn_Driver :: string
  dn_Labels :: "strmap option"

record docker_volume =
  dv_Name :: string
  dv_Labels :: "strmap option"

record docker_container =
  dc_ID :: string
  dc_Names :: "string list"
  dc_Image :: string
  dc_State :: string
  dc_Networks :: "string list"
  dc_Labels :: "strmap option"

definition observe_network :: "docker_network \<Rightarrow> ObservedResource" where
  "observe_network n = \<lparr>obs_Type = ResourceTypeNetwork, obs_ID = dn_ID n, obs_Name = dn_Name n, obs_Labels = dn_Labels n,
     obs_State = [], obs_Config = NetworkConfig (dn_Driver n) (dn_Labels n),
     obs_ManagedBy = label (dn_Labels n) ''underleaf.deployment''\<rparr>"

definition observe_volume :: "docker_volume \<Rightarrow> ObservedResource" where
  "observe_volume v = \<lparr>obs_Type = ResourceTypeVolume, obs_ID = dv_Name v, obs_Name = dv_Name v, obs_Labels = dv_Labels v,
     obs_State = [], obs_Config = VolumeConfig (dv_Labels v),
     obs_ManagedBy = label (dv_Labels v) ''underleaf.deployment''\<rparr>"

text \<open>\<open>cont.Names[0]\<close> without a leading slash; \<open>None\<close> is the panic of the index.\<close>

definition container_name :: "docker_container \<Rightarrow> string option" where
  "container_name c =
     (case dc_Names c of [] \<Rightarrow> None | n # _ \<Rightarrow> Some (if HasPrefix n ''/'' then drop 1 n else n))"

definition observe_container :: "string \<Rightarrow> docker_container \<Rightarrow> ObservedResource" where
  "observe_container name c = \<lparr>obs_Type = ResourceTypeContainer, obs_ID = dc_ID c, obs_Name = name, obs_Labels = dc_Labels c,
     obs_State = dc_State c,
     obs_Config = ContainerConfig (dc_Image c) (Some []) None (Some (dc_Networks c)) None (dc_Labels c),
     obs_ManagedBy = label (dc_Labels c) ''underleaf.deployment''\<rparr>"

fun observe_containers ::
  "(string \<Rightarrow> strmap option \<Rightarrow> bool) \<Rightarrow> docker_container list \<Rightarrow> (string, ObservedResource) gomap
     \<Rightarrow> (string, ObservedResource) gomap option" where
  "observe_containers ours [] m = Some m"
| "observe_containers ours (c # cs) m =
     (case container_name c of
        None \<Rightarrow> None
      | Some name \<Rightarrow> observe_containers ours cs
          (if ours name (dc_Labels c) then AList.update name (observe_container name c) m else m))"

text \<open>The three lists of the client may each fail; a panic is \<open>None\<close>.\<close>

definition GetDeploymentResources ::
  "(string, docker_network list) result \<Rightarrow> (string, docker_volume list) result \<Rightarrow> (string, docker_container list) result
     \<Rightarrow> string \<Rightarrow> string \<Rightarrow> (string, ObservedState) result option" where
  "GetDeploymentResources nets vols conts deploymentID slug =
     (let ours = (\<lambda>name labels. belongsToDeployment name labels deploymentID slug) in
      case nets of
        Inl e \<Rightarrow> Some (Inl (''failed to list networks: '' @ e))
      | Inr ns \<Rightarrow>
          (let networks = fold (\<lambda>n m. if ours (dn_Name n) (dn_Labels n)
                                      then AList.update (dn_Name n) (observe_network n) m else m) ns []
           in case vols of
                Inl e \<Rightarrow> Some (Inl (''failed to list volumes: '' @ e))
              | Inr vs \<Rightarrow>
                  (let volumes = fold (\<lambda>v m. if ours (dv_Name v) (dv_Labels v)
                                             then AList.update (dv_Name v) (observe_volume v) m else m) vs []
                   in case conts of
                        Inl e \<Rightarrow> Some (Inl (''failed to list containers: '' @ e))
                      | Inr cs \<Rightarrow>
                          map_option (\<lambda>containers. Inr \<lparr>os_Networks = networks, os_Volumes = volumes,
                                                       os_Containers = containers, os_Images = []\<rparr>)
                            (observe_containers ours cs []))))"

subsection \<open>reconciler.go\<close>

datatype jval = JNull | JStr string | JArr "string list" | JObj strmap

definition jslice :: "string slice \<Rightarrow> jval" where
  "jslice s = (case s of None \<Rightarrow> JNull | Some xs \<Rightarrow> JArr xs)"

definition jmap :: "strmap option \<Rightarrow> jval" where
  "jmap m = (case m of None \<Rightarrow> JNull | Some xs \<Rightarrow> JObj xs)"

fun config_json :: "config \<Rightarrow> (string, jval) gomap" where
  "config_json (NetworkConfig dr ls) = [(''driver'', JStr dr), (''labels'', jmap ls)]"
| "config_json (VolumeConfig ls) = [(''labels'', jmap ls)]"
| "config_json (ContainerConfig im env vs ns ps ls) =
     [(''image'', JStr im), (''environment'', jmap env), (''volumes'', jslice vs), (''networks'', jslice ns),
      (''ports'', jslice ps), (''labels'', jmap ls)]"

definition map_equal :: "('v \<Rightarrow> 'w \<Rightarrow> bool) \<Rightarrow> (string, 'v) gomap \<Rightarrow> (string, 'w) gomap \<Rightarrow> bool" where
  "map_equal eq a b \<longleftrightarrow>
     list_all (\<lambda>(k, v). case map_of b k of None \<Rightarrow> False | Some w \<Rightarrow> eq v w) a
     \<and> list_all (\<lambda>(k, w). map_of a k \<noteq> None) b"

fun jval_equal :: "jval \<Rightarrow> jval \<Rightarrow> bool" where
  "jval_equal JNull JNull = True"
| "jval_equal (JStr a) (JStr b) = (a = b)"
| "jval_equal (JArr a) (JArr b) = (a = b)"
| "jval_equal (JObj a) (JObj b) = map_equal (=) a b"
| "jval_equal _ _ = False"

definition configMatches :: "config \<Rightarrow> config \<Rightarrow> bool" where
  "configMatches desired observed = map_equal jval_equal (config_json desired) (config_json observed)"

definition last_config :: "LastAppliedSnapshot option \<Rightarrow> ResourceID \<Rightarrow> config option" where
  "last_config lastApplied resID =
     (case lastApplied of None \<Rightarrow> None
      | Some s \<Rightarrow> (case map_of (la_Resources s) (rid_String resID) of None \<Rightarrow> None | Some c \<Rightarrow> c))"

definition mk_op :: "ResourceID \<Rightarrow> OperationType \<Rightarrow> string \<Rightarrow> config option \<Rightarrow> config option \<Rightarrow> Operation" where
  "mk_op resID t desc des obs =
     \<lparr>op_ID = [], op_ResourceID = resID, op_ResourceType = rid_Type resID, op_ResourceName = rid_Name resID,
      op_Type = t, op_Description = desc, op_DesiredConfig = des, op_ObservedConfig = obs, op_DependsOn = []\<rparr>"

definition describe :: "string \<Rightarrow> ResourceID \<Rightarrow> string \<Rightarrow> string" where
  "describe before resID after = before @ type_string (rid_Type resID) @ '' '' @ rid_Name resID @ after"

definition reconcileResource ::
  "ResourceID \<Rightarrow> ResourceNode \<Rightarrow> ObservedState \<Rightarrow> LastAppliedSnapshot option \<Rightarrow> Operation option" where
  "reconcileResource resID desired observed lastApplied =
     (let des = Some (rn_Config desired) in
      case (os_Get observed resID, last_config lastApplied resID) of
        (None, None) \<Rightarrow> Some (mk_op resID OpCreate (describe ''Create '' resID []) des None)
      | (None, Some _) \<Rightarrow> Some (mk_op resID OpCreate (describe ''Recreate '' resID '' (was deleted)'') des None)
      | (Some obs, None) \<Rightarrow>
          (if obs_ManagedBy obs = [] \<or> obs_ManagedBy obs \<noteq> rid_DeploymentID resID
           then Some (mk_op resID OpAdopt (describe ''Adopt existing unmanaged '' resID []) des (Some (obs_Config obs)))
           else Some (mk_op resID OpUpdate (describe ''Update orphaned '' resID []) des (Some (obs_Config obs))))
      | (Some obs, Some _) \<Rightarrow>
          (if \<not> configMatches (rn_Config desired) (obs_Config obs)
           then Some (mk_op resID OpUpdate (describe ''Update '' resID '' (config drift detected)'') des (Some (obs_Config obs)))
           else Some (mk_op resID OpNoOp (describe ''No change for '' resID []) des (Some (obs_Config obs)))))"

text \<open>The body of the three loops of \<open>addPruneOperations\<close>, over the resources of one type.\<close>

definition prune_one ::
  "LastAppliedSnapshot option \<Rightarrow> ResourceID list \<Rightarrow> ReconcileOptions \<Rightarrow> ResourceID \<Rightarrow> ObservedResource \<Rightarrow> Operation list" where
  "prune_one lastApplied seen options resID obs =
     (if resID \<in> set seen then []
      else if last_config lastApplied resID \<noteq> None
      then [mk_op resID OpDelete (describe ''Delete unwanted '' resID []) None (Some (obs_Config obs))]
      else if ro_PruneUnknown options \<and> obs_ManagedBy obs = rid_DeploymentID resID
      then [mk_op resID OpDelete (describe ''Prune unknown '' resID []) None (Some (obs_Config obs))]
      else [])"

definition prune_group ::
  "LastAppliedSnapshot option \<Rightarrow> ResourceID list \<Rightarrow> string \<Rightarrow> ReconcileOptions \<Rightarrow> ResourceType
     \<Rightarrow> (string, ObservedResource) gomap \<Rightarrow> string list \<Rightarrow> Operation list" where
  "prune_group lastApplied seen deploymentID options t m names =
     concat (map (\<lambda>name. case map_of m name of
         None \<Rightarrow> []
       | Some obs \<Rightarrow> prune_one lastApplied seen options
                       \<lparr>rid_DeploymentID = deploymentID, rid_Type = t, rid_Name = name\<rparr> obs) names)"

definition addPruneOperations ::
  "string range \<Rightarrow> ObservedState \<Rightarrow> LastAppliedSnapshot option \<Rightarrow> ResourceID list \<Rightarrow> string \<Rightarrow> ReconcileOptions
     \<Rightarrow> Operation list" where
  "addPruneOperations rngs observed lastApplied seen deploymentID options =
     prune_group lastApplied seen deploymentID options ResourceTypeNetwork (os_Networks observed)
       (rngs 0 (map fst (os_Networks observed)))
     @ prune_group lastApplied seen deploymentID options ResourceTypeVolume (os_Volumes observed)
       (rngs 1 (map fst (os_Volumes observed)))
     @ prune_group lastApplied seen deploymentID options ResourceTypeContainer (os_Containers observed)
       (rngs 2 (map fst (os_Containers observed)))"

definition Reconcile ::
  "ResourceID range \<Rightarrow> string range \<Rightarrow> CompiledGraph \<Rightarrow> ObservedState \<Rightarrow> LastAppliedSnapshot option
     \<Rightarrow> ReconcileOptions \<Rightarrow> Operation list" where
  "Reconcile rng rngs desired observed lastApplied options =
     (let keys = rng 0 (map fst (cg_Nodes desired)) in
      List.map_filter (\<lambda>resID. case map_of (cg_Nodes desired) resID of
                                 None \<Rightarrow> None | Some node \<Rightarrow> reconcileResource resID node observed lastApplied) keys
      @ addPruneOperations rngs observed lastApplied keys (cg_DeploymentID desired) options)"

subsection \<open>planner.go\<close>

text \<open>\<open>uuid n\<close> is the \<open>n\<close>-th identifier drawn: the first is the plan's.\<close>

definition tag_operations :: "(nat \<Rightarrow> string) \<Rightarrow> Operation list \<Rightarrow> Operation list" where
  "tag_operations uuid ops = map (\<lambda>(n, op). op\<lparr>op_ID := uuid (Suc n)\<rparr>) (zip [0..<length ops] ops)"

definition op_map :: "Operation list \<Rightarrow> (ResourceID, Operation) gomap" where
  "op_map ops = fold (\<lambda>op m. AList.update (op_ResourceID op) op m) ops []"

definition in_order :: "ResourceID list \<Rightarrow> (ResourceID, Operation) gomap \<Rightarrow> Operation list" where
  "in_order order m = List.map_filter (map_of m) order"

text \<open>The deletes: those of the graph in deletion order, the others put in front one by one.\<close>

definition order_deletes :: "ResourceID range \<Rightarrow> CompiledGraph \<Rightarrow> Operation list \<Rightarrow> Operation list" where
  "order_deletes rng graph deletes =
     (let m = op_map deletes in
      fold (\<lambda>resID acc.
              if resID \<in> set (cg_DeletionOrder graph) then acc
              else case map_of m resID of None \<Rightarrow> acc | Some op \<Rightarrow> op # acc)
        (rng 0 (map fst m)) (in_order (cg_DeletionOrder graph) m))"

definition is_create :: "Operation \<Rightarrow> bool" where
  "is_create op = (op_Type op \<in> {OpCreate, OpAdopt})"

definition order_operations :: "ResourceID range \<Rightarrow> CompiledGraph \<Rightarrow> Operation list \<Rightarrow> Operation list" where
  "order_operations rng graph ops =
     order_deletes rng graph (filter (\<lambda>op. op_Type op = OpDelete) ops)
     @ in_order (cg_CreationOrder graph) (op_map (filter (\<lambda>op. op_Type op = OpUpdate) ops))
     @ in_order (cg_CreationOrder graph) (op_map (filter is_create ops))
     @ filter (\<lambda>op. op_Type op = OpNoOp) ops"

definition set_dependencies :: "CompiledGraph \<Rightarrow> Operation list \<Rightarrow> Operation list" where
  "set_dependencies graph ops =
     (let opIDMap = fold (\<lambda>op m. AList.update (op_ResourceID op) (op_ID op) m) ops [] in
      map (\<lambda>op. case map_of (cg_Nodes graph) (op_ResourceID op) of
                  None \<Rightarrow> op
                | Some node \<Rightarrow> op\<lparr>op_DependsOn := List.map_filter (map_of opIDMap) (rn_Dependencies node)\<rparr>) ops)"

definition op_seconds :: "Operation \<Rightarrow> int" where
  "op_seconds op =
     (case op_Type op of
        OpCreate \<Rightarrow> (case op_ResourceType op of
                       ResourceTypeNetwork \<Rightarrow> 2 | ResourceTypeVolume \<Rightarrow> 1 | ResourceTypeContainer \<Rightarrow> 10 | _ \<Rightarrow> 0)
      | OpUpdate \<Rightarrow> (if op_ResourceType op = ResourceTypeContainer then 15 else 3)
      | OpDelete \<Rightarrow> 2
      | OpAdopt \<Rightarrow> 1
      | OpNoOp \<Rightarrow> 0)"

definition estimateTime :: "Operation list \<Rightarrow> int" where
  "estimateTime ops = foldl (\<lambda>total op. total + op_seconds op) 0 ops"

definition GeneratePlan ::
  "ResourceID range \<Rightarrow> (nat \<Rightarrow> string) \<Rightarrow> int \<Rightarrow> CompiledGraph \<Rightarrow> Operation list \<Rightarrow> PlanOptions \<Rightarrow> ExecutionPlan" where
  "GeneratePlan rng uuid now graph diff options =
     (let ops = set_dependencies graph (order_operations rng graph (tag_operations uuid diff)) in
      \<lparr>plan_ID = uuid 0, plan_DeploymentID = po_DeploymentID options, plan_DeploymentSlug = po_Slug options,
       plan_FromVersion = po_FromVersion options, plan_ToVersion = po_ToVersion options, plan_Operations = ops,
       plan_EstimatedSeconds = estimateTime ops, plan_DryRun = po_DryRun options, plan_CreatedAt = now\<rparr>)"

subsection \<open>Specification\<close>

text \<open>What is to be done about a resource, from the three states: desired, observed, applied.\<close>

definition decide ::
  "CompiledGraph \<Rightarrow> ObservedState \<Rightarrow> LastAppliedSnapshot option \<Rightarrow> ReconcileOptions \<Rightarrow> ResourceID \<Rightarrow> OperationType option" where
  "decide g observed lastApplied options i =
     (case (map_of (cg_Nodes g) i, os_Get observed i, last_config lastApplied i) of
        (Some n, None, _) \<Rightarrow> Some OpCreate
      | (Some n, Some obs, None) \<Rightarrow>
          Some (if obs_ManagedBy obs \<noteq> [] \<and> obs_ManagedBy obs = rid_DeploymentID i then OpUpdate else OpAdopt)
      | (Some n, Some obs, Some _) \<Rightarrow>
          Some (if configMatches (rn_Config n) (obs_Config obs) then OpNoOp else OpUpdate)
      | (None, Some obs, c) \<Rightarrow>
          (if rid_DeploymentID i = cg_DeploymentID g
              \<and> rid_Type i \<in> {ResourceTypeNetwork, ResourceTypeVolume, ResourceTypeContainer}
              \<and> (c \<noteq> None \<or> (ro_PruneUnknown options \<and> obs_ManagedBy obs = cg_DeploymentID g))
           then Some OpDelete else None)
      | (None, None, _) \<Rightarrow> None)"

definition state_wf :: "ObservedState \<Rightarrow> bool" where
  "state_wf s \<longleftrightarrow> distinct (map fst (os_Networks s)) \<and> distinct (map fst (os_Volumes s)) \<and> distinct (map fst (os_Containers s))"

definition strip_op :: "Operation \<Rightarrow> Operation" where
  "strip_op op = op\<lparr>op_ID := [], op_DependsOn := []\<rparr>"

text \<open>A redeployment, for the witnesses: the running service gains a network.\<close>

definition demo_graph :: "AppDeployment \<Rightarrow> CompiledGraph" where
  "demo_graph d = projr (the (Compile (\<lambda>n xs. xs) d))"

definition demo_observed :: ObservedState where
  "demo_observed = \<lparr>os_Networks = [], os_Volumes = [],
     os_Containers = [(''shop_web'', observe_container ''shop_web''
        \<lparr>dc_ID = ''c1'', dc_Names = [''/shop_web''], dc_Image = ''nginx'', dc_State = ''running'', dc_Networks = [],
         dc_Labels = Some (deployment_labels demo_deployment ResourceTypeContainer)\<rparr>)],
     os_Images = []\<rparr>"

definition demo_container :: docker_container where
  "demo_container = \<lparr>dc_ID = ''c1'', dc_Names = [''/shop_web''], dc_Image = ''nginx'', dc_State = ''running'', dc_Networks = [],
     dc_Labels = Some (deployment_labels demo_deployment ResourceTypeContainer)\<rparr>"

definition demo_applied :: LastAppliedSnapshot where
  "demo_applied = \<lparr>la_DeploymentID = ''d1'', la_Version = 1,
     la_Resources = [(''d1:container:shop_web'', Some (VolumeConfig None)), (''d1:network:shop_old'', Some (VolumeConfig None)),
                     (''d1:container:shop_old'', Some (VolumeConfig None))], la_AppliedAt = 0\<rparr>"

definition demo_removed :: ObservedState where
  "demo_removed = \<lparr>os_Networks = [(''shop_old'', observe_network \<lparr>dn_ID = ''x'', dn_Name = ''shop_old'', dn_Driver = ''bridge'', dn_Labels = None\<rparr>)],
     os_Volumes = [],
     os_Containers = [(''shop_old'', observe_container ''shop_old''
        \<lparr>dc_ID = ''c2'', dc_Names = [''/shop_old''], dc_Image = ''nginx'', dc_State = ''running'', dc_Networks = [''shop_old''],
         dc_Labels = None\<rparr>)], os_Images = []\<rparr>"

definition demo_options :: ReconcileOptions where
  "demo_options = \<lparr>ro_PruneUnknown = False, ro_AdoptOrphan = True\<rparr>"

definition demo_plan_options :: PlanOptions where
  "demo_plan_options = \<lparr>po_DryRun = False, po_DeploymentID = ''d1'', po_Slug = ''shop'', po_FromVersion = 0, po_ToVersion = 1\<rparr>"

definition demo_plan :: "ResourceID range \<Rightarrow> ObservedState \<Rightarrow> ExecutionPlan" where
  "demo_plan rng observed = GeneratePlan rng (\<lambda>n. show_nat n) 0 (demo_graph demo_deployment)
     (Reconcile (\<lambda>n xs. xs) (\<lambda>n xs. xs) (demo_graph demo_deployment) observed (Some demo_applied) demo_options) demo_plan_options"

subsection \<open>Lemmas: reconciliation\<close>

lemma reconcileResource_decides:
  assumes "map_of (cg_Nodes g) i = Some n"
  shows "\<exists>op. reconcileResource i n observed la = Some op \<and> op_ResourceID op = i
       \<and> decide g observed la options i = Some (op_Type op)"
  using assms by (auto simp: reconcileResource_def decide_def mk_op_def Let_def split: option.split)

lemma prune_one_op: "op \<in> set (prune_one la seen options i obs) \<Longrightarrow> op_ResourceID op = i \<and> op_Type op = OpDelete"
  by (auto simp: prune_one_def mk_op_def split: if_splits)

lemma prune_one_iff:
  "prune_one la seen options i obs \<noteq> [] \<longleftrightarrow>
     i \<notin> set seen \<and> (last_config la i \<noteq> None \<or> (ro_PruneUnknown options \<and> obs_ManagedBy obs = rid_DeploymentID i))"
  by (simp add: prune_one_def)

lemma prune_one_single: "length (prune_one la seen options i obs) \<le> 1"
  by (simp add: prune_one_def)

lemma prune_group_ops:
  "op \<in> set (prune_group la seen dep options t m names) \<longleftrightarrow>
     (\<exists>name obs. name \<in> set names \<and> map_of m name = Some obs
        \<and> op \<in> set (prune_one la seen options \<lparr>rid_DeploymentID = dep, rid_Type = t, rid_Name = name\<rparr> obs))"
proof
  assume "op \<in> set (prune_group la seen dep options t m names)"
  then show "\<exists>name obs. name \<in> set names \<and> map_of m name = Some obs
        \<and> op \<in> set (prune_one la seen options \<lparr>rid_DeploymentID = dep, rid_Type = t, rid_Name = name\<rparr> obs)"
    by (auto simp: prune_group_def split: option.splits) metis
qed (force simp: prune_group_def)

lemma prune_group_distinct:
  assumes "distinct names"
  shows "distinct (map op_ResourceID (prune_group la seen dep options t m names))"
  using assms
proof (induction names)
  case (Cons name names)
  let ?i = "\<lparr>rid_DeploymentID = dep, rid_Type = t, rid_Name = name\<rparr>"
  define h where "h = (case map_of m name of None \<Rightarrow> [] | Some obs \<Rightarrow> prune_one la seen options ?i obs)"
  have h: "op \<in> set h \<Longrightarrow> op_ResourceID op = ?i" "length h \<le> 1" for op
    using prune_one_op prune_one_single by (auto simp: h_def split: option.splits)
  have d: "distinct (map op_ResourceID h)" using h(2) by (cases h) auto
  have fresh: "op_ResourceID op \<noteq> ?i" if "op \<in> set (prune_group la seen dep options t m names)" for op
    using that Cons.prems prune_one_op by (fastforce simp: prune_group_ops)
  have "prune_group la seen dep options t m (name # names) = h @ prune_group la seen dep options t m names"
    by (simp add: prune_group_def h_def)
  with d h(1) fresh Cons show ?case by (auto simp: image_iff) metis
qed (simp add: prune_group_def)

lemma map_filter_ids:
  assumes "\<And>i. i \<in> set keys \<Longrightarrow> \<exists>op. f i = Some op \<and> op_ResourceID op = i"
  shows "map op_ResourceID (List.map_filter f keys) = keys"
  using assms
proof (induction keys)
  case (Cons i keys)
  then obtain op where "f i = Some op" "op_ResourceID op = i" by auto
  with Cons show ?case by (simp add: map_filter_simps)
qed (simp add: map_filter_simps)

lemma in_prune:
  "op \<in> set (addPruneOperations rngs observed la seen dep options) \<Longrightarrow> range_order rngs \<Longrightarrow>
     \<exists>obs. os_Get observed (op_ResourceID op) = Some obs \<and> rid_DeploymentID (op_ResourceID op) = dep
       \<and> rid_Type (op_ResourceID op) \<in> {ResourceTypeNetwork, ResourceTypeVolume, ResourceTypeContainer}
       \<and> op \<in> set (prune_one la seen options (op_ResourceID op) obs)"
  unfolding addPruneOperations_def set_append Un_iff prune_group_ops
  by (elim disjE exE conjE; frule prune_one_op; auto simp: os_Get_def)

lemma pruned:
  assumes "range_order rngs" and "os_Get observed i = Some obs" and "rid_DeploymentID i = dep"
    and "rid_Type i \<in> {ResourceTypeNetwork, ResourceTypeVolume, ResourceTypeContainer}"
    and "prune_one la seen options i obs \<noteq> []"
  shows "i \<in> op_ResourceID ` set (addPruneOperations rngs observed la seen dep options)"
proof -
  obtain op where op: "op \<in> set (prune_one la seen options i obs)" "op_ResourceID op = i"
    using assms(5) prune_one_op by (metis list.set_intros(1) neq_Nil_conv)
  have i: "i = \<lparr>rid_DeploymentID = dep, rid_Type = rid_Type i, rid_Name = rid_Name i\<rparr>" using assms(3) by simp
  have dom: "map_of m x = Some y \<Longrightarrow> x \<in> set (rngs k (map fst m))" for m :: "(string, ObservedResource) gomap" and x y k
    using range_set [OF assms(1)] by (metis (no_types, lifting) map_of_SomeD fst_conv image_eqI set_map)
  have "op \<in> set (addPruneOperations rngs observed la seen dep options)"
    unfolding addPruneOperations_def set_append Un_iff prune_group_ops
    using assms(2,4) op(1) i dom by (auto simp: os_Get_def split: ResourceType.splits) metis+
  with op(2) show ?thesis by (rule image_eqI [OF sym])
qed

lemma prune_distinct:
  assumes "range_order rngs" and "state_wf observed"
  shows "distinct (map op_ResourceID (addPruneOperations rngs observed la seen dep options))"
proof -
  have d: "distinct (map op_ResourceID (prune_group la seen dep options t m (rngs k (map fst m))))"
    if "distinct (map fst m)" for t m k
    using prune_group_distinct range_distinct [OF assms(1)] that by blast
  have ty: "rid_Type (op_ResourceID op) = t" if "op \<in> set (prune_group la seen dep options t m names)" for op t m names
    using that prune_one_op by (fastforce simp: prune_group_ops)
  show ?thesis
    using assms(2) d unfolding addPruneOperations_def state_wf_def
    by (auto dest!: ty)
qed

lemma Reconcile_first:
  fixes g :: CompiledGraph
  assumes "range_order rng"
  shows "map op_ResourceID (List.map_filter (\<lambda>i. case map_of (cg_Nodes g) i of
            None \<Rightarrow> None | Some n \<Rightarrow> reconcileResource i n observed la) (rng 0 (map fst (cg_Nodes g))))
         = rng 0 (map fst (cg_Nodes g))"
proof (rule map_filter_ids)
  fix i assume "i \<in> set (rng 0 (map fst (cg_Nodes g)))"
  then have "i \<in> set (map fst (cg_Nodes g))" by (simp only: range_set [OF assms])
  then obtain n where "map_of (cg_Nodes g) i = Some n" by (metis map_of_eq_None_iff not_None_eq set_map)
  then show "\<exists>op. (case map_of (cg_Nodes g) i of None \<Rightarrow> None | Some n \<Rightarrow> reconcileResource i n observed la) = Some op
      \<and> op_ResourceID op = i"
    using reconcileResource_decides [of g i n observed la] by auto
qed

lemma Reconcile_correct:
  assumes "range_order rng" and "range_order rngs" and "distinct (map fst (cg_Nodes g))" and "state_wf observed"
    and ops_def: "ops = Reconcile rng rngs g observed la options"
  shows "distinct (map op_ResourceID ops)"
    and "\<And>op. op \<in> set ops \<Longrightarrow> decide g observed la options (op_ResourceID op) = Some (op_Type op)"
    and "\<And>i t. decide g observed la options i = Some t \<Longrightarrow> i \<in> op_ResourceID ` set ops"
proof -
  let ?keys = "rng 0 (map fst (cg_Nodes g))"
  let ?f = "\<lambda>i. case map_of (cg_Nodes g) i of None \<Rightarrow> None | Some n \<Rightarrow> reconcileResource i n observed la"
  let ?first = "List.map_filter ?f ?keys"
  let ?prune = "addPruneOperations rngs observed la ?keys (cg_DeploymentID g) options"
  have ops: "ops = ?first @ ?prune" by (simp add: ops_def Reconcile_def Let_def)
  have ids: "map op_ResourceID ?first = ?keys" by (rule Reconcile_first [OF assms(1)])
  have keys: "i \<in> set ?keys \<longleftrightarrow> map_of (cg_Nodes g) i \<noteq> None" for i
    by (simp add: range_set [OF assms(1)] map_of_eq_None_iff)
  have unseen: "op_ResourceID op \<notin> set ?keys" if "op \<in> set ?prune" for op
    using in_prune [OF that assms(2)] by (auto simp: prune_one_def split: if_splits)
  show "distinct (map op_ResourceID ops)"
    using ids unseen prune_distinct [OF assms(2,4)] range_distinct [OF assms(1)] assms(3)
    by (auto simp: ops simp del: map_append) (auto simp: image_iff)
  show "decide g observed la options (op_ResourceID op) = Some (op_Type op)" if op: "op \<in> set ops" for op
  proof (cases "op \<in> set ?prune")
    case True
    then obtain obs where obs: "os_Get observed (op_ResourceID op) = Some obs"
        "rid_DeploymentID (op_ResourceID op) = cg_DeploymentID g"
        "rid_Type (op_ResourceID op) \<in> {ResourceTypeNetwork, ResourceTypeVolume, ResourceTypeContainer}"
        "op \<in> set (prune_one la ?keys options (op_ResourceID op) obs)"
      using in_prune [OF True assms(2)] by blast
    have "map_of (cg_Nodes g) (op_ResourceID op) = None" using unseen [OF True] keys by blast
    moreover have "op_Type op = OpDelete" using prune_one_op [OF obs(4)] by blast
    moreover have "last_config la (op_ResourceID op) \<noteq> None
        \<or> (ro_PruneUnknown options \<and> obs_ManagedBy obs = cg_DeploymentID g)"
      using prune_one_iff [of la ?keys options "op_ResourceID op" obs] obs(2,4) by fastforce
    ultimately show ?thesis using obs(1-3) unfolding decide_def by (auto split: option.split)
  next
    case False
    then obtain i where "?f i = Some op" using op ops by (auto simp: map_filter_def)
    then obtain n where "map_of (cg_Nodes g) i = Some n" "reconcileResource i n observed la = Some op"
      by (auto split: option.splits)
    then show ?thesis using reconcileResource_decides [of g i n observed la options] by auto
  qed
  show "i \<in> op_ResourceID ` set ops" if "decide g observed la options i = Some t" for i t
  proof (cases "map_of (cg_Nodes g) i")
    case None
    then have "i \<in> op_ResourceID ` set ?prune"
      using that keys [of i]
      by (auto simp: decide_def prune_one_def split: option.splits if_splits intro!: pruned [OF assms(2)])
    then show ?thesis by (auto simp: ops)
  next
    case (Some n)
    then have "i \<in> set ?keys" by (simp add: keys)
    then have "i \<in> op_ResourceID ` set ?first" using ids by (metis set_map)
    then show ?thesis by (auto simp: ops)
  qed
qed

subsection \<open>Lemmas: the plan\<close>

lemma op_map_lookup:
  assumes "distinct (map op_ResourceID ops)"
  shows "map_of (op_map ops) i = Some op \<longleftrightarrow> op \<in> set ops \<and> op_ResourceID op = i"
    and "map fst (op_map ops) = map op_ResourceID ops"
proof -
  have "fold (\<lambda>op m. AList.update (op_ResourceID op) op m) ops acc = acc @ map (\<lambda>op. (op_ResourceID op, op)) ops"
    if "distinct (map fst acc @ map op_ResourceID ops)" for acc
    using that assms
  proof (induction ops arbitrary: acc)
    case (Cons op ops)
    then have "op_ResourceID op \<notin> fst ` set acc" by auto
    with Cons show ?case by (auto simp: gm_update_new)
  qed simp
  from this [of "[]"] assms have eq: "op_map ops = map (\<lambda>op. (op_ResourceID op, op)) ops" by (simp add: op_map_def)
  show keys: "map fst (op_map ops) = map op_ResourceID ops" by (simp add: eq)
  have "map_of (op_map ops) i = Some op \<longleftrightarrow> (i, op) \<in> set (op_map ops)"
    using assms by (intro gm_lookup_iff) (simp only: keys)
  also have "\<dots> \<longleftrightarrow> op \<in> set ops \<and> op_ResourceID op = i" by (auto simp: eq)
  finally show "map_of (op_map ops) i = Some op \<longleftrightarrow> op \<in> set ops \<and> op_ResourceID op = i" .
qed

lemma in_order_ids:
  assumes "distinct (map op_ResourceID ops)"
  shows "map op_ResourceID (in_order order (op_map ops)) = filter (\<lambda>i. i \<in> op_ResourceID ` set ops) order"
    and "set (in_order order (op_map ops)) = {op \<in> set ops. op_ResourceID op \<in> set order}"
proof -
  show "set (in_order order (op_map ops)) = {op \<in> set ops. op_ResourceID op \<in> set order}"
  proof -
    have "set (in_order order m) = {op. \<exists>i\<in>set order. map_of m i = Some op}" for m
      by (force simp: in_order_def map_filter_def)
    then show ?thesis using op_map_lookup(1) [OF assms] by auto
  qed
  show "map op_ResourceID (in_order order (op_map ops)) = filter (\<lambda>i. i \<in> op_ResourceID ` set ops) order"
  proof (induction order)
    case (Cons i order)
    show ?case
    proof (cases "map_of (op_map ops) i")
      case None
      then have "i \<notin> op_ResourceID ` set ops"
        using op_map_lookup(1) [OF assms, of i] by (metis image_iff option.distinct(1))
      with None Cons show ?thesis by (simp add: in_order_def map_filter_simps)
    next
      case (Some op)
      then have "op_ResourceID op = i" "i \<in> op_ResourceID ` set ops" using op_map_lookup(1) [OF assms] by auto
      with Some Cons show ?thesis by (simp add: in_order_def map_filter_simps)
    qed
  qed (simp add: in_order_def map_filter_simps)
qed

text \<open>Putting the operations of a group in the order of the graph loses and repeats nothing.\<close>

lemma in_order_perm:
  assumes "distinct (map op_ResourceID ops)" and "distinct order" and "op_ResourceID ` set ops \<subseteq> set order"
  shows "mset (in_order order (op_map ops)) = mset ops"
proof -
  have "distinct (map op_ResourceID (in_order order (op_map ops)))"
    by (simp add: in_order_ids(1) [OF assms(1)] assms(2))
  then have "distinct (in_order order (op_map ops))" by (simp add: distinct_map)
  moreover have "set (in_order order (op_map ops)) = set ops"
    using in_order_ids(2) [OF assms(1)] assms(3) by auto
  moreover have "distinct ops" using assms(1) by (simp add: distinct_map)
  ultimately show ?thesis by (simp add: set_eq_iff_mset_eq_distinct [symmetric])
qed

lemma order_deletes_eq:
  assumes "distinct (map op_ResourceID ops)" and "range_order rng"
  shows "order_deletes rng graph ops =
     rev (in_order (filter (\<lambda>i. i \<notin> set (cg_DeletionOrder graph)) (rng 0 (map op_ResourceID ops))) (op_map ops))
     @ in_order (cg_DeletionOrder graph) (op_map ops)"
proof -
  have "fold (\<lambda>i acc. if i \<in> set (cg_DeletionOrder graph) then acc
        else case map_of (op_map ops) i of None \<Rightarrow> acc | Some op \<Rightarrow> op # acc) ks acc
      = rev (in_order (filter (\<lambda>i. i \<notin> set (cg_DeletionOrder graph)) ks) (op_map ops)) @ acc" for ks acc
    by (induction ks arbitrary: acc) (auto simp: in_order_def map_filter_simps split: option.split)
  then show ?thesis by (simp add: order_deletes_def Let_def op_map_lookup(2) [OF assms(1)])
qed

lemma order_deletes_perm:
  assumes "distinct (map op_ResourceID ops)" and "range_order rng" and "distinct (cg_DeletionOrder graph)"
  shows "mset (order_deletes rng graph ops) = mset ops"
proof -
  let ?ks = "filter (\<lambda>i. i \<notin> set (cg_DeletionOrder graph)) (rng 0 (map op_ResourceID ops))"
  let ?order = "?ks @ cg_DeletionOrder graph"
  have "mset (order_deletes rng graph ops) = mset (in_order ?order (op_map ops))"
    by (simp add: order_deletes_eq [OF assms(1,2)] in_order_def map_filter_def)
  moreover have "distinct ?order"
    using assms(3) range_distinct [OF assms(2)] assms(1) by auto
  moreover have "op_ResourceID ` set ops \<subseteq> set ?order"
    using range_set [OF assms(2), of 0 "map op_ResourceID ops"] by auto
  ultimately show ?thesis using in_order_perm [OF assms(1)] by simp
qed

lemma mset_groups:
  "mset ops = mset (filter (\<lambda>op. op_Type op = OpDelete) ops) + mset (filter (\<lambda>op. op_Type op = OpUpdate) ops)
     + mset (filter is_create ops) + mset (filter (\<lambda>op. op_Type op = OpNoOp) ops)"
proof (induction ops)
  case (Cons op ops)
  then show ?case by (cases "op_Type op") (auto simp: is_create_def)
qed simp

lemma order_operations_perm:
  assumes "distinct (map op_ResourceID ops)" and "range_order rng"
    and "distinct (cg_CreationOrder g)" and "cg_DeletionOrder g = rev (cg_CreationOrder g)"
    and "\<And>op. op \<in> set ops \<Longrightarrow> op_Type op = OpUpdate \<or> is_create op \<Longrightarrow> op_ResourceID op \<in> set (cg_CreationOrder g)"
  shows "mset (order_operations rng g ops) = mset ops"
proof -
  have d: "distinct (map op_ResourceID (filter P ops))" for P using assms(1) by (rule distinct_map_filter)
  have "mset (in_order (cg_CreationOrder g) (op_map (filter (\<lambda>op. op_Type op = OpUpdate) ops)))
      = mset (filter (\<lambda>op. op_Type op = OpUpdate) ops)"
    using assms(5) by (intro in_order_perm d assms(3)) auto
  moreover have "mset (in_order (cg_CreationOrder g) (op_map (filter is_create ops))) = mset (filter is_create ops)"
    using assms(5) by (intro in_order_perm d assms(3)) auto
  moreover have "mset (order_deletes rng g (filter (\<lambda>op. op_Type op = OpDelete) ops))
      = mset (filter (\<lambda>op. op_Type op = OpDelete) ops)"
    using assms(3,4) by (intro order_deletes_perm d assms(2)) simp
  ultimately show ?thesis by (subst mset_groups [of ops]) (simp only: order_operations_def mset_append add.assoc)
qed

lemma tag_strip [simp]: "map strip_op (tag_operations uuid ops) = map strip_op ops"
  "map op_ResourceID (tag_operations uuid ops) = map op_ResourceID ops"
  "map op_Type (tag_operations uuid ops) = map op_Type ops"
  by (auto simp: tag_operations_def strip_op_def intro!: nth_equalityI)

lemma set_dependencies_strip [simp]: "map strip_op (set_dependencies g ops) = map strip_op ops"
  "map op_ResourceID (set_dependencies g ops) = map op_ResourceID ops"
  "map op_Type (set_dependencies g ops) = map op_Type ops"
  by (auto simp: set_dependencies_def strip_op_def Let_def split: option.split)

text \<open>Dependencies come first in a valid order, so no node is followed by one it depends on.\<close>

lemma valid_order_sorted:
  assumes "valid_order keys deps order"
  shows "sorted_wrt (\<lambda>x y. y \<notin> set (deps x)) order" and "\<And>x. x \<in> set order \<Longrightarrow> x \<notin> set (deps x)"
proof -
  have d: "distinct order" and v: "\<And>j. j < length order \<Longrightarrow> set (deps (order ! j)) \<subseteq> set (take j order)"
    using assms by (auto simp: valid_order_def)
  have later: "order ! k \<notin> set (deps (order ! j))" if "j \<le> k" "k < length order" for j k
  proof
    assume "order ! k \<in> set (deps (order ! j))"
    with v [of j] that have "order ! k \<in> set (take j order)" by auto
    then obtain l where "l < j" "order ! l = order ! k" using that by (auto simp: in_set_conv_nth)
    with d that show False by (simp add: nth_eq_iff_index_eq)
  qed
  then show "sorted_wrt (\<lambda>x y. y \<notin> set (deps x)) order" by (simp add: sorted_wrt_iff_nth_less)
  show "x \<notin> set (deps x)" if "x \<in> set order" for x
    using that later by (metis in_set_conv_nth order_refl)
qed

definition node_deps :: "CompiledGraph \<Rightarrow> ResourceID \<Rightarrow> ResourceID list" where
  "node_deps g i = (case map_of (cg_Nodes g) i of None \<Rightarrow> [] | Some n \<Rightarrow> rn_Dependencies n)"

abbreviation premature :: "CompiledGraph \<Rightarrow> Operation \<Rightarrow> Operation \<Rightarrow> bool" where
  "premature g x y \<equiv> is_create x \<and> op_Type y \<noteq> OpNoOp \<and> op_ResourceID y \<in> set (node_deps g (op_ResourceID x))"

lemma not_create:
  "op_Type x = OpDelete \<Longrightarrow> \<not> is_create x" "op_Type x = OpUpdate \<Longrightarrow> \<not> is_create x" "op_Type x = OpNoOp \<Longrightarrow> \<not> is_create x"
  by (simp_all add: is_create_def)

lemma order_operations_sorted:
  assumes "distinct (map op_ResourceID ops)" and "range_order rng" and "valid_order keys (node_deps g) (cg_CreationOrder g)"
  shows "sorted_wrt (\<lambda>x y. \<not> premature g x y) (order_operations rng g ops)"
    and "\<And>x. x \<in> set (order_operations rng g ops) \<Longrightarrow> \<not> premature g x x"
proof -
  let ?D = "order_deletes rng g (filter (\<lambda>op. op_Type op = OpDelete) ops)"
    and ?U = "in_order (cg_CreationOrder g) (op_map (filter (\<lambda>op. op_Type op = OpUpdate) ops))"
    and ?C = "in_order (cg_CreationOrder g) (op_map (filter is_create ops))"
    and ?N = "filter (\<lambda>op. op_Type op = OpNoOp) ops"
  have d: "distinct (map op_ResourceID (filter P ops))" for P using assms(1) by (rule distinct_map_filter)
  have D: "\<forall>x\<in>set ?D. op_Type x = OpDelete"
    unfolding order_deletes_eq [OF d assms(2)] set_append set_rev in_order_ids(2) [OF d] by auto
  have U: "\<forall>x\<in>set ?U. op_Type x = OpUpdate" unfolding in_order_ids(2) [OF d] by simp
  have C: "\<forall>x\<in>set ?C. op_ResourceID x \<in> set (cg_CreationOrder g)" unfolding in_order_ids(2) [OF d] by simp
  have only: "sorted_wrt (\<lambda>x y. \<not> premature g x y) xs" if "\<forall>x\<in>set xs. \<not> is_create x" for xs
    using that unfolding sorted_wrt_iff_nth_less by (meson nth_mem order_less_trans)
  have "sorted_wrt (\<lambda>x y. y \<notin> set (node_deps g x)) (map op_ResourceID ?C)"
    using valid_order_sorted(1) [OF assms(3)] by (simp add: in_order_ids(1) [OF d] sorted_wrt_filter)
  then have "sorted_wrt (\<lambda>x y. op_ResourceID y \<notin> set (node_deps g (op_ResourceID x))) ?C"
    by (simp only: sorted_wrt_map)
  then have "sorted_wrt (\<lambda>x y. \<not> premature g x y) ?C"
    by (rule sorted_wrt_mono_rel [rotated]) simp
  moreover have N: "\<forall>x\<in>set ?N. op_Type x = OpNoOp" by simp
  moreover have nd: "\<forall>x\<in>set ?D. \<not> is_create x" using D not_create(1) by blast
  moreover have nu: "\<forall>x\<in>set ?U. \<not> is_create x" using U not_create(2) by blast
  moreover have nn: "\<forall>x\<in>set ?N. \<not> is_create x" using N not_create(3) by blast
  moreover note only [OF nd] only [OF nu] only [OF nn]
  ultimately show "sorted_wrt (\<lambda>x y. \<not> premature g x y) (order_operations rng g ops)"
    unfolding order_operations_def sorted_wrt_append set_append by blast
  show "\<not> premature g x x" if "x \<in> set (order_operations rng g ops)" for x
    using that nd nu nn C valid_order_sorted(2) [OF assms(3)]
    unfolding order_operations_def set_append Un_iff by blast
qed

lemma plan_operations:
  "plan_Operations (GeneratePlan rng uuid now g diff options)
     = set_dependencies g (order_operations rng g (tag_operations uuid diff))"
  by (simp add: GeneratePlan_def Let_def)

lemma set_dependencies_nth:
  assumes "j < length ops"
  shows "op_ResourceID (set_dependencies g ops ! j) = op_ResourceID (ops ! j)"
    and "op_Type (set_dependencies g ops ! j) = op_Type (ops ! j)"
  using set_dependencies_strip(2,3) [of g ops] assms by (metis length_map nth_map)+

lemma length_set_dependencies [simp]: "length (set_dependencies g ops) = length ops"
  by (simp add: set_dependencies_def Let_def)

text \<open>A plan permutes the operations of the diff.\<close>

lemma plan_perm:
  assumes "range_order rng" and "distinct (map op_ResourceID diff)"
    and "distinct (cg_CreationOrder g)" and "cg_DeletionOrder g = rev (cg_CreationOrder g)"
    and "\<And>op. op \<in> set diff \<Longrightarrow> op_Type op = OpUpdate \<or> is_create op \<Longrightarrow> op_ResourceID op \<in> set (cg_CreationOrder g)"
  shows "mset (map strip_op (plan_Operations (GeneratePlan rng uuid now g diff options))) = mset (map strip_op diff)"
proof -
  let ?t = "tag_operations uuid diff"
  have tagged: "\<exists>op'\<in>set diff. op_ResourceID op = op_ResourceID op' \<and> op_Type op = op_Type op'" if "op \<in> set ?t" for op
    using that by (auto simp: tag_operations_def dest: set_zip_rightD)
  have "mset (order_operations rng g ?t) = mset ?t"
    using assms(2,5) tagged by (intro order_operations_perm assms(1,3,4)) (auto simp: is_create_def, metis+)
  then have "mset (map strip_op (order_operations rng g ?t)) = mset (map strip_op diff)"
    by (metis mset_map tag_strip(1))
  then show ?thesis by (simp add: plan_operations)
qed

text \<open>No created resource of a plan is followed by an operation on something it depends on.\<close>

lemma plan_sorted:
  assumes "range_order rng" and "distinct (map op_ResourceID diff)"
    and "valid_order keys (node_deps g) (cg_CreationOrder g)"
    and "ops = plan_Operations (GeneratePlan rng uuid now g diff options)"
    and "j < length ops" and "k < length ops"
    and "is_create (ops ! j)" and "op_Type (ops ! k) \<noteq> OpNoOp"
    and "op_ResourceID (ops ! k) \<in> set (node_deps g (op_ResourceID (ops ! j)))"
  shows "k < j"
proof (rule ccontr)
  let ?o = "order_operations rng g (tag_operations uuid diff)"
  have d: "distinct (map op_ResourceID (tag_operations uuid diff))" using assms(2) by simp
  have ops: "ops = set_dependencies g ?o" using assms(4) by (simp add: plan_operations)
  have len: "j < length ?o" "k < length ?o" using assms(5,6) ops by simp_all
  have bad: "premature g (?o ! j) (?o ! k)"
    using assms(7-9) set_dependencies_nth [OF len(1), of g] set_dependencies_nth [OF len(2), of g]
    by (simp add: ops is_create_def)
  assume "\<not> k < j"
  then consider "j < k" | "j = k" by linarith
  then show False
    using bad order_operations_sorted [OF d assms(1,3)] len
    by cases (auto simp: sorted_wrt_iff_nth_less)
qed

lemma decide_desired:
  "decide g observed la options i = Some t \<Longrightarrow> t \<noteq> OpDelete \<Longrightarrow> i \<in> set (map fst (cg_Nodes g))"
  using map_of_eq_None_iff [of "cg_Nodes g" i]
  by (auto simp: decide_def split: option.splits if_splits)

text \<open>What the planner relies on of a compiled graph.\<close>

lemma compiled_graph:
  assumes "range_order rng" and "Compile rng d = Some (Inr g)"
  shows "cg_Nodes g = compile_nodes d \<and> cg_DeletionOrder g = rev (cg_CreationOrder g)
       \<and> valid_order (set (map fst (cg_Nodes g))) (node_deps g) (cg_CreationOrder g)"
proof -
  have "edge_list (BuildDependencyEdges rn_Dependencies (compile_nodes d)) = node_deps g" if "cg_Nodes g = compile_nodes d"
    using that by (intro ext) (simp add: compile_edges node_deps_def)
  then show ?thesis using Compile_cases [OF assms(1), of d] assms(2) by auto
qed

text \<open>What is read from Docker is a map from names.\<close>

lemma observe_containers_distinct:
  "observe_containers ours cs m = Some m' \<Longrightarrow> distinct (map fst m) \<Longrightarrow> distinct (map fst m')"
  by (induction cs arbitrary: m) (auto split: option.splits if_splits)

lemma fold_update_distinct:
  "distinct (map fst m) \<Longrightarrow> distinct (map fst (fold (\<lambda>x m. if P x then AList.update (f x) (g x) m else m) xs m))"
  by (induction xs arbitrary: m) auto

lemma GetDeploymentResources_wf:
  "GetDeploymentResources nets vols conts i slug = Some (Inr s) \<Longrightarrow> state_wf s"
  by (auto simp: GetDeploymentResources_def state_wf_def Let_def fold_update_distinct split: sum.splits
      dest: observe_containers_distinct)

subsection \<open>Properties\<close>



text \<open>
  Planning loses no operation and invents none: the plan holds the operations of the
  diff, each once, whatever the order of the maps.
\<close>

theorem plan_keeps_operations:
  assumes "range_order rng" and "distinct (map op_ResourceID diff)"
    and "distinct (cg_CreationOrder g)" and "cg_DeletionOrder g = rev (cg_CreationOrder g)"
    and "\<And>op. op \<in> set diff \<Longrightarrow> op_Type op = OpUpdate \<or> is_create op \<Longrightarrow> op_ResourceID op \<in> set (cg_CreationOrder g)"
  shows "mset (map strip_op (plan_Operations (GeneratePlan rng uuid now g diff options))) = mset (map strip_op diff)"
  using assms by (rule plan_perm)

theorem plan_keeps_operations_witness:
  "mset (map strip_op (plan_Operations (demo_plan (\<lambda>n. rev) demo_removed)))
     = mset (map strip_op (Reconcile (\<lambda>n xs. xs) (\<lambda>n xs. xs) (demo_graph demo_deployment) demo_removed (Some demo_applied) demo_options))"
proof -
  let ?diff = "Reconcile (\<lambda>n xs. xs) (\<lambda>n xs. xs) (demo_graph demo_deployment) demo_removed (Some demo_applied) demo_options"
  let ?g = "demo_graph demo_deployment"
  have "distinct (map op_ResourceID ?diff)" and "distinct (cg_CreationOrder ?g)"
    and "cg_DeletionOrder ?g = rev (cg_CreationOrder ?g)"
    and "list_all (\<lambda>op. op_Type op = OpUpdate \<or> is_create op \<longrightarrow> List.member (cg_CreationOrder ?g) (op_ResourceID op)) ?diff"
    by code_simp+
  then show ?thesis
    unfolding demo_plan_def
    by (intro plan_keeps_operations) (auto simp: range_order_def list_all_iff)
qed

text \<open>
  In a plan, whatever a created or adopted resource depends on and that is to be
  created, adopted, updated or deleted too comes before it.
\<close>

theorem plan_creates_after_dependencies:
  assumes "range_order rng" and "distinct (map op_ResourceID diff)"
    and "valid_order keys (node_deps g) (cg_CreationOrder g)"
    and "ops = plan_Operations (GeneratePlan rng uuid now g diff options)"
    and "j < length ops" and "k < length ops"
    and "is_create (ops ! j)" and "op_Type (ops ! k) \<noteq> OpNoOp"
    and "op_ResourceID (ops ! k) \<in> set (node_deps g (op_ResourceID (ops ! j)))"
  shows "k < j"
  using assms by (rule plan_sorted)

theorem plan_creates_after_dependencies_witness:
  "let ops = plan_Operations (demo_plan (\<lambda>n. rev) demo_removed);
       ids = map op_ResourceID ops
   in \<exists>j k. ids ! j = res_id demo_deployment ResourceTypeContainer ''web''
        \<and> ids ! k = res_id demo_deployment ResourceTypeNetwork ''lan'' \<and> k < j"
proof -
  let ?ops = "plan_Operations (demo_plan (\<lambda>n. rev) demo_removed)"
  let ?g = "demo_graph demo_deployment"
  let ?diff = "Reconcile (\<lambda>n xs. xs) (\<lambda>n xs. xs) ?g demo_removed (Some demo_applied) demo_options"
  have d: "distinct (map op_ResourceID ?diff)" by code_simp
  have r: "range_order (\<lambda>n. rev)" by (simp add: range_order_def)
  have o: "cg_CreationOrder ?g = [res_id demo_deployment ResourceTypeNetwork ''lan'',
      res_id demo_deployment ResourceTypeVolume ''data'', res_id demo_deployment ResourceTypeContainer ''web'']" by code_simp
  have e: "map (node_deps ?g) (cg_CreationOrder ?g) = [[], [], [res_id demo_deployment ResourceTypeNetwork ''lan'',
      res_id demo_deployment ResourceTypeVolume ''data'']]" by code_simp
  have v: "valid_order (set (cg_CreationOrder ?g)) (node_deps ?g) (cg_CreationOrder ?g)"
    using e unfolding valid_order_def o by (auto simp: less_Suc_eq numeral_3_eq_3)
  have ids: "map op_ResourceID ?ops ! 4 = res_id demo_deployment ResourceTypeContainer ''web''"
      "map op_ResourceID ?ops ! 2 = res_id demo_deployment ResourceTypeNetwork ''lan''" "length ?ops = 5"
      "is_create (?ops ! 4)" "op_Type (?ops ! 2) = OpCreate" "op_ResourceID (?ops ! 4) = res_id demo_deployment ResourceTypeContainer ''web''"
      "op_ResourceID (?ops ! 2) = res_id demo_deployment ResourceTypeNetwork ''lan''"
    by code_simp+
  have "2 < (4 :: nat)"
    using plan_creates_after_dependencies [OF r d v demo_plan_def [THEN arg_cong, where f = plan_Operations, of "\<lambda>n. rev" demo_removed], of 4 2]
      ids e unfolding o by simp
  with ids show ?thesis by (metis (mono_tags, lifting))
qed

text \<open>
  A running container never counts as up to date if its service declares a mount, a
  port or an environment variable, or no environment at all: what is read back from Docker
  always has an empty environment and neither mounts nor ports, so the comparison fails and
  every deployment updates the container again.
\<close>

theorem container_always_drifts:
  assumes "os_Get observed i = Some (observe_container name c)" and "last_config la i = Some applied"
    and "svc_Volumes svc \<noteq> None \<or> svc_Ports svc \<noteq> None \<or> svc_Environment svc \<noteq> Some []"
  shows "\<exists>op. reconcileResource i (service_node d svc) observed la = Some op \<and> op_Type op = OpUpdate"
proof -
  have "\<not> configMatches (rn_Config (service_node d svc)) (obs_Config (observe_container name c))"
    using assms(3)
    by (cases "svc_Environment svc")
       (auto simp: configMatches_def map_equal_def service_node_def observe_container_def jmap_def jslice_def
          neq_Nil_conv split: option.splits)
  with assms(1,2) show ?thesis by (simp add: reconcileResource_def mk_op_def Let_def)
qed

theorem container_always_drifts_witness:
  "\<exists>op. reconcileResource (res_id demo_deployment ResourceTypeContainer ''web'') (service_node demo_deployment demo_service)
          demo_observed (Some demo_applied) = Some op \<and> op_Type op = OpUpdate"
proof -
  let ?i = "res_id demo_deployment ResourceTypeContainer ''web''"
  let ?c = "\<lparr>dc_ID = ''c1'', dc_Names = [''/shop_web''], dc_Image = ''nginx'', dc_State = ''running'', dc_Networks = [],
         dc_Labels = Some (deployment_labels demo_deployment ResourceTypeContainer)\<rparr>"
  have "os_Get demo_observed ?i = Some (observe_container ''shop_web'' ?c)"
    by (simp add: os_Get_def demo_observed_def res_id_def prefixed_def demo_deployment_def)
  moreover have "last_config (Some demo_applied) ?i = Some (VolumeConfig None)" by code_simp
  ultimately show ?thesis
    by (rule container_always_drifts) (simp add: demo_service_def)
qed

text \<open>
  Updates are planned before creates, also when the updated resource depends on a
  created one. When a running service gains a network and a volume, the plan updates its
  container first, and creates the network and the volume it names as dependencies of that
  operation only afterwards.
\<close>

theorem update_planned_before_created_dependency:
  "let ops = plan_Operations (demo_plan (\<lambda>n xs. xs) demo_observed)
   in map op_ResourceID ops = [res_id demo_deployment ResourceTypeContainer ''web'',
        res_id demo_deployment ResourceTypeNetwork ''lan'', res_id demo_deployment ResourceTypeVolume ''data'']
      \<and> map op_Type ops = [OpUpdate, OpCreate, OpCreate]
      \<and> op_DependsOn (hd ops) = map op_ID (tl ops)"
proof -
  let ?ops = "plan_Operations (demo_plan (\<lambda>n xs. xs) demo_observed)"
  have "map op_ResourceID ?ops = [res_id demo_deployment ResourceTypeContainer ''web'',
        res_id demo_deployment ResourceTypeNetwork ''lan'', res_id demo_deployment ResourceTypeVolume ''data'']"
    by code_simp
  moreover have "map op_Type ?ops = [OpUpdate, OpCreate, OpCreate]" by code_simp
  moreover have "op_DependsOn (hd ?ops) = map op_ID (tl ?ops)" by code_simp
  ultimately show ?thesis by (simp only: Let_def simp_thms)
qed

text \<open>
  Resources dropped from a deployment are deleted in no particular order: the same
  plan input gives, for two orders in which Go may visit its map, a plan that removes the
  container before the network it is attached to, and one that removes the network first.
\<close>

theorem removed_resources_deleted_in_any_order:
  "map op_ResourceType (filter (\<lambda>op. op_Type op = OpDelete) (plan_Operations (demo_plan (\<lambda>n xs. xs) demo_removed)))
     = [ResourceTypeContainer, ResourceTypeNetwork]
   \<and> map op_ResourceType (filter (\<lambda>op. op_Type op = OpDelete) (plan_Operations (demo_plan (\<lambda>n. rev) demo_removed)))
     = [ResourceTypeNetwork, ResourceTypeContainer]"
proof
  show "map op_ResourceType (filter (\<lambda>op. op_Type op = OpDelete) (plan_Operations (demo_plan (\<lambda>n xs. xs) demo_removed)))
     = [ResourceTypeContainer, ResourceTypeNetwork]" by code_simp
  show "map op_ResourceType (filter (\<lambda>op. op_Type op = OpDelete) (plan_Operations (demo_plan (\<lambda>n. rev) demo_removed)))
     = [ResourceTypeNetwork, ResourceTypeContainer]" by code_simp
qed

end
