(* ===== verification/Key_Manager.thy ===== *)
theory Key_Manager
  imports Prelude
begin

text \<open>
  Key managers, \<open>internal/crypto/keymanager\<close>: the interface of \<open>types.go\<close>, the choice of a
  backend of \<open>keymanager.go\<close> and the software backend of \<open>software.go\<close>. A Go interface is a
  record of its methods over the state of the implementation.

  What comes from outside the repository or from the hardware is the parameter
  \<open>C :: crypto_env\<close>: the entropy source, HKDF, AES-GCM and the generation of ECDSA keys.
  \<open>crypto_ok C\<close> says what is documented of them. The TPM backend is not modelled.

  A method that may panic, or that may wait for ever, returns an \<open>outcome\<close>.
\<close>

subsection \<open>types.go\<close>

datatype 'a outcome = Returns 'a | Panics | Blocks

datatype km_err =
    KmKeyNotFound | ErrSealedKey | ErrUnsealFailed | ErrAlreadyInitialized | ErrNotInitialized
  | ErrNotSealed | ErrBackendNotAvailable
  | KmErrorf string
  | KmWrapf string km_err

datatype BackendType = BackendAuto | BackendTPM | BackendSoftware | BackendHSM | BackendOther string

record BackendInfo =
  bi_Type :: BackendType
  bi_Version :: string
  bi_Available :: bool
  bi_Features :: "string list"
  bi_Metadata :: "(string, string) gomap"
  bi_FallbackUsed :: bool

record km_config =
  kc_BackendType :: BackendType
  kc_TPMDevicePath :: string
  kc_SoftwareFallback :: bool

definition DefaultConfig :: km_config where
  "DefaultConfig = \<lparr>kc_BackendType = BackendAuto, kc_TPMDevicePath = [], kc_SoftwareFallback = True\<rparr>"

text \<open>The methods of the interface. Those that draw random bytes change the state.\<close>

record 'k KeyManager =
  im_Initialize :: "'k \<Rightarrow> (km_err, bytes) result \<times> 'k"
  im_Seal :: "'k \<Rightarrow> km_err option \<times> 'k"
  im_Unseal :: "bytes \<Rightarrow> 'k \<Rightarrow> km_err option outcome \<times> 'k"
  im_IsSealed :: "'k \<Rightarrow> bool"
  im_IsInitialized :: "'k \<Rightarrow> bool"
  im_DeriveKey :: "bytes \<Rightarrow> nat \<Rightarrow> 'k \<Rightarrow> (km_err, bytes) result"
  im_WrapKey :: "bytes \<Rightarrow> 'k \<Rightarrow> (km_err, bytes) result \<times> 'k"
  im_UnwrapKey :: "bytes \<Rightarrow> 'k \<Rightarrow> (km_err, bytes) result"
  im_Encrypt :: "bytes \<Rightarrow> 'k \<Rightarrow> (km_err, bytes) result \<times> 'k"
  im_Decrypt :: "bytes \<Rightarrow> 'k \<Rightarrow> (km_err, bytes) result"
  im_GetBackendInfo :: "'k \<Rightarrow> BackendInfo"
  im_Close :: "'k \<Rightarrow> km_err option \<times> 'k"

subsection \<open>The primitives\<close>

text \<open>
  \<open>rand_read n k\<close> is the \<open>n\<close>-th \<open>io.ReadFull\<close> of \<open>k\<close> bytes from the configured reader,
  \<open>hkdf_read secret info k\<close> reads \<open>k\<close> bytes of HKDF-SHA256 without salt, \<open>gcm_seal\<close> and
  \<open>gcm_open\<close> take key, nonce and text; \<open>ecdsa_random n\<close> generates a P-256 key from the reader,
  \<open>ecdsa_seeded secret info\<close> from the HKDF stream. A private key is given by its encoding.
\<close>

record crypto_env =
  rand_read :: "nat \<Rightarrow> nat \<Rightarrow> (string, bytes) result"
  hkdf_read :: "bytes \<Rightarrow> bytes \<Rightarrow> nat \<Rightarrow> (string, bytes) result"
  gcm_seal :: "bytes \<Rightarrow> bytes \<Rightarrow> bytes \<Rightarrow> bytes"
  gcm_open :: "bytes \<Rightarrow> bytes \<Rightarrow> bytes \<Rightarrow> (string, bytes) result"
  ecdsa_random :: "nat \<Rightarrow> (string, bytes) result"
  ecdsa_seeded :: "bytes \<Rightarrow> bytes \<Rightarrow> (string, bytes) result"
  ecdsa_sign :: "nat \<Rightarrow> bytes \<Rightarrow> bytes \<Rightarrow> (string, bytes) result"
  ecdh_agree :: "bytes \<Rightarrow> bytes \<Rightarrow> (string, bytes) result"
  pem_public :: "bytes \<Rightarrow> (string, bytes) result"

definition xor_char :: "char \<Rightarrow> char \<Rightarrow> char" where
  "xor_char a b = char_of (Bit_Operations.xor (of_char a :: nat) (of_char b))"

text \<open>\<open>aes.NewCipher\<close> accepts keys of 16, 24 and 32 bytes; the nonce of GCM has 12.\<close>

definition aes_key_ok :: "bytes \<Rightarrow> bool" where
  "aes_key_ok k \<longleftrightarrow> length k \<in> {16, 24, 32}"

definition masterKeySize :: nat where
  "masterKeySize = 32"

definition nonceSize :: nat where
  "nonceSize = 12"

definition versionByte :: char where
  "versionByte = CHR 0x01"

subsection \<open>software.go\<close>

text \<open>A nil key slice is \<open>None\<close>. \<open>km_draws\<close> counts the reads of the entropy source.\<close>

record softwareKeyManager =
  km_masterKey :: "bytes option"
  km_initialized :: bool
  km_sealed :: bool
  km_wrappingKey :: "bytes option"
  km_encryptionKey :: "bytes option"
  km_identityKey :: "bytes option"
  km_draws :: nat

definition newSoftwareKeyManager :: softwareKeyManager where
  "newSoftwareKeyManager =
     \<lparr>km_masterKey = None, km_initialized = False, km_sealed = True, km_wrappingKey = None,
      km_encryptionKey = None, km_identityKey = None, km_draws = 0\<rparr>"

definition key_bytes :: "bytes option \<Rightarrow> bytes" where
  "key_bytes k = (case k of None \<Rightarrow> [] | Some b \<Rightarrow> b)"

definition read_random :: "crypto_env \<Rightarrow> nat \<Rightarrow> softwareKeyManager \<Rightarrow> (string, bytes) result \<times> softwareKeyManager" where
  "read_random C k km = (rand_read C (km_draws km) k, km\<lparr>km_draws := Suc (km_draws km)\<rparr>)"

definition deriveKeyInternal :: "crypto_env \<Rightarrow> bytes \<Rightarrow> nat \<Rightarrow> softwareKeyManager \<Rightarrow> (km_err, bytes) result" where
  "deriveKeyInternal C context keyLength km =
     (case hkdf_read C (key_bytes (km_masterKey km)) context keyLength of
        Inl e \<Rightarrow> Inl (KmWrapf ''key derivation failed'' (KmErrorf e))
      | Inr derivedKey \<Rightarrow> Inr derivedKey)"

definition deriveSubKeys :: "crypto_env \<Rightarrow> softwareKeyManager \<Rightarrow> km_err option \<times> softwareKeyManager" where
  "deriveSubKeys C km =
     (case deriveKeyInternal C ''key-wrapping'' 32 km of
        Inl e \<Rightarrow> (Some (KmWrapf ''failed to derive wrapping key'' e), km)
      | Inr wrappingKey \<Rightarrow>
          (let km' = km\<lparr>km_wrappingKey := Some wrappingKey\<rparr> in
           case deriveKeyInternal C ''direct-encryption'' 32 km' of
             Inl e \<Rightarrow> (Some (KmWrapf ''failed to derive encryption key'' e), km')
           | Inr encryptionKey \<Rightarrow> (None, km'\<lparr>km_encryptionKey := Some encryptionKey\<rparr>)))"

definition master_key_blob :: "bytes \<Rightarrow> bytes \<Rightarrow> bytes" where
  "master_key_blob sealKey masterKey = versionByte # sealKey @ map2 xor_char masterKey sealKey"

definition sw_Initialize :: "crypto_env \<Rightarrow> softwareKeyManager \<Rightarrow> (km_err, bytes) result \<times> softwareKeyManager" where
  "sw_Initialize C km =
     (if km_initialized km then (Inl ErrAlreadyInitialized, km)
      else case read_random C masterKeySize km of
        (Inl e, km1) \<Rightarrow> (Inl (KmWrapf ''failed to generate master key'' (KmErrorf e)), km1)
      | (Inr masterKey, km1) \<Rightarrow>
          (case read_random C masterKeySize km1 of
             (Inl e, km2) \<Rightarrow> (Inl (KmWrapf ''failed to generate seal key'' (KmErrorf e)), km2)
           | (Inr sealKey, km2) \<Rightarrow>
               (let wrappedBlob = master_key_blob sealKey masterKey;
                    km3 = km2\<lparr>km_masterKey := Some masterKey, km_initialized := True, km_sealed := False\<rparr>
                in case deriveSubKeys C km3 of
                     (Some e, km4) \<Rightarrow> (Inl e, km4)
                   | (None, km4) \<Rightarrow>
                       (let km5 = km4\<lparr>km_draws := Suc (km_draws km4)\<rparr> in
                        case ecdsa_random C (km_draws km4) of
                          Inl e \<Rightarrow> (Inl (KmWrapf ''failed to generate identity key'' (KmErrorf e)), km5)
                        | Inr identityKey \<Rightarrow> (Inr wrappedBlob, km5\<lparr>km_identityKey := Some identityKey\<rparr>)))))"

definition sw_Seal :: "softwareKeyManager \<Rightarrow> km_err option \<times> softwareKeyManager" where
  "sw_Seal km =
     (if \<not> km_initialized km then (Some ErrNotInitialized, km)
      else if km_sealed km then (None, km)
      else (None, km\<lparr>km_masterKey := None, km_identityKey := None, km_wrappingKey := None,
                     km_encryptionKey := None, km_sealed := True\<rparr>))"

text \<open>
  The loop over the wrapped key reads \<open>sealKey[i]\<close> for every index of the rest of the blob:
  beyond the length of the seal key the index is out of range.
\<close>

definition unwrap_master :: "bytes \<Rightarrow> bytes option" where
  "unwrap_master blob =
     (let sealKey = take masterKeySize (drop 1 blob);
          wrappedKey = drop (1 + masterKeySize) blob
      in if length wrappedKey > length sealKey then None else Some (map2 xor_char wrappedKey sealKey))"

definition sw_Unseal :: "crypto_env \<Rightarrow> bytes \<Rightarrow> softwareKeyManager \<Rightarrow> km_err option outcome \<times> softwareKeyManager" where
  "sw_Unseal C masterKeyBlob km0 =
     (let km = (if \<not> km_initialized km0 \<and> masterKeyBlob \<noteq> [] then km0\<lparr>km_initialized := True\<rparr> else km0) in
      if \<not> km_initialized km then (Returns (Some ErrNotInitialized), km)
      else if \<not> km_sealed km then (Returns None, km)
      else if length masterKeyBlob < 1 + masterKeySize * 2
      then (Returns (Some (KmErrorf ''invalid master key blob size'')), km)
      else if hd masterKeyBlob \<noteq> versionByte
      then (Returns (Some (KmErrorf (''unsupported master key blob version: '' @ show_nat (of_char (hd masterKeyBlob))))), km)
      else case unwrap_master masterKeyBlob of
          None \<Rightarrow> (Panics, km)
        | Some masterKey \<Rightarrow>
            (case deriveSubKeys C (km\<lparr>km_masterKey := Some masterKey, km_sealed := False\<rparr>) of
               (Some e, km1) \<Rightarrow> (Returns (Some e), km1)
             | (None, km1) \<Rightarrow>
                 (case ecdsa_seeded C masterKey ''identity-key-seed'' of
                    Inl e \<Rightarrow> (Returns (Some (KmWrapf ''failed to regenerate identity key'' (KmErrorf e))), km1)
                  | Inr identityKey \<Rightarrow> (Returns None, km1\<lparr>km_identityKey := Some identityKey\<rparr>))))"

definition unsealed_guard :: "softwareKeyManager \<Rightarrow> km_err option" where
  "unsealed_guard km =
     (if km_sealed km then Some ErrSealedKey else if \<not> km_initialized km then Some ErrNotInitialized else None)"

definition sw_DeriveKey :: "crypto_env \<Rightarrow> bytes \<Rightarrow> nat \<Rightarrow> softwareKeyManager \<Rightarrow> (km_err, bytes) result" where
  "sw_DeriveKey C context keyLength km =
     (case unsealed_guard km of
        Some e \<Rightarrow> Inl e
      | None \<Rightarrow>
          (case hkdf_read C (key_bytes (km_masterKey km)) context keyLength of
             Inl e \<Rightarrow> Inl (KmWrapf ''key derivation failed'' (KmErrorf e))
           | Inr derivedKey \<Rightarrow> Inr derivedKey))"

definition bad_cipher :: km_err where
  "bad_cipher = KmWrapf ''failed to create cipher'' (KmErrorf ''crypto/aes: invalid key size'')"

definition sw_WrapKey :: "crypto_env \<Rightarrow> bytes \<Rightarrow> softwareKeyManager \<Rightarrow> (km_err, bytes) result \<times> softwareKeyManager" where
  "sw_WrapKey C plainKey km =
     (case unsealed_guard km of
        Some e \<Rightarrow> (Inl e, km)
      | None \<Rightarrow>
          (if \<not> aes_key_ok (key_bytes (km_wrappingKey km)) then (Inl bad_cipher, km)
           else case read_random C nonceSize km of
               (Inl e, km1) \<Rightarrow> (Inl (KmWrapf ''failed to generate nonce'' (KmErrorf e)), km1)
             | (Inr nonce, km1) \<Rightarrow>
                 (Inr (versionByte # nonce @ gcm_seal C (key_bytes (km_wrappingKey km)) nonce plainKey), km1)))"

definition sw_UnwrapKey :: "crypto_env \<Rightarrow> bytes \<Rightarrow> softwareKeyManager \<Rightarrow> (km_err, bytes) result" where
  "sw_UnwrapKey C wrappedKey km =
     (case unsealed_guard km of
        Some e \<Rightarrow> Inl e
      | None \<Rightarrow>
          (if length wrappedKey < 1 + nonceSize then Inl (KmErrorf ''invalid wrapped key size'')
           else if hd wrappedKey \<noteq> versionByte
           then Inl (KmErrorf (''unsupported wrapped key version: '' @ show_nat (of_char (hd wrappedKey))))
           else
             (let nonce = take nonceSize (drop 1 wrappedKey); ciphertext = drop (1 + nonceSize) wrappedKey in
              if \<not> aes_key_ok (key_bytes (km_wrappingKey km)) then Inl bad_cipher
              else case gcm_open C (key_bytes (km_wrappingKey km)) nonce ciphertext of
                  Inl e \<Rightarrow> Inl (KmWrapf ''failed to decrypt key'' (KmErrorf e))
                | Inr plaintext \<Rightarrow> Inr plaintext)))"

text \<open>\<open>binary.BigEndian.PutUint32\<close> of a length, which is truncated to 32 bits.\<close>

definition put_uint32 :: "nat \<Rightarrow> bytes" where
  "put_uint32 n = [char_of (n div 2 ^ 24), char_of (n div 2 ^ 16), char_of (n div 2 ^ 8), char_of n]"

definition sw_Encrypt :: "crypto_env \<Rightarrow> bytes \<Rightarrow> softwareKeyManager \<Rightarrow> (km_err, bytes) result \<times> softwareKeyManager" where
  "sw_Encrypt C plaintext km =
     (case unsealed_guard km of
        Some e \<Rightarrow> (Inl e, km)
      | None \<Rightarrow>
          (if \<not> aes_key_ok (key_bytes (km_encryptionKey km)) then (Inl bad_cipher, km)
           else case read_random C nonceSize km of
               (Inl e, km1) \<Rightarrow> (Inl (KmWrapf ''failed to generate nonce'' (KmErrorf e)), km1)
             | (Inr nonce, km1) \<Rightarrow>
                 (Inr (versionByte # put_uint32 (length plaintext)
                       @ nonce @ gcm_seal C (key_bytes (km_encryptionKey km)) nonce plaintext), km1)))"

definition sw_Decrypt :: "crypto_env \<Rightarrow> bytes \<Rightarrow> softwareKeyManager \<Rightarrow> (km_err, bytes) result" where
  "sw_Decrypt C ciphertext km =
     (case unsealed_guard km of
        Some e \<Rightarrow> Inl e
      | None \<Rightarrow>
          (if length ciphertext < 1 + 4 + nonceSize then Inl (KmErrorf ''invalid ciphertext size'')
           else if hd ciphertext \<noteq> versionByte
           then Inl (KmErrorf (''unsupported ciphertext version: '' @ show_nat (of_char (hd ciphertext))))
           else
             (let nonce = take nonceSize (drop 5 ciphertext); ct = drop (5 + nonceSize) ciphertext in
              if \<not> aes_key_ok (key_bytes (km_encryptionKey km)) then Inl bad_cipher
              else case gcm_open C (key_bytes (km_encryptionKey km)) nonce ct of
                  Inl e \<Rightarrow> Inl (KmWrapf ''failed to decrypt'' (KmErrorf e))
                | Inr plaintext \<Rightarrow> Inr plaintext)))"

definition sw_GetBackendInfo :: "softwareKeyManager \<Rightarrow> BackendInfo" where
  "sw_GetBackendInfo km =
     \<lparr>bi_Type = BackendSoftware, bi_Version = ''1.0'', bi_Available = True,
      bi_Features = [''aes-256-gcm'', ''hkdf-sha256''],
      bi_Metadata = [(''algorithm'', ''AES-256-GCM''), (''kdf'', ''HKDF-SHA256'')], bi_FallbackUsed = True\<rparr>"

definition sw_Close :: "softwareKeyManager \<Rightarrow> km_err option \<times> softwareKeyManager" where
  "sw_Close km = sw_Seal km"

text \<open>The three methods that use the identity key; \<open>sha\<close> is SHA-256.\<close>

definition identity_guard :: "string \<Rightarrow> softwareKeyManager \<Rightarrow> (km_err, bytes) result" where
  "identity_guard missing km =
     (if km_sealed km then Inl ErrSealedKey
      else case km_identityKey km of None \<Rightarrow> Inl (KmErrorf missing) | Some k \<Rightarrow> Inr k)"

definition sw_SignWithIdentityKey ::
  "(bytes \<Rightarrow> bytes) \<Rightarrow> crypto_env \<Rightarrow> bytes \<Rightarrow> softwareKeyManager \<Rightarrow> (km_err, bytes) result \<times> softwareKeyManager" where
  "sw_SignWithIdentityKey sha C data km =
     (case identity_guard ''identity key not available'' km of
        Inl e \<Rightarrow> (Inl e, km)
      | Inr k \<Rightarrow>
          (case ecdsa_sign C (km_draws km) k (sha data) of
             Inl e \<Rightarrow> Inl (KmWrapf ''ECDSA signing failed'' (KmErrorf e))
           | Inr signature \<Rightarrow> Inr signature,
           km\<lparr>km_draws := Suc (km_draws km)\<rparr>))"

definition sw_ECDHAgree :: "crypto_env \<Rightarrow> bytes \<Rightarrow> softwareKeyManager \<Rightarrow> (km_err, bytes) result" where
  "sw_ECDHAgree C peerPublicKey km =
     (case identity_guard ''ECDHAgree: identity key not available'' km of
        Inl e \<Rightarrow> Inl e
      | Inr k \<Rightarrow> (case ecdh_agree C k peerPublicKey of Inl e \<Rightarrow> Inl (KmErrorf e) | Inr s \<Rightarrow> Inr s))"

definition sw_ExportPublicKey :: "crypto_env \<Rightarrow> softwareKeyManager \<Rightarrow> (km_err, bytes) result" where
  "sw_ExportPublicKey C km =
     (case identity_guard ''identity key not available'' km of
        Inl e \<Rightarrow> Inl e
      | Inr k \<Rightarrow> (case pem_public C k of Inl e \<Rightarrow> Inl (KmWrapf ''failed to marshal public key'' (KmErrorf e)) | Inr p \<Rightarrow> Inr p))"

definition software :: "crypto_env \<Rightarrow> softwareKeyManager KeyManager" where
  "software C =
     \<lparr>im_Initialize = sw_Initialize C, im_Seal = sw_Seal, im_Unseal = sw_Unseal C, im_IsSealed = km_sealed,
      im_IsInitialized = km_initialized, im_DeriveKey = sw_DeriveKey C, im_WrapKey = sw_WrapKey C,
      im_UnwrapKey = sw_UnwrapKey C, im_Encrypt = sw_Encrypt C, im_Decrypt = sw_Decrypt C,
      im_GetBackendInfo = sw_GetBackendInfo, im_Close = sw_Close\<rparr>"

subsection \<open>keymanager.go\<close>

text \<open>
  The backend \<open>New\<close> chooses: \<open>linux\<close> is \<open>runtime.GOOS == "linux"\<close>, \<open>tpm_device\<close> whether one of
  the two device files exists, \<open>tpm_err\<close> the error of creating the TPM backend.
\<close>

definition isTPMAvailable :: "(string \<Rightarrow> bool) \<Rightarrow> bool" where
  "isTPMAvailable exists = list_ex exists [''/dev/tpmrm0'', ''/dev/tpm0'']"

definition detectBackend :: "bool \<Rightarrow> (string \<Rightarrow> bool) \<Rightarrow> BackendType" where
  "detectBackend linux exists = (if linux \<and> isTPMAvailable exists then BackendTPM else BackendSoftware)"

fun backend_string :: "BackendType \<Rightarrow> string" where
  "backend_string BackendAuto = []"
| "backend_string BackendTPM = ''tpm2.0''"
| "backend_string BackendSoftware = ''software''"
| "backend_string BackendHSM = ''hsm''"
| "backend_string (BackendOther s) = s"

definition km_New :: "bool \<Rightarrow> (string \<Rightarrow> bool) \<Rightarrow> km_err option \<Rightarrow> km_config option \<Rightarrow> (km_err, BackendType) result" where
  "km_New linux exists tpm_err cfg0 =
     (let cfg = (case cfg0 of None \<Rightarrow> DefaultConfig | Some c \<Rightarrow> c);
          backendType = (if kc_BackendType cfg = BackendAuto then detectBackend linux exists else kc_BackendType cfg)
      in case backendType of
           BackendTPM \<Rightarrow>
             (if \<not> linux
              then (if kc_SoftwareFallback cfg then Inr BackendSoftware
                    else Inl (KmWrapf ''TPM 2.0 only available on Linux'' ErrBackendNotAvailable))
              else case tpm_err of
                  Some e \<Rightarrow> (if kc_SoftwareFallback cfg then Inr BackendSoftware else Inl (KmWrapf ''TPM backend failed'' e))
                | None \<Rightarrow> Inr BackendTPM)
         | BackendSoftware \<Rightarrow> Inr BackendSoftware
         | BackendHSM \<Rightarrow> Inl (KmWrapf ''HSM backend not yet implemented'' ErrBackendNotAvailable)
         | b \<Rightarrow> Inl (KmErrorf (''unknown backend type: '' @ backend_string b)))"

subsection \<open>Sequences of calls\<close>

datatype km_op = KInitialize | KSeal | KUnseal bytes | KWrap bytes | KEncrypt bytes | KClose

fun exec_km_op :: "'k KeyManager \<Rightarrow> km_op \<Rightarrow> 'k \<Rightarrow> 'k" where
  "exec_km_op K KInitialize k = snd (im_Initialize K k)"
| "exec_km_op K KSeal k = snd (im_Seal K k)"
| "exec_km_op K (KUnseal b) k = snd (im_Unseal K b k)"
| "exec_km_op K (KWrap p) k = snd (im_WrapKey K p k)"
| "exec_km_op K (KEncrypt p) k = snd (im_Encrypt K p k)"
| "exec_km_op K KClose k = snd (im_Close K k)"

subsection \<open>The contract\<close>

text \<open>
  What the users of a key manager rely on. \<open>keys\<close> is the key material in memory, \<open>None\<close>
  while sealed; what was encrypted or wrapped with some key material is recovered by any
  manager that holds the same.
\<close>

locale key_manager =
  fixes K :: "'k KeyManager" and ok :: "'k \<Rightarrow> bool" and keys :: "'k \<Rightarrow> 'm option"
  assumes sealed_iff: "ok s \<Longrightarrow> im_IsSealed K s \<longleftrightarrow> keys s = None"
    and unsealed_initialized: "ok s \<Longrightarrow> keys s \<noteq> None \<Longrightarrow> im_IsInitialized K s"
    and ok_op: "ok s \<Longrightarrow> ok (exec_km_op K call s)"
    and Initialize_law: "ok s \<Longrightarrow> im_Initialize K s = (Inr b, s') \<Longrightarrow>
      keys s' \<noteq> None \<and> (\<forall>t. ok t \<longrightarrow> keys t = None \<longrightarrow> (\<exists>t'. im_Unseal K b t = (Returns None, t') \<and> keys t' = keys s'))"
    and Seal_law: "ok s \<Longrightarrow> im_Seal K s = (None, s') \<Longrightarrow> keys s' = None"
    and Seal_unsealed: "ok s \<Longrightarrow> keys s \<noteq> None \<Longrightarrow> fst (im_Seal K s) = None"
    and Unseal_opens: "ok s \<Longrightarrow> im_Unseal K b s = (Returns None, s') \<Longrightarrow> keys s' \<noteq> None"
    and Unseal_unsealed: "ok s \<Longrightarrow> keys s \<noteq> None \<Longrightarrow> im_Unseal K b s = (Returns None, s)"
    and Encrypt_law: "ok s \<Longrightarrow> im_Encrypt K p s = (Inr c, s') \<Longrightarrow> ok t \<Longrightarrow> keys t = keys s \<Longrightarrow> im_Decrypt K c t = Inr p"
    and WrapKey_law: "ok s \<Longrightarrow> im_WrapKey K p s = (Inr c, s') \<Longrightarrow> ok t \<Longrightarrow> keys t = keys s \<Longrightarrow> im_UnwrapKey K c t = Inr p"
    and keeps_keys: "ok s \<Longrightarrow> keys (snd (im_Encrypt K p s)) = keys s" "ok s \<Longrightarrow> keys (snd (im_WrapKey K p s)) = keys s"
    and sealed_refuses: "ok s \<Longrightarrow> keys s = None \<Longrightarrow> im_DeriveKey K x n s = Inl ErrSealedKey"
      "ok s \<Longrightarrow> keys s = None \<Longrightarrow> im_WrapKey K p s = (Inl ErrSealedKey, s)"
      "ok s \<Longrightarrow> keys s = None \<Longrightarrow> im_UnwrapKey K p s = Inl ErrSealedKey"
      "ok s \<Longrightarrow> keys s = None \<Longrightarrow> im_Encrypt K p s = (Inl ErrSealedKey, s)"
      "ok s \<Longrightarrow> keys s = None \<Longrightarrow> im_Decrypt K p s = Inl ErrSealedKey"

sublocale key_manager \<subseteq> calls: machine "exec_km_op K" ok
  by unfold_locales (rule ok_op)

context key_manager
begin

lemma ok_calls:
  assumes "ok s"
  shows "ok (snd (im_Initialize K s))" "ok (snd (im_Seal K s))" "ok (snd (im_Unseal K b s))"
    "ok (snd (im_WrapKey K p s))" "ok (snd (im_Encrypt K p s))" "ok (snd (im_Close K s))"
  using ok_op [OF assms] by (metis exec_km_op.simps)+

text \<open>Whatever was encrypted is decrypted by any manager unsealed with the blob.\<close>

lemma unsealed_elsewhere:
  assumes "ok s0" and "im_Initialize K s0 = (Inr b, s)" and "ok s'" and "keys s' = keys s"
    and "im_Encrypt K p s' = (Inr c, s'')" and "ok t" and "keys t = None"
  shows "\<exists>t'. im_Unseal K b t = (Returns None, t') \<and> im_Decrypt K c t' = Inr p"
proof -
  obtain t' where t': "im_Unseal K b t = (Returns None, t')" "keys t' = keys s"
    using Initialize_law [OF assms(1,2)] assms(6,7) by blast
  have "ok t'" using ok_calls(3) [OF assms(6), of b] t'(1) by simp
  then have "im_Decrypt K c t' = Inr p"
    using Encrypt_law [OF assms(3,5)] t'(2) assms(4) by simp
  with t'(1) show ?thesis by blast
qed

end

subsection \<open>The software backend meets the contract\<close>

definition crypto_ok :: "crypto_env \<Rightarrow> bool" where
  "crypto_ok C \<longleftrightarrow>
     (\<forall>n k b. rand_read C n k = Inr b \<longrightarrow> length b = k)
     \<and> (\<forall>secret info. \<exists>b. hkdf_read C secret info 32 = Inr b \<and> length b = 32)
     \<and> (\<forall>k n p. length k = 32 \<and> length n = 12 \<longrightarrow> gcm_open C k n (gcm_seal C k n p) = Inr p)
     \<and> (\<forall>secret info. \<exists>k. ecdsa_seeded C secret info = Inr k)"

definition sub_key :: "crypto_env \<Rightarrow> bytes \<Rightarrow> bytes \<Rightarrow> bytes option" where
  "sub_key C master info = (case hkdf_read C master info 32 of Inl e \<Rightarrow> None | Inr k \<Rightarrow> Some k)"

text \<open>
  The invariant: a sealed manager holds no key, an unsealed one is initialised and holds a
  master key of 32 bytes with the two keys derived from it.
\<close>

definition sw_inv :: "crypto_env \<Rightarrow> softwareKeyManager \<Rightarrow> bool" where
  "sw_inv C km \<longleftrightarrow>
     (if km_sealed km
      then km_masterKey km = None \<and> km_wrappingKey km = None \<and> km_encryptionKey km = None \<and> km_identityKey km = None
      else km_initialized km
         \<and> (case km_masterKey km of None \<Rightarrow> False
            | Some m \<Rightarrow> length m = 32 \<and> km_wrappingKey km = sub_key C m ''key-wrapping''
                \<and> km_encryptionKey km = sub_key C m ''direct-encryption''))"

definition sw_keys :: "softwareKeyManager \<Rightarrow> bytes option" where
  "sw_keys km = (if km_sealed km then None else km_masterKey km)"

subsection \<open>Lemmas: the software backend\<close>

lemma xor_char_cancel [simp]: "xor_char (xor_char a b) b = a"
proof -
  have x: "Bit_Operations.xor (of_char a :: nat) (of_char b) mod 256 = Bit_Operations.xor (of_char a) (of_char b)"
    using take_bit_xor [of 8 "of_char a :: nat" "of_char b"]
    by (simp add: take_bit_eq_mod)
  show ?thesis by (simp add: xor_char_def x xor.assoc)
qed

lemma map2_xor_cancel: "length m = length k \<Longrightarrow> map2 xor_char (map2 xor_char m k) k = m"
  by (induction m k rule: list_induct2) auto

lemma unwrap_master_blob:
  "length m = 32 \<Longrightarrow> length k = 32 \<Longrightarrow> unwrap_master (master_key_blob k m) = Some m"
  by (simp add: unwrap_master_def master_key_blob_def masterKeySize_def map2_xor_cancel)

lemma sub_key_ok:
  assumes "crypto_ok C"
  obtains k where "sub_key C m info = Some k" and "length k = 32" and "hkdf_read C m info 32 = Inr k"
  using assms unfolding crypto_ok_def sub_key_def by (metis sum.simps(6))

lemma deriveSubKeys_ok:
  assumes "crypto_ok C" and "km_masterKey km = Some m"
  shows "deriveSubKeys C km = (None, km\<lparr>km_wrappingKey := sub_key C m ''key-wrapping'',
           km_encryptionKey := sub_key C m ''direct-encryption''\<rparr>)"
proof -
  obtain w where w: "sub_key C m ''key-wrapping'' = Some w" "hkdf_read C m ''key-wrapping'' 32 = Inr w"
    using sub_key_ok [OF assms(1)] by metis
  obtain e where e: "sub_key C m ''direct-encryption'' = Some e" "hkdf_read C m ''direct-encryption'' 32 = Inr e"
    using sub_key_ok [OF assms(1)] by metis
  show ?thesis using w e assms(2) by (simp add: deriveSubKeys_def deriveKeyInternal_def key_bytes_def Let_def)
qed

lemma sw_guard:
  "sw_inv C km \<Longrightarrow> unsealed_guard km = (if sw_keys km = None then Some ErrSealedKey else None)"
  by (auto simp: unsealed_guard_def sw_inv_def sw_keys_def split: if_splits option.splits)

text \<open>The derived keys are a function of the master key.\<close>

lemma sw_inv_keys:
  assumes "crypto_ok C" and "sw_inv C km" and "sw_keys km = Some m"
  obtains w e where "sub_key C m ''key-wrapping'' = Some w" and "length w = 32" and "km_wrappingKey km = Some w"
    and "sub_key C m ''direct-encryption'' = Some e" and "length e = 32" and "km_encryptionKey km = Some e"
proof -
  obtain w where w: "sub_key C m ''key-wrapping'' = Some w" "length w = 32" by (rule sub_key_ok [OF assms(1)])
  obtain e where e: "sub_key C m ''direct-encryption'' = Some e" "length e = 32" by (rule sub_key_ok [OF assms(1)])
  have "km_wrappingKey km = Some w" "km_encryptionKey km = Some e"
    using assms(2,3) w(1) e(1) by (auto simp: sw_inv_def sw_keys_def split: if_splits)
  with w e show thesis by (intro that)
qed

lemma sw_Initialize_cases:
  assumes "crypto_ok C" and "sw_inv C km" and "sw_Initialize C km = (r, km')"
  obtains (initialized) "km_initialized km" and "r = Inl ErrAlreadyInitialized" and "km' = km"
  | (no_entropy) e where "r = Inl e" and "km' = km\<lparr>km_draws := km_draws km'\<rparr>"
  | (keyed) m sk where "length m = 32" and "length sk = 32" and "\<not> km_initialized km" and "sw_inv C km'" and "sw_keys km' = Some m"
      and "r = Inr (master_key_blob sk m) \<or> isl r"
proof -
  consider "km_initialized km"
    | e where "\<not> km_initialized km" "rand_read C (km_draws km) 32 = Inl e"
    | m e where "\<not> km_initialized km" "rand_read C (km_draws km) 32 = Inr m" "rand_read C (Suc (km_draws km)) 32 = Inl e"
    | m sk where "\<not> km_initialized km" "rand_read C (km_draws km) 32 = Inr m" "rand_read C (Suc (km_draws km)) 32 = Inr sk"
    by (metis sum.exhaust)
  then show thesis
  proof cases
    case 1
    with assms(3) show thesis by (intro initialized) (simp_all add: sw_Initialize_def)
  next
    case 2
    with assms(3) show thesis
      by (intro no_entropy [of "KmWrapf ''failed to generate master key'' (KmErrorf e)"])
         (auto simp: sw_Initialize_def read_random_def masterKeySize_def)
  next
    case 3
    with assms(3) show thesis
      by (intro no_entropy [of "KmWrapf ''failed to generate seal key'' (KmErrorf e)"])
         (auto simp: sw_Initialize_def read_random_def masterKeySize_def)
  next
    case 4
    have len: "length m = 32" "length sk = 32"
      using assms(1) 4(2,3) unfolding crypto_ok_def by blast+
    let ?k = "km\<lparr>km_draws := Suc (Suc (km_draws km)), km_masterKey := Some m, km_initialized := True, km_sealed := False\<rparr>"
    have "deriveSubKeys C ?k = (None, ?k\<lparr>km_wrappingKey := sub_key C m ''key-wrapping'',
           km_encryptionKey := sub_key C m ''direct-encryption''\<rparr>)"
      using assms(1) by (rule deriveSubKeys_ok) simp
    with assms(3) 4 len show thesis
      by (intro keyed [of m sk])
         (auto simp: sw_Initialize_def read_random_def masterKeySize_def Let_def sw_inv_def sw_keys_def split: sum.splits)
  qed
qed

lemma sw_Unseal_blob:
  assumes "crypto_ok C" and "km_sealed km" and "length b = 65" and "hd b = versionByte" and "unwrap_master b = Some m"
  obtains i where "sw_Unseal C b km = (Returns None, km\<lparr>km_initialized := True, km_masterKey := Some m, km_sealed := False,
      km_wrappingKey := sub_key C m ''key-wrapping'', km_encryptionKey := sub_key C m ''direct-encryption'', km_identityKey := Some i\<rparr>)"
proof -
  let ?k = "km\<lparr>km_initialized := True, km_masterKey := Some m, km_sealed := False\<rparr>"
  have d: "deriveSubKeys C ?k = (None, ?k\<lparr>km_wrappingKey := sub_key C m ''key-wrapping'',
         km_encryptionKey := sub_key C m ''direct-encryption''\<rparr>)"
    using assms(1) by (rule deriveSubKeys_ok) simp
  obtain i where i: "ecdsa_seeded C m ''identity-key-seed'' = Inr i" using assms(1) unfolding crypto_ok_def by blast
  have "(if \<not> km_initialized km \<and> b \<noteq> [] then km\<lparr>km_initialized := True\<rparr> else km) = km\<lparr>km_initialized := True\<rparr>"
    using assms(3) by auto
  then show thesis
    using that assms(2-5) d i by (simp add: sw_Unseal_def masterKeySize_def)
qed

lemma sw_Unseal_cases:
  assumes "crypto_ok C" and "sw_inv C km" and "sw_Unseal C b km = (r, km')"
  obtains (was_open) "sw_keys km \<noteq> None" and "r = Returns None" and "km' = km"
  | (refused) "sw_keys km = None" and "r \<noteq> Returns None" and "sw_inv C km'" and "sw_keys km' = None"
  | (opened) m where "sw_keys km = None" and "r = Returns None" and "length b = 65" and "hd b = versionByte"
      and "unwrap_master b = Some m" and "sw_inv C km'" and "sw_keys km' = Some m"
proof (cases "sw_keys km")
  case (Some m)
  with assms(2,3) show thesis by (intro was_open) (auto simp: sw_Unseal_def sw_inv_def sw_keys_def Let_def split: if_splits)
next
  case None
  have sealed: "km_sealed km" using None assms(2) by (auto simp: sw_keys_def sw_inv_def split: if_splits option.splits)
  show thesis
  proof (cases "length b = 65 \<and> hd b = versionByte")
    case True
    then obtain m where m: "unwrap_master b = Some m" "length m = 32"
      by (auto simp: unwrap_master_def masterKeySize_def Let_def)
    obtain i where "sw_Unseal C b km = (Returns None, km\<lparr>km_initialized := True, km_masterKey := Some m, km_sealed := False,
      km_wrappingKey := sub_key C m ''key-wrapping'', km_encryptionKey := sub_key C m ''direct-encryption'', km_identityKey := Some i\<rparr>)"
      using sw_Unseal_blob [OF assms(1) sealed] True m(1) by blast
    with True m None assms(3) show thesis
      by (intro opened [of m]) (auto simp: sw_inv_def sw_keys_def)
  next
    case False
    have "length b > 65 \<Longrightarrow> unwrap_master b = None"
      by (auto simp: unwrap_master_def masterKeySize_def Let_def)
    with False None assms(2,3) sealed show thesis
      by (intro refused) (auto simp: sw_Unseal_def Let_def masterKeySize_def sw_inv_def sw_keys_def split: if_splits)
  qed
qed

lemma sw_inv_draws [simp]: "sw_inv C (km\<lparr>km_draws := n\<rparr>) = sw_inv C km" "sw_keys (km\<lparr>km_draws := n\<rparr>) = sw_keys km"
  by (auto simp: sw_inv_def sw_keys_def split: option.split)

lemma sw_draw_inv:
  "sw_inv C km \<Longrightarrow> sw_inv C (snd (sw_WrapKey C p km))" "sw_inv C km \<Longrightarrow> sw_inv C (snd (sw_Encrypt C p km))"
  "sw_keys (snd (sw_WrapKey C p km)) = sw_keys km" "sw_keys (snd (sw_Encrypt C p km)) = sw_keys km"
  by (auto simp: sw_WrapKey_def sw_Encrypt_def read_random_def split: option.splits sum.splits)

lemma sw_Encrypt_law:
  assumes "crypto_ok C" and "sw_inv C s" and "sw_Encrypt C p s = (Inr c, s')" and "sw_inv C t" and "sw_keys t = sw_keys s"
  shows "sw_Decrypt C c t = Inr p"
proof -
  obtain m where m: "sw_keys s = Some m"
    using assms(3) sw_guard [OF assms(2)] by (cases "sw_keys s") (auto simp: sw_Encrypt_def)
  obtain e where e: "km_encryptionKey s = Some e" "length e = 32" "sub_key C m ''direct-encryption'' = Some e"
    using sw_inv_keys [OF assms(1,2) m] by metis
  have t: "km_encryptionKey t = Some e"
    using sw_inv_keys [OF assms(1,4) assms(5) [unfolded m]] e(3) by (metis option.inject)
  obtain nonce where n: "rand_read C (km_draws s) 12 = Inr nonce"
      "c = versionByte # put_uint32 (length p) @ nonce @ gcm_seal C e nonce p"
    using assms(3) e sw_guard [OF assms(2)] m
    by (auto simp: sw_Encrypt_def read_random_def nonceSize_def key_bytes_def aes_key_ok_def split: sum.splits)
  have "length nonce = 12" using assms(1) n(1) unfolding crypto_ok_def by blast
  moreover from this have "gcm_open C e nonce (gcm_seal C e nonce p) = Inr p"
    using assms(1) e(2) unfolding crypto_ok_def by blast
  ultimately show ?thesis
    using t e(2) n(2) sw_guard [OF assms(4)] m assms(5)
    by (simp add: sw_Decrypt_def nonceSize_def put_uint32_def key_bytes_def aes_key_ok_def)
qed

lemma sw_WrapKey_law:
  assumes "crypto_ok C" and "sw_inv C s" and "sw_WrapKey C p s = (Inr c, s')" and "sw_inv C t" and "sw_keys t = sw_keys s"
  shows "sw_UnwrapKey C c t = Inr p"
proof -
  obtain m where m: "sw_keys s = Some m"
    using assms(3) sw_guard [OF assms(2)] by (cases "sw_keys s") (auto simp: sw_WrapKey_def)
  obtain w where w: "km_wrappingKey s = Some w" "length w = 32" "sub_key C m ''key-wrapping'' = Some w"
    using sw_inv_keys [OF assms(1,2) m] by metis
  have t: "km_wrappingKey t = Some w"
    using sw_inv_keys [OF assms(1,4) assms(5) [unfolded m]] w(3) by (metis option.inject)
  obtain nonce where n: "rand_read C (km_draws s) 12 = Inr nonce" "c = versionByte # nonce @ gcm_seal C w nonce p"
    using assms(3) w sw_guard [OF assms(2)] m
    by (auto simp: sw_WrapKey_def read_random_def nonceSize_def key_bytes_def aes_key_ok_def split: sum.splits)
  have "length nonce = 12" using assms(1) n(1) unfolding crypto_ok_def by blast
  moreover from this have "gcm_open C w nonce (gcm_seal C w nonce p) = Inr p"
    using assms(1) w(2) unfolding crypto_ok_def by blast
  ultimately show ?thesis
    using t w(2) n(2) sw_guard [OF assms(4)] m assms(5)
    by (simp add: sw_UnwrapKey_def nonceSize_def key_bytes_def aes_key_ok_def)
qed

lemma sw_Seal_inv:
  "sw_inv C km \<Longrightarrow> sw_inv C (snd (sw_Seal km))"
  "sw_inv C km \<Longrightarrow> sw_Seal km = (None, km') \<Longrightarrow> sw_keys km' = None"
  by (auto simp: sw_Seal_def sw_inv_def sw_keys_def split: if_splits)

lemma sw_op_inv:
  assumes "crypto_ok C" and "sw_inv C km"
  shows "sw_inv C (exec_km_op (software C) call km)"
proof (cases call)
  case KInitialize
  obtain r km' where rk: "sw_Initialize C km = (r, km')" by fastforce
  have "sw_inv C km'"
    using assms rk
  proof (cases rule: sw_Initialize_cases)
    case (no_entropy e)
    with assms(2) show ?thesis by (metis sw_inv_draws(1))
  qed (use assms(2) in auto)
  with KInitialize rk show ?thesis by (simp add: software_def)
next
  case (KUnseal b)
  obtain r km' where rk: "sw_Unseal C b km = (r, km')" by fastforce
  have "sw_inv C km'" using assms rk by (cases rule: sw_Unseal_cases) (use assms(2) in auto)
  with KUnseal rk show ?thesis by (simp add: software_def)
qed (use assms in \<open>simp_all add: software_def sw_Close_def sw_Seal_inv sw_draw_inv\<close>)

interpretation sw: key_manager "software C" "\<lambda>km. crypto_ok C \<and> sw_inv C km" sw_keys
proof unfold_locales
  fix s call b s'
  assume s: "crypto_ok C \<and> sw_inv C s"
  show "im_IsSealed (software C) s \<longleftrightarrow> sw_keys s = None"
    using s by (auto simp: software_def sw_keys_def sw_inv_def split: if_splits option.splits)
  show "sw_keys s \<noteq> None \<Longrightarrow> im_IsInitialized (software C) s"
    using s by (auto simp: software_def sw_keys_def sw_inv_def split: if_splits option.splits)
  show "crypto_ok C \<and> sw_inv C (exec_km_op (software C) call s)" using s sw_op_inv by blast
  show "im_Seal (software C) s = (None, s') \<Longrightarrow> sw_keys s' = None"
    using s sw_Seal_inv(2) by (auto simp: software_def)
  show "sw_keys s \<noteq> None \<Longrightarrow> fst (im_Seal (software C) s) = None"
    using s by (auto simp: software_def sw_Seal_def sw_keys_def sw_inv_def split: if_splits)
  show "sw_keys s' \<noteq> None" if "im_Unseal (software C) b s = (Returns None, s')"
  proof -
    have "sw_Unseal C b s = (Returns None, s')" using that by (simp add: software_def)
    with s show ?thesis by (elim conjE) (erule (2) sw_Unseal_cases, auto)
  qed
  show "sw_keys s \<noteq> None \<Longrightarrow> im_Unseal (software C) b s = (Returns None, s)"
    using s by (auto simp: software_def sw_Unseal_def sw_keys_def sw_inv_def Let_def split: if_splits)
  assume ini: "im_Initialize (software C) s = (Inr b, s')"
  then have "sw_Initialize C s = (Inr b, s')" by (simp add: software_def)
  with s obtain m sk where m: "length m = 32" "length sk = 32" "sw_keys s' = Some m" "b = master_key_blob sk m"
    by (elim conjE) (erule (2) sw_Initialize_cases, auto)
  show "sw_keys s' \<noteq> None \<and> (\<forall>t. crypto_ok C \<and> sw_inv C t \<longrightarrow> sw_keys t = None \<longrightarrow>
      (\<exists>t'. im_Unseal (software C) b t = (Returns None, t') \<and> sw_keys t' = sw_keys s'))"
  proof (intro conjI allI impI)
    fix t assume t: "crypto_ok C \<and> sw_inv C t" "sw_keys t = None"
    obtain r t' where rt: "sw_Unseal C b t = (r, t')" by fastforce
    have b: "length b = 65" "hd b = versionByte" "unwrap_master b = Some m" "b \<noteq> []"
      using m unwrap_master_blob by (auto simp: master_key_blob_def)
    have sealed: "km_sealed t" using t by (auto simp: sw_keys_def sw_inv_def split: if_splits option.splits)
    obtain i where "sw_Unseal C b t = (Returns None, t\<lparr>km_initialized := True, km_masterKey := Some m, km_sealed := False,
      km_wrappingKey := sub_key C m ''key-wrapping'', km_encryptionKey := sub_key C m ''direct-encryption'', km_identityKey := Some i\<rparr>)"
      using sw_Unseal_blob [OF _ sealed b(1-3)] s by blast
    with rt have "r = Returns None" and "sw_keys t' = Some m" by (auto simp: sw_keys_def)
    with rt m(3) show "\<exists>t'. im_Unseal (software C) b t = (Returns None, t') \<and> sw_keys t' = sw_keys s'"
      by (simp add: software_def)
  qed (use m(3) in simp)
next
  fix s p c s' t
  assume "crypto_ok C \<and> sw_inv C s" and "crypto_ok C \<and> sw_inv C t" and "sw_keys t = sw_keys s"
  then show "im_Encrypt (software C) p s = (Inr c, s') \<Longrightarrow> im_Decrypt (software C) c t = Inr p"
    and "im_WrapKey (software C) p s = (Inr c, s') \<Longrightarrow> im_UnwrapKey (software C) c t = Inr p"
    using sw_Encrypt_law sw_WrapKey_law by (simp_all add: software_def)
next
  fix s p
  assume s: "crypto_ok C \<and> sw_inv C s"
  show "sw_keys (snd (im_Encrypt (software C) p s)) = sw_keys s" "sw_keys (snd (im_WrapKey (software C) p s)) = sw_keys s"
    by (simp_all add: software_def sw_draw_inv)
next
  fix s x n p
  assume "crypto_ok C \<and> sw_inv C s" and "sw_keys s = None"
  then have "unsealed_guard s = Some ErrSealedKey" using sw_guard [of C s] by simp
  then show "im_DeriveKey (software C) x n s = Inl ErrSealedKey" "im_WrapKey (software C) p s = (Inl ErrSealedKey, s)"
    "im_UnwrapKey (software C) p s = Inl ErrSealedKey" "im_Encrypt (software C) p s = (Inl ErrSealedKey, s)"
    "im_Decrypt (software C) p s = Inl ErrSealedKey"
    by (simp_all add: software_def sw_DeriveKey_def sw_WrapKey_def sw_UnwrapKey_def sw_Encrypt_def sw_Decrypt_def)
qed

subsection \<open>A concrete environment, for the witnesses\<close>

definition demo_crypto :: crypto_env where
  "demo_crypto =
     \<lparr>rand_read = (\<lambda>n k. Inr (replicate k (if n = 0 then CHR 0x00 else CHR 0x01))), hkdf_read = (\<lambda>s i k. Inr (take k (i @ s @ replicate k CHR 0x00))),
      gcm_seal = (\<lambda>k n p. n @ rev p), gcm_open = (\<lambda>k n c. if take 12 c = n then Inr (rev (drop 12 c)) else Inl ''open''),
      ecdsa_random = (\<lambda>n. Inr ''random''), ecdsa_seeded = (\<lambda>s i. Inr (i @ s)), ecdsa_sign = (\<lambda>n k h. Inr (k @ h)),
      ecdh_agree = (\<lambda>k p. Inr (k @ p)), pem_public = (\<lambda>k. Inr k)\<rparr>"

lemma demo_crypto_ok [simp]: "crypto_ok demo_crypto"
  by (auto simp: crypto_ok_def demo_crypto_def)

lemma sw_inv_new [simp]: "sw_inv C newSoftwareKeyManager" "sw_keys newSoftwareKeyManager = None"
  by (simp_all add: sw_inv_def sw_keys_def newSoftwareKeyManager_def)

definition demo_km :: softwareKeyManager where
  "demo_km = snd (sw_Initialize demo_crypto newSoftwareKeyManager)"

definition demo_blob :: bytes where
  "demo_blob = master_key_blob (replicate 32 CHR 0x01) (replicate 32 CHR 0x00)"

lemma demo_Initialize: "sw_Initialize demo_crypto newSoftwareKeyManager = (Inr demo_blob, demo_km)"
  by (simp add: demo_km_def demo_blob_def sw_Initialize_def newSoftwareKeyManager_def demo_crypto_def read_random_def
      masterKeySize_def deriveSubKeys_def deriveKeyInternal_def key_bytes_def)

lemma demo_km_fields [simp]:
  "km_masterKey demo_km = Some (replicate 32 CHR 0x00)" "km_initialized demo_km" "\<not> km_sealed demo_km"
  "km_wrappingKey demo_km = sub_key demo_crypto (replicate 32 CHR 0x00) ''key-wrapping''"
  "km_encryptionKey demo_km = sub_key demo_crypto (replicate 32 CHR 0x00) ''direct-encryption''"
  by (simp_all add: demo_km_def sw_Initialize_def newSoftwareKeyManager_def demo_crypto_def read_random_def
      masterKeySize_def deriveSubKeys_def deriveKeyInternal_def key_bytes_def sub_key_def)

lemma demo_km_inv [simp]: "sw_inv demo_crypto demo_km" "sw_keys demo_km = Some (replicate 32 CHR 0x00)"
proof -
  show "sw_inv demo_crypto demo_km"
    using sw_op_inv [of demo_crypto newSoftwareKeyManager KInitialize] by (simp add: software_def demo_km_def)
  show "sw_keys demo_km = Some (replicate 32 CHR 0x00)" by (simp add: sw_keys_def)
qed

subsection \<open>Properties\<close>



text \<open>
  What one node encrypts or wraps after initialising its key manager, any node whose
  manager is sealed recovers after unsealing it with the blob that \<open>Initialize\<close> returned;
  whatever calls were made on the first one in between, as long as it still holds the key.
\<close>

theorem software_unseal_roundtrip:
  assumes "crypto_ok C" and "sw_inv C km0" and "sw_Initialize C km0 = (Inr blob, km)"
    and "sw_inv C km1" and "sw_keys km1 = sw_keys km"
    and "sw_Encrypt C p km1 = (Inr c, km2)" and "sw_WrapKey C dek km1 = (Inr w, km3)"
    and "sw_inv C other" and "sw_keys other = None"
  shows "\<exists>other'. sw_Unseal C blob other = (Returns None, other')
           \<and> sw_Decrypt C c other' = Inr p \<and> sw_UnwrapKey C w other' = Inr dek"
proof -
  have ini: "im_Initialize (software C) km0 = (Inr blob, km)" using assms(3) by (simp add: software_def)
  obtain t where t: "im_Unseal (software C) blob other = (Returns None, t)" "sw_keys t = sw_keys km"
    using sw.Initialize_law [OF _ ini] assms(1,2,8,9) by blast
  have "crypto_ok C \<and> sw_inv C t" using sw.ok_calls(3) [of C other blob] t(1) assms(1,8) by simp
  then have "sw_Decrypt C c t = Inr p" "sw_UnwrapKey C w t = Inr dek"
    using sw_Encrypt_law [OF assms(1,4,6)] sw_WrapKey_law [OF assms(1,4,7)] t(2) assms(5) by auto
  with t(1) show ?thesis by (auto simp: software_def)
qed

theorem software_unseal_roundtrip_witness:
  "\<exists>c w. fst (sw_Encrypt demo_crypto ''secret'' demo_km) = Inr c \<and> fst (sw_WrapKey demo_crypto ''dek'' demo_km) = Inr w
     \<and> (\<exists>other'. sw_Unseal demo_crypto demo_blob newSoftwareKeyManager = (Returns None, other')
          \<and> sw_Decrypt demo_crypto c other' = Inr ''secret'' \<and> sw_UnwrapKey demo_crypto w other' = Inr ''dek'')"
proof -
  have "\<not> isl (fst (sw_Encrypt demo_crypto ''secret'' demo_km)) \<and> \<not> isl (fst (sw_WrapKey demo_crypto ''dek'' demo_km))"
    by (simp add: sw_Encrypt_def sw_WrapKey_def unsealed_guard_def read_random_def sub_key_def key_bytes_def
        aes_key_ok_def demo_crypto_def)
  then obtain c w where c: "fst (sw_Encrypt demo_crypto ''secret'' demo_km) = Inr c" "fst (sw_WrapKey demo_crypto ''dek'' demo_km) = Inr w"
    by (metis sum.collapse(2))
  then have "\<exists>other'. sw_Unseal demo_crypto demo_blob newSoftwareKeyManager = (Returns None, other')
          \<and> sw_Decrypt demo_crypto c other' = Inr ''secret'' \<and> sw_UnwrapKey demo_crypto w other' = Inr ''dek''"
    by (intro software_unseal_roundtrip [OF demo_crypto_ok sw_inv_new(1) demo_Initialize demo_km_inv(1) refl])
       (simp_all add: prod_eq_iff)
  with c show ?thesis by blast
qed

text \<open>
  The blob that \<open>Initialize\<close> returns for storage protects nothing: the master key is the
  exclusive or of its two halves, which whoever reads the blob can compute without any
  secret.
\<close>

theorem blob_reveals_master_key:
  assumes "crypto_ok C" and "sw_inv C km" and "sw_Initialize C km = (Inr blob, km')"
  shows "km_masterKey km' = Some (map2 xor_char (drop 33 blob) (take 32 (drop 1 blob)))"
proof -
  obtain m sk where m: "length m = 32" "length sk = 32" "sw_keys km' = Some m" "blob = master_key_blob sk m"
    using assms by (cases rule: sw_Initialize_cases) auto
  then show ?thesis
    by (auto simp: master_key_blob_def map2_xor_cancel sw_keys_def split: if_splits)
qed

theorem blob_reveals_master_key_witness:
  "km_masterKey demo_km = Some (map2 xor_char (drop 33 demo_blob) (take 32 (drop 1 demo_blob)))"
  by (rule blob_reveals_master_key [OF demo_crypto_ok sw_inv_new(1) demo_Initialize])

text \<open>
  The answer of \<open>Unseal\<close> to every blob, on a sealed manager that is initialised: exactly
  the blobs of 65 bytes with the right version unseal it, a shorter blob or another version
  is refused with an error, and a longer one with the right version is an index out of range.
\<close>

theorem unseal_accepts:
  assumes "crypto_ok C" and "sw_inv C km" and "km_sealed km" and "blob \<noteq> []" and "sw_Unseal C blob km = (r, km')"
  shows "(r = Returns None) = (length blob = 65 \<and> hd blob = versionByte)
       \<and> (r = Panics) = (length blob > 65 \<and> hd blob = versionByte)
       \<and> (r \<noteq> Returns None \<longrightarrow> km_sealed km' \<and> sw_inv C km') \<and> r \<noteq> Blocks \<and> km_initialized km'"
proof -
  let ?k = "km\<lparr>km_initialized := True\<rparr>"
  have ini: "(if \<not> km_initialized km \<and> blob \<noteq> [] then ?k else km) = ?k"
    using assms(4) by auto
  have inv: "sw_inv C ?k" using assms(2,3) by (simp add: sw_inv_def)
  consider "length blob < 65" | "length blob \<ge> 65" "hd blob \<noteq> versionByte"
    | "length blob > 65" "hd blob = versionByte" | "length blob = 65" "hd blob = versionByte" by linarith
  then show ?thesis
  proof cases
    case 3
    then have "unwrap_master blob = None" by (simp add: unwrap_master_def masterKeySize_def Let_def)
    with 3 assms(3,5) inv show ?thesis unfolding sw_Unseal_def ini by (auto simp: masterKeySize_def)
  next
    case 4
    then obtain m where "unwrap_master blob = Some m" by (auto simp: unwrap_master_def masterKeySize_def Let_def)
    with 4 assms(5) show ?thesis using sw_Unseal_blob [OF assms(1,3) 4] by fastforce
  qed (use assms(3,5) inv in \<open>unfold sw_Unseal_def ini, auto simp: masterKeySize_def\<close>)
qed

theorem unseal_accepts_witness:
  "fst (sw_Unseal demo_crypto (demo_blob @ ''x'') newSoftwareKeyManager) = Panics
   \<and> fst (sw_Unseal demo_crypto demo_blob newSoftwareKeyManager) = Returns None"
proof -
  have b: "demo_blob \<noteq> []" "length demo_blob = 65" "hd demo_blob = versionByte" "hd (demo_blob @ ''x'') = versionByte"
    by (simp_all add: demo_blob_def master_key_blob_def)
  have "km_sealed newSoftwareKeyManager" by (simp add: newSoftwareKeyManager_def)
  note u = unseal_accepts [OF demo_crypto_ok sw_inv_new(1) this _ prod.collapse [symmetric]]
  from u [OF b(1)] u [of "demo_blob @ ''x''"] b show ?thesis by simp
qed

text \<open>
  The identity key of a node does not survive a restart: \<open>Initialize\<close> draws it from the
  entropy source, \<open>Unseal\<close> derives it from the master key. Unless the two happen to coincide,
  the public key the node exports afterwards is another one.
\<close>

theorem identity_key_changes_on_unseal:
  assumes "crypto_ok C" and "sw_inv C km0" and "sw_Initialize C km0 = (Inr blob, km)" and "km_masterKey km = Some m"
    and "sw_Seal km = (None, km1)" and "sw_Unseal C blob km1 = (Returns None, km2)"
    and "ecdsa_seeded C m ''identity-key-seed'' = Inr seeded" and "ecdsa_random C (km_draws km0 + 2) = Inr drawn"
    and "pem_public C drawn = Inr p" and "pem_public C seeded = Inr q" and "p \<noteq> q"
  shows "sw_ExportPublicKey C km = Inr p \<and> sw_ExportPublicKey C km2 = Inr q"
proof -
  obtain m' sk where m': "length m' = 32" "length sk = 32" "sw_inv C km" "sw_keys km = Some m'" "blob = master_key_blob sk m'"
    using assms(1-3) by (cases rule: sw_Initialize_cases) auto
  then have m: "m' = m" using assms(4) by (simp add: sw_keys_def split: if_splits)
  have drawn: "km_identityKey km = Some drawn" "km_initialized km" "\<not> km_sealed km"
    using assms(3,8) by (auto simp: sw_Initialize_def read_random_def Let_def deriveSubKeys_def split: if_splits sum.splits)
  have km1: "km_sealed km1" using assms(5) drawn by (auto simp: sw_Seal_def)
  have b: "length blob = 65" "hd blob = versionByte" "unwrap_master blob = Some m"
    using m' m unwrap_master_blob by (auto simp: master_key_blob_def)
  have "km_identityKey km2 = Some seeded"
    using assms(6,7) b km1
    by (auto simp: sw_Unseal_def Let_def masterKeySize_def split: if_splits prod.splits option.splits sum.splits)
  moreover have "\<not> km_sealed km2" using sw_Unseal_blob [OF assms(1) km1 b] assms(6) by fastforce
  ultimately show ?thesis using drawn assms(9,10) by (simp add: sw_ExportPublicKey_def identity_guard_def)
qed

theorem identity_key_changes_on_unseal_witness:
  "(let km1 = snd (sw_Seal demo_km); km2 = snd (sw_Unseal demo_crypto demo_blob km1) in
      sw_ExportPublicKey demo_crypto demo_km = Inr ''random''
      \<and> sw_ExportPublicKey demo_crypto km2 = Inr (''identity-key-seed'' @ replicate 32 CHR 0x00))"
proof -
  let ?km1 = "snd (sw_Seal demo_km)"
  have s: "sw_Seal demo_km = (None, ?km1)" "km_sealed ?km1" by (simp_all add: sw_Seal_def)
  have b: "length demo_blob = 65" "hd demo_blob = versionByte" by (simp_all add: demo_blob_def master_key_blob_def)
  have m: "unwrap_master demo_blob = Some (replicate 32 CHR 0x00)" unfolding demo_blob_def by (rule unwrap_master_blob) simp_all
  have u: "sw_Unseal demo_crypto demo_blob ?km1 = (Returns None, snd (sw_Unseal demo_crypto demo_blob ?km1))"
    by (rule sw_Unseal_blob [OF demo_crypto_ok s(2) b m]) simp
  show ?thesis
    using identity_key_changes_on_unseal [OF demo_crypto_ok sw_inv_new(1) demo_Initialize demo_km_fields(1) s(1) u]
    by (simp add: demo_crypto_def Let_def newSoftwareKeyManager_def)
qed

end
