(* ===== verification/Go_Json.thy ===== *)
theory Go_Json
  imports Prelude "HOL-Library.List_Lexorder" "HOL-Library.Char_ord"
begin

text \<open>
  What the components use of \<open>encoding/json\<close>, \<open>encoding/base64\<close> and \<open>path\<close> of the Go
  standard library: JSON trees, their text and a parser for the whole grammar, with the round
  trip; the base64 text of a byte slice; \<open>path.Clean\<close> and \<open>path.Join\<close>.

  A number is kept as its literal. Text is UTF-8; \<open>json.Marshal\<close> also escapes U+2028 and
  U+2029 and replaces invalid UTF-8, which \<open>json_string\<close> does not: strings here are valid
  UTF-8 without those two characters.
\<close>

declare map_of_eq_Some_iff [simp del]

subsection \<open>JSON trees and their text\<close>

datatype json =
    Jnull | Jbool bool | Jnum string | Jstr string | Jarr "json list" | Jobj "(string \<times> json) list"

fun json_text :: "json \<Rightarrow> string" where
  "json_text Jnull = ''null''"
| "json_text (Jbool b) = (if b then ''true'' else ''false'')"
| "json_text (Jnum s) = s"
| "json_text (Jstr s) = json_string s"
| "json_text (Jarr vs) = CHR ''['' # Join (CHR '','') (map json_text vs) @ '']''"
| "json_text (Jobj fs) =
     CHR ''{'' # Join (CHR '','') (map (\<lambda>(k, v). json_string k @ CHR '':'' # json_text v) fs) @ ''}''"

subsection \<open>The parser\<close>

definition hex_val :: "char \<Rightarrow> nat option" where
  "hex_val c =
     (let n = of_char c :: nat in
      if 48 \<le> n \<and> n \<le> 57 then Some (n - 48)
      else if 97 \<le> n \<and> n \<le> 102 then Some (n - 87)
      else if 65 \<le> n \<and> n \<le> 70 then Some (n - 55) else None)"

definition hex4 :: "string \<Rightarrow> (nat \<times> string) option" where
  "hex4 s =
     (case s of
        a # b # c # d # r \<Rightarrow>
          (case (hex_val a, hex_val b, hex_val c, hex_val d) of
             (Some w, Some x, Some y, Some z) \<Rightarrow> Some (((w * 16 + x) * 16 + y) * 16 + z, r)
           | _ \<Rightarrow> None)
      | _ \<Rightarrow> None)"

definition utf8 :: "nat \<Rightarrow> string" where
  "utf8 n =
     (if n < 0x80 then [char_of n]
      else if n < 0x800 then [char_of (0xC0 + n div 64), char_of (0x80 + n mod 64)]
      else if n < 0x10000
      then [char_of (0xE0 + n div 4096), char_of (0x80 + n div 64 mod 64), char_of (0x80 + n mod 64)]
      else [char_of (0xF0 + n div 262144), char_of (0x80 + n div 4096 mod 64), char_of (0x80 + n div 64 mod 64),
            char_of (0x80 + n mod 64)])"

text \<open>The digits after \<open>\u\<close>: a surrogate pair is one character, a lone surrogate is U+FFFD.\<close>

definition p_unicode :: "string \<Rightarrow> (string \<times> string) option" where
  "p_unicode s =
     (case hex4 s of
        None \<Rightarrow> None
      | Some (n, r) \<Rightarrow>
          (if 0xD800 \<le> n \<and> n < 0xE000
           then (case r of
                   b # u # r' \<Rightarrow>
                     (case hex4 r' of
                        Some (m, r'') \<Rightarrow>
                          (if b = CHR 0x5C \<and> u = CHR ''u'' \<and> n < 0xDC00 \<and> 0xDC00 \<le> m \<and> m < 0xE000
                           then Some (utf8 (0x10000 + (n - 0xD800) * 1024 + (m - 0xDC00)), r'')
                           else Some (utf8 0xFFFD, r))
                      | None \<Rightarrow> Some (utf8 0xFFFD, r))
                 | _ \<Rightarrow> Some (utf8 0xFFFD, r))
           else Some (utf8 n, r)))"

definition p_escape :: "string \<Rightarrow> (string \<times> string) option" where
  "p_escape s =
     (case s of
        [] \<Rightarrow> None
      | c # r \<Rightarrow>
          (if c \<in> {CHR 0x22, CHR 0x5C, CHR ''/''} then Some ([c], r)
           else if c = CHR ''b'' then Some ([CHR 0x08], r)
           else if c = CHR ''f'' then Some ([CHR 0x0C], r)
           else if c = CHR ''n'' then Some ([CHR 0x0A], r)
           else if c = CHR ''r'' then Some ([CHR 0x0D], r)
           else if c = CHR ''t'' then Some ([CHR 0x09], r)
           else if c = CHR ''u'' then p_unicode r else None))"

lemma hex4_shorter: "hex4 s = Some (n, r) \<Longrightarrow> length r < length s"
  by (auto simp: hex4_def split: list.splits option.splits)

lemma p_unicode_shorter: "p_unicode s = Some (b, r) \<Longrightarrow> length r < length s"
  by (auto simp: p_unicode_def split: option.splits if_splits list.splits dest!: hex4_shorter)

lemma p_escape_shorter: "p_escape s = Some (b, r) \<Longrightarrow> length r < length s"
  by (auto simp: p_escape_def split: list.splits if_splits dest!: p_unicode_shorter)

text \<open>The rest of a string after its opening quote.\<close>

function p_chars :: "string \<Rightarrow> (string \<times> string) option" where
  "p_chars [] = None"
| "p_chars (c # r) =
     (if c = CHR 0x22 then Some ([], r)
      else if c = CHR 0x5C
      then (case p_escape r of
              None \<Rightarrow> None
            | Some (b, r') \<Rightarrow> (case p_chars r' of None \<Rightarrow> None | Some (s, t) \<Rightarrow> Some (b @ s, t)))
      else if (of_char c :: nat) < 32 then None
      else (case p_chars r of None \<Rightarrow> None | Some (s, t) \<Rightarrow> Some (c # s, t)))"
  by pat_completeness auto

termination
  by (relation "measure length") (auto dest: p_escape_shorter)

definition is_num_char :: "char \<Rightarrow> bool" where
  "is_num_char c \<longleftrightarrow> is_digit c \<or> c \<in> {CHR ''-'', CHR ''+'', CHR ''.'', CHR ''e'', CHR ''E''}"

definition valid_exp :: "string \<Rightarrow> bool" where
  "valid_exp s =
     (case s of
        [] \<Rightarrow> True
      | c # e \<Rightarrow>
          c \<in> {CHR ''e'', CHR ''E''}
          \<and> (let d = (if e \<noteq> [] \<and> hd e \<in> {CHR ''+'', CHR ''-''} then tl e else e)
             in d \<noteq> [] \<and> list_all is_digit d))"

definition valid_frac :: "string \<Rightarrow> bool" where
  "valid_frac s =
     (if s \<noteq> [] \<and> hd s = CHR ''.''
      then takeWhile is_digit (tl s) \<noteq> [] \<and> valid_exp (dropWhile is_digit (tl s))
      else valid_exp s)"

definition valid_number :: "string \<Rightarrow> bool" where
  "valid_number s =
     (let t = (if s \<noteq> [] \<and> hd s = CHR ''-'' then tl s else s); ip = takeWhile is_digit t
      in ip \<noteq> [] \<and> (hd ip = CHR ''0'' \<longrightarrow> length ip = 1) \<and> valid_frac (dropWhile is_digit t))"

abbreviation skip :: "string \<Rightarrow> string" where
  "skip \<equiv> dropWhile json_space"

definition p_literal :: "string \<Rightarrow> json \<Rightarrow> string \<Rightarrow> (json \<times> string) option" where
  "p_literal lit v s = (if HasPrefix s lit then Some (v, drop (length lit) s) else None)"

definition p_number :: "string \<Rightarrow> (json \<times> string) option" where
  "p_number s =
     (let lit = takeWhile is_num_char s
      in if valid_number lit then Some (Jnum lit, dropWhile is_num_char s) else None)"

text \<open>Recursive descent; the fuel bounds the nesting and \<open>json_parse\<close> passes the length of the
  text, which is enough (\<open>json_parse_text\<close>).\<close>

fun p_value :: "nat \<Rightarrow> string \<Rightarrow> (json \<times> string) option"
  and p_elems :: "nat \<Rightarrow> string \<Rightarrow> (json list \<times> string) option"
  and p_members :: "nat \<Rightarrow> string \<Rightarrow> ((string \<times> json) list \<times> string) option" where
  "p_value 0 s = None"
| "p_value (Suc f) s =
     (case skip s of
        [] \<Rightarrow> None
      | c # r \<Rightarrow>
          (if c = CHR ''{''
           then (if skip r \<noteq> [] \<and> hd (skip r) = CHR ''}'' then Some (Jobj [], tl (skip r))
                 else (case p_members f r of None \<Rightarrow> None | Some (fs, t) \<Rightarrow> Some (Jobj fs, t)))
           else if c = CHR ''[''
           then (if skip r \<noteq> [] \<and> hd (skip r) = CHR '']'' then Some (Jarr [], tl (skip r))
                 else (case p_elems f r of None \<Rightarrow> None | Some (vs, t) \<Rightarrow> Some (Jarr vs, t)))
           else if c = CHR 0x22
           then (case p_chars r of None \<Rightarrow> None | Some (t, u) \<Rightarrow> Some (Jstr t, u))
           else if c = CHR ''n'' then p_literal ''null'' Jnull (c # r)
           else if c = CHR ''t'' then p_literal ''true'' (Jbool True) (c # r)
           else if c = CHR ''f'' then p_literal ''false'' (Jbool False) (c # r)
           else p_number (c # r)))"
| "p_elems 0 s = None"
| "p_elems (Suc f) s =
     (case p_value f s of
        None \<Rightarrow> None
      | Some (v, r) \<Rightarrow>
          (case skip r of
             [] \<Rightarrow> None
           | c # t \<Rightarrow>
               (if c = CHR '']'' then Some ([v], t)
                else if c = CHR '',''
                then (case p_elems f t of None \<Rightarrow> None | Some (vs, u) \<Rightarrow> Some (v # vs, u))
                else None)))"
| "p_members 0 s = None"
| "p_members (Suc f) s =
     (case skip s of
        [] \<Rightarrow> None
      | q # r \<Rightarrow>
          (if q \<noteq> CHR 0x22 then None
           else case p_chars r of
               None \<Rightarrow> None
             | Some (k, t) \<Rightarrow>
                 (case skip t of
                    [] \<Rightarrow> None
                  | c # u \<Rightarrow>
                      (if c \<noteq> CHR '':'' then None
                       else case p_value f u of
                           None \<Rightarrow> None
                         | Some (v, w) \<Rightarrow>
                             (case skip w of
                                [] \<Rightarrow> None
                              | d # x \<Rightarrow>
                                  (if d = CHR ''}'' then Some ([(k, v)], x)
                                   else if d = CHR '',''
                                   then (case p_members f x of None \<Rightarrow> None | Some (fs, y) \<Rightarrow> Some ((k, v) # fs, y))
                                   else None))))))"

definition json_parse :: "string \<Rightarrow> json option" where
  "json_parse s =
     (case p_value (Suc (length s)) s of
        Some (v, r) \<Rightarrow> (if skip r = [] then Some v else None)
      | None \<Rightarrow> None)"

subsection \<open>Printing and parsing\<close>

text \<open>The trees that are the result of marshalling: the numbers are number literals.\<close>

fun json_ok :: "json \<Rightarrow> bool" where
  "json_ok (Jnum s) = valid_number s"
| "json_ok (Jarr vs) = list_all json_ok vs"
| "json_ok (Jobj fs) = list_all (\<lambda>(k, v). json_ok v) fs"
| "json_ok _ = True"

lemma hex_val_digit: "d < 16 \<Longrightarrow> hex_val (hex_digit d) = Some d"
  by (auto simp: hex_val_def hex_digit_def Let_def)

lemma p_chars_json_char: "p_chars (json_char c @ r) = map_option (\<lambda>(s, t). (c # s, t)) (p_chars r)"
proof -
  have u: "p_unicode (CHR ''0'' # CHR ''0'' # hex_digit (of_char c div 16) # hex_digit (of_char c mod 16) # r) = Some ([c], r)"
    if "(of_char c :: nat) < 128"
  proof -
    have "hex_val (hex_digit (of_char c div 16)) = Some (of_char c div 16)"
      "hex_val (hex_digit (of_char c mod 16)) = Some (of_char c mod 16)"
      using that by (simp_all add: hex_val_digit)
    moreover have "hex_val (CHR ''0'') = Some 0" by (simp add: hex_val_def)
    moreover have "(of_char c div 16 :: nat) * 16 + of_char c mod 16 = of_char c" by simp
    ultimately show ?thesis using that by (simp add: p_unicode_def hex4_def utf8_def)
  qed
  have lt: "(of_char c :: nat) < 32 \<or> c \<in> {CHR ''<'', CHR ''>'', CHR 0x26} \<Longrightarrow> (of_char c :: nat) < 128" by auto
  show ?thesis
    using u [OF lt] by (auto simp: json_char_def p_escape_def split: option.split)
qed

lemma p_chars_string: "p_chars (concat (map json_char s) @ CHR 0x22 # r) = Some (s, r)"
  by (induction s) (simp_all add: p_chars_json_char)

abbreviation delimited :: "string \<Rightarrow> bool" where
  "delimited r \<equiv> r = [] \<or> \<not> is_num_char (hd r)"

lemma digits_num_chars: "list_all is_digit s \<Longrightarrow> list_all is_num_char s"
  by (auto simp: list_all_iff is_num_char_def)

lemma takeWhile_num: "list_all is_num_char (takeWhile is_digit s)"
  by (auto simp: list_all_iff is_num_char_def dest: set_takeWhileD)

lemma valid_exp_chars: "valid_exp s \<Longrightarrow> list_all is_num_char s"
  by (cases s) (auto simp: valid_exp_def Let_def is_num_char_def list_all_iff neq_Nil_conv split: if_splits)

lemma split_digits: "list_all is_num_char (dropWhile is_digit t) \<Longrightarrow> list_all is_num_char t"
  using takeWhile_num [of t] by (metis list_all_append takeWhile_dropWhile_id)

lemma num_char_tl: "list_all is_num_char (tl s) \<Longrightarrow> is_num_char (hd s) \<Longrightarrow> list_all is_num_char s"
  by (cases s) simp_all

lemma valid_frac_chars:
  assumes "valid_frac s"
  shows "list_all is_num_char s"
proof (cases "s \<noteq> [] \<and> hd s = CHR ''.''")
  case True
  with assms have "valid_exp (dropWhile is_digit (tl s))" by (simp add: valid_frac_def)
  then have "list_all is_num_char (tl s)" by (rule split_digits [OF valid_exp_chars])
  then show ?thesis by (rule num_char_tl) (use True in \<open>simp add: is_num_char_def\<close>)
next
  case False
  with assms have "valid_exp s" by (simp add: valid_frac_def)
  then show ?thesis by (rule valid_exp_chars)
qed

lemma valid_number_chars:
  assumes "valid_number s"
  shows "list_all is_num_char s"
proof (cases "s \<noteq> [] \<and> hd s = CHR ''-''")
  case True
  with assms have "valid_frac (dropWhile is_digit (tl s))" by (simp add: valid_number_def Let_def)
  then have "list_all is_num_char (tl s)" by (rule split_digits [OF valid_frac_chars])
  then show ?thesis by (rule num_char_tl) (use True in \<open>simp add: is_num_char_def\<close>)
next
  case False
  with assms have "valid_frac (dropWhile is_digit s)" by (auto simp: valid_number_def Let_def)
  then show ?thesis by (rule split_digits [OF valid_frac_chars])
qed

lemma valid_number_hd: "valid_number s \<Longrightarrow> s \<noteq> [] \<and> (is_digit (hd s) \<or> hd s = CHR ''-'')"
  by (cases s) (auto simp: valid_number_def Let_def split: if_splits)

lemma p_number_text:
  assumes "valid_number s" and "delimited r"
  shows "p_number (s @ r) = Some (Jnum s, r)"
proof -
  have all: "\<forall>c\<in>set s. is_num_char c" using valid_number_chars [OF assms(1)] by (simp add: list_all_iff)
  have "takeWhile is_num_char (s @ r) = s" "dropWhile is_num_char (s @ r) = r"
    using all assms(2) by (cases r; simp add: takeWhile_append2 dropWhile_append2)+
  with assms(1) show ?thesis by (simp add: p_number_def Let_def)
qed

text \<open>The first character of a printed value.\<close>

lemma digit_props: "is_digit c \<Longrightarrow> \<not> json_space c \<and> c \<notin> {CHR '']'', CHR ''}'', CHR ''{'', CHR ''['', CHR 0x22, CHR ''n'', CHR ''t'', CHR ''f''}"
  by (auto simp: is_digit_def json_space_def)

lemma json_text_hd:
  assumes "json_ok v"
  obtains c cs where "json_text v = c # cs" and "\<not> json_space c" and "c \<noteq> CHR '']''" and "c \<noteq> CHR ''}''"
proof (cases v)
  case (Jnum s)
  with assms have "s \<noteq> [] \<and> (is_digit (hd s) \<or> hd s = CHR ''-'')" using valid_number_hd by simp
  then have "s \<noteq> [] \<and> \<not> json_space (hd s) \<and> hd s \<noteq> CHR '']'' \<and> hd s \<noteq> CHR ''}''"
    using digit_props [of "hd s"] by (auto simp: json_space_def)
  with Jnum show thesis by (intro that [of "hd s" "tl s"]) auto
next
  case (Jbool b)
  then show thesis by (cases b) (auto intro: that simp: json_space_def)
qed (use that in \<open>auto simp: json_string_def json_space_def split: if_splits\<close>)

lemma skip_text: "json_ok v \<Longrightarrow> skip (json_text v @ r) = json_text v @ r"
  by (erule json_text_hd) simp

lemma Join_Cons_neq: "ws \<noteq> [] \<Longrightarrow> Join sep (w # ws) = w @ sep # Join sep ws"
  by (cases ws) auto

lemma p_elems_text:
  assumes "\<And>v f r. v \<in> set vs \<Longrightarrow> length (json_text v) \<le> f \<Longrightarrow> delimited r \<Longrightarrow> p_value f (json_text v @ r) = Some (v, r)"
    and "\<And>v. v \<in> set vs \<Longrightarrow> json_text v \<noteq> []"
    and "vs \<noteq> []" and "length (Join (CHR '','') (map json_text vs)) < f"
  shows "p_elems f (Join (CHR '','') (map json_text vs) @ CHR '']'' # r) = Some (vs, r)"
  using assms
proof (induction vs arbitrary: f)
  case (Cons v vs)
  obtain g where f: "f = Suc g" using Cons.prems(4) by (cases f) auto
  have d: "delimited (CHR '']'' # r)" "delimited (CHR '','' # t)" for t by (simp_all add: is_num_char_def is_digit_def)
  show ?case
  proof (cases "vs = []")
    case True
    with Cons.prems f d show ?thesis by (simp add: json_space_def)
  next
    case False
    then have j: "Join (CHR '','') (map json_text (v # vs)) = json_text v @ CHR '','' # Join (CHR '','') (map json_text vs)"
      by (simp add: Join_Cons_neq)
    have "p_elems g (Join (CHR '','') (map json_text vs) @ CHR '']'' # r) = Some (vs, r)"
      using Cons.prems(1,2,4) False f j by (intro Cons.IH) auto
    with Cons.prems(1,2,4) f d j show ?thesis by (simp add: json_space_def)
  qed
qed simp

abbreviation member_text :: "string \<times> json \<Rightarrow> string" where
  "member_text \<equiv> (\<lambda>(k, v). json_string k @ CHR '':'' # json_text v)"

lemma p_members_text:
  assumes "\<And>k v f r. (k, v) \<in> set fs \<Longrightarrow> length (json_text v) \<le> f \<Longrightarrow> delimited r \<Longrightarrow> p_value f (json_text v @ r) = Some (v, r)"
    and "fs \<noteq> []" and "length (Join (CHR '','') (map member_text fs)) < f"
  shows "p_members f (Join (CHR '','') (map member_text fs) @ CHR ''}'' # r) = Some (fs, r)"
  using assms
proof (induction fs arbitrary: f)
  case (Cons kv fs)
  obtain k v where kv: "kv = (k, v)" by (cases kv)
  obtain g where f: "f = Suc g" using Cons.prems(3) by (cases f) auto
  have d: "delimited (CHR ''}'' # r)" "delimited (CHR '','' # t)" for t by (simp_all add: is_num_char_def is_digit_def)
  have key: "skip (json_string k @ t) = CHR 0x22 # concat (map json_char k) @ CHR 0x22 # t" for t
    by (simp add: json_string_def json_space_def)
  have str: "length (json_text v) \<le> g" using Cons.prems(3) f kv by (cases "fs = []") (auto simp: Join_Cons_neq)
  have colon: "skip (CHR '':'' # t) = CHR '':'' # t" for t by (simp add: json_space_def)
  show ?case
  proof (cases "fs = []")
    case True
    with Cons.prems(1) [of k v g "CHR ''}'' # r"] f d kv str show ?thesis
      by (simp add: key p_chars_string colon json_space_def)
  next
    case False
    then have j: "Join (CHR '','') (map member_text (kv # fs)) = member_text kv @ CHR '','' # Join (CHR '','') (map member_text fs)"
      by (simp add: Join_Cons_neq)
    have "p_members g (Join (CHR '','') (map member_text fs) @ CHR ''}'' # r) = Some (fs, r)"
      using Cons.prems(1,3) False f j by (intro Cons.IH) (auto simp: kv)
    with Cons.prems(1) [of k v g "CHR '','' # Join (CHR '','') (map member_text fs) @ CHR ''}'' # r"] f d kv str j show ?thesis
      by (simp add: key p_chars_string colon json_space_def)
  qed
qed simp

lemma Join_hd: "vs \<noteq> [] \<Longrightarrow> f (hd vs) = c # cs \<Longrightarrow> \<exists>ds. Join sep (map f vs) = c # ds"
  by (cases vs; cases "tl vs") auto

lemma p_value_text:
  "json_ok v \<Longrightarrow> length (json_text v) \<le> f \<Longrightarrow> delimited r \<Longrightarrow> p_value f (json_text v @ r) = Some (v, r)"
proof (induction v arbitrary: f r)
  case (Jnum s)
  have "valid_number s" using Jnum(1) by simp
  note n = valid_number_hd [OF this] p_number_text [OF this Jnum(3)]
  then obtain c cs g where s: "s = c # cs" "f = Suc g" using Jnum(2) by (cases s; cases f) auto
  have "is_digit c \<or> c = CHR ''-''" using n(1) s(1) by simp
  then have c: "\<not> json_space c \<and> c \<notin> {CHR ''{'', CHR ''['', CHR 0x22, CHR ''n'', CHR ''t'', CHR ''f''}"
  proof
    assume "is_digit c"
    from digit_props [OF this] show ?thesis by blast
  qed (simp add: json_space_def)
  have "p_value f (json_text (Jnum s) @ r) = p_number (s @ r)" using c unfolding s by simp
  then show ?case using n(2) by simp
next
  case (Jstr s)
  then obtain g where "f = Suc g" by (cases f) (auto simp: json_string_def)
  then show ?case by (simp add: json_string_def json_space_def p_chars_string)
next
  case (Jarr vs)
  then obtain g where f: "f = Suc g" by (cases f) auto
  show ?case
  proof (cases "vs = []")
    case True
    with f show ?thesis by (simp add: json_space_def)
  next
    case False
    have "\<forall>v\<in>set vs. json_ok v" using Jarr.prems(1) by (simp add: list_all_iff)
    then have ok: "json_ok v" if "v \<in> set vs" for v using that by (rule bspec)
    have ne: "json_text v \<noteq> []" if "v \<in> set vs" for v by (rule json_text_hd [OF ok [OF that]]) simp
    have "p_elems g (Join (CHR '','') (map json_text vs) @ CHR '']'' # r) = Some (vs, r)"
    proof (rule p_elems_text [OF _ ne False])
      fix v h t assume v: "v \<in> set vs" "length (json_text v) \<le> h" "delimited t"
      show "p_value h (json_text v @ t) = Some (v, t)" by (rule Jarr.IH [OF v(1) ok [OF v(1)] v(2,3)])
    qed (use Jarr.prems(2) f in simp_all)
    moreover obtain c cs where c: "json_text (hd vs) = c # cs" "\<not> json_space c" "c \<noteq> CHR '']''"
      by (rule json_text_hd [OF ok [OF hd_in_set [OF False]]])
    moreover obtain ds where "Join (CHR '','') (map json_text vs) = c # ds" using Join_hd [where f = json_text, OF False c(1)] by blast
    ultimately show ?thesis using f by (simp add: json_space_def)
  qed
next
  case (Jobj fs)
  then obtain g where f: "f = Suc g" by (cases f) auto
  show ?case
  proof (cases "fs = []")
    case True
    with f show ?thesis by (simp add: json_space_def)
  next
    case False
    have ok: "json_ok v" if "(k, v) \<in> set fs" for k v using Jobj.prems(1) that by (auto simp: list_all_iff)
    have "p_members g (Join (CHR '','') (map member_text fs) @ CHR ''}'' # r) = Some (fs, r)"
    proof (rule p_members_text)
      fix k v h t assume v: "(k, v) \<in> set fs" "length (json_text v) \<le> h" "delimited t"
      show "p_value h (json_text v @ t) = Some (v, t)" by (rule Jobj.IH [OF v(1) _ ok [OF v(1)] v(2,3)]) simp
    qed (use Jobj.prems(2) False f in simp_all)
    moreover have "member_text (hd fs) = CHR 0x22 # tl (member_text (hd fs))" by (cases "hd fs") (simp add: json_string_def)
    from Join_hd [where f = member_text, OF False this] obtain cs where "Join (CHR '','') (map member_text fs) = CHR 0x22 # cs" by blast
    ultimately show ?thesis using f by (simp add: json_space_def)
  qed
next
  case (Jbool b)
  then obtain g where "f = Suc g" by (cases f; cases b) auto
  then show ?case by (cases b) (simp_all add: json_space_def p_literal_def HasPrefix_def)
next
  case Jnull
  then obtain g where "f = Suc g" by (cases f) auto
  then show ?case by (simp add: json_space_def p_literal_def HasPrefix_def)
qed

lemma json_parse_text: "json_ok v \<Longrightarrow> json_parse (json_text v) = Some v"
  using p_value_text [of v "Suc (length (json_text v))" "[]"] by (simp add: json_parse_def)

subsection \<open>Values of type any\<close>

text \<open>
  Decoding into \<open>interface{}\<close>: a number becomes a \<open>float64\<close>, an object a Go map, where a later
  member replaces an earlier one of the same name. A map is represented with its keys in
  ascending order, as \<open>json.Marshal\<close> prints it. \<open>je_float\<close> gives the text of the \<open>float64\<close>
  nearest to a literal, \<open>None\<close> when it is out of range; \<open>je_time\<close> is the text of a time stamp
  and \<open>je_time_ok\<close> what \<open>time.Time\<close> accepts. These three are parameters.
\<close>

record json_env =
  je_float :: "string \<Rightarrow> string option"
  je_time :: "int \<Rightarrow> string"
  je_time_ok :: "string \<Rightarrow> bool"

fun ins :: "string \<Rightarrow> 'v \<Rightarrow> (string, 'v) gomap \<Rightarrow> (string, 'v) gomap" where
  "ins k v [] = [(k, v)]"
| "ins k v ((k', w) # m) =
     (if k = k' then (k, v) # m else if k < k' then (k, v) # (k', w) # m else (k', w) # ins k v m)"

definition sort_map :: "(string, 'v) gomap \<Rightarrow> (string, 'v) gomap" where
  "sort_map fs = foldl (\<lambda>m (k, v). ins k v m) [] fs"

fun floats_ok :: "json_env \<Rightarrow> json \<Rightarrow> bool" where
  "floats_ok J (Jnum s) = (je_float J s \<noteq> None)"
| "floats_ok J (Jarr vs) = list_all (floats_ok J) vs"
| "floats_ok J (Jobj fs) = list_all (\<lambda>(k, v). floats_ok J v) fs"
| "floats_ok J _ = True"

fun to_any :: "json_env \<Rightarrow> json \<Rightarrow> json" where
  "to_any J (Jnum s) = Jnum (the (je_float J s))"
| "to_any J (Jarr vs) = Jarr (map (to_any J) vs)"
| "to_any J (Jobj fs) = Jobj (sort_map (map (\<lambda>(k, v). (k, to_any J v)) fs))"
| "to_any J v = v"

definition unmarshal_any :: "json_env \<Rightarrow> string \<Rightarrow> json option" where
  "unmarshal_any J s =
     (case json_parse s of
        None \<Rightarrow> None
      | Some v \<Rightarrow> if floats_ok J v then Some (to_any J v) else None)"

text \<open>\<open>json.Unmarshal\<close> into a \<open>map[string]interface{}\<close>; \<open>null\<close> leaves the nil map.\<close>

definition unmarshal_map :: "json_env \<Rightarrow> string \<Rightarrow> (string, json) gomap option" where
  "unmarshal_map J s =
     (case unmarshal_any J s of
        Some (Jobj fs) \<Rightarrow> Some fs
      | Some Jnull \<Rightarrow> Some []
      | _ \<Rightarrow> None)"

text \<open>The values that come out of such a decoding: marshalling and decoding keeps them.\<close>

fun any_ok :: "json_env \<Rightarrow> json \<Rightarrow> bool" where
  "any_ok J (Jnum s) = (valid_number s \<and> je_float J s = Some s)"
| "any_ok J (Jarr vs) = list_all (any_ok J) vs"
| "any_ok J (Jobj fs) = (sorted_wrt (<) (map fst fs) \<and> list_all (\<lambda>(k, v). any_ok J v) fs)"
| "any_ok J _ = True"

subsection \<open>Fields of structs\<close>

text \<open>A member is stored into the field whose name it matches without regard to (ASCII) case;
  of several the last one counts.\<close>

definition lower_char :: "char \<Rightarrow> char" where
  "lower_char c = (if 65 \<le> (of_char c :: nat) \<and> (of_char c :: nat) \<le> 90 then char_of ((of_char c :: nat) + 32) else c)"

definition field :: "(string \<times> json) list \<Rightarrow> string \<Rightarrow> json" where
  "field fs name =
     (case find (\<lambda>(k, v). map lower_char k = name) (rev fs) of None \<Rightarrow> Jnull | Some (k, v) \<Rightarrow> v)"

text \<open>Decoding into a typed field: \<open>None\<close> is the type error, \<open>null\<close> leaves the zero value.\<close>

fun dec_string :: "json \<Rightarrow> string option" where
  "dec_string (Jstr s) = Some s"
| "dec_string Jnull = Some []"
| "dec_string _ = None"

fun dec_bool :: "json \<Rightarrow> bool option" where
  "dec_bool (Jbool b) = Some b"
| "dec_bool Jnull = Some False"
| "dec_bool _ = None"

fun dec_uint64 :: "json \<Rightarrow> 64 word option" where
  "dec_uint64 (Jnum s) = (if json_digits s \<and> nat_of_digits s < 2 ^ 64 then Some (of_nat (nat_of_digits s)) else None)"
| "dec_uint64 Jnull = Some 0"
| "dec_uint64 _ = None"

fun dec_strings :: "json list \<Rightarrow> string list option" where
  "dec_strings [] = Some []"
| "dec_strings (v # vs) =
     (case (dec_string v, dec_strings vs) of (Some s, Some ss) \<Rightarrow> Some (s # ss) | _ \<Rightarrow> None)"

fun dec_string_list :: "json \<Rightarrow> string list option" where
  "dec_string_list (Jarr vs) = dec_strings vs"
| "dec_string_list Jnull = Some []"
| "dec_string_list _ = None"

fun dec_string_members :: "(string \<times> json) list \<Rightarrow> (string, string) gomap option" where
  "dec_string_members [] = Some []"
| "dec_string_members ((k, v) # fs) =
     (case (dec_string v, dec_string_members fs) of (Some s, Some m) \<Rightarrow> Some ((k, s) # m) | _ \<Rightarrow> None)"

text \<open>A nil map and an empty one print alike where the field is omitted when empty.\<close>

fun dec_string_map :: "json \<Rightarrow> (string, string) gomap option" where
  "dec_string_map (Jobj fs) = map_option sort_map (dec_string_members fs)"
| "dec_string_map Jnull = Some []"
| "dec_string_map _ = None"

definition enc_string_map :: "(string, string) gomap \<Rightarrow> json" where
  "enc_string_map m = Jobj (map (\<lambda>(k, v). (k, Jstr v)) (sort_map m))"

definition enc_uint64 :: "64 word \<Rightarrow> json" where
  "enc_uint64 w = Jnum (show_nat (unat w))"

subsection \<open>Base64\<close>

definition b64_char :: "nat \<Rightarrow> char" where
  "b64_char n =
     (if n < 26 then char_of (65 + n) else if n < 52 then char_of (71 + n) else if n < 62 then char_of (n - 4)
      else if n = 62 then CHR ''+'' else CHR ''/'')"

definition b64_val :: "char \<Rightarrow> nat option" where
  "b64_val c =
     (let n = of_char c :: nat in
      if 65 \<le> n \<and> n \<le> 90 then Some (n - 65) else if 97 \<le> n \<and> n \<le> 122 then Some (n - 71)
      else if 48 \<le> n \<and> n \<le> 57 then Some (n + 4)
      else if c = CHR ''+'' then Some 62 else if c = CHR ''/'' then Some 63 else None)"

fun b64_encode :: "bytes \<Rightarrow> string" where
  "b64_encode [] = []"
| "b64_encode [a] = [b64_char (of_char a div 4), b64_char (of_char a mod 4 * 16), CHR ''='', CHR ''='']"
| "b64_encode [a, b] =
     [b64_char (of_char a div 4), b64_char (of_char a mod 4 * 16 + of_char b div 16), b64_char (of_char b mod 16 * 4), CHR ''='']"
| "b64_encode (a # b # c # r) =
     b64_char (of_char a div 4) # b64_char (of_char a mod 4 * 16 + of_char b div 16)
     # b64_char (of_char b mod 16 * 4 + of_char c div 64) # b64_char (of_char c mod 64) # b64_encode r"

fun b64_quads :: "string \<Rightarrow> bytes option" where
  "b64_quads [] = Some []"
| "b64_quads (p # q # r # s # t) =
     (if t = [] \<and> r = CHR ''='' \<and> s = CHR ''=''
      then (case (b64_val p, b64_val q) of (Some w, Some x) \<Rightarrow> Some [char_of (w * 4 + x div 16)] | _ \<Rightarrow> None)
      else if t = [] \<and> s = CHR ''=''
      then (case (b64_val p, b64_val q, b64_val r) of
              (Some w, Some x, Some y) \<Rightarrow> Some [char_of (w * 4 + x div 16), char_of (x mod 16 * 16 + y div 4)]
            | _ \<Rightarrow> None)
      else (case (b64_val p, b64_val q, b64_val r, b64_val s) of
              (Some w, Some x, Some y, Some z) \<Rightarrow>
                map_option (\<lambda>u. char_of (w * 4 + x div 16) # char_of (x mod 16 * 16 + y div 4) # char_of (y mod 4 * 64 + z) # u)
                  (b64_quads t)
            | _ \<Rightarrow> None))"
| "b64_quads _ = None"

text \<open>The decoder skips line breaks.\<close>

definition b64_decode :: "string \<Rightarrow> bytes option" where
  "b64_decode s = b64_quads (filter (\<lambda>c. c \<noteq> CHR 0x0A \<and> c \<noteq> CHR 0x0D) s)"

fun dec_byte_list :: "json list \<Rightarrow> bytes option" where
  "dec_byte_list [] = Some []"
| "dec_byte_list (v # vs) =
     (case (dec_uint64 v, dec_byte_list vs) of
        (Some w, Some r) \<Rightarrow> if w < 256 then Some (char_of (unat w) # r) else None
      | _ \<Rightarrow> None)"

text \<open>A \<open>[]byte\<close> is printed in base64; an array of numbers is accepted as well.\<close>

fun dec_bytes :: "json \<Rightarrow> bytes option" where
  "dec_bytes (Jstr s) = b64_decode s"
| "dec_bytes (Jarr vs) = dec_byte_list vs"
| "dec_bytes Jnull = Some []"
| "dec_bytes _ = None"

subsection \<open>Paths\<close>

text \<open>\<open>path.Clean\<close> works on the segments; \<open>strings.Trim(p, "/")\<close>; \<open>path.Join\<close> of elements.\<close>

definition clean_step :: "bool \<Rightarrow> string \<Rightarrow> string list \<Rightarrow> string list" where
  "clean_step rooted seg out =
     (if seg = [] \<or> seg = ''.'' then out
      else if seg = ''..''
      then (case out of
              [] \<Rightarrow> if rooted then [] else [''..'']
            | prev # rest \<Rightarrow> if prev = ''..'' then ''..'' # out else rest)
      else seg # out)"

definition Clean :: "string \<Rightarrow> string" where
  "Clean p =
     (if p = [] then ''.''
      else let rooted = HasPrefix p ''/'';
               out = Join (CHR ''/'') (rev (fold (clean_step rooted) (Split (CHR ''/'') p) []))
           in if rooted then CHR ''/'' # out else if out = [] then ''.'' else out)"

definition Trim_slash :: "string \<Rightarrow> string" where
  "Trim_slash p = rev (dropWhile (\<lambda>c. c = CHR ''/'') (rev (dropWhile (\<lambda>c. c = CHR ''/'') p)))"

definition path_Join :: "string list \<Rightarrow> string" where
  "path_Join elems = (let es = dropWhile (\<lambda>e. e = []) elems in if es = [] then [] else Clean (Join (CHR ''/'') es))"

subsection \<open>Lemmas: values of type any\<close>

lemma ins_last: "(\<And>k'. k' \<in> fst ` set m \<Longrightarrow> k' < k) \<Longrightarrow> ins k v m = m @ [(k, v)]"
proof (induction m)
  case (Cons kv m)
  obtain k' w where kv: "kv = (k', w)" by (cases kv)
  have "k' < k" using Cons.prems kv by simp
  then have "k \<noteq> k'" "\<not> k < k'" by auto
  with Cons kv show ?case by simp
qed simp

lemma foldl_ins_sorted:
  "sorted_wrt (<) (map fst (m @ fs)) \<Longrightarrow> foldl (\<lambda>m (k, v). ins k v m) m fs = m @ fs"
proof (induction fs arbitrary: m)
  case (Cons kv fs)
  obtain k v where kv: "kv = (k, v)" by (cases kv)
  have "ins k v m = m @ [(k, v)]" using Cons.prems kv by (intro ins_last) (auto simp: sorted_wrt_append)
  with Cons.IH [of "m @ [kv]"] Cons.prems kv show ?case by simp
qed simp

lemma sort_map_sorted: "sorted_wrt (<) (map fst fs) \<Longrightarrow> sort_map fs = fs"
  unfolding sort_map_def using foldl_ins_sorted [of "[]" fs] by simp

lemma any_ok_fixed: "any_ok J v \<Longrightarrow> json_ok v \<and> floats_ok J v \<and> to_any J v = v"
proof (induction v)
  case (Jarr vs)
  then show ?case by (auto simp: list_all_iff intro: map_idI)
next
  case (Jobj fs)
  have IH: "json_ok v \<and> floats_ok J v \<and> to_any J v = v" if "(k, v) \<in> set fs" for k v
    using Jobj.IH [OF that, of v] Jobj.prems that by (auto simp: list_all_iff)
  have "map (\<lambda>(k, v). (k, to_any J v)) fs = fs" using IH by (intro map_idI) auto
  moreover have "sort_map fs = fs" using Jobj.prems by (intro sort_map_sorted) simp
  ultimately show ?case using IH by (auto simp: list_all_iff)
qed auto

lemma unmarshal_any_text: "any_ok J v \<Longrightarrow> unmarshal_any J (json_text v) = Some v"
  using any_ok_fixed [of J v] by (simp add: unmarshal_any_def json_parse_text)

lemma unmarshal_map_text: "any_ok J (Jobj fs) \<Longrightarrow> unmarshal_map J (json_text (Jobj fs)) = Some fs"
  using unmarshal_any_text [of J "Jobj fs"] by (simp add: unmarshal_map_def del: any_ok.simps json_text.simps)

text \<open>The keys of a sorted map, and that sorting keeps the map.\<close>

lemma set_ins: "set (map fst (ins k v m)) = insert k (set (map fst m))"
proof (induction m)
  case (Cons kv m)
  obtain k' w where kv: "kv = (k', w)" by (cases kv)
  with Cons show ?case by (cases "k = k'"; cases "k < k'") auto
qed simp

lemma ins_sorted: "sorted_wrt (<) (map fst m) \<Longrightarrow> sorted_wrt (<) (map fst (ins k v m))"
proof (induction m)
  case (Cons kv m)
  obtain k' w where kv: "kv = (k', w)" by (cases kv)
  have "\<forall>j\<in>set (map fst (ins k v m)). k' < j" if "k' < k"
    unfolding set_ins using that Cons.prems kv by auto
  with Cons kv show ?case by (cases "k < k'"; cases "k = k'") (auto intro: less_trans)
qed simp

lemma sort_map_is_sorted [simp]: "sorted_wrt (<) (map fst (sort_map fs))"
proof -
  have "sorted_wrt (<) (map fst m) \<Longrightarrow> sorted_wrt (<) (map fst (foldl (\<lambda>m (k, v). ins k v m) m fs))" for m
    by (induction fs arbitrary: m) (auto intro: ins_sorted)
  from this [of "[]"] show ?thesis by (simp add: sort_map_def)
qed

lemma map_of_ins: "sorted_wrt (<) (map fst m) \<Longrightarrow> map_of (ins k v m) = (map_of m)(k \<mapsto> v)"
proof (induction m)
  case (Cons kv m)
  obtain k' w where kv: "kv = (k', w)" by (cases kv)
  with Cons show ?case by (auto simp: fun_eq_iff)
qed simp

lemma enc_dec_string_map [simp]: "dec_string_map (enc_string_map m) = Some (sort_map m)"
proof -
  have "dec_string_members (map (\<lambda>(k, v). (k, Jstr v)) fs) = Some fs" for fs
    by (induction fs) auto
  then show ?thesis by (simp add: enc_string_map_def sort_map_sorted)
qed

lemma json_ok_string_map [simp]: "json_ok (enc_string_map m)"
  by (auto simp: enc_string_map_def list_all_iff)

lemma any_ok_string_map [simp]: "any_ok J (enc_string_map m)"
  by (auto simp: enc_string_map_def list_all_iff comp_def case_prod_beta)

lemma show_nat_valid [simp]: "valid_number (show_nat n)"
proof -
  have d: "list_all is_digit (show_nat n)" "hd (show_nat n) = CHR ''0'' \<longrightarrow> length (show_nat n) = 1"
    using json_digits_show [of n] by (auto simp: json_digits_def)
  then have "takeWhile is_digit (show_nat n) = show_nat n" "dropWhile is_digit (show_nat n) = []"
    by (simp_all only: list_all_iff takeWhile_eq_all_conv dropWhile_eq_Nil_conv)
  moreover have "hd (show_nat n) \<noteq> CHR ''-''"
    using show_nat_no_minus [of n "hd (show_nat n)" "tl (show_nat n)"] by simp
  moreover have "valid_frac []" by (simp add: valid_frac_def valid_exp_def)
  ultimately show ?thesis using d(2) by (simp only: valid_number_def Let_def if_False simp_thms show_nat_not_Nil)
qed

lemma enc_dec_uint64 [simp]: "dec_uint64 (enc_uint64 w) = Some w"
proof -
  have "unat w < 2 ^ 64" using unsigned_less [of w] by simp
  then show ?thesis by (simp add: enc_uint64_def json_digits_show)
qed

subsection \<open>Lemmas: base64\<close>

lemma b64_val_char: "n < 64 \<Longrightarrow> b64_val (b64_char n) = Some n"
  by (auto simp: b64_val_def b64_char_def Let_def)

lemma b64_char_safe: "n < 64 \<Longrightarrow> b64_char n \<notin> {CHR 0x0A, CHR 0x0D, CHR ''=''}"
proof -
  assume "n < 64"
  then have "b64_val (b64_char n) \<noteq> None" by (simp add: b64_val_char)
  then show ?thesis by (auto simp: b64_val_def)
qed

lemma byte_parts:
  fixes a :: char
  shows "(of_char a :: nat) div 4 < 64" "(of_char a :: nat) div 16 < 16" "(of_char a :: nat) div 64 < 4"
    "(of_char a :: nat) mod 4 < 4" "(of_char a :: nat) mod 16 < 16" "(of_char a :: nat) mod 64 < 64"
  using nat_of_char_less_256 [of a] by linarith+

lemma b64_parts:
  fixes x y :: nat
  shows "x < 4 \<Longrightarrow> y < 16 \<Longrightarrow> x * 16 + y < 64 \<and> (x * 16 + y) div 16 = x \<and> (x * 16 + y) mod 16 = y"
    and "x < 16 \<Longrightarrow> y < 4 \<Longrightarrow> x * 4 + y < 64 \<and> (x * 4 + y) div 4 = x \<and> (x * 4 + y) mod 4 = y"
  by auto

lemma b64_quads_encode: "b64_quads (b64_encode s) = Some s"
proof (induction s rule: b64_encode.induct)
  case (2 a)
  show ?case using byte_parts [of a] b64_parts(1) [of "of_char a mod 4" 0] by (simp add: b64_val_char)
next
  case (3 a b)
  have "(of_char b :: nat) mod 16 * 4 < 64" using byte_parts(5) [of b] by linarith
  with b64_char_safe [OF this] show ?case
    using byte_parts [of a] byte_parts [of b] b64_parts(1) [OF byte_parts(4) [of a] byte_parts(2) [of b]]
      b64_parts(2) [of "of_char b mod 16" 0] by (simp add: b64_val_char)
next
  case (4 a b c r)
  note p = b64_parts(1) [OF byte_parts(4) [of a] byte_parts(2) [of b]] b64_parts(2) [OF byte_parts(5) [of b] byte_parts(3) [of c]]
  have "b64_char (of_char c mod 64) \<noteq> CHR ''=''" using b64_char_safe [OF byte_parts(6) [of c]] by simp
  with 4 p byte_parts [of a] byte_parts [of c] show ?case by (simp add: b64_val_char)
qed simp

lemma b64_encode_safe: "list_all (\<lambda>c. c \<noteq> CHR 0x0A \<and> c \<noteq> CHR 0x0D) (b64_encode s)"
proof (induction s rule: b64_encode.induct)
  case (2 a)
  show ?case using b64_char_safe [OF byte_parts(1) [of a]] b64_char_safe [of "of_char a mod 4 * 16"] byte_parts(4) [of a] by simp
next
  case (3 a b)
  have "(of_char b :: nat) mod 16 * 4 < 64" using byte_parts(5) [of b] by linarith
  then show ?case
    using b64_parts(1) [OF byte_parts(4) [of a] byte_parts(2) [of b]] b64_char_safe [OF byte_parts(1) [of a]] b64_char_safe by simp
next
  case (4 a b c r)
  note p = b64_parts(1) [OF byte_parts(4) [of a] byte_parts(2) [of b]] b64_parts(2) [OF byte_parts(5) [of b] byte_parts(3) [of c]]
  show ?case
    using 4 b64_char_safe [OF byte_parts(1) [of a]] b64_char_safe [OF p(1) [THEN conjunct1]] b64_char_safe [OF p(2) [THEN conjunct1]]
      b64_char_safe [OF byte_parts(6) [of c]] by simp
qed simp

lemma b64_roundtrip [simp]: "b64_decode (b64_encode s) = Some s"
proof -
  have "filter (\<lambda>c. c \<noteq> CHR 0x0A \<and> c \<noteq> CHR 0x0D) (b64_encode s) = b64_encode s"
    using b64_encode_safe [of s] unfolding list_all_iff by (rule filter_True)
  then show ?thesis by (simp add: b64_decode_def b64_quads_encode)
qed

end
