(* ===== verification/Seal_Manager.thy ===== *)
theory Seal_Manager
  imports Raft_Node Key_Manager Go_Json
begin

text \<open>
  The seal manager, \<open>internal/raft/seal.go\<close>: it keeps the blob of the key manager in the
  key-value store and tracks whether the secret store is initialised and sealed.

  \<open>R\<close> is the environment of the node, \<open>K\<close> the key manager (any implementation of the
  interface), \<open>J\<close> the JSON parameters, \<open>W\<close> what each wait for the cluster sees: the ticks, with
  whether the applied index was positive, and the end of the context. The methods run under
  the lock of the manager and are modelled one after the other; \<open>AutoUnseal\<close> gives the lock up
  around \<open>Unseal\<close>, where other calls could come in between.
\<close>

declare map_of_eq_Some_iff [simp del]

subsection \<open>State\<close>

datatype seal_err = SKm km_err | SRaft raft_err | SErrorf string | SWrapf string seal_err

datatype wait_event = Tick bool | CtxDone raft_err

type_synonym wait_env = "nat \<Rightarrow> wait_event list"

record 'k seal_state =
  sm_node :: Node
  sm_km :: 'k
  sm_clusterID :: string
  sm_nodeID :: string
  sm_initialized :: bool
  sm_sealed :: bool

type_synonym ('k, 'z, 'a) seal_action = "(('k, 'z) seal_state_scheme, 'a) state"

abbreviation sret :: "'a \<Rightarrow> ('k, 'z, 'a) seal_action" where
  "sret \<equiv> State_Monad.return"

abbreviation sget :: "('k, 'z, ('k, 'z) seal_state_scheme) seal_action" where
  "sget \<equiv> State_Monad.get"

definition on_kv :: "'a action \<Rightarrow> ('k, 'z, 'a) seal_action" where
  "on_kv m = State (\<lambda>s. case run_state m (sm_node s) of (a, n) \<Rightarrow> (a, s\<lparr>sm_node := n\<rparr>))"

definition on_km :: "('k \<Rightarrow> 'a \<times> 'k) \<Rightarrow> ('k, 'z, 'a) seal_action" where
  "on_km f = State (\<lambda>s. case f (sm_km s) of (a, k) \<Rightarrow> (a, s\<lparr>sm_km := k\<rparr>))"

definition set_flags :: "bool \<Rightarrow> bool \<Rightarrow> ('k, 'z, unit) seal_action" where
  "set_flags ini sealed = State (\<lambda>s. ((), s\<lparr>sm_initialized := ini, sm_sealed := sealed\<rparr>))"

definition sealStatusPath :: string where
  "sealStatusPath = ''/_system/seal/status''"

definition masterKeyBlobPath :: string where
  "masterKeyBlobPath = ''/_system/seal/master_key_blob''"

definition sealInitializedKey :: string where
  "sealInitializedKey = ''/_system/seal/initialized''"

record SealStatus =
  st_Sealed :: bool
  st_Initialized :: bool
  st_ClusterID :: string
  st_NodeID :: string
  st_Backend :: BackendInfo
  st_InitTime :: "string option"
  st_UnsealTime :: "string option"
  st_SealTime :: "string option"

subsection \<open>The JSON texts\<close>

definition omit_empty :: "string \<Rightarrow> string \<Rightarrow> (string \<times> json) list" where
  "omit_empty k s = (if s = [] then [] else [(k, Jstr s)])"

definition omit_nil :: "string \<Rightarrow> string option \<Rightarrow> (string \<times> json) list" where
  "omit_nil k t = (case t of None \<Rightarrow> [] | Some s \<Rightarrow> [(k, Jstr s)])"

definition backend_json :: "BackendInfo \<Rightarrow> json" where
  "backend_json b = Jobj
     ([(''type'', Jstr (backend_string (bi_Type b)))] @ omit_empty ''version'' (bi_Version b)
      @ [(''available'', Jbool (bi_Available b))]
      @ (if bi_Features b = [] then [] else [(''features'', Jarr (map Jstr (bi_Features b)))])
      @ (if bi_Metadata b = [] then [] else [(''metadata'', enc_string_map (bi_Metadata b))])
      @ [(''fallback_used'', Jbool (bi_FallbackUsed b))])"

definition init_json :: "string \<Rightarrow> string \<Rightarrow> string \<Rightarrow> BackendInfo \<Rightarrow> json" where
  "init_json now clusterID nodeID b = Jobj
     [(''backend'', backend_json b), (''cluster_id'', Jstr clusterID), (''init_time'', Jstr now),
      (''initialized'', Jbool True), (''node_id'', Jstr nodeID)]"

definition status_json :: "SealStatus \<Rightarrow> json" where
  "status_json st = Jobj
     ([(''sealed'', Jbool (st_Sealed st)), (''initialized'', Jbool (st_Initialized st)),
       (''cluster_id'', Jstr (st_ClusterID st)), (''node_id'', Jstr (st_NodeID st)),
       (''backend'', backend_json (st_Backend st))]
      @ omit_nil ''init_time'' (st_InitTime st) @ omit_nil ''unseal_time'' (st_UnsealTime st)
      @ omit_nil ''seal_time'' (st_SealTime st))"

subsection \<open>seal.go\<close>

fun wait_loop :: "raft_env \<Rightarrow> wait_event list \<Rightarrow> raft_err option outcome action" where
  "wait_loop R [] = ret Blocks"
| "wait_loop R (CtxDone e # es) = ret (Returns (Some e))"
| "wait_loop R (Tick applied # es) = do {
     n \<leftarrow> get_node;
     _ \<leftarrow> observe R;
     if node_started n \<and> applied then ret (Returns None) else wait_loop R es
   }"

definition waitForReady :: "raft_env \<Rightarrow> wait_env \<Rightarrow> raft_err option outcome action" where
  "waitForReady R W = do { n \<leftarrow> get_node; wait_loop R (W (node_clock n)) }"

text \<open>The wait of \<open>loadStateLocked\<close> has a context of five seconds, at most fifty ticks.\<close>

fun is_tick :: "wait_event \<Rightarrow> bool" where
  "is_tick (Tick b) = True"
| "is_tick (CtxDone e) = False"

definition with_timeout :: "wait_env \<Rightarrow> wait_env" where
  "with_timeout W = (\<lambda>n. filter is_tick (take 50 (W n)) @ [CtxDone (Errorf ''context deadline exceeded'')])"

definition loadStateLocked :: "raft_env \<Rightarrow> 'k KeyManager \<Rightarrow> json_env \<Rightarrow> wait_env \<Rightarrow> ('k, 'z, seal_err option) seal_action" where
  "loadStateLocked R K J W = do {
     w \<leftarrow> on_kv (waitForReady R (with_timeout W));
     case w of
       Returns (Some e) \<Rightarrow> sret (Some (SRaft e))
     | Returns None \<Rightarrow> do {
         g \<leftarrow> on_kv (kv_Get R sealInitializedKey ReadModeStale);
         case g of
           Inl e \<Rightarrow> sret (Some (SWrapf ''failed to check initialization'' (SRaft e)))
         | Inr entry \<Rightarrow>
             (case unmarshal_map J (entry_Value entry) of
                None \<Rightarrow> sret (Some (SWrapf ''failed to unmarshal init data'' (SErrorf ''json'')))
              | Some initData \<Rightarrow>
                  (if map_of initData ''initialized'' \<noteq> Some (Jbool True) then sret (Some (SKm ErrNotInitialized))
                   else do {
                     s \<leftarrow> sget;
                     set_flags True (im_IsSealed K (sm_km s));
                     sret None
                   }))
       }
     | _ \<Rightarrow> sret (Some (SErrorf ''context deadline exceeded''))
   }"

definition init_time_of :: "json_env \<Rightarrow> (raft_err, KVEntry) result \<Rightarrow> string option" where
  "init_time_of J r =
     (case r of
        Inl e \<Rightarrow> None
      | Inr entry \<Rightarrow>
          (case unmarshal_map J (entry_Value entry) of
             None \<Rightarrow> None
           | Some initData \<Rightarrow>
               (case map_of initData ''init_time'' of
                  Some (Jstr t) \<Rightarrow> if je_time_ok J t then Some t else None
                | _ \<Rightarrow> None)))"

definition getStatusLocked :: "raft_env \<Rightarrow> 'k KeyManager \<Rightarrow> json_env \<Rightarrow> ('k, 'z, SealStatus) seal_action" where
  "getStatusLocked R K J = do {
     s \<leftarrow> sget;
     initTime \<leftarrow> (if sm_initialized s
        then do { g \<leftarrow> on_kv (kv_Get R sealInitializedKey ReadModeStale); sret (init_time_of J g) }
        else sret None);
     ob \<leftarrow> on_kv (observe R);
     (let now = je_time J (ob_now ob) in
      sret \<lparr>st_Sealed = sm_sealed s, st_Initialized = sm_initialized s, st_ClusterID = sm_clusterID s,
            st_NodeID = sm_nodeID s, st_Backend = im_GetBackendInfo K (sm_km s), st_InitTime = initTime,
            st_UnsealTime = (if sm_sealed s then None else Some now),
            st_SealTime = (if sm_sealed s then Some now else None)\<rparr>)
   }"

definition updateStatusLocked :: "raft_env \<Rightarrow> SealStatus \<Rightarrow> ('k, 'z, seal_err option) seal_action" where
  "updateStatusLocked R status = do {
     e \<leftarrow> on_kv (kv_Put R sealStatusPath (json_text (status_json status)) []);
     sret (case e of Some err \<Rightarrow> Some (SWrapf ''failed to update status'' (SRaft err)) | None \<Rightarrow> None)
   }"

text \<open>The tail shared by the three transitions: a failed update is only logged.\<close>

definition publish_status :: "raft_env \<Rightarrow> 'k KeyManager \<Rightarrow> json_env \<Rightarrow> ('k, 'z, SealStatus) seal_action" where
  "publish_status R K J = do {
     status \<leftarrow> getStatusLocked R K J;
     _ \<leftarrow> updateStatusLocked R status;
     sret status
   }"

definition sm_Initialize ::
  "raft_env \<Rightarrow> 'k KeyManager \<Rightarrow> json_env \<Rightarrow> wait_env \<Rightarrow> ('k, 'z, (seal_err, SealStatus) result outcome) seal_action" where
  "sm_Initialize R K J W = do {
     s \<leftarrow> sget;
     if sm_initialized s then sret (Returns (Inl (SKm ErrAlreadyInitialized)))
     else do {
       w \<leftarrow> on_kv (waitForReady R W);
       case w of
         Blocks \<Rightarrow> sret Blocks
       | Panics \<Rightarrow> sret Panics
       | Returns (Some e) \<Rightarrow> sret (Returns (Inl (SWrapf ''cluster not ready'' (SRaft e))))
       | Returns None \<Rightarrow> do {
           b \<leftarrow> on_km (im_Initialize K);
           case b of
             Inl e \<Rightarrow> sret (Returns (Inl (SWrapf ''failed to initialize key manager'' (SKm e))))
           | Inr masterKeyBlob \<Rightarrow> do {
               p \<leftarrow> on_kv (kv_Put R masterKeyBlobPath masterKeyBlob []);
               case p of
                 Some e \<Rightarrow> sret (Returns (Inl (SWrapf ''failed to store master key blob'' (SRaft e))))
               | None \<Rightarrow> do {
                   ob \<leftarrow> on_kv (observe R);
                   s \<leftarrow> sget;
                   q \<leftarrow> on_kv (kv_Put R sealInitializedKey
                          (json_text (init_json (je_time J (ob_now ob)) (sm_clusterID s) (sm_nodeID s)
                             (im_GetBackendInfo K (sm_km s)))) []);
                   case q of
                     Some e \<Rightarrow> sret (Returns (Inl (SWrapf ''failed to store initialization marker'' (SRaft e))))
                   | None \<Rightarrow> do {
                       set_flags True False;
                       status \<leftarrow> publish_status R K J;
                       sret (Returns (Inr status))
                     }
                 }
             }
         }
     }
   }"

definition sm_Seal :: "raft_env \<Rightarrow> 'k KeyManager \<Rightarrow> json_env \<Rightarrow> ('k, 'z, seal_err option) seal_action" where
  "sm_Seal R K J = do {
     s \<leftarrow> sget;
     if \<not> sm_initialized s then sret (Some (SKm ErrNotInitialized))
     else if sm_sealed s then sret None
     else do {
       e \<leftarrow> on_km (im_Seal K);
       case e of
         Some err \<Rightarrow> sret (Some (SWrapf ''failed to seal key manager'' (SKm err)))
       | None \<Rightarrow> do {
           set_flags True True;
           _ \<leftarrow> publish_status R K J;
           sret None
         }
     }
   }"

text \<open>The part of \<open>Unseal\<close> after the checks of the flags.\<close>

definition unseal_now ::
  "raft_env \<Rightarrow> 'k KeyManager \<Rightarrow> json_env \<Rightarrow> wait_env \<Rightarrow> ('k, 'z, seal_err option outcome) seal_action" where
  "unseal_now R K J W = do {
     w \<leftarrow> on_kv (waitForReady R W);
     case w of
       Blocks \<Rightarrow> sret Blocks
     | Panics \<Rightarrow> sret Panics
     | Returns (Some e) \<Rightarrow> sret (Returns (Some (SWrapf ''cluster not ready'' (SRaft e))))
     | Returns None \<Rightarrow> do {
         g \<leftarrow> on_kv (kv_Get R masterKeyBlobPath ReadModeStale);
         case g of
           Inl e \<Rightarrow> sret (Returns (Some (SWrapf ''failed to retrieve master key blob'' (SRaft e))))
         | Inr entry \<Rightarrow> do {
             u \<leftarrow> on_km (im_Unseal K (entry_Value entry));
             case u of
               Blocks \<Rightarrow> sret Blocks
             | Panics \<Rightarrow> sret Panics
             | Returns (Some e) \<Rightarrow> sret (Returns (Some (SWrapf ''failed to unseal key manager'' (SKm e))))
             | Returns None \<Rightarrow> do {
                 set_flags True False;
                 _ \<leftarrow> publish_status R K J;
                 sret (Returns None)
               }
           }
       }
   }"

definition sm_Unseal ::
  "raft_env \<Rightarrow> 'k KeyManager \<Rightarrow> json_env \<Rightarrow> wait_env \<Rightarrow> ('k, 'z, seal_err option outcome) seal_action" where
  "sm_Unseal R K J W = do {
     s \<leftarrow> sget;
     l \<leftarrow> (if \<not> sm_initialized s then loadStateLocked R K J W else sret None);
     case l of
       Some e \<Rightarrow> sret (Returns (Some (SWrapf ''not initialized'' e)))
     | None \<Rightarrow> do {
         s' \<leftarrow> sget;
         if \<not> sm_sealed s' then sret (Returns None) else unseal_now R K J W
       }
   }"

definition AutoUnseal ::
  "raft_env \<Rightarrow> 'k KeyManager \<Rightarrow> json_env \<Rightarrow> wait_env \<Rightarrow> ('k, 'z, seal_err option outcome) seal_action" where
  "AutoUnseal R K J W = do {
     l \<leftarrow> loadStateLocked R K J W;
     case l of
       Some e \<Rightarrow> sret (Returns None)
     | None \<Rightarrow> do {
         s \<leftarrow> sget;
         if \<not> sm_sealed s then sret (Returns None) else sm_Unseal R K J W
       }
   }"

definition sm_Status :: "raft_env \<Rightarrow> 'k KeyManager \<Rightarrow> json_env \<Rightarrow> wait_env \<Rightarrow> ('k, 'z, SealStatus) seal_action" where
  "sm_Status R K J W = do {
     s \<leftarrow> sget;
     _ \<leftarrow> (if \<not> sm_initialized s then loadStateLocked R K J W else sret None);
     getStatusLocked R K J
   }"

definition sm_Close :: "'k KeyManager \<Rightarrow> ('k, 'z, km_err option) seal_action" where
  "sm_Close K = on_km (im_Close K)"

text \<open>\<open>NewSealManager\<close> for a node and the key manager just created.\<close>

definition NewSealManager ::
  "raft_env \<Rightarrow> 'k KeyManager \<Rightarrow> json_env \<Rightarrow> wait_env \<Rightarrow> Node \<Rightarrow> 'k \<Rightarrow> string \<Rightarrow> string \<Rightarrow> 'k seal_state" where
  "NewSealManager R K J W node km clusterID nodeID =
     snd (run_state (loadStateLocked R K J W)
       \<lparr>sm_node = node, sm_km = km, sm_clusterID = clusterID, sm_nodeID = nodeID,
        sm_initialized = False, sm_sealed = True\<rparr>)"

subsection \<open>Sequences of calls\<close>

datatype seal_op = SInitialize | SSeal | SUnseal | SAutoUnseal | SStatus | SKV kv_op

fun exec_seal_op ::
  "raft_env \<Rightarrow> 'k KeyManager \<Rightarrow> json_env \<Rightarrow> wait_env \<Rightarrow> seal_op \<Rightarrow> ('k, 'z, unit) seal_action" where
  "exec_seal_op R K J W SInitialize = do { _ \<leftarrow> sm_Initialize R K J W; sret () }"
| "exec_seal_op R K J W SSeal = do { _ \<leftarrow> sm_Seal R K J; sret () }"
| "exec_seal_op R K J W SUnseal = do { _ \<leftarrow> sm_Unseal R K J W; sret () }"
| "exec_seal_op R K J W SAutoUnseal = do { _ \<leftarrow> AutoUnseal R K J W; sret () }"
| "exec_seal_op R K J W SStatus = do { _ \<leftarrow> sm_Status R K J W; sret () }"
| "exec_seal_op R K J W (SKV c) = on_kv (exec_kv_op R c)"

subsection \<open>Lemmas: what the calls change\<close>

text \<open>\<open>same_seal\<close>: only the node has moved on, and its store only through the log.\<close>

definition same_seal :: "('k, 'z) seal_state_scheme \<Rightarrow> ('k, 'z) seal_state_scheme \<Rightarrow> bool" where
  "same_seal s s' \<longleftrightarrow> (\<exists>n. s' = s\<lparr>sm_node := n\<rparr> \<and> log_extends (sm_node s) n)"

named_theorems via_kv \<open>actions that only move the node on\<close>

lemma same_seal_refl: "same_seal s s"
  unfolding same_seal_def by (rule exI [of _ "sm_node s"]) (simp add: log_extends_refl)

lemma same_seal_trans: "same_seal s t \<Longrightarrow> same_seal t u \<Longrightarrow> same_seal s u"
  unfolding same_seal_def using log_extends_trans by auto

interpretation seal_io: io_preorder same_seal
  by unfold_locales (fact same_seal_refl, fact same_seal_trans)

lemma run_on_kv: "run_state (on_kv m) s = (fst (run_state m (sm_node s)), s\<lparr>sm_node := snd (run_state m (sm_node s))\<rparr>)"
  by (simp add: on_kv_def split: prod.split)

lemma run_on_km: "run_state (on_km f) s = (fst (f (sm_km s)), s\<lparr>sm_km := snd (f (sm_km s))\<rparr>)"
  by (simp add: on_km_def split: prod.split)

lemma run_set_flags: "run_state (set_flags i b) s = ((), s\<lparr>sm_initialized := i, sm_sealed := b\<rparr>)"
  by (simp add: set_flags_def)

lemmas seal_runs = run_on_kv run_on_km run_set_flags

lemma on_kv_via [via_kv]: "state_io_rel log_extends m \<Longrightarrow> state_io_rel same_seal (on_kv m)"
  by (auto simp: state_io_rel_def same_seal_def run_on_kv)

lemma wait_loop_via_log [via_log]: "state_io_rel log_extends (wait_loop R es)"
  by (induction R es rule: wait_loop.induct) (auto intro!: ext.io_intros via_log)

lemma waitForReady_via_log [via_log]: "state_io_rel log_extends (waitForReady R W)"
  unfolding waitForReady_def by (intro ext.io_intros via_log)

lemma getStatusLocked_via [via_kv]: "state_io_rel same_seal (getStatusLocked R K J)"
  unfolding getStatusLocked_def by (intro seal_io.io_intros via_kv via_log)

lemma updateStatusLocked_via [via_kv]: "state_io_rel same_seal (updateStatusLocked R st)"
  unfolding updateStatusLocked_def by (intro seal_io.io_intros via_kv via_log)

lemma publish_status_via [via_kv]: "state_io_rel same_seal (publish_status R K J)"
  unfolding publish_status_def by (intro seal_io.io_intros via_kv via_log)

text \<open>\<open>same_km s s' k\<close>: the flags and identifiers are kept, the key manager is \<open>k\<close>.\<close>

lemma same_sealD:
  assumes "same_seal s s'"
  shows "sm_km s' = sm_km s" "sm_initialized s' = sm_initialized s" "sm_sealed s' = sm_sealed s"
    "log_extends (sm_node s) (sm_node s')" "sm_clusterID s' = sm_clusterID s" "sm_nodeID s' = sm_nodeID s"
  using assms by (auto simp: same_seal_def)

lemma loadStateLocked_effect:
  assumes "run_state (loadStateLocked R K J W) s = (r, s')"
  shows "sm_km s' = sm_km s \<and> log_extends (sm_node s) (sm_node s')
       \<and> (if r = None then sm_initialized s' \<and> sm_sealed s' = im_IsSealed K (sm_km s)
          else sm_initialized s' = sm_initialized s \<and> sm_sealed s' = sm_sealed s)"
proof -
  let ?w = "run_state (waitForReady R (with_timeout W)) (sm_node s)"
  have w: "log_extends (sm_node s) (snd ?w)" using state_io_relD [OF waitForReady_via_log] by (metis prod.collapse)
  have g: "log_extends m (snd (run_state (kv_Get R k md) m))" for m k md
    using state_io_relD [OF kv_Get_via_log] by (metis prod.collapse)
  show ?thesis
    using assms w log_extends_trans [OF w g]
    by (auto simp: loadStateLocked_def seal_runs split: outcome.splits option.splits sum.splits if_splits)
qed

text \<open>Every way in which the three transitions can move the state.\<close>

lemma run_via_kv:
  assumes "state_io_rel same_seal m"
  shows "same_seal s (snd (run_state m s))"
  using state_io_relD [OF assms] by (metis prod.collapse)

lemma log_extends_run:
  assumes "state_io_rel log_extends m"
  shows "log_extends n (snd (run_state m n))"
  using state_io_relD [OF assms] by (metis prod.collapse)

lemmas log_steps = log_extends_run [OF waitForReady_via_log] log_extends_run [OF kv_Get_via_log]
  log_extends_run [OF kv_Put_via_log] log_extends_run [OF observe_via_log] log_extends_refl

text \<open>\<open>moves s s' k i b\<close>: the key manager is now \<open>k\<close>, the flags are \<open>i\<close> and \<open>b\<close>, and the node has
  moved on.\<close>

definition moves :: "('k, 'z) seal_state_scheme \<Rightarrow> ('k, 'z) seal_state_scheme \<Rightarrow> 'k \<Rightarrow> bool \<Rightarrow> bool \<Rightarrow> bool" where
  "moves s s' k i b \<longleftrightarrow> sm_km s' = k \<and> sm_initialized s' = i \<and> sm_sealed s' = b \<and> log_extends (sm_node s) (sm_node s')"

lemma moves_same: "same_seal s s' \<Longrightarrow> moves s s' (sm_km s) (sm_initialized s) (sm_sealed s)"
  by (simp add: moves_def same_sealD)

lemma moves_publish:
  assumes "log_extends (sm_node s) (sm_node t)"
  shows "moves s (snd (run_state (publish_status R K J) t)) (sm_km t) (sm_initialized t) (sm_sealed t)"
  using same_sealD [OF run_via_kv [OF publish_status_via], where s = t] log_extends_trans [OF assms]
  by (auto simp: moves_def)

lemma sm_Seal_effect:
  assumes "run_state (sm_Seal R K J) s = (r, s')"
  obtains (kept) "s' = s" and "r = (if sm_initialized s then None else Some (SKm ErrNotInitialized))"
      and "\<not> sm_initialized s \<or> sm_sealed s"
  | (failed) e k where "\<not> sm_sealed s" and "sm_initialized s" and "im_Seal K (sm_km s) = (Some e, k)" and "moves s s' k True False"
      and "r \<noteq> None"
  | (sealed) k where "\<not> sm_sealed s" and "sm_initialized s" and "im_Seal K (sm_km s) = (None, k)" and "moves s s' k True True"
      and "r = None"
proof (cases "sm_initialized s \<and> \<not> sm_sealed s")
  case True
  obtain x k where x: "im_Seal K (sm_km s) = (x, k)" by fastforce
  show thesis
  proof (cases x)
    case None
    let ?t = "s\<lparr>sm_km := k, sm_initialized := True, sm_sealed := True\<rparr>"
    have "moves s (snd (run_state (publish_status R K J) ?t)) k True True"
      using moves_publish [of s ?t R K J] log_extends_refl by simp
    with assms x None True show thesis by (intro sealed [of k]) (auto simp: sm_Seal_def seal_runs case_prod_beta)
  next
    case (Some e)
    with assms x True show thesis
      by (intro failed [of e k]) (auto simp: sm_Seal_def seal_runs moves_def log_extends_refl)
  qed
qed (use assms kept in \<open>auto simp: sm_Seal_def split: if_splits\<close>)

lemma unseal_now_effect:
  assumes "run_state (unseal_now R K J W) s = (r, s')"
  obtains (kept) "moves s s' (sm_km s) (sm_initialized s) (sm_sealed s)" and "r \<noteq> Returns None"
  | (failed) b x k where "im_Unseal K b (sm_km s) = (x, k)" and "x \<noteq> Returns None"
      and "moves s s' k (sm_initialized s) (sm_sealed s)" and "r \<noteq> Returns None"
  | (unsealed) b k where "im_Unseal K b (sm_km s) = (Returns None, k)" and "r = Returns None" and "moves s s' k True False"
proof -
  let ?w = "run_state (waitForReady R W) (sm_node s)"
  let ?g = "run_state (kv_Get R masterKeyBlobPath ReadModeStale) (snd ?w)"
  have n: "log_extends (sm_node s) (snd ?w)" "log_extends (sm_node s) (snd ?g)"
    using log_steps(1) log_steps(2) log_extends_trans by blast+
  consider (wait) "fst ?w \<noteq> Returns None" | (get) e where "fst ?w = Returns None" "fst ?g = Inl e"
    | (un) e where "fst ?w = Returns None" "fst ?g = Inr e" by (metis sum.exhaust)
  then show thesis
  proof cases
    case wait
    with assms n show thesis
      by (intro kept) (auto simp: unseal_now_def seal_runs moves_def split: outcome.splits option.splits)
  next
    case get
    with assms n show thesis by (intro kept) (auto simp: unseal_now_def seal_runs moves_def)
  next
    case un
    obtain x k where x: "im_Unseal K (entry_Value e) (sm_km s) = (x, k)" by fastforce
    let ?t = "s\<lparr>sm_node := snd ?g, sm_km := k\<rparr>"
    let ?u = "?t\<lparr>sm_initialized := True, sm_sealed := False\<rparr>"
    show thesis
    proof (cases "x = Returns None")
      case True
      have "moves s (snd (run_state (publish_status R K J) ?u)) k True False"
        using moves_publish [of s ?u R K J] n by simp
      with assms un x True show thesis
        by (intro unsealed [of "entry_Value e" k]) (auto simp: unseal_now_def seal_runs case_prod_beta)
    next
      case False
      have "s' = ?t" "r \<noteq> Returns None"
        using assms un x False by (auto simp: unseal_now_def seal_runs split: outcome.splits option.splits)
      then show thesis using x False n by (intro failed [of "entry_Value e" x k]) (auto simp: moves_def)
    qed
  qed
qed

lemma sm_Initialize_effect:
  assumes "run_state (sm_Initialize R K J W) s = (r, s')"
  obtains (kept) "moves s s' (sm_km s) (sm_initialized s) (sm_sealed s)" and "\<And>st. r \<noteq> Returns (Inr st)"
  | (failed) x k where "\<not> sm_initialized s" and "im_Initialize K (sm_km s) = (x, k)"
      and "moves s s' k False (sm_sealed s)" and "\<And>st. r \<noteq> Returns (Inr st)"
  | (initialized) b k st where "\<not> sm_initialized s" and "im_Initialize K (sm_km s) = (Inr b, k)"
      and "moves s s' k True False" and "r = Returns (Inr st)"
proof (cases "sm_initialized s")
  case True
  with assms show thesis by (intro kept) (auto simp: sm_Initialize_def moves_def log_extends_refl)
next
  case False
  let ?w = "run_state (waitForReady R W) (sm_node s)"
  have w: "log_extends (sm_node s) (snd ?w)" by (rule log_steps)
  show thesis
  proof (cases "fst ?w = Returns None")
    case ready: True
    obtain x k where x: "im_Initialize K (sm_km s) = (x, k)" by fastforce
    show thesis
    proof (cases x)
      case (Inl e)
      with assms False ready x w show thesis
        by (intro failed [of x k]) (auto simp: sm_Initialize_def seal_runs moves_def)
    next
      case (Inr b)
      let ?p = "run_state (kv_Put R masterKeyBlobPath b []) (snd ?w)"
      let ?o = "run_state (observe R) (snd ?p)"
      let ?v = "json_text (init_json (je_time J (ob_now (fst ?o))) (sm_clusterID s) (sm_nodeID s) (im_GetBackendInfo K k))"
      let ?q = "run_state (kv_Put R sealInitializedKey ?v []) (snd ?o)"
      have n1: "log_extends (sm_node s) (snd ?p)" by (rule log_extends_trans [OF w log_steps(3)])
      have "log_extends (sm_node s) (snd ?q)"
        by (rule log_extends_trans [OF log_extends_trans [OF n1 log_steps(4)] log_steps(3)])
      note n = n1 this
      show thesis
      proof (cases "fst ?p = None \<and> fst ?q = None")
        case True
        let ?u = "s\<lparr>sm_km := k, sm_node := snd ?q, sm_initialized := True, sm_sealed := False\<rparr>"
        have "moves s (snd (run_state (publish_status R K J) ?u)) k True False"
          using moves_publish [of s ?u R K J] n by simp
        with assms False ready x Inr True show thesis
          by (intro initialized [of b k "fst (run_state (publish_status R K J) ?u)"])
             (auto simp: sm_Initialize_def seal_runs case_prod_beta)
      next
        case fail: False
        show thesis
        proof (cases "fst ?p")
          case None
          with fail assms False ready x Inr n show thesis
            by (intro failed [of x k]) (auto simp: sm_Initialize_def seal_runs moves_def)
        next
          case (Some e)
          with assms False ready x Inr n show thesis
            by (intro failed [of x k]) (auto simp: sm_Initialize_def seal_runs moves_def)
        qed
      qed
    qed
  next
    case False
    with assms \<open>\<not> sm_initialized s\<close> w show thesis
      by (intro kept) (auto simp: sm_Initialize_def seal_runs moves_def split: outcome.splits option.splits)
  qed
qed

subsection \<open>The invariant\<close>

text \<open>
  An unsealed manager is initialised and its key manager holds the keys. The converse does
  not hold: after a failed initialisation the key manager may hold keys while the manager
  still counts as sealed.
\<close>

definition seal_inv :: "('k \<Rightarrow> bool) \<Rightarrow> ('k \<Rightarrow> 'm option) \<Rightarrow> ('k, 'z) seal_state_scheme \<Rightarrow> bool" where
  "seal_inv ok keys s \<longleftrightarrow> ok (sm_km s) \<and> fsm_wf (node_fsm (sm_node s))
     \<and> (\<not> sm_sealed s \<longrightarrow> sm_initialized s \<and> keys (sm_km s) \<noteq> None)"

lemma moves_inv:
  "seal_inv ok keys s \<Longrightarrow> moves s s' k i b \<Longrightarrow> ok k \<Longrightarrow> (\<not> b \<Longrightarrow> i \<and> keys k \<noteq> None) \<Longrightarrow> seal_inv ok keys s'"
  by (auto simp: seal_inv_def moves_def intro: log_extends_wf)

context key_manager
begin

lemma unsealed_keys: "seal_inv ok keys s \<Longrightarrow> \<not> sm_sealed s \<Longrightarrow> sm_initialized s \<and> keys (sm_km s) \<noteq> None"
  by (simp add: seal_inv_def)

lemma ok_calls_run:
  "ok k \<Longrightarrow> im_Initialize K k = (x, k') \<Longrightarrow> ok k'" "ok k \<Longrightarrow> im_Seal K k = (y, k') \<Longrightarrow> ok k'"
  "ok k \<Longrightarrow> im_Unseal K b k = (z, k') \<Longrightarrow> ok k'"
  using ok_calls [of k] by (metis snd_conv)+

lemma seal_inv_kv:
  assumes "seal_inv ok keys s" and "state_io_rel same_seal m"
  shows "seal_inv ok keys (snd (run_state m s))"
  using moves_inv [OF assms(1) moves_same [OF run_via_kv [OF assms(2)]]] assms(1) by (auto simp: seal_inv_def)

lemma seal_inv_load:
  assumes "seal_inv ok keys s" and "run_state (loadStateLocked R K J W) s = (r, s')"
  shows "seal_inv ok keys s'"
  using loadStateLocked_effect [OF assms(2)] assms(1) sealed_iff [of "sm_km s"]
  by (auto simp: seal_inv_def intro: log_extends_wf split: if_splits)

lemma seal_inv_Initialize:
  assumes "seal_inv ok keys s" and "run_state (sm_Initialize R K J W) s = (r, s')"
  shows "seal_inv ok keys s'"
  using assms(2)
proof (cases rule: sm_Initialize_effect)
  case kept
  with assms(1) show ?thesis using moves_inv unsealed_keys by (metis seal_inv_def)
next
  case (failed x k)
  then have "ok k" "sm_sealed s" using assms(1) ok_calls_run(1) unsealed_keys by (auto simp: seal_inv_def)
  with failed(3) show ?thesis by (intro moves_inv [OF assms(1)]) auto
next
  case (initialized b k st)
  then have "ok k" "keys k \<noteq> None" using assms(1) ok_calls_run(1) Initialize_law by (auto simp: seal_inv_def)
  with initialized(3) show ?thesis by (intro moves_inv [OF assms(1)]) auto
qed

lemma seal_inv_Seal:
  assumes "seal_inv ok keys s" and "run_state (sm_Seal R K J) s = (r, s')"
  shows "seal_inv ok keys s'"
  using assms(2)
proof (cases rule: sm_Seal_effect)
  case (failed e k)
  then have False using Seal_unsealed [of "sm_km s"] assms(1) unsealed_keys [OF assms(1)] by (auto simp: seal_inv_def)
  then show ?thesis ..
next
  case (sealed k)
  with assms(1) have "ok k" using ok_calls_run(2) by (auto simp: seal_inv_def)
  with sealed(4) show ?thesis by (intro moves_inv [OF assms(1)]) auto
qed (use assms(1) in simp)

lemma seal_inv_unseal_now:
  assumes "seal_inv ok keys s" and "sm_sealed s" and "run_state (unseal_now R K J W) s = (r, s')"
  shows "seal_inv ok keys s'"
  using assms(3)
proof (cases rule: unseal_now_effect)
  case kept
  then show ?thesis using assms(1,2) by (intro moves_inv [OF assms(1)]) (auto simp: seal_inv_def)
next
  case (failed b x k)
  then have "ok k" using assms(1) ok_calls_run(3) by (auto simp: seal_inv_def)
  with failed(3) assms(2) show ?thesis by (intro moves_inv [OF assms(1)]) auto
next
  case (unsealed b k)
  then have "ok k" "keys k \<noteq> None" using assms(1) ok_calls_run(3) Unseal_opens by (auto simp: seal_inv_def)
  with unsealed(3) show ?thesis by (intro moves_inv [OF assms(1)]) auto
qed

lemma seal_inv_Unseal:
  assumes "seal_inv ok keys s"
  shows "seal_inv ok keys (snd (run_state (sm_Unseal R K J W) s))"
proof -
  let ?l = "if \<not> sm_initialized s then loadStateLocked R K J W else sret None"
  obtain l t where l: "run_state ?l s = (l, t)" by fastforce
  have t: "seal_inv ok keys t"
    using l assms seal_inv_load by (cases "sm_initialized s") auto
  show ?thesis
    using seal_inv_unseal_now [OF t _ prod.collapse [symmetric]] l t
    by (cases l) (auto simp: sm_Unseal_def)
qed

lemma seal_inv_AutoUnseal:
  assumes "seal_inv ok keys s"
  shows "seal_inv ok keys (snd (run_state (AutoUnseal R K J W) s))"
proof -
  obtain l t where l: "run_state (loadStateLocked R K J W) s = (l, t)" by fastforce
  have t: "seal_inv ok keys t" using seal_inv_load [OF assms l] .
  show ?thesis using seal_inv_Unseal [OF t] l t by (cases l) (auto simp: AutoUnseal_def)
qed

lemma seal_inv_Status:
  assumes "seal_inv ok keys s"
  shows "seal_inv ok keys (snd (run_state (sm_Status R K J W) s))"
proof -
  let ?l = "if \<not> sm_initialized s then loadStateLocked R K J W else sret None"
  obtain l t where l: "run_state ?l s = (l, t)" by fastforce
  have t: "seal_inv ok keys t"
    using l assms seal_inv_load by (cases "sm_initialized s") auto
  show ?thesis using seal_inv_kv [OF t getStatusLocked_via] l by (simp add: sm_Status_def)
qed

lemma seal_inv_op:
  assumes "seal_inv ok keys s"
  shows "seal_inv ok keys (snd (run_state (exec_seal_op R K J W c) s))"
proof (cases c)
  case SInitialize
  with seal_inv_Initialize [OF assms prod.collapse [symmetric]] show ?thesis by (simp add: case_prod_beta)
next
  case SSeal
  with seal_inv_Seal [OF assms prod.collapse [symmetric]] show ?thesis by (simp add: case_prod_beta)
next
  case (SKV x)
  with seal_inv_kv [OF assms on_kv_via [OF exec_kv_op_via_log]] show ?thesis by simp
qed (use seal_inv_Unseal [OF assms] seal_inv_AutoUnseal [OF assms] seal_inv_Status [OF assms] in \<open>simp_all add: case_prod_beta\<close>)

end

sublocale key_manager \<subseteq> seal_calls: machine "\<lambda>c s. snd (run_state (exec_seal_op R K J W c) s)" "seal_inv ok keys" for R J W
  by unfold_locales (rule seal_inv_op)

subsection \<open>Lemmas: the calls on a stable leader\<close>

text \<open>\<open>ready W\<close>: the cluster has applied entries, so that no wait takes more than one tick.\<close>

definition ready :: "wait_env \<Rightarrow> bool" where
  "ready W \<longleftrightarrow> (\<forall>n. \<exists>es. W n = Tick True # es)"

abbreviation seal_kv :: "('k, 'z) seal_state_scheme \<Rightarrow> string \<rightharpoonup> bytes" where
  "seal_kv s \<equiv> kv_abs (node_fsm (sm_node s))"

lemma ready_with_timeout: "ready W \<Longrightarrow> ready (with_timeout W)"
proof -
  assume "ready W"
  then have "\<exists>es. with_timeout W n = Tick True # es" for n
    by (auto simp: ready_def with_timeout_def dest!: spec [of _ n])
  then show ?thesis by (simp add: ready_def)
qed

lemma waitForReady_ready:
  assumes "ready W" and "quiet R" and "node_started n"
  shows "run_state (waitForReady R W) n = (Returns None, n\<lparr>node_clock := Suc (node_clock n)\<rparr>)"
proof -
  obtain es where "W (node_clock n) = Tick True # es" using assms(1) unfolding ready_def by blast
  with assms(2,3) show ?thesis by (simp add: waitForReady_def runs quiet_def)
qed

lemma kv_Get_stale:
  assumes "quiet R" and "node_started n"
  shows "run_state (kv_Get R k ReadModeStale) n = (fsm_Get k (node_fsm n), n\<lparr>node_clock := Suc (node_clock n)\<rparr>)"
  using assms by (simp add: kv_Get_def getStale_def runs quiet_def)

lemma kv_Put_stable_abs:
  assumes "stable_leader R" and "quiet R" and "node_started n" and "isValidKey k" and "run_state (kv_Put R k v []) n = (e, n')"
  shows "node_started n' \<and> kv_abs (node_fsm n') = (if e = None then (kv_abs (node_fsm n))(k \<mapsto> v) else kv_abs (node_fsm n))"
proof -
  let ?a = "Apply (ob_now (R (Suc (node_clock n)))) (Encoded (put_command k v [])) (node_fsm n)"
  have "e = fst ?a" "node_fsm n' = snd ?a" "node_started n'"
    using assms by (auto simp: runs Let_def)
  then show ?thesis
    using Apply_put_ok_abs(2) [of "ob_now (R (Suc (node_clock n)))" k v "[]" "node_fsm n"]
      Apply_put_failed_abs [of "ob_now (R (Suc (node_clock n)))" k v "[]" "node_fsm n"] by (cases e) auto
qed

lemma seal_keys_valid [simp]:
  "isValidKey sealStatusPath" "isValidKey masterKeyBlobPath" "isValidKey sealInitializedKey"
  by (simp_all add: isValidKey_def HasPrefix_def sealStatusPath_def masterKeyBlobPath_def sealInitializedKey_def upt_rec)

lemma seal_keys_distinct [simp]:
  "sealStatusPath \<noteq> masterKeyBlobPath" "sealInitializedKey \<noteq> masterKeyBlobPath" "masterKeyBlobPath \<noteq> sealStatusPath"
  "masterKeyBlobPath \<noteq> sealInitializedKey" "sealStatusPath \<noteq> sealInitializedKey" "sealInitializedKey \<noteq> sealStatusPath"
  by (simp_all add: sealStatusPath_def masterKeyBlobPath_def sealInitializedKey_def)

lemma publish_same: "run_state (publish_status R K J) s = (st, s') \<Longrightarrow> same_seal s s'"
  by (rule state_io_relD [OF publish_status_via])

text \<open>Publishing the status changes the entry of the status only.\<close>

lemma publish_status_stable:
  assumes "stable_leader R" and "quiet R" and "node_started (sm_node s)" and "k \<noteq> sealStatusPath"
    and "run_state (publish_status R K J) s = (st, s')"
  shows "node_started (sm_node s') \<and> seal_kv s' k = seal_kv s k"
proof -
  obtain st1 t where t: "run_state (getStatusLocked R K J) s = (st1, t)" by fastforce
  have "node_fsm (sm_node t) = node_fsm (sm_node s) \<and> node_started (sm_node t)"
    using t assms(2,3) by (auto simp: getStatusLocked_def seal_runs kv_Get_stale runs quiet_def Let_def split: if_splits)
  moreover obtain e n' where p: "run_state (kv_Put R sealStatusPath (json_text (status_json st1)) []) (sm_node t) = (e, n')"
    by fastforce
  moreover have "sm_node s' = n'" using assms(5) t p by (auto simp: publish_status_def updateStatusLocked_def seal_runs)
  ultimately show ?thesis
    using kv_Put_stable_abs [OF assms(1,2) _ _ p] assms(4) by auto
qed

context key_manager
begin

text \<open>A successful initialisation leaves its blob in the store.\<close>

lemma Initialize_stores_blob:
  assumes "stable_leader R" and "quiet R" and "ready W" and "node_started (sm_node s)"
    and "run_state (sm_Initialize R K J W) s = (Returns (Inr st), s')"
  obtains b where "im_Initialize K (sm_km s) = (Inr b, sm_km s')" and "seal_kv s' masterKeyBlobPath = Some b"
    and "sm_initialized s'" and "\<not> sm_sealed s'" and "node_started (sm_node s')"
proof -
  have "\<not> sm_initialized s" using assms(5) by (auto simp: sm_Initialize_def split: if_splits)
  let ?n = "(sm_node s)\<lparr>node_clock := Suc (node_clock (sm_node s))\<rparr>"
  have w: "run_state (waitForReady R W) (sm_node s) = (Returns None, ?n)" by (rule waitForReady_ready [OF assms(3,2,4)])
  obtain x k where x: "im_Initialize K (sm_km s) = (x, k)" by fastforce
  obtain b where b: "x = Inr b"
    using assms(5) w x \<open>\<not> sm_initialized s\<close> by (cases x) (auto simp: sm_Initialize_def seal_runs)
  obtain e1 n1 where p: "run_state (kv_Put R masterKeyBlobPath b []) ?n = (e1, n1)" by fastforce
  obtain ob n2 where o: "run_state (observe R) n1 = (ob, n2)" by fastforce
  let ?v = "json_text (init_json (je_time J (ob_now ob)) (sm_clusterID s) (sm_nodeID s) (im_GetBackendInfo K k))"
  obtain e2 n3 where q: "run_state (kv_Put R sealInitializedKey ?v []) n2 = (e2, n3)" by fastforce
  let ?u = "s\<lparr>sm_km := k, sm_node := n3, sm_initialized := True, sm_sealed := False\<rparr>"
  obtain st' s'' where pub: "run_state (publish_status R K J) ?u = (st', s'')" by fastforce
  have e: "e1 = None" "e2 = None" "s' = s''"
    using assms(5) w x b p o q pub \<open>\<not> sm_initialized s\<close>
    by (auto simp: sm_Initialize_def seal_runs split: option.splits)
  have n1: "node_started n1" "kv_abs (node_fsm n1) masterKeyBlobPath = Some b"
    using kv_Put_stable_abs [OF assms(1,2) _ _ p] assms(4) e(1) by auto
  have n2: "node_started n2" "kv_abs (node_fsm n2) masterKeyBlobPath = Some b"
    using o n1 assms(2) by (auto simp: runs quiet_def)
  have "node_started n3" "kv_abs (node_fsm n3) masterKeyBlobPath = Some b"
    using kv_Put_stable_abs [OF assms(1,2) n2(1) _ q] n2(2) e(2) by auto
  then have fin: "node_started (sm_node s')" "seal_kv s' masterKeyBlobPath = Some b"
    using publish_status_stable [OF assms(1,2) _ _ pub, of masterKeyBlobPath] e(3) by auto
  have "same_seal ?u s'" using publish_same [OF pub] e(3) by simp
  then have "sm_km s' = k" "sm_initialized s'" "\<not> sm_sealed s'" by (simp_all add: same_sealD)
  with fin x b show thesis by (intro that [of b]) auto
qed

text \<open>Sealing keeps the blob, and unsealing with it brings the keys back.\<close>

lemma Seal_keeps_blob:
  assumes "stable_leader R" and "quiet R" and "node_started (sm_node s)" and "ok (sm_km s)" and "keys (sm_km s) \<noteq> None"
    and "sm_initialized s" and "\<not> sm_sealed s" and "run_state (sm_Seal R K J) s = (r, s')"
  shows "r = None \<and> sm_sealed s' \<and> sm_initialized s' \<and> keys (sm_km s') = None \<and> ok (sm_km s') \<and> node_started (sm_node s')
       \<and> seal_kv s' masterKeyBlobPath = seal_kv s masterKeyBlobPath"
proof -
  obtain k where k: "im_Seal K (sm_km s) = (None, k)" using Seal_unsealed [OF assms(4,5)] by (metis prod.collapse)
  let ?t = "s\<lparr>sm_km := k, sm_initialized := True, sm_sealed := True\<rparr>"
  obtain st t' where p: "run_state (publish_status R K J) ?t = (st, t')" by fastforce
  have s': "r = None" "s' = t'" using assms(6-8) k p by (auto simp: sm_Seal_def seal_runs)
  have "same_seal ?t t'" by (rule publish_same [OF p])
  with s' k Seal_law [OF assms(4) k] ok_calls_run(2) [OF assms(4) k]
    publish_status_stable [OF assms(1,2) _ _ p, of masterKeyBlobPath] assms(3)
  show ?thesis by (simp add: same_sealD)
qed

lemma unseal_with_blob:
  assumes "stable_leader R" and "quiet R" and "ready W" and "node_started (sm_node s)"
    and "sm_initialized s" and "sm_sealed s" and "seal_kv s masterKeyBlobPath = Some b"
    and "im_Unseal K b (sm_km s) = (Returns None, k)" and "run_state (sm_Unseal R K J W) s = (r, s')"
  shows "r = Returns None \<and> sm_initialized s' \<and> \<not> sm_sealed s' \<and> sm_km s' = k"
proof -
  let ?n = "(sm_node s)\<lparr>node_clock := Suc (node_clock (sm_node s))\<rparr>"
  have w: "run_state (waitForReady R W) (sm_node s) = (Returns None, ?n)" by (rule waitForReady_ready [OF assms(3,2,4)])
  obtain e where e: "map_of (fsm_data (node_fsm (sm_node s))) masterKeyBlobPath = Some e" "entry_Value e = b"
    using assms(7) by (auto simp: kv_abs_Some_entry)
  have g: "run_state (kv_Get R masterKeyBlobPath ReadModeStale) ?n = (Inr e, ?n\<lparr>node_clock := Suc (node_clock ?n)\<rparr>)"
    using assms(2,4) e(1) by (simp add: kv_Get_stale fsm_Get_def)
  let ?u = "s\<lparr>sm_node := ?n\<lparr>node_clock := Suc (node_clock ?n)\<rparr>, sm_km := k, sm_initialized := True, sm_sealed := False\<rparr>"
  obtain st t' where p: "run_state (publish_status R K J) ?u = (st, t')" by fastforce
  have "r = Returns None" "s' = t'"
    using assms(5,6,8,9) w g e(2) p by (auto simp: sm_Unseal_def unseal_now_def seal_runs)
  moreover have "same_seal ?u t'" by (rule publish_same [OF p])
  ultimately show ?thesis by (simp add: same_sealD)
qed

end

subsection \<open>A concrete cluster, for the witnesses\<close>

definition demo_json :: json_env where
  "demo_json = \<lparr>je_float = Some, je_time = show_int, je_time_ok = (\<lambda>_. True)\<rparr>"

definition demo_wait :: wait_env where
  "demo_wait = (\<lambda>n. [Tick True])"

definition demo_seal :: "softwareKeyManager seal_state" where
  "demo_seal = \<lparr>sm_node = demo_node\<lparr>node_fsm := NewKVStateMachine 10000 100000\<rparr>, sm_km = newSoftwareKeyManager,
     sm_clusterID = ''c'', sm_nodeID = ''n'', sm_initialized = False, sm_sealed = True\<rparr>"

text \<open>When a put is accepted: the value is within the limit, and a new key within the budget.\<close>

definition fits :: "KVStateMachine \<Rightarrow> string \<Rightarrow> bytes \<Rightarrow> bool" where
  "fits f k v \<longleftrightarrow> isValidKey k \<and> int (length v) \<le> fsm_maxValueSize f
     \<and> (k \<in> dom (kv_abs f) \<or> fsm_currentSize f + int (length k + length v) \<le> fsm_maxStorageSize f)"

lemma kv_Put_fits:
  assumes "stable_leader R" and "quiet R" and "node_started n" and "fits (node_fsm n) k v"
  obtains n' where "run_state (kv_Put R k v []) n = (None, n')" and "node_started n'" and "node_clock n' = node_clock n + 2"
    and "fsm_maxValueSize (node_fsm n') = fsm_maxValueSize (node_fsm n)"
    and "fsm_maxStorageSize (node_fsm n') = fsm_maxStorageSize (node_fsm n)"
    and "fsm_currentSize (node_fsm n') \<le> fsm_currentSize (node_fsm n) + int (length k + length v)"
    and "kv_abs (node_fsm n') = (kv_abs (node_fsm n))(k \<mapsto> v)"
proof -
  obtain e n' where run: "run_state (kv_Put R k v []) n = (e, n')" by fastforce
  have "e = None" "node_clock n' = node_clock n + 2" "fsm_maxValueSize (node_fsm n') = fsm_maxValueSize (node_fsm n)"
      "fsm_maxStorageSize (node_fsm n') = fsm_maxStorageSize (node_fsm n)"
      "fsm_currentSize (node_fsm n') \<le> fsm_currentSize (node_fsm n) + int (length k + length v)"
    using run assms by (auto simp: runs Let_def Apply_put applyPut_def fits_def dom_kv_abs split: option.splits)
  with kv_Put_stable_abs [OF assms(1-3) _ run] assms(4) run show thesis by (intro that [of n']) (auto simp: fits_def)
qed

text \<open>An initialisation goes through when its two entries are accepted.\<close>

lemma sm_Initialize_fits:
  assumes "stable_leader R" and "quiet R" and "ready W" and "node_started (sm_node s)" and "\<not> sm_initialized s"
    and "im_Initialize K (sm_km s) = (Inr b, k)"
    and v_def: "v = json_text (init_json (je_time J (ob_now (R (node_clock (sm_node s) + 3)))) (sm_clusterID s) (sm_nodeID s)
                      (im_GetBackendInfo K k))"
    and f_def: "f = node_fsm (sm_node s)" and "fits f masterKeyBlobPath b" and "int (length v) \<le> fsm_maxValueSize f"
    and "sealInitializedKey \<in> dom (kv_abs f)
       \<or> fsm_currentSize f + int (length masterKeyBlobPath + length b + length sealInitializedKey + length v) \<le> fsm_maxStorageSize f"
  obtains st s' where "run_state (sm_Initialize R K J W) s = (Returns (Inr st), s')"
proof -
  let ?n = "(sm_node s)\<lparr>node_clock := Suc (node_clock (sm_node s))\<rparr>"
  have w: "run_state (waitForReady R W) (sm_node s) = (Returns None, ?n)" by (rule waitForReady_ready [OF assms(3,2,4)])
  have n: "node_started ?n" "fits (node_fsm ?n) masterKeyBlobPath b" using assms(4,9) by (simp_all add: f_def)
  obtain n1 where p: "run_state (kv_Put R masterKeyBlobPath b []) ?n = (None, n1)" "node_started n1" "node_clock n1 = node_clock ?n + 2"
      "fsm_maxValueSize (node_fsm n1) = fsm_maxValueSize (node_fsm ?n)"
      "fsm_maxStorageSize (node_fsm n1) = fsm_maxStorageSize (node_fsm ?n)"
      "fsm_currentSize (node_fsm n1) \<le> fsm_currentSize (node_fsm ?n) + int (length masterKeyBlobPath + length b)"
      "kv_abs (node_fsm n1) = (kv_abs (node_fsm ?n))(masterKeyBlobPath \<mapsto> b)"
    by (rule kv_Put_fits [OF assms(1,2) n])
  let ?m = "n1\<lparr>node_clock := Suc (node_clock n1)\<rparr>"
  have o: "run_state (observe R) n1 = (R (node_clock (sm_node s) + 3), ?m)"
    using assms(2) p(3) by (simp add: runs quiet_def eval_nat_numeral)
  have "node_started ?m" "fits (node_fsm ?m) sealInitializedKey v"
    using p assms(10,11) by (auto simp: fits_def f_def)
  then obtain n2 where q: "run_state (kv_Put R sealInitializedKey v []) ?m = (None, n2)"
    using kv_Put_fits [OF assms(1,2)] by metis
  show thesis
    using that w assms(5,6) p(1) o q unfolding v_def
    by (auto simp: sm_Initialize_def seal_runs case_prod_beta)
qed

lemma demo_ready [simp]: "ready demo_wait"
  by (simp add: ready_def demo_wait_def)

lemma demo_seal_simps [simp]:
  "node_started (sm_node demo_seal)" "sm_km demo_seal = newSoftwareKeyManager" "\<not> sm_initialized demo_seal" "sm_sealed demo_seal"
  "node_fsm (sm_node demo_seal) = NewKVStateMachine 10000 100000" "node_clock (sm_node demo_seal) = 0"
  "sm_clusterID demo_seal = ''c''" "sm_nodeID demo_seal = ''n''"
  by (simp_all add: demo_seal_def)

lemma demo_marker_length: "length (json_text (init_json (show_int 3) ''c'' ''n'' (sw_GetBackendInfo km))) < 5000"
  by (simp add: init_json_def backend_json_def sw_GetBackendInfo_def omit_empty_def enc_string_map_def sort_map_def
      json_string_def json_char_def show_int_def show_nat.simps digit_char_def)

lemma demo_seal_initialized:
  obtains st s' where "run_state (sm_Initialize demo_env (software demo_crypto) demo_json demo_wait) demo_seal = (Returns (Inr st), s')"
proof -
  have i: "im_Initialize (software demo_crypto) (sm_km demo_seal) = (Inr demo_blob, demo_km)"
    by (simp add: software_def demo_Initialize)
  have b: "length demo_blob = 65" by (simp add: demo_blob_def master_key_blob_def)
  show thesis
    by (rule sm_Initialize_fits [OF demo_env_stable demo_ready demo_seal_simps(1,3) i refl refl, where J = demo_json])
       (use demo_marker_length [of demo_km] that in \<open>auto simp: demo_env_def demo_json_def software_def NewKVStateMachine_def b fits_def
          masterKeyBlobPath_def sealInitializedKey_def seal_keys_valid(2) [unfolded masterKeyBlobPath_def]\<close>)
qed

definition follower_env :: raft_env where
  "follower_env = (\<lambda>i. (demo_env i)\<lparr>ob_State := Follower\<rparr>)"

lemma follower_Put: "node_started n \<Longrightarrow> isValidKey k \<Longrightarrow> fst (run_state (kv_Put follower_env k v l) n) = Some ErrNotLeader"
  by (simp add: kv_Put_def node_Apply_def IsLeader_def GetRole_def runs follower_env_def)

subsection \<open>Properties\<close>





text \<open>
  An initialisation that fails to store its blob or its marker cannot be repeated on that
  node: the key manager considers itself initialised, so every later attempt fails, although
  the manager is not initialised and no usable blob was reported.
\<close>

theorem failed_initialize_cannot_be_retried:
  assumes "crypto_ok C" and "sw_inv C (sm_km s)" and "sw_Initialize C (sm_km s) = (Inr b, k)"
    and "run_state (sm_Initialize R (software C) J W) s = (r, s1)" and "sm_km s1 = k" and "\<not> sm_initialized s1"
    and "run_state (sm_Initialize R' (software C) J W') s1 = (r', s2)"
  shows "(\<forall>st. r \<noteq> Returns (Inr st)) \<and> (\<forall>st. r' \<noteq> Returns (Inr st)) \<and> \<not> sm_initialized s2"
proof -
  have "km_initialized k"
    using assms(1-3)
    by (cases rule: sw_Initialize_cases) (auto simp: sw_inv_def sw_keys_def split: if_splits)
  then have again: "sw_Initialize C (sm_km s1) = (Inl ErrAlreadyInitialized, sm_km s1)" using assms(5) by (simp add: sw_Initialize_def)
  have "\<forall>st. r \<noteq> Returns (Inr st)"
    using assms(4)
    by (cases rule: sm_Initialize_effect) (use assms(6) in \<open>auto simp: moves_def\<close>)
  moreover have "\<forall>st. r' \<noteq> Returns (Inr st)" "\<not> sm_initialized s2"
    using assms(7)
    by (cases rule: sm_Initialize_effect; use again assms(6) in \<open>auto simp: moves_def software_def\<close>)+
  ultimately show ?thesis by blast
qed

theorem failed_initialize_cannot_be_retried_witness:
  "(let s1 = snd (run_state (sm_Initialize follower_env (software demo_crypto) demo_json demo_wait) demo_seal) in
      \<forall>st. fst (run_state (sm_Initialize demo_env (software demo_crypto) demo_json demo_wait) s1) \<noteq> Returns (Inr st))"
proof -
  let ?s1 = "snd (run_state (sm_Initialize follower_env (software demo_crypto) demo_json demo_wait) demo_seal)"
  have "quiet follower_env" by (simp add: quiet_def follower_env_def demo_env_def)
  note w = waitForReady_ready [OF demo_ready this demo_seal_simps(1)]
  have "sm_km ?s1 = demo_km" "\<not> sm_initialized ?s1"
    by (simp_all add: sm_Initialize_def seal_runs w software_def demo_Initialize follower_Put)
  from failed_initialize_cannot_be_retried [OF demo_crypto_ok _ _ prod.collapse [symmetric] this prod.collapse [symmetric]]
  show ?thesis by (simp add: Let_def demo_Initialize)
qed

text \<open>
  Only the local flag stops a second initialisation. On a node whose manager was created
  before another node initialised the cluster, \<open>Initialize\<close> draws a new master key and
  replaces the blob in the store: the master key of the first node can no longer be
  recovered from it.
\<close>

theorem second_initialize_replaces_master_key:
  assumes "crypto_ok C" and "sw_inv C (sm_km s)" and "stable_leader R" and "quiet R" and "ready W" and "node_started (sm_node s)"
    and "seal_kv s masterKeyBlobPath = Some b0" and "unwrap_master b0 = Some m0"
    and "rand_read C (km_draws (sm_km s)) 32 = Inr m" and "m \<noteq> m0"
    and "run_state (sm_Initialize R (software C) J W) s = (Returns (Inr st), s1)"
  shows "\<exists>b. seal_kv s1 masterKeyBlobPath = Some b \<and> unwrap_master b = Some m \<and> sw_keys (sm_km s1) = Some m"
proof -
  obtain b where b: "im_Initialize (software C) (sm_km s) = (Inr b, sm_km s1)" "seal_kv s1 masterKeyBlobPath = Some b"
    by (rule sw.Initialize_stores_blob [OF assms(3-6,11)])
  then have run: "sw_Initialize C (sm_km s) = (Inr b, sm_km s1)" by (simp add: software_def)
  from assms(1,2) run obtain m' sk where m': "length m' = 32" "length sk = 32" "sw_keys (sm_km s1) = Some m'" "b = master_key_blob sk m'"
    by (cases rule: sw_Initialize_cases) auto
  have "km_masterKey (sm_km s1) = Some m"
    using run assms(9)
    by (auto simp: sw_Initialize_def read_random_def Let_def masterKeySize_def deriveSubKeys_def split: if_splits sum.splits
        dest!: arg_cong [of _ "sm_km s1" km_masterKey])
  then have "m' = m" using m'(3) by (simp add: sw_keys_def split: if_splits)
  with b(2) m' unwrap_master_blob show ?thesis by simp
qed

theorem second_initialize_replaces_master_key_witness:
  "\<exists>(s :: softwareKeyManager seal_state) st s1 b. seal_kv s masterKeyBlobPath = Some demo_blob
     \<and> run_state (sm_Initialize demo_env (software demo_crypto) demo_json demo_wait) s = (Returns (Inr st), s1)
     \<and> seal_kv s1 masterKeyBlobPath = Some b \<and> unwrap_master b \<noteq> unwrap_master demo_blob"
proof -
  let ?R = "demo_env" and ?K = "software demo_crypto"
  let ?n = "snd (run_state (kv_Put demo_env masterKeyBlobPath demo_blob []) (sm_node demo_seal))"
  let ?km = "newSoftwareKeyManager\<lparr>km_draws := 5\<rparr>"
  let ?s = "demo_seal\<lparr>sm_node := ?n, sm_km := ?km\<rparr>"
  have b: "length demo_blob = 65" "unwrap_master demo_blob = Some (replicate 32 CHR 0x00)"
    by (simp_all add: demo_blob_def master_key_blob_def unwrap_master_blob [of "replicate 32 CHR 0x00" "replicate 32 CHR 0x01", unfolded master_key_blob_def, simplified])
  have f: "fits (node_fsm (sm_node demo_seal)) masterKeyBlobPath demo_blob"
    using seal_keys_valid(2) by (simp add: fits_def NewKVStateMachine_def b masterKeyBlobPath_def)
  obtain n where n: "run_state (kv_Put demo_env masterKeyBlobPath demo_blob []) (sm_node demo_seal) = (None, n)" "node_started n"
      "node_clock n = node_clock (sm_node demo_seal) + 2"
      "fsm_maxValueSize (node_fsm n) = fsm_maxValueSize (node_fsm (sm_node demo_seal))"
      "fsm_maxStorageSize (node_fsm n) = fsm_maxStorageSize (node_fsm (sm_node demo_seal))"
      "fsm_currentSize (node_fsm n) \<le> fsm_currentSize (node_fsm (sm_node demo_seal)) + int (length masterKeyBlobPath + length demo_blob)"
      "kv_abs (node_fsm n) = (kv_abs (node_fsm (sm_node demo_seal)))(masterKeyBlobPath \<mapsto> demo_blob)"
    by (rule kv_Put_fits [OF demo_env_stable demo_seal_simps(1) f])
  obtain b' k where i: "im_Initialize ?K (sm_km ?s) = (Inr b', k)" "length b' = 65"
    by (simp add: software_def sw_Initialize_def newSoftwareKeyManager_def demo_crypto_def read_random_def masterKeySize_def
        deriveSubKeys_def deriveKeyInternal_def key_bytes_def master_key_blob_def)
  have l: "length (json_text (init_json (show_int 5) ''c'' ''n'' (sw_GetBackendInfo k))) < 5000"
    by (simp add: init_json_def backend_json_def sw_GetBackendInfo_def omit_empty_def enc_string_map_def sort_map_def
      json_string_def json_char_def show_int_def show_nat.simps digit_char_def)
  have s: "node_started (sm_node ?s)" "\<not> sm_initialized ?s" using n by simp_all
  have f1: "fits (node_fsm (sm_node ?s)) masterKeyBlobPath b'" using n i(2) by (simp add: fits_def NewKVStateMachine_def)
  let ?v = "json_text (init_json (je_time demo_json (ob_now (demo_env (node_clock (sm_node ?s) + 3)))) (sm_clusterID ?s) (sm_nodeID ?s)
                      (im_GetBackendInfo ?K k))"
  have "?v = json_text (init_json (show_int 5) ''c'' ''n'' (sw_GetBackendInfo k))"
    using n by (simp add: demo_json_def demo_env_def software_def)
  with l have len: "length ?v < 5000" by (simp only:)
  have v2: "int (length ?v) \<le> fsm_maxValueSize (node_fsm (sm_node ?s))"
      "fsm_currentSize (node_fsm (sm_node ?s)) + int (length masterKeyBlobPath + length b' + length sealInitializedKey + length ?v)
         \<le> fsm_maxStorageSize (node_fsm (sm_node ?s))"
    using len n i(2) b(1) by (simp_all add: NewKVStateMachine_def masterKeyBlobPath_def sealInitializedKey_def)
  obtain st s1 where s1: "run_state (sm_Initialize demo_env ?K demo_json demo_wait) ?s = (Returns (Inr st), s1)"
    by (rule sm_Initialize_fits [OF demo_env_stable demo_ready s i(1) refl refl f1 v2(1) disjI2, OF v2(2)])
  have "\<exists>b. seal_kv s1 masterKeyBlobPath = Some b \<and> unwrap_master b = Some (replicate 32 CHR 0x01) \<and> sw_keys (sm_km s1) = Some (replicate 32 CHR 0x01)"
    by (rule second_initialize_replaces_master_key [OF demo_crypto_ok _ demo_env_stable demo_ready s(1) _ b(2) _ _ s1])
       (use n in \<open>simp_all add: demo_crypto_def newSoftwareKeyManager_def sw_inv_def\<close>)
  then obtain b1 where "seal_kv s1 masterKeyBlobPath = Some b1" "unwrap_master b1 = Some (replicate 32 CHR 0x01)" by blast
  moreover have "replicate 32 (CHR 0x01) \<noteq> replicate 32 (CHR 0x00)" by simp
  moreover have "seal_kv ?s masterKeyBlobPath = Some demo_blob" using n by simp
  ultimately show ?thesis using s1 b(2) by (intro exI [of _ ?s] exI [of _ st] exI [of _ s1] exI [of _ b1]) simp
qed

end
