(* ===== verification/Secret_Codec.thy ===== *)
theory Secret_Codec
  imports Seal_Manager
begin

text \<open>
  The data model of the secret store (\<open>internal/raft/secrets.go\<close>) and its JSON: the texts of the
  entries, how they are decoded, and the round trips. The data of a secret is a JSON tree,
  \<open>Jnull\<close> for the nil map; time stamps are their texts. Two things the store never writes are
  errors here although Go would go on: a \<open>null\<close> in the map of versions, and version metadata of
  a wrong type, which \<open>Get\<close> fills in as far as it can.
\<close>

declare map_of_eq_Some_iff [simp del]

subsection \<open>Data\<close>

record SecretMetadata =
  md_Path :: string
  md_Version :: "64 word"
  md_CreatedTime :: string
  md_CreatedBy :: string
  md_UpdatedTime :: string
  md_UpdatedBy :: string
  md_DeletedTime :: "string option"
  md_Destroyed :: bool
  md_CustomMeta :: "(string, string) gomap"
  md_LeaseID :: string

record SecretVersion =
  sv_Data :: json
  sv_Metadata :: SecretMetadata
  sv_WrappedDEK :: bytes

record Secret =
  sec_Path :: string
  sec_Versions :: "(64 word, SecretVersion) gomap"
  sec_Metadata :: SecretMetadata

record SecretOptions =
  so_CreatedBy :: string
  so_CustomMetadata :: "(string, string) gomap"
  so_LeaseID :: string

definition zero_time :: string where
  "zero_time = ''0001-01-01T00:00:00Z''"

definition zero_metadata :: SecretMetadata where
  "zero_metadata = \<lparr>md_Path = [], md_Version = 0, md_CreatedTime = zero_time, md_CreatedBy = [], md_UpdatedTime = zero_time,
     md_UpdatedBy = [], md_DeletedTime = None, md_Destroyed = False, md_CustomMeta = [], md_LeaseID = []\<rparr>"

subsection \<open>JSON\<close>

definition meta_fields :: "SecretMetadata \<Rightarrow> (string, json) gomap" where
  "meta_fields m =
      [(''path'', Jstr (md_Path m)), (''version'', enc_uint64 (md_Version m)), (''created_time'', Jstr (md_CreatedTime m))]
      @ omit_empty ''created_by'' (md_CreatedBy m) @ [(''updated_time'', Jstr (md_UpdatedTime m))]
      @ omit_empty ''updated_by'' (md_UpdatedBy m) @ omit_nil ''deleted_time'' (md_DeletedTime m)
      @ [(''destroyed'', Jbool (md_Destroyed m))]
      @ (if md_CustomMeta m = [] then [] else [(''custom_metadata'', enc_string_map (md_CustomMeta m))])
      @ omit_empty ''lease_id'' (md_LeaseID m)"

definition metadata_json :: "SecretMetadata \<Rightarrow> json" where
  "metadata_json m = Jobj (meta_fields m)"

definition version_json :: "SecretVersion \<Rightarrow> json" where
  "version_json v = Jobj [(''data'', sv_Data v), (''metadata'', metadata_json (sv_Metadata v))]"

definition versions_json :: "(64 word, SecretVersion) gomap \<Rightarrow> json" where
  "versions_json vs = Jobj (sort_map (map (\<lambda>(n, v). (show_nat (unat n), version_json v)) vs))"

definition secret_json :: "Secret \<Rightarrow> json" where
  "secret_json s = Jobj
     [(''path'', Jstr (sec_Path s)), (''versions'', versions_json (sec_Versions s)),
      (''metadata'', metadata_json (sec_Metadata s))]"

definition version_entry :: "bytes \<Rightarrow> bytes \<Rightarrow> SecretMetadata \<Rightarrow> (string, json) gomap" where
  "version_entry encryptedData wrappedDEK m =
     [(''encrypted_data'', Jstr (b64_encode encryptedData)), (''metadata'', metadata_json m),
      (''wrapped_dek'', Jstr (b64_encode wrappedDEK))]"

fun dec_time :: "json_env \<Rightarrow> json \<Rightarrow> string option" where
  "dec_time J (Jstr s) = (if je_time_ok J s then Some s else None)"
| "dec_time J Jnull = Some zero_time"
| "dec_time J _ = None"

fun dec_time_pointer :: "json_env \<Rightarrow> json \<Rightarrow> string option option" where
  "dec_time_pointer J (Jstr s) = (if je_time_ok J s then Some (Some s) else None)"
| "dec_time_pointer J Jnull = Some None"
| "dec_time_pointer J _ = None"

fun dec_metadata :: "json_env \<Rightarrow> json \<Rightarrow> SecretMetadata option" where
  "dec_metadata J (Jobj fs) = do {
     path \<leftarrow> dec_string (field fs ''path'');
     version \<leftarrow> dec_uint64 (field fs ''version'');
     created \<leftarrow> dec_time J (field fs ''created_time'');
     createdBy \<leftarrow> dec_string (field fs ''created_by'');
     updated \<leftarrow> dec_time J (field fs ''updated_time'');
     updatedBy \<leftarrow> dec_string (field fs ''updated_by'');
     deleted \<leftarrow> dec_time_pointer J (field fs ''deleted_time'');
     destroyed \<leftarrow> dec_bool (field fs ''destroyed'');
     custom \<leftarrow> dec_string_map (field fs ''custom_metadata'');
     lease \<leftarrow> dec_string (field fs ''lease_id'');
     Some \<lparr>md_Path = path, md_Version = version, md_CreatedTime = created, md_CreatedBy = createdBy,
           md_UpdatedTime = updated, md_UpdatedBy = updatedBy, md_DeletedTime = deleted, md_Destroyed = destroyed,
           md_CustomMeta = custom, md_LeaseID = lease\<rparr>
   }"
| "dec_metadata J Jnull = Some zero_metadata"
| "dec_metadata J _ = None"

text \<open>Decoding into \<open>map[string]interface{}\<close>.\<close>

definition dec_data :: "json_env \<Rightarrow> json \<Rightarrow> json option" where
  "dec_data J v =
     (case v of
        Jobj fs \<Rightarrow> (if floats_ok J v then Some (to_any J v) else None)
      | Jnull \<Rightarrow> Some Jnull
      | _ \<Rightarrow> None)"

fun dec_version :: "json_env \<Rightarrow> json \<Rightarrow> SecretVersion option" where
  "dec_version J (Jobj fs) = do {
     d \<leftarrow> dec_data J (field fs ''data'');
     m \<leftarrow> dec_metadata J (field fs ''metadata'');
     Some \<lparr>sv_Data = d, sv_Metadata = m, sv_WrappedDEK = []\<rparr>
   }"
| "dec_version J _ = None"

definition parse_uint64 :: "string \<Rightarrow> 64 word option" where
  "parse_uint64 s =
     (if s \<noteq> [] \<and> list_all is_digit s \<and> nat_of_digits s < 2 ^ 64 then Some (of_nat (nat_of_digits s)) else None)"

fun dec_version_members :: "json_env \<Rightarrow> (string \<times> json) list \<Rightarrow> (64 word, SecretVersion) gomap \<Rightarrow> (64 word, SecretVersion) gomap option" where
  "dec_version_members J [] m = Some m"
| "dec_version_members J ((k, v) # fs) m = do {
     n \<leftarrow> parse_uint64 k;
     x \<leftarrow> dec_version J v;
     dec_version_members J fs (AList.update n x m)
   }"

fun dec_versions :: "json_env \<Rightarrow> json \<Rightarrow> (64 word, SecretVersion) gomap option" where
  "dec_versions J (Jobj fs) = dec_version_members J fs []"
| "dec_versions J Jnull = Some []"
| "dec_versions J _ = None"

fun dec_secret :: "json_env \<Rightarrow> json \<Rightarrow> Secret option" where
  "dec_secret J (Jobj fs) = do {
     p \<leftarrow> dec_string (field fs ''path'');
     vs \<leftarrow> dec_versions J (field fs ''versions'');
     m \<leftarrow> dec_metadata J (field fs ''metadata'');
     Some \<lparr>sec_Path = p, sec_Versions = vs, sec_Metadata = m\<rparr>
   }"
| "dec_secret J Jnull = Some \<lparr>sec_Path = [], sec_Versions = [], sec_Metadata = zero_metadata\<rparr>"
| "dec_secret J _ = None"

definition unmarshal_secret :: "json_env \<Rightarrow> bytes \<Rightarrow> Secret option" where
  "unmarshal_secret J s = Option.bind (json_parse s) (dec_secret J)"

definition unmarshal_data :: "json_env \<Rightarrow> bytes \<Rightarrow> json option" where
  "unmarshal_data J s = Option.bind (json_parse s) (dec_data J)"

subsection \<open>Lemmas: fields\<close>

text \<open>What the JSON parameters are documented to do: whole numbers below \<open>2^53\<close> are exact, the
  text of a \<open>float64\<close> is a number with itself as the nearest \<open>float64\<close>, and time stamps parse.\<close>

definition json_env_ok :: "json_env \<Rightarrow> bool" where
  "json_env_ok J \<longleftrightarrow>
     (\<forall>n < 2 ^ 53. je_float J (show_nat n) = Some (show_nat n))
     \<and> (\<forall>s t. je_float J s = Some t \<longrightarrow> valid_number t \<and> je_float J t = Some t)
     \<and> je_time_ok J zero_time \<and> (\<forall>t. je_time_ok J (je_time J t))"

definition lower_keys :: "(string \<times> 'v) list \<Rightarrow> bool" where
  "lower_keys fs \<longleftrightarrow> distinct (map fst fs) \<and> list_all (\<lambda>k. map lower_char k = k) (map fst fs)"

lemma find_key: "distinct (map fst fs) \<Longrightarrow> find (\<lambda>(k, v). k = n) fs = map_option (Pair n) (map_of fs n)"
proof (induction fs)
  case (Cons kv fs)
  then show ?case by (cases kv) auto
qed simp

lemma field_lower:
  assumes "lower_keys fs"
  shows "field fs n = (case map_of fs n of None \<Rightarrow> Jnull | Some v \<Rightarrow> v)"
proof -
  have "find (\<lambda>(k, v). map lower_char k = n) (rev fs) = find (\<lambda>(k, v). k = n) (rev fs)"
    using assms by (intro find_cong) (auto simp: lower_keys_def list_all_iff)
  also have "\<dots> = map_option (Pair n) (map_of (rev fs) n)"
    using assms by (intro find_key) (simp add: lower_keys_def rev_map [symmetric])
  also have "map_of (rev fs) = map_of fs"
    using assms by (intro map_of_eqI) (auto simp: lower_keys_def gm_lookup_iff rev_map [symmetric] map_of_eq_None_iff)
  finally show ?thesis by (simp add: field_def split: option.split)
qed

lemma map_of_sort_map: "distinct (map fst fs) \<Longrightarrow> map_of (sort_map fs) = map_of fs"
proof -
  have "sorted_wrt (<) (map fst m) \<Longrightarrow> distinct (map fst fs) \<Longrightarrow>
      map_of (foldl (\<lambda>m (k, v). ins k v m) m fs) = map_of m ++ map_of fs" for m
  proof (induction fs arbitrary: m)
    case (Cons kv fs)
    obtain k v where kv: "kv = (k, v)" by (cases kv)
    have "map_of fs k = None" using Cons.prems(2) kv by (simp add: map_of_eq_None_iff)
    then have "(map_of m)(k \<mapsto> v) ++ map_of fs = map_of m ++ map_of (kv # fs)"
      using kv by (auto simp: fun_eq_iff map_add_def split: option.split)
    moreover have "map_of (foldl (\<lambda>m (k, v). ins k v m) m (kv # fs)) = (map_of m)(k \<mapsto> v) ++ map_of fs"
      using Cons.IH [of "ins k v m"] Cons.prems kv by (simp add: ins_sorted map_of_ins fun_upd_def)
    ultimately show ?case by (simp only:)
  qed simp
  from this [of "[]"] show "distinct (map fst fs) \<Longrightarrow> ?thesis" by (simp add: sort_map_def)
qed

lemma sorted_distinct: "sorted_wrt (<) (xs :: string list) \<Longrightarrow> distinct xs"
  by (induction xs) auto

lemma sort_map_keys: "set (map fst (sort_map fs)) = set (map fst fs)"
proof -
  have "set (map fst (foldl (\<lambda>m (k, v). ins k v m) m fs)) = set (map fst m) \<union> set (map fst fs)" for m
  proof (induction fs arbitrary: m)
    case (Cons kv fs)
    obtain k v where kv: "kv = (k, v)" by (cases kv)
    with Cons.IH [of "ins k v m"] set_ins [of k v m] show ?case by auto
  qed simp
  from this [of "[]"] show ?thesis by (simp add: sort_map_def)
qed

lemma lower_keys_sort: "lower_keys fs \<Longrightarrow> lower_keys (sort_map fs)"
  using sorted_distinct [OF sort_map_is_sorted] sort_map_keys [of fs] unfolding lower_keys_def list_all_iff by blast

lemma field_sort: "lower_keys fs \<Longrightarrow> field (sort_map fs) n = field fs n"
  using map_of_sort_map [of fs] by (simp add: field_lower lower_keys_sort) (simp add: lower_keys_def)

subsection \<open>Lemmas: metadata\<close>

lemma keys_omit: "map fst (omit_empty k s) = (if s = [] then [] else [k])" "map fst (omit_nil k t) = (case t of None \<Rightarrow> [] | Some _ \<Rightarrow> [k])"
  by (simp_all add: omit_empty_def omit_nil_def split: option.split)

lemma map_of_omit: "map_of (omit_empty k s) n = (if s \<noteq> [] \<and> n = k then Some (Jstr s) else None)"
  "map_of (omit_nil k t) n = (if n = k then map_option Jstr t else None)"
  by (simp_all add: omit_empty_def omit_nil_def split: option.split)

lemma lower_metadata_names:
  "list_all (\<lambda>k. map lower_char k = k)
     [''path'', ''version'', ''created_time'', ''created_by'', ''updated_time'', ''updated_by'', ''deleted_time'', ''destroyed'',
      ''custom_metadata'', ''lease_id'', ''versions'', ''metadata'', ''data'', ''encrypted_data'', ''wrapped_dek'']"
  by (simp add: lower_char_def)

lemma lower_meta_fields: "lower_keys (meta_fields m)"
  using lower_metadata_names by (auto simp: lower_keys_def meta_fields_def keys_omit split: option.split)

lemma meta_fields_lookup:
  "map_of (meta_fields m) ''path'' = Some (Jstr (md_Path m))"
  "map_of (meta_fields m) ''version'' = Some (enc_uint64 (md_Version m))"
  "map_of (meta_fields m) ''created_time'' = Some (Jstr (md_CreatedTime m))"
  "map_of (meta_fields m) ''created_by'' = (if md_CreatedBy m \<noteq> [] then Some (Jstr (md_CreatedBy m)) else None)"
  "map_of (meta_fields m) ''updated_time'' = Some (Jstr (md_UpdatedTime m))"
  "map_of (meta_fields m) ''updated_by'' = (if md_UpdatedBy m \<noteq> [] then Some (Jstr (md_UpdatedBy m)) else None)"
  "map_of (meta_fields m) ''deleted_time'' = map_option Jstr (md_DeletedTime m)"
  "map_of (meta_fields m) ''destroyed'' = Some (Jbool (md_Destroyed m))"
  "map_of (meta_fields m) ''custom_metadata'' = (if md_CustomMeta m \<noteq> [] then Some (enc_string_map (md_CustomMeta m)) else None)"
  "map_of (meta_fields m) ''lease_id'' = (if md_LeaseID m \<noteq> [] then Some (Jstr (md_LeaseID m)) else None)"
  by (simp_all add: meta_fields_def map_of_omit map_add_def split: option.split)

text \<open>Decoding returns the metadata with its custom map in order.\<close>

definition meta_ok :: "json_env \<Rightarrow> SecretMetadata \<Rightarrow> bool" where
  "meta_ok J m \<longleftrightarrow> je_time_ok J (md_CreatedTime m) \<and> je_time_ok J (md_UpdatedTime m)
     \<and> (\<forall>t. md_DeletedTime m = Some t \<longrightarrow> je_time_ok J t)"

definition canon_meta :: "SecretMetadata \<Rightarrow> SecretMetadata" where
  "canon_meta m = m\<lparr>md_CustomMeta := sort_map (md_CustomMeta m)\<rparr>"

lemma sort_map_Nil [simp]: "sort_map [] = []"
  by (simp add: sort_map_def)

lemma dec_metadata_fields:
  assumes "\<And>n. field fs n = field (meta_fields m) n" and "meta_ok J m"
  shows "dec_metadata J (Jobj fs) = Some (canon_meta m)"
  using assms(2)
  by (simp add: assms(1) field_lower [OF lower_meta_fields] meta_fields_lookup meta_ok_def canon_meta_def split: option.split)

lemma dec_metadata_json: "meta_ok J m \<Longrightarrow> dec_metadata J (metadata_json m) = Some (canon_meta m)"
  unfolding metadata_json_def by (rule dec_metadata_fields) simp

lemma json_ok_metadata [simp]: "json_ok (metadata_json m)"
  by (auto simp: metadata_json_def meta_fields_def list_all_iff omit_empty_def omit_nil_def enc_uint64_def split: option.splits)

text \<open>The same after a passage through \<open>map[string]interface{}\<close>.\<close>

lemma to_any_metadata:
  assumes "json_env_ok J" and "unat (md_Version m) < 2 ^ 53"
  shows "floats_ok J (metadata_json m) \<and> to_any J (metadata_json m) = Jobj (sort_map (meta_fields m))"
proof -
  have f: "je_float J (show_nat (unat (md_Version m))) = Some (show_nat (unat (md_Version m)))"
    using assms unfolding json_env_ok_def by blast
  have fixed: "floats_ok J v \<and> to_any J v = v" if "(k, v) \<in> set (meta_fields m)" for k v
    using that f any_ok_fixed [OF any_ok_string_map [of J "md_CustomMeta m"]]
    by (auto simp: meta_fields_def omit_empty_def omit_nil_def enc_uint64_def split: if_splits option.splits)
  have "map (\<lambda>(k, v). (k, to_any J v)) (meta_fields m) = meta_fields m" using fixed by (intro map_idI) auto
  with fixed show ?thesis by (auto simp: metadata_json_def list_all_iff)
qed

lemma dec_metadata_any:
  "meta_ok J m \<Longrightarrow> dec_metadata J (Jobj (sort_map (meta_fields m))) = Some (canon_meta m)"
  by (rule dec_metadata_fields) (simp add: field_sort lower_meta_fields)

subsection \<open>Lemmas: the entry of a version\<close>

lemma version_entry_sorted: "sorted_wrt (<) (map fst (version_entry e w m))"
  by (simp add: version_entry_def less_char_def)

lemma unmarshal_version_entry:
  assumes "json_env_ok J" and "unat (md_Version m) < 2 ^ 53"
  shows "unmarshal_map J (json_text (Jobj (version_entry e w m)))
       = Some [(''encrypted_data'', Jstr (b64_encode e)), (''metadata'', Jobj (sort_map (meta_fields m))),
               (''wrapped_dek'', Jstr (b64_encode w))]"
proof -
  let ?v = "Jobj (version_entry e w m)"
  have "json_parse (json_text ?v) = Some ?v" by (rule json_parse_text) (simp add: version_entry_def)
  moreover have "floats_ok J ?v" using to_any_metadata [OF assms] by (simp add: version_entry_def)
  moreover have "to_any J ?v = Jobj [(''encrypted_data'', Jstr (b64_encode e)), (''metadata'', Jobj (sort_map (meta_fields m))),
               (''wrapped_dek'', Jstr (b64_encode w))]"
    using to_any_metadata [OF assms] by (simp add: version_entry_def sort_map_sorted less_char_def)
  ultimately show ?thesis by (simp only: unmarshal_map_def unmarshal_any_def option.simps if_True json.simps)
qed

subsection \<open>Lemmas: the entry of a secret\<close>

definition data_ok :: "json_env \<Rightarrow> json \<Rightarrow> bool" where
  "data_ok J d \<longleftrightarrow> any_ok J d \<and> (d = Jnull \<or> (\<exists>fs. d = Jobj fs))"

definition version_ok :: "json_env \<Rightarrow> SecretVersion \<Rightarrow> bool" where
  "version_ok J v \<longleftrightarrow> data_ok J (sv_Data v) \<and> meta_ok J (sv_Metadata v)"

definition secret_ok :: "json_env \<Rightarrow> Secret \<Rightarrow> bool" where
  "secret_ok J s \<longleftrightarrow> distinct (map fst (sec_Versions s))
     \<and> (\<forall>n v. (n, v) \<in> set (sec_Versions s) \<longrightarrow> version_ok J v) \<and> meta_ok J (sec_Metadata s)"

definition canon_version :: "SecretVersion \<Rightarrow> SecretVersion" where
  "canon_version v = v\<lparr>sv_Metadata := canon_meta (sv_Metadata v), sv_WrappedDEK := []\<rparr>"

lemma dec_data_fixed: "data_ok J d \<Longrightarrow> dec_data J d = Some d \<and> json_ok d"
  using any_ok_fixed [of J d] by (auto simp: data_ok_def dec_data_def)

lemma unmarshal_data_text: "data_ok J d \<Longrightarrow> unmarshal_data J (json_text d) = Some d"
  using dec_data_fixed [of J d] by (simp add: unmarshal_data_def json_parse_text)

lemma dec_version_json: "version_ok J v \<Longrightarrow> dec_version J (version_json v) = Some (canon_version v)"
proof -
  assume v: "version_ok J v"
  have "lower_keys [(''data'', sv_Data v), (''metadata'', metadata_json (sv_Metadata v))]"
    using lower_metadata_names by (simp add: lower_keys_def)
  from field_lower [OF this] v show ?thesis
    using dec_data_fixed [of J "sv_Data v"] dec_metadata_json [of J "sv_Metadata v"]
    by (simp add: version_json_def version_ok_def canon_version_def)
qed

lemma json_ok_version: "version_ok J v \<Longrightarrow> json_ok (version_json v)"
  using dec_data_fixed [of J "sv_Data v"] by (simp add: version_json_def version_ok_def)

lemma parse_uint64_show [simp]: "parse_uint64 (show_nat (unat (n :: 64 word))) = Some n"
proof -
  have "unat n < 2 ^ 64" using unsigned_less [of n] by simp
  moreover have "list_all is_digit (show_nat (unat n))" using show_nat_digits by (auto simp: list_all_iff)
  ultimately show ?thesis by (simp add: parse_uint64_def)
qed

lemma dec_version_members_json:
  assumes "distinct (map fst fs)"
    and "\<And>k v. (k, v) \<in> set fs \<Longrightarrow> \<exists>n x. k = show_nat (unat (n :: 64 word)) \<and> v = version_json x \<and> version_ok J x"
  shows "\<exists>m'. dec_version_members J fs m = Some m' \<and> (distinct (map fst m) \<longrightarrow> distinct (map fst m'))
       \<and> (\<forall>n. map_of m' n = (case map_of fs (show_nat (unat n)) of None \<Rightarrow> map_of m n | Some v \<Rightarrow> dec_version J v))"
  using assms
proof (induction fs arbitrary: m)
  case (Cons kv fs)
  obtain n x where kv: "kv = (show_nat (unat (n :: 64 word)), version_json x)" "version_ok J x"
    using Cons.prems(2) [of "fst kv" "snd kv"] by (metis list.set_intros(1) prod.collapse)
  have x: "dec_version J (version_json x) = Some (canon_version x)" by (rule dec_version_json [OF kv(2)])
  have fresh: "map_of fs (show_nat (unat n)) = None" using Cons.prems(1) kv(1) by (simp add: map_of_eq_None_iff)
  have "distinct (map fst fs)" using Cons.prems(1) by simp
  from Cons.IH [OF this, of "AList.update n (canon_version x) m"] Cons.prems(2)
  obtain m' where m': "dec_version_members J fs (AList.update n (canon_version x) m) = Some m'"
      "distinct (map fst (AList.update n (canon_version x) m)) \<longrightarrow> distinct (map fst m')"
      "\<forall>i. map_of m' i = (case map_of fs (show_nat (unat i)) of None \<Rightarrow> map_of (AList.update n (canon_version x) m) i
             | Some v \<Rightarrow> dec_version J v)" by auto
  have "map_of m' i = (case map_of (kv # fs) (show_nat (unat i)) of None \<Rightarrow> map_of m i | Some v \<Rightarrow> dec_version J v)" for i
    using m'(3) fresh x kv(1) by (cases "i = n") (auto simp: word_unat_eq_iff split: option.split)
  with m'(1,2) kv(1) x show ?case by auto
qed simp

lemma set_sort_map: "set (sort_map fs) \<subseteq> set fs"
proof -
  have i: "set (ins k v m) \<subseteq> insert (k, v) (set m)" for k v and m :: "(string, 'a) gomap"
    by (induction m) (auto split: if_splits)
  have "set (foldl (\<lambda>m (k, v). ins k v m) m fs) \<subseteq> set m \<union> set fs" for m
  proof (induction fs arbitrary: m)
    case (Cons kv fs)
    obtain k v where kv: "kv = (k, v)" by (cases kv)
    with Cons.IH [of "ins k v m"] i [of k v m] show ?case by auto
  qed simp
  from this [of "[]"] show ?thesis by (simp add: sort_map_def)
qed

lemma unmarshal_secret_text:
  assumes "secret_ok J s"
  obtains s' where "unmarshal_secret J (json_text (secret_json s)) = Some s'" and "sec_Path s' = sec_Path s"
    and "sec_Metadata s' = canon_meta (sec_Metadata s)" and "distinct (map fst (sec_Versions s'))"
    and "map_of (sec_Versions s') = (\<lambda>n. map_option canon_version (map_of (sec_Versions s) n))"
proof -
  let ?f = "\<lambda>(n, v). (show_nat (unat (n :: 64 word)), version_json v)"
  let ?fs = "map ?f (sec_Versions s)"
  have "inj (\<lambda>n :: 64 word. show_nat (unat n))" by (auto simp: inj_def word_unat_eq_iff)
  then have "distinct (map (\<lambda>n. show_nat (unat n)) (map fst (sec_Versions s)))"
    using assms by (simp only: secret_ok_def distinct_map) (metis inj_on_subset subset_UNIV)
  then have d: "distinct (map fst ?fs)" by (simp add: comp_def case_prod_beta)
  have look: "map_of (sort_map ?fs) (show_nat (unat n)) = map_option version_json (map_of (sec_Versions s) n)" for n :: "64 word"
  proof -
    have "map_of (map ?f vs) (show_nat (unat n)) = map_option version_json (map_of vs n)" for vs
      by (induction vs) (auto simp: word_unat_eq_iff)
    then show ?thesis by (simp add: map_of_sort_map [OF d])
  qed
  have el: "\<exists>n x. k = show_nat (unat (n :: 64 word)) \<and> v = version_json x \<and> version_ok J x" if "(k, v) \<in> set (sort_map ?fs)" for k v
    using that set_sort_map [of ?fs] assms by (fastforce simp: secret_ok_def)
  obtain m' where m': "dec_version_members J (sort_map ?fs) [] = Some m'" "distinct (map fst m')"
      "\<forall>n. map_of m' n = (case map_of (sort_map ?fs) (show_nat (unat n)) of None \<Rightarrow> None | Some v \<Rightarrow> dec_version J v)"
    using dec_version_members_json [where m = "[]", OF sorted_distinct [OF sort_map_is_sorted] el]
    unfolding map_of.simps(1) list.map(1) by (metis distinct.simps(1))
  have "map_of m' n = map_option canon_version (map_of (sec_Versions s) n)" for n
  proof (cases "map_of (sec_Versions s) n")
    case (Some v)
    then have "version_ok J v" using assms by (auto simp: secret_ok_def gm_lookup_iff)
    with Some m'(3) look [of n] show ?thesis by (simp add: dec_version_json)
  qed (use m'(3) look [of n] in simp)
  moreover have "json_ok (secret_json s)"
    using el json_ok_version by (fastforce simp: secret_json_def versions_json_def list_all_iff)
  moreover have "lower_keys [(''path'', Jstr (sec_Path s)), (''versions'', versions_json (sec_Versions s)), (''metadata'', metadata_json (sec_Metadata s))]"
    using lower_metadata_names by (simp add: lower_keys_def)
  moreover have "dec_metadata J (metadata_json (sec_Metadata s)) = Some (canon_meta (sec_Metadata s))"
    using assms by (intro dec_metadata_json) (simp add: secret_ok_def)
  ultimately show thesis
    using m'(1,2) by (intro that [of "\<lparr>sec_Path = sec_Path s, sec_Versions = m', sec_Metadata = canon_meta (sec_Metadata s)\<rparr>"])
      (auto simp: unmarshal_secret_def json_parse_text secret_json_def field_lower versions_json_def simp del: json_text.simps)
qed

subsection \<open>Lemmas: what decoding returns can be printed again\<close>

lemma to_any_ok:
  assumes "json_env_ok J"
  shows "floats_ok J v \<Longrightarrow> any_ok J (to_any J v)"
proof (induction v)
  case (Jnum s)
  then show ?case using assms unfolding json_env_ok_def by (cases "je_float J s") auto
next
  case (Jarr vs)
  then show ?case by (auto simp: list_all_iff)
next
  case (Jobj fs)
  let ?fs = "map (\<lambda>(k, v). (k, to_any J v)) fs"
  have "any_ok J v" if "(k, v) \<in> set ?fs" for k v
    using that Jobj by (fastforce simp: list_all_iff)
  then have "any_ok J v" if "(k, v) \<in> set (sort_map ?fs)" for k v using that set_sort_map [of ?fs] by blast
  then show ?case by (auto simp: list_all_iff)
qed auto

lemma dec_data_ok: "json_env_ok J \<Longrightarrow> dec_data J v = Some d \<Longrightarrow> data_ok J d"
  using to_any_ok [of J v] by (cases v) (auto simp: dec_data_def data_ok_def split: if_splits)

lemma dec_time_ok: "json_env_ok J \<Longrightarrow> dec_time J v = Some t \<Longrightarrow> je_time_ok J t"
  by (cases v) (auto simp: json_env_ok_def split: if_splits)

lemma dec_time_pointer_ok: "dec_time_pointer J v = Some (Some t) \<Longrightarrow> je_time_ok J t"
  by (cases v) (auto split: if_splits)

lemma dec_metadata_ok: "json_env_ok J \<Longrightarrow> dec_metadata J v = Some m \<Longrightarrow> meta_ok J m"
  by (cases v) (auto simp: meta_ok_def zero_metadata_def json_env_ok_def bind_eq_Some_conv dest: dec_time_ok [unfolded json_env_ok_def, rotated]
      dec_time_pointer_ok)

lemma dec_version_ok: "json_env_ok J \<Longrightarrow> dec_version J v = Some x \<Longrightarrow> version_ok J x"
  by (cases v) (auto simp: version_ok_def bind_eq_Some_conv dest: dec_data_ok dec_metadata_ok)

lemma dec_version_members_ok:
  assumes "json_env_ok J" and "dec_version_members J fs m = Some m'"
    and "distinct (map fst m)" and "\<forall>n x. (n, x) \<in> set m \<longrightarrow> version_ok J x"
  shows "distinct (map fst m') \<and> (\<forall>n x. (n, x) \<in> set m' \<longrightarrow> version_ok J x)"
  using assms(2-4)
proof (induction fs arbitrary: m)
  case (Cons kv fs)
  obtain k v where kv: "kv = (k, v)" by (cases kv)
  from Cons.prems(1) kv obtain n x where x: "parse_uint64 k = Some n" "dec_version J v = Some x"
      "dec_version_members J fs (AList.update n x m) = Some m'" by (auto simp: bind_eq_Some_conv)
  have "version_ok J x" using dec_version_ok [OF assms(1) x(2)] .
  then have "\<forall>i y. (i, y) \<in> set (AList.update n x m) \<longrightarrow> version_ok J y"
    using Cons.prems(3) by (auto simp: set_gm_update [OF Cons.prems(2)])
  then show ?case by (intro Cons.IH [OF x(3)] distinct_keys_update Cons.prems(2))
qed simp

lemma dec_secret_ok: "json_env_ok J \<Longrightarrow> dec_secret J v = Some s \<Longrightarrow> secret_ok J s"
proof -
  assume J: "json_env_ok J" and s: "dec_secret J v = Some s"
  have vs: "distinct (map fst m) \<and> (\<forall>n x. (n, x) \<in> set m \<longrightarrow> version_ok J x)" if "dec_versions J w = Some m" for w m
    using that dec_version_members_ok [OF J] by (cases w) auto
  from s show ?thesis
  proof (cases v)
    case (Jobj fs)
    with s obtain p m d where d: "dec_versions J (field fs ''versions'') = Some m" "dec_metadata J (field fs ''metadata'') = Some d"
        "s = \<lparr>sec_Path = p, sec_Versions = m, sec_Metadata = d\<rparr>" by (auto simp: bind_eq_Some_conv)
    then show ?thesis using vs [OF d(1)] dec_metadata_ok [OF J d(2)] by (simp add: secret_ok_def)
  next
    case Jnull
    with s have "s = \<lparr>sec_Path = [], sec_Versions = [], sec_Metadata = zero_metadata\<rparr>" by simp
    then show ?thesis using J by (simp add: secret_ok_def meta_ok_def zero_metadata_def json_env_ok_def)
  qed auto
qed

lemma unmarshal_secret_ok: "json_env_ok J \<Longrightarrow> unmarshal_secret J t = Some s \<Longrightarrow> secret_ok J s"
  by (auto simp: unmarshal_secret_def bind_eq_Some_conv intro: dec_secret_ok)

end
