(* ===== verification/Secret_Store.thy ===== *)
theory Secret_Store
  imports Secret_Codec
begin

text \<open>
  The secret store, \<open>internal/raft/secrets.go\<close>: versioned secrets in the key-value store,
  encrypted by the key manager behind the seal manager. Each version has an entry with the
  encrypted data and the wrapped key; one entry per secret lists its versions.
\<close>

declare map_of_eq_Some_iff [simp del]

subsection \<open>State\<close>

record 'k secret_state = "'k seal_state" +
  ss_dekCache :: "(bytes, bytes) gomap"

type_synonym ('k, 'z, 'a) secret_action = "(('k, 'z) secret_state_scheme, 'a) state"

definition NewSecretStore :: "'k seal_state \<Rightarrow> 'k secret_state" where
  "NewSecretStore sm = seal_state.extend sm \<lparr>ss_dekCache = []\<rparr>"

subsection \<open>Paths and keys\<close>

definition normalizePath :: "string \<Rightarrow> string" where
  "normalizePath p = Clean (Trim_slash p)"

definition validatePath :: "string \<Rightarrow> seal_err option" where
  "validatePath p =
     (if p = [] then Some (SErrorf ''path cannot be empty'')
      else if HasPrefix p ''_system'' then Some (SErrorf ''path cannot start with _system'')
      else None)"

definition metadataKey :: "string \<Rightarrow> string" where
  "metadataKey secretPath = path_Join [''/secrets'', ''metadata'', secretPath]"

definition versionKey :: "string \<Rightarrow> 64 word \<Rightarrow> string" where
  "versionKey secretPath version = ''/secrets/data/'' @ secretPath @ ''/v'' @ show_nat (unat version)"

definition getLatestVersion :: "Secret \<Rightarrow> 64 word" where
  "getLatestVersion secret = foldl (\<lambda>m v. if v > m then v else m) 0 (map fst (sec_Versions secret))"

subsection \<open>The store\<close>

definition checkSealed :: "('k, 'z, seal_err option) secret_action" where
  "checkSealed = do {
     s \<leftarrow> State_Monad.get;
     sret (if sm_sealed s then Some (SKm ErrSealedKey)
           else if \<not> sm_initialized s then Some (SKm ErrNotInitialized) else None)
   }"

definition getSecret :: "raft_env \<Rightarrow> json_env \<Rightarrow> string \<Rightarrow> ('k, 'z, (seal_err, Secret) result) secret_action" where
  "getSecret R J secretPath = do {
     g \<leftarrow> on_kv (kv_Get R (metadataKey secretPath) ReadModeStale);
     sret (case g of
             Inl e \<Rightarrow> Inl (SRaft e)
           | Inr entry \<Rightarrow>
               (case unmarshal_secret J (entry_Value entry) of
                  None \<Rightarrow> Inl (SWrapf ''failed to unmarshal secret'' (SErrorf ''json''))
                | Some secret \<Rightarrow> Inr secret))
   }"

definition on_km_read :: "('k \<Rightarrow> 'a) \<Rightarrow> ('k, 'z, 'a) seal_action" where
  "on_km_read f = do { s \<leftarrow> sget; sret (f (sm_km s)) }"

definition generateDEK :: "raft_env \<Rightarrow> 'k KeyManager \<Rightarrow> ('k, 'z, (km_err, bytes) result) secret_action" where
  "generateDEK R K = do {
     ob \<leftarrow> on_kv (observe R);
     on_km_read (im_DeriveKey K (''dek-'' @ show_int (ob_now ob)) 32)
   }"

text \<open>Both ciphers ignore the key they are given and use the one of the key manager.\<close>

definition encryptAESGCM :: "'k KeyManager \<Rightarrow> bytes \<Rightarrow> bytes \<Rightarrow> ('k, 'z, (km_err, bytes) result) secret_action" where
  "encryptAESGCM K key plaintext = on_km (im_Encrypt K plaintext)"

definition decryptAESGCM :: "'k KeyManager \<Rightarrow> bytes \<Rightarrow> bytes \<Rightarrow> ('k, 'z, (km_err, bytes) result) secret_action" where
  "decryptAESGCM K key ciphertext = on_km_read (im_Decrypt K ciphertext)"

definition encryptWithDEK :: "'k KeyManager \<Rightarrow> bytes \<Rightarrow> bytes \<Rightarrow> ('k, 'z, (km_err, bytes) result) secret_action" where
  "encryptWithDEK K dek plaintext = encryptAESGCM K dek plaintext"

definition decryptWithDEK :: "'k KeyManager \<Rightarrow> bytes \<Rightarrow> bytes \<Rightarrow> ('k, 'z, (km_err, bytes) result) secret_action" where
  "decryptWithDEK K dek ciphertext = decryptAESGCM K dek ciphertext"

definition cache_get :: "bytes \<Rightarrow> (bytes, bytes) gomap \<Rightarrow> bytes option" where
  "cache_get key c = (case map_of c key of None \<Rightarrow> None | Some d \<Rightarrow> if d = [] then None else Some d)"

definition dekCacheSize :: nat where
  "dekCacheSize = 100"

definition cache_put :: "bytes \<Rightarrow> bytes \<Rightarrow> (bytes, bytes) gomap \<Rightarrow> (bytes, bytes) gomap" where
  "cache_put key val c = AList.update key val (if length c \<ge> dekCacheSize then [] else c)"

definition unwrapDEK :: "'k KeyManager \<Rightarrow> bytes \<Rightarrow> ('k, 'z, (km_err, bytes) result) secret_action" where
  "unwrapDEK K wrappedDEK = do {
     s \<leftarrow> State_Monad.get;
     case cache_get wrappedDEK (ss_dekCache s) of
       Some dek \<Rightarrow> sret (Inr dek)
     | None \<Rightarrow>
         (case im_UnwrapKey K wrappedDEK (sm_km s) of
            Inl e \<Rightarrow> sret (Inl e)
          | Inr dek \<Rightarrow> do {
              State_Monad.set (s\<lparr>ss_dekCache := cache_put wrappedDEK dek (ss_dekCache s)\<rparr>);
              sret (Inr dek)
            })
   }"

definition default_options :: SecretOptions where
  "default_options = \<lparr>so_CreatedBy = [], so_CustomMetadata = [], so_LeaseID = []\<rparr>"

text \<open>The two entries \<open>Put\<close> writes once the data is encrypted.\<close>

definition store_version ::
  "raft_env \<Rightarrow> Secret \<Rightarrow> SecretMetadata \<Rightarrow> json \<Rightarrow> bytes \<Rightarrow> bytes \<Rightarrow> string \<Rightarrow> ('k, 'z, (seal_err, SecretMetadata) result) secret_action" where
  "store_version R secret metadata data encryptedData wrappedDEK leaseID = do {
     p \<leftarrow> on_kv (kv_Put R (versionKey (md_Path metadata) (md_Version metadata))
                  (json_text (Jobj (version_entry encryptedData wrappedDEK metadata))) leaseID);
     case p of
       Some e \<Rightarrow> sret (Inl (SWrapf ''failed to store version'' (SRaft e)))
     | None \<Rightarrow> do {
         (let version = \<lparr>sv_Data = data, sv_Metadata = metadata, sv_WrappedDEK = wrappedDEK\<rparr>;
              secret' = secret\<lparr>sec_Versions := AList.update (md_Version metadata) version (sec_Versions secret),
                               sec_Metadata := metadata\<rparr>
          in do {
            q \<leftarrow> on_kv (kv_Put R (metadataKey (md_Path metadata)) (json_text (secret_json secret')) leaseID);
            case q of
              Some e \<Rightarrow> sret (Inl (SWrapf ''failed to store metadata'' (SRaft e)))
            | None \<Rightarrow> sret (Inr metadata)
          })
       }
   }"

definition new_metadata :: "string \<Rightarrow> 64 word \<Rightarrow> string \<Rightarrow> SecretOptions \<Rightarrow> SecretMetadata" where
  "new_metadata p n now opts =
     \<lparr>md_Path = p, md_Version = n, md_CreatedTime = now, md_CreatedBy = so_CreatedBy opts, md_UpdatedTime = now,
      md_UpdatedBy = so_CreatedBy opts, md_DeletedTime = None, md_Destroyed = False,
      md_CustomMeta = so_CustomMetadata opts, md_LeaseID = so_LeaseID opts\<rparr>"

definition ss_Put ::
  "raft_env \<Rightarrow> 'k KeyManager \<Rightarrow> json_env \<Rightarrow> string \<Rightarrow> json \<Rightarrow> SecretOptions option
     \<Rightarrow> ('k, 'z, (seal_err, SecretMetadata) result) secret_action" where
  "ss_Put R K J secretPath0 data opts0 = do {
     c \<leftarrow> checkSealed;
     case c of
       Some e \<Rightarrow> sret (Inl e)
     | None \<Rightarrow>
         (let opts = (case opts0 of None \<Rightarrow> default_options | Some opt \<Rightarrow> opt);
              secretPath = normalizePath secretPath0
          in case validatePath secretPath of
               Some e \<Rightarrow> sret (Inl e)
             | None \<Rightarrow> do {
                 g \<leftarrow> getSecret R J secretPath;
                 if isl g \<and> projl g \<noteq> SRaft ErrKeyNotFound
                 then sret (Inl (SWrapf ''failed to get existing secret'' (projl g)))
                 else
                   (let fresh = \<lparr>sec_Path = secretPath, sec_Versions = [], sec_Metadata = zero_metadata\<rparr>;
                        (secret, nextVersion) =
                          (case g of
                             Inr sec \<Rightarrow> if sec_Versions sec \<noteq> [] then (sec, getLatestVersion sec + 1) else (fresh, 1)
                           | Inl _ \<Rightarrow> (fresh, 1))
                    in do {
                      d \<leftarrow> generateDEK R K;
                      case d of
                        Inl e \<Rightarrow> sret (Inl (SWrapf ''failed to generate DEK'' (SKm e)))
                      | Inr dek \<Rightarrow> do {
                          w \<leftarrow> on_km (im_WrapKey K dek);
                          case w of
                            Inl e \<Rightarrow> sret (Inl (SWrapf ''failed to wrap DEK'' (SKm e)))
                          | Inr wrappedDEK \<Rightarrow> do {
                              x \<leftarrow> encryptWithDEK K dek (json_text data);
                              case x of
                                Inl e \<Rightarrow> sret (Inl (SWrapf ''failed to encrypt data'' (SKm e)))
                              | Inr encryptedData \<Rightarrow> do {
                                  ob \<leftarrow> on_kv (observe R);
                                  store_version R secret (new_metadata secretPath nextVersion (je_time J (ob_now ob)) opts)
                                    data encryptedData wrappedDEK (so_LeaseID opts)
                                }
                            }
                        }
                    })
               })
   }"

definition decode_entry :: "json_env \<Rightarrow> bytes \<Rightarrow> (seal_err, bytes \<times> bytes \<times> SecretMetadata) result" where
  "decode_entry J val =
     (case unmarshal_map J val of
        None \<Rightarrow> Inl (SWrapf ''failed to unmarshal version'' (SErrorf ''json''))
      | Some versionData \<Rightarrow>
          (case map_of versionData ''encrypted_data'' of
             None \<Rightarrow> Inl (SErrorf ''encrypted data not found'')
           | Some enc \<Rightarrow>
               (case dec_bytes enc of
                  None \<Rightarrow> Inl (SWrapf ''failed to unmarshal encrypted bytes'' (SErrorf ''json''))
                | Some encryptedBytes \<Rightarrow>
                    (case map_of versionData ''wrapped_dek'' of
                       None \<Rightarrow> Inl (SErrorf ''wrapped DEK not found'')
                     | Some wrapped \<Rightarrow>
                         (case dec_bytes wrapped of
                            None \<Rightarrow> Inl (SWrapf ''failed to unmarshal wrapped DEK'' (SErrorf ''json''))
                          | Some wrappedDEK \<Rightarrow>
                              Inr (encryptedBytes, wrappedDEK,
                                (case map_of versionData ''metadata'' of
                                   None \<Rightarrow> zero_metadata
                                 | Some m \<Rightarrow> (case dec_metadata J m of None \<Rightarrow> zero_metadata | Some md \<Rightarrow> md))))))))"

definition read_version ::
  "raft_env \<Rightarrow> 'k KeyManager \<Rightarrow> json_env \<Rightarrow> string \<Rightarrow> 64 word \<Rightarrow> ('k, 'z, (seal_err, SecretVersion) result) secret_action" where
  "read_version R K J secretPath version = do {
     g \<leftarrow> on_kv (kv_Get R (versionKey secretPath version) ReadModeStale);
     case g of
       Inl e \<Rightarrow> sret (Inl (SWrapf ''failed to get version'' (SRaft e)))
     | Inr entry \<Rightarrow>
         (case decode_entry J (entry_Value entry) of
            Inl e \<Rightarrow> sret (Inl e)
          | Inr (encryptedBytes, wrappedDEK, metadata) \<Rightarrow> do {
              d \<leftarrow> unwrapDEK K wrappedDEK;
              case d of
                Inl e \<Rightarrow> sret (Inl (SWrapf ''failed to unwrap DEK'' (SKm e)))
              | Inr dek \<Rightarrow> do {
                  x \<leftarrow> decryptWithDEK K dek encryptedBytes;
                  case x of
                    Inl e \<Rightarrow> sret (Inl (SWrapf ''failed to decrypt data'' (SKm e)))
                  | Inr decryptedData \<Rightarrow>
                      (case unmarshal_data J decryptedData of
                         None \<Rightarrow> sret (Inl (SWrapf ''failed to unmarshal data'' (SErrorf ''json'')))
                       | Some data \<Rightarrow>
                           sret (Inr \<lparr>sv_Data = data, sv_Metadata = metadata, sv_WrappedDEK = wrappedDEK\<rparr>))
                }
            })
   }"

text \<open>\<open>opts.Version\<close>, with 0 for the latest version and for nil options.\<close>

definition ss_Get ::
  "raft_env \<Rightarrow> 'k KeyManager \<Rightarrow> json_env \<Rightarrow> string \<Rightarrow> 64 word \<Rightarrow> ('k, 'z, (seal_err, SecretVersion) result) secret_action" where
  "ss_Get R K J secretPath0 version0 = do {
     c \<leftarrow> checkSealed;
     case c of
       Some e \<Rightarrow> sret (Inl e)
     | None \<Rightarrow>
         (let secretPath = normalizePath secretPath0 in do {
            g \<leftarrow> getSecret R J secretPath;
            case g of
              Inl e \<Rightarrow> sret (Inl e)
            | Inr secret \<Rightarrow>
                (let version = (if version0 = 0 then getLatestVersion secret else version0) in
                 if map_of (sec_Versions secret) version = None
                 then sret (Inl (SErrorf (''version '' @ show_nat (unat version) @ '' not found'')))
                 else read_version R K J secretPath version)
          })
   }"

text \<open>One round of the loop of \<open>Delete\<close>; failures to rewrite the entry of the version are ignored.\<close>

definition delete_version ::
  "raft_env \<Rightarrow> json_env \<Rightarrow> string \<Rightarrow> string \<Rightarrow> 64 word \<Rightarrow> Secret \<Rightarrow> ('k, 'z, Secret) secret_action" where
  "delete_version R J now secretPath version secret =
     (case map_of (sec_Versions secret) version of
        None \<Rightarrow> sret secret
      | Some v \<Rightarrow> do {
          g \<leftarrow> on_kv (kv_Get R (versionKey secretPath version) ReadModeLinearizable);
          _ \<leftarrow> (case g of
                  Inl e \<Rightarrow> sret ()
                | Inr entry \<Rightarrow>
                    (case unmarshal_map J (entry_Value entry) of
                       None \<Rightarrow> sret ()
                     | Some versionData \<Rightarrow>
                         (case Option.bind (map_of versionData ''metadata'') (dec_metadata J) of
                            None \<Rightarrow> sret ()
                          | Some metadata \<Rightarrow> do {
                              _ \<leftarrow> on_kv (kv_Put R (versionKey secretPath version)
                                     (json_text (Jobj (ins ''metadata'' (metadata_json (metadata\<lparr>md_DeletedTime := Some now\<rparr>)) versionData))) []);
                              sret ()
                            })));
          sret (secret\<lparr>sec_Versions := AList.update version
                  (v\<lparr>sv_Metadata := (sv_Metadata v)\<lparr>md_DeletedTime := Some now\<rparr>\<rparr>) (sec_Versions secret)\<rparr>)
        })"

fun delete_versions ::
  "raft_env \<Rightarrow> json_env \<Rightarrow> string \<Rightarrow> string \<Rightarrow> 64 word list \<Rightarrow> Secret \<Rightarrow> ('k, 'z, Secret) secret_action" where
  "delete_versions R J now secretPath [] secret = sret secret"
| "delete_versions R J now secretPath (v # vs) secret = do {
     secret' \<leftarrow> delete_version R J now secretPath v secret;
     delete_versions R J now secretPath vs secret'
   }"

definition ss_Delete :: "raft_env \<Rightarrow> json_env \<Rightarrow> string \<Rightarrow> 64 word list \<Rightarrow> ('k, 'z, seal_err option) secret_action" where
  "ss_Delete R J secretPath0 versions0 = do {
     c \<leftarrow> checkSealed;
     case c of
       Some e \<Rightarrow> sret (Some e)
     | None \<Rightarrow>
         (let secretPath = normalizePath secretPath0 in do {
            g \<leftarrow> getSecret R J secretPath;
            case g of
              Inl e \<Rightarrow> sret (Some e)
            | Inr secret \<Rightarrow> do {
                ob \<leftarrow> on_kv (observe R);
                secret' \<leftarrow> delete_versions R J (je_time J (ob_now ob)) secretPath
                             (if versions0 = [] then [getLatestVersion secret] else versions0) secret;
                q \<leftarrow> on_kv (kv_Put R (metadataKey secretPath) (json_text (secret_json secret')) []);
                sret (case q of Some e \<Rightarrow> Some (SWrapf ''failed to update metadata'' (SRaft e)) | None \<Rightarrow> None)
              }
          })
   }"

definition ss_List :: "raft_env \<Rightarrow> json_env \<Rightarrow> string \<Rightarrow> ('k, 'z, (seal_err, SecretMetadata list) result) secret_action" where
  "ss_List R J prefix0 = do {
     c \<leftarrow> checkSealed;
     case c of
       Some e \<Rightarrow> sret (Inl e)
     | None \<Rightarrow> do {
         g \<leftarrow> on_kv (kv_List R (metadataKey (normalizePath prefix0)) ReadModeStale);
         sret (case g of
                 Inl e \<Rightarrow> Inl (SWrapf ''failed to list secrets'' (SRaft e))
               | Inr entries \<Rightarrow>
                   Inr (List.map_filter (\<lambda>entry. map_option sec_Metadata (unmarshal_secret J (entry_Value entry))) entries))
       }
   }"

text \<open>\<open>sort.Slice\<close> by descending version.\<close>

definition GetVersions :: "raft_env \<Rightarrow> json_env \<Rightarrow> string \<Rightarrow> ('k, 'z, (seal_err, SecretMetadata list) result) secret_action" where
  "GetVersions R J secretPath0 = do {
     c \<leftarrow> checkSealed;
     case c of
       Some e \<Rightarrow> sret (Inl e)
     | None \<Rightarrow> do {
         g \<leftarrow> getSecret R J (normalizePath secretPath0);
         sret (case g of
                 Inl e \<Rightarrow> Inl e
               | Inr secret \<Rightarrow> Inr (rev (sort_key md_Version (map (sv_Metadata \<circ> snd) (sec_Versions secret)))))
       }
   }"

subsection \<open>Lemmas: paths\<close>

text \<open>A plain path: no segment is empty, a dot or two dots.\<close>

definition plain_path :: "string \<Rightarrow> bool" where
  "plain_path p \<longleftrightarrow> list_all (\<lambda>seg. seg \<notin> {[], ''.'', ''..''}) (Split (CHR ''/'') p)"

lemma fold_clean_plain:
  "list_all (\<lambda>seg. seg \<notin> {[], ''.'', ''..''}) segs \<Longrightarrow> fold (clean_step b) segs out = rev segs @ out"
  by (induction segs arbitrary: out) (auto simp: clean_step_def)

lemma Split_secrets:
  "Split (CHR ''/'') (''/secrets/metadata/'' @ p) = [] # ''secrets'' # ''metadata'' # Split (CHR ''/'') p"
proof -
  have "Split (CHR ''/'') (''metadata'' @ CHR ''/'' # p) = ''metadata'' # Split (CHR ''/'') p" by (rule Split_append_sep) simp
  moreover have "Split (CHR ''/'') (''secrets'' @ CHR ''/'' # ''metadata'' @ CHR ''/'' # p)
      = ''secrets'' # Split (CHR ''/'') (''metadata'' @ CHR ''/'' # p)" by (rule Split_append_sep) simp
  moreover have "''/secrets/metadata/'' @ p = CHR ''/'' # ''secrets'' @ CHR ''/'' # ''metadata'' @ CHR ''/'' # p" by simp
  ultimately show ?thesis by simp
qed

lemma metadataKey_plain: "plain_path p \<Longrightarrow> metadataKey p = ''/secrets/metadata/'' @ p"
proof -
  assume "plain_path p"
  then have "fold (clean_step True) (Split (CHR ''/'') (''/secrets/metadata/'' @ p)) []
      = rev (''secrets'' # ''metadata'' # Split (CHR ''/'') p)"
    by (simp add: Split_secrets clean_step_def fold_clean_plain plain_path_def)
  moreover have "Join (CHR ''/'') (''secrets'' # ''metadata'' # Split (CHR ''/'') p) = ''secrets/metadata/'' @ p"
    by (simp add: Join_Cons_neq)
  moreover have "HasPrefix (''/secrets/metadata/'' @ p) ''/''" by (simp add: HasPrefix_def)
  ultimately have "Clean (''/secrets/metadata/'' @ p) = ''/secrets/metadata/'' @ p" by (simp add: Clean_def Let_def)
  then show ?thesis by (simp add: metadataKey_def path_Join_def)
qed

lemma data_metadata_keys: "plain_path q \<Longrightarrow> versionKey p n \<noteq> metadataKey q"
  by (simp add: metadataKey_plain versionKey_def)

text \<open>No two versions share an entry, and no two plain paths share one.\<close>

lemma digits_no_slash: "CHR ''/'' \<notin> set (show_nat n)"
  using show_nat_digits [of "CHR ''/''" n] by (auto simp: is_digit_def)

lemma versionKey_inject: "versionKey p m = versionKey q n \<longleftrightarrow> p = q \<and> m = n"
proof
  assume eq: "versionKey p m = versionKey q n"
  have tail: "rev (takeWhile (\<lambda>c. c \<noteq> CHR ''/'') (rev (versionKey p m))) = CHR ''v'' # show_nat (unat m)"
    "versionKey p m = ''/secrets/data/'' @ p @ CHR ''/'' # rev (takeWhile (\<lambda>c. c \<noteq> CHR ''/'') (rev (versionKey p m)))" for p and m :: "64 word"
    using digits_no_slash [of "unat m"]
    by (simp_all add: versionKey_def takeWhile_append2) (subst takeWhile_append2, auto)+
  from eq tail(1) [of p m] tail(1) [of q n] have "show_nat (unat m) = show_nat (unat n)" by simp
  then have "m = n" by (simp add: word_unat_eq_iff)
  with eq show "p = q \<and> m = n" by (simp add: versionKey_def)
qed simp

subsection \<open>Lemmas: the calls on a stable leader\<close>

lemma getLatestVersion_Max: "getLatestVersion s = Max (insert 0 (set (map fst (sec_Versions s))))"
proof -
  have "foldl (\<lambda>m v. if v > m then v else m) a xs = Max (insert a (set xs))" for a :: "64 word" and xs
  proof (induction xs arbitrary: a)
    case (Cons x xs)
    have "foldl (\<lambda>m v. if v > m then v else m) a (x # xs) = Max (insert (max a x) (set xs))"
      unfolding Cons.IH [symmetric] by (cases "a < x") (auto simp: max_def)
    also have "\<dots> = Max (insert a (set (x # xs)))" by (cases "xs = []") (simp_all add: max.assoc)
    finally show ?case .
  qed simp
  then show ?thesis by (simp add: getLatestVersion_def)
qed

lemma latest_le: "n \<in> set (map fst (sec_Versions s)) \<Longrightarrow> n \<le> getLatestVersion s"
  by (simp add: getLatestVersion_Max)

lemma run_checkSealed:
  "run_state checkSealed s = (if sm_sealed s then Some (SKm ErrSealedKey)
     else if \<not> sm_initialized s then Some (SKm ErrNotInitialized) else None, s)"
  by (simp add: checkSealed_def)

lemma run_on_km_read: "run_state (on_km_read f) s = (f (sm_km s), s)"
  by (simp add: on_km_read_def)

text \<open>Reading the entry of a secret.\<close>

definition stored_secret :: "json_env \<Rightarrow> KVStateMachine \<Rightarrow> string \<Rightarrow> (seal_err, Secret) result" where
  "stored_secret J f p =
     (case kv_abs f (metadataKey p) of
        None \<Rightarrow> Inl (SRaft ErrKeyNotFound)
      | Some t \<Rightarrow> (case unmarshal_secret J t of None \<Rightarrow> Inl (SWrapf ''failed to unmarshal secret'' (SErrorf ''json'')) | Some s \<Rightarrow> Inr s))"

lemma run_getSecret:
  assumes "quiet R" and "node_started (sm_node s)"
  shows "run_state (getSecret R J p) s
       = (stored_secret J (node_fsm (sm_node s)) p, s\<lparr>sm_node := (sm_node s)\<lparr>node_clock := Suc (node_clock (sm_node s))\<rparr>\<rparr>)"
  using assms
  by (auto simp: getSecret_def seal_runs kv_Get_stale stored_secret_def fsm_Get_def kv_abs_def split: option.split)

lemma run_observe_quiet:
  "quiet R \<Longrightarrow> run_state (on_kv (observe R)) s
     = (R (node_clock (sm_node s)), s\<lparr>sm_node := (sm_node s)\<lparr>node_clock := Suc (node_clock (sm_node s))\<rparr>\<rparr>)"
  by (simp add: seal_runs runs quiet_def)

lemma kv_Put_lease_abs:
  assumes "run_state (kv_Put R k v l) n = (None, n')" and "stable_leader R" and "quiet R"
  shows "node_started n" and "node_started n'" and "isValidKey k" and "kv_abs (node_fsm n') = (kv_abs (node_fsm n))(k \<mapsto> v)"
proof -
  show n: "node_started n" and k: "isValidKey k" using assms(1) by (auto simp: kv_Put_def split: if_splits)
  let ?a = "Apply (ob_now (R (Suc (node_clock n)))) (Encoded (put_command k v l)) (node_fsm n)"
  have "fst ?a = None" "node_fsm n' = snd ?a" "node_started n'" using assms n k by (auto simp: runs Let_def)
  then show "node_started n'" "kv_abs (node_fsm n') = (kv_abs (node_fsm n))(k \<mapsto> v)" using Apply_put_ok_abs(2) by auto
qed

lemma store_version_ok:
  assumes "run_state (store_version R sec md data c w l) s = (Inr md', s')" and "stable_leader R" and "quiet R"
  shows "md' = md \<and> sm_km s' = sm_km s \<and> sm_sealed s' = sm_sealed s \<and> sm_initialized s' = sm_initialized s
       \<and> node_started (sm_node s') \<and> ss_dekCache s' = ss_dekCache s
       \<and> seal_kv s' = (seal_kv s)(versionKey (md_Path md) (md_Version md) \<mapsto> json_text (Jobj (version_entry c w md)),
            metadataKey (md_Path md) \<mapsto> json_text (secret_json (sec\<lparr>sec_Versions :=
                AList.update (md_Version md) \<lparr>sv_Data = data, sv_Metadata = md, sv_WrappedDEK = w\<rparr> (sec_Versions sec),
                sec_Metadata := md\<rparr>)))"
proof -
  let ?v = "json_text (Jobj (version_entry c w md))"
  let ?sec = "sec\<lparr>sec_Versions := AList.update (md_Version md) \<lparr>sv_Data = data, sv_Metadata = md, sv_WrappedDEK = w\<rparr> (sec_Versions sec),
                sec_Metadata := md\<rparr>"
  obtain e1 n1 where p: "run_state (kv_Put R (versionKey (md_Path md) (md_Version md)) ?v l) (sm_node s) = (e1, n1)" by fastforce
  obtain e2 n2 where q: "run_state (kv_Put R (metadataKey (md_Path md)) (json_text (secret_json ?sec)) l) n1 = (e2, n2)" by fastforce
  have e: "e1 = None" "e2 = None" "md' = md" "s' = s\<lparr>sm_node := n2\<rparr>"
    using assms(1) p q by (auto simp: store_version_def seal_runs Let_def simp del: json_text.simps split: option.splits)
  have "kv_abs (node_fsm n1) = (seal_kv s)(versionKey (md_Path md) (md_Version md) \<mapsto> ?v)"
    using kv_Put_lease_abs(4) [OF _ assms(2,3)] p e(1) by blast
  moreover have "node_started n2" "kv_abs (node_fsm n2) = (kv_abs (node_fsm n1))(metadataKey (md_Path md) \<mapsto> json_text (secret_json ?sec))"
    using kv_Put_lease_abs(2,4) [OF _ assms(2,3)] q e(2) by blast+
  ultimately show ?thesis using e by simp
qed

lemma new_metadata_simps [simp]: "md_Path (new_metadata p n now opt) = p" "md_Version (new_metadata p n now opt) = n"
  by (simp_all add: new_metadata_def)

text \<open>The secret \<open>Put\<close> extends, and the number of the version it adds.\<close>

definition put_target :: "json_env \<Rightarrow> KVStateMachine \<Rightarrow> string \<Rightarrow> Secret \<times> 64 word" where
  "put_target J f p =
     (let fresh = \<lparr>sec_Path = p, sec_Versions = [], sec_Metadata = zero_metadata\<rparr> in
      case stored_secret J f p of
        Inr sec \<Rightarrow> if sec_Versions sec \<noteq> [] then (sec, getLatestVersion sec + 1) else (fresh, 1)
      | Inl _ \<Rightarrow> (fresh, 1))"

lemma ss_Put_ok:
  assumes "run_state (ss_Put R K J path data opts) s = (Inr md, s')" and "stable_leader R" and "quiet R" and "node_started (sm_node s)"
    and p_def: "p = normalizePath path" and t_def: "(sec, n) = put_target J (node_fsm (sm_node s)) p"
    and o_def: "opt = (case opts of None \<Rightarrow> default_options | Some opt \<Rightarrow> opt)"
  obtains dek w k1 c where
    "\<not> sm_sealed s" and "sm_initialized s" and "validatePath p = None"
    and "\<not> isl (stored_secret J (node_fsm (sm_node s)) p) \<or> stored_secret J (node_fsm (sm_node s)) p = Inl (SRaft ErrKeyNotFound)"
    and "im_WrapKey K dek (sm_km s) = (Inr w, k1)" and "im_Encrypt K (json_text data) k1 = (Inr c, sm_km s')"
    and "\<exists>now. md = new_metadata p n (je_time J now) opt"
    and "\<not> sm_sealed s'" and "sm_initialized s'" and "node_started (sm_node s')" and "ss_dekCache s' = ss_dekCache s"
    and "seal_kv s' = (seal_kv s)(versionKey p n \<mapsto> json_text (Jobj (version_entry c w md)),
            metadataKey p \<mapsto> json_text (secret_json (sec\<lparr>sec_Versions :=
                AList.update n \<lparr>sv_Data = data, sv_Metadata = md, sv_WrappedDEK = w\<rparr> (sec_Versions sec), sec_Metadata := md\<rparr>)))"
proof -
  let ?g = "stored_secret J (node_fsm (sm_node s)) p"
  let ?n1 = "(sm_node s)\<lparr>node_clock := Suc (node_clock (sm_node s))\<rparr>"
  let ?n2 = "?n1\<lparr>node_clock := Suc (node_clock ?n1)\<rparr>"
  have open_: "\<not> sm_sealed s" "sm_initialized s" using assms(1) by (auto simp: ss_Put_def run_checkSealed split: if_splits)
  have val: "validatePath p = None"
    using assms(1) open_ by (cases "validatePath p") (auto simp: ss_Put_def run_checkSealed Let_def p_def)
  have g: "\<not> isl ?g \<or> ?g = Inl (SRaft ErrKeyNotFound)"
    using assms(1) open_ val
    by (cases ?g) (auto simp: ss_Put_def run_checkSealed Let_def p_def [symmetric] run_getSecret assms(3,4) split: if_splits)
  have t: "(case ?g of Inr sec \<Rightarrow> if sec_Versions sec \<noteq> [] then (sec, getLatestVersion sec + 1)
               else (\<lparr>sec_Path = p, sec_Versions = [], sec_Metadata = zero_metadata\<rparr>, 1)
             | Inl _ \<Rightarrow> (\<lparr>sec_Path = p, sec_Versions = [], sec_Metadata = zero_metadata\<rparr>, 1)) = (sec, n)"
    using t_def by (simp add: put_target_def Let_def split: sum.splits if_splits)
  have g': "\<not> (isl ?g \<and> projl ?g \<noteq> SRaft ErrKeyNotFound)" using g by auto
  let ?ctx = "''dek-'' @ show_int (ob_now (R (node_clock ?n1)))"
  let ?s2 = "s\<lparr>sm_node := ?n2\<rparr>"
  obtain dek where dek: "im_DeriveKey K ?ctx 32 (sm_km s) = Inr dek"
    using assms(1) open_ val g' t
    by (cases "im_DeriveKey K ?ctx 32 (sm_km s)")
       (auto simp: ss_Put_def run_checkSealed Let_def p_def [symmetric] run_getSecret assms(3,4) generateDEK_def
          run_observe_quiet run_on_km_read split: prod.splits)
  obtain x k1 where x: "im_WrapKey K dek (sm_km s) = (x, k1)" by fastforce
  obtain w where w: "x = Inr w"
    using assms(1) open_ val g' t dek x
    by (cases x) (auto simp: ss_Put_def run_checkSealed Let_def p_def [symmetric] run_getSecret assms(3,4) generateDEK_def
          run_observe_quiet run_on_km_read run_on_km split: prod.splits)
  obtain y k2 where y: "im_Encrypt K (json_text data) k1 = (y, k2)" by fastforce
  let ?md = "new_metadata p n (je_time J (ob_now (R (node_clock ?n2)))) opt"
  let ?s3 = "s\<lparr>sm_km := k2, sm_node := ?n2\<lparr>node_clock := Suc (node_clock ?n2)\<rparr>\<rparr>"
  obtain c where c: "y = Inr c" and st: "run_state (store_version R sec ?md data c w (so_LeaseID opt)) ?s3 = (Inr md, s')"
    using assms(1) open_ val g' t dek x w y
    by (cases y) (auto simp: ss_Put_def run_checkSealed Let_def p_def [symmetric] o_def [symmetric] run_getSecret assms(3,4) generateDEK_def
          run_observe_quiet run_on_km_read run_on_km encryptWithDEK_def encryptAESGCM_def split: prod.splits)
  note so = store_version_ok [OF st assms(2,3)]
  show thesis
    by (rule that [of dek w k1 c])
       (use so open_ val g x w y c in \<open>auto simp del: json_text.simps\<close>)
qed

text \<open>Where the secret that is extended comes from, its versions can be decoded again.\<close>

lemma put_target_ok:
  assumes "json_env_ok J" and "(sec, n) = put_target J f p"
  shows "(\<forall>v x. (v, x) \<in> set (sec_Versions sec) \<longrightarrow> version_ok J x) \<and> distinct (map fst (sec_Versions sec))
       \<and> (n = 1 \<and> sec_Versions sec = [] \<or> n = getLatestVersion sec + 1)"
proof (cases "stored_secret J f p")
  case (Inr s)
  then have "secret_ok J s"
    using unmarshal_secret_ok [OF assms(1)] by (auto simp: stored_secret_def split: option.splits)
  with Inr assms(2) show ?thesis by (auto simp: put_target_def Let_def secret_ok_def split: if_splits)
qed (use assms(2) in \<open>auto simp: put_target_def Let_def\<close>)

text \<open>The version added is the latest afterwards, unless the counter wraps around.\<close>

lemma latest_after_put:
  assumes "n = 1 \<and> sec_Versions sec = [] \<or> n = getLatestVersion sec + 1" and "n \<noteq> 0"
    and "set (map fst (sec_Versions sec')) = insert n (set (map fst (sec_Versions sec)))"
  shows "getLatestVersion sec' = n"
proof -
  let ?V = "set (map fst (sec_Versions sec))"
  have "v \<le> n" if "v \<in> insert 0 (insert n ?V)" for v
  proof (cases "v \<in> ?V")
    case True
    then have "v \<le> getLatestVersion sec" "n = getLatestVersion sec + 1" using assms(1) latest_le by auto
    moreover have "getLatestVersion sec < n" using calculation(2) assms(2) inc_less_eq_self_iff_eq [of "getLatestVersion sec"] by (auto simp: not_le [symmetric])
    ultimately show ?thesis by simp
  qed (use that in auto)
  then have "Max (insert 0 (insert n ?V)) = n" by (intro Max_eqI) auto
  then show ?thesis by (simp only: getLatestVersion_Max assms(3))
qed

lemma decode_version_entry:
  assumes "json_env_ok J" and "unat (md_Version m) < 2 ^ 53" and "meta_ok J m"
  shows "decode_entry J (json_text (Jobj (version_entry c w m))) = Inr (c, w, canon_meta m)"
  using unmarshal_version_entry [OF assms(1,2), of c w] dec_metadata_any [OF assms(3)]
  by (simp add: decode_entry_def)

lemma run_unwrapDEK:
  assumes "im_UnwrapKey K w (sm_km s) = Inr dek"
  obtains dek' s' where "run_state (unwrapDEK K w) s = (Inr dek', s')" and "sm_km s' = sm_km s"
  using assms that by (cases "cache_get w (ss_dekCache s)") (auto simp: unwrapDEK_def)

lemma run_read_version:
  assumes "quiet R" and "node_started (sm_node s)" and "seal_kv s (versionKey p n) = Some t"
    and "decode_entry J t = Inr (c, w, m)" and "im_UnwrapKey K w (sm_km s) = Inr dek" and "im_Decrypt K c (sm_km s) = Inr d"
    and "unmarshal_data J d = Some data"
  obtains s' where "run_state (read_version R K J p n) s = (Inr \<lparr>sv_Data = data, sv_Metadata = m, sv_WrappedDEK = w\<rparr>, s')"
proof -
  obtain e where e: "map_of (fsm_data (node_fsm (sm_node s))) (versionKey p n) = Some e" "entry_Value e = t"
    using assms(3) by (auto simp: kv_abs_Some_entry)
  have "fsm_Get (versionKey p n) (node_fsm (sm_node s)) = Inr e" using e(1) by (simp add: fsm_Get_def)
  moreover let ?s = "s\<lparr>sm_node := (sm_node s)\<lparr>node_clock := Suc (node_clock (sm_node s))\<rparr>\<rparr>"
  have "im_UnwrapKey K w (sm_km ?s) = Inr dek" using assms(5) by simp
  from run_unwrapDEK [OF this] obtain dek' s' where "run_state (unwrapDEK K w) ?s = (Inr dek', s')" "sm_km s' = sm_km ?s"
    by blast
  ultimately show thesis
    using assms that [of s'] e(2)
    by (simp add: read_version_def seal_runs kv_Get_stale decryptWithDEK_def decryptAESGCM_def run_on_km_read)
qed

lemma run_Get_open:
  assumes "quiet R" and "node_started (sm_node s)" and "\<not> sm_sealed s" and "sm_initialized s"
    and "stored_secret J (node_fsm (sm_node s)) (normalizePath path) = Inr sec"
    and "n = (if v = 0 then getLatestVersion sec else v)" and "map_of (sec_Versions sec) n \<noteq> None"
  shows "run_state (ss_Get R K J path v) s = run_state (read_version R K J (normalizePath path) n)
           (s\<lparr>sm_node := (sm_node s)\<lparr>node_clock := Suc (node_clock (sm_node s))\<rparr>\<rparr>)"
  using assms by (cases "v = 0") (auto simp: ss_Get_def run_checkSealed run_getSecret Let_def)


subsection \<open>Lemmas: reading back what was stored\<close>

lemma meta_ok_new: "json_env_ok J \<Longrightarrow> meta_ok J (new_metadata p n (je_time J t) opt)"
  by (simp add: json_env_ok_def meta_ok_def new_metadata_def)

text \<open>The secret as the store returns it after a version was added.\<close>

lemma stored_of_text:
  assumes "secret_ok J sec" and "kv_abs f (metadataKey p) = Some (json_text (secret_json sec))"
  obtains s' where "stored_secret J f p = Inr s'" and "getLatestVersion s' = getLatestVersion sec" and "sec_Path s' = sec_Path sec"
    and "sec_Metadata s' = canon_meta (sec_Metadata sec)"
    and "map_of (sec_Versions s') = (\<lambda>v. map_option canon_version (map_of (sec_Versions sec) v))"
proof -
  obtain s' where s': "unmarshal_secret J (json_text (secret_json sec)) = Some s'" "sec_Metadata s' = canon_meta (sec_Metadata sec)" "sec_Path s' = sec_Path sec"
      "map_of (sec_Versions s') = (\<lambda>v. map_option canon_version (map_of (sec_Versions sec) v))"
    by (rule unmarshal_secret_text [OF assms(1)]) auto
  have "dom (map_of (sec_Versions s')) = dom (map_of (sec_Versions sec))" by (auto simp: s'(4))
  then have "set (map fst (sec_Versions s')) = set (map fst (sec_Versions sec))" by (simp add: dom_map_of_conv_image_fst)
  then have "getLatestVersion s' = getLatestVersion sec" by (simp only: getLatestVersion_Max)
  moreover have "stored_secret J f p = Inr s'" using assms(2) s'(1) by (simp add: stored_secret_def del: json_text.simps)
  ultimately show thesis using s'(2-4) by (intro that [of s']) auto
qed

lemma version_ok_update:
  assumes "distinct (map fst m)" and "\<And>v x. (v, x) \<in> set m \<Longrightarrow> version_ok J x" and "version_ok J y"
    and "(v, x) \<in> set (AList.update n y m)"
  shows "version_ok J x"
proof -
  have "map_of (AList.update n y m) v = Some x" using assms(1,4) by (intro map_of_is_SomeI distinct_update) auto
  then have "(v, x) \<in> set m \<or> x = y" by (auto simp: update_conv' dest: map_of_SomeD split: if_splits)
  with assms(2,3) show ?thesis by auto
qed

lemma stored_after_put:
  assumes "json_env_ok J" and "data_ok J data" and "meta_ok J md" and "n \<noteq> 0"
    and "(sec, n) = put_target J f0 p"
    and "kv_abs f (metadataKey p) = Some (json_text (secret_json (sec\<lparr>sec_Versions :=
           AList.update n \<lparr>sv_Data = data, sv_Metadata = md, sv_WrappedDEK = w\<rparr> (sec_Versions sec), sec_Metadata := md\<rparr>)))"
  obtains s' where "stored_secret J f p = Inr s'" and "getLatestVersion s' = n" and "sec_Metadata s' = canon_meta md"
    and "\<And>v. map_of (sec_Versions s') v = (if v = n then Some \<lparr>sv_Data = data, sv_Metadata = canon_meta md, sv_WrappedDEK = []\<rparr>
           else map_option canon_version (map_of (sec_Versions sec) v))"
proof -
  let ?v = "\<lparr>sv_Data = data, sv_Metadata = md, sv_WrappedDEK = w\<rparr>"
  let ?sec = "sec\<lparr>sec_Versions := AList.update n ?v (sec_Versions sec), sec_Metadata := md\<rparr>"
  note t = put_target_ok [OF assms(1,5)]
  have "version_ok J x" if "(v, x) \<in> set (AList.update n ?v (sec_Versions sec))" for v x
    by (rule version_ok_update [OF _ _ _ that]) (use t assms(2,3) in \<open>auto simp: version_ok_def\<close>)
  then have "secret_ok J ?sec" using t assms(3) by (simp add: secret_ok_def distinct_update)
  from stored_of_text [OF this assms(6)]
  obtain s' where s': "stored_secret J f p = Inr s'" "getLatestVersion s' = getLatestVersion ?sec" "sec_Metadata s' = canon_meta md"
      "map_of (sec_Versions s') = (\<lambda>v. map_option canon_version (map_of (sec_Versions ?sec) v))"
    by (metis (no_types, lifting) Secret.select_convs(3) Secret.surjective Secret.update_convs(3))
  have "set (map fst (sec_Versions ?sec)) = insert n (set (map fst (sec_Versions sec)))"
    by (simp add: dom_update [unfolded dom_map_of_conv_image_fst])
  then have "getLatestVersion ?sec = n" using t assms(4) by (intro latest_after_put [of n sec]) auto
  with s' show thesis by (intro that [of s']) (simp_all add: canon_version_def update_conv')
qed

lemma stored_secret_ok:
  "json_env_ok J \<Longrightarrow> stored_secret J f p = Inr s \<Longrightarrow> secret_ok J s"
  by (auto simp: stored_secret_def intro: unmarshal_secret_ok split: option.splits)

context key_manager
begin

text \<open>What the store holds after a \<open>Put\<close>, and that the key manager can read it.\<close>

lemma after_put:
  assumes "ok (sm_km s)" and "json_env_ok J" and "data_ok J data" and "stable_leader R" and "quiet R" and "node_started (sm_node s)"
    and p: "plain_path p" "p = normalizePath path"
    and "run_state (ss_Put R K J path data opts) s = (Inr md, s')" and "md_Version md \<noteq> 0"
  obtains sec c w dek where "stored_secret J (node_fsm (sm_node s')) p = Inr sec" and "getLatestVersion sec = md_Version md"
    and "map_of (sec_Versions sec) (md_Version md) \<noteq> None" and "meta_ok J md"
    and "seal_kv s' (versionKey p (md_Version md)) = Some (json_text (Jobj (version_entry c w md)))"
    and "im_UnwrapKey K w (sm_km s') = Inr dek" and "im_Decrypt K c (sm_km s') = Inr (json_text data)"
    and "\<not> sm_sealed s'" and "sm_initialized s'" and "node_started (sm_node s')"
proof -
  obtain sec n where t: "(sec, n) = put_target J (node_fsm (sm_node s)) p" by (metis prod.collapse)
  obtain dek w k1 c now opt where put: "im_WrapKey K dek (sm_km s) = (Inr w, k1)" "im_Encrypt K (json_text data) k1 = (Inr c, sm_km s')"
      "md = new_metadata p n (je_time J now) opt" "\<not> sm_sealed s'" "sm_initialized s'" "node_started (sm_node s')"
      "seal_kv s' = (seal_kv s)(versionKey p n \<mapsto> json_text (Jobj (version_entry c w md)),
            metadataKey p \<mapsto> json_text (secret_json (sec\<lparr>sec_Versions :=
                AList.update n \<lparr>sv_Data = data, sv_Metadata = md, sv_WrappedDEK = w\<rparr> (sec_Versions sec), sec_Metadata := md\<rparr>)))"
    by (rule ss_Put_ok [OF assms(9,4-6) p(2) t refl]) blast
  have n: "md_Version md = n" using put(3) by simp
  have md: "meta_ok J md" unfolding put(3) by (rule meta_ok_new [OF assms(2)])
  obtain s1 where s1: "stored_secret J (node_fsm (sm_node s')) p = Inr s1" "getLatestVersion s1 = n" "map_of (sec_Versions s1) n \<noteq> None"
    by (rule stored_after_put [OF assms(2,3) md _ t, of "node_fsm (sm_node s')" w]) (use put(7) assms(10) n in auto)
  have ok1: "ok k1" "ok (sm_km s')" using ok_calls(4) [OF assms(1), of dek] ok_calls(5) [of k1 "json_text data"] put(1,2) by auto
  have keys: "keys k1 = keys (sm_km s)" "keys (sm_km s') = keys k1"
    using keeps_keys(2) [OF assms(1), of dek] keeps_keys(1) [OF ok1(1), of "json_text data"] put(1,2) by auto
  have un: "im_UnwrapKey K w (sm_km s') = Inr dek" using WrapKey_law [OF assms(1) put(1) ok1(2)] keys by simp
  have de: "im_Decrypt K c (sm_km s') = Inr (json_text data)" using Encrypt_law [OF ok1(1) put(2) ok1(2)] keys by simp
  have "seal_kv s' (versionKey p n) = Some (json_text (Jobj (version_entry c w md)))"
    using put(7) data_metadata_keys [OF p(1), of p n] by simp
  with s1 n md un de put(4-6) show thesis by (intro that [of s1 c w dek]) auto
qed

end

text \<open>Reading a version whose entry the key manager can open.\<close>

lemma get_entry:
  assumes "quiet R" and "node_started (sm_node s)" and "\<not> sm_sealed s" and "sm_initialized s" and "json_env_ok J" and "data_ok J data"
    and "stored_secret J (node_fsm (sm_node s)) (normalizePath path) = Inr sec"
    and "n = (if v = 0 then getLatestVersion sec else v)" and "map_of (sec_Versions sec) n \<noteq> None"
    and "seal_kv s (versionKey (normalizePath path) n) = Some (json_text (Jobj (version_entry c w md)))"
    and "unat (md_Version md) < 2 ^ 53" and "meta_ok J md"
    and "im_UnwrapKey K w (sm_km s) = Inr dek" and "im_Decrypt K c (sm_km s) = Inr (json_text data)"
  obtains s' where "run_state (ss_Get R K J path v) s = (Inr \<lparr>sv_Data = data, sv_Metadata = canon_meta md, sv_WrappedDEK = w\<rparr>, s')"
proof -
  let ?s = "s\<lparr>sm_node := (sm_node s)\<lparr>node_clock := Suc (node_clock (sm_node s))\<rparr>\<rparr>"
  have "seal_kv ?s (versionKey (normalizePath path) n) = Some (json_text (Jobj (version_entry c w md)))" using assms(10) by simp
  from run_read_version [OF assms(1) _ this decode_version_entry [OF assms(5,11,12)] _ _ unmarshal_data_text [OF assms(6)]]
  obtain s'' where "run_state (read_version R K J (normalizePath path) n) ?s
      = (Inr \<lparr>sv_Data = data, sv_Metadata = canon_meta md, sv_WrappedDEK = w\<rparr>, s'')"
    using assms(2,13,14) by auto
  with run_Get_open [OF assms(1-4,7-9), of K] show thesis by (intro that [of s'']) simp
qed

subsection \<open>Lemmas: deleting\<close>

lemma kv_Put_either:
  assumes "stable_leader R" and "quiet R" and "node_started n" and "run_state (kv_Put R k v []) n = (e, n')"
  shows "node_started n' \<and> fsm_maxValueSize (node_fsm n') = fsm_maxValueSize (node_fsm n)
       \<and> (kv_abs (node_fsm n') = kv_abs (node_fsm n) \<or> kv_abs (node_fsm n') = (kv_abs (node_fsm n))(k \<mapsto> v))"
proof (cases "isValidKey k")
  case True
  have "fsm_maxValueSize (node_fsm n') = fsm_maxValueSize (node_fsm n)"
    using assms True by (auto simp: runs Let_def Apply_put applyPut_def split: option.splits)
  with True kv_Put_stable_abs [OF assms(1-3) _ assms(4)] show ?thesis by (auto split: if_splits)
next
  case False
  with assms(3,4) show ?thesis by (auto simp: kv_Put_def)
qed

lemma kv_Get_linear:
  assumes "stable_leader R" and "quiet R" and "node_started n"
  shows "\<exists>c. run_state (kv_Get R k ReadModeLinearizable) n = (fsm_Get k (node_fsm n), n\<lparr>node_clock := c\<rparr>)"
  using assms by (auto simp: kv_Get_def getLinearizable_def VerifyLeader_def runs quiet_def stable_leader_def)

text \<open>Marking one version as deleted rewrites its entry with the time of the deletion, or keeps it.\<close>

lemma run_delete_version:
  assumes "stable_leader R" and "quiet R" and "node_started (sm_node s)" and "json_env_ok J" and "meta_ok J md" and "unat (md_Version md) < 2 ^ 53"
    and "seal_kv s (versionKey p n) = Some (json_text (Jobj (version_entry c w md)))" and "map_of (sec_Versions sec) n = Some v"
    and "k \<noteq> versionKey p n"
  obtains m n' where "run_state (delete_version R J now p n sec) s
        = (sec\<lparr>sec_Versions := AList.update n (v\<lparr>sv_Metadata := (sv_Metadata v)\<lparr>md_DeletedTime := Some now\<rparr>\<rparr>) (sec_Versions sec)\<rparr>, s\<lparr>sm_node := n'\<rparr>)"
    and "node_started n'" and "kv_abs (node_fsm n') k = seal_kv s k"
    and "fsm_maxValueSize (node_fsm n') = fsm_maxValueSize (node_fsm (sm_node s))"
    and "kv_abs (node_fsm n') (versionKey p n) = Some (json_text (Jobj (version_entry c w m)))"
    and "m = md \<or> m = (canon_meta md)\<lparr>md_DeletedTime := Some now\<rparr>"
proof -
  let ?m = "(canon_meta md)\<lparr>md_DeletedTime := Some now\<rparr>"
  obtain e where e: "map_of (fsm_data (node_fsm (sm_node s))) (versionKey p n) = Some e"
      "entry_Value e = json_text (Jobj (version_entry c w md))"
    using assms(7) by (auto simp: kv_abs_Some_entry)
  obtain cl where g: "run_state (kv_Get R (versionKey p n) ReadModeLinearizable) (sm_node s) = (Inr e, (sm_node s)\<lparr>node_clock := cl\<rparr>)"
    using kv_Get_linear [OF assms(1-3), of "versionKey p n"] e(1) by (auto simp: fsm_Get_def)
  have entry: "ins ''metadata'' (metadata_json ?m) [(''encrypted_data'', Jstr (b64_encode c)), (''metadata'', Jobj (sort_map (meta_fields md))),
               (''wrapped_dek'', Jstr (b64_encode w))] = version_entry c w ?m"
    by (simp add: version_entry_def less_char_def)
  obtain x n' where p: "run_state (kv_Put R (versionKey p n) (json_text (Jobj (version_entry c w ?m))) []) ((sm_node s)\<lparr>node_clock := cl\<rparr>) = (x, n')"
    by fastforce
  have run: "run_state (delete_version R J now p n sec) s
      = (sec\<lparr>sec_Versions := AList.update n (v\<lparr>sv_Metadata := (sv_Metadata v)\<lparr>md_DeletedTime := Some now\<rparr>\<rparr>) (sec_Versions sec)\<rparr>, s\<lparr>sm_node := n'\<rparr>)"
    using assms(8) g p e(2) unmarshal_version_entry [OF assms(4,6), of c w] dec_metadata_any [OF assms(5)]
    by (simp add: delete_version_def seal_runs entry del: json_text.simps ins.simps dec_metadata.simps)
  have "node_started n' \<and> fsm_maxValueSize (node_fsm n') = fsm_maxValueSize (node_fsm (sm_node s)) \<and> (kv_abs (node_fsm n') = seal_kv s \<or> kv_abs (node_fsm n') = (seal_kv s)(versionKey p n \<mapsto> json_text (Jobj (version_entry c w ?m))))"
    using kv_Put_either [OF assms(1,2) _ p] assms(3) by auto
  then show thesis
  proof (elim conjE disjE)
    assume "node_started n'" "fsm_maxValueSize (node_fsm n') = fsm_maxValueSize (node_fsm (sm_node s))" "kv_abs (node_fsm n') = seal_kv s"
    with that [OF run, of md] assms(7) show thesis by simp
  next
    assume "node_started n'" "fsm_maxValueSize (node_fsm n') = fsm_maxValueSize (node_fsm (sm_node s))" "kv_abs (node_fsm n') = (seal_kv s)(versionKey p n \<mapsto> json_text (Jobj (version_entry c w ?m)))"
    with that [OF run, of ?m] assms(9) show thesis by simp
  qed
qed

lemma run_Delete_latest:
  assumes "stable_leader R" and "quiet R" and "node_started (sm_node s)" and "\<not> sm_sealed s" and "sm_initialized s" and "json_env_ok J"
    and p: "plain_path p" "p = normalizePath path" and n: "n = getLatestVersion sec" "unat (md_Version md) < 2 ^ 53" "meta_ok J md"
    and "stored_secret J (node_fsm (sm_node s)) p = Inr sec" and "map_of (sec_Versions sec) n = Some v"
    and "seal_kv s (versionKey p n) = Some (json_text (Jobj (version_entry c w md)))"
  obtains now m sec' n1 e n2 where
    "sec' = sec\<lparr>sec_Versions := AList.update n (v\<lparr>sv_Metadata := (sv_Metadata v)\<lparr>md_DeletedTime := Some (je_time J now)\<rparr>\<rparr>) (sec_Versions sec)\<rparr>"
    and "now = ob_now (R (Suc (node_clock (sm_node s))))"
    and "node_started n1" and "kv_abs (node_fsm n1) (metadataKey p) = seal_kv s (metadataKey p)"
    and "fsm_maxValueSize (node_fsm n1) = fsm_maxValueSize (node_fsm (sm_node s))"
    and "kv_abs (node_fsm n1) (versionKey p n) = Some (json_text (Jobj (version_entry c w m)))"
    and "m = md \<or> m = (canon_meta md)\<lparr>md_DeletedTime := Some (je_time J now)\<rparr>"
    and "run_state (kv_Put R (metadataKey p) (json_text (secret_json sec')) []) n1 = (e, n2)"
    and "run_state (ss_Delete R J path []) s = (map_option (\<lambda>e. SWrapf ''failed to update metadata'' (SRaft e)) e, s\<lparr>sm_node := n2\<rparr>)"
proof -
  let ?s = "s\<lparr>sm_node := (sm_node s)\<lparr>node_clock := Suc (Suc (node_clock (sm_node s)))\<rparr>\<rparr>"
  define t where "t = ob_now (R (Suc (node_clock (sm_node s))))"
  let ?now = "je_time J t"
  let ?sec = "sec\<lparr>sec_Versions := AList.update n (v\<lparr>sv_Metadata := (sv_Metadata v)\<lparr>md_DeletedTime := Some ?now\<rparr>\<rparr>) (sec_Versions sec)\<rparr>"
  have k: "metadataKey p \<noteq> versionKey p n" using data_metadata_keys [OF p(1), of p n] by simp
  have s: "node_started (sm_node ?s)" "seal_kv ?s (versionKey p n) = Some (json_text (Jobj (version_entry c w md)))" using assms(3,14) by simp_all
  obtain m n1 where d: "run_state (delete_version R J ?now p n sec) ?s = (?sec, ?s\<lparr>sm_node := n1\<rparr>)" "node_started n1"
      "kv_abs (node_fsm n1) (metadataKey p) = seal_kv ?s (metadataKey p)"
      "fsm_maxValueSize (node_fsm n1) = fsm_maxValueSize (node_fsm (sm_node ?s))"
      "kv_abs (node_fsm n1) (versionKey p n) = Some (json_text (Jobj (version_entry c w m)))"
      "m = md \<or> m = (canon_meta md)\<lparr>md_DeletedTime := Some ?now\<rparr>"
    by (rule run_delete_version [OF assms(1,2) s(1) assms(6) n(3,2) s(2) assms(13) k])
  obtain e n2 where q: "run_state (kv_Put R (metadataKey p) (json_text (secret_json ?sec)) []) n1 = (e, n2)" by fastforce
  have obs: "run_state (observe R) x = (R (node_clock x), x\<lparr>node_clock := Suc (node_clock x)\<rparr>)" for x
    using assms(2) by (simp add: runs quiet_def)
  have "run_state (ss_Delete R J path []) s = (map_option (\<lambda>e. SWrapf ''failed to update metadata'' (SRaft e)) e, s\<lparr>sm_node := n2\<rparr>)"
    using assms(2-5,12) d(1) q n(1)
    by (auto simp: ss_Delete_def run_checkSealed Let_def p(2) [symmetric] run_getSecret obs t_def [symmetric] run_on_kv
        split: option.splits)
  with d q show thesis by (intro that [of ?sec t n1 m e n2]) (simp_all add: t_def)
qed

text \<open>The secret with one version marked can be stored again, and its latest version stays the same.\<close>

lemma marked_secret:
  assumes "json_env_ok J" and "secret_ok J sec" and "map_of (sec_Versions sec) n = Some v"
    and "sec' = sec\<lparr>sec_Versions := AList.update n (v\<lparr>sv_Metadata := (sv_Metadata v)\<lparr>md_DeletedTime := Some (je_time J now)\<rparr>\<rparr>) (sec_Versions sec)\<rparr>"
  shows "secret_ok J sec'" and "getLatestVersion sec' = getLatestVersion sec"
proof -
  let ?v = "v\<lparr>sv_Metadata := (sv_Metadata v)\<lparr>md_DeletedTime := Some (je_time J now)\<rparr>\<rparr>"
  have "version_ok J v" using assms(2,3) by (auto simp: secret_ok_def dest: map_of_SomeD)
  then have "version_ok J ?v" using assms(1) by (auto simp: version_ok_def meta_ok_def json_env_ok_def)
  then have "version_ok J x" if "(u, x) \<in> set (AList.update n ?v (sec_Versions sec))" for u x
    by (rule version_ok_update [OF _ _ _ that, rotated 2]) (use assms(2) in \<open>auto simp: secret_ok_def\<close>)
  then show "secret_ok J sec'" using assms(2) by (simp add: assms(4) secret_ok_def distinct_update)
  have "n \<in> set (map fst (sec_Versions sec))" using assms(3) by (force dest: map_of_SomeD)
  then have "set (map fst (sec_Versions sec')) = set (map fst (sec_Versions sec))"
    by (simp add: assms(4) dom_update [unfolded dom_map_of_conv_image_fst] insert_absorb)
  then show "getLatestVersion sec' = getLatestVersion sec" by (simp only: getLatestVersion_Max)
qed

context key_manager
begin

lemma put_delete_get:
  assumes "ok (sm_km s)" and "json_env_ok J" and "data_ok J data" and "stable_leader R" and "quiet R" and "node_started (sm_node s)"
    and "plain_path (normalizePath path)"
    and "run_state (ss_Put R K J path data opts) s = (Inr md, s1)" and "md_Version md \<noteq> 0" and "unat (md_Version md) < 2 ^ 53"
    and "run_state (ss_Delete R J path []) s1 = (None, s2)"
  shows "\<exists>m w s3. run_state (ss_Get R K J path 0) s2 = (Inr \<lparr>sv_Data = data, sv_Metadata = m, sv_WrappedDEK = w\<rparr>, s3)"
    and "\<exists>sec version now. stored_secret J (node_fsm (sm_node s2)) (normalizePath path) = Inr sec
       \<and> map_of (sec_Versions sec) (md_Version md) = Some version \<and> md_DeletedTime (sv_Metadata version) = Some (je_time J now)"
proof -
  let ?p = "normalizePath path"
  obtain sec c w dek where a: "stored_secret J (node_fsm (sm_node s1)) ?p = Inr sec" "getLatestVersion sec = md_Version md"
     "map_of (sec_Versions sec) (md_Version md) \<noteq> None" "meta_ok J md"
     "seal_kv s1 (versionKey ?p (md_Version md)) = Some (json_text (Jobj (version_entry c w md)))"
     "im_UnwrapKey K w (sm_km s1) = Inr dek" "im_Decrypt K c (sm_km s1) = Inr (json_text data)"
     "\<not> sm_sealed s1" "sm_initialized s1" "node_started (sm_node s1)"
    by (rule after_put [OF assms(1-7) refl assms(8,9)])
  obtain v where v: "map_of (sec_Versions sec) (md_Version md) = Some v" using a(3) by blast
  let ?n = "md_Version md"
  obtain now m sec' n1 e n2 where sec': "sec' = sec\<lparr>sec_Versions := AList.update ?n (v\<lparr>sv_Metadata := (sv_Metadata v)\<lparr>md_DeletedTime := Some (je_time J now)\<rparr>\<rparr>) (sec_Versions sec)\<rparr>"
    and d: "kv_abs (node_fsm n1) (versionKey ?p ?n) = Some (json_text (Jobj (version_entry c w m)))"
    "m = md \<or> m = (canon_meta md)\<lparr>md_DeletedTime := Some (je_time J now)\<rparr>"
    "run_state (kv_Put R (metadataKey ?p) (json_text (secret_json sec')) []) n1 = (e, n2)"
    "run_state (ss_Delete R J path []) s1 = (map_option (\<lambda>e. SWrapf ''failed to update metadata'' (SRaft e)) e, s1\<lparr>sm_node := n2\<rparr>)"
    by (rule run_Delete_latest [OF assms(4,5) a(10,8,9) assms(2,7) refl a(2) [symmetric] assms(10) a(4,1) v a(5)])
  have e: "e = None" "s2 = s1\<lparr>sm_node := n2\<rparr>" using d(4) assms(11) by auto
  have kv: "node_started n2" "kv_abs (node_fsm n2) = (kv_abs (node_fsm n1))(metadataKey ?p \<mapsto> json_text (secret_json sec'))"
    using kv_Put_lease_abs(2,4) [OF _ assms(4,5)] d(3) e(1) by blast+
  note mk = marked_secret [OF assms(2) stored_secret_ok [OF assms(2) a(1)] v sec']
  from stored_of_text [OF mk(1), of "node_fsm n2" ?p] kv(2)
  obtain s4 where s4: "stored_secret J (node_fsm n2) ?p = Inr s4" "getLatestVersion s4 = ?n"
      "map_of (sec_Versions s4) = (\<lambda>u. map_option canon_version (map_of (sec_Versions sec') u))"
    using mk(2) a(2) by auto
  have m: "unat (md_Version m) < 2 ^ 53" "meta_ok J m"
    using d(2) a(4) assms(2,10) by (auto simp: canon_meta_def meta_ok_def json_env_ok_def)
  have look: "map_of (sec_Versions s4) ?n = Some (canon_version (v\<lparr>sv_Metadata := (sv_Metadata v)\<lparr>md_DeletedTime := Some (je_time J now)\<rparr>\<rparr>))"
    by (simp add: s4(3) sec' update_conv')
  have st: "node_started (sm_node s2)" "\<not> sm_sealed s2" "sm_initialized s2" "stored_secret J (node_fsm (sm_node s2)) ?p = Inr s4"
      "map_of (sec_Versions s4) ?n \<noteq> None" "seal_kv s2 (versionKey ?p ?n) = Some (json_text (Jobj (version_entry c w m)))"
    using e(2) kv s4(1) a(8,9) look d(1) data_metadata_keys [OF assms(7), of ?p ?n] by simp_all
  obtain s3 where "run_state (ss_Get R K J path 0) s2 = (Inr \<lparr>sv_Data = data, sv_Metadata = canon_meta m, sv_WrappedDEK = w\<rparr>, s3)"
    by (rule get_entry [OF assms(5) st(1-3) assms(2,3) st(4) _ st(5,6) m, of 0 K dek]) (use s4(2) e(2) a(6,7) in auto)
  then show "\<exists>m w s3. run_state (ss_Get R K J path 0) s2 = (Inr \<lparr>sv_Data = data, sv_Metadata = m, sv_WrappedDEK = w\<rparr>, s3)" by blast
  show "\<exists>sec version now. stored_secret J (node_fsm (sm_node s2)) ?p = Inr sec
       \<and> map_of (sec_Versions sec) ?n = Some version \<and> md_DeletedTime (sv_Metadata version) = Some (je_time J now)"
    using st(4) look by (fastforce simp: canon_version_def canon_meta_def)
qed

end

subsection \<open>Lemmas: paths that leave the name space of the secrets\<close>

lemma Split_snoc: "Split sep (s @ [sep]) = Split sep s @ [[]]"
  by (induction s) (auto split: list.split)

lemma plain_last: "plain_path q \<Longrightarrow> q \<noteq> [] \<and> last q \<noteq> CHR ''/''"
  by (cases q rule: rev_cases) (auto simp: plain_path_def Split_snoc)

lemma Split_up: "Split (CHR ''/'') (''../../'' @ q) = ''..'' # ''..'' # Split (CHR ''/'') q"
  using Split_append_sep [of "CHR ''/''" "''..''" "''../'' @ q"] Split_append_sep [of "CHR ''/''" "''..''" q] by simp

lemma normalize_up:
  assumes "plain_path q"
  shows "normalizePath (''../../'' @ q) = ''../../'' @ q"
proof -
  have q: "q \<noteq> []" "last q \<noteq> CHR ''/''" using plain_last [OF assms] by auto
  have "Trim_slash (''../../'' @ q) = ''../../'' @ q"
    using q by (cases q rule: rev_cases) (simp_all add: Trim_slash_def)
  moreover have "fold (clean_step False) (Split (CHR ''/'') (''../../'' @ q)) [] = rev (Split (CHR ''/'') q) @ [''..'', ''..'']"
    unfolding Split_up using assms by (simp add: clean_step_def fold_clean_plain plain_path_def)
  moreover have "Join (CHR ''/'') (''..'' # ''..'' # Split (CHR ''/'') q) = ''../../'' @ q" by (simp add: Join_Cons_neq)
  moreover have "\<not> HasPrefix (''../../'' @ q) ''/''" by (simp add: HasPrefix_def)
  ultimately show ?thesis by (simp add: normalizePath_def Clean_def Let_def)
qed

lemma metadataKey_up:
  assumes "plain_path q"
  shows "metadataKey (''../../'' @ q) = CHR ''/'' # q"
proof -
  have "fold (clean_step True) (Split (CHR ''/'') (''/secrets/metadata/'' @ ''../../'' @ q)) [] = rev (Split (CHR ''/'') q)"
    unfolding Split_secrets Split_up using assms by (simp add: clean_step_def fold_clean_plain plain_path_def)
  moreover have "HasPrefix (''/secrets/metadata/'' @ ''../../'' @ q) ''/''" by (simp add: HasPrefix_def)
  ultimately show ?thesis by (simp add: metadataKey_def path_Join_def Clean_def Let_def)
qed

lemma valid_up: "validatePath (''../../'' @ q) = None"
  by (simp add: validatePath_def HasPrefix_def)

subsection \<open>A concrete store, for the witnesses\<close>

definition demo_store :: "softwareKeyManager secret_state" where
  "demo_store = \<lparr>sm_node = demo_node\<lparr>node_fsm := NewKVStateMachine 10000 100000\<rparr>, sm_km = demo_km,
     sm_clusterID = ''c'', sm_nodeID = ''n'', sm_initialized = True, sm_sealed = False, ss_dekCache = []\<rparr>"

definition store_env :: raft_env where
  "store_env = (\<lambda>i. (demo_env i)\<lparr>ob_now := 0\<rparr>)"

lemma store_env_stable [simp]: "stable_leader store_env" "quiet store_env" "ob_now (store_env i) = 0"
  by (simp_all add: store_env_def stable_leader_def quiet_def demo_env_def)

definition demo_data :: json where
  "demo_data = Jobj [(''k'', Jstr ''v'')]"

lemma demo_store_simps [simp]:
  "node_started (sm_node demo_store)" "sm_km demo_store = demo_km" "sm_initialized demo_store" "\<not> sm_sealed demo_store"
  "node_fsm (sm_node demo_store) = NewKVStateMachine 10000 100000" "node_clock (sm_node demo_store) = 0"
  "ss_dekCache demo_store = []"
  by (simp_all add: demo_store_def)

lemma demo_json_ok [simp]: "data_ok demo_json demo_data"
  by (simp add: data_ok_def demo_data_def)

text \<open>The first version of a secret is stored when its two entries are accepted.\<close>

lemma ss_Put_fits:
  assumes "stable_leader R" and "quiet R" and "node_started (sm_node s)" and "\<not> sm_sealed s" and "sm_initialized s"
    and p_def: "p = normalizePath path" and "validatePath p = None" and "kv_abs f (metadataKey p) = None" and f_def: "f = node_fsm (sm_node s)"
    and "im_DeriveKey K (''dek-'' @ show_int (ob_now (R (Suc (node_clock (sm_node s)))))) 32 (sm_km s) = Inr dek"
    and "im_WrapKey K dek (sm_km s) = (Inr w, k1)" and "im_Encrypt K (json_text data) k1 = (Inr c, k2)"
    and md_def: "md = new_metadata p 1 (je_time J (ob_now (R (node_clock (sm_node s) + 2)))) default_options"
    and t_def: "t = json_text (Jobj (version_entry c w md))"
    and u_def: "u = json_text (secret_json \<lparr>sec_Path = p, sec_Versions = [(1, \<lparr>sv_Data = data, sv_Metadata = md, sv_WrappedDEK = w\<rparr>)], sec_Metadata = md\<rparr>)"
    and "fits f (versionKey p 1) t" and "isValidKey (metadataKey p)" and "int (length u) \<le> fsm_maxValueSize f"
    and "fsm_currentSize f + int (length (versionKey p 1) + length t + length (metadataKey p) + length u) \<le> fsm_maxStorageSize f"
  obtains s' where "run_state (ss_Put R K J path data None) s = (Inr md, s')"
    and "fsm_maxValueSize (node_fsm (sm_node s')) = fsm_maxValueSize f"
proof -
  let ?n = "(sm_node s)\<lparr>node_clock := node_clock (sm_node s) + 3\<rparr>"
  have "node_started ?n" "fits (node_fsm ?n) (versionKey p 1) t" using assms(3,16) by (simp_all add: f_def)
  then obtain n1 where p: "run_state (kv_Put R (versionKey p 1) t []) ?n = (None, n1)" "node_started n1"
      "fsm_maxValueSize (node_fsm n1) = fsm_maxValueSize f"
      "fsm_maxStorageSize (node_fsm n1) = fsm_maxStorageSize f"
      "fsm_currentSize (node_fsm n1) \<le> fsm_currentSize f + int (length (versionKey p 1) + length t)"
    by (rule kv_Put_fits [OF assms(1,2)]) (simp add: f_def)
  have "fits (node_fsm n1) (metadataKey p) u" using p assms(17-19) by (auto simp: fits_def)
  then obtain n2 where q: "run_state (kv_Put R (metadataKey p) u []) n1 = (None, n2)" "fsm_maxValueSize (node_fsm n2) = fsm_maxValueSize f"
    using kv_Put_fits [OF assms(1,2) p(2)] p(3) by metis
  have st: "stored_secret J (node_fsm (sm_node s)) p = Inl (SRaft ErrKeyNotFound)" using assms(8) by (simp add: stored_secret_def f_def)
  have "run_state (ss_Put R K J path data None) s
      = run_state (store_version R \<lparr>sec_Path = p, sec_Versions = [], sec_Metadata = zero_metadata\<rparr> md data c w [])
          (s\<lparr>sm_km := k2, sm_node := ?n\<rparr>)"
    using assms(1-7,10-12) st
    by (simp add: ss_Put_def run_checkSealed Let_def p_def [symmetric] run_getSecret generateDEK_def
          run_observe_quiet run_on_km_read run_on_km encryptWithDEK_def encryptAESGCM_def md_def default_options_def eval_nat_numeral)
  also have "\<dots> = (Inr md, s\<lparr>sm_km := k2, sm_node := n2\<rparr>)"
    using p(1) q(1) unfolding t_def u_def
    by (simp add: store_version_def seal_runs Let_def md_def del: json_text.simps)
  finally show thesis by (rule that) (simp add: q(2))
qed


definition store_json :: json_env where
  "store_json = demo_json\<lparr>je_float := (\<lambda>s. if valid_number s then Some s else None)\<rparr>"

lemma store_json_ok [simp]: "json_env_ok store_json" "data_ok store_json demo_data"
  by (simp_all add: json_env_ok_def store_json_def demo_json_def data_ok_def demo_data_def)

definition demo_md :: "string \<Rightarrow> SecretMetadata" where
  "demo_md p = new_metadata p 1 (je_time store_json 0) default_options"

lemma store_json_time: "je_time store_json = show_int"
  by (simp add: store_json_def demo_json_def)

text \<open>A bound on the text of a value, for the size limits.\<close>

fun text_bound :: "json \<Rightarrow> nat" where
  "text_bound (Jstr s) = 6 * length s + 2"
| "text_bound (Jnum s) = length s"
| "text_bound (Jarr vs) = sum_list (map (\<lambda>v. Suc (text_bound v)) vs) + 2"
| "text_bound (Jobj fs) = sum_list (map (\<lambda>(k, v). 6 * length k + 4 + text_bound v) fs) + 2"
| "text_bound v = 5"

lemma length_json_string: "length (json_string s) \<le> 6 * length s + 2"
proof -
  have "length (json_char c) \<le> 6" for c by (simp add: json_char_def)
  then have "length (concat (map json_char s)) \<le> 6 * length s"
    by (induction s) (auto intro: order_trans add_mono)
  then show ?thesis by (simp add: json_string_def)
qed

lemma length_b64: "length (b64_encode b) \<le> 2 * length b + 3"
  by (induction b rule: b64_encode.induct) simp_all

lemma length_json_text: "length (json_text v) \<le> text_bound v"
proof (induction v)
  case (Jarr vs)
  then have "length (Join (CHR '','') (map json_text vs)) \<le> sum_list (map (\<lambda>v. Suc (text_bound v)) vs)"
    by (induction vs rule: induct_list012) fastforce+
  then show ?case by simp
next
  case (Jobj fs)
  let ?t = "\<lambda>(k, v). json_string k @ CHR '':'' # json_text v"
  have "length (Join (CHR '','') (map ?t fs)) \<le> sum_list (map (\<lambda>(k, v). 6 * length k + 4 + text_bound v) fs)"
    using Jobj
  proof (induction fs rule: induct_list012)
    case (2 kv)
    then show ?case using length_json_string [of "fst kv"] by (cases kv) fastforce
  next
    case (3 kv kv' fs)
    obtain k v where kv: "kv = (k, v)" by (cases kv)
    have "length (json_text v) \<le> text_bound v" using 3(3) kv by fastforce
    moreover have "length (Join (CHR '','') (map ?t (kv' # fs))) \<le> sum_list (map (\<lambda>(k, v). 6 * length k + 4 + text_bound v) (kv' # fs))"
      using 3 by (intro 3(2)) auto
    ultimately show ?case using length_json_string [of k] kv by simp
  qed simp
  then show ?case by simp
qed (use length_json_string in auto)

lemma demo_put:
  assumes "p = normalizePath path" and "validatePath p = None" and "isValidKey (versionKey p 1)" and "isValidKey (metadataKey p)"
    and "length p < 50" "length (metadataKey p) < 100"
  obtains s' where "run_state (ss_Put store_env (software demo_crypto) store_json path demo_data None) demo_store = (Inr (demo_md p), s')"
    and "fsm_maxValueSize (node_fsm (sm_node s')) = 10000"
proof -
  let ?K = "software demo_crypto"
  obtain dek where dek: "im_DeriveKey ?K (''dek-'' @ show_int (ob_now (store_env (Suc (node_clock (sm_node demo_store)))))) 32 (sm_km demo_store) = Inr dek"
       "length dek = 32"
    by (simp add: software_def sw_DeriveKey_def unsealed_guard_def demo_crypto_def deriveKeyInternal_def key_bytes_def)
  let ?k1 = "demo_km\<lparr>km_draws := Suc (km_draws demo_km)\<rparr>" and ?k2 = "demo_km\<lparr>km_draws := Suc (Suc (km_draws demo_km))\<rparr>"
  obtain w where w: "im_WrapKey ?K dek (sm_km demo_store) = (Inr w, ?k1)" "length w < 100"
    using dek(2) by (simp add: software_def sw_WrapKey_def unsealed_guard_def read_random_def sub_key_def key_bytes_def aes_key_ok_def
        demo_crypto_def nonceSize_def)
  obtain c where c: "im_Encrypt ?K (json_text demo_data) ?k1 = (Inr c, ?k2)" "length c < 100"
    by (simp add: software_def sw_Encrypt_def unsealed_guard_def read_random_def sub_key_def key_bytes_def aes_key_ok_def demo_crypto_def nonceSize_def
       put_uint32_def demo_data_def json_string_def json_char_def)
  have md: "demo_md p = new_metadata p 1 (je_time store_json (ob_now (store_env (node_clock (sm_node demo_store) + 2)))) default_options"
    by (simp add: demo_md_def)
  let ?t = "Jobj (version_entry c w (demo_md p))"
  let ?u = "secret_json \<lparr>sec_Path = p, sec_Versions = [(1, \<lparr>sv_Data = demo_data, sv_Metadata = demo_md p, sv_WrappedDEK = w\<rparr>)], sec_Metadata = demo_md p\<rparr>"
  have fm: "text_bound (metadata_json (demo_md p)) < 2000"
    using assms(5) by (simp add: demo_md_def metadata_json_def meta_fields_def new_metadata_def default_options_def omit_empty_def omit_nil_def
       enc_uint64_def enc_string_map_def sort_map_def store_json_time show_int_def show_nat.simps)
  have t: "length (json_text ?t) < 8000"
    using length_json_text [of ?t] length_b64 [of c] length_b64 [of w] c(2) w(2) fm by (simp add: version_entry_def)
  have u: "length (json_text ?u) < 8000"
    using length_json_text [of ?u] fm assms(5)
    by (simp add: secret_json_def versions_json_def version_json_def sort_map_def demo_data_def show_nat.simps)
  have k: "length (versionKey p 1) < 100" using assms(5) by (simp add: versionKey_def show_nat.simps)
  show thesis
    by (rule ss_Put_fits [OF store_env_stable(1,2) demo_store_simps(1,4,3) assms(1,2) _ refl dek(1) w(1) c(1) md refl refl])
       (use that assms(3-6) t u k in \<open>auto simp: fits_def NewKVStateMachine_def kv_abs_def simp del: json_text.simps\<close>)
qed


lemma demo_md_bound: "length p < 50 \<Longrightarrow> text_bound (metadata_json ((demo_md p)\<lparr>md_DeletedTime := d\<rparr>)) < 2000 + (case d of None \<Rightarrow> 0 | Some t \<Rightarrow> 6 * length t)"
  by (simp add: demo_md_def metadata_json_def meta_fields_def new_metadata_def default_options_def omit_empty_def omit_nil_def
       enc_uint64_def enc_string_map_def sort_map_def store_json_time show_int_def show_nat.simps split: option.split)

lemma demo_app: "''app'' = normalizePath ''app''" "plain_path ''app''" "isValidKey (metadataKey ''app'')"
proof -
  show "plain_path ''app''" "''app'' = normalizePath ''app''"
    by (simp_all add: normalizePath_def Trim_slash_def Clean_def clean_step_def HasPrefix_def Let_def plain_path_def)
  from metadataKey_plain [OF this(1)] show "isValidKey (metadataKey ''app'')" by (simp add: isValidKey_def HasPrefix_def)
qed

lemma demo_put_app:
  obtains s' where "run_state (ss_Put store_env (software demo_crypto) store_json ''app'' demo_data None) demo_store = (Inr (demo_md ''app''), s')"
    and "fsm_maxValueSize (node_fsm (sm_node s')) = 10000"
proof -
  have "validatePath ''app'' = None" "isValidKey (versionKey ''app'' 1)" "isValidKey (metadataKey ''app'')"
      "length ''app'' < 50" "length (metadataKey ''app'') < 100"
    unfolding metadataKey_plain [OF demo_app(2)]
    by (simp_all add: validatePath_def HasPrefix_def isValidKey_def versionKey_def show_nat.simps digit_char_def char_of_def)
  from demo_put [OF demo_app(1) this that] show thesis .
qed

lemma single_version:
  "distinct (map fst m) \<Longrightarrow> map_of m = [n \<mapsto> x] \<Longrightarrow> m = [(n, x)]"
proof -
  assume d: "distinct (map fst m)" and m: "map_of m = [n \<mapsto> x]"
  have "set (map fst m) = {n}" using m by (metis dom_eq_singleton_conv dom_map_of_conv_image_fst list.set_map)
  with d have "length (map fst m) = 1" by (metis card.empty card_insert_disjoint distinct_card empty_iff finite.emptyI One_nat_def)
  then obtain kv where "m = [kv]" by (cases m) (auto simp: length_Suc_conv)
  with m show ?thesis by (cases kv) (auto split: if_splits dest: fun_cong [of _ _ n])
qed

lemma demo_delete_app:
  assumes "run_state (ss_Put store_env (software demo_crypto) store_json ''app'' demo_data None) demo_store = (Inr (demo_md ''app''), s)"
    and "fsm_maxValueSize (node_fsm (sm_node s)) = 10000"
  obtains s' where "run_state (ss_Delete store_env store_json ''app'' []) s = (None, s')"
proof -
  let ?J = store_json and ?R = store_env and ?p = "''app''" and ?md = "demo_md ''app''"
  have v1: "md_Version ?md = 1" by (simp add: demo_md_def)
  have ok: "crypto_ok demo_crypto \<and> sw_inv demo_crypto (sm_km demo_store)" by simp
  have n1: "md_Version ?md \<noteq> 0" using v1 by simp
  obtain sec c w dek where a: "stored_secret ?J (node_fsm (sm_node s)) ?p = Inr sec" "getLatestVersion sec = md_Version ?md"
     "map_of (sec_Versions sec) (md_Version ?md) \<noteq> None" "meta_ok ?J ?md"
     "seal_kv s (versionKey ?p (md_Version ?md)) = Some (json_text (Jobj (version_entry c w ?md)))"
     "im_UnwrapKey (software demo_crypto) w (sm_km s) = Inr dek" "im_Decrypt (software demo_crypto) c (sm_km s) = Inr (json_text demo_data)"
     "\<not> sm_sealed s" "sm_initialized s" "node_started (sm_node s)"
    by (rule sw.after_put [OF ok store_json_ok store_env_stable(1,2) demo_store_simps(1) demo_app(2,1) assms(1) n1])
  have t: "(\<lparr>sec_Path = ?p, sec_Versions = [], sec_Metadata = zero_metadata\<rparr>, 1) = put_target ?J (node_fsm (sm_node demo_store)) ?p"
    by (simp add: put_target_def stored_secret_def kv_abs_def NewKVStateMachine_def Let_def)
  obtain w' where kv: "seal_kv s (metadataKey ?p) = Some (json_text (secret_json \<lparr>sec_Path = ?p,
      sec_Versions = [(1, \<lparr>sv_Data = demo_data, sv_Metadata = ?md, sv_WrappedDEK = w'\<rparr>)], sec_Metadata = ?md\<rparr>))"
    by (rule ss_Put_ok [OF assms(1) store_env_stable(1,2) demo_store_simps(1) demo_app(1) t refl]) auto
  let ?sec = "\<lparr>sec_Path = ?p, sec_Versions = [(1, \<lparr>sv_Data = demo_data, sv_Metadata = ?md, sv_WrappedDEK = w'\<rparr>)], sec_Metadata = ?md\<rparr>"
  have so: "secret_ok ?J ?sec" using a(4) by (auto simp: secret_ok_def version_ok_def)
  have canon: "canon_meta ?md = ?md" by (simp add: demo_md_def new_metadata_def default_options_def canon_meta_def)
  let ?v = "\<lparr>sv_Data = demo_data, sv_Metadata = ?md, sv_WrappedDEK = []\<rparr>"
  obtain "sec_Path sec = ?p" "sec_Metadata sec = ?md" "map_of (sec_Versions sec) = [1 \<mapsto> ?v]"
    by (rule stored_of_text [OF so kv]) (use a(1) canon in \<open>auto simp: canon_version_def fun_eq_iff\<close>)
  then have sec: "sec = \<lparr>sec_Path = ?p, sec_Versions = [(1, ?v)], sec_Metadata = ?md\<rparr>"
    using single_version [of "sec_Versions sec" 1 ?v] stored_secret_ok [OF store_json_ok(1) a(1)] by (simp add: secret_ok_def)
  have v: "map_of (sec_Versions sec) (md_Version ?md) = Some ?v" using sec v1 by simp
  have lt: "unat (md_Version ?md) < 2 ^ 53" using v1 by simp
  obtain now sec' n1 e n2 where d: "sec' = sec\<lparr>sec_Versions := AList.update (md_Version ?md) (?v\<lparr>sv_Metadata := (sv_Metadata ?v)\<lparr>md_DeletedTime := Some (je_time ?J now)\<rparr>\<rparr>) (sec_Versions sec)\<rparr>"
    "now = ob_now (?R (Suc (node_clock (sm_node s))))"
    "node_started n1" "kv_abs (node_fsm n1) (metadataKey ?p) = seal_kv s (metadataKey ?p)"
    "fsm_maxValueSize (node_fsm n1) = fsm_maxValueSize (node_fsm (sm_node s))"
    "run_state (kv_Put ?R (metadataKey ?p) (json_text (secret_json sec')) []) n1 = (e, n2)"
    "run_state (ss_Delete ?R ?J ?p []) s = (map_option (\<lambda>e. SWrapf ''failed to update metadata'' (SRaft e)) e, s\<lparr>sm_node := n2\<rparr>)"
    by (rule run_Delete_latest [OF store_env_stable(1,2) a(10,8,9) store_json_ok(1) demo_app(2,1) a(2) [symmetric] lt a(4,1) v a(5)])
  have b: "text_bound (metadata_json (?md\<lparr>md_DeletedTime := Some (je_time ?J now)\<rparr>)) < 2100"
      "text_bound (metadata_json ?md) < 2000"
    using demo_md_bound [of ?p "Some (je_time ?J now)"] demo_md_bound [of ?p None] d(2)
    by (simp_all add: store_json_time show_int_def show_nat.simps demo_md_def new_metadata_def)
  have "length (json_text (secret_json sec')) < 8000"
    using length_json_text [of "secret_json sec'"] b v1
    by (simp add: d(1) sec secret_json_def versions_json_def version_json_def sort_map_def demo_data_def show_nat.simps)
  then have "fits (node_fsm n1) (metadataKey ?p) (json_text (secret_json sec'))"
    using demo_app(3) d(4,5) kv assms(2) by (simp add: fits_def dom_def)
  then have "e = None" using kv_Put_fits [OF store_env_stable(1,2) d(3)] d(6) by (metis prod.inject)
  with d(7) show thesis by (intro that) simp
qed

subsection \<open>Properties\<close>

text \<open>
  C6: what \<open>Put\<close> stored, \<open>Get\<close> returns: on a stable leader with no other writer, with a plain
  path, the latest version and the version that \<open>Put\<close> reported hold the data that was put and
  the metadata that was reported (its custom map in the order of its keys). The version has to
  be below \<open>2^53\<close>, since it passes through a \<open>float64\<close>.
\<close>

theorem secret_put_get:
  assumes "crypto_ok C" and "sw_inv C (sm_km s)" and "json_env_ok J" and "data_ok J data" and "stable_leader R" and "quiet R"
    and "node_started (sm_node s)" and "plain_path (normalizePath path)"
    and "run_state (ss_Put R (software C) J path data opts) s = (Inr md, s')" and "0 < md_Version md" and "md_Version md < 2 ^ 53"
    and "v = 0 \<or> v = md_Version md"
  shows "\<exists>w s''. run_state (ss_Get R (software C) J path v) s' = (Inr \<lparr>sv_Data = data, sv_Metadata = canon_meta md, sv_WrappedDEK = w\<rparr>, s'')"
proof -
  have n: "unat (md_Version md) < 2 ^ 53" "md_Version md \<noteq> 0" using assms(10,11) by (auto simp: word_less_nat_alt)
  obtain sec c w dek where a: "stored_secret J (node_fsm (sm_node s')) (normalizePath path) = Inr sec" "getLatestVersion sec = md_Version md"
     "map_of (sec_Versions sec) (md_Version md) \<noteq> None" "meta_ok J md"
     "seal_kv s' (versionKey (normalizePath path) (md_Version md)) = Some (json_text (Jobj (version_entry c w md)))"
     "im_UnwrapKey (software C) w (sm_km s') = Inr dek" "im_Decrypt (software C) c (sm_km s') = Inr (json_text data)"
     "\<not> sm_sealed s'" "sm_initialized s'" "node_started (sm_node s')"
    by (rule sw.after_put [OF conjI [OF assms(1,2)] assms(3-8) refl assms(9) n(2)])
  show ?thesis
    by (rule get_entry [OF assms(6) a(10,8,9) assms(3,4) a(1) _ a(3,5) n(1) a(4,6,7), of v]) (use a(2) assms(12) in auto)
qed

theorem secret_put_get_witness:
  "\<exists>s' w s''. run_state (ss_Put store_env (software demo_crypto) store_json ''app'' demo_data None) demo_store = (Inr (demo_md ''app''), s')
     \<and> run_state (ss_Get store_env (software demo_crypto) store_json ''app'' 1) s'
         = (Inr \<lparr>sv_Data = demo_data, sv_Metadata = canon_meta (demo_md ''app''), sv_WrappedDEK = w\<rparr>, s'')"
proof -
  obtain s' where s': "run_state (ss_Put store_env (software demo_crypto) store_json ''app'' demo_data None) demo_store = (Inr (demo_md ''app''), s')"
    by (rule demo_put_app)
  have "\<exists>w s''. run_state (ss_Get store_env (software demo_crypto) store_json ''app'' 1) s'
         = (Inr \<lparr>sv_Data = demo_data, sv_Metadata = canon_meta (demo_md ''app''), sv_WrappedDEK = w\<rparr>, s'')"
    by (rule secret_put_get [OF demo_crypto_ok _ store_json_ok store_env_stable(1,2) demo_store_simps(1) _ s'])
       (simp_all add: normalizePath_def Trim_slash_def Clean_def clean_step_def HasPrefix_def Let_def plain_path_def demo_md_def word_less_nat_alt)
  with s' show ?thesis by blast
qed

text \<open>
  C11: while the store is sealed or not initialised, each of its five operations is refused
  with the error of the seal and neither reads nor writes anything.
\<close>

theorem sealed_store_refuses:
  assumes "sm_sealed s \<or> \<not> sm_initialized s"
  shows "\<exists>e. e \<in> {SKm ErrSealedKey, SKm ErrNotInitialized}
     \<and> run_state (ss_Put R K J path data opts) s = (Inl e, s) \<and> run_state (ss_Get R K J path v) s = (Inl e, s)
     \<and> run_state (ss_Delete R J path vs) s = (Some e, s) \<and> run_state (ss_List R J path) s = (Inl e, s)
     \<and> run_state (GetVersions R J path) s = (Inl e, s)"
  using assms
  by (auto simp: ss_Put_def ss_Get_def ss_Delete_def ss_List_def GetVersions_def run_checkSealed)

theorem sealed_store_refuses_witness:
  "fst (run_state (ss_Get store_env (software demo_crypto) store_json ''app'' 0) (demo_store\<lparr>sm_sealed := True\<rparr>)) = Inl (SKm ErrSealedKey)"
proof -
  have "sm_sealed (demo_store\<lparr>sm_sealed := True\<rparr>) \<or> \<not> sm_initialized (demo_store\<lparr>sm_sealed := True\<rparr>)" by simp
  from sealed_store_refuses [OF this, of store_env "software demo_crypto" store_json "''app''" demo_data None 0 "[]"]
  show ?thesis by (auto simp: ss_Get_def run_checkSealed)
qed

text \<open>
  The data of a secret is in the key-value store in the clear. The entry that lists the
  versions of a secret, which \<open>Put\<close> writes next to the encrypted one, holds the data of the
  new version: decoding it takes no key.
\<close>

theorem metadata_entry_holds_plaintext:
  assumes "json_env_ok J" and "data_ok J data" and "stable_leader R" and "quiet R" and "node_started (sm_node s)"
    and "run_state (ss_Put R K J path data opts) s = (Inr md, s')" and "0 < md_Version md"
  shows "\<exists>t sec version. seal_kv s' (metadataKey (normalizePath path)) = Some t \<and> unmarshal_secret J t = Some sec
     \<and> map_of (sec_Versions sec) (md_Version md) = Some version \<and> sv_Data version = data"
proof -
  let ?p = "normalizePath path"
  obtain sec n where t: "(sec, n) = put_target J (node_fsm (sm_node s)) ?p" by (metis prod.collapse)
  obtain w now opt where put: "md = new_metadata ?p n (je_time J now) opt"
      "seal_kv s' (metadataKey ?p) = Some (json_text (secret_json (sec\<lparr>sec_Versions :=
                AList.update n \<lparr>sv_Data = data, sv_Metadata = md, sv_WrappedDEK = w\<rparr> (sec_Versions sec), sec_Metadata := md\<rparr>)))"
    by (rule ss_Put_ok [OF assms(6,3-5) refl t refl]) auto
  have "meta_ok J md" "n \<noteq> 0" using meta_ok_new [OF assms(1)] put(1) assms(7) by auto
  from stored_after_put [OF assms(1,2) this t put(2)] obtain s1
    where s1: "stored_secret J (node_fsm (sm_node s')) ?p = Inr s1" "map_of (sec_Versions s1) n = Some \<lparr>sv_Data = data, sv_Metadata = canon_meta md, sv_WrappedDEK = []\<rparr>"
    by (metis (no_types, lifting))
  have "md_Version md = n" using put(1) by simp
  with s1 put(2) show ?thesis by (fastforce simp: stored_secret_def split: option.splits)
qed

theorem metadata_entry_holds_plaintext_witness:
  "\<exists>md s' t sec version. run_state (ss_Put store_env (software demo_crypto) store_json ''app'' demo_data None) demo_store = (Inr md, s')
     \<and> seal_kv s' (metadataKey (normalizePath ''app'')) = Some t
     \<and> unmarshal_secret store_json t = Some sec \<and> map_of (sec_Versions sec) 1 = Some version \<and> sv_Data version = demo_data"
proof -
  obtain s' where s': "run_state (ss_Put store_env (software demo_crypto) store_json ''app'' demo_data None) demo_store = (Inr (demo_md ''app''), s')"
    by (rule demo_put_app)
  from metadata_entry_holds_plaintext [OF store_json_ok store_env_stable(1,2) demo_store_simps(1) s'] s'
  show ?thesis by (auto simp: demo_md_def)
qed

text \<open>
  A path with two leading \<open>..\<close> segments passes the check for the reserved prefix and leaves
  the name space of the secrets: \<open>Put\<close> overwrites the entry of any key of the store, those of
  the seal manager under \<open>/_system\<close> included.
\<close>

theorem put_overwrites_any_key:
  assumes "plain_path q" and "path = ''../../'' @ q" and "stable_leader R" and "quiet R" and "node_started (sm_node s)"
    and "run_state (ss_Put R K J path data opts) s = (Inr md, s')"
  shows "validatePath (normalizePath path) = None
     \<and> (\<exists>secret. md_Path (sec_Metadata secret) = path \<and> seal_kv s' (CHR ''/'' # q) = Some (json_text (secret_json secret)))"
proof -
  let ?p = "normalizePath path"
  have p: "?p = path" "metadataKey path = CHR ''/'' # q" "validatePath path = None"
    using normalize_up [OF assms(1)] metadataKey_up [OF assms(1)] valid_up by (simp_all add: assms(2))
  obtain sec n where t: "(sec, n) = put_target J (node_fsm (sm_node s)) ?p" by (metis prod.collapse)
  obtain w now opt where put: "md = new_metadata ?p n (je_time J now) opt"
      "seal_kv s' (metadataKey ?p) = Some (json_text (secret_json (sec\<lparr>sec_Versions :=
                AList.update n \<lparr>sv_Data = data, sv_Metadata = md, sv_WrappedDEK = w\<rparr> (sec_Versions sec), sec_Metadata := md\<rparr>)))"
    by (rule ss_Put_ok [OF assms(6,3-5) refl t refl]) auto
  show ?thesis using p put by (intro conjI exI) auto
qed

theorem put_overwrites_any_key_witness:
  "\<exists>md s' secret. run_state (ss_Put store_env (software demo_crypto) store_json ''../../_system/seal/initialized'' demo_data None) demo_store = (Inr md, s')
     \<and> seal_kv s' sealInitializedKey = Some (json_text (secret_json secret))"
proof -
  let ?q = "''_system/seal/initialized''" and ?p = "''../../_system/seal/initialized''"
  have q: "plain_path ?q" "?p = ''../../'' @ ?q" by (simp_all add: plain_path_def)
  have p: "?p = normalizePath ?p" "metadataKey ?p = sealInitializedKey" "validatePath ?p = None"
    using normalize_up [OF q(1)] metadataKey_up [OF q(1)] valid_up [of ?q] by (simp_all add: sealInitializedKey_def)
  have "isValidKey (versionKey ?p 1)"
    by (simp add: HasPrefix_def isValidKey_def versionKey_def show_nat.simps digit_char_def char_of_def upt_rec)
  then obtain s' where s': "run_state (ss_Put store_env (software demo_crypto) store_json ?p demo_data None) demo_store = (Inr (demo_md ?p), s')"
    using demo_put [OF p(1,3)] p(2) seal_keys_valid(3) by (auto simp: sealInitializedKey_def)
  from put_overwrites_any_key [OF q store_env_stable(1,2) demo_store_simps(1) s'] obtain secret :: Secret
    where "seal_kv s' (CHR ''/'' # ?q) = Some (json_text (secret_json secret))" by auto
  with s' show ?thesis unfolding sealInitializedKey_def by blast
qed


text \<open>
  Deleting a secret does not stop it from being read. After a \<open>Delete\<close> that reported
  success the version is marked with the time of its deletion, and \<open>Get\<close> without a version
  still returns its data.
\<close>

theorem deleted_secret_still_readable:
  assumes "crypto_ok C" and "sw_inv C (sm_km s)" and "json_env_ok J" and "data_ok J data" and "stable_leader R" and "quiet R"
    and "node_started (sm_node s)" and "plain_path (normalizePath path)"
    and "run_state (ss_Put R (software C) J path data opts) s = (Inr md, s1)" and "0 < md_Version md" and "md_Version md < 2 ^ 53"
    and "run_state (ss_Delete R J path []) s1 = (None, s2)"
  shows "(\<exists>m w s3. run_state (ss_Get R (software C) J path 0) s2 = (Inr \<lparr>sv_Data = data, sv_Metadata = m, sv_WrappedDEK = w\<rparr>, s3))
     \<and> (\<exists>t sec version. seal_kv s2 (metadataKey (normalizePath path)) = Some t \<and> unmarshal_secret J t = Some sec
          \<and> map_of (sec_Versions sec) (md_Version md) = Some version \<and> md_DeletedTime (sv_Metadata version) \<noteq> None)"
proof -
  have n: "md_Version md \<noteq> 0" "unat (md_Version md) < 2 ^ 53" using assms(10,11) by (auto simp: word_less_nat_alt)
  note d = sw.put_delete_get [OF conjI [OF assms(1,2)] assms(3-9) n assms(12)]
  from d(2) have "\<exists>t sec version. seal_kv s2 (metadataKey (normalizePath path)) = Some t \<and> unmarshal_secret J t = Some sec
          \<and> map_of (sec_Versions sec) (md_Version md) = Some version \<and> md_DeletedTime (sv_Metadata version) \<noteq> None"
    by (fastforce simp: stored_secret_def split: option.splits)
  with d(1) show ?thesis by blast
qed

theorem deleted_secret_still_readable_witness:
  "\<exists>s1 s2 m w s3. run_state (ss_Put store_env (software demo_crypto) store_json ''app'' demo_data None) demo_store = (Inr (demo_md ''app''), s1)
     \<and> run_state (ss_Delete store_env store_json ''app'' []) s1 = (None, s2)
     \<and> run_state (ss_Get store_env (software demo_crypto) store_json ''app'' 0) s2 = (Inr \<lparr>sv_Data = demo_data, sv_Metadata = m, sv_WrappedDEK = w\<rparr>, s3)"
proof -
  obtain s1 where s1: "run_state (ss_Put store_env (software demo_crypto) store_json ''app'' demo_data None) demo_store = (Inr (demo_md ''app''), s1)"
      "fsm_maxValueSize (node_fsm (sm_node s1)) = 10000"
    by (rule demo_put_app)
  obtain s2 where s2: "run_state (ss_Delete store_env store_json ''app'' []) s1 = (None, s2)" by (rule demo_delete_app [OF s1])
  have "plain_path (normalizePath ''app'')" using demo_app by simp
  from deleted_secret_still_readable [OF demo_crypto_ok _ store_json_ok store_env_stable(1,2) demo_store_simps(1) this s1(1) _ _ s2] s1(1) s2
  show ?thesis by (auto simp: demo_md_def word_less_nat_alt)
qed

end
