(* ===== verification/Secret_Audit.thy ===== *)
theory Secret_Audit
  imports Secret_Store
begin

text \<open>
  Auditing and access control of secrets, \<open>internal/raft/secrets_audit.go\<close>: the audit log and
  the access control lists in the key-value store, and the secret store behind both.
\<close>

declare map_of_eq_Some_iff [simp del]

subsection \<open>Audit events\<close>

datatype AuditEventType =
    AuditEventSecretRead | AuditEventSecretWrite | AuditEventSecretDelete | AuditEventSecretList
  | AuditEventSealInit | AuditEventSealUnseal | AuditEventSealSeal | AuditEventAccessDenied

fun event_name :: "AuditEventType \<Rightarrow> string" where
  "event_name AuditEventSecretRead = ''secret_read''"
| "event_name AuditEventSecretWrite = ''secret_write''"
| "event_name AuditEventSecretDelete = ''secret_delete''"
| "event_name AuditEventSecretList = ''secret_list''"
| "event_name AuditEventSealInit = ''seal_init''"
| "event_name AuditEventSealUnseal = ''seal_unseal''"
| "event_name AuditEventSealSeal = ''seal_seal''"
| "event_name AuditEventAccessDenied = ''access_denied''"

record AuditEvent =
  ev_EventID :: string
  ev_EventType :: AuditEventType
  ev_Timestamp :: string
  ev_UserID :: string
  ev_ClusterID :: string
  ev_NodeID :: string
  ev_SecretPath :: string
  ev_Version :: "64 word"
  ev_Success :: bool
  ev_Error :: string
  ev_IPAddress :: string
  ev_RequestID :: string
  ev_Metadata :: "(string, json) gomap"

definition audit_event :: "AuditEventType \<Rightarrow> string \<Rightarrow> string \<Rightarrow> 64 word \<Rightarrow> bool \<Rightarrow> string \<Rightarrow> (string, json) gomap \<Rightarrow> AuditEvent" where
  "audit_event t userID secretPath version success err meta =
     \<lparr>ev_EventID = [], ev_EventType = t, ev_Timestamp = zero_time, ev_UserID = userID, ev_ClusterID = [], ev_NodeID = [],
      ev_SecretPath = secretPath, ev_Version = version, ev_Success = success, ev_Error = err, ev_IPAddress = [],
      ev_RequestID = [], ev_Metadata = meta\<rparr>"

definition event_json :: "AuditEvent \<Rightarrow> json" where
  "event_json e = Jobj
     ([(''event_id'', Jstr (ev_EventID e)), (''event_type'', Jstr (event_name (ev_EventType e))), (''timestamp'', Jstr (ev_Timestamp e))]
      @ omit_empty ''user_id'' (ev_UserID e) @ [(''cluster_id'', Jstr (ev_ClusterID e)), (''node_id'', Jstr (ev_NodeID e))]
      @ omit_empty ''secret_path'' (ev_SecretPath e)
      @ (if ev_Version e = 0 then [] else [(''version'', enc_uint64 (ev_Version e))])
      @ [(''success'', Jbool (ev_Success e))]
      @ omit_empty ''error'' (ev_Error e) @ omit_empty ''ip_address'' (ev_IPAddress e) @ omit_empty ''request_id'' (ev_RequestID e)
      @ (if ev_Metadata e = [] then [] else [(''metadata'', Jobj (sort_map (ev_Metadata e)))]))"

subsection \<open>Access control lists\<close>

record SecretACL =
  acl_Path :: string
  acl_Permissions :: "(string, string list) gomap"
  acl_AllowRead :: "string list"
  acl_AllowWrite :: "string list"
  acl_AllowDelete :: "string list"
  acl_DenyRead :: "string list"
  acl_DenyWrite :: "string list"
  acl_DenyDelete :: "string list"
  acl_CreatedAt :: string
  acl_UpdatedAt :: string

text \<open>An empty slice or map is taken as nil, which prints as \<open>null\<close>; decoding makes no difference.\<close>

definition enc_string_list :: "string list \<Rightarrow> json" where
  "enc_string_list ss = (if ss = [] then Jnull else Jarr (map Jstr ss))"

definition permissions_json :: "(string, string list) gomap \<Rightarrow> json" where
  "permissions_json m = (if m = [] then Jnull else Jobj (map (\<lambda>(k, ss). (k, enc_string_list ss)) (sort_map m)))"

definition acl_fields :: "SecretACL \<Rightarrow> (string, json) gomap" where
  "acl_fields a =
     [(''path'', Jstr (acl_Path a)), (''permissions'', permissions_json (acl_Permissions a)),
      (''allow_read'', enc_string_list (acl_AllowRead a)), (''allow_write'', enc_string_list (acl_AllowWrite a)),
      (''allow_delete'', enc_string_list (acl_AllowDelete a)), (''deny_read'', enc_string_list (acl_DenyRead a)),
      (''deny_write'', enc_string_list (acl_DenyWrite a)), (''deny_delete'', enc_string_list (acl_DenyDelete a)),
      (''created_at'', Jstr (acl_CreatedAt a)), (''updated_at'', Jstr (acl_UpdatedAt a))]"

definition acl_json :: "SecretACL \<Rightarrow> json" where
  "acl_json a = Jobj (acl_fields a)"

fun dec_list_members :: "(string \<times> json) list \<Rightarrow> (string, string list) gomap option" where
  "dec_list_members [] = Some []"
| "dec_list_members ((k, v) # fs) =
     (case (dec_string_list v, dec_list_members fs) of (Some ss, Some m) \<Rightarrow> Some ((k, ss) # m) | _ \<Rightarrow> None)"

fun dec_permissions :: "json \<Rightarrow> (string, string list) gomap option" where
  "dec_permissions (Jobj fs) = map_option sort_map (dec_list_members fs)"
| "dec_permissions Jnull = Some []"
| "dec_permissions _ = None"

fun dec_acl :: "json_env \<Rightarrow> json \<Rightarrow> SecretACL option" where
  "dec_acl J (Jobj fs) = do {
     path \<leftarrow> dec_string (field fs ''path'');
     perms \<leftarrow> dec_permissions (field fs ''permissions'');
     ar \<leftarrow> dec_string_list (field fs ''allow_read'');
     aw \<leftarrow> dec_string_list (field fs ''allow_write'');
     ad \<leftarrow> dec_string_list (field fs ''allow_delete'');
     dr \<leftarrow> dec_string_list (field fs ''deny_read'');
     dw \<leftarrow> dec_string_list (field fs ''deny_write'');
     dd \<leftarrow> dec_string_list (field fs ''deny_delete'');
     created \<leftarrow> dec_time J (field fs ''created_at'');
     updated \<leftarrow> dec_time J (field fs ''updated_at'');
     Some \<lparr>acl_Path = path, acl_Permissions = perms, acl_AllowRead = ar, acl_AllowWrite = aw, acl_AllowDelete = ad,
           acl_DenyRead = dr, acl_DenyWrite = dw, acl_DenyDelete = dd, acl_CreatedAt = created, acl_UpdatedAt = updated\<rparr>
   }"
| "dec_acl J Jnull = Some \<lparr>acl_Path = [], acl_Permissions = [], acl_AllowRead = [], acl_AllowWrite = [], acl_AllowDelete = [],
           acl_DenyRead = [], acl_DenyWrite = [], acl_DenyDelete = [], acl_CreatedAt = zero_time, acl_UpdatedAt = zero_time\<rparr>"
| "dec_acl J _ = None"

definition unmarshal_acl :: "json_env \<Rightarrow> bytes \<Rightarrow> SecretACL option" where
  "unmarshal_acl J s = Option.bind (json_parse s) (dec_acl J)"

definition PermissionRead :: string where
  "PermissionRead = ''read''"

definition PermissionWrite :: string where
  "PermissionWrite = ''write''"

definition PermissionDelete :: string where
  "PermissionDelete = ''delete''"

definition PermissionList :: string where
  "PermissionList = ''list''"

definition aclKey :: "string \<Rightarrow> string" where
  "aclKey secretPath = ''/_system/acl/secrets/'' @ secretPath"

definition isDenied :: "SecretACL \<Rightarrow> string \<Rightarrow> string \<Rightarrow> bool" where
  "isDenied acl userID permission =
     (let denyList = (if permission = PermissionRead then acl_DenyRead acl
                      else if permission = PermissionWrite then acl_DenyWrite acl
                      else if permission = PermissionDelete then acl_DenyDelete acl else [])
      in list_ex (\<lambda>i. i = userID \<or> i = ''*'') denyList)"

definition isAllowed :: "SecretACL \<Rightarrow> string \<Rightarrow> string \<Rightarrow> bool" where
  "isAllowed acl userID permission =
     (let allowList = (if permission = PermissionRead then acl_AllowRead acl
                       else if permission = PermissionWrite then acl_AllowWrite acl
                       else if permission = PermissionDelete then acl_AllowDelete acl else [])
      in list_ex (\<lambda>i. i = userID \<or> i = ''*'') allowList)"

definition checkDefaultPolicy :: "string \<Rightarrow> string \<Rightarrow> string \<Rightarrow> bool" where
  "checkDefaultPolicy userID secretPath permission = (userID \<noteq> [])"

subsection \<open>State\<close>

text \<open>The logger and the list manager work on the node of the store; \<open>al_node\<close> is \<open>al.node != nil\<close>.\<close>

record 'k audit_state = "'k secret_state" +
  al_node :: bool
  al_clusterID :: string
  al_nodeID :: string
  al_enabled :: bool

type_synonym ('k, 'z, 'a) audit_action = "(('k, 'z) audit_state_scheme, 'a) state"

definition NewSecretStoreWithAudit :: "'k secret_state \<Rightarrow> string \<Rightarrow> string \<Rightarrow> 'k audit_state" where
  "NewSecretStoreWithAudit store clusterID nodeID =
     secret_state.extend store \<lparr>al_node = True, al_clusterID = clusterID, al_nodeID = nodeID, al_enabled = True\<rparr>"

definition al_Enable :: "('k, 'z, unit) audit_action" where
  "al_Enable = do { s \<leftarrow> State_Monad.get; State_Monad.set (s\<lparr>al_enabled := True\<rparr>) }"

definition al_Disable :: "('k, 'z, unit) audit_action" where
  "al_Disable = do { s \<leftarrow> State_Monad.get; State_Monad.set (s\<lparr>al_enabled := False\<rparr>) }"

subsection \<open>The audit log\<close>

text \<open>The text of an error is a parameter: \<open>T e\<close> is \<open>e.Error()\<close>.\<close>

type_synonym err_text = "seal_err \<Rightarrow> string"

definition audit_key :: "AuditEvent \<Rightarrow> string" where
  "audit_key e = ''/_system/audit/'' @ event_name (ev_EventType e) @ ''/'' @ ev_EventID e"

definition LogEvent :: "raft_env \<Rightarrow> json_env \<Rightarrow> AuditEvent \<Rightarrow> ('k, 'z, seal_err option) audit_action" where
  "LogEvent R J event0 = do {
     s \<leftarrow> State_Monad.get;
     if \<not> al_enabled s then sret None
     else do {
       ob \<leftarrow> on_kv (observe R);
       (let event = event0\<lparr>ev_ClusterID := al_clusterID s, ev_NodeID := al_nodeID s, ev_Timestamp := je_time J (ob_now ob)\<rparr> in do {
          event' \<leftarrow> (if ev_EventID event = [] then do {
                        ob' \<leftarrow> on_kv (observe R);
                        sret (event\<lparr>ev_EventID := event_name (ev_EventType event) @ ''-'' @ show_int (ob_now ob')\<rparr>)
                      }
                      else sret event);
          if al_node s then do {
            e \<leftarrow> on_kv (kv_Put R (audit_key event') (json_text (event_json event')) []);
            sret (map_option SRaft e)
          }
          else sret None
        })
     }
   }"

definition err_string :: "err_text \<Rightarrow> seal_err option \<Rightarrow> string" where
  "err_string T err = (case err of None \<Rightarrow> [] | Some e \<Rightarrow> T e)"

definition LogSecretRead ::
  "raft_env \<Rightarrow> json_env \<Rightarrow> err_text \<Rightarrow> string \<Rightarrow> string \<Rightarrow> 64 word \<Rightarrow> bool \<Rightarrow> seal_err option \<Rightarrow> ('k, 'z, seal_err option) audit_action" where
  "LogSecretRead R J T userID secretPath version success err =
     LogEvent R J (audit_event AuditEventSecretRead userID secretPath version success (err_string T err) [])"

definition LogSecretWrite ::
  "raft_env \<Rightarrow> json_env \<Rightarrow> err_text \<Rightarrow> string \<Rightarrow> string \<Rightarrow> 64 word \<Rightarrow> bool \<Rightarrow> seal_err option \<Rightarrow> ('k, 'z, seal_err option) audit_action" where
  "LogSecretWrite R J T userID secretPath version success err =
     LogEvent R J (audit_event AuditEventSecretWrite userID secretPath version success (err_string T err) [])"

definition LogSecretDelete ::
  "raft_env \<Rightarrow> json_env \<Rightarrow> err_text \<Rightarrow> string \<Rightarrow> string \<Rightarrow> 64 word list \<Rightarrow> bool \<Rightarrow> seal_err option \<Rightarrow> ('k, 'z, seal_err option) audit_action" where
  "LogSecretDelete R J T userID secretPath versions success err =
     LogEvent R J (audit_event AuditEventSecretDelete userID secretPath 0 success (err_string T err)
        [(''versions'', if versions = [] then Jnull else Jarr (map enc_uint64 versions))])"

definition LogAccessDenied ::
  "raft_env \<Rightarrow> json_env \<Rightarrow> string \<Rightarrow> string \<Rightarrow> string \<Rightarrow> ('k, 'z, seal_err option) audit_action" where
  "LogAccessDenied R J userID secretPath permission =
     LogEvent R J (audit_event AuditEventAccessDenied userID secretPath 0 False
        (''access denied: missing '' @ permission @ '' permission'') [(''permission'', Jstr permission)])"

subsection \<open>The list manager\<close>

definition GetACL :: "raft_env \<Rightarrow> json_env \<Rightarrow> string \<Rightarrow> ('k, 'z, (seal_err, SecretACL) result) audit_action" where
  "GetACL R J secretPath = do {
     g \<leftarrow> on_kv (kv_Get R (aclKey secretPath) ReadModeLinearizable);
     sret (case g of
             Inl e \<Rightarrow> Inl (SRaft e)
           | Inr entry \<Rightarrow>
               (case unmarshal_acl J (entry_Value entry) of
                  None \<Rightarrow> Inl (SWrapf ''failed to unmarshal ACL'' (SErrorf ''json''))
                | Some acl \<Rightarrow> Inr acl))
   }"

definition SetACL :: "raft_env \<Rightarrow> json_env \<Rightarrow> string \<Rightarrow> SecretACL \<Rightarrow> ('k, 'z, raft_err option) audit_action" where
  "SetACL R J secretPath acl0 = do {
     ob \<leftarrow> on_kv (observe R);
     (let acl = acl0\<lparr>acl_Path := secretPath, acl_UpdatedAt := je_time J (ob_now ob)\<rparr>;
          acl' = (if acl_CreatedAt acl = zero_time then acl\<lparr>acl_CreatedAt := acl_UpdatedAt acl\<rparr> else acl)
      in on_kv (kv_Put R (aclKey secretPath) (json_text (acl_json acl')) []))
   }"

definition DeleteACL :: "raft_env \<Rightarrow> string \<Rightarrow> ('k, 'z, raft_err option) audit_action" where
  "DeleteACL R secretPath = on_kv (kv_Delete R (aclKey secretPath))"

definition CheckPermission ::
  "raft_env \<Rightarrow> json_env \<Rightarrow> string \<Rightarrow> string \<Rightarrow> string \<Rightarrow> ('k, 'z, (seal_err, bool) result) audit_action" where
  "CheckPermission R J userID secretPath permission = do {
     g \<leftarrow> GetACL R J secretPath;
     sret (case g of
             Inl e \<Rightarrow> if e = SRaft ErrKeyNotFound then Inr (checkDefaultPolicy userID secretPath permission) else Inl e
           | Inr acl \<Rightarrow>
               if isDenied acl userID permission then Inr False
               else if isAllowed acl userID permission then Inr True
               else Inr (checkDefaultPolicy userID secretPath permission))
   }"

subsection \<open>The store with auditing and access control\<close>

definition err_of :: "(seal_err, 'a) result \<Rightarrow> seal_err option" where
  "err_of r = (case r of Inl e \<Rightarrow> Some e | Inr _ \<Rightarrow> None)"

definition sa_Put ::
  "raft_env \<Rightarrow> 'k KeyManager \<Rightarrow> json_env \<Rightarrow> err_text \<Rightarrow> string \<Rightarrow> json \<Rightarrow> SecretOptions option
     \<Rightarrow> ('k, 'z, (seal_err, SecretMetadata) result) audit_action" where
  "sa_Put R K J T secretPath data opts =
     (let userID = (case opts of None \<Rightarrow> [] | Some opt \<Rightarrow> so_CreatedBy opt) in do {
        a \<leftarrow> CheckPermission R J userID secretPath PermissionWrite;
        case a of
          Inl e \<Rightarrow> do { _ \<leftarrow> LogSecretWrite R J T userID secretPath 0 False (Some e); sret (Inl e) }
        | Inr allowed \<Rightarrow>
            if \<not> allowed then do {
              _ \<leftarrow> LogAccessDenied R J userID secretPath PermissionWrite;
              sret (Inl (SErrorf ''access denied: write permission required''))
            }
            else do {
              r \<leftarrow> ss_Put R K J secretPath data opts;
              _ \<leftarrow> LogSecretWrite R J T userID secretPath (case r of Inl _ \<Rightarrow> 0 | Inr md \<Rightarrow> md_Version md) (\<not> isl r) (err_of r);
              sret r
            }
      })"

text \<open>\<open>userID\<close> is what \<open>getUserFromContext\<close> finds in the context, the empty string without a user.\<close>

definition getUserFromContext :: "string option \<Rightarrow> string" where
  "getUserFromContext user_id = (case user_id of None \<Rightarrow> [] | Some u \<Rightarrow> u)"

definition sa_Get ::
  "raft_env \<Rightarrow> 'k KeyManager \<Rightarrow> json_env \<Rightarrow> err_text \<Rightarrow> string option \<Rightarrow> string \<Rightarrow> 64 word
     \<Rightarrow> ('k, 'z, (seal_err, SecretVersion) result) audit_action" where
  "sa_Get R K J T ctx secretPath version =
     (let userID = getUserFromContext ctx in do {
        a \<leftarrow> CheckPermission R J userID secretPath PermissionRead;
        case a of
          Inl e \<Rightarrow> do { _ \<leftarrow> LogSecretRead R J T userID secretPath 0 False (Some e); sret (Inl e) }
        | Inr allowed \<Rightarrow>
            if \<not> allowed then do {
              _ \<leftarrow> LogAccessDenied R J userID secretPath PermissionRead;
              sret (Inl (SErrorf ''access denied: read permission required''))
            }
            else do {
              r \<leftarrow> ss_Get R K J secretPath version;
              _ \<leftarrow> LogSecretRead R J T userID secretPath (case r of Inl _ \<Rightarrow> 0 | Inr v \<Rightarrow> md_Version (sv_Metadata v)) (\<not> isl r) (err_of r);
              sret r
            }
      })"

text \<open>With nil options, \<open>opts.Versions\<close> panics where the event is logged.\<close>

definition sa_Delete ::
  "raft_env \<Rightarrow> json_env \<Rightarrow> err_text \<Rightarrow> string option \<Rightarrow> string \<Rightarrow> 64 word list option
     \<Rightarrow> ('k, 'z, seal_err option outcome) audit_action" where
  "sa_Delete R J T ctx secretPath opts =
     (let userID = getUserFromContext ctx in do {
        a \<leftarrow> CheckPermission R J userID secretPath PermissionDelete;
        case a of
          Inl e \<Rightarrow>
            (case opts of
               None \<Rightarrow> sret Panics
             | Some versions \<Rightarrow> do { _ \<leftarrow> LogSecretDelete R J T userID secretPath versions False (Some e); sret (Returns (Some e)) })
        | Inr allowed \<Rightarrow>
            if \<not> allowed then do {
              _ \<leftarrow> LogAccessDenied R J userID secretPath PermissionDelete;
              sret (Returns (Some (SErrorf ''access denied: delete permission required'')))
            }
            else do {
              r \<leftarrow> ss_Delete R J secretPath (case opts of None \<Rightarrow> [] | Some versions \<Rightarrow> versions);
              case opts of
                None \<Rightarrow> sret Panics
              | Some versions \<Rightarrow> do {
                  _ \<leftarrow> LogSecretDelete R J T userID secretPath versions (r = None) r;
                  sret (Returns r)
                }
            }
      })"

subsection \<open>Lemmas: the text of a list\<close>

definition acl_ok :: "json_env \<Rightarrow> SecretACL \<Rightarrow> bool" where
  "acl_ok J a \<longleftrightarrow> je_time_ok J (acl_CreatedAt a) \<and> je_time_ok J (acl_UpdatedAt a)"

definition canon_acl :: "SecretACL \<Rightarrow> SecretACL" where
  "canon_acl a = a\<lparr>acl_Permissions := sort_map (acl_Permissions a)\<rparr>"

lemma enc_dec_string_list [simp]: "dec_string_list (enc_string_list ss) = Some ss"
proof -
  have "dec_strings (map Jstr ss) = Some ss" for ss by (induction ss) auto
  then show ?thesis by (simp add: enc_string_list_def)
qed

lemma enc_dec_permissions [simp]: "dec_permissions (permissions_json m) = Some (sort_map m)"
proof -
  have "dec_list_members (map (\<lambda>(k, ss). (k, enc_string_list ss)) fs) = Some fs" for fs
    by (induction fs) auto
  then show ?thesis by (simp add: permissions_json_def sort_map_sorted)
qed

lemma json_ok_acl: "json_ok (acl_json a)"
proof -
  have "json_ok (enc_string_list ss)" for ss by (auto simp: enc_string_list_def list_all_iff)
  then show ?thesis by (auto simp: acl_json_def acl_fields_def permissions_json_def list_all_iff)
qed

lemma lower_acl_fields: "lower_keys (acl_fields a)"
  by (simp add: lower_keys_def acl_fields_def lower_char_def)

lemma unmarshal_acl_text:
  assumes "acl_ok J a"
  shows "unmarshal_acl J (json_text (acl_json a)) = Some (canon_acl a)"
proof -
  have "dec_acl J (Jobj (acl_fields a)) = Some (canon_acl a)"
    using assms by (simp add: field_lower [OF lower_acl_fields]) (simp add: acl_fields_def acl_ok_def canon_acl_def)
  then show ?thesis using json_ok_acl [of a] by (simp add: unmarshal_acl_def json_parse_text acl_json_def del: json_text.simps)
qed

subsection \<open>Lemmas: the decision\<close>

lemma observe_quiet: "quiet R \<Longrightarrow> run_state (observe R) x = (R (node_clock x), x\<lparr>node_clock := Suc (node_clock x)\<rparr>)"
  by (simp add: runs quiet_def)

text \<open>What the stored list says, and the decision it leads to.\<close>

definition stored_acl :: "json_env \<Rightarrow> KVStateMachine \<Rightarrow> string \<Rightarrow> (seal_err, SecretACL) result" where
  "stored_acl J f p =
     (case kv_abs f (aclKey p) of
        None \<Rightarrow> Inl (SRaft ErrKeyNotFound)
      | Some t \<Rightarrow> (case unmarshal_acl J t of None \<Rightarrow> Inl (SWrapf ''failed to unmarshal ACL'' (SErrorf ''json'')) | Some a \<Rightarrow> Inr a))"

definition decision :: "json_env \<Rightarrow> KVStateMachine \<Rightarrow> string \<Rightarrow> string \<Rightarrow> string \<Rightarrow> (seal_err, bool) result" where
  "decision J f userID p permission =
     (case stored_acl J f p of
        Inl e \<Rightarrow> if e = SRaft ErrKeyNotFound then Inr (userID \<noteq> []) else Inl e
      | Inr acl \<Rightarrow> Inr (\<not> isDenied acl userID permission \<and> (isAllowed acl userID permission \<or> userID \<noteq> [])))"

lemma run_CheckPermission:
  assumes "stable_leader R" and "quiet R" and "node_started (sm_node s)"
  obtains c where "run_state (CheckPermission R J u p perm) s
    = (decision J (node_fsm (sm_node s)) u p perm, s\<lparr>sm_node := (sm_node s)\<lparr>node_clock := c\<rparr>\<rparr>)"
proof -
  obtain c where c: "run_state (kv_Get R (aclKey p) ReadModeLinearizable) (sm_node s)
      = (fsm_Get (aclKey p) (node_fsm (sm_node s)), (sm_node s)\<lparr>node_clock := c\<rparr>)"
    using kv_Get_linear [OF assms] by blast
  show thesis
    using c by (intro that [of c])
      (auto simp: CheckPermission_def GetACL_def seal_runs decision_def stored_acl_def fsm_Get_def kv_abs_def checkDefaultPolicy_def
        split: option.split)
qed

lemma CheckPermission_decides:
  "stable_leader R \<Longrightarrow> quiet R \<Longrightarrow> node_started (sm_node s) \<Longrightarrow>
     fst (run_state (CheckPermission R J u p perm) s) = decision J (node_fsm (sm_node s)) u p perm"
  by (rule run_CheckPermission [of R s J u p perm]) simp_all

subsection \<open>Lemmas: the audit log\<close>

definition audit_namespace :: "string \<Rightarrow> bool" where
  "audit_namespace k \<longleftrightarrow> HasPrefix k ''/_system/audit/''"

text \<open>\<open>only_audit s s'\<close>: the two states differ in the entries of the audit log at most.\<close>

definition only_audit :: "('k, 'z) audit_state_scheme \<Rightarrow> ('k, 'z) audit_state_scheme \<Rightarrow> bool" where
  "only_audit s s' \<longleftrightarrow> (\<exists>n. s' = s\<lparr>sm_node := n\<rparr> \<and> node_started n = node_started (sm_node s)
     \<and> (\<forall>k. \<not> audit_namespace k \<longrightarrow> kv_abs (node_fsm n) k = seal_kv s k))"

lemma audit_key_namespace: "audit_namespace (audit_key e)"
  by (simp add: audit_namespace_def audit_key_def HasPrefix_def)

lemma only_audit_refl: "only_audit s s"
  unfolding only_audit_def by (rule exI [of _ "sm_node s"]) simp

lemma kv_Put_audit:
  assumes "stable_leader R" and "quiet R" and "run_state (kv_Put R (audit_key e) t []) n = (r, n')"
  shows "node_started n' = node_started n \<and> (\<forall>k. \<not> audit_namespace k \<longrightarrow> kv_abs (node_fsm n') k = kv_abs (node_fsm n) k)"
proof (cases "node_started n")
  case True
  with kv_Put_either [OF assms(1,2) _ assms(3)] audit_key_namespace [of e] show ?thesis by auto
next
  case False
  with assms(3) show ?thesis by (auto simp: kv_Put_def)
qed

lemma LogEvent_effect:
  assumes "stable_leader R" and "quiet R"
  shows "only_audit s (snd (run_state (LogEvent R J ev) s))"
proof (cases "al_enabled s")
  case True
  note obs = observe_quiet [OF assms(2)]
  have put: "only_audit s (s\<lparr>sm_node := snd (run_state (kv_Put R (audit_key e) t []) ((sm_node s)\<lparr>node_clock := c\<rparr>))\<rparr>)" for e t c
    using kv_Put_audit [OF assms prod.collapse [symmetric], of e t "(sm_node s)\<lparr>node_clock := c\<rparr>"] by (auto simp: only_audit_def)
  have tick: "only_audit s (s\<lparr>sm_node := (sm_node s)\<lparr>node_clock := c\<rparr>\<rparr>)" for c by (auto simp: only_audit_def)
  show ?thesis using True put tick by (auto simp: LogEvent_def seal_runs obs Let_def)
qed (simp add: LogEvent_def only_audit_refl)

lemma only_audit_clock:
  "only_audit (s\<lparr>sm_node := (sm_node s)\<lparr>node_clock := c\<rparr>\<rparr>) s' \<Longrightarrow> only_audit s s'"
  by (auto simp: only_audit_def)

lemmas log_defs = LogSecretRead_def LogSecretWrite_def LogSecretDelete_def LogAccessDenied_def


lemma log_effects:
  assumes "stable_leader R" and "quiet R"
  shows "only_audit s (snd (run_state (LogSecretRead R J T u p v ok e) s))" "only_audit s (snd (run_state (LogSecretWrite R J T u p v ok e) s))"
    "only_audit s (snd (run_state (LogSecretDelete R J T u p vs ok e) s))" "only_audit s (snd (run_state (LogAccessDenied R J u p perm) s))"
  by (simp_all add: log_defs LogEvent_effect [OF assms])

text \<open>The three operations, after the decision.\<close>

lemma sa_Put_denied:
  assumes "stable_leader R" and "quiet R" and "node_started (sm_node s)" and "decision J (node_fsm (sm_node s)) u p PermissionWrite = Inr False"
    and "u = (case opts of None \<Rightarrow> [] | Some opt \<Rightarrow> so_CreatedBy opt)"
  shows "\<exists>s'. run_state (sa_Put R K J T p data opts) s = (Inl (SErrorf ''access denied: write permission required''), s') \<and> only_audit s s'"
proof -
  obtain c where c: "run_state (CheckPermission R J u p PermissionWrite) s
      = (decision J (node_fsm (sm_node s)) u p PermissionWrite, s\<lparr>sm_node := (sm_node s)\<lparr>node_clock := c\<rparr>\<rparr>)"
    by (rule run_CheckPermission [OF assms(1-3)])
  show ?thesis
    using assms(4) only_audit_clock [OF log_effects(4) [OF assms(1,2)]]
    by (simp add: sa_Put_def assms(5) [symmetric] Let_def c case_prod_beta)
qed

lemma sa_Put_allowed:
  assumes "stable_leader R" and "quiet R" and "node_started (sm_node s)" and "decision J (node_fsm (sm_node s)) u p PermissionWrite = Inr True"
    and "u = (case opts of None \<Rightarrow> [] | Some opt \<Rightarrow> so_CreatedBy opt)"
  shows "\<exists>c r s1 s2. run_state (ss_Put R K J p data opts) (s\<lparr>sm_node := (sm_node s)\<lparr>node_clock := c\<rparr>\<rparr>) = (r, s1)
      \<and> run_state (sa_Put R K J T p data opts) s = (r, s2) \<and> only_audit s1 s2"
proof -
  obtain c where c: "run_state (CheckPermission R J u p PermissionWrite) s
      = (decision J (node_fsm (sm_node s)) u p PermissionWrite, s\<lparr>sm_node := (sm_node s)\<lparr>node_clock := c\<rparr>\<rparr>)"
    by (rule run_CheckPermission [OF assms(1-3)])
  obtain r s1 where r: "run_state (ss_Put R K J p data opts) (s\<lparr>sm_node := (sm_node s)\<lparr>node_clock := c\<rparr>\<rparr>) = (r, s1)" by fastforce
  show ?thesis
    using assms(4) r log_effects [OF assms(1,2), of s1]
    by - (rule exI [of _ c], rule exI [of _ r], rule exI [of _ s1], simp add: sa_Put_def assms(5) [symmetric] Let_def c case_prod_beta)
qed

lemma sa_Get_denied:
  assumes "stable_leader R" and "quiet R" and "node_started (sm_node s)" and "decision J (node_fsm (sm_node s)) (getUserFromContext ctx) p PermissionRead = Inr False"
  shows "\<exists>s'. run_state (sa_Get R K J T ctx p n) s = (Inl (SErrorf ''access denied: read permission required''), s') \<and> only_audit s s'"
proof -
  obtain c where c: "run_state (CheckPermission R J (getUserFromContext ctx) p PermissionRead) s
      = (decision J (node_fsm (sm_node s)) (getUserFromContext ctx) p PermissionRead, s\<lparr>sm_node := (sm_node s)\<lparr>node_clock := c\<rparr>\<rparr>)"
    by (rule run_CheckPermission [OF assms(1-3)])
  show ?thesis
    using assms(4) only_audit_clock [OF log_effects(4) [OF assms(1,2)]]
    by (simp add: sa_Get_def Let_def c case_prod_beta)
qed

lemma sa_Get_allowed:
  assumes "stable_leader R" and "quiet R" and "node_started (sm_node s)" and "decision J (node_fsm (sm_node s)) (getUserFromContext ctx) p PermissionRead = Inr True"
  shows "\<exists>c r s1 s2. run_state (ss_Get R K J p n) (s\<lparr>sm_node := (sm_node s)\<lparr>node_clock := c\<rparr>\<rparr>) = (r, s1)
      \<and> run_state (sa_Get R K J T ctx p n) s = (r, s2) \<and> only_audit s1 s2"
proof -
  obtain c where c: "run_state (CheckPermission R J (getUserFromContext ctx) p PermissionRead) s
      = (decision J (node_fsm (sm_node s)) (getUserFromContext ctx) p PermissionRead, s\<lparr>sm_node := (sm_node s)\<lparr>node_clock := c\<rparr>\<rparr>)"
    by (rule run_CheckPermission [OF assms(1-3)])
  obtain r s1 where r: "run_state (ss_Get R K J p n) (s\<lparr>sm_node := (sm_node s)\<lparr>node_clock := c\<rparr>\<rparr>) = (r, s1)" by fastforce
  show ?thesis
    using assms(4) r log_effects [OF assms(1,2), of s1]
    by - (rule exI [of _ c], rule exI [of _ r], rule exI [of _ s1], simp add: sa_Get_def Let_def c case_prod_beta)
qed

lemma sa_Delete_denied:
  assumes "stable_leader R" and "quiet R" and "node_started (sm_node s)" and "decision J (node_fsm (sm_node s)) (getUserFromContext ctx) p PermissionDelete = Inr False"
  shows "\<exists>s'. run_state (sa_Delete R J T ctx p opts) s = (Returns (Some (SErrorf ''access denied: delete permission required'')), s') \<and> only_audit s s'"
proof -
  obtain c where c: "run_state (CheckPermission R J (getUserFromContext ctx) p PermissionDelete) s
      = (decision J (node_fsm (sm_node s)) (getUserFromContext ctx) p PermissionDelete, s\<lparr>sm_node := (sm_node s)\<lparr>node_clock := c\<rparr>\<rparr>)"
    by (rule run_CheckPermission [OF assms(1-3)])
  show ?thesis
    using assms(4) only_audit_clock [OF log_effects(4) [OF assms(1,2)]]
    by (simp add: sa_Delete_def Let_def c case_prod_beta)
qed

lemma sa_Delete_allowed:
  assumes "stable_leader R" and "quiet R" and "node_started (sm_node s)" and "decision J (node_fsm (sm_node s)) (getUserFromContext ctx) p PermissionDelete = Inr True"
  shows "\<exists>c r s1 s2. run_state (ss_Delete R J p vs) (s\<lparr>sm_node := (sm_node s)\<lparr>node_clock := c\<rparr>\<rparr>) = (r, s1)
      \<and> run_state (sa_Delete R J T ctx p (Some vs)) s = (Returns r, s2) \<and> only_audit s1 s2"
proof -
  obtain c where c: "run_state (CheckPermission R J (getUserFromContext ctx) p PermissionDelete) s
      = (decision J (node_fsm (sm_node s)) (getUserFromContext ctx) p PermissionDelete, s\<lparr>sm_node := (sm_node s)\<lparr>node_clock := c\<rparr>\<rparr>)"
    by (rule run_CheckPermission [OF assms(1-3)])
  obtain r s1 where r: "run_state (ss_Delete R J p vs) (s\<lparr>sm_node := (sm_node s)\<lparr>node_clock := c\<rparr>\<rparr>) = (r, s1)" by fastforce
  show ?thesis
    using assms(4) r log_effects [OF assms(1,2), of s1]
    by - (rule exI [of _ c], rule exI [of _ r], rule exI [of _ s1], simp add: sa_Delete_def Let_def c case_prod_beta)
qed

subsection \<open>Lemmas: paths and keys of lists\<close>

lemma normalize_slash: "normalizePath (CHR ''/'' # p) = normalizePath p"
  by (simp add: normalizePath_def Trim_slash_def)

lemma aclKey_slash_invalid: "\<not> isValidKey (aclKey (CHR ''/'' # p))"
proof -
  have sp: "Split (CHR ''/'') (w @ CHR ''/'' # s) = w # Split (CHR ''/'') s" if "CHR ''/'' \<notin> set w" for w s
    using that by (rule Split_append_sep)
  have "Split (CHR ''/'') (''_system/acl/secrets//'' @ p) = ''_system'' # ''acl'' # ''secrets'' # [] # Split (CHR ''/'') p"
    using sp [of "''_system''" "''acl/secrets//'' @ p"] sp [of "''acl''" "''secrets//'' @ p"] sp [of "''secrets''" "CHR ''/'' # p"] by simp
  then show ?thesis by (simp add: isValidKey_Split aclKey_def)
qed

lemma invalid_key_absent: "fsm_wf f \<Longrightarrow> \<not> isValidKey k \<Longrightarrow> kv_abs f k = None"
  by (cases "map_of (fsm_data f) k") (auto simp: fsm_wf_def kv_abs_def entry_wf_def)

subsection \<open>Lemmas: setting a list\<close>

lemma SetACL_ok:
  assumes "stable_leader R" and "quiet R" and "json_env_ok J" and "je_time_ok J (acl_CreatedAt acl)"
    and "run_state (SetACL R J p acl) s = (None, s1)"
  obtains a where "stored_acl J (node_fsm (sm_node s1)) p = Inr a" and "node_started (sm_node s1)"
    and "\<And>u perm. isDenied a u perm = isDenied acl u perm" and "\<And>u perm. isAllowed a u perm = isAllowed acl u perm"
proof -
  let ?t = "je_time J (ob_now (R (node_clock (sm_node s))))"
  let ?a = "acl\<lparr>acl_Path := p, acl_UpdatedAt := ?t\<rparr>"
  let ?b = "if acl_CreatedAt ?a = zero_time then ?a\<lparr>acl_CreatedAt := acl_UpdatedAt ?a\<rparr> else ?a"
  let ?n = "(sm_node s)\<lparr>node_clock := Suc (node_clock (sm_node s))\<rparr>"
  obtain e n where n: "run_state (kv_Put R (aclKey p) (json_text (acl_json ?b)) []) ?n = (e, n)" by fastforce
  note obs = observe_quiet [OF assms(2)]
  have s1: "e = None" "s1 = s\<lparr>sm_node := n\<rparr>"
    using assms(5) n by (auto simp: SetACL_def seal_runs obs Let_def split: if_splits)
  have "acl_ok J ?b" using assms(3,4) by (auto simp: acl_ok_def json_env_ok_def)
  then have "unmarshal_acl J (json_text (acl_json ?b)) = Some (canon_acl ?b)" by (rule unmarshal_acl_text)
  moreover have "kv_abs (node_fsm n) (aclKey p) = Some (json_text (acl_json ?b))" "node_started n"
    using kv_Put_lease_abs(2,4) [OF _ assms(1,2)] n s1(1) by auto
  ultimately show thesis
    using s1(2) by (intro that [of "canon_acl ?b"])
      (simp_all add: stored_acl_def isDenied_def isAllowed_def canon_acl_def del: json_text.simps)
qed

subsection \<open>A concrete store, for the witnesses\<close>

definition demo_audit :: "softwareKeyManager audit_state" where
  "demo_audit = NewSecretStoreWithAudit demo_store ''c'' ''n''"

definition demo_acl :: SecretACL where
  "demo_acl = \<lparr>acl_Path = [], acl_Permissions = [], acl_AllowRead = [''alice''], acl_AllowWrite = [], acl_AllowDelete = [],
     acl_DenyRead = [''mallory''], acl_DenyWrite = [''*''], acl_DenyDelete = [], acl_CreatedAt = zero_time, acl_UpdatedAt = zero_time\<rparr>"

lemma demo_audit_simps [simp]:
  "sm_node demo_audit = sm_node demo_store" "node_started (sm_node demo_audit)" "al_enabled demo_audit"
  by (simp_all add: demo_audit_def NewSecretStoreWithAudit_def secret_state.defs demo_store_def)


lemma demo_set_acl:
  obtains s1 where "run_state (SetACL store_env store_json ''app'' demo_acl) demo_audit = (None, s1)" and "fsm_wf (node_fsm (sm_node s1))"
proof -
  let ?n = "(sm_node demo_store)\<lparr>node_clock := Suc (node_clock (sm_node demo_store))\<rparr>"
  let ?b = "demo_acl\<lparr>acl_Path := ''app'', acl_UpdatedAt := je_time store_json 0, acl_CreatedAt := je_time store_json 0\<rparr>"
  have "length (json_text (acl_json ?b)) < 8000"
    using length_json_text [of "acl_json ?b"]
    by (simp add: acl_json_def acl_fields_def demo_acl_def permissions_json_def enc_string_list_def store_json_time show_int_def show_nat.simps)
  moreover have "isValidKey (aclKey ''app'')" by (simp add: isValidKey_def HasPrefix_def aclKey_def upt_rec)
  ultimately have f: "fits (node_fsm ?n) (aclKey ''app'') (json_text (acl_json ?b))"
    by (simp add: fits_def NewKVStateMachine_def aclKey_def)
  have "node_started ?n" by simp
  from kv_Put_fits [OF store_env_stable(1,2) this f]
  obtain n where n: "run_state (kv_Put store_env (aclKey ''app'') (json_text (acl_json ?b)) []) ?n = (None, n)" by blast
  have "log_extends ?n n" using kv_Put_via_log n by (metis state_io_relD)
  then have "fsm_wf (node_fsm n)" by (rule log_extends_wf) (simp add: fsm_wf_init)
  moreover have "run_state (SetACL store_env store_json ''app'' demo_acl) demo_audit = (None, demo_audit\<lparr>sm_node := n\<rparr>)"
    using n by (simp add: SetACL_def seal_runs observe_quiet Let_def demo_acl_def)
  ultimately show thesis using that [of "demo_audit\<lparr>sm_node := n\<rparr>"] by simp
qed

subsection \<open>Properties\<close>



text \<open>
  C13: a request that is not allowed is answered with the error, and nothing but the audit log
  changes: no secret, no list and no key material.
\<close>

theorem denied_request_changes_nothing:
  assumes "stable_leader R" and "quiet R" and "node_started (sm_node s)" and "u = (case opts of None \<Rightarrow> [] | Some opt \<Rightarrow> so_CreatedBy opt)"
  shows "(fst (run_state (CheckPermission R J u p PermissionWrite) s) = Inr False \<longrightarrow>
        (\<exists>s'. run_state (sa_Put R K J T p data opts) s = (Inl (SErrorf ''access denied: write permission required''), s') \<and> only_audit s s'))
     \<and> (fst (run_state (CheckPermission R J (getUserFromContext ctx) p PermissionRead) s) = Inr False \<longrightarrow>
        (\<exists>s'. run_state (sa_Get R K J T ctx p n) s = (Inl (SErrorf ''access denied: read permission required''), s') \<and> only_audit s s'))
     \<and> (fst (run_state (CheckPermission R J (getUserFromContext ctx) p PermissionDelete) s) = Inr False \<longrightarrow>
        (\<exists>s'. run_state (sa_Delete R J T ctx p vs) s = (Returns (Some (SErrorf ''access denied: delete permission required'')), s') \<and> only_audit s s'))"
proof -
  show ?thesis unfolding CheckPermission_decides [OF assms(1-3)]
    using sa_Put_denied [OF assms(1-3) _ assms(4)] sa_Get_denied [OF assms(1-3)] sa_Delete_denied [OF assms(1-3)] by blast
qed

theorem denied_request_changes_nothing_witness:
  "\<exists>s1 s2. run_state (SetACL store_env store_json ''app'' demo_acl) demo_audit = (None, s1)
     \<and> run_state (sa_Get store_env (software demo_crypto) store_json (\<lambda>_. []) (Some ''mallory'') ''app'' 0) s1
         = (Inl (SErrorf ''access denied: read permission required''), s2) \<and> only_audit s1 s2"
proof -
  obtain s1 where s1: "run_state (SetACL store_env store_json ''app'' demo_acl) demo_audit = (None, s1)" by (rule demo_set_acl)
  have t: "je_time_ok store_json (acl_CreatedAt demo_acl)" by (simp add: store_json_def demo_json_def)
  obtain a where a: "stored_acl store_json (node_fsm (sm_node s1)) ''app'' = Inr a" "node_started (sm_node s1)"
      "\<And>u perm. isDenied a u perm = isDenied demo_acl u perm"
    by (rule SetACL_ok [OF store_env_stable(1,2) store_json_ok(1) t s1]) auto
  have "fst (run_state (CheckPermission store_env store_json (getUserFromContext (Some ''mallory'')) ''app'' PermissionRead) s1) = Inr False"
    unfolding CheckPermission_decides [OF store_env_stable(1,2) a(2)]
    using a(3) [of "''mallory''" PermissionRead]
    by (simp add: decision_def a(1) getUserFromContext_def) (simp add: isDenied_def demo_acl_def PermissionRead_def)
  with denied_request_changes_nothing [OF store_env_stable(1,2) a(2) refl, where opts = None] s1 show ?thesis by blast
qed

text \<open>
  An allowed request is answered by the secret store: \<open>Put\<close>, \<open>Get\<close> and \<open>Delete\<close> with
  options return what the store returns, and leave the state it leaves but for the audit log.
\<close>

theorem allowed_request_reaches_store:
  assumes "stable_leader R" and "quiet R" and "node_started (sm_node s)" and "u = (case opts of None \<Rightarrow> [] | Some opt \<Rightarrow> so_CreatedBy opt)"
  shows "(fst (run_state (CheckPermission R J u p PermissionWrite) s) = Inr True \<longrightarrow>
        (\<exists>c r s1 s2. run_state (ss_Put R K J p data opts) (s\<lparr>sm_node := (sm_node s)\<lparr>node_clock := c\<rparr>\<rparr>) = (r, s1)
           \<and> run_state (sa_Put R K J T p data opts) s = (r, s2) \<and> only_audit s1 s2))
     \<and> (fst (run_state (CheckPermission R J (getUserFromContext ctx) p PermissionRead) s) = Inr True \<longrightarrow>
        (\<exists>c r s1 s2. run_state (ss_Get R K J p n) (s\<lparr>sm_node := (sm_node s)\<lparr>node_clock := c\<rparr>\<rparr>) = (r, s1)
           \<and> run_state (sa_Get R K J T ctx p n) s = (r, s2) \<and> only_audit s1 s2))
     \<and> (fst (run_state (CheckPermission R J (getUserFromContext ctx) p PermissionDelete) s) = Inr True \<longrightarrow>
        (\<exists>c r s1 s2. run_state (ss_Delete R J p vs) (s\<lparr>sm_node := (sm_node s)\<lparr>node_clock := c\<rparr>\<rparr>) = (r, s1)
           \<and> run_state (sa_Delete R J T ctx p (Some vs)) s = (Returns r, s2) \<and> only_audit s1 s2))"
proof -
  show ?thesis unfolding CheckPermission_decides [OF assms(1-3)]
    using sa_Put_allowed [OF assms(1-3) _ assms(4)] sa_Get_allowed [OF assms(1-3)] sa_Delete_allowed [OF assms(1-3)] by blast
qed

theorem allowed_request_reaches_store_witness:
  "\<exists>c r s1 s2. run_state (ss_Get store_env (software demo_crypto) store_json ''app'' 0) (demo_audit\<lparr>sm_node := (sm_node demo_audit)\<lparr>node_clock := c\<rparr>\<rparr>) = (r, s1)
     \<and> run_state (sa_Get store_env (software demo_crypto) store_json (\<lambda>_. []) (Some ''alice'') ''app'' 0) demo_audit = (r, s2) \<and> only_audit s1 s2"
proof -
  have "fst (run_state (CheckPermission store_env store_json (getUserFromContext (Some ''alice'')) ''app'' PermissionRead) demo_audit) = Inr True"
    unfolding CheckPermission_decides [OF store_env_stable(1,2) demo_audit_simps(2)]
    by (simp add: decision_def stored_acl_def kv_abs_def NewKVStateMachine_def getUserFromContext_def)
  with allowed_request_reaches_store [OF store_env_stable(1,2) demo_audit_simps(2) refl, where opts = None] show ?thesis by blast
qed

text \<open>
  A list protects one spelling of a path only. \<open>/p\<close> and \<open>p\<close> name the same secret, but the
  key of the list of \<open>/p\<close> is not valid, so no list can exist for it: whatever the list of \<open>p\<close>
  denies, every user with a name is allowed everything through \<open>/p\<close>.
\<close>

theorem acl_bypassed_by_spelling:
  assumes "stable_leader R" and "quiet R" and "node_started (sm_node s)" and "fsm_wf (node_fsm (sm_node s))" and "u \<noteq> []"
  shows "normalizePath (CHR ''/'' # p) = normalizePath p
     \<and> fst (run_state (CheckPermission R J u (CHR ''/'' # p) perm) s) = Inr True
     \<and> fst (run_state (SetACL R J (CHR ''/'' # p) acl) s) = Some ErrInvalidKey"
proof -
  have "kv_abs (node_fsm (sm_node s)) (aclKey (CHR ''/'' # p)) = None"
    using assms(4) aclKey_slash_invalid by (rule invalid_key_absent)
  moreover have "fst (run_state (SetACL R J (CHR ''/'' # p) acl) s) = Some ErrInvalidKey"
    using assms(2,3) aclKey_slash_invalid by (simp add: SetACL_def seal_runs observe_quiet Let_def kv_Put_def)
  ultimately show ?thesis
    using assms(5) by (simp add: CheckPermission_decides [OF assms(1-3)] decision_def stored_acl_def normalize_slash)
qed

theorem acl_bypassed_by_spelling_witness:
  "\<exists>s1. run_state (SetACL store_env store_json ''app'' demo_acl) demo_audit = (None, s1)
     \<and> fst (run_state (CheckPermission store_env store_json ''mallory'' ''/app'' PermissionRead) s1) = Inr True"
proof -
  obtain s1 where s1: "run_state (SetACL store_env store_json ''app'' demo_acl) demo_audit = (None, s1)" "fsm_wf (node_fsm (sm_node s1))"
    by (rule demo_set_acl)
  have t: "je_time_ok store_json (acl_CreatedAt demo_acl)" by (simp add: store_json_def demo_json_def)
  have "node_started (sm_node s1)" by (rule SetACL_ok [OF store_env_stable(1,2) store_json_ok(1) t s1(1)])
  from acl_bypassed_by_spelling [OF store_env_stable(1,2) this s1(2), of "''mallory''" "''app''"] s1(1) show ?thesis by auto
qed

text \<open>
  \<open>Delete\<close> with nil options, which the store itself accepts, panics once the versions have
  been marked: the deletion has happened and is not in the audit log.
\<close>

theorem delete_with_nil_options_panics:
  assumes "stable_leader R" and "quiet R" and "node_started (sm_node s)"
    and "fst (run_state (CheckPermission R J (getUserFromContext ctx) p PermissionDelete) s) = Inr True"
  shows "\<exists>c s'. run_state (sa_Delete R J T ctx p None) s = (Panics, s')
     \<and> s' = snd (run_state (ss_Delete R J p []) (s\<lparr>sm_node := (sm_node s)\<lparr>node_clock := c\<rparr>\<rparr>))"
proof -
  obtain c where c: "run_state (CheckPermission R J (getUserFromContext ctx) p PermissionDelete) s
      = (decision J (node_fsm (sm_node s)) (getUserFromContext ctx) p PermissionDelete, s\<lparr>sm_node := (sm_node s)\<lparr>node_clock := c\<rparr>\<rparr>)"
    by (rule run_CheckPermission [OF assms(1-3)])
  then show ?thesis using assms(4) by (intro exI [of _ c]) (simp add: sa_Delete_def Let_def case_prod_beta)
qed

theorem delete_with_nil_options_panics_witness:
  "fst (run_state (sa_Delete store_env store_json (\<lambda>_. []) (Some ''alice'') ''app'' None) demo_audit) = Panics"
proof -
  have "fst (run_state (CheckPermission store_env store_json (getUserFromContext (Some ''alice'')) ''app'' PermissionDelete) demo_audit) = Inr True"
    unfolding CheckPermission_decides [OF store_env_stable(1,2) demo_audit_simps(2)]
    by (simp add: decision_def stored_acl_def kv_abs_def NewKVStateMachine_def getUserFromContext_def)
  from delete_with_nil_options_panics [OF store_env_stable(1,2) demo_audit_simps(2) this, of "\<lambda>_. []"] show ?thesis by auto
qed

end
