(* ===== verification/Cap_Registry.thy ===== *)
theory Cap_Registry
  imports Dep_Graph "HOL-Library.List_Lexorder" "HOL-Library.Char_ord"
begin

text \<open>
  The capability registry and the resolver, \<open>internal/capability/registry.go\<close> and
  \<open>resolver.go\<close>: indexes over a snapshot of the remote registry, and the choice of the provider
  of a capability. The records hold the fields of the registry's types that the code reads.
  Semantic versions are a parameter (\<open>semver\<close>), as are the order of \<open>sort.Slice\<close> and that of a
  range over a map.
\<close>

declare map_of_eq_Some_iff [simp del]

subsection \<open>Types\<close>

datatype cap_err = CapErrorf string | CapWrapf string cap_err

datatype TrustTier = TrustOfficial | TrustCertified | TrustCommunity | TrustExperimental | TrustLocal | TrustOther string

datatype ArtifactType = ArtifactOCI | ArtifactBinary | ArtifactGit | ArtifactNPM | ArtifactPyPI | ArtifactOther string

datatype LaunchMode = LaunchModeDaemon | LaunchModeOnDemand | LaunchModeOther string

record CapabilityRef =
  cr_ID :: string
  cr_VersionRange :: string

record Artifact =
  art_Type :: ArtifactType
  art_URI :: string
  art_Digest :: string
  art_Checksums :: "string option"
  art_SupportedPlatforms :: "(string \<times> string) list"

record RuntimeRequirements =
  rr_LaunchMode :: LaunchMode
  rr_HealthEndpoint :: string
  rr_Port :: int
  rr_Args :: "string list"
  rr_Env :: "(string, string) gomap"

record Provider =
  prov_ID :: string
  prov_Version :: string
  prov_TrustTier :: TrustTier
  prov_Capabilities :: "CapabilityRef list"
  prov_Artifact :: Artifact
  prov_Runtime :: RuntimeRequirements

record Capability =
  cap_ID :: string
  cap_Version :: string

record RegistrySnapshot =
  snap_Version :: string
  snap_Capabilities :: "Capability list"
  snap_Providers :: "Provider list"

record ResolveConstraints =
  rc_TrustTier :: string
  rc_RiskClass :: string
  rc_Platform :: string
  rc_Architecture :: string

record CapabilityRequest =
  rq_CapabilityID :: string
  rq_VersionRange :: string
  rq_Constraints :: ResolveConstraints

subsection \<open>registry.go\<close>

record Registry =
  reg_snapshot :: "RegistrySnapshot option"
  reg_capabilitiesById :: "(string, Capability) gomap"
  reg_providersByCapability :: "(string, Provider list) gomap"
  reg_providersById :: "(string, Provider) gomap"

definition NewRegistry :: Registry where
  "NewRegistry = \<lparr>reg_snapshot = None, reg_capabilitiesById = [], reg_providersByCapability = [], reg_providersById = []\<rparr>"

definition providerKey :: "string \<Rightarrow> string \<Rightarrow> string" where
  "providerKey providerID version = providerID @ '':'' @ version"

definition index_capability :: "Capability \<Rightarrow> Registry \<Rightarrow> Registry" where
  "index_capability c r = r\<lparr>reg_capabilitiesById := AList.update (cap_ID c) c (reg_capabilitiesById r)\<rparr>"

definition add_ref :: "Provider \<Rightarrow> CapabilityRef \<Rightarrow> (string, Provider list) gomap \<Rightarrow> (string, Provider list) gomap" where
  "add_ref p capRef m = AList.update (cr_ID capRef) ((case map_of m (cr_ID capRef) of None \<Rightarrow> [] | Some ps \<Rightarrow> ps) @ [p]) m"

definition index_provider :: "Provider \<Rightarrow> Registry \<Rightarrow> Registry" where
  "index_provider p r =
     r\<lparr>reg_providersById := AList.update (providerKey (prov_ID p) (prov_Version p)) p (reg_providersById r),
       reg_providersByCapability := fold (add_ref p) (prov_Capabilities p) (reg_providersByCapability r)\<rparr>"

definition LoadSnapshot :: "RegistrySnapshot option \<Rightarrow> Registry \<Rightarrow> cap_err option \<times> Registry" where
  "LoadSnapshot snapshot r =
     (case snapshot of
        None \<Rightarrow> (Some (CapErrorf ''snapshot cannot be nil''), r)
      | Some s \<Rightarrow>
          (let r1 = r\<lparr>reg_capabilitiesById := [], reg_providersByCapability := [], reg_providersById := []\<rparr>;
               r2 = fold index_capability (snap_Capabilities s) r1;
               r3 = fold index_provider (snap_Providers s) r2
           in (None, r3\<lparr>reg_snapshot := Some s\<rparr>)))"

definition GetCapability :: "string \<Rightarrow> Registry \<Rightarrow> (cap_err, Capability) result" where
  "GetCapability i r =
     (case map_of (reg_capabilitiesById r) i of
        None \<Rightarrow> Inl (CapErrorf (''capability not found: '' @ i))
      | Some c \<Rightarrow> Inr c)"

definition ListCapabilities :: "Capability range \<Rightarrow> Registry \<Rightarrow> Capability list" where
  "ListCapabilities rng r = rng 0 (map snd (reg_capabilitiesById r))"

definition FindProviders :: "string \<Rightarrow> Registry \<Rightarrow> (cap_err, Provider list) result" where
  "FindProviders capabilityID r =
     (case map_of (reg_capabilitiesById r) capabilityID of
        None \<Rightarrow> Inl (CapErrorf (''capability not found: '' @ capabilityID))
      | Some _ \<Rightarrow>
          (case map_of (reg_providersByCapability r) capabilityID of
             None \<Rightarrow> Inl (CapErrorf (''no providers found for capability: '' @ capabilityID))
           | Some ps \<Rightarrow> if ps = [] then Inl (CapErrorf (''no providers found for capability: '' @ capabilityID)) else Inr ps))"

definition GetProvider :: "string \<Rightarrow> string \<Rightarrow> Registry \<Rightarrow> (cap_err, Provider) result" where
  "GetProvider providerID version r =
     (case map_of (reg_providersById r) (providerKey providerID version) of
        None \<Rightarrow> Inl (CapErrorf (''provider not found: '' @ providerID @ '':'' @ version))
      | Some p \<Rightarrow> Inr p)"

definition later_version :: "string \<Rightarrow> Provider \<Rightarrow> Provider option \<Rightarrow> Provider option" where
  "later_version providerID p best =
     (if prov_ID p = providerID
      then (case best of None \<Rightarrow> Some p | Some b \<Rightarrow> if prov_Version p > prov_Version b then Some p else best)
      else best)"

definition FindProviderByID :: "Provider range \<Rightarrow> string \<Rightarrow> Registry \<Rightarrow> (cap_err, Provider) result" where
  "FindProviderByID rng providerID r =
     (case fold (later_version providerID) (rng 0 (map snd (reg_providersById r))) None of
        None \<Rightarrow> Inl (CapErrorf (''provider not found: '' @ providerID))
      | Some p \<Rightarrow> Inr p)"

definition ListProviders :: "Provider range \<Rightarrow> Registry \<Rightarrow> Provider list" where
  "ListProviders rng r = rng 0 (map snd (reg_providersById r))"

record RegistryStats =
  rst_CapabilityCount :: nat
  rst_ProviderCount :: nat
  rst_Version :: string

definition getSnapshotVersion :: "Registry \<Rightarrow> string" where
  "getSnapshotVersion r = (case reg_snapshot r of None \<Rightarrow> [] | Some s \<Rightarrow> snap_Version s)"

definition reg_Stats :: "Registry \<Rightarrow> RegistryStats" where
  "reg_Stats r = \<lparr>rst_CapabilityCount = length (reg_capabilitiesById r), rst_ProviderCount = length (reg_providersById r),
     rst_Version = getSnapshotVersion r\<rparr>"

subsection \<open>resolver.go\<close>

text \<open>\<open>sem_Constraint s\<close> is the check of the constraint \<open>s\<close>, when it parses.\<close>

record 'v semver =
  sem_Version :: "string \<Rightarrow> 'v option"
  sem_Constraint :: "string \<Rightarrow> ('v \<Rightarrow> bool) option"
  sem_GreaterThan :: "'v \<Rightarrow> 'v \<Rightarrow> bool"

type_synonym 'a sorter = "('a \<Rightarrow> 'a \<Rightarrow> bool) \<Rightarrow> 'a list \<Rightarrow> 'a list"

definition matchesTrustTier :: "Provider \<Rightarrow> string \<Rightarrow> bool" where
  "matchesTrustTier provider constraint =
     (if constraint = ''official_only'' then prov_TrustTier provider = TrustOfficial
      else if constraint = ''certified+'' then prov_TrustTier provider = TrustOfficial \<or> prov_TrustTier provider = TrustCertified
      else if constraint = ''community+''
      then prov_TrustTier provider = TrustOfficial \<or> prov_TrustTier provider = TrustCertified \<or> prov_TrustTier provider = TrustCommunity
      else if constraint = ''all'' then True
      else prov_TrustTier provider = TrustOfficial \<or> prov_TrustTier provider = TrustCertified)"

text \<open>\<open>host\<close> is \<open>(runtime.GOOS, runtime.GOARCH)\<close>.\<close>

definition platformSupported :: "string \<times> string \<Rightarrow> ResolveConstraints \<Rightarrow> Provider \<Rightarrow> bool" where
  "platformSupported host c p =
     (let platform = (if rc_Platform c = [] then fst host else rc_Platform c);
          architecture = (if rc_Architecture c = [] then snd host else rc_Architecture c);
          platforms = art_SupportedPlatforms (prov_Artifact p)
      in platforms = [] \<or> list_ex (\<lambda>(os, arch). os = platform \<and> arch = architecture) platforms)"

definition applyFilters :: "string \<times> string \<Rightarrow> Provider list \<Rightarrow> ResolveConstraints \<Rightarrow> Provider list" where
  "applyFilters host providers c =
     filter (\<lambda>p. (rc_TrustTier c = [] \<or> matchesTrustTier p (rc_TrustTier c)) \<and> platformSupported host c p) providers"

definition providerSupportsCapabilityVersion :: "'v semver \<Rightarrow> Provider \<Rightarrow> string \<Rightarrow> string \<Rightarrow> bool" where
  "providerSupportsCapabilityVersion V p capabilityID capabilityVersion =
     list_ex (\<lambda>capRef. cr_ID capRef = capabilityID
        \<and> (case (sem_Constraint V (cr_VersionRange capRef), sem_Version V capabilityVersion) of
             (Some check, Some version) \<Rightarrow> check version
           | _ \<Rightarrow> False)) (prov_Capabilities p)"

fun trustTierRank :: "TrustTier \<Rightarrow> nat" where
  "trustTierRank TrustOfficial = 5"
| "trustTierRank TrustCertified = 4"
| "trustTierRank TrustCommunity = 3"
| "trustTierRank TrustExperimental = 2"
| "trustTierRank TrustLocal = 1"
| "trustTierRank (TrustOther _) = 0"

definition better :: "'v semver \<Rightarrow> Provider \<Rightarrow> Provider \<Rightarrow> bool" where
  "better V p q =
     (let tierI = trustTierRank (prov_TrustTier p); tierJ = trustTierRank (prov_TrustTier q) in
      if tierI \<noteq> tierJ then tierI > tierJ
      else (case (sem_Version V (prov_Version p), sem_Version V (prov_Version q)) of
              (Some v, Some w) \<Rightarrow> sem_GreaterThan V v w
            | _ \<Rightarrow> False))"

definition selectBest :: "Provider sorter \<Rightarrow> 'v semver \<Rightarrow> Provider list \<Rightarrow> Provider option" where
  "selectBest srt V providers = (if providers = [] then None else Some (hd (srt (better V) providers)))"

definition Resolve ::
  "Provider sorter \<Rightarrow> 'v semver \<Rightarrow> string \<times> string \<Rightarrow> Registry \<Rightarrow> CapabilityRequest
     \<Rightarrow> (cap_err, Provider option \<times> Capability) result" where
  "Resolve srt V host r req =
     (case GetCapability (rq_CapabilityID req) r of
        Inl e \<Rightarrow> Inl (CapWrapf ''capability not found'' e)
      | Inr capability \<Rightarrow>
          (case FindProviders (rq_CapabilityID req) r of
             Inl e \<Rightarrow> Inl (CapWrapf ''no providers found'' e)
           | Inr providers \<Rightarrow>
               (let filtered = applyFilters host providers (rq_Constraints req) in
                if filtered = [] then Inl (CapErrorf (''no providers match constraints for capability '' @ rq_CapabilityID req))
                else if rq_VersionRange req = [] then Inr (selectBest srt V filtered, capability)
                else (case sem_Version V (cap_Version capability) of
                        None \<Rightarrow> Inl (CapWrapf (''invalid capability version '' @ cap_Version capability) (CapErrorf ''semver''))
                      | Some capVersion \<Rightarrow>
                          (case sem_Constraint V (rq_VersionRange req) of
                             None \<Rightarrow> Inl (CapWrapf (''invalid version range '' @ rq_VersionRange req) (CapErrorf ''semver''))
                           | Some check \<Rightarrow>
                               if \<not> check capVersion
                               then Inl (CapErrorf (''capability version '' @ cap_Version capability
                                      @ '' does not match requested range '' @ rq_VersionRange req))
                               else (let versionFiltered =
                                           filter (\<lambda>p. providerSupportsCapabilityVersion V p (rq_CapabilityID req) (cap_Version capability)) filtered
                                     in if versionFiltered = []
                                        then Inl (CapErrorf (''no providers support capability '' @ rq_CapabilityID req
                                               @ '' version '' @ cap_Version capability))
                                        else Inr (selectBest srt V versionFiltered, capability)))))))"

subsection \<open>Assumptions on the parameters\<close>

definition strict_weak :: "('a \<Rightarrow> 'a \<Rightarrow> bool) \<Rightarrow> 'a set \<Rightarrow> bool" where
  "strict_weak lt A \<longleftrightarrow> (\<forall>x\<in>A. \<not> lt x x)
     \<and> (\<forall>x\<in>A. \<forall>y\<in>A. \<forall>z\<in>A. lt x y \<longrightarrow> lt y z \<longrightarrow> lt x z)
     \<and> (\<forall>x\<in>A. \<forall>y\<in>A. \<forall>z\<in>A. \<not> lt x y \<longrightarrow> \<not> lt y z \<longrightarrow> \<not> lt x z)"

text \<open>\<open>sort.Slice\<close> permutes, and sorts when the comparison is a strict weak order; ties come in any order.\<close>

definition sort_ok :: "'a sorter \<Rightarrow> bool" where
  "sort_ok srt \<longleftrightarrow> (\<forall>lt xs. mset (srt lt xs) = mset xs
     \<and> (strict_weak lt (set xs) \<longrightarrow> sorted_wrt (\<lambda>x y. \<not> lt y x) (srt lt xs)))"

definition semver_ok :: "'v semver \<Rightarrow> bool" where
  "semver_ok V \<longleftrightarrow> strict_weak (sem_GreaterThan V) UNIV"

subsection \<open>Specification of the indexes and of the choice\<close>

definition providers_of :: "Provider list \<Rightarrow> string \<Rightarrow> Provider list" where
  "providers_of ps i = concat (map (\<lambda>p. map (\<lambda>_. p) (filter (\<lambda>c. cr_ID c = i) (prov_Capabilities p))) ps)"

definition capability_of :: "Capability list \<Rightarrow> string \<Rightarrow> Capability option" where
  "capability_of cs i = find (\<lambda>c. cap_ID c = i) (rev cs)"

text \<open>The providers a request may be answered with.\<close>

definition admissible ::
  "'v semver \<Rightarrow> string \<times> string \<Rightarrow> RegistrySnapshot \<Rightarrow> CapabilityRequest \<Rightarrow> Capability \<Rightarrow> Provider \<Rightarrow> bool" where
  "admissible V host s req c p \<longleftrightarrow>
     p \<in> set (snap_Providers s) \<and> (\<exists>ref\<in>set (prov_Capabilities p). cr_ID ref = rq_CapabilityID req)
     \<and> (rc_TrustTier (rq_Constraints req) = [] \<or> matchesTrustTier p (rc_TrustTier (rq_Constraints req)))
     \<and> platformSupported host (rq_Constraints req) p
     \<and> (rq_VersionRange req = [] \<or> providerSupportsCapabilityVersion V p (rq_CapabilityID req) (cap_Version c))"

definition version_in_range :: "'v semver \<Rightarrow> CapabilityRequest \<Rightarrow> Capability \<Rightarrow> bool" where
  "version_in_range V req c \<longleftrightarrow> rq_VersionRange req = []
     \<or> (\<exists>v check. sem_Version V (cap_Version c) = Some v \<and> sem_Constraint V (rq_VersionRange req) = Some check \<and> check v)"

subsection \<open>Lemmas: the indexes\<close>

abbreviation lk :: "('k, 'v list) gomap \<Rightarrow> 'k \<Rightarrow> 'v list" where
  "lk m i \<equiv> (case map_of m i of None \<Rightarrow> [] | Some x \<Rightarrow> x)"

lemma lk_add_ref: "lk (add_ref p c m) i = lk m i @ (if cr_ID c = i then [p] else [])"
  by (auto simp: add_ref_def update_conv')

lemma lk_add_refs: "lk (fold (add_ref p) cs m) i = lk m i @ map (\<lambda>_. p) (filter (\<lambda>c. cr_ID c = i) cs)"
  by (induction cs arbitrary: m) (auto simp: lk_add_ref)

text \<open>An index built by assignments holds the last element of every key.\<close>

lemma find_append: "find P (xs @ ys) = (case find P xs of None \<Rightarrow> find P ys | Some x \<Rightarrow> Some x)"
  by (induction xs) auto

lemma fold_update_find:
  "map_of (fold (\<lambda>x. AList.update (f x) x) xs m) k = (case find (\<lambda>x. f x = k) (rev xs) of None \<Rightarrow> map_of m k | Some x \<Rightarrow> Some x)"
  by (induction xs arbitrary: m) (auto simp: update_conv' find_append split: option.splits)

lemma fold_index_capability:
  "map_of (reg_capabilitiesById (fold index_capability cs r)) i
     = (case capability_of cs i of None \<Rightarrow> map_of (reg_capabilitiesById r) i | Some c \<Rightarrow> Some c)"
  "reg_providersByCapability (fold index_capability cs r) = reg_providersByCapability r"
  "reg_providersById (fold index_capability cs r) = reg_providersById r"
proof -
  have "reg_capabilitiesById (fold index_capability cs r) = fold (\<lambda>c. AList.update (cap_ID c) c) cs (reg_capabilitiesById r)"
    by (induction cs arbitrary: r) (simp_all add: index_capability_def)
  then show "map_of (reg_capabilitiesById (fold index_capability cs r)) i
     = (case capability_of cs i of None \<Rightarrow> map_of (reg_capabilitiesById r) i | Some c \<Rightarrow> Some c)"
    by (simp add: fold_update_find capability_of_def)
qed (induction cs arbitrary: r; simp add: index_capability_def)+

lemma fold_index_provider:
  "lk (reg_providersByCapability (fold index_provider ps r)) i = lk (reg_providersByCapability r) i @ providers_of ps i"
  "reg_capabilitiesById (fold index_provider ps r) = reg_capabilitiesById r"
  "reg_providersById (fold index_provider ps r)
     = fold (\<lambda>p. AList.update (providerKey (prov_ID p) (prov_Version p)) p) ps (reg_providersById r)"
proof -
  show "lk (reg_providersByCapability (fold index_provider ps r)) i = lk (reg_providersByCapability r) i @ providers_of ps i"
    by (induction ps arbitrary: r) (simp_all add: index_provider_def lk_add_refs providers_of_def)
qed (induction ps arbitrary: r; simp add: index_provider_def)+

lemma loaded:
  assumes "LoadSnapshot (Some s) r0 = (e, r)"
  shows "e = None" and "map_of (reg_capabilitiesById r) i = capability_of (snap_Capabilities s) i"
    and "lk (reg_providersByCapability r) i = providers_of (snap_Providers s) i" and "reg_snapshot r = Some s"
    and "reg_providersById r = fold (\<lambda>p. AList.update (providerKey (prov_ID p) (prov_Version p)) p) (snap_Providers s) []"
proof -
  let ?r = "fold index_capability (snap_Capabilities s) (r0\<lparr>reg_capabilitiesById := [], reg_providersByCapability := [], reg_providersById := []\<rparr>)"
  have r: "e = None" "r = (fold index_provider (snap_Providers s) ?r)\<lparr>reg_snapshot := Some s\<rparr>"
    using assms by (auto simp: LoadSnapshot_def Let_def)
  show "e = None" "reg_snapshot r = Some s" using r by simp_all
  show "map_of (reg_capabilitiesById r) i = capability_of (snap_Capabilities s) i"
    by (simp add: r(2) fold_index_provider(2) fold_index_capability(1) split: option.split)
  show "lk (reg_providersByCapability r) i = providers_of (snap_Providers s) i"
    using fold_index_provider(1) [of "snap_Providers s" ?r i] by (simp add: r(2) fold_index_capability(2))
  show "reg_providersById r = fold (\<lambda>p. AList.update (providerKey (prov_ID p) (prov_Version p)) p) (snap_Providers s) []"
    by (simp add: r(2) fold_index_provider(3) fold_index_capability(3))
qed

lemma set_providers_of: "set (providers_of ps i) = {p \<in> set ps. \<exists>ref\<in>set (prov_Capabilities p). cr_ID ref = i}"
  by (auto simp: providers_of_def)

lemma FindProviders_loaded:
  assumes "LoadSnapshot (Some s) r0 = (e, r)"
  shows "FindProviders i r =
    (if capability_of (snap_Capabilities s) i = None then Inl (CapErrorf (''capability not found: '' @ i))
     else if providers_of (snap_Providers s) i = [] then Inl (CapErrorf (''no providers found for capability: '' @ i))
     else Inr (providers_of (snap_Providers s) i))"
  using loaded(2,3) [OF assms, of i] by (auto simp: FindProviders_def split: option.splits)

lemma capability_of_ID: "capability_of cs i = Some c \<Longrightarrow> c \<in> set cs \<and> cap_ID c = i"
  unfolding capability_of_def find_Some_iff by (metis length_rev nth_mem set_rev)

subsection \<open>Lemmas: the choice\<close>

lemma better_strict_weak:
  assumes "semver_ok V" and "\<And>p. p \<in> A \<Longrightarrow> sem_Version V (prov_Version p) \<noteq> None"
  shows "strict_weak (better V) A"
proof -
  define tier where "tier p = trustTierRank (prov_TrustTier p)" for p :: Provider
  define ver where "ver p = the (sem_Version V (prov_Version p))" for p :: Provider
  have b: "better V p q \<longleftrightarrow> tier p > tier q \<or> tier p = tier q \<and> sem_GreaterThan V (ver p) (ver q)" if "p \<in> A" "q \<in> A" for p q
    using assms(2) [OF that(1)] assms(2) [OF that(2)] by (auto simp: better_def Let_def tier_def ver_def)
  have g: "\<not> sem_GreaterThan V a a" "sem_GreaterThan V a b \<Longrightarrow> sem_GreaterThan V b c \<Longrightarrow> sem_GreaterThan V a c"
      "\<not> sem_GreaterThan V a b \<Longrightarrow> \<not> sem_GreaterThan V b c \<Longrightarrow> \<not> sem_GreaterThan V a c" for a b c
    using assms(1) unfolding semver_ok_def strict_weak_def by blast+
  show ?thesis unfolding strict_weak_def
  proof (intro conjI ballI impI)
    fix x y z assume "x \<in> A" "y \<in> A" "z \<in> A" "better V x y" "better V y z"
    then show "better V x z" using g(2) [of "ver x" "ver y" "ver z"] by (auto simp: b)
  next
    fix x y z assume xyz: "x \<in> A" "y \<in> A" "z \<in> A" and n: "\<not> better V x y" "\<not> better V y z"
    then have "tier x \<le> tier y" "tier y \<le> tier z" by (auto simp: b)
    moreover have "tier x = tier z \<Longrightarrow> \<not> sem_GreaterThan V (ver x) (ver z)"
      using n xyz calculation g(3) by (auto simp: b)
    ultimately show "\<not> better V x z" using xyz by (auto simp: b)
  qed (use g(1) b in auto)
qed

lemma selectBest_in:
  assumes "sort_ok srt" and "ps \<noteq> []"
  obtains p where "selectBest srt V ps = Some p" and "p \<in> set ps"
proof -
  have "mset (srt (better V) ps) = mset ps" using assms(1) by (simp add: sort_ok_def)
  then have e: "set (srt (better V) ps) = set ps" by (rule mset_eq_setD)
  then have "srt (better V) ps \<noteq> []" using assms(2) by auto
  then have "hd (srt (better V) ps) \<in> set ps" using e by (metis hd_in_set)
  then show thesis using assms(2) by (intro that [of "hd (srt (better V) ps)"]) (simp_all add: selectBest_def)
qed

lemma selectBest_best:
  assumes "sort_ok srt" and "strict_weak (better V) (set ps)" and "selectBest srt V ps = Some p" and "q \<in> set ps"
  shows "\<not> better V q p"
proof -
  have so: "mset (srt (better V) ps) = mset ps" "sorted_wrt (\<lambda>x y. \<not> better V y x) (srt (better V) ps)"
    using assms(1,2) by (auto simp: sort_ok_def)
  then obtain ys where ys: "srt (better V) ps = p # ys"
    using assms(3) by (cases "srt (better V) ps") (auto simp: selectBest_def split: if_splits)
  have "q = p \<or> q \<in> set ys" using assms(4) so(1) ys by (metis mset_eq_setD set_ConsD)
  moreover have "p \<in> set ps" using so(1) ys by (metis list.set_intros(1) mset_eq_setD)
  ultimately show ?thesis using so(2) ys assms(2) by (auto simp: strict_weak_def)
qed

text \<open>The candidates that remain after all filters are the admissible providers.\<close>

definition candidates ::
  "'v semver \<Rightarrow> string \<times> string \<Rightarrow> RegistrySnapshot \<Rightarrow> CapabilityRequest \<Rightarrow> Capability \<Rightarrow> Provider list" where
  "candidates V host s req c =
     filter (\<lambda>p. rq_VersionRange req = [] \<or> providerSupportsCapabilityVersion V p (rq_CapabilityID req) (cap_Version c))
       (applyFilters host (providers_of (snap_Providers s) (rq_CapabilityID req)) (rq_Constraints req))"

lemma set_candidates: "set (candidates V host s req c) = {p. admissible V host s req c p}"
  by (auto simp: candidates_def applyFilters_def set_providers_of admissible_def)

lemma Resolve_cases:
  assumes "LoadSnapshot (Some s) r0 = (e, r)" and "capability_of (snap_Capabilities s) (rq_CapabilityID req) = Some c"
  shows "(if version_in_range V req c \<and> candidates V host s req c \<noteq> []
          then Resolve srt V host r req = Inr (selectBest srt V (candidates V host s req c), c)
          else isl (Resolve srt V host r req))"
proof -
  let ?ps = "providers_of (snap_Providers s) (rq_CapabilityID req)"
  have get: "GetCapability (rq_CapabilityID req) r = Inr c"
    using loaded(2) [OF assms(1)] assms(2) by (simp add: GetCapability_def)
  have fnd: "FindProviders (rq_CapabilityID req) r = (if ?ps = [] then Inl (CapErrorf (''no providers found for capability: '' @ rq_CapabilityID req)) else Inr ?ps)"
    using FindProviders_loaded [OF assms(1)] assms(2) by simp
  have nil: "applyFilters host ?ps (rq_Constraints req) = [] \<Longrightarrow> candidates V host s req c = []" "?ps = [] \<Longrightarrow> applyFilters host ?ps (rq_Constraints req) = []"
    by (simp_all add: candidates_def applyFilters_def)
  show ?thesis
  proof (cases "?ps = [] \<or> applyFilters host ?ps (rq_Constraints req) = []")
    case True
    with nil get fnd show ?thesis by (auto simp: Resolve_def Let_def)
  next
    case False
    with get fnd show ?thesis
      by (cases "rq_VersionRange req = []"; cases "sem_Version V (cap_Version c)"; cases "sem_Constraint V (rq_VersionRange req)")
         (auto simp: Resolve_def Let_def candidates_def version_in_range_def)
  qed
qed

subsection \<open>Lemmas: looking up by ID\<close>

lemma find_later_version:
  assumes "fold (later_version i) ps b = r" and "\<And>q. b = Some q \<Longrightarrow> prov_ID q = i"
  shows "case r of None \<Rightarrow> b = None \<and> (\<forall>p\<in>set ps. prov_ID p \<noteq> i)
     | Some p \<Rightarrow> (p \<in> set ps \<or> b = Some p) \<and> prov_ID p = i \<and> (\<forall>q\<in>set ps \<union> set_option b. prov_ID q = i \<longrightarrow> prov_Version q \<le> prov_Version p)"
  using assms
proof (induction ps arbitrary: b)
  case Nil
  then show ?case by (auto split: option.split)
next
  case (Cons p ps)
  have b: "\<And>q. later_version i p b = Some q \<Longrightarrow> prov_ID q = i"
    using Cons.prems(2) by (auto simp: later_version_def split: if_splits option.splits)
  have "fold (later_version i) ps (later_version i p b) = r" using Cons.prems(1) by simp
  from Cons.IH [OF this b] show ?case
    using Cons.prems(2) by (fastforce simp: later_version_def split: option.splits if_splits)
qed

lemma providerKey_inject:
  assumes "CHR '':'' \<notin> set i" and "CHR '':'' \<notin> set j"
  shows "providerKey i v = providerKey j w \<longleftrightarrow> i = j \<and> v = w"
proof
  assume e: "providerKey i v = providerKey j w"
  have "takeWhile (\<lambda>c. c \<noteq> CHR '':'') (providerKey i v) = i" "takeWhile (\<lambda>c. c \<noteq> CHR '':'') (providerKey j w) = j"
    using assms unfolding providerKey_def by (subst takeWhile_append2, auto)+
  with e have "i = j" by simp
  with e show "i = j \<and> v = w" by (simp add: providerKey_def)
qed simp

text \<open>The values of the index by ID, when no ID has a colon.\<close>

lemma indexed_providers:
  assumes "LoadSnapshot (Some s) r0 = (e, r)"
  shows "set (map snd (reg_providersById r)) \<subseteq> set (snap_Providers s)"
    and "(\<And>p. p \<in> set (snap_Providers s) \<Longrightarrow> CHR '':'' \<notin> set (prov_ID p)) \<Longrightarrow> p \<in> set (snap_Providers s) \<Longrightarrow>
      \<exists>q\<in>set (map snd (reg_providersById r)). prov_ID q = prov_ID p \<and> prov_Version q = prov_Version p"
proof -
  let ?k = "\<lambda>p. providerKey (prov_ID p) (prov_Version p)"
  have look: "map_of (reg_providersById r) k = find (\<lambda>p. ?k p = k) (rev (snap_Providers s))" for k
    unfolding loaded(5) [OF assms] by (simp add: fold_update_find split: option.split)
  have mem: "x \<in> set xs" "P x" if "find P (rev xs) = Some x" for P and xs :: "Provider list" and x
    using that unfolding find_Some_iff by (metis length_rev nth_mem set_rev)+
  have "distinct (map fst (reg_providersById r))"
    unfolding loaded(5) [OF assms] by (rule fold_invariant [where Q = "\<lambda>_. True"]) (simp_all add: distinct_update)
  then have val: "x \<in> set (map snd (reg_providersById r)) \<longleftrightarrow> (\<exists>k. map_of (reg_providersById r) k = Some x)" for x
    by (force simp: gm_lookup_iff)
  show "set (map snd (reg_providersById r)) \<subseteq> set (snap_Providers s)"
    unfolding subset_iff val look using mem(1) by blast
  show "\<exists>q\<in>set (map snd (reg_providersById r)). prov_ID q = prov_ID p \<and> prov_Version q = prov_Version p"
    if nc: "\<And>p. p \<in> set (snap_Providers s) \<Longrightarrow> CHR '':'' \<notin> set (prov_ID p)" and p: "p \<in> set (snap_Providers s)"
  proof -
    obtain q where q: "find (\<lambda>x. ?k x = ?k p) (rev (snap_Providers s)) = Some q"
      using p by (cases "find (\<lambda>x. ?k x = ?k p) (rev (snap_Providers s))") (auto simp: find_None_iff)
    have "?k q = ?k p" "q \<in> set (snap_Providers s)" using mem [OF q] by auto
    with nc p have "prov_ID q = prov_ID p \<and> prov_Version q = prov_Version p" by (metis providerKey_inject)
    moreover have "q \<in> set (map snd (reg_providersById r))" unfolding val look using q by blast
    ultimately show ?thesis by blast
  qed
qed

subsection \<open>Concrete parameters, for the witnesses\<close>

fun insert_by :: "('a \<Rightarrow> 'a \<Rightarrow> bool) \<Rightarrow> 'a \<Rightarrow> 'a list \<Rightarrow> 'a list" where
  "insert_by lt x [] = [x]"
| "insert_by lt x (y # ys) = (if lt y x then y # insert_by lt x ys else x # y # ys)"

definition insertion :: "'a sorter" where
  "insertion lt xs = foldr (insert_by lt) xs []"

lemma mset_insert_by [simp]: "mset (insert_by lt x ys) = add_mset x (mset ys)"
  by (induction ys) auto

lemma mset_insertion [simp]: "mset (insertion lt xs) = mset xs"
  by (induction xs) (simp_all add: insertion_def)

lemma sorted_insert_by:
  assumes "strict_weak lt A" and "x \<in> A" and "set ys \<subseteq> A" and "sorted_wrt (\<lambda>x y. \<not> lt y x) ys"
  shows "sorted_wrt (\<lambda>x y. \<not> lt y x) (insert_by lt x ys)"
  using assms(3,4)
proof (induction ys)
  case (Cons y ys)
  have s: "set (insert_by lt x ys) = insert x (set ys)" by (metis mset_insert_by set_mset_add_mset_insert set_mset_mset)
  have irr: "\<not> lt a a" and tr: "lt a b \<Longrightarrow> lt b c \<Longrightarrow> lt a c" and ntr: "\<not> lt a b \<Longrightarrow> \<not> lt b c \<Longrightarrow> \<not> lt a c"
    if "a \<in> A" "b \<in> A" "c \<in> A" for a b c
    using assms(1) that unfolding strict_weak_def by blast+
  show ?case
  proof (cases "lt y x")
    case True
    have "\<not> lt x y" using True irr [of x x x] tr [of x y x] assms(2) Cons.prems(1) by auto
    with True Cons s show ?thesis by auto
  next
    case False
    have "\<not> lt z x" if "z \<in> set ys" for z
      using False that ntr [of z y x] Cons.prems assms(2) by auto
    with False Cons show ?thesis by auto
  qed
qed simp

lemma insertion_ok [simp]: "sort_ok insertion"
proof -
  have "sorted_wrt (\<lambda>x y. \<not> lt y x) (insertion lt ys)" if "strict_weak lt (set xs)" "set ys \<subseteq> set xs" for lt and xs ys :: "'a list"
    using that(2)
  proof (induction ys)
    case (Cons y ys)
    have "set (insertion lt ys) = set ys" by (metis mset_insertion set_mset_mset)
    with Cons sorted_insert_by [OF that(1), of y "insertion lt ys"] show ?case by (simp add: insertion_def)
  qed (simp add: insertion_def)
  then show ?thesis by (auto simp: sort_ok_def)
qed

definition demo_semver :: "nat semver" where
  "demo_semver = \<lparr>sem_Version = (\<lambda>s. if json_digits s then Some (nat_of_digits s) else None),
     sem_Constraint = (\<lambda>s. Some (\<lambda>v. True)), sem_GreaterThan = (\<lambda>a b. a > b)\<rparr>"

lemma demo_semver_ok [simp]: "semver_ok demo_semver"
  by (auto simp: semver_ok_def strict_weak_def demo_semver_def)

definition demo_provider :: "string \<Rightarrow> string \<Rightarrow> TrustTier \<Rightarrow> Provider" where
  "demo_provider i v t = \<lparr>prov_ID = i, prov_Version = v, prov_TrustTier = t,
     prov_Capabilities = [\<lparr>cr_ID = ''fs'', cr_VersionRange = ''*''\<rparr>],
     prov_Artifact = \<lparr>art_Type = ArtifactBinary, art_URI = [], art_Digest = [], art_Checksums = None, art_SupportedPlatforms = []\<rparr>,
     prov_Runtime = \<lparr>rr_LaunchMode = LaunchModeDaemon, rr_HealthEndpoint = [], rr_Port = 0, rr_Args = [], rr_Env = []\<rparr>\<rparr>"

definition demo_snapshot :: RegistrySnapshot where
  "demo_snapshot = \<lparr>snap_Version = ''1'', snap_Capabilities = [\<lparr>cap_ID = ''fs'', cap_Version = ''1''\<rparr>],
     snap_Providers = [demo_provider ''a'' ''9'' TrustCertified, demo_provider ''a'' ''10'' TrustCertified, demo_provider ''b'' ''99'' TrustLocal]\<rparr>"

definition demo_request :: CapabilityRequest where
  "demo_request = \<lparr>rq_CapabilityID = ''fs'', rq_VersionRange = ''1'', rq_Constraints = \<lparr>rc_TrustTier = ''certified+'', rc_RiskClass = ''low_only'', rc_Platform = [], rc_Architecture = []\<rparr>\<rparr>"

lemma demo_loaded:
  "LoadSnapshot (Some demo_snapshot) NewRegistry = (None, snd (LoadSnapshot (Some demo_snapshot) NewRegistry))"
  by (simp add: LoadSnapshot_def Let_def)

lemma demo_capability: "capability_of (snap_Capabilities demo_snapshot) ''fs'' = Some \<lparr>cap_ID = ''fs'', cap_Version = ''1''\<rparr>"
  by (simp add: capability_of_def demo_snapshot_def)

lemma demo_admissible:
  "admissible demo_semver (''linux'', ''amd64'') demo_snapshot demo_request \<lparr>cap_ID = ''fs'', cap_Version = ''1''\<rparr> p \<longleftrightarrow>
     p \<in> {demo_provider ''a'' ''9'' TrustCertified, demo_provider ''a'' ''10'' TrustCertified}"
  by (auto simp: admissible_def demo_snapshot_def demo_request_def demo_provider_def matchesTrustTier_def platformSupported_def
      providerSupportsCapabilityVersion_def demo_semver_def json_digits_def is_digit_def)

subsection \<open>Properties\<close>



text \<open>
  \<open>Resolve\<close> over a loaded snapshot fails exactly when the capability is unknown, the requested
  range does not parse or does not hold its version, or no provider is admissible.
\<close>

theorem resolve_fails_iff:
  assumes "LoadSnapshot (Some s) r0 = (e, r)"
  shows "isl (Resolve srt V host r req) \<longleftrightarrow>
     (case capability_of (snap_Capabilities s) (rq_CapabilityID req) of
        None \<Rightarrow> True
      | Some c \<Rightarrow> \<not> version_in_range V req c \<or> (\<forall>p. \<not> admissible V host s req c p))"
proof (cases "capability_of (snap_Capabilities s) (rq_CapabilityID req)")
  case None
  then have "isl (Resolve srt V host r req)" using loaded(2) [OF assms] by (simp add: Resolve_def GetCapability_def)
  with None show ?thesis by simp
next
  case (Some c)
  have "candidates V host s req c = [] \<longleftrightarrow> (\<forall>p. \<not> admissible V host s req c p)"
    using set_candidates [of V host s req c] by (metis (mono_tags, lifting) empty_Collect_eq set_empty)
  with Some Resolve_cases [OF assms Some, of V host srt] show ?thesis by (auto split: if_splits)
qed

theorem resolve_fails_iff_witness:
  "isl (Resolve insertion demo_semver (''linux'', ''amd64'') (snd (LoadSnapshot (Some demo_snapshot) NewRegistry))
     (demo_request\<lparr>rq_CapabilityID := ''gpu''\<rparr>))"
proof -
  have "capability_of (snap_Capabilities demo_snapshot) ''gpu'' = None" by (simp add: capability_of_def demo_snapshot_def)
  with resolve_fails_iff [OF demo_loaded, of insertion demo_semver "(''linux'', ''amd64'')" "demo_request\<lparr>rq_CapabilityID := ''gpu''\<rparr>"]
  show ?thesis by simp
qed

text \<open>The constraint on the risk class is never looked at.\<close>

lemma risk_class_ignored:
  "Resolve srt V host r (req\<lparr>rq_Constraints := c\<lparr>rc_RiskClass := x\<rparr>\<rparr>) = Resolve srt V host r (req\<lparr>rq_Constraints := c\<rparr>)"
proof -
  have "applyFilters host ps (c\<lparr>rc_RiskClass := x\<rparr>) = applyFilters host ps c" for ps
    by (simp add: applyFilters_def platformSupported_def)
  then show ?thesis by (simp add: Resolve_def Let_def split: sum.split option.split)
qed

text \<open>
  \<open>FindProviderByID\<close> returns, for every order of the map, a provider with that ID whose version
  is the greatest as a string. That is not the latest version: of 9 and 10 it takes 9.
\<close>

theorem find_by_id_takes_greatest_string:
  assumes "LoadSnapshot (Some s) r0 = (e, r)" and "range_order rng" and "\<And>p. p \<in> set (snap_Providers s) \<Longrightarrow> CHR '':'' \<notin> set (prov_ID p)"
  shows "case FindProviderByID rng i r of
       Inl _ \<Rightarrow> \<forall>p\<in>set (snap_Providers s). prov_ID p \<noteq> i
     | Inr p \<Rightarrow> p \<in> set (snap_Providers s) \<and> prov_ID p = i \<and> (\<forall>q\<in>set (snap_Providers s). prov_ID q = i \<longrightarrow> prov_Version q \<le> prov_Version p)"
proof -
  let ?vs = "rng 0 (map snd (reg_providersById r))"
  have vs: "set ?vs = set (map snd (reg_providersById r))" by (rule range_set [OF assms(2)])
  note ix = indexed_providers [OF assms(1)]
  show ?thesis
  proof (cases "fold (later_version i) ?vs None")
    case None
    with find_later_version [OF None] ix(2) [OF assms(3)] vs show ?thesis by (fastforce simp: FindProviderByID_def)
  next
    case (Some p)
    with find_later_version [OF Some] have p: "p \<in> set ?vs" "prov_ID p = i" "\<forall>q\<in>set ?vs. prov_ID q = i \<longrightarrow> prov_Version q \<le> prov_Version p"
      by simp_all
    have "prov_Version q \<le> prov_Version p" if "q \<in> set (snap_Providers s)" "prov_ID q = i" for q
      using ix(2) [OF assms(3) that(1)] p(3) vs that(2) by fastforce
    with Some p ix(1) vs show ?thesis by (auto simp: FindProviderByID_def)
  qed
qed

theorem find_by_id_takes_greatest_string_witness:
  "FindProviderByID (\<lambda>n xs. xs) ''a'' (snd (LoadSnapshot (Some demo_snapshot) NewRegistry)) = Inr (demo_provider ''a'' ''9'' TrustCertified)"
proof -
  have o: "range_order (\<lambda>n xs. xs)" by (simp add: range_order_def)
  have "CHR '':'' \<notin> set (prov_ID p)" if "p \<in> set (snap_Providers demo_snapshot)" for p
    using that by (auto simp: demo_snapshot_def demo_provider_def)
  from find_by_id_takes_greatest_string [OF demo_loaded o this, of "''a''"] show ?thesis
    by (auto simp: demo_snapshot_def demo_provider_def less_char_def less_eq_char_def split: sum.splits)
qed

end
