(* ===== verification/Cap_Supervisor.thy ===== *)
theory Cap_Supervisor
  imports Cap_Registry Go_Json
begin

text \<open>
  The supervisor of provider processes, \<open>internal/capability/supervisor.go\<close>. Every call of
  \<open>Start\<close> makes a \<open>supervisedProcess\<close> object and a goroutine running \<open>superviseProcess\<close>; both
  live in lists, at the same index, and the map of the supervisor holds indexes. A step of
  \<open>superviseProcess\<close> goes from one blocking point to the next, \<open>Stop\<close> is two steps around its
  sleep, and steps of goroutines, callers and the operating system interleave in any order.
\<close>

declare map_of_eq_Some_iff [simp del]

subsection \<open>Data\<close>

datatype ProcessState = ProcessStateStarting | ProcessStateRunning | ProcessStateStopping | ProcessStateStopped
  | ProcessStateCrashed | ProcessStateFailed | ProcessStateRestarting

record ProcessInfo =
  pi_ProviderID :: string
  pi_Version :: string
  pi_State :: ProcessState
  pi_PID :: nat
  pi_StartTime :: int
  pi_Uptime :: int
  pi_RestartCount :: int
  pi_LastRestartTime :: int
  pi_LastHealthCheck :: int
  pi_HealthEndpoint :: string
  pi_Healthy :: bool
  pi_Command :: string
  pi_Args :: "string list"
  pi_Env :: "(string, string) gomap"
  pi_LogFile :: string
  pi_Error :: string

record RestartPolicy =
  rp_Enabled :: bool
  rp_MaxRestarts :: int
  rp_Backoff :: int
  rp_MaxBackoff :: int

text \<open>Durations are in nanoseconds.\<close>

definition DefaultRestartPolicy :: RestartPolicy where
  "DefaultRestartPolicy = \<lparr>rp_Enabled = True, rp_MaxRestarts = 10, rp_Backoff = 1000000000, rp_MaxBackoff = 60000000000\<rparr>"

text \<open>An \<open>exec.Cmd\<close>; \<open>cmd_Process\<close> is set by a successful start.\<close>

record Cmd =
  cmd_Path :: string
  cmd_Args :: "string list"
  cmd_Env :: "string list"
  cmd_Logged :: bool
  cmd_Process :: "nat option"

text \<open>The ticker is nil, running (\<open>Some True\<close>) or stopped (\<open>Some False\<close>).\<close>

record supervisedProcess =
  sp_info :: ProcessInfo
  sp_cmd :: "Cmd option"
  sp_cancel :: bool
  sp_healthTicker :: "bool option"
  sp_restartPolicy :: RestartPolicy

text \<open>
  Where the goroutine stands: not yet scheduled, at the head of the loop, before \<open>cmd.Start\<close>, in
  \<open>cmd.Wait\<close>, in \<open>time.Sleep\<close>, returned. \<open>gr_cancelled\<close> is its own context, \<open>gr_loops\<close> the number of
  its health check loops.
\<close>

datatype pc = GInit | GLoop | GStart | GWait | GSleep | GDone

record goroutine =
  gr_pc :: pc
  gr_backoff :: int
  gr_cancelled :: bool
  gr_loops :: nat

text \<open>
  \<open>ps_live\<close> are the processes of the operating system started here that have not ended, and
  \<open>ps_started\<close> records every start with the object it was made for. A number stands for one
  \<open>os.Process\<close>, which never refers to a second process, so numbers are not used twice.
\<close>

record ProcessSupervisor =
  ps_processes :: "(string, nat) gomap"
  ps_procs :: "supervisedProcess list"
  ps_gors :: "goroutine list"
  ps_cancelled :: bool
  ps_live :: "nat list"
  ps_started :: "(nat \<times> nat) list"
  ps_logDir :: string

definition NewProcessSupervisor :: "string \<Rightarrow> ProcessSupervisor" where
  "NewProcessSupervisor logDir = \<lparr>ps_processes = [], ps_procs = [], ps_gors = [], ps_cancelled = False, ps_live = [], ps_started = [], ps_logDir = logDir\<rparr>"

definition proc_key :: "string \<Rightarrow> string \<Rightarrow> string" where
  "proc_key providerID version = providerID @ ''-'' @ version"

definition ctx_done :: "nat \<Rightarrow> ProcessSupervisor \<Rightarrow> bool" where
  "ctx_done i s = (ps_cancelled s \<or> gr_cancelled (ps_gors s ! i))"

definition set_info :: "nat \<Rightarrow> (ProcessInfo \<Rightarrow> ProcessInfo) \<Rightarrow> ProcessSupervisor \<Rightarrow> ProcessSupervisor" where
  "set_info i f s = s\<lparr>ps_procs := (ps_procs s)[i := (ps_procs s ! i)\<lparr>sp_info := f (sp_info (ps_procs s ! i))\<rparr>]\<rparr>"

definition set_proc :: "nat \<Rightarrow> (supervisedProcess \<Rightarrow> supervisedProcess) \<Rightarrow> ProcessSupervisor \<Rightarrow> ProcessSupervisor" where
  "set_proc i f s = s\<lparr>ps_procs := (ps_procs s)[i := f (ps_procs s ! i)]\<rparr>"

definition set_gor :: "nat \<Rightarrow> (goroutine \<Rightarrow> goroutine) \<Rightarrow> ProcessSupervisor \<Rightarrow> ProcessSupervisor" where
  "set_gor i f s = s\<lparr>ps_gors := (ps_gors s)[i := f (ps_gors s ! i)]\<rparr>"

subsection \<open>Start, Stop, GetStatus, List\<close>

record start_args =
  sa_ProviderID :: string
  sa_Version :: string
  sa_binaryPath :: string
  sa_args :: "string list"
  sa_env :: "(string, string) gomap"
  sa_healthEndpoint :: string
  sa_policy :: RestartPolicy

definition new_process :: "int \<Rightarrow> start_args \<Rightarrow> ProcessSupervisor \<Rightarrow> supervisedProcess" where
  "new_process now a s =
     \<lparr>sp_info = \<lparr>pi_ProviderID = sa_ProviderID a, pi_Version = sa_Version a, pi_State = ProcessStateStarting, pi_PID = 0,
        pi_StartTime = now, pi_Uptime = 0, pi_RestartCount = 0, pi_LastRestartTime = 0, pi_LastHealthCheck = 0,
        pi_HealthEndpoint = sa_healthEndpoint a, pi_Healthy = False, pi_Command = sa_binaryPath a, pi_Args = sa_args a,
        pi_Env = sa_env a, pi_LogFile = path_Join [ps_logDir s, proc_key (sa_ProviderID a) (sa_Version a) @ ''.log''], pi_Error = []\<rparr>,
      sp_cmd = None, sp_cancel = False, sp_healthTicker = None, sp_restartPolicy = sa_policy a\<rparr>"

definition new_goroutine :: goroutine where
  "new_goroutine = \<lparr>gr_pc = GInit, gr_backoff = 0, gr_cancelled = False, gr_loops = 0\<rparr>"

definition state_of :: "string \<Rightarrow> ProcessSupervisor \<Rightarrow> ProcessState option" where
  "state_of key s = map_option (\<lambda>i. pi_State (sp_info (ps_procs s ! i))) (map_of (ps_processes s) key)"

text \<open>\<open>mkdir\<close> is the answer of \<open>os.MkdirAll\<close>.\<close>

definition sv_Start :: "int \<Rightarrow> string option \<Rightarrow> start_args \<Rightarrow> ProcessSupervisor \<Rightarrow> cap_err option \<times> ProcessSupervisor" where
  "sv_Start now mkdir a s =
     (let key = proc_key (sa_ProviderID a) (sa_Version a) in
      if state_of key s = Some ProcessStateRunning then (Some (CapErrorf (''process '' @ key @ '' is already running'')), s)
      else (case mkdir of
              Some e \<Rightarrow> (Some (CapWrapf ''failed to create log directory'' (CapErrorf e)), s)
            | None \<Rightarrow> (None, s\<lparr>ps_processes := AList.update key (length (ps_procs s)) (ps_processes s),
                             ps_procs := ps_procs s @ [new_process now a s], ps_gors := ps_gors s @ [new_goroutine]\<rparr>)))"

text \<open>
  \<open>Stop\<close> up to its sleep and after it; the index is the object the first part found. \<open>SIGTERM\<close> may
  end the process, which is a step of the operating system.
\<close>

definition sv_Stop1 :: "string \<Rightarrow> string \<Rightarrow> ProcessSupervisor \<Rightarrow> (cap_err, nat) result \<times> ProcessSupervisor" where
  "sv_Stop1 providerID version s =
     (let key = proc_key providerID version in
      case map_of (ps_processes s) key of
        None \<Rightarrow> (Inl (CapErrorf (''process '' @ key @ '' not found'')), s)
      | Some i \<Rightarrow>
          (let s1 = set_info i (\<lambda>d. d\<lparr>pi_State := ProcessStateStopping\<rparr>) s;
               s2 = set_proc i (\<lambda>p. p\<lparr>sp_healthTicker := map_option (\<lambda>_. False) (sp_healthTicker p)\<rparr>) s1;
               s3 = (if sp_cancel (ps_procs s2 ! i) then set_gor i (\<lambda>g. g\<lparr>gr_cancelled := True\<rparr>) s2 else s2)
           in (Inr i, s3)))"

definition cmd_pid :: "nat \<Rightarrow> ProcessSupervisor \<Rightarrow> nat option" where
  "cmd_pid i s = Option.bind (sp_cmd (ps_procs s ! i)) cmd_Process"

definition kill :: "nat option \<Rightarrow> ProcessSupervisor \<Rightarrow> ProcessSupervisor" where
  "kill p s = (case p of None \<Rightarrow> s | Some pid \<Rightarrow> s\<lparr>ps_live := removeAll pid (ps_live s)\<rparr>)"

definition sv_Stop2 :: "nat \<Rightarrow> ProcessSupervisor \<Rightarrow> ProcessSupervisor" where
  "sv_Stop2 i s = set_info i (\<lambda>d. d\<lparr>pi_State := ProcessStateStopped\<rparr>) (kill (cmd_pid i s) s)"

definition update_uptime :: "int \<Rightarrow> ProcessInfo \<Rightarrow> ProcessInfo" where
  "update_uptime now d = (if pi_State d = ProcessStateRunning then d\<lparr>pi_Uptime := now - pi_StartTime d\<rparr> else d)"

definition sv_GetStatus :: "int \<Rightarrow> string \<Rightarrow> string \<Rightarrow> ProcessSupervisor \<Rightarrow> (cap_err, ProcessInfo) result \<times> ProcessSupervisor" where
  "sv_GetStatus now providerID version s =
     (let key = proc_key providerID version in
      case map_of (ps_processes s) key of
        None \<Rightarrow> (Inl (CapErrorf (''process '' @ key @ '' not found'')), s)
      | Some i \<Rightarrow> (let s' = set_info i (update_uptime now) s in (Inr (sp_info (ps_procs s' ! i)), s')))"

definition list_one :: "int \<Rightarrow> nat \<Rightarrow> ProcessInfo list \<times> ProcessSupervisor \<Rightarrow> ProcessInfo list \<times> ProcessSupervisor" where
  "list_one now i = (\<lambda>(result, s). let s' = set_info i (update_uptime now) s in (result @ [sp_info (ps_procs s' ! i)], s'))"

definition sv_List :: "nat range \<Rightarrow> int \<Rightarrow> ProcessSupervisor \<Rightarrow> ProcessInfo list \<times> ProcessSupervisor" where
  "sv_List rng now s = fold (list_one now) (rng 0 (map snd (ps_processes s))) ([], s)"

subsection \<open>Shutdown\<close>

fun split_last :: "string \<Rightarrow> string \<Rightarrow> string list" where
  "split_last [] acc = [acc]"
| "split_last (c # revkey) acc = (if c = CHR ''-'' then [rev revkey, acc] else split_last revkey (c # acc))"

definition splitKey :: "string \<Rightarrow> string list" where
  "splitKey key = split_last (rev key) []"

text \<open>
  \<open>Shutdown\<close> cancels the context, then calls \<open>Stop\<close> for the keys it collected, one after the other,
  then waits for all goroutines.
\<close>

definition shutdown_targets :: "string range \<Rightarrow> ProcessSupervisor \<Rightarrow> (string \<times> string) list" where
  "shutdown_targets rng s =
     concat (map (\<lambda>key. case splitKey key of [a, b] \<Rightarrow> [(a, b)] | _ \<Rightarrow> []) (rng 0 (map fst (ps_processes s))))"

definition sv_cancel :: "ProcessSupervisor \<Rightarrow> ProcessSupervisor" where
  "sv_cancel s = s\<lparr>ps_cancelled := True\<rparr>"

definition wait_returns :: "ProcessSupervisor \<Rightarrow> bool" where
  "wait_returns s = list_all (\<lambda>g. gr_pc g = GDone) (ps_gors s)"

subsection \<open>superviseProcess\<close>

text \<open>A return runs the deferred \<open>cancel\<close>.\<close>

definition sp_return :: "nat \<Rightarrow> ProcessSupervisor \<Rightarrow> ProcessSupervisor" where
  "sp_return i = set_gor i (\<lambda>g. g\<lparr>gr_pc := GDone, gr_cancelled := True\<rparr>)"

definition sp_goto :: "pc \<Rightarrow> nat \<Rightarrow> ProcessSupervisor \<Rightarrow> ProcessSupervisor" where
  "sp_goto l i = set_gor i (\<lambda>g. g\<lparr>gr_pc := l\<rparr>)"

definition sp_begin :: "nat \<Rightarrow> ProcessSupervisor \<Rightarrow> ProcessSupervisor" where
  "sp_begin i s =
     sp_goto GLoop i (set_gor i (\<lambda>g. g\<lparr>gr_backoff := rp_Backoff (sp_restartPolicy (ps_procs s ! i))\<rparr>)
       (set_proc i (\<lambda>p. p\<lparr>sp_cancel := True\<rparr>) s))"

text \<open>\<open>environ\<close> is the environment of the agent, \<open>logged\<close> whether the log file could be opened.\<close>

definition command_env :: "string list \<Rightarrow> (string, string) gomap \<Rightarrow> string list" where
  "command_env environ env = (if env = [] then [] else environ @ map (\<lambda>(k, v). k @ ''='' @ v) env)"

definition sp_head :: "string list \<Rightarrow> int \<Rightarrow> bool \<Rightarrow> nat \<Rightarrow> ProcessSupervisor \<Rightarrow> ProcessSupervisor" where
  "sp_head environ now logged i s =
     (let p = ps_procs s ! i; policy = sp_restartPolicy p; info = sp_info p in
      if ctx_done i s then sp_return i s
      else if rp_MaxRestarts policy > 0 \<and> pi_RestartCount info \<ge> rp_MaxRestarts policy
      then sp_return i (set_info i (\<lambda>d. d\<lparr>pi_State := ProcessStateFailed,
             pi_Error := ''exceeded maximum restarts ('' @ show_int (rp_MaxRestarts policy) @ '')''\<rparr>) s)
      else (let cmd = \<lparr>cmd_Path = pi_Command info, cmd_Args = pi_Args info, cmd_Env = command_env environ (pi_Env info),
                  cmd_Logged = logged, cmd_Process = None\<rparr>
            in sp_goto GStart i (set_info i (\<lambda>d. d\<lparr>pi_StartTime := now, pi_State := ProcessStateStarting\<rparr>)
                 (set_proc i (\<lambda>p. p\<lparr>sp_cmd := Some cmd\<rparr>) s))))"

text \<open>\<open>cmd.Start\<close> of a command whose context is done fails; otherwise it gives an error or a process.\<close>

definition start_cmd :: "bool \<Rightarrow> (string, nat) result \<Rightarrow> (string, nat) result" where
  "start_cmd cancelled outcome = (if cancelled then Inl ''context canceled'' else outcome)"

definition sp_start :: "(string, nat) result \<Rightarrow> nat \<Rightarrow> ProcessSupervisor \<Rightarrow> ProcessSupervisor" where
  "sp_start outcome i s =
     (let p = ps_procs s ! i in
      case start_cmd (ctx_done i s) outcome of
        Inl e \<Rightarrow>
          (let s1 = set_info i (\<lambda>d. d\<lparr>pi_State := ProcessStateCrashed, pi_Error := e\<rparr>) s in
           if \<not> rp_Enabled (sp_restartPolicy p) then sp_return i s1 else sp_goto GSleep i s1)
      | Inr pid \<Rightarrow>
          (let s1 = set_proc i (\<lambda>p. p\<lparr>sp_cmd := map_option (\<lambda>c. c\<lparr>cmd_Process := Some pid\<rparr>) (sp_cmd p)\<rparr>) s;
               s2 = set_info i (\<lambda>d. d\<lparr>pi_PID := pid, pi_State := ProcessStateRunning\<rparr>) (s1\<lparr>ps_live := pid # ps_live s1, ps_started := (pid, i) # ps_started s1\<rparr>);
               s3 = (if pi_HealthEndpoint (sp_info p) \<noteq> []
                     then set_gor i (\<lambda>g. g\<lparr>gr_loops := Suc (gr_loops g)\<rparr>) (set_proc i (\<lambda>p. p\<lparr>sp_healthTicker := Some True\<rparr>) s2)
                     else s2)
           in sp_goto GWait i s3))"

text \<open>\<open>err\<close> is the error of \<open>cmd.Wait\<close>.\<close>

definition sp_exited :: "string option \<Rightarrow> nat \<Rightarrow> ProcessSupervisor \<Rightarrow> ProcessSupervisor" where
  "sp_exited err i s =
     (let s1 = set_proc i (\<lambda>p. p\<lparr>sp_healthTicker := map_option (\<lambda>_. False) (sp_healthTicker p)\<rparr>) s in
      if ctx_done i s1 then sp_return i s1
      else (let s2 = set_info i (\<lambda>d. d\<lparr>pi_State := ProcessStateCrashed, pi_Error := (case err of None \<Rightarrow> pi_Error d | Some e \<Rightarrow> e)\<rparr>) s1
            in if \<not> rp_Enabled (sp_restartPolicy (ps_procs s ! i)) then sp_return i s2
               else sp_goto GSleep i (set_info i (\<lambda>d. d\<lparr>pi_State := ProcessStateRestarting\<rparr>) s2)))"

text \<open>\<open>float64(backoff) * 1.5\<close> is exact for durations below 2 to the 52 (52 days), and the conversion truncates.\<close>

definition next_backoff :: "RestartPolicy \<Rightarrow> int \<Rightarrow> int" where
  "next_backoff policy backoff = min (sgn backoff * (\<bar>backoff\<bar> * 3 div 2)) (rp_MaxBackoff policy)"

definition sp_wake :: "int \<Rightarrow> nat \<Rightarrow> ProcessSupervisor \<Rightarrow> ProcessSupervisor" where
  "sp_wake now i s =
     sp_goto GLoop i (set_gor i (\<lambda>g. g\<lparr>gr_backoff := next_backoff (sp_restartPolicy (ps_procs s ! i)) (gr_backoff g)\<rparr>)
       (set_info i (\<lambda>d. d\<lparr>pi_RestartCount := pi_RestartCount d + 1, pi_LastRestartTime := now\<rparr>) s))"

subsection \<open>healthCheckLoop\<close>

definition checkHealth :: "(string, int) result \<Rightarrow> bool" where
  "checkHealth response = (case response of Inl _ \<Rightarrow> False | Inr status \<Rightarrow> status = 200)"

definition hc_tick :: "int \<Rightarrow> (string, int) result \<Rightarrow> nat \<Rightarrow> ProcessSupervisor \<Rightarrow> ProcessSupervisor" where
  "hc_tick now response i = set_info i (\<lambda>d. d\<lparr>pi_Healthy := checkHealth response, pi_LastHealthCheck := now\<rparr>)"

definition hc_return :: "nat \<Rightarrow> ProcessSupervisor \<Rightarrow> ProcessSupervisor" where
  "hc_return i = set_gor i (\<lambda>g. g\<lparr>gr_loops := gr_loops g - 1\<rparr>)"

subsection \<open>Steps\<close>

text \<open>
  The last two groups are the operating system: a process ends, or is killed by \<open>exec\<close> because the
  context of its command is done.
\<close>

datatype event =
    EvStart int "string option" start_args
  | EvStop1 string string
  | EvStop2 nat
  | EvStatus int string string
  | EvCancel
  | EvBegin nat
  | EvHead "string list" int bool nat
  | EvSpawn "(string, nat) result" nat
  | EvExited "string option" nat
  | EvWake int nat
  | EvTick int "(string, int) result" nat
  | EvLoopEnds nat
  | EvOsExit nat
  | EvCtxKill nat

definition at_pc :: "pc \<Rightarrow> nat \<Rightarrow> ProcessSupervisor \<Rightarrow> bool" where
  "at_pc l i s = (i < length (ps_gors s) \<and> gr_pc (ps_gors s ! i) = l)"

definition process_ended :: "nat \<Rightarrow> ProcessSupervisor \<Rightarrow> bool" where
  "process_ended i s = (case cmd_pid i s of None \<Rightarrow> True | Some pid \<Rightarrow> pid \<notin> set (ps_live s))"

fun enabled :: "event \<Rightarrow> ProcessSupervisor \<Rightarrow> bool" where
  "enabled (EvStart now mkdir a) s = True"
| "enabled (EvStop1 p v) s = True"
| "enabled (EvStop2 i) s = (i < length (ps_procs s))"
| "enabled (EvStatus now p v) s = True"
| "enabled EvCancel s = True"
| "enabled (EvBegin i) s = at_pc GInit i s"
| "enabled (EvHead environ now logged i) s = at_pc GLoop i s"
| "enabled (EvSpawn outcome i) s = (at_pc GStart i s \<and> (case outcome of Inl _ \<Rightarrow> True | Inr pid \<Rightarrow> pid \<notin> fst ` set (ps_started s)))"
| "enabled (EvExited err i) s = (at_pc GWait i s \<and> process_ended i s)"
| "enabled (EvWake now i) s = at_pc GSleep i s"
| "enabled (EvTick now r i) s = (i < length (ps_gors s) \<and> gr_loops (ps_gors s ! i) > 0 \<and> sp_healthTicker (ps_procs s ! i) = Some True)"
| "enabled (EvLoopEnds i) s = (i < length (ps_gors s) \<and> gr_loops (ps_gors s ! i) > 0 \<and> ctx_done i s)"
| "enabled (EvOsExit pid) s = (pid \<in> set (ps_live s))"
| "enabled (EvCtxKill i) s = (at_pc GWait i s \<and> ctx_done i s)"

fun effect :: "event \<Rightarrow> ProcessSupervisor \<Rightarrow> ProcessSupervisor" where
  "effect (EvStart now mkdir a) s = snd (sv_Start now mkdir a s)"
| "effect (EvStop1 p v) s = snd (sv_Stop1 p v s)"
| "effect (EvStop2 i) s = sv_Stop2 i s"
| "effect (EvStatus now p v) s = snd (sv_GetStatus now p v s)"
| "effect EvCancel s = sv_cancel s"
| "effect (EvBegin i) s = sp_begin i s"
| "effect (EvHead environ now logged i) s = sp_head environ now logged i s"
| "effect (EvSpawn outcome i) s = sp_start outcome i s"
| "effect (EvExited err i) s = sp_exited err i s"
| "effect (EvWake now i) s = sp_wake now i s"
| "effect (EvTick now r i) s = hc_tick now r i s"
| "effect (EvLoopEnds i) s = hc_return i s"
| "effect (EvOsExit pid) s = kill (Some pid) s"
| "effect (EvCtxKill i) s = kill (cmd_pid i s) s"

fun run_events :: "event list \<Rightarrow> ProcessSupervisor \<Rightarrow> ProcessSupervisor option" where
  "run_events [] s = Some s"
| "run_events (e # es) s = (if enabled e s then run_events es (effect e s) else None)"

inductive reaches :: "ProcessSupervisor \<Rightarrow> ProcessSupervisor \<Rightarrow> bool" where
  reaches_refl: "reaches s s"
| reaches_step: "reaches s t \<Longrightarrow> enabled e t \<Longrightarrow> reaches s (effect e t)"

subsection \<open>Well-formed states\<close>

definition launches :: "nat \<Rightarrow> ProcessSupervisor \<Rightarrow> nat list" where
  "launches i s = map fst (filter (\<lambda>(pid, j). j = i) (ps_started s))"

definition count_ok :: "supervisedProcess \<Rightarrow> goroutine \<Rightarrow> bool" where
  "count_ok p g \<longleftrightarrow> 0 \<le> pi_RestartCount (sp_info p)
     \<and> (rp_MaxRestarts (sp_restartPolicy p) > 0 \<longrightarrow> pi_RestartCount (sp_info p) \<le> rp_MaxRestarts (sp_restartPolicy p)
        \<and> (gr_pc g \<in> {GStart, GWait, GSleep} \<longrightarrow> pi_RestartCount (sp_info p) < rp_MaxRestarts (sp_restartPolicy p)))"

definition pc_ok :: "supervisedProcess \<Rightarrow> goroutine \<Rightarrow> bool" where
  "pc_ok p g \<longleftrightarrow> (sp_cancel p \<longleftrightarrow> gr_pc g \<noteq> GInit) \<and> (gr_pc g = GInit \<longrightarrow> \<not> gr_cancelled g) \<and> (gr_pc g = GDone \<longrightarrow> gr_cancelled g)
     \<and> (gr_pc g = GStart \<longrightarrow> sp_cmd p \<noteq> None)
     \<and> (gr_pc g \<noteq> GInit \<longrightarrow> gr_backoff g \<le> max (rp_Backoff (sp_restartPolicy p)) (rp_MaxBackoff (sp_restartPolicy p)))"

text \<open>
  The process an object's command names is the last one started for it; only while the goroutine
  waits for it can it be alive. Starts are counted by the restart counter.
\<close>

definition live_ok :: "nat list \<Rightarrow> nat list \<Rightarrow> nat option \<Rightarrow> pc \<Rightarrow> bool" where
  "live_ok ls live c l \<longleftrightarrow>
     set ls \<inter> set live \<subseteq> (if l = GWait then set_option c else {}) \<and> set_option c \<subseteq> set ls"

definition launch_ok :: "nat list \<Rightarrow> nat list \<Rightarrow> supervisedProcess \<Rightarrow> goroutine \<Rightarrow> bool" where
  "launch_ok ls live p g \<longleftrightarrow> live_ok ls live (Option.bind (sp_cmd p) cmd_Process) (gr_pc g)
     \<and> (gr_pc g = GWait \<longrightarrow> Option.bind (sp_cmd p) cmd_Process \<noteq> None)
     \<and> int (length ls) \<le> pi_RestartCount (sp_info p) + (if gr_pc g \<in> {GWait, GSleep, GDone} then 1 else 0)
     \<and> (rp_MaxRestarts (sp_restartPolicy p) > 0 \<longrightarrow> int (length ls) \<le> rp_MaxRestarts (sp_restartPolicy p))"

definition loops_ok :: "nat list \<Rightarrow> bool \<Rightarrow> supervisedProcess \<Rightarrow> goroutine \<Rightarrow> bool" where
  "loops_ok ls cancelled p g \<longleftrightarrow>
     cancelled \<or> gr_cancelled g \<or> gr_loops g = (if pi_HealthEndpoint (sp_info p) = [] then 0 else length ls)"

definition obj_ok :: "nat \<Rightarrow> ProcessSupervisor \<Rightarrow> bool" where
  "obj_ok i s \<longleftrightarrow> count_ok (ps_procs s ! i) (ps_gors s ! i) \<and> pc_ok (ps_procs s ! i) (ps_gors s ! i)
     \<and> launch_ok (launches i s) (ps_live s) (ps_procs s ! i) (ps_gors s ! i)
     \<and> loops_ok (launches i s) (ps_cancelled s) (ps_procs s ! i) (ps_gors s ! i)"

definition keys_ok :: "ProcessSupervisor \<Rightarrow> bool" where
  "keys_ok s \<longleftrightarrow> distinct (map fst (ps_processes s))
     \<and> (\<forall>(k, i)\<in>set (ps_processes s). i < length (ps_procs s)
          \<and> k = proc_key (pi_ProviderID (sp_info (ps_procs s ! i))) (pi_Version (sp_info (ps_procs s ! i))))"

definition started_ok :: "ProcessSupervisor \<Rightarrow> bool" where
  "started_ok s \<longleftrightarrow> distinct (map fst (ps_started s)) \<and> set (ps_live s) \<subseteq> fst ` set (ps_started s)
     \<and> (\<forall>(pid, i)\<in>set (ps_started s). i < length (ps_procs s))"

definition sup_wf :: "ProcessSupervisor \<Rightarrow> bool" where
  "sup_wf s \<longleftrightarrow> length (ps_gors s) = length (ps_procs s) \<and> keys_ok s \<and> started_ok s \<and> (\<forall>i<length (ps_procs s). obj_ok i s)"

subsection \<open>Steps of one object\<close>

lemmas setters = set_info_def set_proc_def set_gor_def sp_goto_def sp_return_def

lemma live_idle: "live_ok ls live c l \<Longrightarrow> l \<noteq> GWait \<Longrightarrow> live_ok ls live c l' \<and> live_ok ls live None l'"
  by (auto simp: live_ok_def)

lemma live_ended: "live_ok ls live c GWait \<Longrightarrow> (case c of None \<Rightarrow> True | Some pid \<Rightarrow> pid \<notin> set live) \<Longrightarrow> live_ok ls live c l"
  by (auto simp: live_ok_def split: option.splits)

lemma live_subset: "live_ok ls live c l \<Longrightarrow> set live' \<subseteq> set live \<Longrightarrow> live_ok ls live' c l"
  by (auto simp: live_ok_def)

text \<open>A step that changes one object and keeps the maps, the starts and what identifies the object.\<close>

lemma wf_one_object:
  assumes "sup_wf s" and "i < length (ps_procs s)"
    and "ps_processes t = ps_processes s" "ps_started t = ps_started s" "ps_cancelled t = ps_cancelled s"
    and "set (ps_live t) \<subseteq> set (ps_live s)"
    and len: "length (ps_procs t) = length (ps_procs s)" "length (ps_gors t) = length (ps_gors s)"
    and same: "\<And>j. j \<noteq> i \<Longrightarrow> ps_procs t ! j = ps_procs s ! j" "\<And>j. j \<noteq> i \<Longrightarrow> ps_gors t ! j = ps_gors s ! j"
    and ids: "pi_ProviderID (sp_info (ps_procs t ! i)) = pi_ProviderID (sp_info (ps_procs s ! i))"
      "pi_Version (sp_info (ps_procs t ! i)) = pi_Version (sp_info (ps_procs s ! i))"
    and obj: "count_ok (ps_procs t ! i) (ps_gors t ! i)" "pc_ok (ps_procs t ! i) (ps_gors t ! i)"
      "launch_ok (launches i s) (ps_live t) (ps_procs t ! i) (ps_gors t ! i)" "loops_ok (launches i s) (ps_cancelled s) (ps_procs t ! i) (ps_gors t ! i)"
  shows "sup_wf t"
proof -
  have "pi_ProviderID (sp_info (ps_procs t ! j)) = pi_ProviderID (sp_info (ps_procs s ! j))"
    "pi_Version (sp_info (ps_procs t ! j)) = pi_Version (sp_info (ps_procs s ! j))" for j
    using ids same by (cases "j = i"; simp)+
  then have "keys_ok t" using assms(1,3) len by (simp add: sup_wf_def keys_ok_def)
  moreover have "started_ok t" using assms(1,4,6) len by (auto simp: sup_wf_def started_ok_def)
  moreover have "obj_ok j t" if "j < length (ps_procs t)" for j
  proof (cases "j = i")
    case True
    with assms(4,5) obj show ?thesis by (simp add: obj_ok_def launches_def)
  next
    case False
    have "obj_ok j s" using that assms(1) len by (simp add: sup_wf_def)
    with False assms(4,5,6) same show ?thesis by (auto simp: obj_ok_def launches_def launch_ok_def intro: live_subset)
  qed
  ultimately show ?thesis using assms(1) len by (simp add: sup_wf_def)
qed

lemma wf_nth:
  assumes "sup_wf s" and "i < length (ps_procs s)"
  shows "length (ps_gors s) = length (ps_procs s)" "count_ok (ps_procs s ! i) (ps_gors s ! i)" "pc_ok (ps_procs s ! i) (ps_gors s ! i)"
    "launch_ok (launches i s) (ps_live s) (ps_procs s ! i) (ps_gors s ! i)"
    "loops_ok (launches i s) (ps_cancelled s) (ps_procs s ! i) (ps_gors s ! i)"
  using assms by (auto simp: sup_wf_def obj_ok_def)

lemma wf_key:
  assumes "sup_wf s" and "map_of (ps_processes s) k = Some i"
  shows "i < length (ps_procs s)" "k = proc_key (pi_ProviderID (sp_info (ps_procs s ! i))) (pi_Version (sp_info (ps_procs s ! i)))"
  using assms by (fastforce simp: sup_wf_def keys_ok_def dest: map_of_SomeD)+

lemma wf_at:
  assumes "sup_wf s" and "at_pc l i s"
  shows "i < length (ps_procs s)" "i < length (ps_gors s)" "gr_pc (ps_gors s ! i) = l"
  using assms by (auto simp: at_pc_def sup_wf_def)

lemma wf_live_idle:
  assumes "sup_wf s" and "at_pc l i s" and "l \<noteq> GWait"
  shows "live_ok (launches i s) (ps_live s) (Option.bind (sp_cmd (ps_procs s ! i)) cmd_Process) l'" "live_ok (launches i s) (ps_live s) None l'"
  using wf_nth(4) [OF assms(1) wf_at(1) [OF assms(1,2)]] wf_at(3) [OF assms(1,2)] assms(3) by (auto simp: launch_ok_def dest: live_idle)

lemma wf_live_ended:
  assumes "sup_wf s" and "at_pc GWait i s" and "process_ended i s"
  shows "live_ok (launches i s) (ps_live s) (Option.bind (sp_cmd (ps_procs s ! i)) cmd_Process) l'"
  using wf_nth(4) [OF assms(1) wf_at(1) [OF assms(1,2)]] wf_at(3) [OF assms(1,2)] assms(3)
  by (auto simp: launch_ok_def process_ended_def cmd_pid_def intro: live_ended)

lemma wf_new [simp]: "sup_wf (NewProcessSupervisor d)"
  by (simp add: sup_wf_def NewProcessSupervisor_def keys_ok_def started_ok_def)

text \<open>The obligations of a step, by the facts about the object before it.\<close>

lemmas ok_defs = count_ok_def pc_ok_def launch_ok_def loops_ok_def

lemma wf_begin:
  assumes "sup_wf s" and "at_pc GInit i s"
  shows "sup_wf (sp_begin i s)"
  using wf_nth [OF assms(1) wf_at(1) [OF assms]] wf_at [OF assms]
  by (intro wf_one_object [OF assms(1) wf_at(1) [OF assms]]) (auto simp: sp_begin_def setters ok_defs wf_live_idle [OF assms])

lemma wf_head:
  assumes "sup_wf s" and "at_pc GLoop i s"
  shows "sup_wf (sp_head environ now logged i s)"
  using wf_nth [OF assms(1) wf_at(1) [OF assms]] wf_at [OF assms]
  by (intro wf_one_object [OF assms(1) wf_at(1) [OF assms]])
     (auto simp: sp_head_def setters ok_defs Let_def wf_live_idle [OF assms])

lemma wf_exited:
  assumes "sup_wf s" and "at_pc GWait i s" and "process_ended i s"
  shows "sup_wf (sp_exited err i s)"
  using wf_nth [OF assms(1) wf_at(1) [OF assms(1,2)]] wf_at [OF assms(1,2)] assms(3)
  by (intro wf_one_object [OF assms(1) wf_at(1) [OF assms(1,2)]])
     (auto simp: sp_exited_def setters ok_defs Let_def wf_live_ended [OF assms])

lemma wf_wake:
  assumes "sup_wf s" and "at_pc GSleep i s"
  shows "sup_wf (sp_wake now i s)"
  using wf_nth [OF assms(1) wf_at(1) [OF assms]] wf_at [OF assms]
  by (intro wf_one_object [OF assms(1) wf_at(1) [OF assms]])
     (auto simp: sp_wake_def setters ok_defs Let_def next_backoff_def wf_live_idle [OF assms])

text \<open>Steps that keep the goroutine where it stands and the counters as they are.\<close>

lemma wf_quiet:
  assumes "sup_wf s" and "i < length (ps_procs s)"
    and "\<And>d. pi_ProviderID (f d) = pi_ProviderID d" "\<And>d. pi_Version (f d) = pi_Version d" "\<And>d. pi_RestartCount (f d) = pi_RestartCount d"
      "\<And>d. pi_HealthEndpoint (f d) = pi_HealthEndpoint d"
  shows "sup_wf (set_info i f s)"
  using wf_nth [OF assms(1,2)] assms by (intro wf_one_object [OF assms(1,2)]) (auto simp: setters ok_defs)

lemma wf_kill: "sup_wf s \<Longrightarrow> sup_wf (kill p s)"
proof (cases p)
  case (Some pid)
  assume wf: "sup_wf s"
  have "live_ok ls (removeAll pid (ps_live s)) c l" if "live_ok ls (ps_live s) c l" for ls c l
    using that by (rule live_subset) auto
  with wf Some show ?thesis
    by (auto simp: kill_def sup_wf_def keys_ok_def started_ok_def obj_ok_def launch_ok_def launches_def)
qed (simp add: kill_def)

lemma wf_cancel: "sup_wf s \<Longrightarrow> sup_wf (sv_cancel s)"
  by (auto simp: sv_cancel_def sup_wf_def keys_ok_def started_ok_def obj_ok_def launches_def loops_ok_def)

lemma wf_loop_ends:
  assumes "sup_wf s" and "i < length (ps_procs s)" and "ctx_done i s"
  shows "sup_wf (hc_return i s)"
  using wf_nth [OF assms(1,2)] assms
  by (intro wf_one_object [OF assms(1,2)]) (auto simp: hc_return_def setters ok_defs ctx_done_def)

lemma wf_ticker:
  assumes "sup_wf s" and "i < length (ps_procs s)"
  shows "sup_wf (set_proc i (\<lambda>p. p\<lparr>sp_healthTicker := h p\<rparr>) s)"
  using wf_nth [OF assms] assms by (intro wf_one_object [OF assms]) (auto simp: setters ok_defs)

lemma wf_cancel_one:
  assumes "sup_wf s" and "i < length (ps_procs s)" and "sp_cancel (ps_procs s ! i)"
  shows "sup_wf (set_gor i (\<lambda>g. g\<lparr>gr_cancelled := True\<rparr>) s)"
  using wf_nth [OF assms(1,2)] assms by (intro wf_one_object [OF assms(1,2)]) (auto simp: setters ok_defs)

lemma set_info_length [simp]: "length (ps_procs (set_info i f s)) = length (ps_procs s)"
  "length (ps_procs (set_proc i h s)) = length (ps_procs s)" "length (ps_procs (kill p s)) = length (ps_procs s)"
  by (auto simp: setters kill_def split: option.split)

lemma wf_Stop1: "sup_wf s \<Longrightarrow> sup_wf (snd (sv_Stop1 p v s))"
  by (auto simp: sv_Stop1_def Let_def split: option.split intro!: wf_cancel_one wf_ticker wf_quiet dest: wf_key(1))

lemma wf_Stop2: "sup_wf s \<Longrightarrow> i < length (ps_procs s) \<Longrightarrow> sup_wf (sv_Stop2 i s)"
  by (auto simp: sv_Stop2_def intro!: wf_quiet wf_kill)

lemma wf_GetStatus: "sup_wf s \<Longrightarrow> sup_wf (snd (sv_GetStatus now p v s))"
  by (auto simp: sv_GetStatus_def Let_def update_uptime_def split: option.split intro!: wf_quiet dest: wf_key(1))

lemma wf_List:
  assumes "sup_wf s" and "range_order rng"
  shows "sup_wf (snd (sv_List rng now s))"
proof -
  have "sup_wf (snd (fold (list_one now) is (r, t))) \<and> length (ps_procs (snd (fold (list_one now) is (r, t)))) = length (ps_procs t)"
    if "sup_wf t" "\<forall>i\<in>set is. i < length (ps_procs t)" for "is" r t
    using that
  proof (induction "is" arbitrary: r t)
    case (Cons i "is")
    then have "sup_wf (set_info i (update_uptime now) t)" by (intro wf_quiet) (simp_all add: update_uptime_def)
    with Cons show ?case by (simp add: list_one_def Let_def)
  qed simp
  moreover have "\<forall>i\<in>set (rng 0 (map snd (ps_processes s))). i < length (ps_procs s)"
    using assms(1) unfolding range_set [OF assms(2)] by (auto simp: sup_wf_def keys_ok_def)
  ultimately show ?thesis using assms(1) by (simp add: sv_List_def)
qed

text \<open>A start adds a process for one object.\<close>

lemma launches_Cons: "ps_started t = (pid, i) # ps_started s \<Longrightarrow> launches j t = (if j = i then pid # launches j s else launches j s)"
  by (simp add: launches_def)

lemma wf_launch:
  assumes wf: "sup_wf s" and i: "i < length (ps_procs s)" and new: "pid \<notin> fst ` set (ps_started s)"
    and eqs: "ps_processes t = ps_processes s" "ps_started t = (pid, i) # ps_started s" "ps_cancelled t = ps_cancelled s" "ps_live t = pid # ps_live s"
    and len: "length (ps_procs t) = length (ps_procs s)" "length (ps_gors t) = length (ps_gors s)"
    and same: "\<And>j. j \<noteq> i \<Longrightarrow> ps_procs t ! j = ps_procs s ! j" "\<And>j. j \<noteq> i \<Longrightarrow> ps_gors t ! j = ps_gors s ! j"
    and ids: "pi_ProviderID (sp_info (ps_procs t ! i)) = pi_ProviderID (sp_info (ps_procs s ! i))"
      "pi_Version (sp_info (ps_procs t ! i)) = pi_Version (sp_info (ps_procs s ! i))"
    and obj: "obj_ok i t"
  shows "sup_wf t"
proof -
  have "pi_ProviderID (sp_info (ps_procs t ! j)) = pi_ProviderID (sp_info (ps_procs s ! j))"
    "pi_Version (sp_info (ps_procs t ! j)) = pi_Version (sp_info (ps_procs s ! j))" for j
    using ids same by (cases "j = i"; simp)+
  then have "keys_ok t" using wf eqs(1) len by (simp add: sup_wf_def keys_ok_def)
  moreover have "started_ok t" using wf eqs new len i by (auto simp: sup_wf_def started_ok_def image_iff)
  moreover have "obj_ok j t" if j: "j < length (ps_procs t)" "j \<noteq> i" for j
  proof -
    have ok: "obj_ok j s" using j wf len by (simp add: sup_wf_def)
    have "pid \<notin> set (launches j s)" using new by (force simp: launches_def)
    then have "live_ok (launches j s) (pid # ps_live s) c l" if "live_ok (launches j s) (ps_live s) c l" for c l
      using that by (auto simp: live_ok_def)
    with ok j(2) same eqs launches_Cons [OF eqs(2), of j] show ?thesis by (auto simp: obj_ok_def launch_ok_def)
  qed
  ultimately show ?thesis using wf len obj by (auto simp: sup_wf_def)
qed

lemma wf_start:
  assumes "sup_wf s" and "at_pc GStart i s" and "case outcome of Inl _ \<Rightarrow> True | Inr pid \<Rightarrow> pid \<notin> fst ` set (ps_started s)"
  shows "sup_wf (sp_start outcome i s)"
proof -
  note at = wf_at [OF assms(1,2)] and nth = wf_nth [OF assms(1) wf_at(1) [OF assms(1,2)]]
  show ?thesis
  proof (cases "start_cmd (ctx_done i s) outcome")
    case (Inl e)
    with nth at show ?thesis
      by (intro wf_one_object [OF assms(1) at(1)])
         (auto simp: sp_start_def setters ok_defs Let_def wf_live_idle [OF assms(1,2)])
  next
    case (Inr pid)
    then have nd: "\<not> ctx_done i s" and new: "pid \<notin> fst ` set (ps_started s)" using assms(3) by (auto simp: start_cmd_def split: if_splits)
    let ?t = "sp_start outcome i s"
    have st: "ps_started ?t = (pid, i) # ps_started s" using Inr by (simp add: sp_start_def setters Let_def)
    have "live_ok (pid # launches i s) (pid # ps_live s) (Some pid) GWait"
      using wf_live_idle(2) [OF assms(1,2), of GStart] by (auto simp: live_ok_def)
    then have "obj_ok i ?t" unfolding obj_ok_def launches_Cons [OF st] using Inr nd nth at
      by (auto simp: sp_start_def setters ok_defs Let_def ctx_done_def)
    with Inr at show ?thesis
      by (intro wf_launch [OF assms(1) at(1) new _ st]) (auto simp: sp_start_def setters Let_def)
  qed
qed

lemma wf_Start:
  assumes "sup_wf s"
  shows "sup_wf (snd (sv_Start now mkdir a s))"
proof -
  let ?n = "length (ps_procs s)" and ?k = "proc_key (sa_ProviderID a) (sa_Version a)"
  let ?t = "s\<lparr>ps_processes := AList.update ?k ?n (ps_processes s), ps_procs := ps_procs s @ [new_process now a s], ps_gors := ps_gors s @ [new_goroutine]\<rparr>"
  have len: "length (ps_gors s) = ?n" and dis: "distinct (map fst (ps_processes s))" using assms by (simp_all add: sup_wf_def keys_ok_def)
  have st: "(pid, j) \<in> set (ps_started s) \<Longrightarrow> j < ?n" for pid j using assms by (auto simp: sup_wf_def started_ok_def)
  have "launches ?n s = []" using st by (auto simp: launches_def filter_empty_conv)
  then have "obj_ok ?n ?t"
    using nth_append_length [of "ps_gors s" new_goroutine "[]"] len
    by (simp add: obj_ok_def ok_defs live_ok_def launches_def new_process_def new_goroutine_def)
  moreover have "obj_ok j ?t" if "j < ?n" for j
    using that assms len by (simp add: obj_ok_def launches_def sup_wf_def nth_append)
  moreover have "keys_ok ?t"
    using assms dis by (fastforce simp: sup_wf_def keys_ok_def distinct_update set_gm_update nth_append new_process_def)
  moreover have "started_ok ?t" using assms st by (fastforce simp: sup_wf_def started_ok_def)
  ultimately have "sup_wf ?t" using len by (auto simp: sup_wf_def less_Suc_eq)
  then show ?thesis using assms by (auto simp: sv_Start_def Let_def split: option.split)
qed

lemma wf_effect: "sup_wf s \<Longrightarrow> enabled e s \<Longrightarrow> sup_wf (effect e s)"
  by (cases e)
     (auto simp: hc_tick_def wf_Start wf_Stop1 wf_Stop2 wf_GetStatus wf_cancel wf_begin wf_head wf_start wf_exited wf_wake wf_kill
        sup_wf_def [THEN iffD1] intro!: wf_quiet wf_loop_ends dest: sup_wf_def [THEN iffD1])

lemma wf_reaches: "reaches s t \<Longrightarrow> sup_wf s \<Longrightarrow> sup_wf t"
  by (induction rule: reaches.induct) (auto intro: wf_effect)

subsection \<open>A context that is done stays done\<close>

lemma length_effect: "length (ps_procs s) \<le> length (ps_procs (effect e s))" "length (ps_gors s) \<le> length (ps_gors (effect e s))"
  by (cases e; simp add: sv_Start_def sv_Stop1_def sv_Stop2_def sv_GetStatus_def sv_cancel_def sp_begin_def sp_head_def sp_start_def sp_exited_def
      sp_wake_def hc_tick_def hc_return_def kill_def setters Let_def split: option.split sum.split)+

lemma done_setters [simp]:
  "ctx_done i (set_info j f s) = ctx_done i s" "ctx_done i (set_proc j h s) = ctx_done i s" "ctx_done i (kill p s) = ctx_done i s"
  "launches i (set_info j f s) = launches i s" "launches i (set_proc j h s) = launches i s" "launches i (kill p s) = launches i s"
  "launches i (set_gor j g s) = launches i s" "launches i (sv_cancel s) = launches i s" "ctx_done i (sv_cancel s)"
  by (simp_all add: ctx_done_def launches_def setters kill_def sv_cancel_def split: option.split)

lemma done_set_gor:
  "ctx_done i s \<Longrightarrow> i < length (ps_gors s) \<Longrightarrow> (\<And>g. gr_cancelled g \<Longrightarrow> gr_cancelled (f g)) \<Longrightarrow> ctx_done i (set_gor j f s)"
  by (cases "i = j") (auto simp: ctx_done_def set_gor_def)

lemma gors_setters [simp]:
  "ps_gors (set_info j f s) = ps_gors s" "ps_gors (set_proc j h s) = ps_gors s" "ps_gors (kill p s) = ps_gors s"
  "length (ps_gors (set_gor j g s)) = length (ps_gors s)"
  by (simp_all add: setters kill_def split: option.split)

lemma done_effect:
  assumes "ctx_done i s" and "i < length (ps_gors s)"
  shows "ctx_done i (effect e s)" and "launches i (effect e s) = launches i s"
proof -
  have "ctx_done i (effect e s) \<and> launches i (effect e s) = launches i s"
  proof (cases e)
    case (EvSpawn outcome j)
    have "launches i (s\<lparr>ps_live := l, ps_started := (pid, j) # ps_started s\<rparr>) = launches i s"
      "ctx_done i (s\<lparr>ps_live := l, ps_started := x\<rparr>) = ctx_done i s" if "j \<noteq> i" for pid l x
      using that by (simp_all add: launches_def ctx_done_def)
    with EvSpawn assms show ?thesis
      by (cases "j = i")
         (auto simp: sp_start_def start_cmd_def Let_def sp_return_def sp_goto_def set_proc_def launches_def ctx_done_def set_info_def set_gor_def
            nth_list_update split: sum.split)
  next
    case (EvStart now mkdir a)
    with assms show ?thesis
      by (auto simp: sv_Start_def Let_def ctx_done_def launches_def nth_append split: option.split)
  qed (use assms in \<open>auto simp: sv_Stop1_def sv_Stop2_def sv_GetStatus_def sp_begin_def sp_head_def sp_exited_def sp_wake_def
      hc_tick_def hc_return_def sp_goto_def sp_return_def Let_def intro!: done_set_gor split: option.split\<close>)
  then show "ctx_done i (effect e s)" and "launches i (effect e s) = launches i s" by simp_all
qed

lemma done_reaches:
  assumes "reaches s t" and "ctx_done i s" and "i < length (ps_gors s)"
  shows "ctx_done i t \<and> i < length (ps_gors t) \<and> launches i t = launches i s"
  using assms by induction (auto simp: done_effect intro: less_le_trans length_effect(2))

lemma live_effect:
  "enabled e s \<Longrightarrow> pid \<in> fst ` set (ps_started s) \<Longrightarrow> pid \<notin> set (ps_live s) \<Longrightarrow>
     pid \<notin> set (ps_live (effect e s)) \<and> pid \<in> fst ` set (ps_started (effect e s))"
  by (cases e) (auto simp: sv_Start_def sv_Stop1_def sv_Stop2_def sv_GetStatus_def sv_cancel_def sp_begin_def sp_head_def sp_start_def start_cmd_def
      sp_exited_def sp_wake_def hc_tick_def hc_return_def kill_def setters Let_def image_iff split: option.split sum.splits)

text \<open>A process that has ended does not come back.\<close>

lemma live_reaches:
  assumes "reaches s t" and "pid \<in> fst ` set (ps_started s)" and "pid \<notin> set (ps_live s)"
  shows "pid \<notin> set (ps_live t)"
proof -
  have "pid \<notin> set (ps_live t) \<and> pid \<in> fst ` set (ps_started t)" using assms by induction (use live_effect in blast)+
  then show ?thesis ..
qed

lemma launches_started: "pid \<in> set (launches i s) \<Longrightarrow> pid \<in> fst ` set (ps_started s)"
  by (force simp: launches_def)

lemma wf_live_cmd:
  assumes "sup_wf s" and "i < length (ps_procs s)" and "pid \<in> set (launches i s)" and "pid \<in> set (ps_live s)"
  shows "cmd_pid i s = Some pid"
  using wf_nth(4) [OF assms(1,2)] assms(3,4) by (auto simp: launch_ok_def live_ok_def cmd_pid_def split: if_splits)

lemma reaches_trans: "reaches t u \<Longrightarrow> reaches s t \<Longrightarrow> reaches s u"
  by (induction rule: reaches.induct) (auto intro: reaches_step)

subsection \<open>Keys\<close>

lemma split_last_join: "CHR ''-'' \<in> set r \<Longrightarrow> \<exists>a b. split_last r acc = [a, b] \<and> a @ ''-'' @ b = rev r @ acc"
proof (induction r arbitrary: acc)
  case (Cons c r)
  then show ?case by (cases "c = CHR ''-''") auto
qed simp

lemma splitKey_join: "\<exists>a b. splitKey (proc_key p v) = [a, b] \<and> proc_key a b = proc_key p v"
  using split_last_join [of "rev (proc_key p v)" "[]"] by (auto simp: splitKey_def proc_key_def)

lemma splitKey_proc_key: "CHR ''-'' \<notin> set v \<Longrightarrow> splitKey (proc_key p v) = [p, v]"
proof -
  have "CHR ''-'' \<notin> set w \<Longrightarrow> split_last (w @ CHR ''-'' # r) acc = [rev r, rev w @ acc]" for w r acc
    by (induction w arbitrary: acc) auto
  from this [of "rev v" "rev p" "[]"] show "CHR ''-'' \<notin> set v \<Longrightarrow> ?thesis" by (simp add: splitKey_def proc_key_def)
qed

subsection \<open>Goroutines end once their context is done\<close>

fun gor_event :: "event \<Rightarrow> nat option" where
  "gor_event (EvBegin i) = Some i"
| "gor_event (EvHead environ now logged i) = Some i"
| "gor_event (EvSpawn outcome i) = Some i"
| "gor_event (EvExited err i) = Some i"
| "gor_event (EvWake now i) = Some i"
| "gor_event _ = None"

fun pc_rank :: "pc \<Rightarrow> nat" where
  "pc_rank GInit = 2"
| "pc_rank GLoop = 1"
| "pc_rank GStart = 3"
| "pc_rank GWait = 1"
| "pc_rank GSleep = 2"
| "pc_rank GDone = 0"

definition rank_of :: "nat \<Rightarrow> ProcessSupervisor \<Rightarrow> nat" where
  "rank_of i s = pc_rank (gr_pc (ps_gors s ! i))"

lemma rank_event:
  assumes "ctx_done i s" and "i < length (ps_gors s)" and "enabled e s" and "gor_event e = Some i"
  shows "rank_of i (effect e s) < rank_of i s"
  using assms
  by (cases e) (auto simp: rank_of_def at_pc_def sp_begin_def sp_head_def sp_start_def start_cmd_def sp_exited_def sp_wake_def setters Let_def ctx_done_def)

lemma nth_update_at: "i < length xs \<Longrightarrow> xs[j := x] ! i = (if i = j then x else xs ! i)"
  by simp

lemma rank_other:
  assumes "i < length (ps_gors s)" and "gor_event e \<noteq> Some i"
  shows "rank_of i (effect e s) = rank_of i s"
  using assms
  by (cases e) (auto simp: rank_of_def sv_Start_def sv_Stop1_def sv_Stop2_def sv_GetStatus_def sv_cancel_def sp_begin_def sp_head_def sp_start_def
      sp_exited_def sp_wake_def hc_tick_def hc_return_def kill_def setters Let_def nth_append nth_update_at split: option.split sum.split)

lemma rank_run:
  assumes "run_events es s = Some t" and "ctx_done i s" and "i < length (ps_gors s)"
  shows "length (filter (\<lambda>e. gor_event e = Some i) es) + rank_of i t \<le> rank_of i s"
  using assms
proof (induction es arbitrary: s)
  case (Cons e es)
  then have e: "enabled e s" "run_events es (effect e s) = Some t" by (auto split: if_splits)
  have "length (filter (\<lambda>e. gor_event e = Some i) es) + rank_of i t \<le> rank_of i (effect e s)"
    using Cons.IH [OF e(2)] done_effect(1) Cons.prems(2,3) length_effect(2) [of s e] by simp
  then show ?case using rank_event [OF Cons.prems(2,3) e(1)] rank_other [OF Cons.prems(3), of e] by (cases "gor_event e = Some i") auto
qed simp

lemma gor_progress:
  assumes "sup_wf s" and "i < length (ps_gors s)" and "ctx_done i s" and "gr_pc (ps_gors s ! i) \<noteq> GDone"
  shows "(\<exists>e. enabled e s \<and> gor_event e = Some i)
     \<or> enabled (EvCtxKill i) s \<and> (\<exists>e. enabled e (effect (EvCtxKill i) s) \<and> gor_event e = Some i)"
proof (cases "gr_pc (ps_gors s ! i)")
  case GInit
  then have "enabled (EvBegin i) s" using assms(2) by (simp add: at_pc_def)
  then show ?thesis by (metis gor_event.simps(1))
next
  case GLoop
  then have "enabled (EvHead [] 0 True i) s" using assms(2) by (simp add: at_pc_def)
  then show ?thesis by (metis gor_event.simps(2))
next
  case GStart
  then have "enabled (EvSpawn (Inl []) i) s" using assms(2) by (simp add: at_pc_def)
  then show ?thesis by (metis gor_event.simps(3))
next
  case GWait
  then have "enabled (EvCtxKill i) s" "enabled (EvExited None i) (effect (EvCtxKill i) s)"
    using assms(2,3) by (auto simp: at_pc_def process_ended_def cmd_pid_def kill_def split: option.split)
  then show ?thesis by (metis gor_event.simps(4))
next
  case GSleep
  then have "enabled (EvWake 0 i) s" using assms(2) by (simp add: at_pc_def)
  then show ?thesis by (metis gor_event.simps(5))
qed (use assms(4) in simp)

subsection \<open>Objects no key leads to\<close>

lemma orphan_effect:
  assumes "i < length (ps_procs s)" and "i \<notin> snd ` set (ps_processes s)"
  shows "i \<notin> snd ` set (ps_processes (effect e s))"
proof -
  have upd: "x \<in> set (AList.update k v m) \<Longrightarrow> x = (k, v) \<or> x \<in> set m" for x k v and m :: "(string, nat) gomap"
    by (induction m) (auto split: if_splits)
  show ?thesis using assms
    by (cases e) (auto simp: sv_Start_def sv_Stop1_def sv_Stop2_def sv_GetStatus_def sv_cancel_def sp_begin_def sp_head_def sp_start_def
      sp_exited_def sp_wake_def hc_tick_def hc_return_def kill_def setters Let_def image_iff split: option.splits sum.splits if_splits dest!: upd)
qed

lemma orphan_reaches:
  assumes "reaches s t" and "i < length (ps_procs s)" and "i \<notin> snd ` set (ps_processes s)"
  shows "fst (sv_Stop1 p v t) \<noteq> Inr i"
proof -
  have "i < length (ps_procs t) \<and> i \<notin> snd ` set (ps_processes t)" using assms
    by induction (use orphan_effect length_effect(1) less_le_trans in blast)+
  then show ?thesis by (force simp: sv_Stop1_def Let_def dest: map_of_SomeD split: option.splits)
qed

subsection \<open>A process that keeps failing\<close>

fun attempt :: "nat \<Rightarrow> (string, nat) result \<Rightarrow> event list" where
  "attempt i (Inl e) = [EvHead [] 0 True i, EvSpawn (Inl e) i, EvWake 0 i]"
| "attempt i (Inr pid) = [EvHead [] 0 True i, EvSpawn (Inr pid) i, EvOsExit pid, EvExited (Some ''exit status 1'') i, EvWake 0 i]"

definition pids :: "(string, nat) result list \<Rightarrow> nat list" where
  "pids outcomes = concat (map (case_sum (\<lambda>_. []) (\<lambda>pid. [pid])) outcomes)"

definition looping :: "nat \<Rightarrow> RestartPolicy \<Rightarrow> int \<Rightarrow> ProcessSupervisor \<Rightarrow> bool" where
  "looping i policy n s \<longleftrightarrow> i < length (ps_procs s) \<and> at_pc GLoop i s \<and> \<not> ctx_done i s
     \<and> sp_restartPolicy (ps_procs s ! i) = policy \<and> pi_RestartCount (sp_info (ps_procs s ! i)) = n"

lemma run_events_append: "run_events (es @ fs) s = Option.bind (run_events es s) (run_events fs)"
  by (induction es arbitrary: s) auto

lemma attempt_fails:
  assumes "looping i policy n s" and "rp_Enabled policy" and "n < rp_MaxRestarts policy" and "set (pids [out]) \<inter> fst ` set (ps_started s) = {}"
  shows "\<exists>t. run_events (attempt i out) s = Some t \<and> looping i policy (n + 1) t \<and> map fst (ps_started t) = pids [out] @ map fst (ps_started s)"
  using assms
  by (cases out) (auto simp: looping_def at_pc_def ctx_done_def sp_head_def sp_start_def start_cmd_def sp_exited_def sp_wake_def
      process_ended_def cmd_pid_def kill_def setters Let_def pids_def)

lemma pids_Cons: "pids (out # outs) = pids [out] @ pids outs"
  by (simp add: pids_def)

lemma attempts_fail:
  assumes "looping i policy n s" and "rp_Enabled policy" and "n + int (length outs) \<le> rp_MaxRestarts policy"
    and "distinct (pids outs)" and "set (pids outs) \<inter> fst ` set (ps_started s) = {}"
  shows "\<exists>t. run_events (concat (map (attempt i) outs)) s = Some t \<and> looping i policy (n + int (length outs)) t"
  using assms(1,3-5)
proof (induction outs arbitrary: n s)
  case (Cons out outs)
  have d: "set (pids [out]) \<inter> fst ` set (ps_started s) = {}" "set (pids outs) \<inter> set (pids [out]) = {}" "distinct (pids outs)"
      "set (pids outs) \<inter> fst ` set (ps_started s) = {}"
    using Cons.prems(3,4) by (auto simp: pids_Cons [of out outs])
  obtain t where t: "run_events (attempt i out) s = Some t" "looping i policy (n + 1) t" "map fst (ps_started t) = pids [out] @ map fst (ps_started s)"
    using attempt_fails [OF Cons.prems(1) assms(2) _ d(1)] Cons.prems(2) by auto
  have "fst ` set (ps_started t) = set (pids [out]) \<union> fst ` set (ps_started s)" using arg_cong [OF t(3), of set] by simp
  with d have "set (pids outs) \<inter> fst ` set (ps_started t) = {}" by auto
  with Cons.IH [OF t(2) _ d(3)] Cons.prems(2) obtain u where
    "run_events (concat (map (attempt i) outs)) t = Some u" "looping i policy (n + 1 + int (length outs)) u" by auto
  with t(1) show ?case by (auto simp: run_events_append add.assoc add.commute add.left_commute)
qed simp

subsection \<open>An example run, for the witnesses\<close>

definition demo_start :: start_args where
  "demo_start = \<lparr>sa_ProviderID = ''fs'', sa_Version = ''1.0.0-rc1'', sa_binaryPath = ''/bin/fs'', sa_args = [], sa_env = [], sa_healthEndpoint = ''http://h'',
     sa_policy = DefaultRestartPolicy\<lparr>rp_MaxRestarts := 2\<rparr>\<rparr>"

definition demo_run :: ProcessSupervisor where
  "demo_run = the (run_events [EvStart 0 None demo_start, EvBegin 0, EvHead [] 0 True 0, EvSpawn (Inr 7) 0] (NewProcessSupervisor ''/log''))"

lemma run_reaches: "run_events es s = Some t \<Longrightarrow> reaches s t"
proof (induction es arbitrary: s)
  case (Cons e es)
  then have "reaches (effect e s) t" "enabled e s" by (auto split: if_splits)
  with reaches_trans reaches_step [OF reaches_refl] show ?case by blast
qed (simp add: reaches_refl)

lemmas run_simps = NewProcessSupervisor_def sv_Start_def sp_begin_def sp_head_def sp_start_def start_cmd_def sp_exited_def sp_wake_def sv_Stop1_def sv_Stop2_def
  new_process_def new_goroutine_def state_of_def proc_key_def at_pc_def ctx_done_def cmd_pid_def kill_def process_ended_def setters Let_def

lemma demo_runs: "run_events [EvStart 0 None demo_start, EvBegin 0, EvHead [] 0 True 0, EvSpawn (Inr 7) 0] (NewProcessSupervisor ''/log'') = Some demo_run"
  unfolding demo_run_def by (simp add: run_simps demo_start_def DefaultRestartPolicy_def)

lemma demo_reached: "reaches (NewProcessSupervisor ''/log'') demo_run"
  by (rule run_reaches [OF demo_runs])

lemma demo_state: "ps_processes demo_run = [(''fs-1.0.0-rc1'', 0)]" "launches 0 demo_run = [7]" "ps_live demo_run = [7]"
    "length (ps_procs demo_run) = 1" "length (ps_gors demo_run) = 1" "gr_pc (ps_gors demo_run ! 0) = GWait" "sp_cancel (ps_procs demo_run ! 0)"
    "rp_MaxRestarts (sp_restartPolicy (ps_procs demo_run ! 0)) = 2" "\<not> ps_cancelled demo_run" "cmd_pid 0 demo_run = Some 7"
  by (simp_all add: demo_run_def run_simps demo_start_def DefaultRestartPolicy_def launches_def)

subsection \<open>Properties\<close>

text \<open>
  C15: in every interleaving of callers, goroutines and the operating system, the map of the supervisor
  leads from a key to an object of that key, at most one process started for an object is alive,
  the restart counter and the number of starts stay within the limit of the policy, and the pause
  before a restart within the larger of its two bounds.
\<close>

theorem supervisor_invariant:
  assumes "reaches (NewProcessSupervisor d) s"
  shows "(\<forall>k i. map_of (ps_processes s) k = Some i \<longrightarrow> i < length (ps_procs s)
        \<and> k = proc_key (pi_ProviderID (sp_info (ps_procs s ! i))) (pi_Version (sp_info (ps_procs s ! i))))
    \<and> (\<forall>i<length (ps_procs s). let policy = sp_restartPolicy (ps_procs s ! i); count = pi_RestartCount (sp_info (ps_procs s ! i)) in
        (\<exists>pid. set (launches i s) \<inter> set (ps_live s) \<subseteq> {pid})
      \<and> (rp_MaxRestarts policy > 0 \<longrightarrow> count \<in> {0..rp_MaxRestarts policy} \<and> int (length (launches i s)) \<le> rp_MaxRestarts policy)
      \<and> (gr_pc (ps_gors s ! i) \<noteq> GInit \<longrightarrow> gr_backoff (ps_gors s ! i) \<le> max (rp_Backoff policy) (rp_MaxBackoff policy)))"
proof -
  have wf: "sup_wf s" using wf_reaches [OF assms] by simp
  have "\<exists>pid. set (launches i s) \<inter> set (ps_live s) \<subseteq> {pid}" if "i < length (ps_procs s)" for i
    using wf_live_cmd [OF wf that] by (intro exI [of _ "the (cmd_pid i s)"]) auto
  then show ?thesis using wf_key [OF wf] wf_nth(2,3,4) [OF wf] by (simp add: count_ok_def launch_ok_def pc_ok_def Let_def)
qed

theorem supervisor_invariant_witness: "int (length (launches 0 demo_run)) \<le> 2"
  using supervisor_invariant [OF demo_reached] by (simp add: demo_state Let_def)

text \<open>
  C16: a \<open>Stop\<close> that finds an object whose goroutine has begun is final. Nothing is started for the
  object after its first half, and after its second half no process of the object is alive, in
  every continuation.
\<close>

theorem stop_is_final:
  assumes "reaches (NewProcessSupervisor d) s" and "sv_Stop1 p v s = (Inr i, s1)" and "gr_pc (ps_gors s ! i) \<noteq> GInit" and "reaches s1 t"
  shows "launches i t = launches i s \<and> (\<forall>u. reaches (sv_Stop2 i t) u \<longrightarrow> set (launches i u) \<inter> set (ps_live u) = {})"
proof -
  have wf: "sup_wf s" using wf_reaches [OF assms(1)] by simp
  have key: "map_of (ps_processes s) (proc_key p v) = Some i" using assms(2) by (auto simp: sv_Stop1_def Let_def split: option.splits)
  note i = wf_key(1) [OF wf key]
  have "sp_cancel (ps_procs s ! i)" using wf_nth(3) [OF wf i] assms(3) by (simp add: pc_ok_def)
  moreover have "length (ps_gors s) = length (ps_procs s)" using wf by (simp add: sup_wf_def)
  moreover have "s1 = snd (sv_Stop1 p v s)" using assms(2) by simp
  ultimately have s1: "ctx_done i s1" "i < length (ps_gors s1)" "launches i s1 = launches i s" "sup_wf s1"
    using key i wf_Stop1 [OF wf, of p v] by (simp_all add: sv_Stop1_def Let_def ctx_done_def launches_def setters)
  have t: "ctx_done i t" "i < length (ps_gors t)" "launches i t = launches i s" "sup_wf t"
    using done_reaches [OF assms(4) s1(1,2)] s1(3,4) wf_reaches [OF assms(4)] by auto
  have ti: "i < length (ps_procs t)" using t(2,4) by (simp add: sup_wf_def)
  have gone: "pid \<notin> set (ps_live (sv_Stop2 i t))" if "pid \<in> set (launches i t)" for pid
    using wf_live_cmd [OF t(4) ti that] by (auto simp: sv_Stop2_def set_info_def kill_def split: option.split)
  have "set (launches i u) \<inter> set (ps_live u) = {}" if u: "reaches (sv_Stop2 i t) u" for u
  proof -
    have "launches i u = launches i t" "launches i (sv_Stop2 i t) = launches i t"
      using done_reaches [OF u, of i] t(1,2) by (simp_all add: sv_Stop2_def)
    then show ?thesis using live_reaches [OF u] launches_started [of _ i "sv_Stop2 i t"] gone by auto
  qed
  with t(3) show ?thesis by simp
qed

theorem stop_is_final_witness: "set (launches 0 (sv_Stop2 0 (snd (sv_Stop1 ''fs'' ''1.0.0-rc1'' demo_run)))) \<inter> set (ps_live (sv_Stop2 0 (snd (sv_Stop1 ''fs'' ''1.0.0-rc1'' demo_run)))) = {}"
proof -
  have "sv_Stop1 ''fs'' ''1.0.0-rc1'' demo_run = (Inr 0, snd (sv_Stop1 ''fs'' ''1.0.0-rc1'' demo_run))"
    by (simp add: sv_Stop1_def Let_def proc_key_def demo_state)
  from stop_is_final [OF demo_reached this _ reaches_refl] show ?thesis using demo_state(6) reaches_refl by simp
qed



text \<open>
  C18: a process that cannot be started or always ends is given up: after as many attempts as the
  policy has restarts, whatever the mix of failures, the goroutine marks the process failed and
  returns. So \<open>MaxRestarts\<close> counts the first start too.
\<close>

theorem crash_loop_gives_up:
  assumes "looping i policy 0 s" and "rp_Enabled policy" and "0 < rp_MaxRestarts policy" and "int (length outs) = rp_MaxRestarts policy"
    and "distinct (pids outs)" and "set (pids outs) \<inter> fst ` set (ps_started s) = {}"
  shows "\<exists>t. run_events (concat (map (attempt i) outs) @ [EvHead [] 0 True i]) s = Some t \<and> at_pc GDone i t
     \<and> pi_State (sp_info (ps_procs t ! i)) = ProcessStateFailed \<and> pi_RestartCount (sp_info (ps_procs t ! i)) = rp_MaxRestarts policy"
proof -
  obtain t where t: "run_events (concat (map (attempt i) outs)) s = Some t" "looping i policy (rp_MaxRestarts policy) t"
    using attempts_fail [OF assms(1,2) _ assms(5,6)] assms(4) by auto
  have "at_pc GLoop i t" using t(2) by (simp add: looping_def)
  then have "run_events (concat (map (attempt i) outs) @ [EvHead [] 0 True i]) s = Some (sp_head [] 0 True i t)"
    using t(1) by (simp add: run_events_append)
  moreover have "at_pc GDone i (sp_head [] 0 True i t) \<and> pi_State (sp_info (ps_procs (sp_head [] 0 True i t) ! i)) = ProcessStateFailed
      \<and> pi_RestartCount (sp_info (ps_procs (sp_head [] 0 True i t) ! i)) = rp_MaxRestarts policy"
    using t(2) assms(3) by (auto simp: looping_def sp_head_def at_pc_def setters Let_def)
  ultimately show ?thesis by blast
qed

theorem crash_loop_gives_up_witness:
  "\<exists>t. run_events (concat (map (attempt 0) [Inl ''no such file'', Inr 7]) @ [EvHead [] 0 True 0])
      (sp_begin 0 (snd (sv_Start 0 None demo_start (NewProcessSupervisor ''/log'')))) = Some t
     \<and> pi_State (sp_info (ps_procs t ! 0)) = ProcessStateFailed"
proof -
  let ?s = "sp_begin 0 (snd (sv_Start 0 None demo_start (NewProcessSupervisor ''/log'')))"
  have "looping 0 (sa_policy demo_start) 0 ?s" "ps_started ?s = []"
    by (simp_all add: looping_def run_simps demo_start_def DefaultRestartPolicy_def)
  moreover have "rp_Enabled (sa_policy demo_start)" "rp_MaxRestarts (sa_policy demo_start) = 2"
    by (simp_all add: demo_start_def DefaultRestartPolicy_def)
  moreover have "pids [Inl ''no such file'', Inr 7] = [7]" by (simp add: pids_def)
  ultimately show ?thesis
    using crash_loop_gives_up [of 0 "sa_policy demo_start" ?s "[Inl ''no such file'', Inr 7]"] by (simp del: run_events.simps) blast
qed

text \<open>
  A \<open>Stop\<close> that comes before the goroutine of the process was scheduled finds no \<open>cancel\<close> and no
  command. It returns without an error and marks the process stopped, and then the process is
  started and runs.
\<close>

theorem early_stop_is_lost:
  "\<exists>t. run_events [EvStart 0 None a, EvStop1 (sa_ProviderID a) (sa_Version a), EvStop2 0, EvBegin 0, EvHead environ now logged 0, EvSpawn (Inr pid) 0]
      (NewProcessSupervisor d) = Some t
     \<and> pid \<in> set (ps_live t) \<and> pi_State (sp_info (ps_procs t ! 0)) = ProcessStateRunning \<and> at_pc GWait 0 t"
  by (simp add: run_simps)

text \<open>
  \<open>Start\<close> refuses only a process in the running state. A second \<open>Start\<close> before the first process
  has reached it replaces the object in the map; the first process runs on, and no later \<open>Stop\<close>
  finds it again.
\<close>

theorem second_start_orphans_first:
  "\<exists>t. run_events [EvStart 0 None a, EvBegin 0, EvHead environ now logged 0, EvStart 1 None a, EvSpawn (Inr pid) 0] (NewProcessSupervisor d) = Some t
     \<and> pid \<in> set (ps_live t) \<and> (\<forall>u p v. reaches t u \<longrightarrow> fst (sv_Stop1 p v u) \<noteq> Inr 0)"
proof -
  let ?es = "[EvStart 0 None a, EvBegin 0, EvHead environ now logged 0, EvStart 1 None a]"
  have "\<exists>t. run_events ?es (NewProcessSupervisor d) = Some t \<and> at_pc GStart 0 t \<and> \<not> ctx_done 0 t \<and> ps_started t = []
      \<and> length (ps_procs t) = 2 \<and> snd ` set (ps_processes t) = {1}"
    by (simp add: run_simps)
  then obtain t where t: "run_events ?es (NewProcessSupervisor d) = Some t" "at_pc GStart 0 t" "\<not> ctx_done 0 t" "ps_started t = []"
      "length (ps_procs t) = 2" "snd ` set (ps_processes t) = {1}"
    by (elim exE conjE) (rule that)
  let ?u = "sp_start (Inr pid) 0 t"
  have u: "run_events (?es @ [EvSpawn (Inr pid) 0]) (NewProcessSupervisor d) = Some ?u"
    unfolding run_events_append t(1) using t(2,4) by simp
  have "pid \<in> set (ps_live ?u)" "0 < length (ps_procs ?u)" "0 \<notin> snd ` set (ps_processes ?u)"
    using t(3,5,6) by (auto simp: sp_start_def start_cmd_def setters Let_def)
  with u orphan_reaches show ?thesis unfolding append_Cons append_Nil by (intro exI [of _ ?u] conjI allI impI)
qed

theorem second_start_orphans_first_witness:
  "\<exists>t. run_events [EvStart 0 None demo_start, EvBegin 0, EvHead [] 0 True 0, EvStart 1 None demo_start, EvSpawn (Inr 7) 0] (NewProcessSupervisor ''/log'') = Some t
     \<and> 7 \<in> set (ps_live t) \<and> fst (sv_Stop1 ''fs'' ''1.0.0-rc1'' t) \<noteq> Inr 0"
proof -
  obtain t where t: "run_events [EvStart 0 None demo_start, EvBegin 0, EvHead [] 0 True 0, EvStart 1 None demo_start, EvSpawn (Inr 7) 0] (NewProcessSupervisor ''/log'') = Some t"
      "7 \<in> set (ps_live t)" "\<forall>u p v. reaches t u \<longrightarrow> fst (sv_Stop1 p v u) \<noteq> Inr 0"
    using second_start_orphans_first [of demo_start "[]" 0 True 7 "''/log''"] by (elim exE conjE) (rule that)
  show ?thesis using t(3) by (intro exI [of _ t] conjI t(1,2)) (simp add: reaches_refl)
qed

text \<open>Every start of a process with a health endpoint adds a health check loop; none ends before the object is stopped.\<close>

theorem health_loops_accumulate:
  assumes "reaches (NewProcessSupervisor d) s" and "i < length (ps_procs s)" and "\<not> ctx_done i s" and "pi_HealthEndpoint (sp_info (ps_procs s ! i)) \<noteq> []"
  shows "gr_loops (ps_gors s ! i) = length (launches i s)"
  using wf_nth(5) [OF wf_reaches [OF assms(1)] assms(2)] assms(3,4) by (simp add: loops_ok_def ctx_done_def)

end
