(* ===== verification/Cap_Downloader.thy ===== *)
theory Cap_Downloader
  imports Cap_Supervisor "HOL-Library.State_Monad"
begin

text \<open>
  Downloading provider binaries, \<open>internal/capability/binary_downloader.go\<close>, over an explicit file
  system. What the operating system, the HTTP client and the Docker daemon answer is a parameter:
  \<open>E :: cap_env\<close> gives one \<open>cap_obs\<close> for each call the code makes, in which any call can fail; in
  between, the goroutines of the process supervisor and its processes move on. A method with an
  \<open>error\<close> result is an action of the state monad that returns a \<open>result\<close>.
\<close>

declare map_of_eq_Some_iff [simp del]

subsection \<open>The world and its calls\<close>

text \<open>
  \<open>co_err\<close> is the error of the call, \<open>co_short\<close> how much of the data a failing copy wrote, \<open>co_http\<close> a
  response (status and body), \<open>co_id\<close> the ID of a container, \<open>co_events\<close> the steps since the last call.
\<close>

record cap_obs =
  co_err :: "string option"
  co_short :: nat
  co_http :: "int \<times> bytes"
  co_id :: string
  co_now :: int
  co_events :: "event list"

type_synonym cap_env = "nat \<Rightarrow> cap_obs"

record world =
  w_clock :: nat
  w_files :: "(string, bytes) gomap"
  w_sup :: ProcessSupervisor

type_synonym ('z, 'a) cap_action = "('z world_scheme, (cap_err, 'a) result) state"

fun background_event :: "event \<Rightarrow> bool" where
  "background_event (EvStart _ _ _) = False"
| "background_event (EvStop1 _ _) = False"
| "background_event (EvStop2 _) = False"
| "background_event (EvStatus _ _ _) = False"
| "background_event EvCancel = False"
| "background_event _ = True"

definition background :: "event list \<Rightarrow> ProcessSupervisor \<Rightarrow> ProcessSupervisor" where
  "background es s = fold (\<lambda>e s. if background_event e \<and> enabled e s then effect e s else s) es s"

definition interact :: "cap_env \<Rightarrow> ('z world_scheme, cap_obs) state" where
  "interact E = State (\<lambda>w. let ob = E (w_clock w) in
     (ob, w\<lparr>w_clock := Suc (w_clock w), w_sup := background (co_events ob) (w_sup w)\<rparr>))"

definition fail :: "cap_err \<Rightarrow> ('z, 'a) cap_action" where
  "fail e = State_Monad.return (Inl e)"

definition done_with :: "'a \<Rightarrow> ('z, 'a) cap_action" where
  "done_with x = State_Monad.return (Inr x)"

text \<open>\<open>if err != nil { return err }\<close>, wrapping an error, and \<open>defer\<close>.\<close>

definition check :: "('z, 'a) cap_action \<Rightarrow> ('a \<Rightarrow> ('z, 'b) cap_action) \<Rightarrow> ('z, 'b) cap_action" where
  "check m f = do { r \<leftarrow> m; case r of Inl e \<Rightarrow> fail e | Inr x \<Rightarrow> f x }"

definition wrapf :: "string \<Rightarrow> ('z, 'a) cap_action \<Rightarrow> ('z, 'a) cap_action" where
  "wrapf msg m = do { r \<leftarrow> m; case r of Inl e \<Rightarrow> fail (CapWrapf msg e) | Inr x \<Rightarrow> done_with x }"

definition deferred :: "('z world_scheme, 'b) state \<Rightarrow> ('z, 'a) cap_action \<Rightarrow> ('z, 'a) cap_action" where
  "deferred cleanup m = do { r \<leftarrow> m; cleanup; State_Monad.return r }"

text \<open>An error that is handled here, and the result used otherwise.\<close>

definition on_error :: "('z, 'a) cap_action \<Rightarrow> (cap_err \<Rightarrow> ('z, 'b) cap_action) \<Rightarrow> ('a \<Rightarrow> ('z, 'b) cap_action) \<Rightarrow> ('z, 'b) cap_action" where
  "on_error m handler f = do { r \<leftarrow> m; case r of Inl e \<Rightarrow> handler e | Inr x \<Rightarrow> f x }"

definition os_call :: "cap_env \<Rightarrow> ('z, cap_obs) cap_action" where
  "os_call E = do { ob \<leftarrow> interact E; case co_err ob of Some e \<Rightarrow> fail (CapErrorf e) | None \<Rightarrow> done_with ob }"

definition set_file :: "string \<Rightarrow> bytes \<Rightarrow> ('z world_scheme, unit) state" where
  "set_file p c = State (\<lambda>w. ((), w\<lparr>w_files := AList.update p c (w_files w)\<rparr>))"

definition delete_file :: "string \<Rightarrow> ('z world_scheme, unit) state" where
  "delete_file p = State (\<lambda>w. ((), w\<lparr>w_files := AList.delete p (w_files w)\<rparr>))"

definition ReadFile :: "cap_env \<Rightarrow> string \<Rightarrow> ('z, bytes) cap_action" where
  "ReadFile E p = check (os_call E) (\<lambda>_. do {
     w \<leftarrow> State_Monad.get;
     case map_of (w_files w) p of None \<Rightarrow> fail (CapErrorf (''open '' @ p @ '': no such file or directory'')) | Some c \<Rightarrow> done_with c })"

definition Create :: "cap_env \<Rightarrow> string \<Rightarrow> ('z, unit) cap_action" where
  "Create E p = check (os_call E) (\<lambda>_. do { set_file p []; done_with () })"

definition Copy :: "cap_env \<Rightarrow> string \<Rightarrow> bytes \<Rightarrow> ('z, unit) cap_action" where
  "Copy E p c = do {
     ob \<leftarrow> interact E;
     case co_err ob of
       Some e \<Rightarrow> do { set_file p (take (co_short ob) c); fail (CapErrorf e) }
     | None \<Rightarrow> do { set_file p c; done_with () } }"

definition Rename :: "cap_env \<Rightarrow> string \<Rightarrow> string \<Rightarrow> ('z, unit) cap_action" where
  "Rename E p q = check (ReadFile E p) (\<lambda>c. do { delete_file p; set_file q c; done_with () })"

text \<open>An \<open>os.Remove\<close> whose error is ignored.\<close>

definition Remove :: "cap_env \<Rightarrow> string \<Rightarrow> ('z world_scheme, unit) state" where
  "Remove E p = do { ob \<leftarrow> interact E; case co_err ob of Some _ \<Rightarrow> State_Monad.return () | None \<Rightarrow> delete_file p }"

definition RemoveAll :: "cap_env \<Rightarrow> string \<Rightarrow> ('z, unit) cap_action" where
  "RemoveAll E dir = check (os_call E) (\<lambda>_. State (\<lambda>w.
     (Inr (), w\<lparr>w_files := filter (\<lambda>(p, _). \<not> (p = dir \<or> HasPrefix p (dir @ ''/''))) (w_files w)\<rparr>)))"

subsection \<open>Strings\<close>

text \<open>\<open>old\<close> is not empty in the calls below; white space is that of ASCII.\<close>

function ReplaceAll :: "string \<Rightarrow> string \<Rightarrow> string \<Rightarrow> string" where
  "ReplaceAll old new s =
     (if s = [] \<or> old = [] then s
      else if HasPrefix s old then new @ ReplaceAll old new (drop (length old) s)
      else hd s # ReplaceAll old new (tl s))"
  by auto
termination
  by (relation "measure (\<lambda>(old, new, s). length s)") auto

declare ReplaceAll.simps [simp del]

definition HasSuffix :: "string \<Rightarrow> string \<Rightarrow> bool" where
  "HasSuffix s p = HasPrefix (rev s) (rev p)"

definition TrimPrefix :: "string \<Rightarrow> string \<Rightarrow> string" where
  "TrimPrefix s p = (if HasPrefix s p then drop (length p) s else s)"

definition is_space :: "char \<Rightarrow> bool" where
  "is_space c = ((of_char c :: nat) \<in> {9, 10, 11, 12, 13, 32})"

definition TrimSpace :: "string \<Rightarrow> string" where
  "TrimSpace s = rev (dropWhile is_space (rev (dropWhile is_space s)))"

definition Fields :: "string \<Rightarrow> string list" where
  "Fields s = filter (\<lambda>f. f \<noteq> []) (Split (CHR '' '') (map (\<lambda>c. if is_space c then CHR '' '' else c) s))"

definition Base :: "string \<Rightarrow> string" where
  "Base p =
     (if p = [] then ''.''
      else let q = rev (dropWhile (\<lambda>c. c = CHR ''/'') (rev p)) in
           if q = [] then ''/'' else rev (takeWhile (\<lambda>c. c \<noteq> CHR ''/'') (rev q)))"

subsection \<open>binary_downloader.go\<close>

record DownloadResult =
  dr_Path :: string
  dr_SHA256 :: string
  dr_Size :: int
  dr_Platform :: string

text \<open>\<open>host\<close> is \<open>(runtime.GOOS, runtime.GOARCH)\<close>, \<open>sha\<close> the hexadecimal SHA-256 digest.\<close>

definition expandURITemplate :: "string \<times> string \<Rightarrow> string \<Rightarrow> string \<Rightarrow> string" where
  "expandURITemplate host uri version =
     (let u = ReplaceAll ''{arch}'' (snd host) (ReplaceAll ''{os}'' (fst host) (ReplaceAll ''{version}'' version uri)) in
      if fst host = ''windows'' \<and> \<not> HasSuffix u ''.exe'' then u @ ''.exe'' else u)"

definition copyFile :: "cap_env \<Rightarrow> string \<Rightarrow> string \<Rightarrow> ('z, unit) cap_action" where
  "copyFile E src dst =
     check (wrapf ''failed to open source file'' (ReadFile E src)) (\<lambda>_.
     check (wrapf ''failed to create destination file'' (Create E dst)) (\<lambda>_. do {
       w \<leftarrow> State_Monad.get;
       wrapf ''failed to copy file'' (Copy E dst (case map_of (w_files w) src of None \<Rightarrow> [] | Some c \<Rightarrow> c)) }))"

definition downloadFile :: "cap_env \<Rightarrow> string \<Rightarrow> string \<Rightarrow> ('z, unit) cap_action" where
  "downloadFile E url filepath =
     (if HasPrefix url ''file://'' then copyFile E (TrimPrefix url ''file://'') filepath
      else if \<not> HasPrefix url ''http://'' \<and> \<not> HasPrefix url ''https://'' then copyFile E url filepath
      else check (wrapf ''HTTP GET failed'' (os_call E)) (\<lambda>ob.
        let (status, body) = co_http ob in
        if status \<noteq> 200 then fail (CapErrorf (''HTTP GET returned status '' @ show_int status))
        else check (wrapf ''failed to create file'' (Create E filepath)) (\<lambda>_.
             wrapf ''failed to write file'' (Copy E filepath body))))"

definition calculateSHA256 :: "(bytes \<Rightarrow> string) \<Rightarrow> cap_env \<Rightarrow> string \<Rightarrow> ('z, string) cap_action" where
  "calculateSHA256 sha E p = check (wrapf ''failed to read file'' (ReadFile E p)) (\<lambda>c. done_with (sha c))"

definition checksum_line :: "string \<Rightarrow> (string, string) gomap \<Rightarrow> (string, string) gomap" where
  "checksum_line line m =
     (case Fields (TrimSpace line) of sha256Hash # filename # _ \<Rightarrow> AList.update filename sha256Hash m | _ \<Rightarrow> m)"

definition parse_checksums :: "string \<Rightarrow> (string, string) gomap" where
  "parse_checksums content = fold checksum_line (Split (CHR 0x0A) content) []"

definition parseChecksumsFile :: "cap_env \<Rightarrow> string \<Rightarrow> ('z, (string, string) gomap) cap_action" where
  "parseChecksumsFile E p =
     check (wrapf ''failed to read checksums file'' (ReadFile E p)) (\<lambda>content. done_with (parse_checksums content))"

text \<open>The part of \<open>Download\<close> below the deferred removal of the temporary file.\<close>

definition verify_and_place ::
  "(bytes \<Rightarrow> string) \<Rightarrow> string \<times> string \<Rightarrow> cap_env \<Rightarrow> string \<Rightarrow> string \<Rightarrow> string \<Rightarrow> ('z, DownloadResult) cap_action" where
  "verify_and_place sha host E tmpPath finalPath expectedSHA256 =
     check (wrapf ''failed to calculate SHA256'' (calculateSHA256 sha E tmpPath)) (\<lambda>actualSHA256.
       if expectedSHA256 \<noteq> [] \<and> expectedSHA256 \<noteq> actualSHA256
       then fail (CapErrorf (''SHA256 mismatch: expected '' @ expectedSHA256 @ '', got '' @ actualSHA256))
       else check (wrapf ''failed to set executable permissions'' (os_call E)) (\<lambda>_.
            check (wrapf ''failed to move binary to final path'' (Rename E tmpPath finalPath)) (\<lambda>_.
            check (wrapf ''failed to stat final binary'' (ReadFile E finalPath)) (\<lambda>c.
              done_with \<lparr>dr_Path = finalPath, dr_SHA256 = actualSHA256, dr_Size = int (length c), dr_Platform = fst host @ ''/'' @ snd host\<rparr>))))"

definition Download ::
  "(bytes \<Rightarrow> string) \<Rightarrow> string \<times> string \<Rightarrow> cap_env \<Rightarrow> string \<Rightarrow> string \<Rightarrow> string \<Rightarrow> string \<Rightarrow> ('z, DownloadResult) cap_action" where
  "Download sha host E stagingDir artifactURI version expectedSHA256 =
     (let uri = expandURITemplate host artifactURI version;
          filename = Base uri;
          tmpPath = path_Join [stagingDir, filename @ ''.tmp''];
          finalPath = path_Join [stagingDir, filename]
      in check (wrapf ''failed to create staging directory'' (os_call E)) (\<lambda>_.
         check (wrapf ''failed to download binary'' (downloadFile E uri tmpPath)) (\<lambda>_.
           deferred (Remove E tmpPath) (verify_and_place sha host E tmpPath finalPath expectedSHA256))))"

definition DownloadWithChecksumsFile ::
  "(bytes \<Rightarrow> string) \<Rightarrow> string \<times> string \<Rightarrow> cap_env \<Rightarrow> string \<Rightarrow> string \<Rightarrow> string \<Rightarrow> string \<Rightarrow> ('z, DownloadResult) cap_action" where
  "DownloadWithChecksumsFile sha host E stagingDir artifactURI version checksumsURI =
     (let checksumsPath = path_Join [stagingDir, ''checksums.txt''] in
      check (wrapf ''failed to create staging directory'' (os_call E)) (\<lambda>_.
      check (wrapf ''failed to download checksums file'' (downloadFile E checksumsURI checksumsPath)) (\<lambda>_.
        deferred (Remove E checksumsPath) (
          check (wrapf ''failed to parse checksums file'' (parseChecksumsFile E checksumsPath)) (\<lambda>checksums.
            let filename = Base (expandURITemplate host artifactURI version) in
            case map_of checksums filename of
              None \<Rightarrow> fail (CapErrorf (''checksum not found for '' @ filename @ '' in checksums file''))
            | Some expectedSHA256 \<Rightarrow> Download sha host E stagingDir artifactURI version expectedSHA256)))))"

definition CleanStaging :: "cap_env \<Rightarrow> string \<Rightarrow> ('z, unit) cap_action" where
  "CleanStaging E stagingDir = RemoveAll E stagingDir"

subsection \<open>Successful runs\<close>

named_theorems outcome \<open>what a successful run of an action says about the world\<close>

lemma check_ok [outcome]:
  "run_state (check m f) w = (Inr y, w') \<longleftrightarrow> (\<exists>x w1. run_state m w = (Inr x, w1) \<and> run_state (f x) w1 = (Inr y, w'))"
  by (auto simp: check_def fail_def split: prod.splits sum.splits)

lemma wrapf_ok [outcome]: "run_state (wrapf msg m) w = (Inr y, w') \<longleftrightarrow> run_state m w = (Inr y, w')"
  by (auto simp: wrapf_def fail_def done_with_def split: prod.splits sum.splits)

lemma fail_ok [outcome]: "run_state (fail e) w = (Inr y, w') \<longleftrightarrow> False"
  by (simp add: fail_def)

lemma done_with_ok [outcome]: "run_state (done_with x) w = (Inr y, w') \<longleftrightarrow> y = x \<and> w' = w"
  by (auto simp: done_with_def)

lemma deferred_ok [outcome]:
  "run_state (deferred cleanup m) w = (Inr y, w') \<longleftrightarrow> (\<exists>w1. run_state m w = (Inr y, w1) \<and> w' = snd (run_state cleanup w1))"
  by (auto simp: deferred_def split: prod.splits)

lemma interact_run: "run_state (interact E) w =
   (E (w_clock w), w\<lparr>w_clock := Suc (w_clock w), w_sup := background (co_events (E (w_clock w))) (w_sup w)\<rparr>)"
  by (simp add: interact_def Let_def)

lemma get_run: "run_state State_Monad.get w = (w, w)"
  by (simp add: State_Monad.get_def)

lemma os_call_ok:
  assumes "run_state (os_call E) w = (Inr ob, w')"
  shows "w_files w' = w_files w" "ob = E (w_clock w)"
  using assms by (auto simp: os_call_def interact_run fail_def done_with_def split: option.splits)

lemma ReadFile_ok:
  assumes "run_state (ReadFile E p) w = (Inr c, w')"
  shows "map_of (w_files w) p = Some c" "w_files w' = w_files w"
proof -
  obtain ob w1 where "run_state (os_call E) w = (Inr ob, w1)" "map_of (w_files w1) p = Some c" "w' = w1"
    using assms by (auto simp: ReadFile_def outcome get_run split: option.splits)
  with os_call_ok(1) show "map_of (w_files w) p = Some c" "w_files w' = w_files w" by metis+
qed

lemma Create_ok: "run_state (Create E p) w = (Inr (), w') \<Longrightarrow> w_files w' = AList.update p [] (w_files w)"
  using os_call_ok(1) by (fastforce simp: Create_def outcome set_file_def)

lemma Copy_ok: "run_state (Copy E p c) w = (Inr (), w') \<Longrightarrow> w_files w' = AList.update p c (w_files w)"
  by (auto simp: Copy_def interact_run outcome set_file_def split: option.splits)

lemma Rename_ok:
  "run_state (Rename E p q) w = (Inr (), w') \<Longrightarrow> \<exists>c. map_of (w_files w) p = Some c \<and> w_files w' = AList.update q c (AList.delete p (w_files w))"
  using ReadFile_ok by (fastforce simp: Rename_def outcome set_file_def delete_file_def)

lemma Remove_files: "w_files (snd (run_state (Remove E p) w)) \<in> {w_files w, AList.delete p (w_files w)}"
  by (auto simp: Remove_def interact_run delete_file_def split: option.split)

subsection \<open>Staging paths\<close>

text \<open>The segments \<open>Clean\<close> keeps; two paths with different ones are different.\<close>

definition segments :: "bool \<Rightarrow> string list \<Rightarrow> string list" where
  "segments rooted ws = fold (clean_step rooted) ws []"

definition is_segment :: "string \<Rightarrow> bool" where
  "is_segment w \<longleftrightarrow> w \<noteq> [] \<and> CHR ''/'' \<notin> set w"

lemma clean_step_segments:
  "CHR ''/'' \<notin> set w \<Longrightarrow> list_all is_segment out \<Longrightarrow> list_all is_segment (clean_step rooted w out)"
  by (cases out) (simp_all add: clean_step_def is_segment_def)

lemma segments_ok: "list_all is_segment (segments rooted (Split (CHR ''/'') p))"
proof -
  have "list_all (\<lambda>w. CHR ''/'' \<notin> set w) ws \<Longrightarrow> list_all is_segment out \<Longrightarrow> list_all is_segment (fold (clean_step rooted) ws out)" for ws out
    by (induction ws arbitrary: out) (simp_all add: clean_step_segments)
  moreover have "list_all (\<lambda>w. CHR ''/'' \<notin> set w) (Split (CHR ''/'') p)" using Split_no_sep by (fastforce simp: list_all_iff)
  ultimately show ?thesis by (simp add: segments_def)
qed

lemma Clean_segments:
  assumes "p \<noteq> []" and "q \<noteq> []" and "HasPrefix p ''/'' = HasPrefix q ''/''" and "Clean p = Clean q"
    and "hd (segments r (Split (CHR ''/'') p)) \<noteq> ''.''" "segments r (Split (CHR ''/'') p) \<noteq> []" "r = HasPrefix p ''/''"
  shows "segments r (Split (CHR ''/'') p) = segments r (Split (CHR ''/'') q)"
proof -
  let ?s = "\<lambda>p. rev (segments r (Split (CHR ''/'') p))"
  have seg: "w \<in> set (segments r (Split (CHR ''/'') u)) \<Longrightarrow> is_segment w" for u w using segments_ok [of r u] by (simp add: list_all_iff)
  have split: "?s u \<noteq> [] \<Longrightarrow> Split (CHR ''/'') (Join (CHR ''/'') (?s u)) = ?s u" for u
    by (intro Split_Join) (auto simp: is_segment_def dest: seg)
  have ne: "?s u \<noteq> [] \<Longrightarrow> Join (CHR ''/'') (?s u) \<noteq> []" for u
  proof
    assume "?s u \<noteq> []" and "Join (CHR ''/'') (?s u) = []"
    with split [of u] have "?s u = [[]]" by (metis Split.simps(1))
    then have "[] \<in> set (?s u)" by simp
    with seg [of "[]" u] show False by (simp add: is_segment_def)
  qed
  have dot: "Join (CHR ''/'') (?s p) \<noteq> ''.''"
  proof
    assume "Join (CHR ''/'') (?s p) = ''.''"
    with split [of p] assms(6) have "?s p = Split (CHR ''/'') ''.''" by (metis rev_is_Nil_conv)
    then have "segments r (Split (CHR ''/'') p) = [''.'']" by simp
    with assms(5) show False by simp
  qed
  have cl: "Clean u = (if r then CHR ''/'' # Join (CHR ''/'') (?s u) else if Join (CHR ''/'') (?s u) = [] then ''.'' else Join (CHR ''/'') (?s u))"
    if "u \<noteq> []" "HasPrefix u ''/'' = r" for u
    using that by (simp only: Clean_def segments_def Let_def if_False)
  have "Join (CHR ''/'') (?s p) \<noteq> []" using ne [of p] assms(6) by simp
  then have eq: "Join (CHR ''/'') (?s p) = Join (CHR ''/'') (?s q)"
    using dot assms(4) unfolding cl [OF assms(1) assms(7) [symmetric]] cl [OF assms(2) assms(3) [symmetric, folded assms(7)]]
    by (metis list.inject)
  have "?s q \<noteq> []" using eq ne [of p] assms(6) by (metis Join.simps(1) rev_is_Nil_conv)
  with eq split [of p] split [of q] assms(6) have "?s p = ?s q" by (metis rev_is_Nil_conv)
  then show ?thesis by simp
qed

lemma Split_append: "Split sep (s @ sep # t) = Split sep s @ Split sep t"
proof (induction s)
  case (Cons c cs)
  then show ?case by (cases "Split sep cs") auto
qed simp

lemma Base_no_sep: "Base p = ''/'' \<or> (CHR ''/'' \<notin> set (Base p) \<and> Base p \<noteq> [])"
proof -
  let ?q = "rev (dropWhile (\<lambda>c. c = CHR ''/'') (rev p))"
  have "takeWhile (\<lambda>c. c \<noteq> CHR ''/'') (rev ?q) \<noteq> []" if "?q \<noteq> []"
    using that hd_dropWhile [of "\<lambda>c. c = CHR ''/''" "rev p"] by (auto simp: takeWhile_eq_Nil_iff)
  moreover have "CHR ''/'' \<notin> set (takeWhile (\<lambda>c. c \<noteq> CHR ''/'') (rev ?q))" using set_takeWhileD by fastforce
  ultimately show ?thesis by (simp add: Base_def Let_def)
qed

text \<open>Where a proper segment is joined to the staging directory, no other name leads.\<close>

lemma join_differs:
  assumes "d \<noteq> []" and x: "\<And>r S. fold (clean_step r) (Split (CHR ''/'') g) S = x # S" "x \<noteq> ''.''" "x \<noteq> ''..''" "x \<noteq> Base u"
  shows "path_Join [d, g] \<noteq> path_Join [d, Base u]"
proof
  let ?f = "Base u" and ?r = "HasPrefix d ''/''"
  let ?S = "fold (clean_step ?r) (Split (CHR ''/'') d) []"
  assume eq: "path_Join [d, g] = path_Join [d, ?f]"
  have j: "path_Join [d, g] = Clean (d @ CHR ''/'' # g)" for g using assms(1) by (simp add: path_Join_def Let_def)
  have pre: "HasPrefix (d @ CHR ''/'' # g) ''/'' = ?r" for g using assms(1) by (cases d) (simp_all add: HasPrefix_def)
  have sg: "segments ?r (Split (CHR ''/'') (d @ CHR ''/'' # g)) = fold (clean_step ?r) (Split (CHR ''/'') g) ?S" for g
    by (simp add: segments_def Split_append)
  have "x # ?S = fold (clean_step ?r) (Split (CHR ''/'') ?f) ?S"
    using Clean_segments [of "d @ CHR ''/'' # g" "d @ CHR ''/'' # ?f" ?r] eq x(1,2) unfolding j pre sg by simp
  moreover have "fold (clean_step ?r) (Split (CHR ''/'') ?f) ?S \<in> {?S, tl ?S, ''..'' # ?S, ?f # ?S}"
  proof (cases "?f = ''/''")
    case False
    then have "Split (CHR ''/'') ?f = [?f]" using Base_no_sep [of u] by (auto intro: Split_word)
    then show ?thesis by (auto simp: clean_step_def split: list.splits)
  qed (simp add: clean_step_def)
  moreover have "x # ?S \<noteq> tl ?S" by (cases ?S) (auto dest: arg_cong [of _ _ length])
  ultimately show False using x(3,4) by auto
qed

text \<open>The temporary file of a download is not the final one, nor is the list of checksums.\<close>

lemma tmp_differs:
  assumes "d \<noteq> []"
  shows "path_Join [d, Base u @ ''.tmp''] \<noteq> path_Join [d, Base u]"
proof (cases "Base u = ''/''")
  case True
  then show ?thesis by (intro join_differs [where x = "''.tmp''"]) (simp_all add: clean_step_def assms)
next
  case False
  then have "Split (CHR ''/'') (Base u @ ''.tmp'') = [Base u @ ''.tmp'']" "Base u \<noteq> []" using Base_no_sep [of u] by (auto intro: Split_word)
  then show ?thesis by (intro join_differs [where x = "Base u @ ''.tmp''"]) (auto simp: clean_step_def append_eq_Cons_conv assms)
qed

lemma checksums_differs: "d \<noteq> [] \<Longrightarrow> Base u \<noteq> ''checksums.txt'' \<Longrightarrow> path_Join [d, ''checksums.txt''] \<noteq> path_Join [d, Base u]"
  by (intro join_differs [where x = "''checksums.txt''"]) (simp_all add: clean_step_def eq_commute)

subsection \<open>What an action leaves as it was\<close>

text \<open>
  \<open>preserves R m\<close>: whatever \<open>m\<close> returns, \<open>R\<close> holds between the worlds before and after it. For a
  reflexive and transitive \<open>R\<close> it follows from the parts of an action.
\<close>

definition preserves :: "('s \<Rightarrow> 's \<Rightarrow> bool) \<Rightarrow> ('s, 'a) state \<Rightarrow> bool" where
  "preserves R m \<longleftrightarrow> (\<forall>w. R w (snd (run_state m w)))"

lemma preservesD: "preserves R m \<Longrightarrow> run_state m w = (r, w') \<Longrightarrow> R w w'"
  unfolding preserves_def by (metis snd_conv)

locale frame =
  fixes R :: "'z world_scheme \<Rightarrow> 'z world_scheme \<Rightarrow> bool"
  assumes refl: "R w w"
    and trans: "R u v \<Longrightarrow> R v w \<Longrightarrow> R u w"
begin

lemma unit [simp]: "preserves R (State_Monad.return x)" "preserves R (fail e)" "preserves R (done_with y)" "preserves R State_Monad.get"
  by (simp_all add: preserves_def fail_def done_with_def get_run refl)

lemma bind: "preserves R m \<Longrightarrow> (\<And>x. preserves R (f x)) \<Longrightarrow> preserves R (State_Monad.bind m f)"
  by (simp add: preserves_def split: prod.split) (metis snd_conv trans)

lemma checked: "preserves R m \<Longrightarrow> (\<And>x. preserves R (f x)) \<Longrightarrow> preserves R (check m f)"
  unfolding check_def by (intro bind) (auto split: sum.split)

lemma wrapped: "preserves R m \<Longrightarrow> preserves R (wrapf msg m)"
  unfolding wrapf_def by (intro bind) (auto split: sum.split)

lemma cleaned: "preserves R m \<Longrightarrow> preserves R c \<Longrightarrow> preserves R (deferred c m)"
  unfolding deferred_def by (intro bind) auto

lemma handled: "preserves R m \<Longrightarrow> (\<And>e. preserves R (h e)) \<Longrightarrow> (\<And>x. preserves R (f x)) \<Longrightarrow> preserves R (on_error m h f)"
  unfolding on_error_def by (intro bind) (auto split: sum.split)

lemmas rules = bind checked wrapped cleaned handled

lemma calls:
  assumes "\<And>E. preserves R (interact E)"
  shows "preserves R (os_call E)" "preserves R (ReadFile E p)"
proof -
  show os: "preserves R (os_call E)" for E unfolding os_call_def by (intro bind assms) (auto split: option.split)
  show "preserves R (ReadFile E p)" unfolding ReadFile_def by (intro rules os unit) (auto split: option.split)
qed

text \<open>Writing files, when writing one of the names allowed is.\<close>

lemma writes:
  assumes "\<And>E. preserves R (interact E)" and "\<And>c. preserves R (set_file p c)" and "preserves R (delete_file p)"
  shows "preserves R (Create E p)" "preserves R (Copy E p c)" "preserves R (Remove E p)" "preserves R (downloadFile E u p)"
proof -
  show c: "preserves R (Create E p)" "preserves R (Copy E p c)" for E c
    unfolding Create_def Copy_def by (intro rules calls assms unit; auto intro!: bind assms split: option.split)+
  show "preserves R (Remove E p)" unfolding Remove_def by (intro bind assms) (auto simp: assms split: option.split)
  show "preserves R (downloadFile E u p)" unfolding downloadFile_def copyFile_def Let_def
    by (auto intro!: rules calls assms c split: prod.split)
qed

end

text \<open>The files an action can change.\<close>

definition same_files :: "string set \<Rightarrow> 'z world_scheme \<Rightarrow> 'z world_scheme \<Rightarrow> bool" where
  "same_files P w w' \<longleftrightarrow> (\<forall>p. p \<notin> P \<longrightarrow> map_of (w_files w') p = map_of (w_files w) p)"

abbreviation touches :: "string set \<Rightarrow> ('z world_scheme, 'a) state \<Rightarrow> bool" where
  "touches P \<equiv> preserves (same_files P)"

interpretation files: frame "same_files P" for P
  by unfold_locales (simp_all add: same_files_def)

lemma touchesD: "touches P m \<Longrightarrow> p \<notin> P \<Longrightarrow> map_of (w_files (snd (run_state m w))) p = map_of (w_files w) p"
  by (simp add: preserves_def same_files_def)

lemma touches_files:
  "p \<in> P \<Longrightarrow> touches P (set_file p c)" "p \<in> P \<Longrightarrow> touches P (delete_file p)" "touches P (interact E)"
  by (auto simp: preserves_def same_files_def set_file_def delete_file_def interact_run update_conv' delete_conv')

lemmas touch = files.calls [OF touches_files(3)] files.writes [OF touches_files(3) touches_files(1) touches_files(2)]

subsection \<open>Downloaded files\<close>

definition is_http :: "string \<Rightarrow> bool" where
  "is_http url \<longleftrightarrow> HasPrefix url ''http://'' \<or> HasPrefix url ''https://''"

lemma http_not_file: "is_http url \<Longrightarrow> \<not> HasPrefix url ''file://''"
  by (cases url) (auto simp: is_http_def HasPrefix_def)

lemma downloadFile_http:
  assumes "run_state (downloadFile E url p) w = (Inr (), w')" and "is_http url"
  shows "fst (co_http (E (w_clock w))) = 200" and "map_of (w_files w') p = Some (snd (co_http (E (w_clock w))))"
proof -
  have "\<not> (\<not> HasPrefix url ''http://'' \<and> \<not> HasPrefix url ''https://'')" using assms(2) by (auto simp: is_http_def)
  then obtain ob w1 w2 where *: "run_state (os_call E) w = (Inr ob, w1)" "fst (co_http ob) = 200" "run_state (Copy E p (snd (co_http ob))) w2 = (Inr (), w')"
    using assms(1) http_not_file [OF assms(2)] unfolding downloadFile_def
    by (auto simp: outcome Let_def case_prod_beta split: if_splits)
  with os_call_ok(2) Copy_ok show "fst (co_http (E (w_clock w))) = 200" "map_of (w_files w') p = Some (snd (co_http (E (w_clock w))))"
    by (fastforce simp: update_conv')+
qed

text \<open>What \<open>verify_and_place\<close> returns is the file that was hashed.\<close>

lemma verify_and_place_ok:
  assumes "run_state (verify_and_place sha host E t f expected) w = (Inr res, w')"
  shows "\<exists>c. map_of (w_files w) t = Some c \<and> map_of (w_files w') f = Some c \<and> dr_Path res = f \<and> dr_SHA256 res = sha c \<and> dr_Size res = int (length c)
     \<and> (expected \<noteq> [] \<longrightarrow> sha c = expected)"
proof -
  obtain c w1 ob w2 w3 d where 1: "run_state (ReadFile E t) w = (Inr c, w1)" and g: "expected = [] \<or> expected = sha c"
    and 2: "run_state (os_call E) w1 = (Inr ob, w2)" and 3: "run_state (Rename E t f) w2 = (Inr (), w3)"
    and 4: "run_state (ReadFile E f) w3 = (Inr d, w')"
    and res: "res = \<lparr>dr_Path = f, dr_SHA256 = sha c, dr_Size = int (length d), dr_Platform = fst host @ ''/'' @ snd host\<rparr>"
    using assms unfolding verify_and_place_def calculateSHA256_def by (auto simp: outcome split: if_splits)
  note a = ReadFile_ok [OF 1] and b = os_call_ok(1) [OF 2] and e = ReadFile_ok [OF 4]
  obtain c' where "map_of (w_files w2) t = Some c'" "w_files w3 = AList.update f c' (AList.delete t (w_files w2))" using Rename_ok [OF 3] by blast
  with a b e have "d = c" "map_of (w_files w') f = Some c" by (auto simp: update_conv')
  with a g res show ?thesis by auto
qed

lemma Download_ok:
  assumes "run_state (Download sha host E d uri v expected) w = (Inr res, w')" and "d \<noteq> []"
  shows "\<exists>c. map_of (w_files w') (dr_Path res) = Some c \<and> dr_Path res = path_Join [d, Base (expandURITemplate host uri v)]
     \<and> dr_SHA256 res = sha c \<and> dr_Size res = int (length c) \<and> (expected \<noteq> [] \<longrightarrow> sha c = expected)
     \<and> (is_http (expandURITemplate host uri v) \<longrightarrow> c = snd (co_http (E (Suc (w_clock w)))))"
proof -
  let ?u = "expandURITemplate host uri v"
  let ?t = "path_Join [d, Base ?u @ ''.tmp'']" and ?f = "path_Join [d, Base ?u]"
  obtain ob w1 w2 w3 where 1: "run_state (os_call E) w = (Inr ob, w1)" and 2: "run_state (downloadFile E ?u ?t) w1 = (Inr (), w2)"
    and 3: "run_state (verify_and_place sha host E ?t ?f expected) w2 = (Inr res, w3)" and w': "w' = snd (run_state (Remove E ?t) w3)"
    using assms(1) unfolding Download_def Let_def by (auto simp: outcome)
  obtain c where c: "map_of (w_files w2) ?t = Some c" "map_of (w_files w3) ?f = Some c" "dr_Path res = ?f" "dr_SHA256 res = sha c"
      "dr_Size res = int (length c)" "expected \<noteq> [] \<longrightarrow> sha c = expected"
    using verify_and_place_ok [OF 3] by blast
  have "map_of (w_files w') ?f = Some c"
    using Remove_files [of E ?t w3] c(2) tmp_differs [OF assms(2), of ?u] unfolding w' by (auto simp: delete_conv')
  moreover have "w_clock w1 = Suc (w_clock w)" using 1 by (auto simp: os_call_def interact_run fail_def done_with_def split: option.splits)
  then have "is_http ?u \<longrightarrow> c = snd (co_http (E (Suc (w_clock w))))" using downloadFile_http(2) [OF 2] c(1) by auto
  ultimately show ?thesis using c by metis
qed

lemma checksum_line_nonempty:
  assumes "[] \<notin> ran (map_of m)"
  shows "[] \<notin> ran (map_of (checksum_line l m))"
proof (cases "\<exists>h f r. Fields (TrimSpace l) = h # f # r")
  case True
  then obtain h f r where f: "Fields (TrimSpace l) = h # f # r" by blast
  have "[] \<notin> set (Fields (TrimSpace l))" by (simp add: Fields_def)
  then have "h \<noteq> []" unfolding f by auto
  moreover have "ran ((map_of m)(f \<mapsto> h)) \<subseteq> insert h (ran (map_of m))" by (auto simp: ran_def)
  ultimately show ?thesis using f assms by (auto simp: checksum_line_def update_conv')
next
  case False
  then have "checksum_line l m = m" by (auto simp: checksum_line_def split: list.split)
  with assms show ?thesis by simp
qed

lemma listed_nonempty: "map_of (parse_checksums c) f = Some h \<Longrightarrow> h \<noteq> []"
proof -
  have "[] \<notin> ran (map_of m) \<Longrightarrow> [] \<notin> ran (map_of (fold checksum_line ls m))" for ls m
    by (induction ls arbitrary: m) (simp_all add: checksum_line_nonempty)
  from this [of "[]"] show "map_of (parse_checksums c) f = Some h \<Longrightarrow> h \<noteq> []" by (auto simp: parse_checksums_def ran_def)
qed

lemma verify_rejects:
  assumes "map_of (w_files w) t = Some c" and "expected \<noteq> []" and "sha c \<noteq> expected"
  shows "w_files (snd (run_state (verify_and_place sha host E t f expected) w)) = w_files w"
  using assms
  by (auto simp: verify_and_place_def calculateSHA256_def check_def wrapf_def ReadFile_def os_call_def interact_run get_run fail_def done_with_def
      split: option.splits)

lemma os_call_clock: "run_state (os_call E) w = (r, w') \<Longrightarrow> w_clock w' = Suc (w_clock w)"
  by (auto simp: os_call_def interact_run fail_def done_with_def split: option.splits)

text \<open>The effect of \<open>check\<close>, also when its first action fails.\<close>

lemma check_run:
  "run_state (check m f) w = (case run_state m w of (Inl e, w1) \<Rightarrow> (Inl e, w1) | (Inr x, w1) \<Rightarrow> run_state (f x) w1)"
  by (auto simp: check_def fail_def split: prod.split sum.split)

lemma wrapf_run: "run_state (wrapf msg m) w = (case run_state m w of (Inl e, w1) \<Rightarrow> (Inl (CapWrapf msg e), w1) | (Inr x, w1) \<Rightarrow> (Inr x, w1))"
  by (auto simp: wrapf_def fail_def done_with_def split: prod.split sum.split)

subsection \<open>A world for the witnesses\<close>

definition demo_obs :: cap_obs where
  "demo_obs = \<lparr>co_err = None, co_short = 0, co_http = (200, ''abc''), co_id = ''c1'', co_now = 5, co_events = []\<rparr>"

definition demo_sha :: "bytes \<Rightarrow> string" where
  "demo_sha c = (if c = ''abc'' then ''ba78'' else ''00'')"

definition demo_world :: world where
  "demo_world = \<lparr>w_clock = 0, w_files = [], w_sup = NewProcessSupervisor ''/log''\<rparr>"

text \<open>The list is served by the call after the first, the binary by the others.\<close>

definition demo_cap_env :: cap_env where
  "demo_cap_env n = (if n = 1 then demo_obs\<lparr>co_http := (200, ''ba78  tool'')\<rparr> else demo_obs)"

lemma demo_uri: "expandURITemplate (''linux'', ''amd64'') ''http://h/tool'' ''1'' = ''http://h/tool''"
  by (simp add: expandURITemplate_def ReplaceAll.simps HasPrefix_def)

lemma demo_paths: "Base ''http://h/tool'' = ''tool''" "path_Join [''/s'', ''tool''] = ''/s/tool''" "path_Join [''/s'', ''tool.tmp''] = ''/s/tool.tmp''"
    "path_Join [''/s'', ''checksums.txt''] = ''/s/checksums.txt''" "HasPrefix ''http://h/tool'' ''file://'' = False" "HasPrefix ''http://h/tool'' ''http://'' = True"
    "HasPrefix ''http://h/sums'' ''file://'' = False" "HasPrefix ''http://h/sums'' ''http://'' = True"
  by (simp_all add: Base_def path_Join_def Clean_def clean_step_def HasPrefix_def)

lemma demo_sums: "parse_checksums ''ba78  tool'' = [(''tool'', ''ba78'')]"
  by (simp add: parse_checksums_def checksum_line_def Fields_def TrimSpace_def is_space_def)

lemmas cap_runs = check_run wrapf_run deferred_def os_call_def interact_run ReadFile_def get_run Create_def Copy_def set_file_def delete_file_def
  Rename_def Remove_def fail_def done_with_def background_def Let_def

subsection \<open>Properties\<close>

text \<open>
  A download against a list of checksums fetched over HTTP succeeds only with a file whose
  digest the list gives for that name, and that file is in place at the end. The list is never
  bypassed: an entry without a digest does not exist.
\<close>

theorem checksummed_download_is_verified:
  assumes "run_state (DownloadWithChecksumsFile sha host E d uri v curi) w = (Inr res, w')" and "d \<noteq> []" and "is_http curi"
    and "Base (expandURITemplate host uri v) \<noteq> ''checksums.txt''"
  shows "fst (co_http (E (Suc (w_clock w)))) = 200
     \<and> (\<exists>c. map_of (w_files w') (dr_Path res) = Some c \<and> dr_SHA256 res = sha c
          \<and> map_of (parse_checksums (snd (co_http (E (Suc (w_clock w)))))) (Base (expandURITemplate host uri v)) = Some (sha c))"
proof -
  let ?f = "Base (expandURITemplate host uri v)" and ?k = "path_Join [d, ''checksums.txt'']"
  obtain ob w1 w2 w3 content w4 h where 1: "run_state (os_call E) w = (Inr ob, w1)" and 2: "run_state (downloadFile E curi ?k) w1 = (Inr (), w2)"
    and 3: "run_state (ReadFile E ?k) w2 = (Inr content, w3)" and h: "map_of (parse_checksums content) ?f = Some h"
    and 4: "run_state (Download sha host E d uri v h) w3 = (Inr res, w4)" and w': "w' = snd (run_state (Remove E ?k) w4)"
    using assms(1) unfolding DownloadWithChecksumsFile_def parseChecksumsFile_def Let_def by (auto simp: outcome split: option.splits)
  have clock: "w_clock w1 = Suc (w_clock w)" using os_call_clock [OF 1] .
  have content: "fst (co_http (E (Suc (w_clock w)))) = 200" "content = snd (co_http (E (Suc (w_clock w))))"
    using downloadFile_http [OF 2 assms(3)] ReadFile_ok(1) [OF 3] clock by auto
  obtain c where c: "map_of (w_files w4) (dr_Path res) = Some c" "dr_Path res = path_Join [d, ?f]" "dr_SHA256 res = sha c" "sha c = h"
    using Download_ok [OF 4 assms(2)] listed_nonempty [OF h] by blast
  have "map_of (w_files w') (dr_Path res) = Some c"
    using Remove_files [of E ?k w4] c(1,2) checksums_differs [OF assms(2,4)] unfolding w' by (auto simp: delete_conv')
  with content c(3,4) h show ?thesis by auto
qed

text \<open>
  A binary fetched over HTTP whose digest is not the expected one is rejected, and no file but
  the temporary one is changed, whatever else fails.
\<close>

theorem tampered_download_is_rejected:
  assumes "is_http (expandURITemplate host uri v)" and "d \<noteq> []" and "expected \<noteq> []" and "sha (snd (co_http (E (Suc (w_clock w))))) \<noteq> expected"
  shows "isl (fst (run_state (Download sha host E d uri v expected) w))
     \<and> (\<forall>p. p \<noteq> path_Join [d, Base (expandURITemplate host uri v) @ ''.tmp''] \<longrightarrow>
          map_of (w_files (snd (run_state (Download sha host E d uri v expected) w))) p = map_of (w_files w) p)"
proof
  let ?m = "Download sha host E d uri v expected" and ?u = "expandURITemplate host uri v"
  let ?t = "path_Join [d, Base ?u @ ''.tmp'']" and ?f = "path_Join [d, Base ?u]"
  show "isl (fst (run_state ?m w))"
  proof (rule ccontr)
    assume "\<not> isl (fst (run_state ?m w))"
    then obtain res w' where "run_state ?m w = (Inr res, w')" by (metis prod.collapse sum.collapse(2))
    from Download_ok [OF this assms(2)] assms(1,3,4) show False by auto
  qed
  show "\<forall>p. p \<noteq> ?t \<longrightarrow> map_of (w_files (snd (run_state ?m w))) p = map_of (w_files w) p"
  proof (cases "\<exists>ob w1 w2. run_state (os_call E) w = (Inr ob, w1) \<and> run_state (downloadFile E ?u ?t) w1 = (Inr (), w2)")
    case True
    then obtain ob w1 w2 where 1: "run_state (os_call E) w = (Inr ob, w1)" and 2: "run_state (downloadFile E ?u ?t) w1 = (Inr (), w2)" by blast
    let ?v = "verify_and_place sha host E ?t ?f expected"
    have "map_of (w_files w2) ?t = Some (snd (co_http (E (Suc (w_clock w)))))" using downloadFile_http(2) [OF 2 assms(1)] os_call_clock [OF 1] by simp
    then have "w_files (snd (run_state ?v w2)) = w_files w2" using assms(3,4) by (intro verify_rejects)
    moreover have "snd (run_state ?m w) = snd (run_state (Remove E ?t) (snd (run_state ?v w2)))"
      unfolding Download_def Let_def using 1 2 by (simp add: check_run wrapf_run deferred_def case_prod_beta)
    moreover have "touches {?t} (downloadFile E ?u ?t)" "touches {?t} (Remove E ?t)" "touches {?t} (os_call E)" by (simp_all add: touch)
    ultimately show ?thesis using 1 2 touchesD [of "{?t}"] by (metis singletonD snd_conv)
  next
    case False
    let ?m' = "check (wrapf ''failed to create staging directory'' (os_call E)) (\<lambda>_. wrapf ''failed to download binary'' (downloadFile E ?u ?t))"
    have "snd (run_state ?m w) = snd (run_state ?m' w)"
      using False unfolding Download_def Let_def by (auto simp: check_run wrapf_run split: prod.split sum.split)
    moreover have "map_of (w_files (snd (run_state ?m' w))) p = map_of (w_files w) p" if "p \<noteq> ?t" for p
      by (rule touchesD [where P = "{?t}"], intro files.rules touch) (simp_all add: that)
    ultimately show ?thesis by simp
  qed
qed

theorem checksummed_download_is_verified_witness:
  "\<exists>res w'. run_state (DownloadWithChecksumsFile demo_sha (''linux'', ''amd64'') demo_cap_env ''/s'' ''http://h/tool'' ''1'' ''http://h/sums'') demo_world = (Inr res, w')
     \<and> dr_SHA256 res = ''ba78''"
proof -
  let ?m = "DownloadWithChecksumsFile demo_sha (''linux'', ''amd64'') demo_cap_env ''/s'' ''http://h/tool'' ''1'' ''http://h/sums''"
  have "\<exists>res w'. run_state ?m demo_world = (Inr res, w')"
    unfolding DownloadWithChecksumsFile_def Download_def verify_and_place_def calculateSHA256_def parseChecksumsFile_def downloadFile_def
    by (simp add: cap_runs demo_uri demo_paths demo_sums demo_world_def demo_cap_env_def demo_obs_def demo_sha_def)
  then obtain res w' where r: "run_state ?m demo_world = (Inr res, w')" by blast
  have "is_http ''http://h/sums''" by (simp add: is_http_def demo_paths)
  from checksummed_download_is_verified [OF r _ this] have "dr_SHA256 res = ''ba78''"
    by (auto simp: demo_uri demo_paths demo_world_def demo_cap_env_def demo_sums)
  with r show ?thesis by blast
qed

theorem tampered_download_is_rejected_witness:
  "isl (fst (run_state (Download demo_sha (''linux'', ''amd64'') demo_cap_env ''/s'' ''http://h/tool'' ''1'' ''ba78'') demo_world))"
  using tampered_download_is_rejected [of "(''linux'', ''amd64'')" "''http://h/tool''" "''1''" "''/s''" "''ba78''" demo_sha demo_cap_env demo_world]
  by (simp add: demo_uri is_http_def demo_paths demo_world_def demo_cap_env_def demo_sha_def)

end
