(* ===== verification/Cap_Lifecycle.thy ===== *)
theory Cap_Lifecycle
  imports Cap_Downloader
begin

text \<open>
  Installing and running providers: the provider store (\<open>internal/capability/store/provider_store.go\<close>),
  the lifecycle of binaries (\<open>binary_lifecycle.go\<close>) and of providers of both kinds (\<open>lifecycle.go\<close>).
  The state file is modelled by the records it holds; the JSON text of the runtime requirements of
  a provider, kept in its metadata, is a parameter with its reader.
\<close>

declare map_of_eq_Some_iff [simp del]

subsection \<open>Data\<close>

datatype ProviderState = ProviderStateInstalling | ProviderStateInstalled | ProviderStateRunning | ProviderStateStopped
  | ProviderStateFailed | ProviderStateUnknown | ProviderStateUninstalled | ProviderStateOther string

record InstallState =
  is_ProviderID :: string
  is_Version :: string
  is_Status :: ProviderState
  is_BinaryPath :: string
  is_Digest :: string
  is_Platform :: string
  is_PID :: nat
  is_Healthy :: bool
  is_InstalledAt :: int

record ProviderInstance =
  in_ProviderID :: string
  in_Version :: string
  in_State :: ProviderState
  in_Capabilities :: "string list"
  in_Endpoint :: string
  in_InstalledAt :: int
  in_RuntimeID :: string
  in_Metadata :: "(string, string) gomap"

datatype statefile = NoFile | BadFile | Stored "(string, ProviderInstance) gomap"

text \<open>What \<open>ContainerCreate\<close> is asked for; \<open>cw_requests\<close> are the requests so far.\<close>

record ContainerRequest =
  ct_Name :: string
  ct_Image :: string
  ct_Labels :: "(string, string) gomap"
  ct_NetworkMode :: string
  ct_ReadonlyRootfs :: bool
  ct_Memory :: int
  ct_SecurityOpt :: "string list"
  ct_CapDrop :: "string list"
  ct_Tmpfs :: "(string, string) gomap"

record cap_world = world +
  cw_state :: statefile
  cw_envOverrides :: "(string, (string, string) gomap) gomap"
  cw_requests :: "ContainerRequest list"

text \<open>What is fixed: the platform, the digest, the Docker client (if there is one), the JSON of requirements, the configuration.\<close>

record cap_config =
  cc_host :: "string \<times> string"
  cc_sha :: "bytes \<Rightarrow> string"
  cc_docker :: bool
  cc_marshal :: "RuntimeRequirements \<Rightarrow> string"
  cc_unmarshal :: "string \<Rightarrow> RuntimeRequirements option"
  cc_StagingDir :: string
  cc_ProviderDir :: string
  cc_Network :: string
  cc_MemoryLimit :: string

type_synonym 'a life_action = "(cap_world, (cap_err, 'a) result) state"

definition zero_requirements :: RuntimeRequirements where
  "zero_requirements = \<lparr>rr_LaunchMode = LaunchModeOther [], rr_HealthEndpoint = [], rr_Port = 0, rr_Args = [], rr_Env = []\<rparr>"

subsection \<open>provider_store.go\<close>

definition ps_Load :: "cap_env \<Rightarrow> (string, ProviderInstance) gomap life_action" where
  "ps_Load E = do {
     w \<leftarrow> State_Monad.get;
     case cw_state w of
       NoFile \<Rightarrow> done_with []
     | BadFile \<Rightarrow> check (wrapf ''failed to read provider state file'' (os_call E)) (\<lambda>_.
         fail (CapWrapf ''failed to unmarshal provider state'' (CapErrorf ''json'')))
     | Stored m \<Rightarrow> check (wrapf ''failed to read provider state file'' (os_call E)) (\<lambda>_. done_with m) }"

definition ps_Save :: "cap_env \<Rightarrow> (string, ProviderInstance) gomap \<Rightarrow> unit life_action" where
  "ps_Save E m =
     check (wrapf ''failed to write provider state to temp file'' (os_call E)) (\<lambda>_.
     check (wrapf ''failed to rename provider state file'' (os_call E)) (\<lambda>_.
       State (\<lambda>w. (Inr (), w\<lparr>cw_state := Stored m\<rparr>))))"

definition SaveProvider :: "cap_env \<Rightarrow> ProviderInstance \<Rightarrow> unit life_action" where
  "SaveProvider E inst =
     check (wrapf ''failed to load provider state'' (ps_Load E)) (\<lambda>m.
       ps_Save E (AList.update (providerKey (in_ProviderID inst) (in_Version inst)) inst m))"

definition store_GetProvider :: "cap_env \<Rightarrow> string \<Rightarrow> string \<Rightarrow> ProviderInstance life_action" where
  "store_GetProvider E providerID version =
     check (wrapf ''failed to load provider state'' (ps_Load E)) (\<lambda>m.
       case map_of m (providerKey providerID version) of
         None \<Rightarrow> fail (CapErrorf (''provider not found: '' @ providerID @ '':'' @ version))
       | Some inst \<Rightarrow> done_with inst)"

definition DeleteProvider :: "cap_env \<Rightarrow> string \<Rightarrow> string \<Rightarrow> unit life_action" where
  "DeleteProvider E providerID version =
     check (wrapf ''failed to load provider state'' (ps_Load E)) (\<lambda>m.
       ps_Save E (AList.delete (providerKey providerID version) m))"

definition store_ListProviders :: "ProviderInstance range \<Rightarrow> cap_env \<Rightarrow> ProviderInstance list life_action" where
  "store_ListProviders rng E =
     check (wrapf ''failed to load provider state'' (ps_Load E)) (\<lambda>m. done_with (rng 0 (map snd m)))"

subsection \<open>The supervisor, called from here\<close>

definition sup_Start :: "cap_env \<Rightarrow> start_args \<Rightarrow> unit life_action" where
  "sup_Start E a = do {
     ob \<leftarrow> interact E;
     State (\<lambda>w. case sv_Start (co_now ob) (co_err ob) a (w_sup w) of
       (Some e, s) \<Rightarrow> (Inl e, w\<lparr>w_sup := s\<rparr>) | (None, s) \<Rightarrow> (Inr (), w\<lparr>w_sup := s\<rparr>)) }"

text \<open>The steps of the processes during the sleep of \<open>Stop\<close> are those of an interaction.\<close>

definition sup_Stop :: "cap_env \<Rightarrow> string \<Rightarrow> string \<Rightarrow> unit life_action" where
  "sup_Stop E providerID version =
     check (State (\<lambda>w. case sv_Stop1 providerID version (w_sup w) of (r, s) \<Rightarrow> (r, w\<lparr>w_sup := s\<rparr>))) (\<lambda>i. do {
       interact E;
       State (\<lambda>w. (Inr (), w\<lparr>w_sup := sv_Stop2 i (w_sup w)\<rparr>)) })"

subsection \<open>binary_lifecycle.go\<close>

definition Contains :: "string \<Rightarrow> string \<Rightarrow> bool" where
  "Contains s t = list_ex (\<lambda>i. HasPrefix (drop i s) t) [0..<Suc (length s)]"

definition expandArtifactURI :: "cap_config \<Rightarrow> Provider \<Rightarrow> string" where
  "expandArtifactURI c p =
     (let u = ReplaceAll ''{version}'' (prov_Version p) (art_URI (prov_Artifact p));
          u2 = (if Contains u ''{os}'' \<or> Contains u ''{arch}''
                then ReplaceAll ''{arch}'' (snd (cc_host c)) (ReplaceAll ''{os}'' (fst (cc_host c)) u) else u)
      in if fst (cc_host c) = ''windows'' \<and> \<not> HasSuffix u2 ''.exe'' then u2 @ ''.exe'' else u2)"

definition expandChecksumsURI :: "Provider \<Rightarrow> string" where
  "expandChecksumsURI p =
     (case art_Checksums (prov_Artifact p) of None \<Rightarrow> [] | Some uri \<Rightarrow> ReplaceAll ''{version}'' (prov_Version p) uri)"

definition getBinaryName :: "cap_config \<Rightarrow> Provider \<Rightarrow> string" where
  "getBinaryName c p =
     (let name = ReplaceAll [CHR 0x5C] ''-'' (ReplaceAll ''/'' ''-'' (prov_ID p))
      in if fst (cc_host c) = ''windows'' then name @ ''.exe'' else name)"

definition fetch_binary :: "cap_config \<Rightarrow> cap_env \<Rightarrow> Provider \<Rightarrow> DownloadResult life_action" where
  "fetch_binary c E p =
     (let artifactURI = expandArtifactURI c p in
      if art_Checksums (prov_Artifact p) \<noteq> None \<and> art_Checksums (prov_Artifact p) \<noteq> Some []
      then DownloadWithChecksumsFile (cc_sha c) (cc_host c) E (cc_StagingDir c) artifactURI (prov_Version p) (expandChecksumsURI p)
      else if art_Digest (prov_Artifact p) \<noteq> []
      then Download (cc_sha c) (cc_host c) E (cc_StagingDir c) artifactURI (prov_Version p) (art_Digest (prov_Artifact p))
      else Download (cc_sha c) (cc_host c) E (cc_StagingDir c) artifactURI (prov_Version p) [])"

definition host_supported :: "cap_config \<Rightarrow> Provider \<Rightarrow> bool" where
  "host_supported c p =
     (art_SupportedPlatforms (prov_Artifact p) = [] \<or> cc_host c \<in> set (art_SupportedPlatforms (prov_Artifact p)))"

definition bl_Install :: "cap_config \<Rightarrow> cap_env \<Rightarrow> Provider \<Rightarrow> InstallState life_action" where
  "bl_Install c E p =
     (if \<not> host_supported c p
      then fail (CapErrorf (''provider '' @ prov_ID p @ '' does not support platform '' @ fst (cc_host c) @ ''/'' @ snd (cc_host c)
             @ ''; supported platforms: ['' @ Join (CHR '' '') (map (\<lambda>(os, arch). os @ ''/'' @ arch) (art_SupportedPlatforms (prov_Artifact p))) @ '']''))
      else let providerDir = path_Join [cc_ProviderDir c, prov_ID p, prov_Version p] in
        check (wrapf ''failed to create provider directory'' (os_call E)) (\<lambda>_.
        check (wrapf ''failed to download binary'' (fetch_binary c E p)) (\<lambda>result.
          let finalPath = path_Join [providerDir, getBinaryName c p] in
          check (wrapf ''failed to move binary to final location'' (Rename E (dr_Path result) finalPath)) (\<lambda>_.
            done_with \<lparr>is_ProviderID = prov_ID p, is_Version = prov_Version p, is_Status = ProviderStateInstalled, is_BinaryPath = finalPath,
              is_Digest = dr_SHA256 result, is_Platform = dr_Platform result, is_PID = 0, is_Healthy = False, is_InstalledAt = dr_Size result\<rparr>))))"

definition bl_Start :: "cap_env \<Rightarrow> Provider \<Rightarrow> InstallState \<Rightarrow> InstallState life_action" where
  "bl_Start E p state =
     (let rr = prov_Runtime p;
          healthEndpoint = (if rr_HealthEndpoint rr \<noteq> [] then rr_HealthEndpoint rr
                            else if rr_Port rr \<noteq> 0 then ''http://localhost:'' @ show_int (rr_Port rr) @ ''/health'' else [])
      in check (wrapf ''failed to start provider process''
           (sup_Start E \<lparr>sa_ProviderID = prov_ID p, sa_Version = prov_Version p, sa_binaryPath = is_BinaryPath state, sa_args = rr_Args rr,
              sa_env = rr_Env rr, sa_healthEndpoint = healthEndpoint, sa_policy = DefaultRestartPolicy\<rparr>))
         (\<lambda>_. done_with (state\<lparr>is_Status := ProviderStateRunning\<rparr>)))"

definition bl_Stop :: "cap_env \<Rightarrow> Provider \<Rightarrow> InstallState \<Rightarrow> InstallState life_action" where
  "bl_Stop E p state =
     check (wrapf ''failed to stop provider process'' (sup_Stop E (prov_ID p) (prov_Version p))) (\<lambda>_.
       done_with (state\<lparr>is_Status := ProviderStateStopped\<rparr>))"

definition bl_Uninstall :: "cap_config \<Rightarrow> cap_env \<Rightarrow> Provider \<Rightarrow> InstallState \<Rightarrow> InstallState life_action" where
  "bl_Uninstall c E p state = do {
     (if is_Status state = ProviderStateRunning then do { bl_Stop E p state; State_Monad.return () } else State_Monad.return ());
     check (wrapf ''failed to remove provider directory'' (RemoveAll E (path_Join [cc_ProviderDir c, prov_ID p, prov_Version p]))) (\<lambda>_.
       done_with (state\<lparr>is_Status := ProviderStateUninstalled\<rparr>)) }"

definition bl_GetStatus :: "cap_env \<Rightarrow> Provider \<Rightarrow> InstallState \<Rightarrow> InstallState life_action" where
  "bl_GetStatus E p state = do {
     ob \<leftarrow> interact E;
     State (\<lambda>w. case sv_GetStatus (co_now ob) (prov_ID p) (prov_Version p) (w_sup w) of
       (Inl _, s) \<Rightarrow> (Inr state, w\<lparr>w_sup := s\<rparr>)
     | (Inr info, s) \<Rightarrow>
         (Inr (state\<lparr>is_Status := (case pi_State info of
                 ProcessStateRunning \<Rightarrow> ProviderStateRunning | ProcessStateStopped \<Rightarrow> ProviderStateStopped
               | ProcessStateCrashed \<Rightarrow> ProviderStateFailed | ProcessStateFailed \<Rightarrow> ProviderStateFailed | _ \<Rightarrow> is_Status state),
             is_PID := pi_PID info, is_Healthy := pi_Healthy info\<rparr>), w\<lparr>w_sup := s\<rparr>)) }"

subsection \<open>lifecycle.go\<close>

definition SetEnvOverride :: "string \<Rightarrow> (string, string) gomap \<Rightarrow> cap_world \<Rightarrow> cap_world" where
  "SetEnvOverride providerID env w = w\<lparr>cw_envOverrides := AList.update providerID env (cw_envOverrides w)\<rparr>"

definition extractCapabilityIDs :: "CapabilityRef list \<Rightarrow> string list" where
  "extractCapabilityIDs refs = map cr_ID refs"

text \<open>\<open>fmt.Sscanf(s, "%d", &mb)\<close>: spaces, a sign, digits; nothing is stored when there are none or too many.\<close>

definition scan_int64 :: "string \<Rightarrow> int" where
  "scan_int64 s =
     (let t = dropWhile is_space s;
          (neg, u) = (case t of c # r \<Rightarrow> if c = CHR ''-'' then (True, r) else if c = CHR ''+'' then (False, r) else (False, t) | [] \<Rightarrow> (False, []));
          ds = takeWhile is_digit u;
          n = (if neg then - int (nat_of_digits ds) else int (nat_of_digits ds))
      in if ds = [] \<or> \<not> int64_range n then 0 else n)"

definition lower_ascii :: "char \<Rightarrow> char" where
  "lower_ascii c = (if (65::nat) \<le> of_char c \<and> of_char c \<le> (90::nat) then char_of (of_char c + 32 :: nat) else c)"

definition parseMemoryLimit :: "string \<Rightarrow> int" where
  "parseMemoryLimit limit =
     (if limit = [] then 512 * 1024 * 1024
      else let l = map lower_ascii (TrimSpace limit) in
           if HasSuffix l ''m'' then sint (of_int (scan_int64 (butlast l)) * 1024 * 1024 :: 64 word)
           else 512 * 1024 * 1024)"

fun trust_name :: "TrustTier \<Rightarrow> string" where
  "trust_name TrustOfficial = ''official''"
| "trust_name TrustCertified = ''certified''"
| "trust_name TrustCommunity = ''community''"
| "trust_name TrustExperimental = ''experimental''"
| "trust_name TrustLocal = ''local''"
| "trust_name (TrustOther s) = s"

definition container_request :: "cap_config \<Rightarrow> Provider \<Rightarrow> ContainerRequest" where
  "container_request c p =
     \<lparr>ct_Name = ''underleaf-provider-'' @ prov_ID p @ ''-'' @ prov_Version p, ct_Image = art_URI (prov_Artifact p),
      ct_Labels = [(''underleaf.provider'', prov_ID p), (''underleaf.version'', prov_Version p), (''underleaf.trust_tier'', trust_name (prov_TrustTier p)),
        (''underleaf.managed_by'', ''capability-manager'')],
      ct_NetworkMode = cc_Network c, ct_ReadonlyRootfs = True, ct_Memory = parseMemoryLimit (cc_MemoryLimit c), ct_SecurityOpt = [''no-new-privileges''],
      ct_CapDrop = [''ALL''], ct_Tmpfs = [(''/tmp'', ''rw,noexec,nosuid,size=65536k'')]\<rparr>"

definition ContainerCreate :: "cap_env \<Rightarrow> ContainerRequest \<Rightarrow> cap_obs life_action" where
  "ContainerCreate E req = do { State (\<lambda>w. ((), w\<lparr>cw_requests := cw_requests w @ [req]\<rparr>)); os_call E }"

definition mark_failed :: "cap_env \<Rightarrow> ProviderInstance \<Rightarrow> string \<Rightarrow> cap_err \<Rightarrow> 'a life_action" where
  "mark_failed E inst msg e = do { SaveProvider E (inst\<lparr>in_State := ProviderStateFailed\<rparr>); fail (CapWrapf msg e) }"

definition new_instance :: "Provider \<Rightarrow> int \<Rightarrow> ProviderInstance" where
  "new_instance p now = \<lparr>in_ProviderID = prov_ID p, in_Version = prov_Version p, in_State = ProviderStateInstalling,
     in_Capabilities = extractCapabilityIDs (prov_Capabilities p), in_Endpoint = [], in_InstalledAt = now, in_RuntimeID = [], in_Metadata = []\<rparr>"

definition installOCI :: "cap_config \<Rightarrow> cap_env \<Rightarrow> Provider \<Rightarrow> ProviderInstance life_action" where
  "installOCI c E p =
     (if \<not> cc_docker c then fail (CapErrorf ''docker client not available for OCI providers'')
      else do {
        ob \<leftarrow> interact E;
        (let inst = new_instance p (co_now ob) in
         check (wrapf ''failed to save provider state'' (SaveProvider E inst)) (\<lambda>_.
         on_error (os_call E) (mark_failed E inst ''failed to pull image'') (\<lambda>_.
         on_error (ContainerCreate E (container_request c p)) (mark_failed E inst ''failed to create container'') (\<lambda>resp.
           let inst' = inst\<lparr>in_RuntimeID := co_id resp, in_State := ProviderStateStopped,
                 in_Endpoint := ''unix:///var/run/underleaf/providers/'' @ prov_ID p @ ''.sock''\<rparr>
           in check (wrapf ''failed to update provider state'' (SaveProvider E inst')) (\<lambda>_. done_with inst'))))) })"

definition installBinary :: "cap_config \<Rightarrow> cap_env \<Rightarrow> Provider \<Rightarrow> ProviderInstance life_action" where
  "installBinary c E p = do {
     ob \<leftarrow> interact E;
     (let inst = new_instance p (co_now ob) in
      check (wrapf ''failed to save provider state'' (SaveProvider E inst)) (\<lambda>_.
      on_error (bl_Install c E p) (mark_failed E inst ''failed to install binary'') (\<lambda>st.
        let inst' = inst\<lparr>in_RuntimeID := is_BinaryPath st, in_State := ProviderStateInstalled, in_Endpoint := [],
              in_Metadata := [(''binary_path'', is_BinaryPath st), (''digest'', is_Digest st), (''platform'', is_Platform st),
                (''runtime_requirements'', cc_marshal c (prov_Runtime p))]\<rparr>
        in check (wrapf ''failed to update provider state'' (SaveProvider E inst')) (\<lambda>_. done_with inst')))) }"

fun artifact_name :: "ArtifactType \<Rightarrow> string" where
  "artifact_name ArtifactOCI = ''oci''"
| "artifact_name ArtifactBinary = ''binary''"
| "artifact_name ArtifactGit = ''git''"
| "artifact_name ArtifactNPM = ''npm''"
| "artifact_name ArtifactPyPI = ''pypi''"
| "artifact_name (ArtifactOther s) = s"

definition life_Install :: "cap_config \<Rightarrow> cap_env \<Rightarrow> Provider \<Rightarrow> ProviderInstance life_action" where
  "life_Install c E p =
     (case art_Type (prov_Artifact p) of
        ArtifactOCI \<Rightarrow> installOCI c E p
      | ArtifactBinary \<Rightarrow> installBinary c E p
      | t \<Rightarrow> fail (CapErrorf (''unsupported artifact type: '' @ artifact_name t)))"

definition binary_path :: "ProviderInstance \<Rightarrow> string" where
  "binary_path inst = (case map_of (in_Metadata inst) ''binary_path'' of None \<Rightarrow> [] | Some s \<Rightarrow> s)"

definition startOCI :: "cap_config \<Rightarrow> cap_env \<Rightarrow> ProviderInstance \<Rightarrow> unit life_action" where
  "startOCI c E inst =
     (if \<not> cc_docker c then fail (CapErrorf ''docker client not available'')
      else on_error (os_call E) (mark_failed E inst ''failed to start container'') (\<lambda>_.
        wrapf ''failed to update provider state'' (SaveProvider E (inst\<lparr>in_State := ProviderStateRunning\<rparr>))))"

definition stored_requirements :: "cap_config \<Rightarrow> ProviderInstance \<Rightarrow> RuntimeRequirements" where
  "stored_requirements c inst =
     (case map_of (in_Metadata inst) ''runtime_requirements'' of
        None \<Rightarrow> zero_requirements
      | Some j \<Rightarrow> if j = [] then zero_requirements
                  else (case cc_unmarshal c j of None \<Rightarrow> zero_requirements | Some rr \<Rightarrow> rr))"

definition merge_env :: "(string, string) gomap \<Rightarrow> (string, string) gomap \<Rightarrow> (string, string) gomap" where
  "merge_env overrides env = fold (\<lambda>(k, v). AList.update k v) overrides env"

text \<open>The provider as \<open>startBinary\<close> rebuilds it: only the identity and the requirements are set.\<close>

definition rebuilt_provider :: "ProviderInstance \<Rightarrow> RuntimeRequirements \<Rightarrow> Provider" where
  "rebuilt_provider inst rr = \<lparr>prov_ID = in_ProviderID inst, prov_Version = in_Version inst, prov_TrustTier = TrustOther [], prov_Capabilities = [],
     prov_Artifact = \<lparr>art_Type = ArtifactOther [], art_URI = [], art_Digest = [], art_Checksums = None, art_SupportedPlatforms = []\<rparr>, prov_Runtime = rr\<rparr>"

definition rebuilt_state :: "ProviderInstance \<Rightarrow> InstallState" where
  "rebuilt_state inst = \<lparr>is_ProviderID = in_ProviderID inst, is_Version = in_Version inst, is_Status = ProviderStateOther [],
     is_BinaryPath = binary_path inst, is_Digest = [], is_Platform = [], is_PID = 0, is_Healthy = False, is_InstalledAt = 0\<rparr>"

definition startBinary :: "cap_config \<Rightarrow> cap_env \<Rightarrow> ProviderInstance \<Rightarrow> unit life_action" where
  "startBinary c E inst = do {
     w \<leftarrow> State_Monad.get;
     (let rr = stored_requirements c inst;
          overrides = (case map_of (cw_envOverrides w) (in_ProviderID inst) of None \<Rightarrow> [] | Some o' \<Rightarrow> o');
          provider = rebuilt_provider inst (rr\<lparr>rr_Env := merge_env overrides (rr_Env rr)\<rparr>)
      in on_error (bl_Start E provider (rebuilt_state inst)) (mark_failed E inst ''failed to start binary'') (\<lambda>_.
           wrapf ''failed to update provider state'' (SaveProvider E (inst\<lparr>in_State := ProviderStateRunning\<rparr>)))) }"

definition life_Start :: "cap_config \<Rightarrow> cap_env \<Rightarrow> string \<Rightarrow> string \<Rightarrow> unit life_action" where
  "life_Start c E providerID version =
     check (wrapf ''provider not found'' (store_GetProvider E providerID version)) (\<lambda>inst.
       if in_RuntimeID inst = [] then fail (CapErrorf ''provider has no runtime ID'')
       else if binary_path inst \<noteq> [] then startBinary c E inst
       else startOCI c E inst)"

definition stopOCI :: "cap_config \<Rightarrow> cap_env \<Rightarrow> ProviderInstance \<Rightarrow> unit life_action" where
  "stopOCI c E inst =
     (if \<not> cc_docker c then fail (CapErrorf ''docker client not available'')
      else check (wrapf ''failed to stop container'' (os_call E)) (\<lambda>_.
        wrapf ''failed to update provider state'' (SaveProvider E (inst\<lparr>in_State := ProviderStateStopped\<rparr>))))"

definition stopBinary :: "cap_env \<Rightarrow> ProviderInstance \<Rightarrow> unit life_action" where
  "stopBinary E inst =
     check (wrapf ''failed to stop binary process'' (sup_Stop E (in_ProviderID inst) (in_Version inst))) (\<lambda>_.
       wrapf ''failed to update provider state'' (SaveProvider E (inst\<lparr>in_State := ProviderStateStopped\<rparr>)))"

definition life_Stop :: "cap_config \<Rightarrow> cap_env \<Rightarrow> string \<Rightarrow> string \<Rightarrow> unit life_action" where
  "life_Stop c E providerID version =
     check (wrapf ''provider not found'' (store_GetProvider E providerID version)) (\<lambda>inst.
       if in_RuntimeID inst = [] then fail (CapErrorf ''provider has no runtime ID'')
       else if binary_path inst \<noteq> [] then stopBinary E inst
       else stopOCI c E inst)"

definition uninstallOCI :: "cap_config \<Rightarrow> cap_env \<Rightarrow> ProviderInstance \<Rightarrow> unit life_action" where
  "uninstallOCI c E inst =
     (if \<not> cc_docker c then fail (CapErrorf ''docker client not available'')
      else do {
        (if in_RuntimeID inst \<noteq> [] then do { stopOCI c E inst; os_call E; State_Monad.return () } else State_Monad.return ());
        wrapf ''failed to delete provider from store'' (DeleteProvider E (in_ProviderID inst) (in_Version inst)) })"

definition uninstallBinary :: "cap_config \<Rightarrow> cap_env \<Rightarrow> ProviderInstance \<Rightarrow> unit life_action" where
  "uninstallBinary c E inst = do {
     sup_Stop E (in_ProviderID inst) (in_Version inst);
     bl_Uninstall c E (rebuilt_provider inst zero_requirements) (rebuilt_state inst);
     wrapf ''failed to delete provider from store'' (DeleteProvider E (in_ProviderID inst) (in_Version inst)) }"

definition life_Uninstall :: "cap_config \<Rightarrow> cap_env \<Rightarrow> string \<Rightarrow> string \<Rightarrow> unit life_action" where
  "life_Uninstall c E providerID version =
     check (wrapf ''provider not found'' (store_GetProvider E providerID version)) (\<lambda>inst.
       if binary_path inst \<noteq> [] then uninstallBinary c E inst else uninstallOCI c E inst)"

definition life_GetStatus :: "cap_env \<Rightarrow> string \<Rightarrow> string \<Rightarrow> ProviderState life_action" where
  "life_GetStatus E providerID version =
     check (wrapf ''provider not found'' (store_GetProvider E providerID version)) (\<lambda>inst. done_with (in_State inst))"

subsection \<open>The store\<close>

definition stored :: "cap_world \<Rightarrow> (string, ProviderInstance) gomap" where
  "stored w = (case cw_state w of Stored m \<Rightarrow> m | _ \<Rightarrow> [])"

lemma os_call_state: "cw_state (snd (run_state (os_call E) w)) = cw_state w" "cw_envOverrides (snd (run_state (os_call E) w)) = cw_envOverrides w"
  by (auto simp: os_call_def interact_run fail_def done_with_def split: option.split)

lemma os_call_keeps: "run_state (os_call E) w = (r, w') \<Longrightarrow> cw_state w' = cw_state w"
  using os_call_state(1) [of E w] by simp

lemma ps_Load_ok: "run_state (ps_Load E) w = (Inr m, w') \<Longrightarrow> m = stored w \<and> cw_state w' = cw_state w \<and> w_files w' = w_files w"
  by (auto simp: ps_Load_def get_run outcome stored_def split: statefile.splits dest: os_call_keeps os_call_ok(1))

lemma ps_Load_keeps: "cw_state (snd (run_state (ps_Load E) w)) = cw_state w"
  by (auto simp: ps_Load_def get_run check_run wrapf_run fail_def done_with_def split: statefile.split prod.split sum.split dest: os_call_keeps)

lemma ps_Save_cases: "cw_state (snd (run_state (ps_Save E m) w)) = (if isl (fst (run_state (ps_Save E m) w)) then cw_state w else Stored m)"
  by (auto simp: ps_Save_def check_run wrapf_run split: prod.split sum.split dest!: os_call_keeps)

text \<open>A failing save leaves the state file as it was.\<close>

lemma load_save_cases:
  "cw_state (snd (run_state (check (wrapf msg (ps_Load E)) (\<lambda>m. ps_Save E (f m))) w)) =
     (if isl (fst (run_state (check (wrapf msg (ps_Load E)) (\<lambda>m. ps_Save E (f m))) w)) then cw_state w else Stored (f (stored w)))"
proof (cases "run_state (ps_Load E) w")
  case (Pair r w1)
  have "cw_state w1 = cw_state w" using ps_Load_keeps [of E w] Pair by simp
  then show ?thesis using Pair ps_Save_cases [of E "f (stored w)" w1]
    by (cases r) (auto simp: check_run wrapf_run dest: ps_Load_ok)
qed

lemma SaveProvider_cases:
  "cw_state (snd (run_state (SaveProvider E inst) w)) =
     (if isl (fst (run_state (SaveProvider E inst) w)) then cw_state w
      else Stored (AList.update (providerKey (in_ProviderID inst) (in_Version inst)) inst (stored w)))"
  unfolding SaveProvider_def by (rule load_save_cases)

lemma DeleteProvider_cases:
  "cw_state (snd (run_state (DeleteProvider E i v) w)) =
     (if isl (fst (run_state (DeleteProvider E i v) w)) then cw_state w else Stored (AList.delete (providerKey i v) (stored w)))"
  unfolding DeleteProvider_def by (rule load_save_cases)

lemma SaveProvider_ok:
  "run_state (SaveProvider E inst) w = (Inr (), w') \<Longrightarrow> stored w' = AList.update (providerKey (in_ProviderID inst) (in_Version inst)) inst (stored w)"
  using SaveProvider_cases [of E inst w] by (simp add: stored_def)

lemma store_GetProvider_ok:
  "run_state (store_GetProvider E i v) w = (Inr inst, w') \<Longrightarrow> map_of (stored w) (providerKey i v) = Some inst \<and> cw_state w' = cw_state w"
  by (auto simp: store_GetProvider_def outcome split: option.splits dest: ps_Load_ok)

lemma on_error_ok [outcome]:
  "run_state (on_error m handler f) w = (Inr y, w') \<longleftrightarrow>
     (\<exists>x w1. run_state m w = (Inr x, w1) \<and> run_state (f x) w1 = (Inr y, w')) \<or> (\<exists>e w1. run_state m w = (Inl e, w1) \<and> run_state (handler e) w1 = (Inr y, w'))"
  by (auto simp: on_error_def split: prod.splits sum.splits)

lemma mark_failed_ok [outcome]: "run_state (mark_failed E inst msg e) w = (Inr y, w') \<longleftrightarrow> False"
  by (auto simp: mark_failed_def outcome split: prod.splits)

subsection \<open>Verified installations\<close>

lemma Checksums_ok:
  assumes "run_state (DownloadWithChecksumsFile sha host E d uri v curi) w = (Inr res, w')" and "d \<noteq> []"
    and "map_of (w_files w') (dr_Path res) = Some c"
  shows "dr_SHA256 res = sha c \<and> (is_http curi \<longrightarrow>
     map_of (parse_checksums (snd (co_http (E (Suc (w_clock w)))))) (Base (expandURITemplate host uri v)) = Some (sha c))"
proof -
  let ?f = "Base (expandURITemplate host uri v)" and ?k = "path_Join [d, ''checksums.txt'']"
  obtain ob w1 w2 w3 content w4 h where 1: "run_state (os_call E) w = (Inr ob, w1)" and 2: "run_state (downloadFile E curi ?k) w1 = (Inr (), w2)"
    and 3: "run_state (ReadFile E ?k) w2 = (Inr content, w3)" and h: "map_of (parse_checksums content) ?f = Some h"
    and 4: "run_state (Download sha host E d uri v h) w3 = (Inr res, w4)" and w': "w' = snd (run_state (Remove E ?k) w4)"
    using assms(1) unfolding DownloadWithChecksumsFile_def parseChecksumsFile_def Let_def by (auto simp: outcome split: option.splits)
  have "content = snd (co_http (E (Suc (w_clock w))))" if "is_http curi"
    using downloadFile_http [OF 2 that] ReadFile_ok(1) [OF 3] os_call_clock [OF 1] by auto
  moreover obtain c' where "map_of (w_files w4) (dr_Path res) = Some c'" "dr_SHA256 res = sha c'" "sha c' = h"
    using Download_ok [OF 4 assms(2)] listed_nonempty [OF h] by blast
  moreover have "map_of (w_files w') (dr_Path res) \<in> {None, map_of (w_files w4) (dr_Path res)}"
    using Remove_files [of E ?k w4] unfolding w' by (auto simp: delete_conv')
  ultimately show ?thesis using assms(3) h by auto
qed

lemma fetch_binary_ok:
  assumes "run_state (fetch_binary c E p) w = (Inr res, w')" and "cc_StagingDir c \<noteq> []" and "map_of (w_files w') (dr_Path res) = Some content"
  shows "dr_SHA256 res = cc_sha c content
    \<and> (art_Checksums (prov_Artifact p) \<in> {None, Some []} \<longrightarrow> art_Digest (prov_Artifact p) \<noteq> [] \<longrightarrow> cc_sha c content = art_Digest (prov_Artifact p))
    \<and> (art_Checksums (prov_Artifact p) \<notin> {None, Some []} \<longrightarrow> is_http (expandChecksumsURI p) \<longrightarrow>
        map_of (parse_checksums (snd (co_http (E (Suc (w_clock w)))))) (Base (expandURITemplate (cc_host c) (expandArtifactURI c p) (prov_Version p)))
          = Some (cc_sha c content))"
proof (cases "art_Checksums (prov_Artifact p) \<in> {None, Some []}")
  case True
  let ?d = "art_Digest (prov_Artifact p)"
  have "run_state (Download (cc_sha c) (cc_host c) E (cc_StagingDir c) (expandArtifactURI c p) (prov_Version p) ?d) w = (Inr res, w')"
    using assms(1) True by (cases "?d = []") (auto simp: fetch_binary_def Let_def)
  from Download_ok [OF this assms(2)] True assms(3) show ?thesis by auto
next
  case False
  then have "run_state (DownloadWithChecksumsFile (cc_sha c) (cc_host c) E (cc_StagingDir c) (expandArtifactURI c p) (prov_Version p) (expandChecksumsURI p)) w = (Inr res, w')"
    using assms(1) by (auto simp: fetch_binary_def Let_def)
  from Checksums_ok [OF this assms(2,3)] False show ?thesis by blast
qed

subsection \<open>Memory limits\<close>

lemma digit_facts:
  assumes "is_digit c"
  shows "\<not> is_space c" "lower_ascii c = c" "c \<noteq> CHR ''-''" "c \<noteq> CHR ''+''"
  using assms by (auto simp: is_digit_def is_space_def lower_ascii_def)

lemma scan_show: "int n < 2 ^ 63 \<Longrightarrow> scan_int64 (show_nat n) = int n"
proof -
  assume n: "int n < 2 ^ 63"
  obtain c cs where s: "show_nat n = c # cs" by (cases "show_nat n") auto
  then have d: "\<forall>x\<in>set (c # cs). is_digit x" using show_nat_digits by metis
  then have tw: "takeWhile is_digit cs = cs" by simp
  have "nat_of_digits (c # cs) = n" using nat_of_digits_show [of n] s by simp
  then show ?thesis using s d digit_facts [of c] n by (simp add: scan_int64_def int64_range_def Let_def tw)
qed

lemma limit_text: "map lower_ascii (TrimSpace (show_nat n @ ''m'')) = show_nat n @ ''m''"
proof -
  obtain c cs where s: "show_nat n = c # cs" by (cases "show_nat n") auto
  then have d: "\<forall>x\<in>set (c # cs). is_digit x" using show_nat_digits by metis
  then have "dropWhile is_space (show_nat n @ ''m'') = show_nat n @ ''m''" using s digit_facts(1) [of c] by simp
  moreover have "\<not> is_space (CHR ''m'')" by (simp add: is_space_def)
  ultimately have "TrimSpace (show_nat n @ ''m'') = show_nat n @ ''m''" by (simp add: TrimSpace_def)
  moreover have "map lower_ascii (show_nat n) = show_nat n" using d s digit_facts(2) by (simp add: map_idI)
  ultimately show ?thesis by (simp add: lower_ascii_def)
qed

subsection \<open>When nothing fails\<close>

definition calm :: "cap_env \<Rightarrow> bool" where
  "calm E \<longleftrightarrow> (\<forall>n. co_err (E n) = None \<and> co_events (E n) = [])"

definition tick :: "nat \<Rightarrow> cap_world \<Rightarrow> cap_world" where
  "tick k w = w\<lparr>w_clock := w_clock w + k\<rparr>"

lemma tick_simps [simp]: "cw_state (tick k w) = cw_state w" "w_sup (tick k w) = w_sup w" "w_files (tick k w) = w_files w" "stored (tick k w) = stored w"
    "cw_envOverrides (tick k w) = cw_envOverrides w" "tick k (tick j w) = tick (j + k) w"
  by (simp_all add: tick_def stored_def)

lemma calm_interact: "calm E \<Longrightarrow> run_state (interact E) w = (E (w_clock w), tick 1 w)"
  by (simp add: interact_run calm_def background_def tick_def)

lemma calm_os_call: "calm E \<Longrightarrow> run_state (os_call E) w = (Inr (E (w_clock w)), tick 1 w)"
  by (simp add: os_call_def calm_interact) (simp add: calm_def done_with_def)

lemma calm_load: "calm E \<Longrightarrow> cw_state w \<noteq> BadFile \<Longrightarrow> \<exists>k. run_state (ps_Load E) w = (Inr (stored w), tick k w)"
  by (cases "cw_state w")
     (auto simp: ps_Load_def get_run check_run wrapf_run calm_os_call done_with_def stored_def tick_def intro: exI [of _ 0] exI [of _ 1])

lemma calm_save:
  assumes "calm E" and "cw_state w \<noteq> BadFile"
  shows "\<exists>k. run_state (SaveProvider E inst) w
     = (Inr (), (tick k w)\<lparr>cw_state := Stored (AList.update (providerKey (in_ProviderID inst) (in_Version inst)) inst (stored w))\<rparr>)"
proof -
  obtain k where "run_state (ps_Load E) w = (Inr (stored w), tick k w)" using calm_load [OF assms] by blast
  then show ?thesis using assms(1) by (auto simp: SaveProvider_def ps_Save_def check_run wrapf_run calm_os_call intro: exI [of _ "k + 2"])
qed

lemma calm_get:
  assumes "calm E" and "map_of (stored w) (providerKey i v) = Some inst"
  shows "\<exists>k. run_state (store_GetProvider E i v) w = (Inr inst, tick k w)"
proof -
  have "cw_state w \<noteq> BadFile" using assms(2) by (auto simp: stored_def)
  then obtain k where "run_state (ps_Load E) w = (Inr (stored w), tick k w)" using calm_load [OF assms(1)] by blast
  then show ?thesis using assms(2) by (auto simp: store_GetProvider_def check_run wrapf_run done_with_def)
qed

subsection \<open>The records of the store\<close>

definition inst_ok :: "ProviderInstance \<Rightarrow> bool" where
  "inst_ok inst \<longleftrightarrow> (in_State inst = ProviderStateRunning \<longrightarrow> in_RuntimeID inst \<noteq> [])"

definition store_ok :: "(string, ProviderInstance) gomap \<Rightarrow> bool" where
  "store_ok m \<longleftrightarrow> distinct (map fst m) \<and> (\<forall>k inst. map_of m k = Some inst \<longrightarrow> k = providerKey (in_ProviderID inst) (in_Version inst) \<and> inst_ok inst)"

text \<open>
  What every operation of the lifecycle manager preserves: a relation between worlds that holds
  when neither the state file nor the requests to Docker change, and that is preserved by saving
  a proper record, by deleting one, and by a request for a container of a provider.
\<close>

locale lifecycle_frame = frame R for R :: "cap_world \<Rightarrow> cap_world \<Rightarrow> bool" +
  assumes silent: "cw_state w' = cw_state w \<Longrightarrow> cw_requests w' = cw_requests w \<Longrightarrow> R w w'"
    and save: "inst_ok inst \<Longrightarrow> preserves R (SaveProvider E inst)"
    and delete: "preserves R (DeleteProvider E i v)"
    and create: "preserves R (ContainerCreate E (container_request c p))"
begin

lemma quiet: "(\<And>w. cw_state (snd (run_state m w)) = cw_state w \<and> cw_requests (snd (run_state m w)) = cw_requests w) \<Longrightarrow> preserves R m"
  by (simp add: preserves_def silent)

lemma prim: "preserves R (interact E)" "preserves R (set_file p x)" "preserves R (delete_file p)"
  by (rule quiet, simp add: interact_run set_file_def delete_file_def)+

lemmas base = unit prim(1) calls [OF prim(1)] writes [OF prim]

lemma downloads:
  "preserves R (Rename E p q)" "preserves R (RemoveAll E d)" "preserves R (Download sha host E d u v x)"
  "preserves R (DownloadWithChecksumsFile sha host E d u v y)"
proof -
  show r: "preserves R (Rename E p q)" for E p q unfolding Rename_def by (intro rules base prim)
  show "preserves R (RemoveAll E d)" unfolding RemoveAll_def by (intro rules base quiet) simp
  show d: "preserves R (Download sha host E d u v x)" for x
    unfolding Download_def verify_and_place_def calculateSHA256_def Let_def by (auto intro!: rules base r)
  show "preserves R (DownloadWithChecksumsFile sha host E d u v y)"
    unfolding DownloadWithChecksumsFile_def parseChecksumsFile_def Let_def by (auto intro!: rules base d split: option.split)
qed

lemma supervision: "preserves R (sup_Start E a)" "preserves R (sup_Stop E i v)"
  unfolding sup_Start_def sup_Stop_def by (intro rules base; rule quiet; simp split: prod.split option.split)+

lemma binaries:
  "preserves R (bl_Install c E p)" "preserves R (bl_Start E p st)" "preserves R (bl_Stop E p st)" "preserves R (bl_Uninstall c E p st)"
  "preserves R (bl_GetStatus E p st)"
proof -
  show s: "preserves R (bl_Stop E p st)" for E p st unfolding bl_Stop_def by (auto intro!: rules supervision)
  show "preserves R (bl_Install c E p)" "preserves R (bl_Start E p st)"
    unfolding bl_Install_def bl_Start_def fetch_binary_def Let_def by (auto intro!: rules base downloads supervision)
  show "preserves R (bl_Uninstall c E p st)" unfolding bl_Uninstall_def by (auto intro!: rules s downloads)
  show "preserves R (bl_GetStatus E p st)" unfolding bl_GetStatus_def by (intro rules base; rule quiet; simp split: prod.split sum.split)
qed

lemma loads: "preserves R (ps_Load E)" "preserves R (store_GetProvider E i v)" "preserves R (store_ListProviders rng E)"
proof -
  show l: "preserves R (ps_Load E)" for E
    unfolding ps_Load_def by (intro rules base) (auto intro!: rules base split: statefile.split)
  show "preserves R (store_GetProvider E i v)" "preserves R (store_ListProviders rng E)"
    unfolding store_GetProvider_def store_ListProviders_def by (auto intro!: rules l split: option.split)
qed

lemma marked: "preserves R (mark_failed E inst msg e)"
  unfolding mark_failed_def by (intro rules unit save) (simp add: inst_ok_def)

lemma containers: "preserves R (stopOCI c E inst)" "preserves R (installOCI c E p)"
  unfolding stopOCI_def installOCI_def Let_def
  by (auto intro!: rules base save marked create simp: inst_ok_def new_instance_def)

lemma lifecycle:
  "preserves R (life_Install c E p)" "preserves R (life_Start c E i v)" "preserves R (life_Stop c E i v)" "preserves R (life_Uninstall c E i v)"
  "preserves R (life_GetStatus E i v)"
proof -
  show "preserves R (life_Install c E p)" unfolding life_Install_def installBinary_def Let_def
    by (cases "art_Type (prov_Artifact p)") (auto intro!: rules base save marked binaries containers simp: inst_ok_def new_instance_def)
  show "preserves R (life_Start c E i v)" unfolding life_Start_def startOCI_def startBinary_def Let_def
    by (auto intro!: rules base save marked binaries loads simp: inst_ok_def)
  show "preserves R (life_Stop c E i v)" unfolding life_Stop_def stopBinary_def
    by (auto intro!: rules save loads supervision containers simp: inst_ok_def)
  show "preserves R (life_Uninstall c E i v)" unfolding life_Uninstall_def uninstallOCI_def uninstallBinary_def
    by (auto intro!: rules base delete loads supervision binaries containers)
  show "preserves R (life_GetStatus E i v)" unfolding life_GetStatus_def by (auto intro!: rules loads)
qed

end

text \<open>Well-formed records stay well-formed.\<close>

definition store_kept :: "cap_world \<Rightarrow> cap_world \<Rightarrow> bool" where
  "store_kept w w' \<longleftrightarrow> (store_ok (stored w) \<longrightarrow> store_ok (stored w'))"

text \<open>New containers are confined.\<close>

definition confined :: "ContainerRequest \<Rightarrow> bool" where
  "confined req \<longleftrightarrow> ct_ReadonlyRootfs req \<and> ct_CapDrop req = [''ALL''] \<and> ct_SecurityOpt req = [''no-new-privileges'']"

definition confinement_kept :: "cap_world \<Rightarrow> cap_world \<Rightarrow> bool" where
  "confinement_kept w w' \<longleftrightarrow> (\<forall>req\<in>set (cw_requests w'). req \<in> set (cw_requests w) \<or> confined req)"

lemma store_requests: "cw_requests (snd (run_state (check (wrapf msg (ps_Load E)) (\<lambda>m. ps_Save E (f m))) w)) = cw_requests w"
proof -
  have os: "cw_requests w' = cw_requests w" if "run_state (os_call E) w = (r, w')" for r w w'
    using that by (auto simp: os_call_def interact_run fail_def done_with_def split: option.splits)
  have "cw_requests (snd (run_state (ps_Load E) w)) = cw_requests w" for w
    by (auto simp: ps_Load_def get_run check_run wrapf_run fail_def done_with_def split: statefile.split prod.split sum.split dest!: os)
  moreover have "cw_requests (snd (run_state (ps_Save E m) w)) = cw_requests w" for m w
    by (auto simp: ps_Save_def check_run wrapf_run split: prod.split sum.split dest!: os)
  ultimately show ?thesis by (auto simp: check_run wrapf_run split: prod.split sum.split) (metis snd_conv)+
qed

lemma saved_cases:
  "stored (snd (run_state (SaveProvider E inst) w)) \<in> {stored w, AList.update (providerKey (in_ProviderID inst) (in_Version inst)) inst (stored w)}"
  "stored (snd (run_state (DeleteProvider E i v) w)) \<in> {stored w, AList.delete (providerKey i v) (stored w)}"
  using SaveProvider_cases [of E inst w] DeleteProvider_cases [of E i v w] by (auto simp: stored_def)

lemma store_ok_update: "store_ok m \<Longrightarrow> inst_ok inst \<Longrightarrow> store_ok (AList.update (providerKey (in_ProviderID inst) (in_Version inst)) inst m)"
  by (auto simp: store_ok_def update_conv' distinct_update split: if_splits)

lemma store_ok_delete: "store_ok m \<Longrightarrow> store_ok (AList.delete k m)"
  by (auto simp: store_ok_def delete_conv' distinct_delete split: if_splits)

interpretation records: lifecycle_frame store_kept
proof unfold_locales
  show "preserves store_kept (SaveProvider E inst)" if "inst_ok inst" for E inst unfolding preserves_def store_kept_def
    using saved_cases(1) [of E inst] store_ok_update [OF _ that] by (metis insertE singletonD)
  show "preserves store_kept (DeleteProvider E i v)" for E i v unfolding preserves_def store_kept_def
    using saved_cases(2) [of E i v] store_ok_delete by (metis insertE singletonD)
  show "preserves store_kept (ContainerCreate E (container_request c p))" for E c p
    by (auto simp: preserves_def store_kept_def ContainerCreate_def stored_def os_call_state)
qed (simp_all add: store_kept_def stored_def)

interpretation requests: lifecycle_frame confinement_kept
proof unfold_locales
  show "preserves confinement_kept (SaveProvider E inst)" for E inst
    unfolding preserves_def confinement_kept_def SaveProvider_def store_requests by simp
  show "preserves confinement_kept (DeleteProvider E i v)" for E i v
    unfolding preserves_def confinement_kept_def DeleteProvider_def store_requests by simp
  show "preserves confinement_kept (ContainerCreate E (container_request c p))" for E c p
    by (auto simp: preserves_def confinement_kept_def ContainerCreate_def container_request_def confined_def os_call_def interact_run fail_def done_with_def
        split: option.split)
qed (auto simp: confinement_kept_def)

abbreviation keeps :: "(cap_world, 'a) state \<Rightarrow> bool" where
  "keeps \<equiv> preserves store_kept"

text \<open>\<open>only K m\<close>: the records under other keys stay as they are.\<close>

definition same_records :: "string set \<Rightarrow> cap_world \<Rightarrow> cap_world \<Rightarrow> bool" where
  "same_records K w w' \<longleftrightarrow> (\<forall>k. k \<notin> K \<longrightarrow> map_of (stored w') k = map_of (stored w) k)"

abbreviation only :: "string set \<Rightarrow> (cap_world, 'a) state \<Rightarrow> bool" where
  "only K \<equiv> preserves (same_records K)"

interpretation others: frame "same_records K" for K
  by unfold_locales (simp_all add: same_records_def)

lemma only_state: "(\<And>w. cw_state (snd (run_state m w)) = cw_state w) \<Longrightarrow> only K m"
  by (simp add: preserves_def same_records_def stored_def)

lemma state_prim: "cw_state (snd (run_state (RemoveAll E d) w)) = cw_state w" "cw_state (snd (run_state (sup_Stop E i v) w)) = cw_state w"
proof -
  show "cw_state (snd (run_state (RemoveAll E d) w)) = cw_state w"
    by (auto simp: RemoveAll_def check_run split: prod.split sum.split dest!: os_call_keeps)
  show "cw_state (snd (run_state (sup_Stop E i v) w)) = cw_state w"
    by (auto simp: sup_Stop_def check_run interact_run split: prod.split sum.split)
qed

lemma only_save: "providerKey (in_ProviderID inst) (in_Version inst) \<in> K \<Longrightarrow> only K (SaveProvider E inst)"
  using SaveProvider_cases [of E inst] by (auto simp: preserves_def same_records_def stored_def update_conv')

lemma only_uninstall:
  assumes "providerKey (in_ProviderID inst) (in_Version inst) \<in> K"
  shows "only K (stopOCI c E inst)" "only K (sup_Stop E i v)" "only K (bl_Uninstall c E p st)" "only K (os_call E)"
proof -
  show os: "only K (os_call E)" by (rule others.calls, rule only_state) (simp add: interact_run)
  show stop: "only K (sup_Stop E i v)" for E i v by (rule only_state) (rule state_prim(2))
  show "only K (stopOCI c E inst)" unfolding stopOCI_def using assms by (auto intro!: others.rules os only_save)
  have "only K (RemoveAll E d)" for d by (rule only_state) (rule state_prim(1))
  then show "only K (bl_Uninstall c E p st)" unfolding bl_Uninstall_def bl_Stop_def by (auto intro!: others.rules stop)
qed

lemma DeleteProvider_ok:
  "run_state (DeleteProvider E i v) w = (Inr (), w') \<Longrightarrow> map_of (stored w') k = (if k = providerKey i v then None else map_of (stored w) k)"
  using DeleteProvider_cases [of E i v w] by (simp add: stored_def delete_conv')

text \<open>A successful \<open>Uninstall\<close> removes the record and no other.\<close>

lemma life_Uninstall_ok:
  assumes "run_state (life_Uninstall c E i v) w = (Inr (), w')" and "store_ok (stored w)"
  shows "map_of (stored w') k = (if k = providerKey i v then None else map_of (stored w) k)"
proof -
  obtain inst w1 where g: "run_state (store_GetProvider E i v) w = (Inr inst, w1)"
    and u: "run_state (if binary_path inst \<noteq> [] then uninstallBinary c E inst else uninstallOCI c E inst) w1 = (Inr (), w')"
    using assms(1) by (auto simp: life_Uninstall_def outcome)
  have key: "providerKey i v = providerKey (in_ProviderID inst) (in_Version inst)" and w1: "stored w1 = stored w"
    using store_GetProvider_ok [OF g] assms(2) by (auto simp: store_ok_def stored_def)
  have "\<exists>m. only {providerKey i v} (m :: (cap_world, unit) state)
      \<and> run_state (DeleteProvider E (in_ProviderID inst) (in_Version inst)) (snd (run_state m w1)) = (Inr (), w')"
  proof (cases "binary_path inst = []")
    case True
    let ?m = "if in_RuntimeID inst \<noteq> [] then do { stopOCI c E inst; os_call E; State_Monad.return () } else State_Monad.return ()"
    have "only {providerKey i v} ?m" using key by (auto intro!: others.rules only_uninstall)
    moreover have "run_state (DeleteProvider E (in_ProviderID inst) (in_Version inst)) (snd (run_state ?m w1)) = (Inr (), w')"
      using u True by (auto simp: uninstallOCI_def outcome split: if_splits prod.splits)
    ultimately show ?thesis by blast
  next
    case False
    let ?m = "do { sup_Stop E (in_ProviderID inst) (in_Version inst); bl_Uninstall c E (rebuilt_provider inst zero_requirements) (rebuilt_state inst); State_Monad.return () }"
    have "only {providerKey i v} ?m" using key by (auto intro!: others.rules only_uninstall)
    moreover have "run_state (DeleteProvider E (in_ProviderID inst) (in_Version inst)) (snd (run_state ?m w1)) = (Inr (), w')"
      using u False by (auto simp: uninstallBinary_def outcome split: if_splits prod.splits)
    ultimately show ?thesis by blast
  qed
  then obtain m where m: "only {providerKey i v} (m :: (cap_world, unit) state)"
    and d: "run_state (DeleteProvider E (in_ProviderID inst) (in_Version inst)) (snd (run_state m w1)) = (Inr (), w')" by blast
  show ?thesis using DeleteProvider_ok [OF d, of k] m key w1 by (auto simp: preserves_def same_records_def)
qed

subsection \<open>Sequences of calls, and a configuration for the witnesses\<close>

datatype life_call = CallInstall Provider | CallStart string string | CallStop string string | CallUninstall string string | CallStatus string string

fun run_call :: "cap_config \<Rightarrow> cap_env \<Rightarrow> life_call \<Rightarrow> cap_world \<Rightarrow> cap_world" where
  "run_call c E (CallInstall p) w = snd (run_state (life_Install c E p) w)"
| "run_call c E (CallStart i v) w = snd (run_state (life_Start c E i v) w)"
| "run_call c E (CallStop i v) w = snd (run_state (life_Stop c E i v) w)"
| "run_call c E (CallUninstall i v) w = snd (run_state (life_Uninstall c E i v) w)"
| "run_call c E (CallStatus i v) w = snd (run_state (life_GetStatus E i v) w)"

definition demo_config :: cap_config where
  "demo_config = \<lparr>cc_host = (''linux'', ''amd64''), cc_sha = demo_sha, cc_docker = True, cc_marshal = (\<lambda>_. ''{}''), cc_unmarshal = (\<lambda>_. None),
     cc_StagingDir = ''/s'', cc_ProviderDir = ''/p'', cc_Network = ''net'', cc_MemoryLimit = ''512m''\<rparr>"

definition demo_instance :: ProviderInstance where
  "demo_instance = \<lparr>in_ProviderID = ''fs'', in_Version = ''1.0.0-rc1'', in_State = ProviderStateRunning, in_Capabilities = [], in_Endpoint = [],
     in_InstalledAt = 0, in_RuntimeID = ''/p/fs'', in_Metadata = [(''binary_path'', ''/p/fs'')]\<rparr>"

definition demo_cap_world :: cap_world where
  "demo_cap_world = \<lparr>w_clock = 0, w_files = [], w_sup = demo_run, cw_state = Stored [(''fs:1.0.0-rc1'', demo_instance)], cw_envOverrides = [], cw_requests = []\<rparr>"

definition demo_tool :: Provider where
  "demo_tool = (demo_provider ''tool'' ''1'' TrustOfficial)\<lparr>prov_Artifact := \<lparr>art_Type = ArtifactBinary, art_URI = ''http://h/tool'', art_Digest = ''ba78'',
     art_Checksums = None, art_SupportedPlatforms = []\<rparr>\<rparr>"

lemma demo_calm: "calm (\<lambda>n. demo_obs)"
  by (simp add: calm_def demo_obs_def)

subsection \<open>Properties\<close>



text \<open>
  The state file is written as a whole or not at all: when \<open>SaveProvider\<close> returns an error nothing
  has changed, and when it succeeds a later read gives the saved record for its key, and the old
  record for every other one.
\<close>

theorem provider_store_atomic:
  "case run_state (SaveProvider E inst) w of
     (Inl e, w') \<Rightarrow> cw_state w' = cw_state w
   | (Inr _, w') \<Rightarrow> (\<forall>E' i v x w''. run_state (store_GetProvider E' i v) w' = (Inr x, w'') \<longrightarrow>
        (if providerKey i v = providerKey (in_ProviderID inst) (in_Version inst) then x = inst
         else map_of (stored w) (providerKey i v) = Some x))"
  using SaveProvider_cases [of E inst w]
  by (auto simp: stored_def update_conv' split: prod.split sum.split dest!: store_GetProvider_ok)

theorem provider_store_atomic_witness:
  "map_of (stored (snd (run_state (SaveProvider (\<lambda>n. demo_obs) (demo_instance\<lparr>in_Version := ''2''\<rparr>)) demo_cap_world))) ''fs:1.0.0-rc1'' = Some demo_instance"
proof -
  let ?m = "SaveProvider (\<lambda>n. demo_obs) (demo_instance\<lparr>in_Version := ''2''\<rparr>)"
  have "cw_state demo_cap_world \<noteq> BadFile" by (simp add: demo_cap_world_def)
  then obtain w' where w': "run_state ?m demo_cap_world = (Inr (), w')" "cw_state w' \<noteq> BadFile"
      "map_of (stored w') ''fs:1.0.0-rc1'' = Some demo_instance"
    using calm_save [OF demo_calm, of demo_cap_world "demo_instance\<lparr>in_Version := ''2''\<rparr>"]
    by (auto simp: stored_def providerKey_def demo_cap_world_def demo_instance_def update_conv')
  obtain k where "run_state (store_GetProvider (\<lambda>n. demo_obs) ''fs'' ''1.0.0-rc1'') w' = (Inr demo_instance, tick k w')"
    using calm_get [OF demo_calm, of w' "''fs''" "''1.0.0-rc1''"] w'(3) by (auto simp: providerKey_def)
  with provider_store_atomic [where E = "\<lambda>n. demo_obs" and inst = "demo_instance\<lparr>in_Version := ''2''\<rparr>" and w = demo_cap_world] w'(1,3)
  show ?thesis by simp
qed

text \<open>
  C20: the records of the store stay well-formed through every sequence of calls of the lifecycle
  manager, whatever the operating system and Docker answer: each is kept under the key of its own
  provider and version, and one that is marked running has a runtime ID.
\<close>

theorem store_records_well_formed:
  assumes "store_ok (stored w)"
  shows "store_ok (stored (fold (run_call c E) calls w))"
proof -
  have "store_ok (stored (run_call c E call w))" if "store_ok (stored w)" for call w
    using that records.lifecycle [unfolded preserves_def store_kept_def, rule_format] by (cases call) simp_all
  with assms show ?thesis by (induction calls arbitrary: w) auto
qed

theorem store_records_well_formed_witness:
  "store_ok (stored (fold (run_call demo_config (\<lambda>n. demo_obs)) [CallInstall demo_tool, CallStart ''tool'' ''1''] demo_cap_world))"
  by (rule store_records_well_formed) (simp add: stored_def demo_cap_world_def store_ok_def demo_instance_def inst_ok_def providerKey_def)

text \<open>
  Every container the lifecycle manager ever asks Docker for is confined: a read-only root file
  system, no capabilities, no new privileges.
\<close>

theorem containers_are_confined:
  assumes "cw_requests w = []"
  shows "\<forall>req\<in>set (cw_requests (fold (run_call c E) calls w)). confined req"
proof -
  have "confinement_kept w (run_call c E call w)" for call w
    using requests.lifecycle [unfolded preserves_def] by (cases call) simp_all
  then have "confinement_kept w (fold (run_call c E) calls w)" for w
    by (induction calls arbitrary: w) (auto intro: requests.refl requests.trans)
  with assms show ?thesis by (fastforce simp: confinement_kept_def)
qed

theorem containers_are_confined_witness:
  "list_all confined (cw_requests (fold (run_call demo_config (\<lambda>n. demo_obs)) [CallInstall (demo_tool\<lparr>prov_Artifact := (prov_Artifact demo_tool)\<lparr>art_Type := ArtifactOCI\<rparr>\<rparr>)] demo_cap_world))"
proof -
  have "cw_requests demo_cap_world = []" by (simp add: demo_cap_world_def)
  from containers_are_confined [OF this] show ?thesis unfolding list_all_iff by blast
qed

text \<open>
  Starting a binary provider whose process is running fails, as the supervisor refuses it, and the
  failure is recorded: the record says failed while the process runs on.
\<close>

theorem second_start_marks_failed:
  assumes "calm E" and "map_of (stored w) (providerKey i v) = Some inst" and "in_ProviderID inst = i" and "in_Version inst = v"
    and "in_RuntimeID inst \<noteq> []" and "binary_path inst \<noteq> []" and "state_of (proc_key i v) (w_sup w) = Some ProcessStateRunning"
  shows "case run_state (life_Start c E i v) w of
     (r, w') \<Rightarrow> isl r \<and> map_of (stored w') (providerKey i v) = Some (inst\<lparr>in_State := ProviderStateFailed\<rparr>) \<and> w_sup w' = w_sup w"
proof -
  obtain k where g: "run_state (store_GetProvider E i v) w = (Inr inst, tick k w)" using calm_get [OF assms(1,2)] by blast
  have "cw_state (tick j w) \<noteq> BadFile" for j using assms(2) by (auto simp: stored_def)
  then obtain k' where s: "run_state (SaveProvider E (inst\<lparr>in_State := ProviderStateFailed\<rparr>)) (tick (k + 1) w)
      = (Inr (), (tick k' (tick (k + 1) w))\<lparr>cw_state := Stored (AList.update (providerKey i v) (inst\<lparr>in_State := ProviderStateFailed\<rparr>) (stored w))\<rparr>)"
    using calm_save [OF assms(1), of "tick (k + 1) w" "inst\<lparr>in_State := ProviderStateFailed\<rparr>"] assms(3,4) by auto
  have b: "\<exists>e. run_state (bl_Start E (rebuilt_provider inst rr) (rebuilt_state inst)) (tick k w) = (Inl e, tick (k + 1) w)" for rr
  proof -
    have "w_clock_update (\<lambda>_. n) w'\<lparr>w_sup := w_sup w'\<rparr> = w'\<lparr>w_clock := n\<rparr>" for n and w' :: cap_world by simp
    then show ?thesis using assms(3,4,7)
      by (auto simp: bl_Start_def Let_def check_run wrapf_run sup_Start_def calm_interact [OF assms(1)] sv_Start_def rebuilt_provider_def tick_def)
  qed
  let ?rr = "stored_requirements c inst"
  let ?env = "merge_env (case map_of (cw_envOverrides w) (in_ProviderID inst) of None \<Rightarrow> [] | Some o' \<Rightarrow> o') (rr_Env ?rr)"
  obtain e where "run_state (bl_Start E (rebuilt_provider inst (?rr\<lparr>rr_Env := ?env\<rparr>)) (rebuilt_state inst)) (tick k w) = (Inl e, tick (k + 1) w)"
    using b by blast
  then have "run_state (life_Start c E i v) w = run_state (mark_failed E inst ''failed to start binary'' e) (tick (k + 1) w)"
    using g assms(5,6) by (simp add: life_Start_def startBinary_def check_run wrapf_run get_run on_error_def Let_def)
  then show ?thesis using s by (simp add: mark_failed_def fail_def stored_def update_conv')
qed

theorem second_start_marks_failed_witness:
  "isl (fst (run_state (life_Start demo_config (\<lambda>n. demo_obs) ''fs'' ''1.0.0-rc1'') demo_cap_world))"
proof -
  have s: "map_of (stored demo_cap_world) (providerKey ''fs'' ''1.0.0-rc1'') = Some demo_instance"
    by (simp add: stored_def demo_cap_world_def providerKey_def)
  have r: "state_of (proc_key ''fs'' ''1.0.0-rc1'') (w_sup demo_cap_world) = Some ProcessStateRunning"
    by (simp add: demo_cap_world_def demo_run_def run_simps demo_start_def DefaultRestartPolicy_def)
  from second_start_marks_failed [OF demo_calm s _ _ _ _ r, of demo_config] show ?thesis
    by (auto simp: demo_instance_def binary_path_def)
qed

text \<open>
  \<open>parseMemoryLimit\<close> of a number of megabytes, exact as long as the product fits: up to
  8796093022207 megabytes.
\<close>

theorem memory_limit_exact:
  assumes "n < 2 ^ 43"
  shows "parseMemoryLimit (show_nat n @ ''m'') = int n * 1024 * 1024"
proof -
  have "int n < 2 ^ 43" using assms by (metis of_nat_less_iff of_nat_numeral of_nat_power)
  then have n: "int n * 1024 * 1024 < 2 ^ 63" by simp
  have "sint (word_of_int (int n * 1024 * 1024) :: 64 word) = int n * 1024 * 1024"
    unfolding sint_sbintrunc' using n by (intro signed_take_bit_int_eq_self) simp_all
  moreover have "(of_int (int n) * 1024 * 1024 :: 64 word) = word_of_int (int n * 1024 * 1024)" by simp
  ultimately have "sint (of_int (int n) * 1024 * 1024 :: 64 word) = int n * 1024 * 1024" by (simp only:)
  then show ?thesis using scan_show [of n] n by (simp add: parseMemoryLimit_def limit_text HasSuffix_def HasPrefix_def Let_def)
qed

theorem memory_limit_exact_witness: "parseMemoryLimit (show_nat 512 @ ''m'') = 536870912"
  using memory_limit_exact [of 512] by simp

end
