(* ===== verification/Cap_Manager.thy ===== *)
theory Cap_Manager
  imports Cap_Lifecycle
begin

text \<open>
  The capability manager, \<open>internal/capability/manager.go\<close>: it resolves a capability in the registry,
  installs the provider when it is not in the store and starts it when its record does not say that
  it runs. The registry is an argument: its only writer is the callback of the sync client,
  \<open>LoadSnapshot\<close>.
\<close>

declare map_of_eq_Some_iff [simp del]

subsection \<open>manager.go\<close>

record Config =
  cfg_UCRSBaseURL :: string
  cfg_PublicKeyPath :: string
  cfg_CacheDir :: string
  cfg_ProviderDir :: string

text \<open>The checks of \<open>NewManager\<close>, before it creates its parts.\<close>

definition check_config :: "Config \<Rightarrow> cap_err option" where
  "check_config c =
     (if cfg_UCRSBaseURL c = [] then Some (CapErrorf ''UCRS base URL is required'')
      else if cfg_PublicKeyPath c = [] then Some (CapErrorf ''public key path is required'')
      else if cfg_CacheDir c = [] then Some (CapErrorf ''cache directory is required'')
      else if cfg_ProviderDir c = [] then Some (CapErrorf ''provider directory is required'')
      else None)"

record ProviderEndpoint =
  pe_Provider :: Provider
  pe_Capability :: "Capability option"
  pe_Endpoint :: string
  pe_State :: ProviderState

definition is_instance :: "Provider \<Rightarrow> ProviderInstance \<Rightarrow> bool" where
  "is_instance p inst \<longleftrightarrow> in_ProviderID inst = prov_ID p \<and> in_Version inst = prov_Version p"

text \<open>Install unless an instance was found, then start unless it is running or the provider is started on demand.\<close>

definition install_and_start :: "cap_config \<Rightarrow> cap_env \<Rightarrow> Provider \<Rightarrow> ProviderInstance option \<Rightarrow> ProviderInstance life_action" where
  "install_and_start c E p found =
     check (case found of None \<Rightarrow> wrapf ''failed to install provider'' (life_Install c E p) | Some inst \<Rightarrow> done_with inst) (\<lambda>inst.
       if in_State inst \<noteq> ProviderStateRunning \<and> rr_LaunchMode (prov_Runtime p) \<noteq> LaunchModeOnDemand
       then check (wrapf ''failed to start provider'' (life_Start c E (prov_ID p) (prov_Version p))) (\<lambda>_.
              done_with (inst\<lparr>in_State := ProviderStateRunning\<rparr>))
       else done_with inst)"

text \<open>The resolver never returns a nil provider (\<open>selectBest_in\<close>); the branch for it would be a nil dereference.\<close>

definition EnsureCapability ::
  "Provider sorter \<Rightarrow> 'v semver \<Rightarrow> ProviderInstance range \<Rightarrow> cap_config \<Rightarrow> cap_env \<Rightarrow> Registry \<Rightarrow> CapabilityRequest \<Rightarrow> ProviderEndpoint life_action" where
  "EnsureCapability srt V rng c E r req =
     (case Resolve srt V (cc_host c) r req of
        Inl e \<Rightarrow> fail (CapWrapf ''failed to resolve capability'' e)
      | Inr (None, _) \<Rightarrow> fail (CapErrorf ''nil pointer dereference'')
      | Inr (Some p, capability) \<Rightarrow>
          check (wrapf ''failed to list installed providers'' (store_ListProviders rng E)) (\<lambda>installed.
          check (install_and_start c E p (find (is_instance p) installed)) (\<lambda>inst.
            done_with \<lparr>pe_Provider = p, pe_Capability = Some capability, pe_Endpoint = in_Endpoint inst, pe_State = in_State inst\<rparr>)))"

text \<open>A match is passed over when the registry does not know its provider; the capability is the same for all.\<close>

definition resolve_one :: "Registry \<Rightarrow> string \<Rightarrow> ProviderInstance \<Rightarrow> ProviderEndpoint option" where
  "resolve_one r capabilityID inst =
     (if capabilityID \<in> set (in_Capabilities inst)
      then (case (GetProvider (in_ProviderID inst) (in_Version inst) r, GetCapability capabilityID r) of
              (Inr p, Inr capability) \<Rightarrow>
                Some \<lparr>pe_Provider = p, pe_Capability = Some capability, pe_Endpoint = in_Endpoint inst, pe_State = in_State inst\<rparr>
            | _ \<Rightarrow> None)
      else None)"

definition ResolveCapability :: "ProviderInstance range \<Rightarrow> cap_env \<Rightarrow> Registry \<Rightarrow> string \<Rightarrow> ProviderEndpoint life_action" where
  "ResolveCapability rng E r capabilityID =
     check (wrapf ''failed to list installed providers'' (store_ListProviders rng E)) (\<lambda>installed.
       case List.map_filter (resolve_one r capabilityID) installed of
         ep # _ \<Rightarrow> done_with ep
       | [] \<Rightarrow> fail (CapErrorf (''no installed provider found for capability: '' @ capabilityID)))"

definition InstallProviderByID ::
  "Provider range \<Rightarrow> ProviderInstance range \<Rightarrow> cap_config \<Rightarrow> cap_env \<Rightarrow> Registry \<Rightarrow> string \<Rightarrow> ProviderEndpoint life_action" where
  "InstallProviderByID rng rng' c E r providerID =
     (case FindProviderByID rng providerID r of
        Inl e \<Rightarrow> fail (CapWrapf ''provider not found in registry'' e)
      | Inr p \<Rightarrow>
          check (wrapf ''failed to list installed providers'' (store_ListProviders rng' E)) (\<lambda>installed.
          check (install_and_start c E p (find (\<lambda>inst. is_instance p inst \<and> in_State inst \<noteq> ProviderStateFailed) installed)) (\<lambda>inst.
            done_with \<lparr>pe_Provider = p,
              pe_Capability = (case prov_Capabilities p of [] \<Rightarrow> None
                | ref # _ \<Rightarrow> (case GetCapability (cr_ID ref) r of Inl _ \<Rightarrow> None | Inr capability \<Rightarrow> Some capability)),
              pe_Endpoint = in_Endpoint inst, pe_State = in_State inst\<rparr>)))"

fun uninstall_all :: "cap_config \<Rightarrow> cap_env \<Rightarrow> ProviderInstance list \<Rightarrow> unit life_action" where
  "uninstall_all c E [] = done_with ()"
| "uninstall_all c E (inst # insts) =
     check (wrapf (''failed to uninstall provider '' @ in_ProviderID inst @ ''@'' @ in_Version inst)
              (life_Uninstall c E (in_ProviderID inst) (in_Version inst))) (\<lambda>_. uninstall_all c E insts)"

definition UninstallProviderByID :: "ProviderInstance range \<Rightarrow> cap_config \<Rightarrow> cap_env \<Rightarrow> string \<Rightarrow> string \<Rightarrow> nat life_action" where
  "UninstallProviderByID rng c E providerID version =
     check (wrapf ''failed to list installed providers'' (store_ListProviders rng E)) (\<lambda>installed.
       let targets = filter (\<lambda>inst. in_ProviderID inst = providerID \<and> (version = [] \<or> in_Version inst = version)) installed in
       if targets = [] then fail (CapErrorf (''provider not installed: '' @ providerID))
       else check (uninstall_all c E targets) (\<lambda>_. done_with (length targets)))"

subsection \<open>Lemmas\<close>

lemma ListProviders_ok:
  "run_state (store_ListProviders rng E) w = (Inr xs, w') \<Longrightarrow> xs = rng 0 (map snd (stored w)) \<and> stored w' = stored w"
  by (auto simp: store_ListProviders_def outcome stored_def dest!: ps_Load_ok)

lemma stored_value: "store_ok m \<Longrightarrow> range_order rng \<Longrightarrow> inst \<in> set (rng 0 (map snd m)) \<longleftrightarrow> map_of m (providerKey (in_ProviderID inst) (in_Version inst)) = Some inst"
proof -
  assume m: "store_ok m" and r: "range_order rng"
  have "inst \<in> set (map snd m) \<longleftrightarrow> (\<exists>k. map_of m k = Some inst)" using m by (force simp: store_ok_def gm_lookup_iff)
  also have "\<dots> \<longleftrightarrow> map_of m (providerKey (in_ProviderID inst) (in_Version inst)) = Some inst" using m by (auto simp: store_ok_def)
  finally show ?thesis by (simp add: range_set [OF r])
qed

lemma keeps_run: "keeps m \<Longrightarrow> run_state m w = (r, w') \<Longrightarrow> store_ok (stored w) \<Longrightarrow> store_ok (stored w')"
  by (drule (1) preservesD) (simp add: store_kept_def)

lemma life_Install_ok:
  assumes "run_state (life_Install c E p) w = (Inr inst, w')"
  shows "map_of (stored w') (providerKey (prov_ID p) (prov_Version p)) = Some inst \<and> is_instance p inst"
proof -
  have "\<exists>w1. run_state (SaveProvider E inst) w1 = (Inr (), w') \<and> is_instance p inst"
    using assms
    by (cases "art_Type (prov_Artifact p)")
       (auto simp: life_Install_def installOCI_def installBinary_def outcome Let_def new_instance_def is_instance_def split: prod.splits if_splits)
  then show ?thesis using SaveProvider_ok by (fastforce simp: is_instance_def update_conv')
qed

lemma life_Start_ok:
  assumes "run_state (life_Start c E i v) w = (Inr (), w')" and "store_ok (stored w)"
  shows "\<exists>inst. map_of (stored w) (providerKey i v) = Some inst \<and> in_RuntimeID inst \<noteq> []
     \<and> map_of (stored w') (providerKey i v) = Some (inst\<lparr>in_State := ProviderStateRunning\<rparr>)"
proof -
  obtain inst w1 w2 where g: "run_state (store_GetProvider E i v) w = (Inr inst, w1)" and r: "in_RuntimeID inst \<noteq> []"
    and s: "run_state (SaveProvider E (inst\<lparr>in_State := ProviderStateRunning\<rparr>)) w2 = (Inr (), w')"
    using assms(1)
    by (auto simp: life_Start_def startBinary_def startOCI_def outcome get_run Let_def split: if_splits prod.splits)
  have "map_of (stored w) (providerKey i v) = Some inst" using store_GetProvider_ok [OF g] by simp
  moreover from this have "providerKey (in_ProviderID inst) (in_Version inst) = providerKey i v" using assms(2) by (auto simp: store_ok_def)
  ultimately show ?thesis using SaveProvider_ok [OF s] r by (auto simp: update_conv')
qed

text \<open>The search in the list finds the record of the store.\<close>

lemma find_instance:
  assumes "store_ok m" and "range_order rng"
  shows "find (is_instance p) (rng 0 (map snd m)) =
     (case map_of m (providerKey (prov_ID p) (prov_Version p)) of Some inst \<Rightarrow> if is_instance p inst then Some inst else None | None \<Rightarrow> None)"
proof (cases "find (is_instance p) (rng 0 (map snd m))")
  case None
  then have "\<not> is_instance p inst" if "map_of m (providerKey (prov_ID p) (prov_Version p)) = Some inst" for inst
    using that stored_value [OF assms, of inst] by (auto simp: find_None_iff is_instance_def)
  with None show ?thesis by (auto split: option.split)
next
  case (Some inst)
  then have "is_instance p inst" "inst \<in> set (rng 0 (map snd m))" by (auto simp: find_Some_iff)
  with Some stored_value [OF assms, of inst] show ?thesis by (auto simp: is_instance_def)
qed

lemma find_instance_cases:
  assumes "store_ok (stored w)" and "range_order rng" and "find (is_instance p) (rng 0 (map snd (stored w))) = Some inst"
  shows "map_of (stored w) (providerKey (prov_ID p) (prov_Version p)) = Some inst"
  using assms(3) unfolding find_instance [OF assms(1,2)] by (auto split: option.splits if_splits)

lemma install_and_start_ok:
  assumes "run_state (install_and_start c E p found) w = (Inr inst, w')" and "store_ok (stored w)"
    and "\<And>i. found = Some i \<Longrightarrow> map_of (stored w) (providerKey (prov_ID p) (prov_Version p)) = Some i"
  shows "map_of (stored w') (providerKey (prov_ID p) (prov_Version p)) = Some inst
     \<and> (rr_LaunchMode (prov_Runtime p) \<noteq> LaunchModeOnDemand \<longrightarrow> in_State inst = ProviderStateRunning)"
proof -
  let ?k = "providerKey (prov_ID p) (prov_Version p)"
  let ?m = "case found of None \<Rightarrow> wrapf ''failed to install provider'' (life_Install c E p) | Some inst \<Rightarrow> done_with inst"
  obtain i w1 where 1: "run_state ?m w = (Inr i, w1)"
    and 2: "run_state (if in_State i \<noteq> ProviderStateRunning \<and> rr_LaunchMode (prov_Runtime p) \<noteq> LaunchModeOnDemand
       then check (wrapf ''failed to start provider'' (life_Start c E (prov_ID p) (prov_Version p))) (\<lambda>_. done_with (i\<lparr>in_State := ProviderStateRunning\<rparr>))
       else done_with i) w1 = (Inr inst, w')"
    using assms(1) unfolding install_and_start_def check_ok by blast
  have i: "map_of (stored w1) ?k = Some i \<and> store_ok (stored w1)"
  proof (cases found)
    case None
    then have "run_state (life_Install c E p) w = (Inr i, w1)" using 1 by (simp add: outcome)
    with life_Install_ok keeps_run [OF records.lifecycle(1)] assms(2) show ?thesis by blast
  qed (use 1 assms(2,3) in \<open>simp add: outcome\<close>)
  show ?thesis
  proof (cases "in_State i \<noteq> ProviderStateRunning \<and> rr_LaunchMode (prov_Runtime p) \<noteq> LaunchModeOnDemand")
    case True
    then obtain w2 where "run_state (life_Start c E (prov_ID p) (prov_Version p)) w1 = (Inr (), w2)" "inst = i\<lparr>in_State := ProviderStateRunning\<rparr>" "w' = w2"
      using 2 by (auto simp: outcome)
    with life_Start_ok [of c E "prov_ID p" "prov_Version p" w1 w2] i show ?thesis by fastforce
  next
    case False
    with 2 i show ?thesis by (auto simp: outcome)
  qed
qed

lemma calm_list: "calm E \<Longrightarrow> cw_state w \<noteq> BadFile \<Longrightarrow> \<exists>k. run_state (store_ListProviders rng E) w = (Inr (rng 0 (map snd (stored w))), tick k w)"
  using calm_load [of E w] by (auto simp: store_ListProviders_def check_run wrapf_run done_with_def)

lemma running_is_returned:
  assumes "calm E" and "range_order rng" and "store_ok (stored w)" and "Resolve srt V (cc_host c) r req = Inr (Some p, capability)"
    and "map_of (stored w) (providerKey (prov_ID p) (prov_Version p)) = Some inst" and "is_instance p inst" and "in_State inst = ProviderStateRunning"
  shows "\<exists>k. run_state (EnsureCapability srt V rng c E r req) w =
     (Inr \<lparr>pe_Provider = p, pe_Capability = Some capability, pe_Endpoint = in_Endpoint inst, pe_State = ProviderStateRunning\<rparr>, tick k w)"
proof -
  have "cw_state w \<noteq> BadFile" using assms(5) by (auto simp: stored_def)
  then obtain k where k: "run_state (store_ListProviders rng E) w = (Inr (rng 0 (map snd (stored w))), tick k w)" using calm_list [OF assms(1)] by blast
  have "find (is_instance p) (rng 0 (map snd (stored w))) = Some inst" using find_instance [OF assms(3,2), of p] assms(5,6) by simp
  with k assms(4,7) show ?thesis by (auto simp: EnsureCapability_def install_and_start_def check_run wrapf_run done_with_def)
qed

lemma uninstall_all_ok:
  assumes "run_state (uninstall_all c E insts) w = (Inr (), w')" and "store_ok (stored w)"
  shows "map_of (stored w') k = (if k \<in> (\<lambda>i. providerKey (in_ProviderID i) (in_Version i)) ` set insts then None else map_of (stored w) k)"
  using assms
proof (induction insts arbitrary: w)
  case (Cons i insts)
  then obtain w1 where 1: "run_state (life_Uninstall c E (in_ProviderID i) (in_Version i)) w = (Inr (), w1)"
    and 2: "run_state (uninstall_all c E insts) w1 = (Inr (), w')" by (auto simp: outcome)
  have "store_ok (stored w1)" using keeps_run [OF records.lifecycle(4) 1 Cons.prems(2)] .
  with Cons.IH [OF 2] life_Uninstall_ok [OF 1 Cons.prems(2), of k] show ?case by auto
qed (simp add: outcome)

subsection \<open>Data for the witnesses\<close>

definition demo_registry :: Registry where
  "demo_registry = snd (LoadSnapshot (Some demo_snapshot) NewRegistry)"

lemma demo_resolves:
  "Resolve insertion demo_semver (cc_host demo_config) demo_registry demo_request =
     Inr (Some (demo_provider ''a'' ''10'' TrustCertified), \<lparr>cap_ID = ''fs'', cap_Version = ''1''\<rparr>)"
  unfolding demo_registry_def demo_snapshot_def demo_request_def
  by (simp add: demo_config_def LoadSnapshot_def NewRegistry_def Let_def index_capability_def index_provider_def add_ref_def demo_provider_def Resolve_def GetCapability_def
      FindProviders_def applyFilters_def matchesTrustTier_def platformSupported_def providerSupportsCapabilityVersion_def selectBest_def
      demo_semver_def insertion_def better_def json_digits_def is_digit_def nat_of_digits_def digit_val_def providerKey_def)

definition demo_record :: "ProviderState \<Rightarrow> string \<Rightarrow> ProviderInstance" where
  "demo_record st runtime = \<lparr>in_ProviderID = ''a'', in_Version = ''10'', in_State = st, in_Capabilities = [''fs''], in_Endpoint = [],
     in_InstalledAt = 0, in_RuntimeID = runtime, in_Metadata = [(''binary_path'', runtime)]\<rparr>"

definition demo_store_world :: "ProviderState \<Rightarrow> string \<Rightarrow> cap_world" where
  "demo_store_world st runtime = \<lparr>w_clock = 0, w_files = [], w_sup = NewProcessSupervisor ''/log'', cw_state = Stored [(''a:10'', demo_record st runtime)], cw_envOverrides = [], cw_requests = []\<rparr>"

lemma demo_store_facts:
  "stored (demo_store_world st runtime) = [(''a:10'', demo_record st runtime)]"
  "(st = ProviderStateRunning \<Longrightarrow> runtime \<noteq> []) \<Longrightarrow> store_ok (stored (demo_store_world st runtime))"
  "map_of (stored (demo_store_world st runtime)) (providerKey (prov_ID (demo_provider ''a'' ''10'' t)) (prov_Version (demo_provider ''a'' ''10'' t))) = Some (demo_record st runtime)"
  "is_instance (demo_provider ''a'' ''10'' t) (demo_record st runtime)" "in_RuntimeID (demo_record st runtime) = runtime" "in_State (demo_record st runtime) = st"
  "rr_LaunchMode (prov_Runtime (demo_provider ''a'' ''10'' t)) = LaunchModeDaemon"
  by (auto simp: demo_store_world_def stored_def store_ok_def demo_record_def inst_ok_def providerKey_def demo_provider_def is_instance_def)

lemma demo_range: "range_order (\<lambda>n xs. xs)"
  by (simp add: range_order_def)

subsection \<open>Properties\<close>

text \<open>
  C21: when \<open>EnsureCapability\<close> succeeds it returns the provider the resolver selects, and the store holds
  a record of that provider with the state and endpoint returned; unless the provider is started
  on demand, that state is running. This holds whatever the environment answers.
\<close>

theorem ensure_capability_running:
  assumes "range_order rng" and "store_ok (stored w)" and "run_state (EnsureCapability srt V rng c E r req) w = (Inr ep, w')"
  shows "Resolve srt V (cc_host c) r req = Inr (Some (pe_Provider ep), the (pe_Capability ep)) \<and> pe_Capability ep \<noteq> None
     \<and> (\<exists>inst. map_of (stored w') (providerKey (prov_ID (pe_Provider ep)) (prov_Version (pe_Provider ep))) = Some inst
          \<and> in_State inst = pe_State ep \<and> in_Endpoint inst = pe_Endpoint ep)
     \<and> (rr_LaunchMode (prov_Runtime (pe_Provider ep)) \<noteq> LaunchModeOnDemand \<longrightarrow> pe_State ep = ProviderStateRunning)"
proof -
  obtain p cap where res: "Resolve srt V (cc_host c) r req = Inr (Some p, cap)"
    using assms(3) by (auto simp: EnsureCapability_def outcome split: sum.splits prod.splits option.splits)
  obtain xs w1 inst where 1: "run_state (store_ListProviders rng E) w = (Inr xs, w1)"
    and 2: "run_state (install_and_start c E p (find (is_instance p) xs)) w1 = (Inr inst, w')"
    and ep: "ep = \<lparr>pe_Provider = p, pe_Capability = Some cap, pe_Endpoint = in_Endpoint inst, pe_State = in_State inst\<rparr>"
    using assms(3) res by (auto simp: EnsureCapability_def outcome)
  have xs: "xs = rng 0 (map snd (stored w1))" and w1: "store_ok (stored w1)" using ListProviders_ok [OF 1] assms(2) by auto
  have "map_of (stored w1) (providerKey (prov_ID p) (prov_Version p)) = Some i" if "find (is_instance p) xs = Some i" for i
    using find_instance_cases [OF w1 assms(1)] that unfolding xs by blast
  from install_and_start_ok [OF 2 w1 this] res ep show ?thesis by auto
qed

theorem ensure_capability_running_witness:
  "\<exists>ep w'. run_state (EnsureCapability insertion demo_semver (\<lambda>n xs. xs) demo_config (\<lambda>n. demo_obs) demo_registry demo_request)
      (demo_store_world ProviderStateRunning ''/p/a'') = (Inr ep, w') \<and> pe_State ep = ProviderStateRunning"
proof -
  let ?w = "demo_store_world ProviderStateRunning ''/p/a''"
  have ok: "store_ok (stored ?w)" by (rule demo_store_facts(2)) simp
  have "\<exists>ep w'. run_state (EnsureCapability insertion demo_semver (\<lambda>n xs. xs) demo_config (\<lambda>n. demo_obs) demo_registry demo_request) ?w = (Inr ep, w')
      \<and> rr_LaunchMode (prov_Runtime (pe_Provider ep)) = LaunchModeDaemon"
    using running_is_returned [OF demo_calm demo_range ok demo_resolves demo_store_facts(3,4)] by (auto simp: demo_store_facts)
  with ensure_capability_running [OF demo_range ok] show ?thesis by fastforce
qed

text \<open>
  A record without a runtime ID, which is what a failed installation leaves behind, blocks the
  capability: \<open>EnsureCapability\<close> finds it, does not install again, cannot start it and fails, every
  time, and leaves the store as it is.
\<close>

theorem failed_install_blocks_capability:
  assumes "range_order rng" and "store_ok (stored w)" and "Resolve srt V (cc_host c) r req = Inr (Some p, capability)"
    and "map_of (stored w) (providerKey (prov_ID p) (prov_Version p)) = Some inst" and "is_instance p inst"
    and "in_RuntimeID inst = []" and "rr_LaunchMode (prov_Runtime p) \<noteq> LaunchModeOnDemand"
  shows "isl (fst (run_state (EnsureCapability srt V rng c E r req) w))
     \<and> cw_state (snd (run_state (EnsureCapability srt V rng c E r req) w)) = cw_state w"
proof (cases "run_state (store_ListProviders rng E) w")
  case (Pair xs w1)
  have st: "cw_state w1 = cw_state w" using Pair ps_Load_keeps [of E w]
    by (auto simp: store_ListProviders_def check_run wrapf_run done_with_def split: prod.splits sum.splits)
  show ?thesis
  proof (cases xs)
    case (Inl e)
    with Pair assms(3) st show ?thesis by (simp add: EnsureCapability_def check_run wrapf_run)
  next
    case (Inr ys)
    have nr: "in_State inst \<noteq> ProviderStateRunning" using assms(2,4,6) by (auto simp: store_ok_def inst_ok_def)
    have ys: "find (is_instance p) ys = Some inst"
      using ListProviders_ok [OF Pair [unfolded Inr]] find_instance [OF assms(2,1), of p] assms(4,5) by simp
    have g: "run_state (store_GetProvider E i v) w1 = (Inr x, w2) \<Longrightarrow> map_of (stored w) (providerKey i v) = Some x" for i v x w2
      using store_GetProvider_ok st by (fastforce simp: stored_def)
    have gs: "cw_state (snd (run_state (store_GetProvider E i v) w1)) = cw_state w" for i v
      using ps_Load_keeps [of E w1] st
      by (auto simp: store_GetProvider_def check_run wrapf_run done_with_def fail_def split: prod.splits sum.splits option.splits)
    have "run_state (EnsureCapability srt V rng c E r req) w = run_state (check (install_and_start c E p (Some inst)) (\<lambda>inst.
        done_with \<lparr>pe_Provider = p, pe_Capability = Some capability, pe_Endpoint = in_Endpoint inst, pe_State = in_State inst\<rparr>)) w1"
      using Pair Inr ys assms(3) by (simp add: EnsureCapability_def check_run wrapf_run)
    moreover have "isl (fst (run_state (life_Start c E (prov_ID p) (prov_Version p)) w1)) \<and> cw_state (snd (run_state (life_Start c E (prov_ID p) (prov_Version p)) w1)) = cw_state w"
      using gs [of "prov_ID p" "prov_Version p"] g [of "prov_ID p" "prov_Version p"] assms(4,6)
      by (cases "run_state (store_GetProvider E (prov_ID p) (prov_Version p)) w1"; cases "fst (run_state (store_GetProvider E (prov_ID p) (prov_Version p)) w1)")
         (auto simp: life_Start_def check_run wrapf_run fail_def)
    ultimately show ?thesis using nr assms(7)
      by (auto simp: install_and_start_def check_run wrapf_run done_with_def split: prod.splits sum.splits)
  qed
qed

theorem failed_install_blocks_capability_witness:
  "isl (fst (run_state (EnsureCapability insertion demo_semver (\<lambda>n xs. xs) demo_config (\<lambda>n. demo_obs) demo_registry demo_request)
      (demo_store_world ProviderStateFailed [])))"
proof -
  have ok: "store_ok (stored (demo_store_world ProviderStateFailed []))" by (rule demo_store_facts(2)) simp
  from failed_install_blocks_capability [OF demo_range ok demo_resolves demo_store_facts(3,4)] show ?thesis by (simp add: demo_store_facts)
qed

text \<open>
  A record that says running is believed. After a restart of the agent, when the supervisor has
  no process at all, \<open>EnsureCapability\<close> returns the provider as running and starts nothing.
\<close>

theorem running_record_is_trusted:
  assumes "calm E" and "range_order rng" and "store_ok (stored w)" and "Resolve srt V (cc_host c) r req = Inr (Some p, capability)"
    and "map_of (stored w) (providerKey (prov_ID p) (prov_Version p)) = Some inst" and "is_instance p inst" and "in_State inst = ProviderStateRunning"
    and "w_sup w = NewProcessSupervisor d"
  shows "\<exists>ep w'. run_state (EnsureCapability srt V rng c E r req) w = (Inr ep, w') \<and> pe_State ep = ProviderStateRunning
     \<and> w_sup w' = NewProcessSupervisor d \<and> ps_live (w_sup w') = []"
  using running_is_returned [OF assms(1-7)] assms(8) by (auto simp: NewProcessSupervisor_def)

theorem running_record_is_trusted_witness:
  "\<exists>ep w'. run_state (EnsureCapability insertion demo_semver (\<lambda>n xs. xs) demo_config (\<lambda>n. demo_obs) demo_registry demo_request)
      (demo_store_world ProviderStateRunning ''/p/a'') = (Inr ep, w') \<and> ps_live (w_sup w') = []"
proof -
  have ok: "store_ok (stored (demo_store_world ProviderStateRunning ''/p/a''))" by (rule demo_store_facts(2)) simp
  have "w_sup (demo_store_world ProviderStateRunning ''/p/a'') = NewProcessSupervisor ''/log''" by (simp add: demo_store_world_def)
  from running_record_is_trusted [OF demo_calm demo_range ok demo_resolves demo_store_facts(3,4) demo_store_facts(6) this] show ?thesis by blast
qed

text \<open>
  A successful \<open>UninstallProviderByID\<close> removes from the store every record of the provider, or of
  the given version of it, and no other, and returns how many there were.
\<close>

theorem uninstall_by_id_removes:
  assumes "range_order rng" and "store_ok (stored w)" and "run_state (UninstallProviderByID rng c E providerID version) w = (Inr n, w')"
  shows "0 < n \<and> (\<forall>k inst. map_of (stored w') k = Some inst \<longleftrightarrow>
     map_of (stored w) k = Some inst \<and> \<not> (in_ProviderID inst = providerID \<and> (version = [] \<or> in_Version inst = version)))"
proof -
  let ?hit = "\<lambda>inst. in_ProviderID inst = providerID \<and> (version = [] \<or> in_Version inst = version)"
  obtain xs w1 where 1: "run_state (store_ListProviders rng E) w = (Inr xs, w1)" and ne: "filter ?hit xs \<noteq> []"
    and 2: "run_state (uninstall_all c E (filter ?hit xs)) w1 = (Inr (), w')" and n: "n = length (filter ?hit xs)"
    using assms(3) by (auto simp: UninstallProviderByID_def outcome Let_def split: if_splits)
  have w1: "stored w1 = stored w" and xs: "xs = rng 0 (map snd (stored w))" using ListProviders_ok [OF 1] by auto
  note val = stored_value [OF assms(2,1)]
  have m: "map_of (stored w') k = (if k \<in> (\<lambda>i. providerKey (in_ProviderID i) (in_Version i)) ` set (filter ?hit xs) then None else map_of (stored w) k)" for k
    using uninstall_all_ok [OF 2, of k] assms(2) w1 by simp
  have "k \<in> (\<lambda>i. providerKey (in_ProviderID i) (in_Version i)) ` set (filter ?hit xs) \<longleftrightarrow> ?hit inst" if "map_of (stored w) k = Some inst" for k inst
  proof -
    have "k = providerKey (in_ProviderID inst) (in_Version inst)" using that assms(2) by (simp add: store_ok_def)
    then show ?thesis using that val unfolding xs by auto
  qed
  with m ne n show ?thesis by auto
qed

theorem uninstall_by_id_removes_witness:
  "\<exists>n w'. run_state (UninstallProviderByID (\<lambda>n xs. xs) demo_config (\<lambda>n. demo_obs) ''a'' []) (demo_store_world ProviderStateInstalled ''/p/a'') = (Inr n, w')
     \<and> map_of (stored w') ''a:10'' = None"
proof -
  let ?w = "demo_store_world ProviderStateInstalled ''/p/a''"
  have ok: "store_ok (stored ?w)" by (rule demo_store_facts(2)) simp
  have "\<exists>n w'. run_state (UninstallProviderByID (\<lambda>n xs. xs) demo_config (\<lambda>n. demo_obs) ''a'' []) ?w = (Inr n, w')"
    by (simp add: UninstallProviderByID_def store_ListProviders_def ps_Load_def life_Uninstall_def store_GetProvider_def uninstallBinary_def bl_Uninstall_def
        RemoveAll_def sup_Stop_def sv_Stop1_def NewProcessSupervisor_def DeleteProvider_def ps_Save_def rebuilt_state_def binary_path_def demo_store_world_def demo_record_def
        demo_config_def demo_obs_def providerKey_def cap_runs)
  then obtain n w' where r: "run_state (UninstallProviderByID (\<lambda>n xs. xs) demo_config (\<lambda>n. demo_obs) ''a'' []) ?w = (Inr n, w')" by blast
  have "map_of (stored ?w) ''a:10'' = Some (demo_record ProviderStateInstalled ''/p/a'')" by (simp add: demo_store_facts)
  with uninstall_by_id_removes [OF demo_range ok r] have "map_of (stored w') ''a:10'' = None"
    by (cases "map_of (stored w') ''a:10''") (auto simp: demo_record_def)
  with r show ?thesis by blast
qed

end
