(* ===== verification/Upd_Release.thy ===== *)
theory Upd_Release
  imports Cap_Downloader Secret_Codec
begin

text \<open>
  The releases of the self updater, \<open>internal/updater/types.go\<close> and \<open>checker.go\<close>: the release
  descriptions fetched from GitHub, the names of their assets, their checksums and the cache in
  front of them. HTTP responses are what the environment answers; the world records the requested
  URLs. A method with an \<open>error\<close> result is an action of the state monad of the downloader.
\<close>

declare map_of_eq_Some_iff [simp del]

subsection \<open>types.go\<close>

datatype UpdateStatus =
    UpdateStatusIdle | UpdateStatusChecking | UpdateStatusDownloading | UpdateStatusPending | UpdateStatusApplying | UpdateStatusFailed
  | UpdateStatusOther string

text \<open>Times are their texts.\<close>

record UpdateState =
  us_CurrentVersion :: string
  us_DesiredVersion :: string
  us_ReleaseSHA :: string
  us_Status :: UpdateStatus
  us_LastCheck :: string
  us_PendingAgent :: string
  us_PendingUfctl :: string
  us_PendingSHA :: string
  us_BackupAgent :: string
  us_BackupUfctl :: string
  us_ErrorMessage :: string
  us_UpdatedAt :: string

record ReleaseAsset =
  ra_Name :: string
  ra_DownloadURL :: string
  ra_Size :: int
  ra_SHA256 :: string
  ra_Platform :: string
  ra_Arch :: string
  ra_Binary :: string

record ReleaseInfo =
  ri_Version :: string
  ri_SHA256 :: string
  ri_IsPrerelease :: bool
  ri_PublishedAt :: string
  ri_Assets :: "ReleaseAsset list"
  ri_Body :: string

subsection \<open>The world of the updater\<close>

text \<open>
  \<open>uw_cache\<close> is the release cache: \<open>releases\<close> and \<open>expiresAt\<close> are only written and deleted
  together, so that they are one map. \<open>uw_requests\<close> are the URLs requested, the latest first.
\<close>

record upd_world = world +
  uw_cache :: "(string, ReleaseInfo \<times> int) gomap"
  uw_requests :: "string list"
  uw_state :: UpdateState

type_synonym 'a upd_action = "(upd_world, (cap_err, 'a) result) state"

definition Now :: "cap_env \<Rightarrow> ('z world_scheme, int) state" where
  "Now E = do { ob \<leftarrow> interact E; State_Monad.return (co_now ob) }"

definition http_do :: "cap_env \<Rightarrow> string \<Rightarrow> cap_obs upd_action" where
  "http_do E url = do { w \<leftarrow> State_Monad.get; State_Monad.set (w\<lparr>uw_requests := url # uw_requests w\<rparr>); os_call E }"

subsection \<open>JSON of the GitHub API\<close>

record githubAsset =
  ga_Name :: string
  ga_BrowserDownloadURL :: string
  ga_Size :: int

record githubRelease =
  gr_TagName :: string
  gr_Name :: string
  gr_Body :: string
  gr_Prerelease :: bool
  gr_PublishedAt :: string
  gr_Assets :: "githubAsset list"

fun dec_int64 :: "json \<Rightarrow> int option" where
  "dec_int64 (Jnum s) = parse_int64 s"
| "dec_int64 Jnull = Some 0"
| "dec_int64 _ = None"

fun dec_gh_asset :: "json \<Rightarrow> githubAsset option" where
  "dec_gh_asset (Jobj fs) = do {
     name \<leftarrow> dec_string (field fs ''name'');
     url \<leftarrow> dec_string (field fs ''browser_download_url'');
     size \<leftarrow> dec_int64 (field fs ''size'');
     Some \<lparr>ga_Name = name, ga_BrowserDownloadURL = url, ga_Size = size\<rparr>
   }"
| "dec_gh_asset Jnull = Some \<lparr>ga_Name = [], ga_BrowserDownloadURL = [], ga_Size = 0\<rparr>"
| "dec_gh_asset _ = None"

text \<open>Decoding a JSON array into a slice; \<open>null\<close> leaves the nil slice.\<close>

fun dec_all :: "(json \<Rightarrow> 'a option) \<Rightarrow> json list \<Rightarrow> 'a list option" where
  "dec_all dec [] = Some []"
| "dec_all dec (v # vs) = (case (dec v, dec_all dec vs) of (Some x, Some xs) \<Rightarrow> Some (x # xs) | _ \<Rightarrow> None)"

fun dec_slice :: "(json \<Rightarrow> 'a option) \<Rightarrow> json \<Rightarrow> 'a list option" where
  "dec_slice dec (Jarr vs) = dec_all dec vs"
| "dec_slice dec Jnull = Some []"
| "dec_slice dec _ = None"

fun dec_gh_release :: "json_env \<Rightarrow> json \<Rightarrow> githubRelease option" where
  "dec_gh_release J (Jobj fs) = do {
     tag \<leftarrow> dec_string (field fs ''tag_name'');
     name \<leftarrow> dec_string (field fs ''name'');
     body \<leftarrow> dec_string (field fs ''body'');
     pre \<leftarrow> dec_bool (field fs ''prerelease'');
     published \<leftarrow> dec_time J (field fs ''published_at'');
     assets \<leftarrow> dec_slice dec_gh_asset (field fs ''assets'');
     Some \<lparr>gr_TagName = tag, gr_Name = name, gr_Body = body, gr_Prerelease = pre, gr_PublishedAt = published, gr_Assets = assets\<rparr>
   }"
| "dec_gh_release J Jnull = Some \<lparr>gr_TagName = [], gr_Name = [], gr_Body = [], gr_Prerelease = False, gr_PublishedAt = zero_time, gr_Assets = []\<rparr>"
| "dec_gh_release J _ = None"

text \<open>\<open>json.Decoder.Decode\<close> reads the first value of the stream and leaves the rest.\<close>

definition json_first :: "string \<Rightarrow> json option" where
  "json_first s = map_option fst (p_value (Suc (length s)) s)"

subsection \<open>Names and checksums of assets\<close>

text \<open>
  \<open>^(underleaf_agent|ufctl)-([^-]+)-([^-]+)(?:\.exe)?$\<close>: the ways in which the expression can match,
  in the order in which the leftmost-first matcher prefers them.
\<close>

definition no_dash :: "string \<Rightarrow> (string \<times> string) list" where
  "no_dash s = map (\<lambda>n. (take n s, drop n s)) (rev [1..<Suc (length (takeWhile (\<lambda>c. c \<noteq> CHR ''-'') s))])"

definition asset_matches :: "string \<Rightarrow> (string \<times> string \<times> string) list" where
  "asset_matches name =
     [(b, p, a). b \<leftarrow> [''underleaf_agent'', ''ufctl''], HasPrefix name (b @ ''-''),
        (p, r) \<leftarrow> no_dash (drop (Suc (length b)) name), HasPrefix r ''-'',
        (a, t) \<leftarrow> no_dash (tl r), e \<leftarrow> [''.exe'', []], t = e]"

definition parseAssetName :: "string \<Rightarrow> ReleaseAsset option" where
  "parseAssetName name =
     (case asset_matches name of
        [] \<Rightarrow> None
      | (b, p, a) # _ \<Rightarrow> Some \<lparr>ra_Name = name, ra_DownloadURL = [], ra_Size = 0, ra_SHA256 = [], ra_Platform = p, ra_Arch = a, ra_Binary = b\<rparr>)"

definition ToLower :: "string \<Rightarrow> string" where
  "ToLower = map lower_char"

definition sums_line :: "string \<Rightarrow> (string, string) gomap \<Rightarrow> (string, string) gomap" where
  "sums_line text m =
     (let line = TrimSpace text in
      if line = [] then m
      else case Fields line of h # filename # _ \<Rightarrow> AList.update filename (ToLower h) m | _ \<Rightarrow> m)"

text \<open>The lines of a \<open>bufio.Scanner\<close>, which stops at one that does not fit its buffer.\<close>

definition scan_lines :: "string \<Rightarrow> string list" where
  "scan_lines s = takeWhile (\<lambda>l. length l < 65536) (Split (CHR 0x0A) s)"

definition parse_sums :: "string \<Rightarrow> (string, string) gomap" where
  "parse_sums body = fold sums_line (scan_lines body) []"

definition downloadChecksums :: "cap_env \<Rightarrow> githubRelease \<Rightarrow> (upd_world, (string, string) gomap) state" where
  "downloadChecksums E gh =
     (case find (\<lambda>a. ga_Name a = ''checksums.txt'') (gr_Assets gh) of
        None \<Rightarrow> State_Monad.return []
      | Some a \<Rightarrow>
          if ga_BrowserDownloadURL a = [] then State_Monad.return []
          else do {
            r \<leftarrow> http_do E (ga_BrowserDownloadURL a);
            State_Monad.return (case r of Inl _ \<Rightarrow> [] | Inr ob \<Rightarrow> if fst (co_http ob) \<noteq> 200 then [] else parse_sums (snd (co_http ob))) })"

definition release_asset :: "(string, string) gomap \<Rightarrow> githubAsset \<Rightarrow> ReleaseAsset option" where
  "release_asset checksums ga =
     (case parseAssetName (ga_Name ga) of
        None \<Rightarrow> None
      | Some asset \<Rightarrow>
          (let asset = asset\<lparr>ra_DownloadURL := ga_BrowserDownloadURL ga, ra_Size := ga_Size ga\<rparr> in
           Some (case map_of checksums (ga_Name ga) of None \<Rightarrow> asset | Some sha \<Rightarrow> asset\<lparr>ra_SHA256 := sha\<rparr>)))"

text \<open>\<open>host\<close> is \<open>(runtime.GOOS, runtime.GOARCH)\<close>.\<close>

definition for_host :: "string \<times> string \<Rightarrow> string \<Rightarrow> ReleaseAsset \<Rightarrow> bool" where
  "for_host host binary asset \<longleftrightarrow> ra_Binary asset = binary \<and> ra_Platform asset = fst host \<and> ra_Arch asset = snd host"

definition release_of :: "string \<times> string \<Rightarrow> githubRelease \<Rightarrow> (string, string) gomap \<Rightarrow> ReleaseInfo" where
  "release_of host gh checksums =
     (let assets = List.map_filter (release_asset checksums) (gr_Assets gh) in
      \<lparr>ri_Version = gr_TagName gh,
       ri_SHA256 = (case find (for_host host ''ufctl'') assets of None \<Rightarrow> [] | Some a \<Rightarrow> ra_SHA256 a),
       ri_IsPrerelease = gr_Prerelease gh, ri_PublishedAt = gr_PublishedAt gh, ri_Assets = assets, ri_Body = gr_Body gh\<rparr>)"

definition parseGitHubRelease :: "string \<times> string \<Rightarrow> cap_env \<Rightarrow> githubRelease \<Rightarrow> ReleaseInfo upd_action" where
  "parseGitHubRelease host E gh = do { checksums \<leftarrow> downloadChecksums E gh; done_with (release_of host gh checksums) }"

definition GetAssetForPlatform :: "string \<times> string \<Rightarrow> ReleaseInfo \<Rightarrow> string \<Rightarrow> (cap_err, ReleaseAsset) result" where
  "GetAssetForPlatform host r binary =
     (case find (for_host host binary) (ri_Assets r) of
        Some asset \<Rightarrow> Inr asset
      | None \<Rightarrow> Inl (CapErrorf (''no asset found for '' @ binary @ '' on '' @ fst host @ ''/'' @ snd host)))"

subsection \<open>Fetching releases\<close>

text \<open>The parameters of the checker: repository, host and JSON environment.\<close>

record checker =
  ck_repository :: string
  ck_host :: "string \<times> string"
  ck_json :: json_env

definition api_url :: "checker \<Rightarrow> string \<Rightarrow> string" where
  "api_url C rest = ''https://api.github.com/repos/'' @ ck_repository C @ ''/releases'' @ rest"

definition github_get :: "checker \<Rightarrow> cap_env \<Rightarrow> string \<Rightarrow> string \<Rightarrow> (json \<Rightarrow> 'a option) \<Rightarrow> 'a upd_action" where
  "github_get C E url what dec =
     check (wrapf ''failed to create request'' (os_call E)) (\<lambda>_.
     check (wrapf (''failed to fetch '' @ what) (http_do E url)) (\<lambda>ob.
       let (status, body) = co_http ob in
       if status \<noteq> 200 then fail (CapErrorf (''GitHub API returned '' @ show_int status @ '': '' @ body))
       else case Option.bind (json_first body) dec of
           None \<Rightarrow> fail (CapErrorf ''failed to decode response'')
         | Some x \<Rightarrow> done_with x))"

definition FetchLatestStable :: "checker \<Rightarrow> cap_env \<Rightarrow> ReleaseInfo upd_action" where
  "FetchLatestStable C E =
     check (github_get C E (api_url C ''/latest'') ''latest release'' (dec_gh_release (ck_json C))) (parseGitHubRelease (ck_host C) E)"

definition FetchLatestPrerelease :: "checker \<Rightarrow> cap_env \<Rightarrow> ReleaseInfo upd_action" where
  "FetchLatestPrerelease C E =
     check (github_get C E (api_url C []) ''releases'' (dec_slice (dec_gh_release (ck_json C)))) (\<lambda>ghReleases.
       case find gr_Prerelease ghReleases of
         Some gh \<Rightarrow> parseGitHubRelease (ck_host C) E gh
       | None \<Rightarrow> fail (CapErrorf ''no prerelease found''))"

definition fetchSpecificRelease :: "checker \<Rightarrow> cap_env \<Rightarrow> string \<Rightarrow> ReleaseInfo upd_action" where
  "fetchSpecificRelease C E version =
     check (github_get C E (api_url C (''/tags/'' @ version)) ''release'' (dec_gh_release (ck_json C))) (parseGitHubRelease (ck_host C) E)"

definition cache_ttl :: int where
  "cache_ttl = seconds 300"

definition release_cache_get :: "cap_env \<Rightarrow> string \<Rightarrow> (upd_world, ReleaseInfo option) state" where
  "release_cache_get E version = do {
     w \<leftarrow> State_Monad.get;
     case map_of (uw_cache w) version of
       None \<Rightarrow> State_Monad.return None
     | Some (release, expires) \<Rightarrow> do {
         now \<leftarrow> Now E;
         if now < expires then State_Monad.return (Some release)
         else do {
           w \<leftarrow> State_Monad.get;
           State_Monad.set (w\<lparr>uw_cache := AList.delete version (uw_cache w)\<rparr>);
           State_Monad.return None } } }"

definition release_cache_set :: "cap_env \<Rightarrow> string \<Rightarrow> ReleaseInfo \<Rightarrow> (upd_world, unit) state" where
  "release_cache_set E version release = do {
     now \<leftarrow> Now E;
     w \<leftarrow> State_Monad.get;
     State_Monad.set (w\<lparr>uw_cache := AList.update version (release, now + cache_ttl) (uw_cache w)\<rparr>) }"

definition FetchRelease :: "checker \<Rightarrow> cap_env \<Rightarrow> string \<Rightarrow> ReleaseInfo upd_action" where
  "FetchRelease C E version = do {
     cached \<leftarrow> release_cache_get E version;
     case cached of
       Some release \<Rightarrow> done_with release
     | None \<Rightarrow>
         check (if version = [] \<or> version = ''auto-update'' then FetchLatestStable C E
                else if version = ''dev'' then FetchLatestPrerelease C E
                else fetchSpecificRelease C E version) (\<lambda>release. do {
           release_cache_set E version release;
           done_with release }) }"


subsection \<open>Matching names\<close>

text \<open>What a part without dashes can match: all of it up to the next dash, or a beginning of that.\<close>

lemma no_dash_unfold:
  assumes "CHR ''-'' \<notin> set t" and "r = [] \<or> hd r = CHR ''-''"
  shows "no_dash (t @ r) = (if t = [] then [] else (t, r) # map (\<lambda>n. (take n t, drop n t @ r)) (rev [1..<length t]))"
proof -
  have "\<forall>c\<in>set t. c \<noteq> CHR ''-''" using assms(1) by blast
  then have "takeWhile (\<lambda>c. c \<noteq> CHR ''-'') (t @ r) = t" using assms(2) by (cases r) (simp_all add: takeWhile_append2)
  moreover have "take n (t @ r) = take n t" "drop n (t @ r) = drop n t @ r" if "n \<le> length t" for n using that by simp_all
  moreover have "[1..<Suc (length t)] = (if t = [] then [] else [1..<length t] @ [length t])" by (cases t) simp_all
  ultimately show ?thesis by (auto simp: no_dash_def)
qed

lemma no_dash_then_dash:
  assumes "CHR ''-'' \<notin> set t" and "r = [] \<or> hd r = CHR ''-''"
  shows "concat (map (\<lambda>(p, r'). if HasPrefix r' ''-'' then f p r' else []) (no_dash (t @ r))) = (if t \<noteq> [] \<and> r \<noteq> [] then f t r else [])"
proof -
  have "\<not> HasPrefix (drop n t @ r) ''-''" if "n < length t" for n
  proof -
    have "drop n t = t ! n # drop (Suc n) t" "t ! n \<in> set t" using that by (simp_all add: Cons_nth_drop_Suc)
    then show ?thesis using assms(1) by (auto simp: HasPrefix_def)
  qed
  then have *: "concat (map (\<lambda>n. if HasPrefix (drop n t @ r) ''-'' then f (take n t) (drop n t @ r) else []) (rev [1..<length t])) = []"
    by (auto simp: concat_eq_Nil_conv)
  have "HasPrefix r ''-'' \<longleftrightarrow> r \<noteq> []" using assms(2) by (cases r) (auto simp: HasPrefix_def)
  moreover have "concat (map (\<lambda>(p, r'). if HasPrefix r' ''-'' then f p r' else []) (no_dash (t @ r))) = (if t \<noteq> [] \<and> HasPrefix r ''-'' then f t r else [])"
    using * unfolding no_dash_unfold [OF assms] by (cases "t = []") (simp_all add: o_def del: concat_eq_Nil_conv)
  ultimately show ?thesis by simp
qed

lemma no_dash_to_end:
  assumes "CHR ''-'' \<notin> set t" and "r = [] \<or> hd r = CHR ''-''"
  shows "\<exists>ys. concat (map (\<lambda>(a, u). concat (map (\<lambda>e. if u = e then [f a] else []) [''.exe'', []])) (no_dash (t @ r)))
     = (if t \<noteq> [] \<and> r = [] then f t # ys else [])"
proof (cases "r = []")
  case False
  then have "CHR ''-'' \<in> set r" using assms(2) by (cases r) auto
  then have "CHR ''-'' \<in> set (drop n t @ r)" for n by simp
  moreover have "CHR ''-'' \<notin> set ''.exe''" by simp
  ultimately have "drop n t @ r \<noteq> ''.exe''" "drop n t @ r \<noteq> []" "r \<noteq> ''.exe''" for n
    using \<open>CHR ''-'' \<in> set r\<close> by (metis, metis empty_iff list.set(1), metis)
  then show ?thesis using False by (simp add: no_dash_unfold [OF assms] o_def)
qed (unfold no_dash_unfold [OF assms], simp)

lemma Split_dash:
  obtains r where "s = hd (Split c s) @ r" and "r = [] \<or> hd r = c" and "c \<notin> set (hd (Split c s))"
    and "tl (Split c s) = (if r = [] then [] else Split c (tl r))"
proof (cases "c \<in> set s")
  case True
  then obtain t r where s: "s = t @ c # r" "c \<notin> set t" by (meson split_list_first)
  then show thesis by (intro that [of "c # r"]) (simp_all add: Split_append_sep)
qed (auto intro: that [of "[]"] simp: Split_word)

text \<open>The names the expression accepts, read off their parts.\<close>

definition asset_parts :: "string \<Rightarrow> (string \<times> string \<times> string) option" where
  "asset_parts name =
     (case Split (CHR ''-'') name of
        [b, p, a] \<Rightarrow> if b \<in> {''underleaf_agent'', ''ufctl''} \<and> p \<noteq> [] \<and> a \<noteq> [] then Some (b, p, a) else None
      | _ \<Rightarrow> None)"

lemma binary_part:
  "\<exists>ys. (if HasPrefix name (b @ ''-'') then
       concat (map (\<lambda>(p, r). if HasPrefix r ''-'' then
         concat (map (\<lambda>(a, t). concat (map (\<lambda>e. if t = e then [(b, p, a)] else []) [''.exe'', []])) (no_dash (tl r))) else [])
       (no_dash (drop (Suc (length b)) name))) else [])
     = (case Split (CHR ''-'') name of
        [b', p, a] \<Rightarrow> if b' = b \<and> p \<noteq> [] \<and> a \<noteq> [] then (b, p, a) # ys else []
      | _ \<Rightarrow> [])"
  if "CHR ''-'' \<notin> set b"
proof (cases "HasPrefix name (b @ ''-'')")
  case True
  then obtain s where name: "name = b @ CHR ''-'' # s" by (auto simp: HasPrefix_iff_prefix prefix_def)
  obtain r where r: "s = hd (Split (CHR ''-'') s) @ r" "r = [] \<or> hd r = CHR ''-''" "CHR ''-'' \<notin> set (hd (Split (CHR ''-'') s))"
    "tl (Split (CHR ''-'') s) = (if r = [] then [] else Split (CHR ''-'') (tl r))" by (rule Split_dash)
  obtain u where u: "tl r = hd (Split (CHR ''-'') (tl r)) @ u" "u = [] \<or> hd u = CHR ''-''" "CHR ''-'' \<notin> set (hd (Split (CHR ''-'') (tl r)))"
    "tl (Split (CHR ''-'') (tl r)) = (if u = [] then [] else Split (CHR ''-'') (tl u))" by (rule Split_dash)
  define p q where "p = hd (Split (CHR ''-'') s)" and "q = hd (Split (CHR ''-'') (tl r))"
  have sp: "Split (CHR ''-'') name = b # p # (if r = [] then [] else q # (if u = [] then [] else Split (CHR ''-'') (tl u)))"
    using r(4) u(4) that unfolding name p_def q_def by (simp add: Split_append_sep) (metis Split_not_Nil list.collapse)
  note d = no_dash_then_dash [of p r, folded p_def] and e = no_dash_to_end [of q u "\<lambda>a. (b, p, a)"]
  have s: "s = p @ r" and t: "tl r = q @ u" using r(1) u(1) by (simp_all add: p_def q_def)
  obtain ys where ys: "concat (map (\<lambda>(a, u). concat (map (\<lambda>e. if u = e then [(b, p, a)] else []) [''.exe'', []])) (no_dash (tl r)))
     = (if q \<noteq> [] \<and> u = [] then (b, p, q) # ys else [])" using e [OF u(3) [folded q_def] u(2)] unfolding t by blast
  have n: "drop (Suc (length b)) name = p @ r" using s by (simp add: name)
  show ?thesis unfolding n sp d [OF r(3) [folded p_def] r(2)] ys using True
    by (intro exI [of _ ys]) (simp split: list.split)
next
  case False
  have "hd (Split (CHR ''-'') name) \<noteq> b \<or> tl (Split (CHR ''-'') name) = []"
  proof (rule Split_dash [of name "CHR ''-''"])
    fix r assume "name = hd (Split (CHR ''-'') name) @ r" "r = [] \<or> hd r = CHR ''-''"
      "tl (Split (CHR ''-'') name) = (if r = [] then [] else Split (CHR ''-'') (tl r))"
    with False show ?thesis by (cases r) (auto simp: HasPrefix_iff_prefix prefix_def)
  qed
  with False show ?thesis by (auto split: list.split)
qed


subsection \<open>What fetching a release leaves as it was\<close>

text \<open>The files and the update state.\<close>

definition keeps_update :: "upd_world \<Rightarrow> upd_world \<Rightarrow> bool" where
  "keeps_update w w' \<longleftrightarrow> w_files w' = w_files w \<and> uw_state w' = uw_state w"

interpretation fetch: frame keeps_update
  by unfold_locales (simp_all add: keeps_update_def)

lemma keeps_basic: "preserves keeps_update (interact E)" "preserves keeps_update (Now E)"
  by (auto simp: preserves_def keeps_update_def interact_run Now_def)

lemma set_run: "run_state (State_Monad.set s) w = ((), s)"
  by (simp add: State_Monad.set_def)

lemma keeps_http: "preserves keeps_update (http_do E url)"
proof -
  have "preserves keeps_update (os_call E :: (upd_world, _) state)" by (intro fetch.calls keeps_basic)
  then show ?thesis by (simp add: preserves_def http_do_def get_run set_run keeps_update_def)
qed

lemma keeps_cache: "preserves keeps_update (release_cache_get E v)" "preserves keeps_update (release_cache_set E v r)"
  by (auto simp: preserves_def keeps_update_def release_cache_get_def release_cache_set_def Now_def interact_run get_run set_run split: option.split)

lemma keeps_parse: "preserves keeps_update (parseGitHubRelease host E gh)"
  unfolding parseGitHubRelease_def downloadChecksums_def
  by (intro fetch.bind) (auto intro: fetch.bind keeps_http split: option.split)

lemma keeps_github_get: "preserves keeps_update (github_get C E url what dec)"
  unfolding github_get_def
  by (intro fetch.rules fetch.calls keeps_basic keeps_http) (auto simp: Let_def split: prod.split option.split)

lemma FetchRelease_keeps: "preserves keeps_update (FetchRelease C E v)"
  unfolding FetchRelease_def FetchLatestStable_def FetchLatestPrerelease_def fetchSpecificRelease_def
  by (intro fetch.bind keeps_cache) (auto intro!: fetch.rules keeps_github_get keeps_parse keeps_cache split: option.split)

subsection \<open>The asset for a host\<close>

text \<open>The assets of a release are described by their names, and their digests are those listed.\<close>

definition asset_ok :: "(string, string) gomap \<Rightarrow> ReleaseAsset \<Rightarrow> bool" where
  "asset_ok sums a \<longleftrightarrow> ra_Binary a \<in> {''underleaf_agent'', ''ufctl''} \<and> ra_Name a = ra_Binary a @ CHR ''-'' # ra_Platform a @ CHR ''-'' # ra_Arch a
     \<and> ra_SHA256 a = (case map_of sums (ra_Name a) of None \<Rightarrow> [] | Some h \<Rightarrow> h)"

lemma asset_parts_name:
  assumes "asset_parts name = Some (b, p, a)"
  shows "b \<in> {''underleaf_agent'', ''ufctl''}" and "name = b @ CHR ''-'' # p @ CHR ''-'' # a"
proof -
  have "Split (CHR ''-'') name = [b, p, a] \<and> b \<in> {''underleaf_agent'', ''ufctl''}"
    using assms by (auto simp: asset_parts_def split: list.splits if_splits)
  then show "b \<in> {''underleaf_agent'', ''ufctl''}" "name = b @ CHR ''-'' # p @ CHR ''-'' # a"
    using Join_Split [of "CHR ''-''" name] by auto
qed

lemma parseAssetName_parts:
  "parseAssetName name = map_option (\<lambda>(b, p, a).
     \<lparr>ra_Name = name, ra_DownloadURL = [], ra_Size = 0, ra_SHA256 = [], ra_Platform = p, ra_Arch = a, ra_Binary = b\<rparr>) (asset_parts name)"
proof -
  have m: "asset_matches name = concat (map (\<lambda>b. if HasPrefix name (b @ ''-'') then
       concat (map (\<lambda>(p, r). if HasPrefix r ''-'' then
         concat (map (\<lambda>(a, t). concat (map (\<lambda>e. if t = e then [(b, p, a)] else []) [''.exe'', []])) (no_dash (tl r))) else [])
       (no_dash (drop (Suc (length b)) name))) else []) [''underleaf_agent'', ''ufctl''])"
    by (simp only: asset_matches_def)
  obtain ys zs where "asset_matches name =
      (case Split (CHR ''-'') name of [b', p, a] \<Rightarrow> if b' = ''underleaf_agent'' \<and> p \<noteq> [] \<and> a \<noteq> [] then (''underleaf_agent'', p, a) # ys else [] | _ \<Rightarrow> [])
      @ (case Split (CHR ''-'') name of [b', p, a] \<Rightarrow> if b' = ''ufctl'' \<and> p \<noteq> [] \<and> a \<noteq> [] then (''ufctl'', p, a) # zs else [] | _ \<Rightarrow> [])"
    using binary_part [of "''underleaf_agent''" name] binary_part [of "''ufctl''" name] unfolding m list.map concat.simps append_Nil2 by auto
  then show ?thesis by (auto simp: parseAssetName_def asset_parts_def split: list.split)
qed

lemma parseAssetName_exact:
  assumes "b \<in> {''underleaf_agent'', ''ufctl''}" and "p \<noteq> []" and "a \<noteq> []" and "CHR ''-'' \<notin> set p" and "CHR ''-'' \<notin> set a"
  shows "parseAssetName (b @ CHR ''-'' # p @ CHR ''-'' # a)
     = Some \<lparr>ra_Name = b @ CHR ''-'' # p @ CHR ''-'' # a, ra_DownloadURL = [], ra_Size = 0, ra_SHA256 = [], ra_Platform = p, ra_Arch = a, ra_Binary = b\<rparr>"
proof -
  have "CHR ''-'' \<notin> set b" using assms(1) by auto
  then have "Split (CHR ''-'') (b @ CHR ''-'' # p @ CHR ''-'' # a) = [b, p, a]" using assms(4,5) by (simp add: Split_append_sep Split_word)
  then show ?thesis using assms(1-3) by (auto simp: parseAssetName_parts asset_parts_def)
qed

lemma release_asset_ok: "release_asset sums ga = Some a \<Longrightarrow> asset_ok sums a \<and> ra_Name a = ga_Name ga"
  using asset_parts_name [of "ga_Name ga"]
  by (auto simp: release_asset_def parseAssetName_parts asset_ok_def Let_def split: option.splits)

lemma release_of_ok: "a \<in> set (ri_Assets (release_of host gh sums)) \<Longrightarrow> asset_ok sums a \<and> ra_Name a \<in> ga_Name ` set (gr_Assets gh)"
  using release_asset_ok by (fastforce simp: release_of_def Let_def List.map_filter_def)

lemma selected_name:
  assumes "GetAssetForPlatform host r binary = Inr a" and "list_all (asset_ok sums) (ri_Assets r)"
  shows "ra_Name a = binary @ CHR ''-'' # fst host @ CHR ''-'' # snd host \<and> asset_ok sums a \<and> binary \<in> {''underleaf_agent'', ''ufctl''}"
proof -
  have "find (for_host host binary) (ri_Assets r) = Some a" using assms(1) by (auto simp: GetAssetForPlatform_def split: option.splits)
  then have "a \<in> set (ri_Assets r)" "for_host host binary a" by (auto simp: find_Some_iff)
  then show ?thesis using assms(2) by (auto simp: list_all_iff asset_ok_def for_host_def)
qed

subsection \<open>Properties\<close>

text \<open>
  C34: the regular expression of asset names, matched the way Go's matcher prefers, accepts exactly
  the names of three parts without dashes, a known binary, a platform and an architecture. The
  optional suffix is never matched: what follows the last dash is the architecture, \<open>.exe\<close>
  included.
\<close>

theorem asset_names:
  "parseAssetName name = map_option (\<lambda>(b, p, a).
     \<lparr>ra_Name = name, ra_DownloadURL = [], ra_Size = 0, ra_SHA256 = [], ra_Platform = p, ra_Arch = a, ra_Binary = b\<rparr>) (asset_parts name)"
  by (rule parseAssetName_parts)

text \<open>
  The binary for a host is found in a release exactly when the release has an asset of exactly
  that name, binary, platform and architecture joined by dashes. On Windows the published names
  end in \<open>.exe\<close>, and no asset is found.
\<close>

theorem asset_for_host:
  assumes "binary \<in> {''underleaf_agent'', ''ufctl''}" and "fst host \<noteq> []" and "snd host \<noteq> []"
    and "CHR ''-'' \<notin> set (fst host)" and "CHR ''-'' \<notin> set (snd host)"
  shows "is_ok (GetAssetForPlatform host (release_of host gh sums) binary)
     \<longleftrightarrow> binary @ CHR ''-'' # fst host @ CHR ''-'' # snd host \<in> ga_Name ` set (gr_Assets gh)" (is "?found \<longleftrightarrow> ?name \<in> _")
proof
  assume ?found
  then obtain a where "GetAssetForPlatform host (release_of host gh sums) binary = Inr a" by (cases "GetAssetForPlatform host (release_of host gh sums) binary") auto
  then have a: "a \<in> set (ri_Assets (release_of host gh sums))" "for_host host binary a"
    by (auto simp: GetAssetForPlatform_def find_Some_iff split: option.splits)
  then show "?name \<in> ga_Name ` set (gr_Assets gh)" using release_of_ok [OF a(1)] unfolding asset_ok_def for_host_def by metis
next
  assume "?name \<in> ga_Name ` set (gr_Assets gh)"
  then obtain ga where ga: "ga \<in> set (gr_Assets gh)" "ga_Name ga = ?name" by auto
  obtain a where a: "release_asset sums ga = Some a" "for_host host binary a"
    using parseAssetName_exact [OF assms] ga(2) by (auto simp: release_asset_def for_host_def Let_def split: option.split)
  then have "a \<in> set (ri_Assets (release_of host gh sums))" using ga(1) by (force simp: release_of_def Let_def List.map_filter_def)
  with a(2) have "find (for_host host binary) (ri_Assets (release_of host gh sums)) \<noteq> None" by (auto simp: find_None_iff)
  then show ?found by (auto simp: GetAssetForPlatform_def split: option.split)
qed

theorem asset_for_host_witness:
  "\<not> is_ok (GetAssetForPlatform (''windows'', ''amd64'') (release_of (''windows'', ''amd64'')
        \<lparr>gr_TagName = ''v1'', gr_Name = [], gr_Body = [], gr_Prerelease = False, gr_PublishedAt = [],
         gr_Assets = [\<lparr>ga_Name = ''ufctl-windows-amd64.exe'', ga_BrowserDownloadURL = [], ga_Size = 0\<rparr>]\<rparr> []) ''ufctl'')"
  by (subst asset_for_host) simp_all

end
