(* ===== verification/Upd_Manager.thy ===== *)
theory Upd_Manager
  imports Upd_Release
begin

text \<open>
  The self updater, \<open>internal/updater/store.go\<close>, \<open>downloader.go\<close>, \<open>installer.go\<close> and
  \<open>manager.go\<close>: the update state and its file, downloads into the staging directory, the
  replacement of the binaries, and the operations of the manager. Each operation runs to its end;
  the goroutines of the manager are the operations \<open>sha_tick\<close> and \<open>config_version\<close> of one round of
  their loops.
\<close>

declare map_of_eq_Some_iff [simp del]

subsection \<open>Configuration\<close>

text \<open>
  \<open>ud_version\<close> is \<open>version.Version\<close>, \<open>ud_sha\<close> the hexadecimal SHA-256 digest, \<open>ud_home\<close> the variable
  \<open>HOME\<close>; the last two fields say whether the installer has a drainer and a restarter.
\<close>

record updater =
  ud_base :: string
  ud_checker :: checker
  ud_version :: string
  ud_sha :: "bytes \<Rightarrow> string"
  ud_home :: string
  ud_drainer :: bool
  ud_restarter :: bool

definition statePath :: "updater \<Rightarrow> string" where
  "statePath U = path_Join [ud_base U, ''update-state.json'']"

definition stagingPath :: "updater \<Rightarrow> string" where
  "stagingPath U = path_Join [ud_base U, ''staging'']"

definition backupPath :: "updater \<Rightarrow> string" where
  "backupPath U = path_Join [ud_base U, ''backup'']"

abbreviation uj :: "updater \<Rightarrow> json_env" where
  "uj U \<equiv> ck_json (ud_checker U)"

fun cap_err_text :: "cap_err \<Rightarrow> string" where
  "cap_err_text (CapErrorf s) = s"
| "cap_err_text (CapWrapf s e) = s @ '': '' @ cap_err_text e"

subsection \<open>store.go\<close>

fun status_text :: "UpdateStatus \<Rightarrow> string" where
  "status_text UpdateStatusIdle = ''idle''"
| "status_text UpdateStatusChecking = ''checking''"
| "status_text UpdateStatusDownloading = ''downloading''"
| "status_text UpdateStatusPending = ''pending''"
| "status_text UpdateStatusApplying = ''applying''"
| "status_text UpdateStatusFailed = ''failed''"
| "status_text (UpdateStatusOther s) = s"

definition status_of :: "string \<Rightarrow> UpdateStatus" where
  "status_of s =
     (case find (\<lambda>st. status_text st = s) [UpdateStatusIdle, UpdateStatusChecking, UpdateStatusDownloading, UpdateStatusPending, UpdateStatusApplying, UpdateStatusFailed] of
        Some st \<Rightarrow> st | None \<Rightarrow> UpdateStatusOther s)"

definition state_fields :: "UpdateState \<Rightarrow> (string \<times> string) list" where
  "state_fields st =
     [(''current_version'', us_CurrentVersion st), (''desired_version'', us_DesiredVersion st), (''release_sha'', us_ReleaseSHA st),
      (''status'', status_text (us_Status st)), (''last_check'', us_LastCheck st), (''pending_agent'', us_PendingAgent st),
      (''pending_ufctl'', us_PendingUfctl st), (''pending_sha'', us_PendingSHA st), (''backup_agent'', us_BackupAgent st),
      (''backup_ufctl'', us_BackupUfctl st), (''error_message'', us_ErrorMessage st), (''updated_at'', us_UpdatedAt st)]"

text \<open>\<open>json.MarshalIndent\<close> with two blanks, of a struct of strings.\<close>

definition indented_member :: "string \<times> string \<Rightarrow> string" where
  "indented_member kv = CHR 0x0A # ''  '' @ json_string (fst kv) @ '': '' @ json_string (snd kv)"

definition indented :: "(string \<times> string) list \<Rightarrow> string" where
  "indented fs = CHR ''{'' # Join (CHR '','') (map indented_member fs) @ [CHR 0x0A, CHR ''}'']"

definition zero_state :: UpdateState where
  "zero_state = \<lparr>us_CurrentVersion = [], us_DesiredVersion = [], us_ReleaseSHA = [], us_Status = UpdateStatusOther [], us_LastCheck = zero_time,
     us_PendingAgent = [], us_PendingUfctl = [], us_PendingSHA = [], us_BackupAgent = [], us_BackupUfctl = [], us_ErrorMessage = [], us_UpdatedAt = zero_time\<rparr>"

fun dec_state :: "json_env \<Rightarrow> json \<Rightarrow> UpdateState option" where
  "dec_state J (Jobj fs) = do {
     current \<leftarrow> dec_string (field fs ''current_version'');
     desired \<leftarrow> dec_string (field fs ''desired_version'');
     sha \<leftarrow> dec_string (field fs ''release_sha'');
     status \<leftarrow> dec_string (field fs ''status'');
     last \<leftarrow> dec_time J (field fs ''last_check'');
     agent \<leftarrow> dec_string (field fs ''pending_agent'');
     ufctl \<leftarrow> dec_string (field fs ''pending_ufctl'');
     psha \<leftarrow> dec_string (field fs ''pending_sha'');
     bagent \<leftarrow> dec_string (field fs ''backup_agent'');
     bufctl \<leftarrow> dec_string (field fs ''backup_ufctl'');
     err \<leftarrow> dec_string (field fs ''error_message'');
     updated \<leftarrow> dec_time J (field fs ''updated_at'');
     Some \<lparr>us_CurrentVersion = current, us_DesiredVersion = desired, us_ReleaseSHA = sha, us_Status = status_of status, us_LastCheck = last,
       us_PendingAgent = agent, us_PendingUfctl = ufctl, us_PendingSHA = psha, us_BackupAgent = bagent, us_BackupUfctl = bufctl,
       us_ErrorMessage = err, us_UpdatedAt = updated\<rparr>
   }"
| "dec_state J Jnull = Some zero_state"
| "dec_state J _ = None"

text \<open>\<open>os.ReadFile\<close>, with \<open>None\<close> for a file that does not exist, \<open>os.WriteFile\<close> and \<open>os.Stat\<close>.\<close>

definition ReadFile_opt :: "cap_env \<Rightarrow> string \<Rightarrow> ('z, bytes option) cap_action" where
  "ReadFile_opt E p = check (os_call E) (\<lambda>_. do { w \<leftarrow> State_Monad.get; done_with (map_of (w_files w) p) })"

definition WriteFile :: "cap_env \<Rightarrow> string \<Rightarrow> bytes \<Rightarrow> ('z, unit) cap_action" where
  "WriteFile E p c = check (Create E p) (\<lambda>_. Copy E p c)"

definition Stat :: "cap_env \<Rightarrow> string \<Rightarrow> ('z, unit) cap_action" where
  "Stat E p = check (ReadFile E p) (\<lambda>_. done_with ())"

text \<open>Writing a temporary file beside the target and renaming it, with the messages of the two errors.\<close>

definition WriteAtomic :: "cap_env \<Rightarrow> string \<Rightarrow> bytes \<Rightarrow> string \<Rightarrow> string \<Rightarrow> ('z, unit) cap_action" where
  "WriteAtomic E p c write_err rename_err =
     check (wrapf write_err (WriteFile E (p @ ''.tmp'') c)) (\<lambda>_.
     on_error (Rename E (p @ ''.tmp'') p)
       (\<lambda>e. do { Remove E (p @ ''.tmp''); fail (CapWrapf rename_err e) })
       (\<lambda>_. done_with ()))"

definition EnsureDirectories :: "updater \<Rightarrow> cap_env \<Rightarrow> unit upd_action" where
  "EnsureDirectories U E =
     check (wrapf (''failed to create directory '' @ ud_base U) (os_call E)) (\<lambda>_.
     check (wrapf (''failed to create directory '' @ stagingPath U) (os_call E)) (\<lambda>_.
     check (wrapf (''failed to create directory '' @ backupPath U) (os_call E)) (\<lambda>_. done_with ())))"

definition LoadState :: "updater \<Rightarrow> cap_env \<Rightarrow> UpdateState upd_action" where
  "LoadState U E =
     check (wrapf ''failed to read state file'' (ReadFile_opt E (statePath U))) (\<lambda>data.
       case data of
         None \<Rightarrow> done_with (zero_state\<lparr>us_Status := UpdateStatusIdle\<rparr>)
       | Some text \<Rightarrow>
           (case Option.bind (json_parse text) (dec_state (uj U)) of
              None \<Rightarrow> fail (CapErrorf ''failed to unmarshal state'')
            | Some st \<Rightarrow> done_with st))"

definition SaveState :: "updater \<Rightarrow> cap_env \<Rightarrow> UpdateState \<Rightarrow> unit upd_action" where
  "SaveState U E st = WriteAtomic E (statePath U) (indented (state_fields st)) ''failed to write temp state file'' ''failed to save state file''"

definition upd_CleanStaging :: "updater \<Rightarrow> cap_env \<Rightarrow> unit upd_action" where
  "upd_CleanStaging U E = check (wrapf ''failed to remove staging directory'' (RemoveAll E (stagingPath U))) (\<lambda>_. check (os_call E) (\<lambda>_. done_with ()))"

subsection \<open>downloader.go\<close>

definition upd_downloadFile :: "cap_env \<Rightarrow> string \<Rightarrow> string \<Rightarrow> unit upd_action" where
  "upd_downloadFile E url p =
     check (wrapf ''failed to download'' (http_do E url)) (\<lambda>ob.
       let (status, body) = co_http ob in
       if status \<noteq> 200 then fail (CapErrorf (''download failed with status '' @ show_int status))
       else check (wrapf ''failed to create file'' (Create E p)) (\<lambda>_.
            wrapf ''failed to write file'' (Copy E p body)))"

definition upd_calculateSHA256 :: "(bytes \<Rightarrow> string) \<Rightarrow> cap_env \<Rightarrow> string \<Rightarrow> string upd_action" where
  "upd_calculateSHA256 sha E p = check (ReadFile E p) (\<lambda>c. done_with (sha c))"

text \<open>An error is returned after the temporary file is removed.\<close>

definition or_remove :: "cap_env \<Rightarrow> string \<Rightarrow> 'a upd_action \<Rightarrow> ('a \<Rightarrow> 'b upd_action) \<Rightarrow> 'b upd_action" where
  "or_remove E tmp m f = on_error m (\<lambda>e. do { Remove E tmp; fail e }) f"

definition upd_Download :: "updater \<Rightarrow> cap_env \<Rightarrow> ReleaseAsset \<Rightarrow> string \<Rightarrow> string upd_action" where
  "upd_Download U E asset expectedSHA256 =
     (let tmpFile = path_Join [stagingPath U, ra_Name asset @ ''.tmp''];
          finalFile = path_Join [stagingPath U, ra_Name asset]
      in check (wrapf ''failed to create staging directory'' (os_call E)) (\<lambda>_.
         or_remove E tmpFile (wrapf (''failed to download '' @ ra_Name asset) (upd_downloadFile E (ra_DownloadURL asset) tmpFile)) (\<lambda>_.
         or_remove E tmpFile
           (if expectedSHA256 = [] then done_with ()
            else check (wrapf ''failed to calculate SHA256'' (upd_calculateSHA256 (ud_sha U) E tmpFile)) (\<lambda>actual.
                 if actual \<noteq> expectedSHA256 then fail (CapErrorf (''SHA256 mismatch: expected '' @ expectedSHA256 @ '', got '' @ actual))
                 else done_with ())) (\<lambda>_.
         or_remove E tmpFile (wrapf ''failed to make binary executable'' (os_call E)) (\<lambda>_.
         or_remove E tmpFile (wrapf ''failed to move binary to final location'' (Rename E tmpFile finalFile)) (\<lambda>_.
           done_with finalFile))))))"

subsection \<open>installer.go\<close>

definition upd_copyFile :: "cap_env \<Rightarrow> string \<Rightarrow> string \<Rightarrow> unit upd_action" where
  "upd_copyFile E src dst =
     check (ReadFile E src) (\<lambda>_.
     check (Create E dst) (\<lambda>_. do {
       w \<leftarrow> State_Monad.get;
       check (Copy E dst (case map_of (w_files w) src of None \<Rightarrow> [] | Some c \<Rightarrow> c)) (\<lambda>_.
       check (Stat E src) (\<lambda>_.
       check (os_call E) (\<lambda>_. done_with ()))) }))"

definition replaceBinary :: "cap_env \<Rightarrow> string \<Rightarrow> string \<Rightarrow> unit upd_action" where
  "replaceBinary E sourcePath targetPath =
     (let tmpPath = targetPath @ ''.new'' in
      check (wrapf ''failed to copy binary'' (upd_copyFile E sourcePath tmpPath)) (\<lambda>_.
      or_remove E tmpPath (wrapf ''failed to make executable'' (os_call E)) (\<lambda>_.
      or_remove E tmpPath (wrapf ''failed to replace binary'' (Rename E tmpPath targetPath)) (\<lambda>_. done_with ()))))"

definition rollbackBinary :: "cap_env \<Rightarrow> string \<Rightarrow> string \<Rightarrow> unit upd_action" where
  "rollbackBinary E backup target =
     check (wrapf ''backup not found'' (Stat E backup)) (\<lambda>_. replaceBinary E backup target)"

text \<open>The first of the candidates that exists.\<close>

fun first_existing :: "cap_env \<Rightarrow> string list \<Rightarrow> (upd_world, string option) state" where
  "first_existing E [] = State_Monad.return None"
| "first_existing E (p # ps) = do {
     r \<leftarrow> Stat E p;
     case r of Inr _ \<Rightarrow> State_Monad.return (Some p) | Inl _ \<Rightarrow> first_existing E ps }"

definition common_paths :: "updater \<Rightarrow> string \<Rightarrow> string list" where
  "common_paths U name = [''/usr/local/bin/'' @ name, ''/usr/bin/'' @ name, path_Join [ud_home U, ''.local'', ''bin'', name]]"

definition getAgentBinaryPath :: "updater \<Rightarrow> cap_env \<Rightarrow> (upd_world, string) state" where
  "getAgentBinaryPath U E = do {
     exe \<leftarrow> os_call E;
     if (case exe of Inr ob \<Rightarrow> Base (co_id ob) = ''underleaf_agent'' | Inl _ \<Rightarrow> False)
     then State_Monad.return (case exe of Inr ob \<Rightarrow> co_id ob | Inl _ \<Rightarrow> [])
     else do {
       found \<leftarrow> os_call E;
       case found of
         Inr ob \<Rightarrow> State_Monad.return (co_id ob)
       | Inl _ \<Rightarrow> do {
           p \<leftarrow> first_existing E (common_paths U ''underleaf_agent'');
           State_Monad.return (case p of Some p \<Rightarrow> p | None \<Rightarrow> ''./underleaf_agent'') } } }"

text \<open>\<open>filepath.Dir\<close> of a cleaned absolute path.\<close>

definition Dir :: "string \<Rightarrow> string" where
  "Dir p = Clean (rev (dropWhile (\<lambda>c. c \<noteq> CHR ''/'') (rev p)))"

definition getUfctlBinaryPath :: "updater \<Rightarrow> cap_env \<Rightarrow> (upd_world, string) state" where
  "getUfctlBinaryPath U E = do {
     found \<leftarrow> os_call E;
     case found of
       Inr ob \<Rightarrow> State_Monad.return (co_id ob)
     | Inl _ \<Rightarrow> do {
         p \<leftarrow> first_existing E (common_paths U ''ufctl'');
         case p of
           Some p \<Rightarrow> State_Monad.return p
         | None \<Rightarrow> do {
             exe \<leftarrow> os_call E;
             State_Monad.return (case exe of Inr ob \<Rightarrow> path_Join [Dir (co_id ob), ''ufctl''] | Inl _ \<Rightarrow> ''./ufctl'') } } }"

definition backup_one ::
  "cap_env \<Rightarrow> (upd_world, string) state \<Rightarrow> string \<Rightarrow> string \<Rightarrow> string \<Rightarrow> string \<Rightarrow> string upd_action" where
  "backup_one E path backup what pending old =
     (if pending = [] then done_with old
      else do {
        p \<leftarrow> path;
        present \<leftarrow> Stat E p;
        case present of
          Inl _ \<Rightarrow> done_with old
        | Inr _ \<Rightarrow> check (wrapf (''failed to backup '' @ what) (upd_copyFile E p backup)) (\<lambda>_. done_with backup) })"

text \<open>The state is the one the pointer argument leads to, updated as far as the method came.\<close>

definition backupCurrentBinaries :: "updater \<Rightarrow> cap_env \<Rightarrow> UpdateState \<Rightarrow> (upd_world, (cap_err, unit) result \<times> UpdateState) state" where
  "backupCurrentBinaries U E st = do {
     dir \<leftarrow> os_call E;
     case dir of
       Inl e \<Rightarrow> State_Monad.return (Inl (CapWrapf ''failed to create backup directory'' e), st)
     | Inr _ \<Rightarrow> do {
         a \<leftarrow> backup_one E (getAgentBinaryPath U E) (path_Join [backupPath U, ''underleaf_agent.backup'']) ''agent'' (us_PendingAgent st) (us_BackupAgent st);
         case a of
           Inl e \<Rightarrow> State_Monad.return (Inl e, st)
         | Inr agent \<Rightarrow> do {
             let st = st\<lparr>us_BackupAgent := agent\<rparr>;
             u \<leftarrow> backup_one E (getUfctlBinaryPath U E) (path_Join [backupPath U, ''ufctl.backup'']) ''ufctl'' (us_PendingUfctl st) (us_BackupUfctl st);
             State_Monad.return (case u of Inl e \<Rightarrow> (Inl e, st) | Inr ufctl \<Rightarrow> (Inr (), st\<lparr>us_BackupUfctl := ufctl\<rparr>)) } } }"

text \<open>\<open>Drain\<close> and \<open>Restart\<close> of the injected interfaces succeed when the environment reports no error.\<close>

definition applyAgentUpdate :: "updater \<Rightarrow> cap_env \<Rightarrow> string \<Rightarrow> string \<Rightarrow> unit upd_action" where
  "applyAgentUpdate U E pending backup = do {
     agentPath \<leftarrow> getAgentBinaryPath U E;
     check (wrapf ''pending agent binary not found'' (Stat E pending)) (\<lambda>_.
     check (if \<not> ud_drainer U then done_with ()
            else on_error (os_call E) (\<lambda>_. fail (CapErrorf ''timeout waiting for commands to complete'')) (\<lambda>_. done_with ())) (\<lambda>_.
     check (wrapf ''failed to replace agent binary'' (replaceBinary E pending agentPath)) (\<lambda>_.
       if \<not> ud_restarter U then done_with ()
       else on_error (os_call E) (\<lambda>e. do { rollbackBinary E backup agentPath; fail (CapWrapf ''failed to restart agent'' e) }) (\<lambda>_. done_with ())))) }"

definition applyUfctlUpdate :: "updater \<Rightarrow> cap_env \<Rightarrow> string \<Rightarrow> unit upd_action" where
  "applyUfctlUpdate U E pending = do {
     ufctlPath \<leftarrow> getUfctlBinaryPath U E;
     check (wrapf ''pending ufctl binary not found'' (Stat E pending)) (\<lambda>_.
       wrapf ''failed to replace ufctl binary'' (replaceBinary E pending ufctlPath)) }"

definition installer_ApplyUpdate :: "updater \<Rightarrow> cap_env \<Rightarrow> UpdateState \<Rightarrow> (upd_world, (cap_err, unit) result \<times> UpdateState) state" where
  "installer_ApplyUpdate U E st = do {
     (b, st) \<leftarrow> backupCurrentBinaries U E st;
     r \<leftarrow> check (wrapf ''failed to backup binaries'' (State_Monad.return b)) (\<lambda>_.
       check (if us_PendingAgent st = [] then done_with ()
              else on_error (applyAgentUpdate U E (us_PendingAgent st) (us_BackupAgent st))
                (\<lambda>e. do {
                  p \<leftarrow> getAgentBinaryPath U E;
                  rollbackBinary E (us_BackupAgent st) p;
                  fail (CapWrapf ''failed to apply agent update'' e) })
                (\<lambda>_. done_with ())) (\<lambda>_.
       if us_PendingUfctl st = [] then done_with ()
       else wrapf ''failed to apply ufctl update (agent updated successfully)'' (applyUfctlUpdate U E (us_PendingUfctl st))));
     State_Monad.return (r, st) }"

definition rollback_one :: "cap_env \<Rightarrow> (upd_world, string) state \<Rightarrow> string \<Rightarrow> string \<Rightarrow> (upd_world, cap_err list) state" where
  "rollback_one E path what backup =
     (if backup = [] then State_Monad.return []
      else do {
        p \<leftarrow> path;
        r \<leftarrow> rollbackBinary E backup p;
        State_Monad.return (case r of Inl e \<Rightarrow> [CapWrapf (what @ '' rollback failed'') e] | Inr _ \<Rightarrow> []) })"

definition installer_Rollback :: "updater \<Rightarrow> cap_env \<Rightarrow> UpdateState \<Rightarrow> unit upd_action" where
  "installer_Rollback U E st = do {
     es \<leftarrow> rollback_one E (getAgentBinaryPath U E) ''agent'' (us_BackupAgent st);
     es' \<leftarrow> rollback_one E (getUfctlBinaryPath U E) ''ufctl'' (us_BackupUfctl st);
     if es @ es' \<noteq> [] then fail (CapErrorf (''rollback errors: ['' @ Join (CHR '' '') (map cap_err_text (es @ es')) @ '']'')) else done_with () }"

subsection \<open>manager.go\<close>

definition isHexString :: "string \<Rightarrow> bool" where
  "isHexString s = list_all (\<lambda>c. \<not> ((c < CHR ''0'' \<or> c > CHR ''9'') \<and> (c < CHR ''a'' \<or> c > CHR ''f'') \<and> (c < CHR ''A'' \<or> c > CHR ''F''))) s"

definition normalizeVersionForRelease :: "string \<Rightarrow> string" where
  "normalizeVersionForRelease version =
     (let parts = Split (CHR ''-'') version in
      if length parts < 2 then version
      else let lastPart = last parts in
           if length lastPart \<ge> 7 \<and> isHexString lastPart then Join (CHR ''-'') (butlast parts) else version)"

definition modify_state :: "(UpdateState \<Rightarrow> UpdateState) \<Rightarrow> (upd_world, unit) state" where
  "modify_state f = State (\<lambda>w. ((), w\<lparr>uw_state := f (uw_state w)\<rparr>))"

text \<open>\<open>SaveState(m.currentState)\<close>, its error only logged.\<close>

definition save_current :: "updater \<Rightarrow> cap_env \<Rightarrow> (upd_world, unit) state" where
  "save_current U E = do { w \<leftarrow> State_Monad.get; _ \<leftarrow> SaveState U E (uw_state w); State_Monad.return () }"

definition updateStatus :: "updater \<Rightarrow> cap_env \<Rightarrow> UpdateStatus \<Rightarrow> string \<Rightarrow> (upd_world, unit) state" where
  "updateStatus U E status errorMsg = do {
     t \<leftarrow> Now E;
     modify_state (\<lambda>st. st\<lparr>us_Status := status, us_ErrorMessage := errorMsg, us_UpdatedAt := je_time (uj U) t\<rparr>);
     save_current U E }"

definition Start :: "updater \<Rightarrow> cap_env \<Rightarrow> unit upd_action" where
  "Start U E =
     check (wrapf ''failed to ensure directories'' (EnsureDirectories U E)) (\<lambda>_. do {
       loaded \<leftarrow> LoadState U E;
       modify_state (\<lambda>_. case loaded of Inr st \<Rightarrow> st | Inl _ \<Rightarrow> zero_state\<lparr>us_Status := UpdateStatusIdle, us_CurrentVersion := ud_version U\<rparr>);
       w \<leftarrow> State_Monad.get;
       if us_ReleaseSHA (uw_state w) = [] \<and> ud_version U \<noteq> [] \<and> ud_version U \<noteq> ''0.0.0''
       then on_error (FetchRelease (ud_checker U) E (normalizeVersionForRelease (ud_version U)))
         (\<lambda>_. done_with ())
         (\<lambda>release.
           if ri_SHA256 release \<noteq> []
           then do {
             modify_state (\<lambda>st. st\<lparr>us_ReleaseSHA := ri_SHA256 release, us_CurrentVersion := ud_version U\<rparr>);
             save_current U E;
             done_with () }
           else done_with ())
       else done_with () })"

definition downloadBinaries :: "updater \<Rightarrow> cap_env \<Rightarrow> ReleaseInfo \<Rightarrow> unit upd_action" where
  "downloadBinaries U E release = do {
     updateStatus U E UpdateStatusDownloading [];
     check (wrapf ''failed to find agent asset'' (State_Monad.return (GetAssetForPlatform (ck_host (ud_checker U)) release ''underleaf_agent''))) (\<lambda>agentAsset.
     check (wrapf ''failed to download agent'' (upd_Download U E agentAsset (ra_SHA256 agentAsset))) (\<lambda>agentPath. do {
       modify_state (\<lambda>st. st\<lparr>us_PendingAgent := agentPath\<rparr>);
       check (wrapf ''failed to find ufctl asset'' (State_Monad.return (GetAssetForPlatform (ck_host (ud_checker U)) release ''ufctl''))) (\<lambda>ufctlAsset.
       check (wrapf ''failed to download ufctl'' (upd_Download U E ufctlAsset (ra_SHA256 ufctlAsset))) (\<lambda>ufctlPath. do {
         modify_state (\<lambda>st. st\<lparr>us_PendingUfctl := ufctlPath\<rparr>);
         done_with () })) })) }"

text \<open>The parts of \<open>CheckAndDownload\<close>: its first state, and what follows the fetched release.\<close>

definition begin_check :: "updater \<Rightarrow> cap_env \<Rightarrow> string \<Rightarrow> (upd_world, unit) state" where
  "begin_check U E desiredVersion = do {
     t \<leftarrow> Now E;
     t' \<leftarrow> Now E;
     modify_state (\<lambda>st. st\<lparr>us_Status := UpdateStatusChecking, us_DesiredVersion := desiredVersion, us_LastCheck := je_time (uj U) t, us_UpdatedAt := je_time (uj U) t'\<rparr>);
     save_current U E }"

definition mark_pending :: "updater \<Rightarrow> cap_env \<Rightarrow> ReleaseInfo \<Rightarrow> (upd_world, unit) state" where
  "mark_pending U E release = do {
     t \<leftarrow> Now E;
     modify_state (\<lambda>st. st\<lparr>us_Status := UpdateStatusPending, us_PendingSHA := ri_SHA256 release, us_ErrorMessage := [], us_UpdatedAt := je_time (uj U) t\<rparr>);
     save_current U E }"

definition use_release :: "updater \<Rightarrow> cap_env \<Rightarrow> ReleaseInfo \<Rightarrow> unit upd_action" where
  "use_release U E release = do {
     w \<leftarrow> State_Monad.get;
     if ri_SHA256 release = us_ReleaseSHA (uw_state w) \<and> ud_version U = ri_Version release
     then do { updateStatus U E UpdateStatusIdle []; done_with () }
     else on_error (downloadBinaries U E release)
       (\<lambda>e. do {
         updateStatus U E UpdateStatusFailed (''download failed: '' @ cap_err_text e);
         fail (CapWrapf ''failed to download binaries'' e) })
       (\<lambda>_. do { mark_pending U E release; done_with () }) }"

definition CheckAndDownload :: "updater \<Rightarrow> cap_env \<Rightarrow> string \<Rightarrow> unit upd_action" where
  "CheckAndDownload U E desiredVersion = do {
     begin_check U E desiredVersion;
     on_error (FetchRelease (ud_checker U) E desiredVersion)
       (\<lambda>e. do {
         updateStatus U E UpdateStatusFailed (''failed to fetch release: '' @ cap_err_text e);
         fail (CapWrapf ''failed to fetch release'' e) })
       (use_release U E) }"

text \<open>One round of \<open>periodicSHACheck\<close>, and one of the loop of \<open>WatchConfigVersion\<close>.\<close>

definition sha_tick :: "updater \<Rightarrow> cap_env \<Rightarrow> (upd_world, unit) state" where
  "sha_tick U E = do {
     w \<leftarrow> State_Monad.get;
     let desired = us_DesiredVersion (uw_state w);
     let current = us_ReleaseSHA (uw_state w);
     if desired = [] then State_Monad.return ()
     else do {
       r \<leftarrow> FetchRelease (ud_checker U) E desired;
       case r of
         Inl _ \<Rightarrow> State_Monad.return ()
       | Inr release \<Rightarrow>
           if ri_SHA256 release \<noteq> [] \<and> ri_SHA256 release \<noteq> current
           then do { _ \<leftarrow> CheckAndDownload U E desired; State_Monad.return () }
           else State_Monad.return () } }"

definition config_version :: "updater \<Rightarrow> cap_env \<Rightarrow> string \<Rightarrow> (upd_world, unit) state" where
  "config_version U E desired =
     (if desired = [] then State_Monad.return ()
      else do {
        w \<leftarrow> State_Monad.get;
        if desired \<noteq> us_DesiredVersion (uw_state w)
        then do { _ \<leftarrow> CheckAndDownload U E desired; State_Monad.return () }
        else State_Monad.return () })"

text \<open>The installer works on a copy of the state, which is dropped.\<close>

definition ApplyUpdate :: "updater \<Rightarrow> cap_env \<Rightarrow> unit upd_action" where
  "ApplyUpdate U E = do {
     w \<leftarrow> State_Monad.get;
     let st = uw_state w;
     if us_Status st \<noteq> UpdateStatusPending then fail (CapErrorf ''no pending update'')
     else do {
       updateStatus U E UpdateStatusApplying [];
       (r, _) \<leftarrow> installer_ApplyUpdate U E st;
       case r of
         Inl e \<Rightarrow> do {
           updateStatus U E UpdateStatusFailed (''apply failed: '' @ cap_err_text e);
           fail (CapWrapf ''failed to apply update'' e) }
       | Inr _ \<Rightarrow> do {
           t \<leftarrow> Now E;
           modify_state (\<lambda>st. st\<lparr>us_Status := UpdateStatusIdle, us_CurrentVersion := us_DesiredVersion st, us_ReleaseSHA := us_PendingSHA st,
             us_PendingAgent := [], us_PendingUfctl := [], us_PendingSHA := [], us_ErrorMessage := [], us_UpdatedAt := je_time (uj U) t\<rparr>);
           save_current U E;
           _ \<leftarrow> upd_CleanStaging U E;
           done_with () } } }"

definition Rollback :: "updater \<Rightarrow> cap_env \<Rightarrow> unit upd_action" where
  "Rollback U E = do {
     w \<leftarrow> State_Monad.get;
     check (wrapf ''rollback failed'' (installer_Rollback U E (uw_state w))) (\<lambda>_. do {
       t \<leftarrow> Now E;
       modify_state (\<lambda>st. st\<lparr>us_Status := UpdateStatusIdle, us_BackupAgent := [], us_BackupUfctl := [], us_PendingAgent := [], us_PendingUfctl := [],
         us_UpdatedAt := je_time (uj U) t\<rparr>);
       save_current U E;
       done_with () }) }"

definition GetState :: "upd_world \<Rightarrow> UpdateState" where
  "GetState w = uw_state w"

subsection \<open>The state file\<close>

lemma p_members_indented:
  assumes "fs \<noteq> []" and "length (Join (CHR '','') (map indented_member fs)) < f"
  shows "p_members f (Join (CHR '','') (map indented_member fs) @ CHR 0x0A # CHR ''}'' # r) = Some (map (\<lambda>(k, v). (k, Jstr v)) fs, r)"
  using assms
proof (induction fs arbitrary: f)
  case (Cons kv fs)
  obtain k v where kv: "kv = (k, v)" by (cases kv)
  obtain g where f: "f = Suc g" using Cons.prems(2) by (cases f) auto
  have sp: "json_space (CHR 0x0A)" "json_space (CHR '' '')" "\<not> json_space (CHR 0x22)" "\<not> json_space (CHR '':'')" "\<not> json_space (CHR '','')" "\<not> json_space (CHR ''}'')"
    by (simp_all add: json_space_def)
  have "0 < g" using Cons.prems(2) f by (cases "fs = []") (auto simp: Join_Cons_neq indented_member_def)
  then obtain h where g: "g = Suc h" by (cases g) auto
  have val: "p_value g (CHR '' '' # json_string v @ t) = Some (Jstr v, t)" for t
    unfolding g by (simp add: json_string_def sp p_chars_string)
  show ?case
  proof (cases "fs = []")
    case True
    with f show ?thesis by (simp add: indented_member_def kv json_string_def sp p_chars_string val [unfolded json_string_def, simplified])
  next
    case False
    then have j: "Join (CHR '','') (map indented_member (kv # fs)) = indented_member kv @ CHR '','' # Join (CHR '','') (map indented_member fs)"
      by (simp add: Join_Cons_neq)
    have "p_members g (Join (CHR '','') (map indented_member fs) @ CHR 0x0A # CHR ''}'' # r) = Some (map (\<lambda>(k, v). (k, Jstr v)) fs, r)"
      using Cons.prems(2) False f j by (intro Cons.IH) auto
    with f show ?thesis unfolding j by (simp add: indented_member_def kv json_string_def sp p_chars_string val [unfolded json_string_def, simplified])
  qed
qed simp

lemma json_parse_indented:
  assumes "fs \<noteq> []"
  shows "json_parse (indented fs) = Some (Jobj (map (\<lambda>(k, v). (k, Jstr v)) fs))"
proof -
  let ?j = "Join (CHR '','') (map indented_member fs)"
  have m: "p_members (length (indented fs)) (?j @ CHR 0x0A # CHR ''}'' # []) = Some (map (\<lambda>(k, v). (k, Jstr v)) fs, [])"
    using assms by (intro p_members_indented) (simp_all add: indented_def)
  obtain t where t: "?j = CHR 0x0A # CHR '' '' # CHR '' '' # CHR 0x22 # t"
    using assms by (cases fs) (cases "tl fs = []"; auto simp: indented_member_def json_string_def Join_Cons_neq)+
  have "p_value (Suc (length (indented fs))) (indented fs) = Some (Jobj (map (\<lambda>(k, v). (k, Jstr v)) fs), [])"
    using m unfolding indented_def t by (simp add: json_space_def)
  then show ?thesis by (simp add: json_parse_def)
qed

text \<open>The states the manager writes: their times can be read back, and no known status is spelled out.\<close>

definition state_ok :: "json_env \<Rightarrow> UpdateState \<Rightarrow> bool" where
  "state_ok J st \<longleftrightarrow> je_time_ok J (us_LastCheck st) \<and> je_time_ok J (us_UpdatedAt st) \<and> status_of (status_text (us_Status st)) = us_Status st"

lemma state_roundtrip: "state_ok J st \<Longrightarrow> Option.bind (json_parse (indented (state_fields st))) (dec_state J) = Some st"
  by (cases st) (simp add: state_fields_def json_parse_indented field_def state_ok_def lower_char_def)

subsection \<open>What the store, the downloader and the installer leave as it was\<close>

text \<open>The state in memory and the release cache.\<close>

definition quiet :: "upd_world \<Rightarrow> upd_world \<Rightarrow> bool" where
  "quiet w w' \<longleftrightarrow> uw_state w' = uw_state w \<and> uw_cache w' = uw_cache w"

interpretation quiet: frame quiet
  by unfold_locales (simp_all add: quiet_def)

lemma quiet_basic: "preserves quiet (interact E)" "preserves quiet (set_file p c)" "preserves quiet (delete_file p)" "preserves quiet (Now E)"
  by (auto simp: preserves_def quiet_def interact_run set_file_def delete_file_def Now_def set_run)

lemmas quiet_calls = quiet.calls [OF quiet_basic(1)] quiet.writes [OF quiet_basic(1,2,3)]

lemma quiet_files: "preserves quiet (Rename E p q)" "preserves quiet (WriteFile E p c)" "preserves quiet (Stat E p)" "preserves quiet (ReadFile_opt E p)"
  unfolding Rename_def WriteFile_def Stat_def ReadFile_opt_def by (intro quiet.rules quiet_calls quiet_basic quiet.unit)+

lemma quiet_RemoveAll: "preserves quiet (RemoveAll E d)"
  unfolding RemoveAll_def by (intro quiet.rules quiet_calls) (simp add: preserves_def quiet_def)

lemma quiet_http: "preserves quiet (http_do E url)"
proof -
  have "preserves quiet (os_call E :: (upd_world, _) state)" by (rule quiet_calls)
  then show ?thesis by (simp add: preserves_def http_do_def get_run set_run quiet_def)
qed

lemma quiet_or_remove: "preserves quiet m \<Longrightarrow> (\<And>x. preserves quiet (f x)) \<Longrightarrow> preserves quiet (or_remove E p m f)"
  unfolding or_remove_def by (intro quiet.rules quiet_calls quiet.unit)

lemmas quiet_rules = quiet.rules quiet_or_remove quiet.unit quiet_calls quiet_files quiet_RemoveAll quiet_http quiet_basic(1-4)

lemma quiet_SaveState: "preserves quiet (SaveState U E st)"
  unfolding SaveState_def WriteAtomic_def by (intro quiet_rules)

lemma quiet_save_current: "preserves quiet (save_current U E)"
  unfolding save_current_def by (intro quiet_rules quiet_SaveState)

lemma quiet_LoadState: "preserves quiet (LoadState U E)"
  unfolding LoadState_def by (intro quiet_rules) (auto split: option.split)

lemma quiet_EnsureDirectories: "preserves quiet (EnsureDirectories U E)"
  unfolding EnsureDirectories_def by (intro quiet_rules)

lemma quiet_CleanStaging: "preserves quiet (upd_CleanStaging U E)"
  unfolding upd_CleanStaging_def by (intro quiet_rules)

lemma quiet_Download: "preserves quiet (upd_Download U E asset h)"
proof -
  have d: "preserves quiet (upd_downloadFile E u p)" for u p
    unfolding upd_downloadFile_def by (intro quiet_rules) (auto intro!: quiet_rules split: prod.split)
  have c: "preserves quiet (upd_calculateSHA256 sha E p)" for sha p
    unfolding upd_calculateSHA256_def by (intro quiet_rules)
  show ?thesis unfolding upd_Download_def Let_def by (intro quiet_rules d) (auto intro!: quiet_rules c)
qed

lemma quiet_copyFile: "preserves quiet (upd_copyFile E src dst)"
  unfolding upd_copyFile_def by (intro quiet_rules)

lemma quiet_replaceBinary: "preserves quiet (replaceBinary E src dst)"
  unfolding replaceBinary_def Let_def by (intro quiet_rules quiet_copyFile)

lemma quiet_rollbackBinary: "preserves quiet (rollbackBinary E b p)"
  unfolding rollbackBinary_def by (intro quiet_rules quiet_replaceBinary)

lemma quiet_first_existing: "preserves quiet (first_existing E ps)"
  by (induction ps) (auto intro!: quiet_rules split: sum.split)

lemma quiet_paths: "preserves quiet (getAgentBinaryPath U E)" "preserves quiet (getUfctlBinaryPath U E)"
  unfolding getAgentBinaryPath_def getUfctlBinaryPath_def
  by (auto intro!: quiet_rules quiet_first_existing split: sum.split option.split)

lemma quiet_backup_one: "preserves quiet path \<Longrightarrow> preserves quiet (backup_one E path b what pend old)"
  unfolding backup_one_def by (auto intro!: quiet_rules quiet_copyFile split: sum.split)

lemma quiet_backup: "preserves quiet (backupCurrentBinaries U E st)"
  unfolding backupCurrentBinaries_def Let_def by (auto intro!: quiet_rules quiet_backup_one quiet_paths split: sum.split)

lemma quiet_apply: "preserves quiet (applyAgentUpdate U E p b)" "preserves quiet (applyUfctlUpdate U E p)"
  unfolding applyAgentUpdate_def applyUfctlUpdate_def by (auto intro!: quiet_rules quiet_paths quiet_replaceBinary quiet_rollbackBinary)

lemma quiet_installer: "preserves quiet (installer_ApplyUpdate U E st)"
  unfolding installer_ApplyUpdate_def
  by (auto intro!: quiet_rules quiet_backup quiet_apply quiet_paths quiet_rollbackBinary split: prod.split)

lemma quiet_installer_Rollback: "preserves quiet (installer_Rollback U E st)"
  unfolding installer_Rollback_def rollback_one_def by (auto intro!: quiet_rules quiet_paths quiet_rollbackBinary)

subsection \<open>Backups are forgotten\<close>

definition no_backup :: "UpdateState \<Rightarrow> bool" where
  "no_backup st \<longleftrightarrow> us_BackupAgent st = [] \<and> us_BackupUfctl st = []"

definition forgets :: "upd_world \<Rightarrow> upd_world \<Rightarrow> bool" where
  "forgets w w' \<longleftrightarrow> (no_backup (uw_state w) \<longrightarrow> no_backup (uw_state w'))"

interpretation forgets: frame forgets
  by unfold_locales (auto simp: forgets_def)

lemma quiet_forgets: "preserves quiet m \<Longrightarrow> preserves forgets m"
  by (auto simp: preserves_def quiet_def forgets_def)

lemma keeps_forgets: "preserves keeps_update m \<Longrightarrow> preserves forgets m"
  by (auto simp: preserves_def keeps_update_def forgets_def)

lemma modify_forgets: "(\<And>st. no_backup st \<Longrightarrow> no_backup (f st)) \<Longrightarrow> preserves forgets (modify_state f)"
  by (simp add: preserves_def forgets_def modify_state_def)

lemmas forgets_rules = forgets.rules forgets.unit modify_forgets quiet_forgets [OF quiet_basic(4)] quiet_forgets [OF quiet_save_current]
  quiet_forgets [OF quiet_Download] quiet_forgets [OF quiet_CleanStaging] quiet_forgets [OF quiet_installer] quiet_forgets [OF quiet_installer_Rollback]
  keeps_forgets [OF FetchRelease_keeps]

lemma forgets_updateStatus: "preserves forgets (updateStatus U E st msg)"
  unfolding updateStatus_def by (intro forgets_rules) (simp add: no_backup_def)

lemma forgets_CheckAndDownload: "preserves forgets (CheckAndDownload U E v)"
  unfolding CheckAndDownload_def begin_check_def use_release_def mark_pending_def downloadBinaries_def
  by (intro forgets_rules forgets_updateStatus) (auto intro!: forgets_rules forgets_updateStatus simp: no_backup_def)

lemma forgets_ApplyUpdate: "preserves forgets (ApplyUpdate U E)"
  unfolding ApplyUpdate_def Let_def
  by (intro forgets_rules) (auto intro!: forgets_rules forgets_updateStatus simp: no_backup_def split: prod.split sum.split)

lemma forgets_Rollback: "preserves forgets (Rollback U E)"
  unfolding Rollback_def by (intro forgets_rules) (simp add: no_backup_def)

text \<open>What happens to a started manager, in any order.\<close>

datatype upd_op = OpCheckAndDownload string | OpSHATick | OpConfigVersion string | OpApplyUpdate | OpRollback

fun upd_step :: "updater \<Rightarrow> cap_env \<Rightarrow> upd_op \<Rightarrow> upd_world \<Rightarrow> upd_world" where
  "upd_step U E (OpCheckAndDownload v) w = snd (run_state (CheckAndDownload U E v) w)"
| "upd_step U E OpSHATick w = snd (run_state (sha_tick U E) w)"
| "upd_step U E (OpConfigVersion v) w = snd (run_state (config_version U E v) w)"
| "upd_step U E OpApplyUpdate w = snd (run_state (ApplyUpdate U E) w)"
| "upd_step U E OpRollback w = snd (run_state (Rollback U E) w)"

interpretation updater_ops: machine "upd_step U E" "\<lambda>w. no_backup (uw_state w)" for U E
proof
  fix w :: upd_world and c
  have "preserves forgets (sha_tick U E)" "preserves forgets (config_version U E v)" for v
    unfolding sha_tick_def config_version_def Let_def
    by (auto intro!: forgets_rules forgets_CheckAndDownload split: sum.split)
  moreover assume "no_backup (uw_state w)"
  ultimately show "no_backup (uw_state (upd_step U E c w))"
    using forgets_CheckAndDownload [of U E] forgets_ApplyUpdate [of U E] forgets_Rollback [of U E] by (cases c) (simp_all add: preserves_def forgets_def)
qed

lemma touch_more: "p \<in> P \<Longrightarrow> q \<in> P \<Longrightarrow> touches P (Rename E p q)" "p \<in> P \<Longrightarrow> touches P (WriteFile E p c)" "touches P (Stat E r)"
  unfolding Rename_def WriteFile_def Stat_def by (auto intro!: files.rules touch touches_files)

lemma touch_WriteAtomic: "{p, p @ ''.tmp''} \<subseteq> P \<Longrightarrow> touches P (WriteAtomic E p c m n)"
  unfolding WriteAtomic_def by (auto intro!: files.rules touch touch_more)

lemma touch_save_current: "{statePath U, statePath U @ ''.tmp''} \<subseteq> P \<Longrightarrow> touches P (save_current U E)"
  unfolding save_current_def SaveState_def by (auto intro!: files.rules touch_WriteAtomic)

lemma touch_state: "touches P (modify_state f)" "touches P (Now E)"
  by (auto simp: preserves_def same_files_def modify_state_def Now_def interact_run)

subsection \<open>Staged files\<close>

lemma or_remove_ok [outcome]:
  "run_state (or_remove E t m f) w = (Inr y, w') \<longleftrightarrow> (\<exists>x w1. run_state m w = (Inr x, w1) \<and> run_state (f x) w1 = (Inr y, w'))"
  by (auto simp: or_remove_def on_error_def fail_def split: prod.splits sum.splits)

lemma join_name_differs:
  assumes "d \<noteq> []" and "CHR ''/'' \<notin> set g" and "CHR ''/'' \<notin> set h" and "g \<notin> {[], ''.'', ''..''}" and "h \<noteq> []" and "g \<noteq> h"
  shows "path_Join [d, g] \<noteq> path_Join [d, h]"
proof -
  have "dropWhile (\<lambda>c. c = CHR ''/'') (rev h) = rev h" using assms(3,5) by (cases h rule: rev_cases) auto
  moreover have "takeWhile (\<lambda>c. c \<noteq> CHR ''/'') (rev h) = rev h" using assms(3) by (auto simp: takeWhile_eq_all_conv)
  ultimately have "Base h = h" using assms(5) unfolding Base_def Let_def by (metis rev_is_Nil_conv rev_rev_ident)
  moreover have "fold (clean_step r) (Split (CHR ''/'') g) S = g # S" for r S
    using assms(2,4) by (auto simp: Split_word clean_step_def)
  ultimately show ?thesis using join_differs [of d g g h] assms by auto
qed

text \<open>What follows the last slash of a path.\<close>

definition last_part :: "string \<Rightarrow> string" where
  "last_part p = rev (takeWhile (\<lambda>c. c \<noteq> CHR ''/'') (rev p))"

lemma last_part_append: "CHR ''/'' \<notin> set g \<Longrightarrow> q = [] \<or> last q = CHR ''/'' \<Longrightarrow> last_part (q @ g) = g"
proof -
  assume g: "CHR ''/'' \<notin> set g" and q: "q = [] \<or> last q = CHR ''/''"
  have "takeWhile (\<lambda>c. c \<noteq> CHR ''/'') (rev g @ rev q) = rev g @ takeWhile (\<lambda>c. c \<noteq> CHR ''/'') (rev q)"
    using g by (intro takeWhile_append2) auto
  moreover have "takeWhile (\<lambda>c. c \<noteq> CHR ''/'') (rev q) = []" using q by (cases q rule: rev_cases) auto
  ultimately show ?thesis by (simp add: last_part_def)
qed

lemma last_part_join:
  assumes "d \<noteq> []" and "CHR ''/'' \<notin> set g" and "g \<notin> {[], ''.'', ''..''}" and "CHR ''/'' \<notin> set t"
  shows "last_part (path_Join [d, g] @ t) = g @ t"
proof -
  let ?r = "HasPrefix d ''/''"
  let ?S = "rev (fold (clean_step ?r) (Split (CHR ''/'') d) [])"
  have j: "path_Join [d, g] = Clean (d @ CHR ''/'' # g)" using assms(1) by (cases g) (auto simp: path_Join_def Let_def assms(3))
  have r: "HasPrefix (d @ CHR ''/'' # g) ''/'' = ?r" using assms(1) by (cases d) (simp_all add: HasPrefix_def)
  have f: "fold (clean_step ?r) (Split (CHR ''/'') (d @ CHR ''/'' # g)) [] = g # rev ?S"
    using assms(2,3) by (simp add: Split_append Split_word clean_step_def)
  have join: "Join (CHR ''/'') (?S @ [g]) = (if ?S = [] then g else Join (CHR ''/'') ?S @ CHR ''/'' # g)"
  proof -
    have "Join c (xs @ [x]) = (if xs = [] then x else Join c xs @ c # x)" for c :: char and xs x
    proof (induction xs)
      case (Cons y ys)
      then show ?case by (cases ys) auto
    qed simp
    then show ?thesis .
  qed
  have g: "g \<noteq> []" using assms(3) by auto
  have "\<exists>q. path_Join [d, g] = q @ g \<and> (q = [] \<or> last q = CHR ''/'')"
    unfolding j Clean_def Let_def r f using join g
    by (auto intro: exI [of _ "[]"] exI [of _ "''/''"] exI [of _ "Join (CHR ''/'') ?S @ ''/''"] exI [of _ "CHR ''/'' # Join (CHR ''/'') ?S @ ''/''"] split: if_splits)
  then obtain q where "path_Join [d, g] = q @ g" "q = [] \<or> last q = CHR ''/''" by blast
  with last_part_append [of "g @ t" q] assms(2,4) show ?thesis by simp
qed

lemma touches_http: "touches P (http_do E url)"
proof -
  have "touches P (os_call E :: (upd_world, _) state)" by (rule touch)
  then show ?thesis by (simp add: preserves_def http_do_def get_run set_run same_files_def)
qed

lemma touches_or_remove: "t \<in> P \<Longrightarrow> touches P m \<Longrightarrow> (\<And>x. touches P (f x)) \<Longrightarrow> touches P (or_remove E t m f)"
  unfolding or_remove_def by (intro files.rules touch) simp_all

lemma touches_Download:
  "touches {path_Join [stagingPath U, ra_Name asset @ ''.tmp''], path_Join [stagingPath U, ra_Name asset]} (upd_Download U E asset h)"
  unfolding upd_Download_def upd_downloadFile_def upd_calculateSHA256_def Let_def
  by (auto intro!: files.rules touches_or_remove touch touch_more touches_http split: prod.split)

lemma upd_downloadFile_ok:
  assumes "run_state (upd_downloadFile E url p) w = (Inr (), w')"
  shows "\<exists>c. map_of (w_files w') p = Some c"
proof -
  obtain w1 c where "run_state (Copy E p c) w1 = (Inr (), w')"
    using assms unfolding upd_downloadFile_def by (auto simp: outcome Let_def case_prod_beta split: if_splits)
  from Copy_ok [OF this] show ?thesis by simp
qed

text \<open>A download that succeeds leaves a file with the expected digest at the path it returns.\<close>

lemma upd_Download_ok:
  assumes "run_state (upd_Download U E asset h) w = (Inr p, w')"
  shows "p = path_Join [stagingPath U, ra_Name asset] \<and> (\<exists>c. map_of (w_files w') p = Some c \<and> (h \<noteq> [] \<longrightarrow> ud_sha U c = h))"
proof -
  let ?t = "path_Join [stagingPath U, ra_Name asset @ ''.tmp'']" and ?f = "path_Join [stagingPath U, ra_Name asset]"
  let ?v = "if h = [] then done_with () else check (wrapf ''failed to calculate SHA256'' (upd_calculateSHA256 (ud_sha U) E ?t)) (\<lambda>actual.
      if actual \<noteq> h then fail (CapErrorf (''SHA256 mismatch: expected '' @ h @ '', got '' @ actual)) else done_with ())"
  obtain w1 w2 w3 ob w4 where 1: "run_state (upd_downloadFile E (ra_DownloadURL asset) ?t) w1 = (Inr (), w2)"
    and 2: "run_state ?v w2 = (Inr (), w3)" and 3: "run_state (os_call E) w3 = (Inr ob, w4)"
    and 4: "run_state (Rename E ?t ?f) w4 = (Inr (), w')" and p: "p = ?f"
    using assms unfolding upd_Download_def Let_def by (auto simp: outcome)
  obtain c where c: "map_of (w_files w2) ?t = Some c" using upd_downloadFile_ok [OF 1] by blast
  have "w_files w3 = w_files w2 \<and> (h \<noteq> [] \<longrightarrow> ud_sha U c = h)"
  proof (cases "h = []")
    case False
    with 2 obtain c' where "run_state (ReadFile E ?t) w2 = (Inr c', w3)" "ud_sha U c' = h"
      unfolding upd_calculateSHA256_def by (auto simp: outcome split: if_splits)
    with ReadFile_ok [OF this(1)] c show ?thesis by simp
  qed (use 2 in \<open>simp add: outcome\<close>)
  with os_call_ok(1) [OF 3] Rename_ok [OF 4] c p show ?thesis by auto
qed

subsection \<open>Fetched releases\<close>

text \<open>The cache holds releases as GitHub described them.\<close>

definition genuine :: "string \<times> string \<Rightarrow> ReleaseInfo \<Rightarrow> bool" where
  "genuine host r \<longleftrightarrow> (\<exists>gh sums. r = release_of host gh sums)"

definition cache_ok :: "checker \<Rightarrow> upd_world \<Rightarrow> bool" where
  "cache_ok C w \<longleftrightarrow> (\<forall>v r x. map_of (uw_cache w) v = Some (r, x) \<longrightarrow> genuine (ck_host C) r)"

lemma cache_okD: "cache_ok C w \<Longrightarrow> map_of (uw_cache w) v = Some (r, x) \<Longrightarrow> genuine (ck_host C) r"
  unfolding cache_ok_def by blast

lemma quiet_fetches: "preserves quiet (parseGitHubRelease host E gh)" "preserves quiet (github_get C E url what dec)"
  unfolding parseGitHubRelease_def downloadChecksums_def github_get_def
  by (auto intro!: quiet_rules split: option.split prod.split)

definition fetch_release :: "checker \<Rightarrow> cap_env \<Rightarrow> string \<Rightarrow> ReleaseInfo upd_action" where
  "fetch_release C E v = (if v = [] \<or> v = ''auto-update'' then FetchLatestStable C E
     else if v = ''dev'' then FetchLatestPrerelease C E else fetchSpecificRelease C E v)"

lemma quiet_fetch_release: "preserves quiet (fetch_release C E v)"
  unfolding fetch_release_def FetchLatestStable_def FetchLatestPrerelease_def fetchSpecificRelease_def
  by (auto intro!: quiet_rules quiet_fetches split: option.split)

lemma fetch_release_genuine: "run_state (fetch_release C E v) w = (Inr r, w') \<Longrightarrow> genuine (ck_host C) r"
  unfolding fetch_release_def FetchLatestStable_def FetchLatestPrerelease_def fetchSpecificRelease_def parseGitHubRelease_def
  by (auto simp: outcome genuine_def case_prod_beta split: if_splits option.splits) blast

lemma release_cache_get_run:
  assumes "run_state (release_cache_get E v) w = (c, w1)"
  shows "case c of Some r \<Rightarrow> (\<exists>x. map_of (uw_cache w) v = Some (r, x)) \<and> uw_cache w1 = uw_cache w
     | None \<Rightarrow> uw_cache w1 \<in> {uw_cache w, AList.delete v (uw_cache w)}"
  using assms by (auto simp: release_cache_get_def get_run Now_def interact_run set_run split: option.splits if_splits prod.splits)

lemma FetchRelease_ok:
  assumes "run_state (FetchRelease C E v) w = (Inr r, w')" and "cache_ok C w"
  shows "genuine (ck_host C) r \<and> (\<exists>x. map_of (uw_cache w') v = Some (r, x)) \<and> cache_ok C w' \<and> uw_state w' = uw_state w"
proof -
  obtain c w1 where g: "run_state (release_cache_get E v) w = (c, w1)" by fastforce
  have st: "uw_state w' = uw_state w" using preservesD [OF FetchRelease_keeps assms(1)] by (simp add: keeps_update_def)
  show ?thesis
  proof (cases c)
    case (Some r')
    then have "r' = r" "w' = w1" using assms(1) g unfolding FetchRelease_def by (auto simp: outcome)
    with release_cache_get_run [OF g] Some cache_okD [OF assms(2)] assms(2) st show ?thesis by (auto simp: cache_ok_def)
  next
    case None
    then obtain w2 where f: "run_state (fetch_release C E v) w1 = (Inr r, w2)" and w': "w' = snd (run_state (release_cache_set E v r) w2)"
      using assms(1) g unfolding FetchRelease_def fetch_release_def [symmetric] by (auto simp: outcome case_prod_beta)
    have "uw_cache w2 = uw_cache w1" using preservesD [OF quiet_fetch_release f] by (simp add: quiet_def)
    moreover have "uw_cache w1 \<in> {uw_cache w, AList.delete v (uw_cache w)}" using release_cache_get_run [OF g] None by simp
    moreover have "map_of (uw_cache w') = (map_of (uw_cache w2))(v \<mapsto> (r, co_now (E (w_clock w2)) + cache_ttl))"
      by (simp add: w' release_cache_set_def Now_def interact_run get_run set_run)
    ultimately show ?thesis using fetch_release_genuine [OF f] cache_okD [OF assms(2)] st
      by (auto simp: cache_ok_def split: if_splits)
  qed
qed

subsection \<open>Steps of the manager\<close>

lemma state_of_quiet: "preserves quiet m \<Longrightarrow> uw_state (snd (run_state m w)) = uw_state w \<and> uw_cache (snd (run_state m w)) = uw_cache w"
  by (simp add: preserves_def quiet_def)

lemma modify_state_run: "run_state (modify_state f) w = ((), w\<lparr>uw_state := f (uw_state w)\<rparr>)"
  by (simp add: modify_state_def)

lemma updateStatus_effect:
  "\<exists>t. uw_state (snd (run_state (updateStatus U E st msg) w)) = (uw_state w)\<lparr>us_Status := st, us_ErrorMessage := msg, us_UpdatedAt := t\<rparr>
     \<and> uw_cache (snd (run_state (updateStatus U E st msg) w)) = uw_cache w"
  using state_of_quiet [OF quiet_save_current [of U E]]
  by (auto simp: updateStatus_def Now_def interact_run modify_state_run)

lemma touch_updateStatus: "{statePath U, statePath U @ ''.tmp''} \<subseteq> P \<Longrightarrow> touches P (updateStatus U E st msg)"
  unfolding updateStatus_def by (intro files.rules touch_state touch_save_current)

text \<open>Both binaries are in place, checked, when \<open>downloadBinaries\<close> succeeds.\<close>

definition host_ok :: "string \<times> string \<Rightarrow> bool" where
  "host_ok host \<longleftrightarrow> CHR ''/'' \<notin> set (fst host) \<and> CHR ''/'' \<notin> set (snd host)"

definition staged :: "updater \<Rightarrow> ReleaseInfo \<Rightarrow> string \<Rightarrow> string \<Rightarrow> upd_world \<Rightarrow> bool" where
  "staged U r binary p w \<longleftrightarrow> (\<exists>a c. GetAssetForPlatform (ck_host (ud_checker U)) r binary = Inr a \<and> p = path_Join [stagingPath U, ra_Name a]
     \<and> map_of (w_files w) p = Some c \<and> (ra_SHA256 a \<noteq> [] \<longrightarrow> ud_sha U c = ra_SHA256 a))"

lemma staging_nonempty: "stagingPath U \<noteq> []"
  by (simp add: stagingPath_def path_Join_def Clean_def Let_def)

lemma genuine_assets:
  assumes "genuine host r" and "GetAssetForPlatform host r b = Inr a"
  shows "ra_Name a = b @ CHR ''-'' # fst host @ CHR ''-'' # snd host"
proof -
  obtain gh sums where r: "r = release_of host gh sums" using assms(1) by (auto simp: genuine_def)
  have "list_all (asset_ok sums) (ri_Assets r)" using release_of_ok by (auto simp: list_all_iff r)
  from selected_name [OF assms(2) this] show ?thesis by blast
qed

lemma asset_name_differs:
  assumes "host_ok host"
  shows "path_Join [stagingPath U, ''underleaf_agent'' @ CHR ''-'' # fst host @ CHR ''-'' # snd host]
     \<notin> {path_Join [stagingPath U, (''ufctl'' @ CHR ''-'' # fst host @ CHR ''-'' # snd host) @ ''.tmp''],
        path_Join [stagingPath U, ''ufctl'' @ CHR ''-'' # fst host @ CHR ''-'' # snd host]}"
proof -
  have *: "CHR ''/'' \<notin> set (b @ CHR ''-'' # fst host @ CHR ''-'' # snd host @ t)" if "CHR ''/'' \<notin> set b" "CHR ''/'' \<notin> set t" for b t
    using assms that by (auto simp: host_ok_def)
  have "path_Join [stagingPath U, ''underleaf_agent'' @ CHR ''-'' # fst host @ CHR ''-'' # snd host @ []]
     \<noteq> path_Join [stagingPath U, ''ufctl'' @ CHR ''-'' # fst host @ CHR ''-'' # snd host @ t]" if "CHR ''/'' \<notin> set t" for t
    by (intro join_name_differs staging_nonempty * that) simp_all
  from this [of "[]"] this [of "''.tmp''"] show ?thesis by simp
qed

lemma downloadBinaries_ok:
  assumes "run_state (downloadBinaries U E r) w = (Inr (), w')" and g: "genuine (ck_host (ud_checker U)) r" and "host_ok (ck_host (ud_checker U))"
  shows "staged U r ''underleaf_agent'' (us_PendingAgent (uw_state w')) w' \<and> staged U r ''ufctl'' (us_PendingUfctl (uw_state w')) w'
     \<and> uw_cache w' = uw_cache w"
proof -
  let ?h = "ck_host (ud_checker U)" and ?w1 = "snd (run_state (updateStatus U E UpdateStatusDownloading []) w)"
  obtain a b p q w2 w3 where a: "GetAssetForPlatform ?h r ''underleaf_agent'' = Inr a" "GetAssetForPlatform ?h r ''ufctl'' = Inr b"
    and 1: "run_state (upd_Download U E a (ra_SHA256 a)) ?w1 = (Inr p, w2)"
    and 2: "run_state (upd_Download U E b (ra_SHA256 b)) (w2\<lparr>uw_state := uw_state w2\<lparr>us_PendingAgent := p\<rparr>\<rparr>) = (Inr q, w3)"
    and w': "w' = w3\<lparr>uw_state := uw_state w3\<lparr>us_PendingUfctl := q\<rparr>\<rparr>"
    using assms(1) unfolding downloadBinaries_def by (auto simp: outcome modify_state_run case_prod_beta)
  note d = upd_Download_ok [OF 1] upd_Download_ok [OF 2]
  obtain c where c: "map_of (w_files w2) p = Some c" "ra_SHA256 a \<noteq> [] \<longrightarrow> ud_sha U c = ra_SHA256 a" using d(1) by blast
  have "p \<notin> {path_Join [stagingPath U, ra_Name b @ ''.tmp''], path_Join [stagingPath U, ra_Name b]}"
    using asset_name_differs [OF assms(3), of U] unfolding conjunct1 [OF d(1)] genuine_assets [OF g a(1)] genuine_assets [OF g a(2)] .
  from touchesD [OF touches_Download this, of E "ra_SHA256 b" "w2\<lparr>uw_state := uw_state w2\<lparr>us_PendingAgent := p\<rparr>\<rparr>"] 2 c(1)
  have "map_of (w_files w3) p = Some c" by simp
  moreover have "uw_cache w' = uw_cache w" "us_PendingAgent (uw_state w') = p" "us_PendingUfctl (uw_state w') = q"
    using preservesD [OF quiet_Download 1] preservesD [OF quiet_Download 2] updateStatus_effect [of U E UpdateStatusDownloading "[]" w]
    by (auto simp: quiet_def w')
  ultimately show ?thesis using a c(2) d unfolding staged_def by (auto simp: w')
qed

lemma on_error_then_fail:
  assumes "run_state (on_error m (\<lambda>e. State_Monad.bind (h e) (\<lambda>_. fail (g e))) f) w = (Inr y, w')"
  obtains x w1 where "run_state m w = (Inr x, w1)" and "run_state (f x) w1 = (Inr y, w')"
proof (cases "run_state m w")
  case (Pair r w1)
  with assms that show thesis by (cases r) (auto simp: on_error_def fail_def case_prod_beta)
qed

lemma begin_check_effect:
  "\<exists>t u. uw_state (snd (run_state (begin_check U E v) w))
       = (uw_state w)\<lparr>us_Status := UpdateStatusChecking, us_DesiredVersion := v, us_LastCheck := t, us_UpdatedAt := u\<rparr>
     \<and> uw_cache (snd (run_state (begin_check U E v) w)) = uw_cache w"
  using state_of_quiet [OF quiet_save_current [of U E]]
  by (auto simp: begin_check_def Now_def interact_run modify_state_run)

lemma mark_pending_effect:
  "\<exists>t. uw_state (snd (run_state (mark_pending U E r) w))
       = (uw_state w)\<lparr>us_Status := UpdateStatusPending, us_PendingSHA := ri_SHA256 r, us_ErrorMessage := [], us_UpdatedAt := t\<rparr>
     \<and> uw_cache (snd (run_state (mark_pending U E r) w)) = uw_cache w"
  using state_of_quiet [OF quiet_save_current [of U E]]
  by (auto simp: mark_pending_def Now_def interact_run modify_state_run)

lemma touch_mark_pending: "{statePath U, statePath U @ ''.tmp''} \<subseteq> P \<Longrightarrow> touches P (mark_pending U E r)"
  unfolding mark_pending_def by (intro files.rules touch_state touch_save_current)

lemma CheckAndDownload_fetched:
  assumes "run_state (CheckAndDownload U E v) w = (Inr (), w')"
  obtains w1 r w2 where "run_state (FetchRelease (ud_checker U) E v) w1 = (Inr r, w2)" and "uw_cache w1 = uw_cache w"
    and "us_ReleaseSHA (uw_state w2) = us_ReleaseSHA (uw_state w)" and "run_state (use_release U E r) w2 = (Inr (), w')"
proof -
  let ?w1 = "snd (run_state (begin_check U E v) w)"
  obtain r w2 where f: "run_state (FetchRelease (ud_checker U) E v) ?w1 = (Inr r, w2)" and u: "run_state (use_release U E r) w2 = (Inr (), w')"
    using assms unfolding CheckAndDownload_def by (auto simp: case_prod_beta elim: on_error_then_fail)
  have "us_ReleaseSHA (uw_state w2) = us_ReleaseSHA (uw_state w)" "uw_cache ?w1 = uw_cache w"
    using begin_check_effect [of U E v w] preservesD [OF FetchRelease_keeps f] by (auto simp: keeps_update_def)
  with f u show thesis by (intro that)
qed

lemma use_release_pending:
  assumes "run_state (use_release U E r) w = (Inr (), w')" and "\<not> (ri_SHA256 r = us_ReleaseSHA (uw_state w) \<and> ud_version U = ri_Version r)"
  obtains w1 where "run_state (downloadBinaries U E r) w = (Inr (), w1)" and "w' = snd (run_state (mark_pending U E r) w1)"
  using assms unfolding use_release_def by (auto simp: get_run outcome case_prod_beta elim!: on_error_then_fail)

lemma use_release_idle:
  assumes "run_state (use_release U E r) w = (Inr (), w')" and "ri_SHA256 r = us_ReleaseSHA (uw_state w) \<and> ud_version U = ri_Version r"
  shows "us_Status (uw_state w') = UpdateStatusIdle"
  using assms updateStatus_effect [of U E UpdateStatusIdle "[]" w] unfolding use_release_def by (auto simp: get_run outcome case_prod_beta)

text \<open>A staged binary is none of the files of the state.\<close>

lemma staged_elsewhere:
  assumes "staged U r b p w" and "genuine (ck_host (ud_checker U)) r" and "host_ok (ck_host (ud_checker U))" and "ud_base U \<noteq> []"
    and "b \<in> {''underleaf_agent'', ''ufctl''}"
  shows "p \<notin> {statePath U, statePath U @ ''.tmp''}"
proof -
  let ?h = "ck_host (ud_checker U)" and ?name = "\<lambda>b h. b @ CHR ''-'' # fst h @ CHR ''-'' # snd h"
  obtain a where a: "GetAssetForPlatform ?h r b = Inr a" "p = path_Join [stagingPath U, ra_Name a]" using assms(1) by (auto simp: staged_def)
  have "CHR ''/'' \<notin> set (?name b ?h)" "?name b ?h \<notin> {[], ''.'', ''..''}" using assms(3,5) by (auto simp: host_ok_def)
  from last_part_join [OF staging_nonempty this, of "[]"] have "last_part p = ?name b ?h"
    unfolding a(2) genuine_assets [OF assms(2) a(1)] by simp
  moreover have "last_part (statePath U @ []) = ''update-state.json''" "last_part (statePath U @ ''.tmp'') = ''update-state.json.tmp''"
    unfolding statePath_def by (subst last_part_join; simp add: assms(4))+
  ultimately show ?thesis using assms(5) by auto
qed

text \<open>What the operations do to the state.\<close>

lemma ApplyUpdate_effect:
  assumes "run_state (ApplyUpdate U E) w = (r, w')" and "us_Status (uw_state w) = UpdateStatusPending"
  shows "\<exists>t m. uw_state w' = (case r of
       Inl e \<Rightarrow> (uw_state w)\<lparr>us_Status := UpdateStatusFailed, us_ErrorMessage := m, us_UpdatedAt := t\<rparr>
     | Inr _ \<Rightarrow> (uw_state w)\<lparr>us_Status := UpdateStatusIdle, us_CurrentVersion := us_DesiredVersion (uw_state w), us_ReleaseSHA := us_PendingSHA (uw_state w),
         us_PendingAgent := [], us_PendingUfctl := [], us_PendingSHA := [], us_ErrorMessage := [], us_UpdatedAt := t\<rparr>)"
proof -
  let ?w1 = "snd (run_state (updateStatus U E UpdateStatusApplying []) w)"
  obtain q st' w2 where i: "run_state (installer_ApplyUpdate U E (uw_state w)) ?w1 = ((q, st'), w2)" by (metis surj_pair)
  obtain t where w2: "uw_state w2 = (uw_state w)\<lparr>us_Status := UpdateStatusApplying, us_ErrorMessage := [], us_UpdatedAt := t\<rparr>"
    using preservesD [OF quiet_installer i] updateStatus_effect [of U E UpdateStatusApplying "[]" w] by (auto simp: quiet_def)
  note q = state_of_quiet [OF quiet_save_current [of U E]] state_of_quiet [OF quiet_CleanStaging [of U E]]
  show ?thesis
  proof (cases q)
    case (Inl e)
    with assms i have "r = Inl (CapWrapf ''failed to apply update'' e)" "w' = snd (run_state (updateStatus U E UpdateStatusFailed (''apply failed: '' @ cap_err_text e)) w2)"
      unfolding ApplyUpdate_def by (auto simp: get_run case_prod_beta fail_def)
    then show ?thesis using updateStatus_effect [of U E UpdateStatusFailed "''apply failed: '' @ cap_err_text e" w2] w2 by auto
  next
    case (Inr x)
    with assms i q w2 show ?thesis unfolding ApplyUpdate_def
      by (auto simp: get_run case_prod_beta done_with_def modify_state_run Now_def interact_run)
  qed
qed

lemma LoadState_ok:
  assumes "run_state (LoadState U E) w = (Inr st', w')" and "map_of (w_files w) (statePath U) = Some text"
  shows "Option.bind (json_parse text) (dec_state (uj U)) = Some st'"
proof -
  obtain ob w1 where 1: "run_state (os_call E) w = (Inr ob, w1)"
    using assms(1) unfolding LoadState_def ReadFile_opt_def by (auto simp: outcome)
  then have "map_of (w_files w1) (statePath U) = Some text" using os_call_ok(1) [OF 1] assms(2) by simp
  with 1 assms(1) show ?thesis unfolding LoadState_def ReadFile_opt_def
    by (cases "Option.bind (json_parse text) (dec_state (uj U))") (simp_all add: check_run wrapf_run get_run done_with_def fail_def)
qed

subsection \<open>Replacing a binary\<close>

lemma os_call_files: "w_files (snd (run_state (os_call E) w)) = w_files w"
  by (auto simp: os_call_def interact_run fail_def done_with_def split: option.split)

lemma Rename_err: "run_state (Rename E p q) w = (Inl e, w') \<Longrightarrow> w_files w' = w_files w"
  by (auto simp: Rename_def ReadFile_def os_call_def check_run interact_run get_run fail_def done_with_def set_file_def delete_file_def split: option.splits)

text \<open>A file written that way has the new content or the one it had.\<close>

lemma WriteAtomic_file:
  assumes "run_state (WriteAtomic E p c m n) w = (r, w')"
  shows "map_of (w_files w') p = (if is_ok r then Some c else map_of (w_files w) p)"
proof -
  let ?t = "p @ ''.tmp''"
  obtain q v where 1: "run_state (WriteFile E ?t c) w = (q, v)" by fastforce
  obtain q2 v2 where 2: "run_state (Rename E ?t p) v = (q2, v2)" by fastforce
  have v: "map_of (w_files v) p = map_of (w_files w) p" using touchesD [OF touch_more(2) [of ?t "{?t}" E c], of p w] 1 by simp
  have rm: "map_of (w_files (snd (run_state (Remove E ?t) v2))) p = map_of (w_files v2) p" using Remove_files [of E ?t v2] by auto
  note run = assms [unfolded WriteAtomic_def on_error_def]
  show ?thesis
  proof (cases "is_ok q \<and> is_ok q2")
    case True
    then have ok: "q = Inr ()" "q2 = Inr ()" by (cases q; cases q2; simp)+
    have "map_of (w_files v) ?t = Some c" using 1 ok(1) Copy_ok by (fastforce simp: WriteFile_def outcome)
    then have "map_of (w_files v2) p = Some c" using Rename_ok 2 ok(2) by fastforce
    moreover have "r = Inr ()" "w' = v2" using run 1 2 ok by (simp_all add: check_run wrapf_run done_with_def)
    ultimately show ?thesis by simp
  next
    case False
    moreover have "w_files v2 = w_files v" if "q2 = Inl e" for e using Rename_err 2 that by blast
    ultimately have "\<not> is_ok r \<and> map_of (w_files w') p = map_of (w_files v) p"
      using run 1 2 rm by (cases q; cases q2) (auto simp: check_run wrapf_run fail_def case_prod_beta)
    with v show ?thesis by simp
  qed
qed

lemma upd_copyFile_ok:
  assumes "run_state (upd_copyFile E src dst) w = (Inr (), w')" and "src \<noteq> dst"
  shows "\<exists>c. map_of (w_files w) src = Some c \<and> map_of (w_files w') dst = Some c"
proof -
  obtain c w1 w2 w3 w4 ob where 1: "run_state (ReadFile E src) w = (Inr c, w1)" and 2: "run_state (Create E dst) w1 = (Inr (), w2)"
    and 3: "run_state (Copy E dst (case map_of (w_files w2) src of None \<Rightarrow> [] | Some c \<Rightarrow> c)) w2 = (Inr (), w3)"
    and 4: "run_state (Stat E src) w3 = (Inr (), w4)" and 5: "run_state (os_call E) w4 = (Inr ob, w')"
    using assms(1) unfolding upd_copyFile_def by (auto simp: outcome get_run)
  have "w_files w4 = w_files w3" using 4 ReadFile_ok(2) by (fastforce simp: Stat_def outcome)
  with ReadFile_ok [OF 1] Create_ok [OF 2] Copy_ok [OF 3] os_call_ok(1) [OF 5] assms(2) show ?thesis by simp
qed

lemma touches_copyFile: "dst \<in> P \<Longrightarrow> touches P (upd_copyFile E src dst)"
  unfolding upd_copyFile_def by (auto intro!: files.rules touch touch_more)

lemma replaceBinary_cases:
  assumes "run_state (replaceBinary E src tgt) w = (r, w')"
  obtains (copied) w1 w2 where "r = Inr ()" "run_state (upd_copyFile E src (tgt @ ''.new'')) w = (Inr (), w1)" "w_files w2 = w_files w1"
      "run_state (Rename E (tgt @ ''.new'') tgt) w2 = (Inr (), w')"
  | (failed) "\<not> is_ok r" "\<And>p. p \<noteq> tgt @ ''.new'' \<Longrightarrow> map_of (w_files w') p = map_of (w_files w) p"
proof -
  let ?t = "tgt @ ''.new''" and ?c = "upd_copyFile E src (tgt @ ''.new'')"
  have c: "map_of (w_files (snd (run_state ?c w))) p = map_of (w_files w) p" if "p \<noteq> ?t" for p
    by (rule touchesD [OF touches_copyFile]) (use that in auto)
  have rm: "map_of (w_files (snd (run_state (Remove E ?t) v))) p = map_of (w_files v) p" if "p \<noteq> ?t" for p and v :: upd_world
    using Remove_files [of E ?t v] that by auto
  obtain q w1 where 1: "run_state ?c w = (q, w1)" by fastforce
  obtain q2 w2 where 2: "run_state (os_call E) w1 = (q2, w2)" by fastforce
  obtain q3 w3 where 3: "run_state (Rename E ?t tgt) w2 = (q3, w3)" by fastforce
  have w2: "w_files w2 = w_files w1" using os_call_files [of E w1] 2 by simp
  note run = assms [unfolded replaceBinary_def Let_def or_remove_def on_error_def]
  consider (all) x y z where "q = Inr x" "q2 = Inr y" "q3 = Inr z" | (rename) x y e where "q = Inr x" "q2 = Inr y" "q3 = Inl e"
    | (chmod) x e where "q = Inr x" "q2 = Inl e" | (copy) e where "q = Inl e"
    by (cases q; cases q2; cases q3) auto
  then show thesis
  proof cases
    case q: all
    then have "r = Inr ()" "w' = w3" using run 1 2 3 by (simp_all add: check_run wrapf_run done_with_def)
    then show thesis using copied [of w1 w2] 1 3 w2 q by simp
  next
    case q: rename
    then have "\<not> is_ok r" "w' = snd (run_state (Remove E ?t) w3)" using run 1 2 3 by (auto simp: check_run wrapf_run fail_def case_prod_beta)
    then show thesis using failed rm c 1 w2 Rename_err 3 q by (metis snd_conv)
  next
    case q: chmod
    then have "\<not> is_ok r" "w' = snd (run_state (Remove E ?t) w2)" using run 1 2 by (auto simp: check_run wrapf_run fail_def case_prod_beta)
    then show thesis using failed rm c 1 w2 by (metis snd_conv)
  next
    case copy
    then have "\<not> is_ok r" "w' = w1" using run 1 by (auto simp: check_run wrapf_run)
    then show thesis using failed c 1 by (metis snd_conv)
  qed
qed

text \<open>Using a release leaves the cache as it is.\<close>

interpretation cached: frame "\<lambda>w w'. uw_cache w' = uw_cache w"
  by unfold_locales simp_all

lemma quiet_cached: "preserves quiet m \<Longrightarrow> preserves (\<lambda>w w'. uw_cache w' = uw_cache w) m"
  by (simp add: preserves_def quiet_def)

lemma modify_cached: "preserves (\<lambda>w w'. uw_cache w' = uw_cache w) (modify_state f)"
  by (simp add: preserves_def modify_state_def)

lemma quiet_cache_use: "preserves (\<lambda>w w'. uw_cache w' = uw_cache w) (use_release U E r)"
  unfolding use_release_def downloadBinaries_def mark_pending_def updateStatus_def
  by (intro cached.rules)
    (auto intro!: cached.rules modify_cached quiet_cached [OF quiet_save_current] quiet_cached [OF quiet_Download] quiet_cached [OF quiet_basic(4)])

subsection \<open>Properties\<close>

text \<open>
  C31: after \<open>CheckAndDownload\<close> the update is pending only with both binaries of the release for this
  host staged, each with the digest the release gives for it (if it gives one), and the pending
  digest is that of the release, which the cache keeps.
\<close>

theorem pending_update_is_verified:
  assumes "run_state (CheckAndDownload U E v) w = (Inr (), w')" and "us_Status (uw_state w') = UpdateStatusPending"
    and "cache_ok (ud_checker U) w" and "host_ok (ck_host (ud_checker U))"
    and "ud_base U \<noteq> []"
  shows "\<exists>r x. map_of (uw_cache w') v = Some (r, x) \<and> us_PendingSHA (uw_state w') = ri_SHA256 r
     \<and> staged U r ''underleaf_agent'' (us_PendingAgent (uw_state w')) w' \<and> staged U r ''ufctl'' (us_PendingUfctl (uw_state w')) w'"
proof -
  obtain w1 r w2 where f: "run_state (FetchRelease (ud_checker U) E v) w1 = (Inr r, w2)" "uw_cache w1 = uw_cache w"
    and u: "us_ReleaseSHA (uw_state w2) = us_ReleaseSHA (uw_state w)" "run_state (use_release U E r) w2 = (Inr (), w')"
    using assms(1) by (rule CheckAndDownload_fetched)
  have "cache_ok (ud_checker U) w1" using assms(3) f(2) by (simp add: cache_ok_def)
  note r = FetchRelease_ok [OF f(1) this]
  have "\<not> (ri_SHA256 r = us_ReleaseSHA (uw_state w2) \<and> ud_version U = ri_Version r)" using use_release_idle [OF u(2)] assms(2) by auto
  with u(2) obtain w3 where d: "run_state (downloadBinaries U E r) w2 = (Inr (), w3)" and w': "w' = snd (run_state (mark_pending U E r) w3)"
    by (rule use_release_pending)
  note st = downloadBinaries_ok [OF d conjunct1 [OF r] assms(4)]
  have same: "us_PendingAgent (uw_state w') = us_PendingAgent (uw_state w3)" "us_PendingUfctl (uw_state w') = us_PendingUfctl (uw_state w3)"
      "us_PendingSHA (uw_state w') = ri_SHA256 r" "uw_cache w' = uw_cache w2"
    using mark_pending_effect [of U E r w3] st by (auto simp: w')
  have "map_of (w_files w') p = map_of (w_files w3) p" if "p \<notin> {statePath U, statePath U @ ''.tmp''}" for p
    unfolding w' by (rule touchesD [OF touch_mark_pending that]) simp
  moreover have "us_PendingAgent (uw_state w3) \<notin> {statePath U, statePath U @ ''.tmp''}" "us_PendingUfctl (uw_state w3) \<notin> {statePath U, statePath U @ ''.tmp''}"
    using staged_elsewhere [OF _ conjunct1 [OF r] assms(4,5)] st by blast+
  ultimately show ?thesis using st same r unfolding staged_def by metis
qed

text \<open>
  An update is applied only when one is pending, and otherwise nothing happens. When the
  installer succeeds, the digest and the version of the release become the current ones and nothing
  is pending any more; when it fails, they stay as they were and the failure is recorded.
\<close>

theorem apply_promotes_pending:
  assumes "run_state (ApplyUpdate U E) w = (r, w')"
  shows "if us_Status (uw_state w) \<noteq> UpdateStatusPending then \<not> is_ok r \<and> w' = w
     else if is_ok r then us_Status (uw_state w') = UpdateStatusIdle \<and> us_CurrentVersion (uw_state w') = us_DesiredVersion (uw_state w)
         \<and> us_ReleaseSHA (uw_state w') = us_PendingSHA (uw_state w) \<and> us_PendingSHA (uw_state w') = [] \<and> us_PendingAgent (uw_state w') = [] \<and> us_PendingUfctl (uw_state w') = []
     else us_Status (uw_state w') = UpdateStatusFailed \<and> us_CurrentVersion (uw_state w') = us_CurrentVersion (uw_state w)
         \<and> us_ReleaseSHA (uw_state w') = us_ReleaseSHA (uw_state w) \<and> us_PendingSHA (uw_state w') = us_PendingSHA (uw_state w)"
proof (cases "us_Status (uw_state w) = UpdateStatusPending")
  case True
  with ApplyUpdate_effect [OF assms True] show ?thesis by (cases r) auto
next
  case False
  with assms show ?thesis unfolding ApplyUpdate_def by (auto simp: get_run fail_def)
qed

text \<open>
  A rollback restores nothing. The manager hands the installer a copy of its state, so that the
  paths of the backups never reach the state: whatever the operations of a manager that started
  without them, \<open>Rollback\<close> reports success and changes no file but those of the state.
\<close>

theorem rollback_restores_nothing:
  assumes "no_backup (uw_state w)" and "w' = fold (upd_step U E) ops w"
  shows "fst (run_state (Rollback U E) w') = Inr ()
     \<and> (\<forall>p. p \<notin> {statePath U, statePath U @ ''.tmp''} \<longrightarrow> map_of (w_files (snd (run_state (Rollback U E) w'))) p = map_of (w_files w') p)"
proof -
  have "no_backup (uw_state w')" using updater_ops.run_inv [of w U E ops] assms by simp
  then have i: "run_state (installer_Rollback U E (uw_state w')) w' = (Inr (), w')"
    by (simp add: installer_Rollback_def rollback_one_def no_backup_def done_with_def)
  define m where "m = do {
       t \<leftarrow> Now E;
       modify_state (\<lambda>st. st\<lparr>us_Status := UpdateStatusIdle, us_BackupAgent := [], us_BackupUfctl := [], us_PendingAgent := [], us_PendingUfctl := [],
         us_UpdatedAt := je_time (uj U) t\<rparr>);
       save_current U E;
       done_with () }"
  have "run_state (Rollback U E) w' = run_state m w'"
    unfolding Rollback_def m_def using i by (simp add: get_run check_run wrapf_run)
  moreover have "fst (run_state m w') = Inr ()" by (simp add: m_def case_prod_beta done_with_def)
  moreover have "touches {statePath U, statePath U @ ''.tmp''} m"
    unfolding m_def by (intro files.rules touch_state touch_save_current) simp_all
  ultimately show ?thesis using touchesD [of _ m _ w'] by metis
qed

text \<open>
  C32: a binary is replaced as a whole or not at all, whatever call fails in between: after an error
  the target has the content it had, after a success that of the source, and no other file but the
  temporary one has changed.
\<close>

theorem replaceBinary_is_atomic:
  assumes "run_state (replaceBinary E src tgt) w = (r, w')" and "src \<noteq> tgt @ ''.new''"
  shows "map_of (w_files w') tgt = map_of (w_files w) (if is_ok r then src else tgt)
     \<and> (is_ok r \<longrightarrow> map_of (w_files w) src \<noteq> None)
     \<and> (\<forall>p. p \<notin> {tgt, tgt @ ''.new''} \<longrightarrow> map_of (w_files w') p = map_of (w_files w) p)"
  using assms(1)
proof (cases rule: replaceBinary_cases)
  case (copied w1 w2)
  obtain c where c: "map_of (w_files w) src = Some c" "map_of (w_files w1) (tgt @ ''.new'') = Some c" using upd_copyFile_ok [OF copied(2) assms(2)] by blast
  have "map_of (w_files w1) p = map_of (w_files w) p" if "p \<noteq> tgt @ ''.new''" for p
    using touchesD [OF touches_copyFile [of "tgt @ ''.new''" "{tgt @ ''.new''}" E src], of p w] copied(2) that by simp
  with c copied(1,3) Rename_ok [OF copied(4)] show ?thesis by auto
qed auto

text \<open>
  The state file survives failures and restarts. After a save that succeeded, loading it gives
  back the state, all twelve fields; after one that failed, the file has the content it had before.
\<close>

theorem saved_state_is_loaded:
  assumes "run_state (SaveState U E st) w = (r, w1)" and "map_of (w_files w2) (statePath U) = map_of (w_files w1) (statePath U)"
    and "state_ok (uj U) st" and "run_state (LoadState U E) w2 = (Inr st', w3)"
  shows "if is_ok r then st' = st else map_of (w_files w1) (statePath U) = map_of (w_files w) (statePath U)"
proof -
  let ?p = "statePath U" and ?text = "indented (state_fields st)"
  have "map_of (w_files w1) ?p = (if is_ok r then Some ?text else map_of (w_files w) ?p)"
    using WriteAtomic_file assms(1) unfolding SaveState_def by blast
  with LoadState_ok [OF assms(4), of ?text] assms(2) state_roundtrip [OF assms(3)] show ?thesis by (cases "is_ok r") simp_all
qed

text \<open>
  A release whose tag is not the running version is never found to be installed already, not
  even when its digest is the one installed: \<open>CheckAndDownload\<close> downloads it and leaves it pending.
  The version of a development build is \<open>dev-\<close> and a commit, its tag is \<open>dev\<close>.
\<close>

theorem other_tag_always_pending:
  assumes "run_state (CheckAndDownload U E v) w = (Inr (), w')" and "cache_ok (ud_checker U) w"
    and "map_of (uw_cache w') v = Some (r, x)" and "ri_Version r \<noteq> ud_version U"
  shows "us_Status (uw_state w') = UpdateStatusPending"
proof -
  obtain w1 s w2 where f: "run_state (FetchRelease (ud_checker U) E v) w1 = (Inr s, w2)" "uw_cache w1 = uw_cache w"
    and u: "us_ReleaseSHA (uw_state w2) = us_ReleaseSHA (uw_state w)" "run_state (use_release U E s) w2 = (Inr (), w')"
    using assms(1) by (rule CheckAndDownload_fetched)
  have "cache_ok (ud_checker U) w1" using assms(2) f(2) by (simp add: cache_ok_def)
  from FetchRelease_ok [OF f(1) this] obtain y where y: "map_of (uw_cache w2) v = Some (s, y)" by blast
  have "uw_cache w' = uw_cache w2" using preservesD [OF quiet_cache_use u(2)] .
  with y assms(3) have "s = r" by simp
  with assms(4) u(2) obtain w3 where "w' = snd (run_state (mark_pending U E s) w3)" by (metis use_release_pending)
  then show ?thesis using mark_pending_effect [of U E s w3] by auto
qed

text \<open>
  The commit is stripped from a build version, and nothing else is: the last of several parts
  separated by dashes goes if and only if it has at least seven characters, all hexadecimal.
\<close>

theorem normalized_version:
  assumes "CHR ''-'' \<notin> set s"
  shows "normalizeVersionForRelease (v @ CHR ''-'' # s) = (if 7 \<le> length s \<and> isHexString s then v else v @ CHR ''-'' # s)"
proof -
  have "Split (CHR ''-'') (v @ CHR ''-'' # s) = Split (CHR ''-'') v @ [s]" using assms by (simp add: Split_append Split_word)
  moreover have "1 \<le> length (Split (CHR ''-'') v)" using Split_not_Nil [of "CHR ''-''" v] by (cases "Split (CHR ''-'') v") auto
  ultimately show ?thesis by (auto simp: normalizeVersionForRelease_def Let_def)
qed

subsection \<open>Witnesses\<close>

definition upd_json :: json_env where
  "upd_json = \<lparr>je_float = Some, je_time = (\<lambda>t. zero_time), je_time_ok = (\<lambda>s. s = zero_time)\<rparr>"

definition demo_updater :: updater where
  "demo_updater = \<lparr>ud_base = ''/u'', ud_checker = \<lparr>ck_repository = ''o/r'', ck_host = (''linux'', ''amd64''), ck_json = upd_json\<rparr>,
     ud_version = ''dev-1234567'', ud_sha = demo_sha, ud_home = ''/h'', ud_drainer = False, ud_restarter = False\<rparr>"

definition demo_github :: githubRelease where
  "demo_github = \<lparr>gr_TagName = ''dev'', gr_Name = [], gr_Body = [], gr_Prerelease = True, gr_PublishedAt = zero_time,
     gr_Assets = [\<lparr>ga_Name = ''underleaf_agent-linux-amd64'', ga_BrowserDownloadURL = ''http://h/a'', ga_Size = 3\<rparr>,
       \<lparr>ga_Name = ''ufctl-linux-amd64'', ga_BrowserDownloadURL = ''http://h/u'', ga_Size = 3\<rparr>]\<rparr>"

definition demo_release :: ReleaseInfo where
  "demo_release = release_of (''linux'', ''amd64'') demo_github [(''underleaf_agent-linux-amd64'', ''ba78''), (''ufctl-linux-amd64'', ''ba78'')]"

definition demo_upd_env :: cap_env where
  "demo_upd_env n = demo_obs\<lparr>co_id := ''/b/underleaf_agent''\<rparr>"

definition demo_upd_world :: upd_world where
  "demo_upd_world = \<lparr>w_clock = 0, w_files = [(''/b/underleaf_agent'', ''old'')], w_sup = NewProcessSupervisor ''/log'', uw_cache = [(''dev'', (demo_release, 100))],
     uw_requests = [], uw_state = zero_state\<rparr>"

lemma demo_release_assets:
  "demo_release = \<lparr>ri_Version = ''dev'', ri_SHA256 = ''ba78'', ri_IsPrerelease = True, ri_PublishedAt = zero_time,
     ri_Assets = [\<lparr>ra_Name = ''underleaf_agent-linux-amd64'', ra_DownloadURL = ''http://h/a'', ra_Size = 3, ra_SHA256 = ''ba78'', ra_Platform = ''linux'', ra_Arch = ''amd64'', ra_Binary = ''underleaf_agent''\<rparr>,
       \<lparr>ra_Name = ''ufctl-linux-amd64'', ra_DownloadURL = ''http://h/u'', ra_Size = 3, ra_SHA256 = ''ba78'', ra_Platform = ''linux'', ra_Arch = ''amd64'', ra_Binary = ''ufctl''\<rparr>],
     ri_Body = []\<rparr>"
  by (simp add: demo_release_def release_of_def demo_github_def release_asset_def parseAssetName_parts asset_parts_def List.map_filter_def for_host_def Let_def)

lemma demo_upd_paths: "statePath demo_updater = ''/u/update-state.json''" "stagingPath demo_updater = ''/u/staging''" "backupPath demo_updater = ''/u/backup''"
    "path_Join [''/u/staging'', ''underleaf_agent-linux-amd64''] = ''/u/staging/underleaf_agent-linux-amd64''"
    "path_Join [''/u/staging'', ''underleaf_agent-linux-amd64.tmp''] = ''/u/staging/underleaf_agent-linux-amd64.tmp''"
    "path_Join [''/u/staging'', ''ufctl-linux-amd64''] = ''/u/staging/ufctl-linux-amd64''"
    "path_Join [''/u/staging'', ''ufctl-linux-amd64.tmp''] = ''/u/staging/ufctl-linux-amd64.tmp''"
    "path_Join [''/u/backup'', ''underleaf_agent.backup''] = ''/u/backup/underleaf_agent.backup''" "Base ''/b/underleaf_agent'' = ''underleaf_agent''"
  by (simp_all add: statePath_def stagingPath_def backupPath_def demo_updater_def path_Join_def Clean_def clean_step_def HasPrefix_def Base_def)

lemmas upd_runs = cap_runs on_error_def or_remove_def Now_def modify_state_run set_run http_do_def Stat_def WriteFile_def ReadFile_opt_def

lemma demo_env_run: "demo_upd_env n = \<lparr>co_err = None, co_short = 0, co_http = (200, ''abc''), co_id = ''/b/underleaf_agent'', co_now = 5, co_events = []\<rparr>"
  by (simp add: demo_upd_env_def demo_obs_def)

lemma demo_save:
  "run_state (save_current demo_updater demo_upd_env) w
     = ((), w\<lparr>w_clock := w_clock w + 3, w_files := AList.update ''/u/update-state.json'' (indented (state_fields (uw_state w))) (AList.delete ''/u/update-state.json.tmp''
          (AList.update ''/u/update-state.json.tmp'' (indented (state_fields (uw_state w))) (AList.update ''/u/update-state.json.tmp'' [] (w_files w))))\<rparr>)"
  by (simp add: save_current_def SaveState_def WriteAtomic_def demo_upd_paths upd_runs demo_env_run update_conv')

lemma demo_selected:
  "ri_Version demo_release = ''dev''" "ri_SHA256 demo_release = ''ba78''" "us_ReleaseSHA zero_state = []" "ud_version demo_updater = ''dev-1234567''"
  "GetAssetForPlatform (ck_host (ud_checker demo_updater)) demo_release ''underleaf_agent''
     = Inr \<lparr>ra_Name = ''underleaf_agent-linux-amd64'', ra_DownloadURL = ''http://h/a'', ra_Size = 3, ra_SHA256 = ''ba78'', ra_Platform = ''linux'', ra_Arch = ''amd64'', ra_Binary = ''underleaf_agent''\<rparr>"
  "GetAssetForPlatform (ck_host (ud_checker demo_updater)) demo_release ''ufctl''
     = Inr \<lparr>ra_Name = ''ufctl-linux-amd64'', ra_DownloadURL = ''http://h/u'', ra_Size = 3, ra_SHA256 = ''ba78'', ra_Platform = ''linux'', ra_Arch = ''amd64'', ra_Binary = ''ufctl''\<rparr>"
  by (simp_all add: demo_release_assets zero_state_def demo_updater_def GetAssetForPlatform_def for_host_def)

lemma demo_sha_run: "ud_sha demo_updater = demo_sha"
  by (simp add: demo_updater_def)

lemma demo_check: "\<exists>w'. run_state (CheckAndDownload demo_updater demo_upd_env ''dev'') demo_upd_world = (Inr (), w')
     \<and> map_of (uw_cache w') ''dev'' = Some (demo_release, 100) \<and> us_Status (uw_state w') = UpdateStatusPending"
  unfolding CheckAndDownload_def begin_check_def FetchRelease_def release_cache_get_def use_release_def downloadBinaries_def updateStatus_def mark_pending_def
    upd_Download_def upd_downloadFile_def upd_calculateSHA256_def
  by (simp add: upd_runs demo_env_run demo_save demo_upd_world_def demo_selected demo_upd_paths demo_sha_run demo_sha_def update_conv')

lemma demo_cache_ok: "cache_ok (ud_checker demo_updater) demo_upd_world"
  by (auto simp: cache_ok_def genuine_def demo_upd_world_def demo_updater_def demo_release_def)

theorem pending_update_is_verified_witness:
  "\<exists>w'. run_state (CheckAndDownload demo_updater demo_upd_env ''dev'') demo_upd_world = (Inr (), w')
     \<and> us_PendingSHA (uw_state w') = ''ba78'' \<and> staged demo_updater demo_release ''ufctl'' (us_PendingUfctl (uw_state w')) w'"
proof -
  obtain w' where w': "run_state (CheckAndDownload demo_updater demo_upd_env ''dev'') demo_upd_world = (Inr (), w')"
    "map_of (uw_cache w') ''dev'' = Some (demo_release, 100)" "us_Status (uw_state w') = UpdateStatusPending" using demo_check by blast
  have "host_ok (ck_host (ud_checker demo_updater))" "ud_base demo_updater \<noteq> []" by (simp_all add: host_ok_def demo_updater_def)
  from pending_update_is_verified [OF w'(1,3) demo_cache_ok this] w'(1,2) show ?thesis by (auto simp: demo_selected)
qed

theorem other_tag_always_pending_witness:
  "\<exists>w'. run_state (CheckAndDownload demo_updater demo_upd_env ''dev'') (demo_upd_world\<lparr>uw_state := zero_state\<lparr>us_ReleaseSHA := ''ba78''\<rparr>\<rparr>) = (Inr (), w')
     \<and> us_Status (uw_state w') = UpdateStatusPending"
proof -
  let ?w = "demo_upd_world\<lparr>uw_state := zero_state\<lparr>us_ReleaseSHA := ''ba78''\<rparr>\<rparr>"
  obtain w' where w': "run_state (CheckAndDownload demo_updater demo_upd_env ''dev'') ?w = (Inr (), w')" "map_of (uw_cache w') ''dev'' = Some (demo_release, 100)"
    unfolding CheckAndDownload_def begin_check_def FetchRelease_def release_cache_get_def use_release_def downloadBinaries_def updateStatus_def mark_pending_def
      upd_Download_def upd_downloadFile_def upd_calculateSHA256_def
    by (simp add: upd_runs demo_env_run demo_save demo_upd_world_def demo_selected demo_upd_paths demo_sha_run demo_sha_def update_conv')
  have "cache_ok (ud_checker demo_updater) ?w" using demo_cache_ok by (simp add: cache_ok_def)
  from other_tag_always_pending [OF w'(1) this w'(2)] w'(1) show ?thesis by (auto simp: demo_selected)
qed

definition demo_pending :: upd_world where
  "demo_pending = demo_upd_world\<lparr>w_files := [(''/b/underleaf_agent'', ''old''), (''/u/staging/a'', ''new'')],
     uw_state := zero_state\<lparr>us_Status := UpdateStatusPending, us_DesiredVersion := ''dev'', us_PendingAgent := ''/u/staging/a'', us_PendingSHA := ''ba78''\<rparr>\<rparr>"

lemma demo_apply:
  "\<exists>w'. run_state (ApplyUpdate demo_updater demo_upd_env) demo_pending = (Inr (), w') \<and> map_of (w_files w') ''/b/underleaf_agent'' = Some ''new''"
  unfolding ApplyUpdate_def updateStatus_def installer_ApplyUpdate_def backupCurrentBinaries_def backup_one_def applyAgentUpdate_def getAgentBinaryPath_def
    replaceBinary_def upd_copyFile_def upd_CleanStaging_def RemoveAll_def
  by (simp add: upd_runs demo_env_run demo_save demo_pending_def demo_upd_world_def demo_upd_paths update_conv' zero_state_def HasPrefix_def)

theorem apply_promotes_pending_witness:
  "\<exists>w'. run_state (ApplyUpdate demo_updater demo_upd_env) demo_pending = (Inr (), w') \<and> us_ReleaseSHA (uw_state w') = ''ba78''"
proof -
  obtain w' where w': "run_state (ApplyUpdate demo_updater demo_upd_env) demo_pending = (Inr (), w')" using demo_apply by blast
  from apply_promotes_pending [OF this] w' show ?thesis by (auto simp: demo_pending_def)
qed

text \<open>The new agent is still in place after the rollback that follows its installation.\<close>

theorem rollback_restores_nothing_witness:
  "map_of (w_files (snd (run_state (Rollback demo_updater demo_upd_env) (upd_step demo_updater demo_upd_env OpApplyUpdate demo_pending)))) ''/b/underleaf_agent''
     = Some ''new''"
proof -
  have "no_backup (uw_state demo_pending)" by (simp add: no_backup_def demo_pending_def zero_state_def)
  note r = rollback_restores_nothing [OF this refl, of demo_updater demo_upd_env "[OpApplyUpdate]", unfolded demo_upd_paths fold.simps comp_apply id_apply]
  obtain w' where "run_state (ApplyUpdate demo_updater demo_upd_env) demo_pending = (Inr (), w')" "map_of (w_files w') ''/b/underleaf_agent'' = Some ''new''"
    using demo_apply by blast
  then have "map_of (w_files (upd_step demo_updater demo_upd_env OpApplyUpdate demo_pending)) ''/b/underleaf_agent'' = Some ''new''" by simp
  with conjunct2 [OF r, THEN spec, of "''/b/underleaf_agent''"] show ?thesis by simp
qed

theorem replaceBinary_is_atomic_witness:
  "map_of (w_files (snd (run_state (replaceBinary demo_upd_env ''/u/staging/a'' ''/b/underleaf_agent'') demo_pending))) ''/b/underleaf_agent'' = Some ''new''"
proof -
  obtain w' where r: "run_state (replaceBinary demo_upd_env ''/u/staging/a'' ''/b/underleaf_agent'') demo_pending = (Inr (), w')"
    unfolding replaceBinary_def upd_copyFile_def by (simp add: upd_runs demo_env_run demo_pending_def demo_upd_world_def update_conv')
  from replaceBinary_is_atomic [OF r] have "map_of (w_files w') ''/b/underleaf_agent'' = Some ''new''" by (simp add: demo_pending_def)
  then show ?thesis by (simp add: r)
qed

theorem saved_state_is_loaded_witness:
  "\<exists>w1 w2. run_state (SaveState demo_updater demo_upd_env (uw_state demo_pending)) demo_pending = (Inr (), w1)
     \<and> run_state (LoadState demo_updater demo_upd_env) w1 = (Inr (uw_state demo_pending), w2)"
proof -
  let ?st = "uw_state demo_pending"
  obtain w1 where w1: "run_state (SaveState demo_updater demo_upd_env ?st) demo_pending = (Inr (), w1)"
      "map_of (w_files w1) (statePath demo_updater) = Some (indented (state_fields ?st))"
    unfolding SaveState_def WriteAtomic_def by (simp add: demo_upd_paths upd_runs demo_env_run update_conv')
  have ok: "state_ok (uj demo_updater) ?st"
    by (simp add: state_ok_def demo_pending_def zero_state_def demo_updater_def upd_json_def status_of_def)
  obtain st' w2 where w2: "run_state (LoadState demo_updater demo_upd_env) w1 = (Inr st', w2)"
    using w1(2) state_roundtrip [OF ok] unfolding LoadState_def by (simp add: upd_runs demo_env_run)
  from saved_state_is_loaded [OF w1(1) refl ok w2] w1(1) w2 show ?thesis by auto
qed

theorem normalized_version_witness: "normalizeVersionForRelease ''dev-637ed25'' = ''dev''"
  using normalized_version [of "''637ed25''" "''dev''"] by (simp add: isHexString_def less_char_def)

end
