(* ===== verification/Policy_Manager.thy ===== *)
theory Policy_Manager
  imports Upd_Manager
begin

text \<open>
  The policy snapshots of the agent, \<open>internal/policy_manager\<close>: \<open>types.go\<close>, \<open>store.go\<close>, \<open>manager.go\<close>
  and the client of \<open>server.go\<close>. The payload of a snapshot is a JSON tree, \<open>Jnull\<close> for the nil map,
  its maps with their keys in order. YAML (\<open>gopkg.in/yaml.v3\<close>) is a parameter, as are the SHA-256
  digest and the answers of the control plane.
\<close>

declare map_of_eq_Some_iff [simp del]

subsection \<open>types.go\<close>

record PolicySnapshot =
  ps_Version :: int
  ps_Payload :: json
  ps_Hash :: string
  ps_Timestamp :: int
  ps_ServerID :: string
  ps_ConfigVersion :: int

record LocalMetadata =
  lm_ServerID :: string
  lm_ServerName :: string
  lm_AuthToken :: string
  lm_APIBaseURL :: string
  lm_Endpoint :: string
  lm_Extra :: "(string, json) gomap"

definition empty_meta :: LocalMetadata where
  "empty_meta = \<lparr>lm_ServerID = [], lm_ServerName = [], lm_AuthToken = [], lm_APIBaseURL = [], lm_Endpoint = [], lm_Extra = []\<rparr>"

text \<open>
  The configuration of the manager: paths, server, digest, YAML and the build-time defaults. The
  YAML decoders give \<open>None\<close> for an error.
\<close>

record policy_cfg =
  pc_base :: string
  pc_isAgent :: bool
  pc_serverID :: string
  pc_controlPlane :: bool
  pc_sha :: "bytes \<Rightarrow> string"
  pc_json :: json_env
  pc_yaml :: "PolicySnapshot \<Rightarrow> bytes"
  pc_unyaml :: "bytes \<Rightarrow> PolicySnapshot option"
  pc_yaml_meta :: "LocalMetadata \<Rightarrow> bytes"
  pc_unyaml_meta :: "bytes \<Rightarrow> LocalMetadata option"
  pc_default_api :: string
  pc_default_spine :: string

definition ComputeHash :: "policy_cfg \<Rightarrow> PolicySnapshot \<Rightarrow> string" where
  "ComputeHash P s = pc_sha P (json_text (ps_Payload s))"

definition ErrInvalidHash :: cap_err where
  "ErrInvalidHash = CapErrorf ''snapshot hash validation failed''"

definition ErrMissingServerID :: cap_err where
  "ErrMissingServerID = CapErrorf ''server ID is required''"

definition ps_Validate :: "policy_cfg \<Rightarrow> PolicySnapshot \<Rightarrow> (cap_err, unit) result" where
  "ps_Validate P s =
     (if ps_Hash s \<noteq> ComputeHash P s then Inl ErrInvalidHash
      else if ps_ServerID s = [] then Inl ErrMissingServerID
      else Inr ())"

definition IsStale :: "int \<Rightarrow> int \<Rightarrow> PolicySnapshot \<Rightarrow> bool" where
  "IsStale now maxAge s \<longleftrightarrow> now - ps_Timestamp s > maxAge"

definition NewPolicySnapshot :: "policy_cfg \<Rightarrow> int \<Rightarrow> string \<Rightarrow> int \<Rightarrow> json \<Rightarrow> PolicySnapshot" where
  "NewPolicySnapshot P now serverID version payload =
     (let s = \<lparr>ps_Version = version, ps_Payload = payload, ps_Hash = [], ps_Timestamp = now, ps_ServerID = serverID, ps_ConfigVersion = 0\<rparr>
      in s\<lparr>ps_Hash := ComputeHash P s\<rparr>)"

subsection \<open>store.go\<close>

definition snapshotPath :: "policy_cfg \<Rightarrow> string" where
  "snapshotPath P = path_Join [pc_base P, ''snapshot.yaml'']"

definition localPath :: "policy_cfg \<Rightarrow> string" where
  "localPath P = path_Join [pc_base P, if pc_isAgent P then ''local.yaml'' else ''config.yaml'']"

text \<open>The world of the manager: its snapshot and metadata in memory, and the queues of the watchers.\<close>

record policy_world = world +
  pw_current :: "PolicySnapshot option"
  pw_meta :: "LocalMetadata option"
  pw_watch :: "PolicySnapshot list list"

type_synonym 'a policy_action = "(policy_world, (cap_err, 'a) result) state"

definition SaveSnapshot :: "policy_cfg \<Rightarrow> cap_env \<Rightarrow> PolicySnapshot \<Rightarrow> unit policy_action" where
  "SaveSnapshot P E s =
     check (wrapf ''invalid snapshot'' (State_Monad.return (ps_Validate P s))) (\<lambda>_.
     check (wrapf ''failed to create directory'' (os_call E)) (\<lambda>_.
       WriteAtomic E (snapshotPath P) (pc_yaml P s) ''failed to write temp file'' ''failed to rename temp file''))"

definition ps_LoadSnapshot :: "policy_cfg \<Rightarrow> cap_env \<Rightarrow> PolicySnapshot option policy_action" where
  "ps_LoadSnapshot P E =
     check (wrapf ''failed to read snapshot'' (ReadFile_opt E (snapshotPath P))) (\<lambda>data.
       case data of
         None \<Rightarrow> done_with None
       | Some text \<Rightarrow>
           (case pc_unyaml P text of
              None \<Rightarrow> fail (CapErrorf ''failed to unmarshal snapshot'')
            | Some s \<Rightarrow> check (wrapf ''snapshot validation failed'' (State_Monad.return (ps_Validate P s))) (\<lambda>_. done_with (Some s))))"

definition SaveLocalMeta :: "policy_cfg \<Rightarrow> cap_env \<Rightarrow> LocalMetadata \<Rightarrow> unit policy_action" where
  "SaveLocalMeta P E meta =
     check (wrapf ''failed to create directory'' (os_call E)) (\<lambda>_.
       wrapf ''failed to write local metadata'' (WriteFile E (localPath P) (pc_yaml_meta P meta)))"

text \<open>The JSON fallback; a YAML decoding that fails leaves nothing behind.\<close>

fun dec_endpoint :: "json \<Rightarrow> string option" where
  "dec_endpoint (Jobj fs) = dec_string (field fs ''endpoint'')"
| "dec_endpoint Jnull = Some []"
| "dec_endpoint _ = None"

fun dec_local_meta :: "json_env \<Rightarrow> json \<Rightarrow> LocalMetadata option" where
  "dec_local_meta J (Jobj fs) = do {
     i \<leftarrow> dec_string (field fs ''server_id'');
     n \<leftarrow> dec_string (field fs ''server_name'');
     t \<leftarrow> dec_string (field fs ''auth_token'');
     u \<leftarrow> dec_string (field fs ''api_base_url'');
     e \<leftarrow> dec_endpoint (field fs ''mycelium_spine'');
     x \<leftarrow> dec_data J (field fs ''extra'');
     Some \<lparr>lm_ServerID = i, lm_ServerName = n, lm_AuthToken = t, lm_APIBaseURL = u, lm_Endpoint = e, lm_Extra = (case x of Jobj m \<Rightarrow> m | _ \<Rightarrow> [])\<rparr>
   }"
| "dec_local_meta J Jnull = Some empty_meta"
| "dec_local_meta J _ = None"

definition LoadLocalMeta :: "policy_cfg \<Rightarrow> cap_env \<Rightarrow> LocalMetadata policy_action" where
  "LoadLocalMeta P E =
     check (wrapf ''failed to read local metadata'' (ReadFile_opt E (localPath P))) (\<lambda>data.
       case data of
         None \<Rightarrow> done_with empty_meta
       | Some text \<Rightarrow>
           (case pc_unyaml_meta P text of
              Some meta \<Rightarrow> done_with meta
            | None \<Rightarrow>
                (case Option.bind (json_parse text) (dec_local_meta (pc_json P)) of
                   None \<Rightarrow> fail (CapErrorf ''failed to unmarshal local metadata'')
                 | Some meta \<Rightarrow> done_with meta)))"

text \<open>Without a snapshot on disk an empty one takes its place.\<close>

definition LoadSnapshotWithMeta :: "policy_cfg \<Rightarrow> cap_env \<Rightarrow> (PolicySnapshot \<times> LocalMetadata) policy_action" where
  "LoadSnapshotWithMeta P E =
     check (ps_LoadSnapshot P E) (\<lambda>snapshot.
     check (LoadLocalMeta P E) (\<lambda>meta.
       done_with (case snapshot of
           Some s \<Rightarrow> s
         | None \<Rightarrow> \<lparr>ps_Version = 0, ps_Payload = Jobj [], ps_Hash = [], ps_Timestamp = 0, ps_ServerID = [], ps_ConfigVersion = 0\<rparr>, meta)))"

subsection \<open>manager.go\<close>

definition loadFromDisk :: "policy_cfg \<Rightarrow> cap_env \<Rightarrow> unit policy_action" where
  "loadFromDisk P E =
     check (ps_LoadSnapshot P E) (\<lambda>snapshot.
     check (LoadLocalMeta P E) (\<lambda>meta.
       let mine = (case snapshot of Some s \<Rightarrow> if ps_ServerID s \<noteq> pc_serverID P then None else Some s | None \<Rightarrow> None) in
       State (\<lambda>w. (Inr (), w\<lparr>pw_current := mine, pw_meta := Some meta\<rparr>))))"

text \<open>A channel has ten slots; a full one is skipped.\<close>

definition notify_one :: "PolicySnapshot \<Rightarrow> PolicySnapshot list \<Rightarrow> PolicySnapshot list" where
  "notify_one s q = (if length q < 10 then q @ [s] else q)"

definition notifyWatchers :: "PolicySnapshot \<Rightarrow> (policy_world, unit) state" where
  "notifyWatchers s = State (\<lambda>w. ((), w\<lparr>pw_watch := map (notify_one s) (pw_watch w)\<rparr>))"

text \<open>
  \<open>updateSnapshot\<close> in the parts between which other goroutines can run: the new snapshot, the check
  against the current version, and storing it.
\<close>

definition up_new :: "policy_cfg \<Rightarrow> cap_env \<Rightarrow> int \<Rightarrow> json \<Rightarrow> PolicySnapshot policy_action" where
  "up_new P E version payload = do {
     now \<leftarrow> Now E;
     let s = NewPolicySnapshot P now (pc_serverID P) version payload;
     check (wrapf ''snapshot validation failed'' (State_Monad.return (ps_Validate P s))) (\<lambda>_. done_with s) }"

definition newer :: "int \<Rightarrow> policy_world \<Rightarrow> bool" where
  "newer version w = (case pw_current w of Some c \<Rightarrow> \<not> ps_Version c \<ge> version | None \<Rightarrow> True)"

definition up_set :: "PolicySnapshot \<Rightarrow> (policy_world, unit) state" where
  "up_set s = State (\<lambda>w. ((), w\<lparr>pw_current := Some s\<rparr>))"

definition up_store :: "policy_cfg \<Rightarrow> cap_env \<Rightarrow> PolicySnapshot \<Rightarrow> unit policy_action" where
  "up_store P E s =
     check (wrapf ''failed to save snapshot'' (SaveSnapshot P E s)) (\<lambda>_. do {
       up_set s;
       notifyWatchers s;
       done_with () })"

definition updateSnapshot :: "policy_cfg \<Rightarrow> cap_env \<Rightarrow> int \<Rightarrow> json \<Rightarrow> unit policy_action" where
  "updateSnapshot P E version payload =
     check (up_new P E version payload) (\<lambda>s. do {
       w \<leftarrow> State_Monad.get;
       if newer version w then up_store P E s else done_with () })"

fun dec_push :: "json_env \<Rightarrow> json \<Rightarrow> (string \<times> int \<times> json) option" where
  "dec_push J (Jobj fs) = do {
     i \<leftarrow> dec_string (field fs ''server_id'');
     v \<leftarrow> dec_int64 (field fs ''version'');
     c \<leftarrow> dec_data J (field fs ''config'');
     Some (i, v, c)
   }"
| "dec_push J Jnull = Some ([], 0, Jnull)"
| "dec_push J _ = None"

text \<open>Errors are only logged.\<close>

definition HandlePushUpdate :: "policy_cfg \<Rightarrow> cap_env \<Rightarrow> bytes \<Rightarrow> (policy_world, unit) state" where
  "HandlePushUpdate P E payload =
     (case Option.bind (json_parse payload) (dec_push (pc_json P)) of
        None \<Rightarrow> State_Monad.return ()
      | Some (_, version, config) \<Rightarrow> do { _ \<leftarrow> updateSnapshot P E version config; State_Monad.return () })"

text \<open>What the control plane answers to the call made at a time.\<close>

type_synonym control_plane = "nat \<Rightarrow> (cap_err, json \<times> int) result"

definition policy_reconcile :: "policy_cfg \<Rightarrow> control_plane \<Rightarrow> cap_env \<Rightarrow> unit policy_action" where
  "policy_reconcile P CP E =
     (if \<not> pc_controlPlane P then fail (CapErrorf ''no control plane client configured'')
      else do {
        w \<leftarrow> State_Monad.get;
        interact E;
        case CP (w_clock w) of
          Inl e \<Rightarrow> fail (CapWrapf ''failed to fetch config'' e)
        | Inr (config, version) \<Rightarrow> updateSnapshot P E version config })"

definition policy_Start :: "policy_cfg \<Rightarrow> control_plane \<Rightarrow> cap_env \<Rightarrow> unit policy_action" where
  "policy_Start P CP E = do {
     _ \<leftarrow> loadFromDisk P E;
     _ \<leftarrow> policy_reconcile P CP E;
     done_with () }"

definition policy_Watch :: "policy_world \<Rightarrow> nat \<times> policy_world" where
  "policy_Watch w = (length (pw_watch w), w\<lparr>pw_watch := pw_watch w @ [[]]\<rparr>)"

definition policy_Stop :: "policy_world \<Rightarrow> policy_world" where
  "policy_Stop w = w\<lparr>pw_watch := []\<rparr>"

definition GetSnapshot :: "policy_world \<Rightarrow> (cap_err, PolicySnapshot) result" where
  "GetSnapshot w = (case pw_current w of None \<Rightarrow> Inl (CapErrorf ''no snapshot available'') | Some s \<Rightarrow> Inr s)"

definition GetLocalMeta :: "policy_world \<Rightarrow> LocalMetadata" where
  "GetLocalMeta w = (case pw_meta w of None \<Rightarrow> empty_meta | Some m \<Rightarrow> m)"

subsection \<open>Frames\<close>

text \<open>The memory of the manager.\<close>

definition same_memory :: "policy_world \<Rightarrow> policy_world \<Rightarrow> bool" where
  "same_memory w w' \<longleftrightarrow> pw_current w' = pw_current w \<and> pw_meta w' = pw_meta w \<and> pw_watch w' = pw_watch w"

interpretation memory: frame same_memory
  by unfold_locales (simp_all add: same_memory_def)

lemma memory_basic: "preserves same_memory (interact E)" "preserves same_memory (set_file p c)" "preserves same_memory (delete_file p)" "preserves same_memory (Now E)"
  by (auto simp: preserves_def same_memory_def interact_run set_file_def delete_file_def Now_def)

lemmas memory_calls = memory.calls [OF memory_basic(1)] memory.writes [OF memory_basic(1,2,3)]

lemma memory_files: "preserves same_memory (Rename E p q)" "preserves same_memory (WriteFile E p c)" "preserves same_memory (ReadFile_opt E p)"
    "preserves same_memory (WriteAtomic E p c m n)"
  unfolding Rename_def WriteFile_def ReadFile_opt_def WriteAtomic_def by (intro memory.rules memory_calls memory_basic memory.unit)+

lemmas memory_rules = memory.rules memory.unit memory_calls memory_files memory_basic

lemma memory_store: "preserves same_memory (SaveSnapshot P E s)" "preserves same_memory (ps_LoadSnapshot P E)" "preserves same_memory (LoadLocalMeta P E)"
    "preserves same_memory (SaveLocalMeta P E m)" "preserves same_memory (LoadSnapshotWithMeta P E)"
  unfolding SaveSnapshot_def ps_LoadSnapshot_def LoadLocalMeta_def SaveLocalMeta_def LoadSnapshotWithMeta_def
  by (auto intro!: memory_rules split: option.split)

lemma SaveSnapshot_file:
  assumes "run_state (SaveSnapshot P E s) w = (r, w')"
  shows "map_of (w_files w') (snapshotPath P) = (if is_ok r then Some (pc_yaml P s) else map_of (w_files w) (snapshotPath P))"
proof (cases "ps_Validate P s")
  case (Inr u)
  obtain q v where 1: "run_state (os_call E) w = (q, v)" by fastforce
  have "w_files v = w_files w" using os_call_files [of E w] 1 by simp
  with assms Inr 1 show ?thesis unfolding SaveSnapshot_def by (cases q) (auto simp: check_run wrapf_run dest: WriteAtomic_file)
qed (use assms in \<open>auto simp: SaveSnapshot_def check_run wrapf_run\<close>)

lemma new_valid: "pc_serverID P \<noteq> [] \<Longrightarrow> ps_Validate P (NewPolicySnapshot P now (pc_serverID P) v c) = Inr ()"
  by (simp add: ps_Validate_def NewPolicySnapshot_def ComputeHash_def Let_def)

lemma new_fields [simp]: "ps_Version (NewPolicySnapshot P now i v c) = v" "ps_ServerID (NewPolicySnapshot P now i v c) = i"
    "ps_Payload (NewPolicySnapshot P now i v c) = c"
  by (simp_all add: NewPolicySnapshot_def Let_def)

text \<open>An update stores the new snapshot in memory, on disk and in the queues, or changes nothing of them.\<close>

lemma updateSnapshot_effect:
  assumes "run_state (updateSnapshot P E v c) w = (r, w')"
  obtains (kept) "same_memory w w'" and "map_of (w_files w') (snapshotPath P) = map_of (w_files w) (snapshotPath P)"
      and "is_ok r \<Longrightarrow> \<not> newer v w"
  | (stored) s where "newer v w" and "ps_Version s = v" "ps_ServerID s = pc_serverID P" "ps_Payload s = c" "ps_Validate P s = Inr ()" and "r = Inr ()"
      and "map_of (w_files w') (snapshotPath P) = Some (pc_yaml P s)" and "pw_current w' = Some s" "pw_meta w' = pw_meta w"
      and "pw_watch w' = map (notify_one s) (pw_watch w)"
proof -
  obtain t w1 where n: "run_state (Now E) w = (t, w1)" by fastforce
  have w1: "same_memory w w1" "w_files w1 = w_files w" using n by (auto simp: Now_def interact_run same_memory_def)
  let ?s = "NewPolicySnapshot P t (pc_serverID P) v c"
  note run = assms [unfolded updateSnapshot_def up_new_def Let_def]
  show thesis
  proof (cases "ps_Validate P ?s")
    case (Inl e)
    then have "w' = w1" "\<not> is_ok r" using run n by (auto simp: check_run wrapf_run)
    with w1 show thesis by (intro kept) auto
  next
    case (Inr u)
    have nw: "newer v w1 = newer v w" using w1(1) by (simp add: newer_def same_memory_def)
    show thesis
    proof (cases "newer v w")
      case True
      obtain q w2 where s: "run_state (SaveSnapshot P E ?s) w1 = (q, w2)" by fastforce
      have m: "same_memory w w2" using memory.trans [OF w1(1) preservesD [OF memory_store(1) s]] .
      have r: "run_state (up_store P E ?s) w1 = (r, w')" using run n Inr True nw by (simp add: check_run wrapf_run get_run done_with_def)
      show thesis
      proof (cases q)
        case (Inl e)
        then have "w' = w2" "\<not> is_ok r" using r s by (auto simp: up_store_def check_run wrapf_run)
        with m SaveSnapshot_file [OF s] w1(2) Inl show thesis by (intro kept) auto
      next
        case (Inr x)
        then have "r = Inr ()" "w' = w2\<lparr>pw_current := Some ?s, pw_watch := map (notify_one ?s) (pw_watch w2)\<rparr>"
          using r s by (simp_all add: up_store_def check_run wrapf_run up_set_def notifyWatchers_def done_with_def)
        with m SaveSnapshot_file [OF s] Inr True \<open>ps_Validate P ?s = Inr u\<close> show thesis
          by (intro stored [of ?s]) (simp_all add: same_memory_def)
      qed
    next
      case False
      then have "w' = w1" "r = Inr ()" using run n Inr nw by (simp_all add: check_run wrapf_run get_run done_with_def)
      with w1 False show thesis by (intro kept) auto
    qed
  qed
qed

subsection \<open>Sequences of operations\<close>

text \<open>Between the operations, watchers receive from their channels.\<close>

datatype policy_op = PolPush bytes | PolReconcile | PolWatch | PolReceive nat | PolStop

fun policy_step :: "policy_cfg \<Rightarrow> control_plane \<Rightarrow> cap_env \<Rightarrow> policy_op \<Rightarrow> policy_world \<Rightarrow> policy_world" where
  "policy_step P CP E (PolPush b) w = snd (run_state (HandlePushUpdate P E b) w)"
| "policy_step P CP E PolReconcile w = snd (run_state (policy_reconcile P CP E) w)"
| "policy_step P CP E PolWatch w = snd (policy_Watch w)"
| "policy_step P CP E (PolReceive i) w = w\<lparr>pw_watch := (if i < length (pw_watch w) then (pw_watch w)[i := tl (pw_watch w ! i)] else pw_watch w)\<rparr>"
| "policy_step P CP E PolStop w = policy_Stop w"

text \<open>A queue of at most ten snapshots of increasing versions, none newer than the current one.\<close>

definition queue_ok :: "PolicySnapshot option \<Rightarrow> PolicySnapshot list \<Rightarrow> bool" where
  "queue_ok cur q \<longleftrightarrow> length q \<le> 10 \<and> sorted_wrt (<) (map ps_Version q)
     \<and> list_all (\<lambda>s. case cur of None \<Rightarrow> False | Some c \<Rightarrow> ps_Version s \<le> ps_Version c) q"

definition current_ok :: "policy_cfg \<Rightarrow> PolicySnapshot option \<Rightarrow> bool" where
  "current_ok P cur \<longleftrightarrow> (case cur of None \<Rightarrow> True | Some s \<Rightarrow> ps_Validate P s = Inr () \<and> ps_ServerID s = pc_serverID P)"

text \<open>What is in memory is what the file of the snapshot holds.\<close>

definition on_disk :: "policy_cfg \<Rightarrow> policy_world \<Rightarrow> bool" where
  "on_disk P w \<longleftrightarrow> (case pw_current w of None \<Rightarrow> True | Some s \<Rightarrow>
     (case map_of (w_files w) (snapshotPath P) of None \<Rightarrow> False | Some text \<Rightarrow> text = pc_yaml P s \<or> pc_unyaml P text = Some s))"

definition policy_inv :: "policy_cfg \<Rightarrow> policy_world \<Rightarrow> bool" where
  "policy_inv P w \<longleftrightarrow> current_ok P (pw_current w) \<and> on_disk P w \<and> list_all (queue_ok (pw_current w)) (pw_watch w)"

definition version_le :: "policy_world \<Rightarrow> policy_world \<Rightarrow> bool" where
  "version_le w w' \<longleftrightarrow> (case pw_current w of None \<Rightarrow> True | Some s \<Rightarrow>
     (case pw_current w' of None \<Rightarrow> False | Some s' \<Rightarrow> ps_Version s \<le> ps_Version s'))"

lemma notify_ok:
  assumes "queue_ok cur q" and "case cur of None \<Rightarrow> True | Some c \<Rightarrow> ps_Version c < ps_Version s"
  shows "queue_ok (Some s) (notify_one s q)"
proof (cases cur)
  case None
  with assms have "q = []" by (cases q) (auto simp: queue_ok_def)
  then show ?thesis by (simp add: queue_ok_def notify_one_def)
next
  case (Some c)
  with assms have "ps_Version x < ps_Version s" if "x \<in> set q" for x using that by (fastforce simp: queue_ok_def list_all_iff)
  with assms(1) show ?thesis by (auto simp: queue_ok_def notify_one_def list_all_iff sorted_wrt_append less_imp_le)
qed

lemma update_inv:
  assumes "run_state (updateSnapshot P E v c) w = (r, w')" and "policy_inv P w"
  shows "policy_inv P w' \<and> version_le w w'"
  using assms(1)
proof (cases rule: updateSnapshot_effect)
  case kept
  with assms(2) show ?thesis by (auto simp: policy_inv_def same_memory_def on_disk_def version_le_def split: option.splits)
next
  case (stored s)
  have "case pw_current w of None \<Rightarrow> True | Some c \<Rightarrow> ps_Version c < ps_Version s" using stored(1,2) by (auto simp: newer_def split: option.splits)
  moreover from this have "list_all (queue_ok (Some s)) (map (notify_one s) (pw_watch w))"
    using assms(2) notify_ok by (auto simp: policy_inv_def list_all_iff)
  ultimately show ?thesis using stored by (auto simp: policy_inv_def on_disk_def current_ok_def version_le_def split: option.splits)
qed

lemma same_inv: "same_memory w w' \<Longrightarrow> w_files w' = w_files w \<Longrightarrow> policy_inv P w \<Longrightarrow> policy_inv P w' \<and> version_le w w'"
  by (auto simp: policy_inv_def same_memory_def on_disk_def version_le_def split: option.splits)

lemma version_le_refl [simp]: "version_le w w"
  by (simp add: version_le_def split: option.split)

lemma version_le_trans: "version_le u v \<Longrightarrow> version_le v w \<Longrightarrow> version_le u w"
  by (auto simp: version_le_def split: option.splits)

lemma reconcile_inv: "policy_inv P w \<Longrightarrow> policy_inv P (snd (run_state (policy_reconcile P CP E) w)) \<and> version_le w (snd (run_state (policy_reconcile P CP E) w))"
proof -
  assume w: "policy_inv P w"
  let ?w1 = "snd (run_state (interact E) w)"
  have 1: "policy_inv P ?w1" "version_le w ?w1"
    using w by (simp_all add: interact_run policy_inv_def on_disk_def version_le_def split: option.splits)
  show ?thesis
  proof (cases "pc_controlPlane P")
    case True
    show ?thesis
    proof (cases "CP (w_clock w)")
      case (Inr x)
      obtain c v where x: "x = (c, v)" by (cases x)
      obtain r w' where u: "run_state (updateSnapshot P E v c) ?w1 = (r, w')" by fastforce
      have "snd (run_state (policy_reconcile P CP E) w) = w'" using True Inr x u by (simp add: policy_reconcile_def get_run case_prod_beta)
      with update_inv [OF u 1(1)] 1(2) version_le_trans show ?thesis by metis
    qed (use True 1 in \<open>simp add: policy_reconcile_def get_run case_prod_beta fail_def\<close>)
  qed (use w in \<open>simp add: policy_reconcile_def fail_def\<close>)
qed

lemma push_inv: "policy_inv P w \<Longrightarrow> policy_inv P (snd (run_state (HandlePushUpdate P E b) w)) \<and> version_le w (snd (run_state (HandlePushUpdate P E b) w))"
proof -
  assume w: "policy_inv P w"
  show ?thesis
  proof (cases "Option.bind (json_parse b) (dec_push (pc_json P))")
    case (Some x)
    obtain i v c where x: "x = (i, v, c)" by (cases x)
    obtain r w' where u: "run_state (updateSnapshot P E v c) w = (r, w')" by fastforce
    have "snd (run_state (HandlePushUpdate P E b) w) = w'" using Some x u by (simp add: HandlePushUpdate_def)
    with update_inv [OF u w] show ?thesis by simp
  qed (use w in \<open>simp add: HandlePushUpdate_def\<close>)
qed

lemma receive_ok: "queue_ok cur q \<Longrightarrow> queue_ok cur (tl q)"
  by (cases q) (auto simp: queue_ok_def)

lemma step_inv: "policy_inv P w \<Longrightarrow> policy_inv P (policy_step P CP E op w) \<and> version_le w (policy_step P CP E op w)"
proof (cases op)
  case (PolPush b)
  moreover assume "policy_inv P w"
  ultimately show ?thesis using push_inv by simp
next
  case PolReconcile
  moreover assume "policy_inv P w"
  ultimately show ?thesis using reconcile_inv by simp
next
  case (PolReceive i)
  moreover assume "policy_inv P w"
  ultimately show ?thesis
    by (auto simp: policy_inv_def on_disk_def version_le_def receive_ok list_all_length nth_list_update split: option.splits)
qed (auto simp: policy_Watch_def policy_Stop_def policy_inv_def on_disk_def version_le_def queue_ok_def split: option.splits)

interpretation policy_ops: machine "policy_step P CP E" "policy_inv P" for P CP E
  by unfold_locales (simp add: step_inv)

lemma run_version_le: "policy_inv P w \<Longrightarrow> version_le w (fold (policy_step P CP E) ops w)"
proof (induction ops arbitrary: w)
  case (Cons op ops)
  note s = step_inv [OF Cons.prems, of CP E op]
  from version_le_trans [OF conjunct2 [OF s] Cons.IH [OF conjunct1 [OF s]]] show ?case by simp
qed simp

subsection \<open>Properties\<close>



text \<open>
  Two updates at the same time can take the policy back. If the older one is checked before the
  newer one is stored and stored after it, both succeed and the older one is left, in memory and on
  disk: \<open>updateSnapshot\<close> releases its lock between the check and the store.
\<close>

theorem concurrent_updates_regress:
  assumes "run_state (up_new P E v c) w = (Inr s, w1)" and "newer v w1"
    and "run_state (updateSnapshot P E v' c') w1 = (Inr (), w2)" and "newer v' w1" and "v < v'"
    and "run_state (up_store P E s) w2 = (Inr (), w3)"
  shows "(\<exists>s'. pw_current w2 = Some s' \<and> ps_Version s' = v') \<and> pw_current w3 = Some s \<and> ps_Version s = v
     \<and> map_of (w_files w3) (snapshotPath P) = Some (pc_yaml P s)"
proof -
  have "\<exists>s'. pw_current w2 = Some s' \<and> ps_Version s' = v'"
    using assms(3) by (cases rule: updateSnapshot_effect) (use assms(4) in auto)
  moreover obtain u where "run_state (SaveSnapshot P E s) w2 = (Inr (), u)" "w3 = u\<lparr>pw_current := Some s, pw_watch := map (notify_one s) (pw_watch u)\<rparr>"
    using assms(6) unfolding up_store_def by (auto simp: outcome up_set_def notifyWatchers_def)
  moreover have "ps_Version s = v" using assms(1) unfolding up_new_def Let_def by (auto simp: outcome case_prod_beta)
  ultimately show ?thesis using SaveSnapshot_file by fastforce
qed

text \<open>
  A push for another server is taken for this one: the ID in the event is decoded and ignored, and
  the snapshot stored carries the ID of this server.
\<close>

theorem push_for_other_server_is_stored:
  assumes "Option.bind (json_parse b) (dec_push (pc_json P)) = Some (other, v, c)" and "other \<noteq> pc_serverID P" and "newer v w"
    and "is_ok (fst (run_state (updateSnapshot P E v c) w))"
  shows "\<exists>s. pw_current (snd (run_state (HandlePushUpdate P E b) w)) = Some s \<and> ps_Payload s = c \<and> ps_Version s = v \<and> ps_ServerID s = pc_serverID P"
proof -
  obtain r w' where u: "run_state (updateSnapshot P E v c) w = (r, w')" by fastforce
  have "snd (run_state (HandlePushUpdate P E b) w) = w'" using assms(1) u by (simp add: HandlePushUpdate_def)
  moreover have "\<exists>s. pw_current w' = Some s \<and> ps_Payload s = c \<and> ps_Version s = v \<and> ps_ServerID s = pc_serverID P"
    using u by (cases rule: updateSnapshot_effect) (use assms(3,4) u in auto)
  ultimately show ?thesis by simp
qed

text \<open>
  A policy without a configuration does not survive a restart. The nil map hashes as \<open>null\<close>; where
  YAML reads it back as an empty map, the file that was just written fails its validation.
\<close>

theorem nil_policy_does_not_load:
  assumes "map_of (w_files w) (snapshotPath P) = Some (pc_yaml P s)" and "ps_Payload s = Jnull" and "ps_Validate P s = Inr ()"
    and "pc_unyaml P (pc_yaml P s) = Some (s\<lparr>ps_Payload := Jobj []\<rparr>)" and "pc_sha P ''null'' \<noteq> pc_sha P ''{}''"
  shows "\<not> is_ok (fst (run_state (ps_LoadSnapshot P E) w))"
proof -
  have "ps_Validate P (s\<lparr>ps_Payload := Jobj []\<rparr>) = Inl ErrInvalidHash"
    using assms(2,3,5) by (auto simp: ps_Validate_def ComputeHash_def split: if_splits)
  moreover obtain q v where 1: "run_state (os_call E) w = (q, v)" by fastforce
  moreover from this have "w_files v = w_files w" using os_call_files [of E w] by simp
  ultimately show ?thesis using assms(1,4)
    by (cases q) (simp_all add: ps_LoadSnapshot_def ReadFile_opt_def check_run wrapf_run get_run done_with_def)
qed

subsection \<open>Witnesses\<close>

definition demo_snap :: PolicySnapshot where
  "demo_snap = \<lparr>ps_Version = 2, ps_Payload = Jnull, ps_Hash = ''null'', ps_Timestamp = 5, ps_ServerID = ''s1'', ps_ConfigVersion = 0\<rparr>"

text \<open>A YAML for one snapshot, or one that reads the nil map back as an empty one.\<close>

definition demo_policy :: policy_cfg where
  "demo_policy = \<lparr>pc_base = ''/p'', pc_isAgent = True, pc_serverID = ''s1'', pc_controlPlane = True, pc_sha = (\<lambda>c. c), pc_json = upd_json,
     pc_yaml = (\<lambda>s. ''y''), pc_unyaml = (\<lambda>t. Some demo_snap), pc_yaml_meta = (\<lambda>m. ''m''), pc_unyaml_meta = (\<lambda>t. Some empty_meta),
     pc_default_api = ''a'', pc_default_spine = ''b''\<rparr>"

definition demo_control :: control_plane where
  "demo_control n = Inr (Jnull, 2)"

definition demo_policy_world :: policy_world where
  "demo_policy_world = \<lparr>w_clock = 0, w_files = [], w_sup = NewProcessSupervisor ''/log'', pw_current = None, pw_meta = None, pw_watch = [[]]\<rparr>"

lemma demo_policy_paths: "snapshotPath demo_policy = ''/p/snapshot.yaml''" "localPath demo_policy = ''/p/local.yaml''" "pc_serverID demo_policy = ''s1''"
  by (simp_all add: snapshotPath_def localPath_def demo_policy_def path_Join_def Clean_def clean_step_def HasPrefix_def)

lemma demo_policy_inv: "policy_inv demo_policy demo_policy_world"
  by (simp add: policy_inv_def demo_policy_world_def current_ok_def on_disk_def queue_ok_def)

lemma demo_update:
  assumes "newer v w"
  shows "\<exists>w' s. run_state (updateSnapshot demo_policy demo_upd_env v c) w = (Inr (), w') \<and> pw_current w' = Some s
     \<and> s = NewPolicySnapshot demo_policy 5 ''s1'' v c"
proof -
  have "ps_Validate demo_policy (NewPolicySnapshot demo_policy 5 ''s1'' v c) = Inr ()" using new_valid [of demo_policy 5 v c] by (simp add: demo_policy_paths)
  then show ?thesis using assms
    by (simp add: updateSnapshot_def up_new_def up_store_def SaveSnapshot_def WriteAtomic_def upd_runs demo_env_run demo_policy_paths up_set_def notifyWatchers_def newer_def update_conv')
qed


lemma demo_new: "NewPolicySnapshot demo_policy 5 ''s1'' 2 Jnull = demo_snap"
  by (simp add: NewPolicySnapshot_def ComputeHash_def demo_policy_def demo_snap_def)

lemma demo_load: "\<exists>w1. run_state (loadFromDisk demo_policy demo_upd_env) (demo_policy_world\<lparr>w_files := [(''/p/snapshot.yaml'', ''y'')]\<rparr>) = (Inr (), w1)"
proof -
  have "ps_Validate demo_policy demo_snap = Inr ()" "pc_unyaml demo_policy t = Some demo_snap" for t
    by (simp_all add: ps_Validate_def ComputeHash_def demo_policy_def demo_snap_def)
  then show ?thesis unfolding loadFromDisk_def ps_LoadSnapshot_def LoadLocalMeta_def
    by (simp add: upd_runs demo_env_run demo_policy_paths demo_policy_world_def)
qed


theorem concurrent_updates_regress_witness:
  "\<exists>s w2 w3. pw_current w2 \<noteq> None \<and> run_state (up_store demo_policy demo_upd_env s) w2 = (Inr (), w3) \<and> pw_current w3 = Some s \<and> ps_Version s = 1"
proof -
  let ?s = "NewPolicySnapshot demo_policy 5 ''s1'' 1 Jnull"
  have v: "ps_Validate demo_policy ?s = Inr ()" using new_valid [of demo_policy 5 1 Jnull] by (simp add: demo_policy_paths)
  obtain w1 where 1: "run_state (up_new demo_policy demo_upd_env 1 Jnull) demo_policy_world = (Inr ?s, w1)" "pw_current w1 = None"
    by (simp add: up_new_def upd_runs demo_env_run demo_policy_paths v demo_policy_world_def)
  then have n: "newer 1 w1" "newer 2 w1" by (simp_all add: newer_def)
  obtain w2 where 2: "run_state (updateSnapshot demo_policy demo_upd_env 2 Jnull) w1 = (Inr (), w2)" using demo_update [OF n(2)] by blast
  obtain w3 where 3: "run_state (up_store demo_policy demo_upd_env ?s) w2 = (Inr (), w3)"
    by (simp add: up_store_def SaveSnapshot_def WriteAtomic_def upd_runs demo_env_run demo_policy_paths up_set_def notifyWatchers_def v)
  from concurrent_updates_regress [OF 1(1) n(1) 2 n(2) _ 3] 3 show ?thesis by (intro exI [of _ ?s] exI [of _ w2] exI [of _ w3]) auto
qed

theorem nil_policy_does_not_load_witness:
  "\<not> is_ok (fst (run_state (ps_LoadSnapshot (demo_policy\<lparr>pc_unyaml := (\<lambda>t. Some (demo_snap\<lparr>ps_Payload := Jobj []\<rparr>))\<rparr>) demo_upd_env)
     (demo_policy_world\<lparr>w_files := [(''/p/snapshot.yaml'', ''y'')]\<rparr>)))"
proof -
  let ?P = "demo_policy\<lparr>pc_unyaml := (\<lambda>t. Some (demo_snap\<lparr>ps_Payload := Jobj []\<rparr>))\<rparr>"
  have "snapshotPath ?P = ''/p/snapshot.yaml''" using demo_policy_paths(1) by (simp add: snapshotPath_def)
  then show ?thesis
    by (intro nil_policy_does_not_load [where s = demo_snap]) (simp_all add: ps_Validate_def ComputeHash_def demo_policy_def demo_snap_def)
qed

definition demo_push :: bytes where
  "demo_push = json_text (Jobj [(''server_id'', Jstr ''s2''), (''version'', Jnum ''3''), (''config'', Jobj [(''k'', Jstr ''v'')])])"

theorem push_for_other_server_is_stored_witness:
  "\<exists>s. pw_current (snd (run_state (HandlePushUpdate demo_policy demo_upd_env demo_push) demo_policy_world)) = Some s \<and> ps_ServerID s = ''s1''
     \<and> ps_Payload s = Jobj [(''k'', Jstr ''v'')]"
proof -
  have "json_parse demo_push = Some (Jobj [(''server_id'', Jstr ''s2''), (''version'', Jnum ''3''), (''config'', Jobj [(''k'', Jstr ''v'')])])"
    unfolding demo_push_def by (intro json_parse_text) (simp add: valid_number_def is_digit_def valid_frac_def valid_exp_def)
  then have b: "Option.bind (json_parse demo_push) (dec_push (pc_json demo_policy)) = Some (''s2'', 3, Jobj [(''k'', Jstr ''v'')])"
    by (simp add: field_def lower_char_def dec_data_def parse_int64_def json_digits_def is_digit_def nat_of_digits_def digit_val_def int64_range_def sort_map_def)
  have n: "newer 3 demo_policy_world" by (simp add: newer_def demo_policy_world_def)
  have "is_ok (fst (run_state (updateSnapshot demo_policy demo_upd_env 3 (Jobj [(''k'', Jstr ''v'')])) demo_policy_world))"
    using demo_update [OF n] by (metis fst_conv isl_def sum.distinct(1))
  from push_for_other_server_is_stored [OF b _ n this] show ?thesis by (auto simp: demo_policy_paths)
qed

end
