(* ===== verification/Policy_Client.thy ===== *)
theory Policy_Client
  imports Policy_Manager
begin

text \<open>
  The configuration client over the snapshot store, \<open>internal/policy_manager/server.go\<close>: reading the
  snapshot and the local metadata under one name space, and changing the metadata.
\<close>

declare map_of_eq_Some_iff [simp del]

subsection \<open>Values\<close>

text \<open>
  Go values of type \<open>interface{}\<close>. JSON numbers are decoded as \<open>float64\<close>, YAML integers as \<open>int\<close>;
  \<open>Gtime\<close> and \<open>Gage\<close> are a time stamp and the text of a duration.
\<close>

datatype gval =
    Gnil | Gbool bool | Gint int | Gfloat string | Gstr string | Garr "gval list" | Gmap "(string \<times> gval) list"
  | Gtime int | Gage int

fun of_json :: "json \<Rightarrow> gval" where
  "of_json Jnull = Gnil"
| "of_json (Jbool b) = Gbool b"
| "of_json (Jnum s) = Gfloat s"
| "of_json (Jstr s) = Gstr s"
| "of_json (Jarr vs) = Garr (map of_json vs)"
| "of_json (Jobj fs) = Gmap (map (\<lambda>(k, v). (k, of_json v)) fs)"

fun of_yaml :: "json \<Rightarrow> gval" where
  "of_yaml Jnull = Gnil"
| "of_yaml (Jbool b) = Gbool b"
| "of_yaml (Jnum s) = (case parse_int64 s of Some n \<Rightarrow> Gint n | None \<Rightarrow> Gfloat s)"
| "of_yaml (Jstr s) = Gstr s"
| "of_yaml (Jarr vs) = Garr (map of_yaml vs)"
| "of_yaml (Jobj fs) = Gmap (map (\<lambda>(k, v). (k, of_yaml v)) fs)"

definition payload_map :: "(json \<Rightarrow> gval) \<Rightarrow> json \<Rightarrow> (string \<times> gval) list" where
  "payload_map conv p = (case conv p of Gmap m \<Rightarrow> m | _ \<Rightarrow> [])"

subsection \<open>server.go\<close>

definition local_key :: "string \<Rightarrow> string option" where
  "local_key key = (if length key > 6 \<and> take 6 key = ''local.'' then Some (drop 6 key) else None)"

definition plain_key :: "string \<Rightarrow> string" where
  "plain_key key = (case local_key key of Some k \<Rightarrow> k | None \<Rightarrow> key)"

fun get_path :: "gval \<Rightarrow> string list \<Rightarrow> gval option" where
  "get_path cur [] = Some cur"
| "get_path (Gmap m) (p # ps) = (case map_of m p of None \<Rightarrow> None | Some v \<Rightarrow> get_path v ps)"
| "get_path _ (p # ps) = None"

definition getNestedValue :: "(string \<times> gval) list \<Rightarrow> string \<Rightarrow> gval option" where
  "getNestedValue m key =
     (let parts = Split (CHR ''.'') key in if length parts < 2 then None else get_path (Gmap m) parts)"

definition unless_empty :: "string \<Rightarrow> gval option" where
  "unless_empty s = (if s = [] then None else Some (Gstr s))"

text \<open>The cases of the switches over the keys of the metadata.\<close>

datatype meta_key = MServerID | MServerName | MAuthToken | MAPIBaseURL | MEndpoint | MExtra string

definition meta_keys :: "(string \<times> meta_key) list" where
  "meta_keys = [(''server_id'', MServerID), (''server_name'', MServerName), (''auth.token'', MAuthToken), (''api.base_url'', MAPIBaseURL),
     (''mycelium_spine.endpoint'', MEndpoint)]"

definition meta_key_of :: "string \<Rightarrow> meta_key" where
  "meta_key_of key = (case map_of meta_keys key of Some m \<Rightarrow> m | None \<Rightarrow> MExtra key)"

definition getFromLocalMeta :: "policy_cfg \<Rightarrow> LocalMetadata \<Rightarrow> string \<Rightarrow> gval option" where
  "getFromLocalMeta P meta key =
     (case meta_key_of key of
        MServerID \<Rightarrow> unless_empty (lm_ServerID meta)
      | MServerName \<Rightarrow> unless_empty (lm_ServerName meta)
      | MAuthToken \<Rightarrow> unless_empty (lm_AuthToken meta)
      | MAPIBaseURL \<Rightarrow> Some (Gstr (if lm_APIBaseURL meta \<noteq> [] then lm_APIBaseURL meta else pc_default_api P))
      | MEndpoint \<Rightarrow> Some (Gstr (if lm_Endpoint meta \<noteq> [] then lm_Endpoint meta else pc_default_spine P))
      | MExtra k \<Rightarrow> map_option of_yaml (map_of (lm_Extra meta) k))"

definition special_key :: "int \<Rightarrow> PolicySnapshot \<Rightarrow> string \<Rightarrow> gval option" where
  "special_key now s key =
     (if key = ''snapshot.version'' then Some (Gint (ps_Version s))
      else if key = ''snapshot.timestamp'' then Some (Gtime (ps_Timestamp s))
      else if key = ''snapshot.server_id'' then Some (Gstr (ps_ServerID s))
      else if key = ''snapshot.age'' then Some (Gage (now - ps_Timestamp s))
      else None)"

definition lookup :: "policy_cfg \<Rightarrow> int \<Rightarrow> PolicySnapshot \<Rightarrow> LocalMetadata \<Rightarrow> string \<Rightarrow> gval option" where
  "lookup P now s meta key =
     (case local_key key of
        Some k \<Rightarrow> getFromLocalMeta P meta k
      | None \<Rightarrow>
          (let m = payload_map of_yaml (ps_Payload s) in
           case map_of m key of
             Some v \<Rightarrow> Some v
           | None \<Rightarrow> (case getNestedValue m key of Some v \<Rightarrow> Some v | None \<Rightarrow> special_key now s key)))"

definition client_Get :: "policy_cfg \<Rightarrow> cap_env \<Rightarrow> string \<Rightarrow> (policy_world, gval option) state" where
  "client_Get P E key = do {
     r \<leftarrow> LoadSnapshotWithMeta P E;
     now \<leftarrow> Now E;
     State_Monad.return (case r of Inl _ \<Rightarrow> None | Inr (s, meta) \<Rightarrow> lookup P now s meta key) }"

text \<open>A value that is not a string leaves a field of type \<open>string\<close> as it is.\<close>

definition set_meta :: "string \<Rightarrow> json \<Rightarrow> LocalMetadata \<Rightarrow> LocalMetadata" where
  "set_meta key value meta =
     (case meta_key_of key of
        MServerID \<Rightarrow> (case value of Jstr v \<Rightarrow> meta\<lparr>lm_ServerID := v\<rparr> | _ \<Rightarrow> meta)
      | MServerName \<Rightarrow> (case value of Jstr v \<Rightarrow> meta\<lparr>lm_ServerName := v\<rparr> | _ \<Rightarrow> meta)
      | MAuthToken \<Rightarrow> (case value of Jstr v \<Rightarrow> meta\<lparr>lm_AuthToken := v\<rparr> | _ \<Rightarrow> meta)
      | MAPIBaseURL \<Rightarrow> (case value of Jstr v \<Rightarrow> meta\<lparr>lm_APIBaseURL := v\<rparr> | _ \<Rightarrow> meta)
      | MEndpoint \<Rightarrow> (case value of Jstr v \<Rightarrow> meta\<lparr>lm_Endpoint := v\<rparr> | _ \<Rightarrow> meta)
      | MExtra k \<Rightarrow> meta\<lparr>lm_Extra := AList.update k value (lm_Extra meta)\<rparr>)"

definition client_Set :: "policy_cfg \<Rightarrow> cap_env \<Rightarrow> string \<Rightarrow> json \<Rightarrow> unit policy_action" where
  "client_Set P E key value = do {
     r \<leftarrow> LoadLocalMeta P E;
     let meta = (case r of Inr m \<Rightarrow> m | Inl _ \<Rightarrow> empty_meta);
     SaveLocalMeta P E (set_meta (plain_key key) value meta) }"

definition clear_meta :: "string \<Rightarrow> LocalMetadata \<Rightarrow> LocalMetadata" where
  "clear_meta key meta =
     (case meta_key_of key of
        MServerID \<Rightarrow> meta\<lparr>lm_ServerID := []\<rparr>
      | MServerName \<Rightarrow> meta\<lparr>lm_ServerName := []\<rparr>
      | MAuthToken \<Rightarrow> meta\<lparr>lm_AuthToken := []\<rparr>
      | MAPIBaseURL \<Rightarrow> meta\<lparr>lm_APIBaseURL := []\<rparr>
      | MEndpoint \<Rightarrow> meta\<lparr>lm_Endpoint := []\<rparr>
      | MExtra k \<Rightarrow> meta\<lparr>lm_Extra := AList.delete k (lm_Extra meta)\<rparr>)"

definition client_Delete :: "policy_cfg \<Rightarrow> cap_env \<Rightarrow> string \<Rightarrow> unit policy_action" where
  "client_Delete P E key =
     check (wrapf ''failed to load local metadata'' (LoadLocalMeta P E)) (\<lambda>meta. SaveLocalMeta P E (clear_meta (plain_key key) meta))"

text \<open>The merged configuration: the version, and the payload with the metadata over it.\<close>

definition client_Config :: "policy_cfg \<Rightarrow> cap_env \<Rightarrow> (policy_world, int \<times> (string, gval) gomap) state" where
  "client_Config P E = do {
     r \<leftarrow> LoadSnapshotWithMeta P E;
     State_Monad.return (case r of
         Inl _ \<Rightarrow> (0, [])
       | Inr (s, meta) \<Rightarrow>
           (let m0 = fold (\<lambda>(k, v). AList.update k v) (payload_map of_yaml (ps_Payload s)) [];
                m1 = AList.update ''local.server_id'' (Gstr (lm_ServerID meta)) m0;
                m2 = AList.update ''local.server_name'' (Gstr (lm_ServerName meta)) m1;
                m3 = AList.update ''local.auth.token'' (Gstr (lm_AuthToken meta)) m2;
                m4 = AList.update ''local.api.base_url'' (Gstr (lm_APIBaseURL meta)) m3;
                m5 = AList.update ''local.mycelium_spine.endpoint'' (Gstr (lm_Endpoint meta)) m4
            in (ps_Version s, fold (\<lambda>(k, v). AList.update (''local.'' @ k) (of_yaml v)) (lm_Extra meta) m5))) }"

subsection \<open>Lemmas\<close>

lemma is_ok_run: "is_ok (fst (run_state m w)) \<Longrightarrow> \<exists>x w'. run_state m w = (Inr x, w')"
  by (metis prod.collapse sum.collapse(2))

lemma local_key_prefix: "k \<noteq> [] \<Longrightarrow> local_key (''local.'' @ k) = Some k"
  by (cases k) (simp_all add: local_key_def)

text \<open>A value that can be read back: any under a free key, a non-empty string in a named field.\<close>

definition readable :: "string \<Rightarrow> json \<Rightarrow> bool" where
  "readable key v \<longleftrightarrow> (case meta_key_of key of MExtra _ \<Rightarrow> True | _ \<Rightarrow> (case v of Jstr s \<Rightarrow> s \<noteq> [] | _ \<Rightarrow> False))"

lemma meta_key_of_inject: "meta_key_of k = meta_key_of k' \<Longrightarrow> k = k'"
  by (auto simp: meta_key_of_def meta_keys_def split: if_splits)

lemma get_set_meta: "readable k v \<Longrightarrow> getFromLocalMeta P (set_meta k v meta) k = Some (of_yaml v)"
  by (auto simp: readable_def getFromLocalMeta_def set_meta_def unless_empty_def split: meta_key.splits json.splits)

lemma get_set_other: "k' \<noteq> k \<Longrightarrow> getFromLocalMeta P (set_meta k v meta) k' = getFromLocalMeta P meta k'"
  using meta_key_of_inject [of k k'] by (cases "meta_key_of k"; cases "meta_key_of k'") (auto simp: getFromLocalMeta_def set_meta_def split: json.split)

lemma LoadLocalMeta_ok:
  assumes "run_state (LoadLocalMeta P E) w = (Inr m, w')"
  shows "w_files w' = w_files w \<and> m = (case map_of (w_files w) (localPath P) of None \<Rightarrow> empty_meta | Some t \<Rightarrow>
     (case pc_unyaml_meta P t of Some m \<Rightarrow> m | None \<Rightarrow> the (Option.bind (json_parse t) (dec_local_meta (pc_json P)))))"
proof -
  obtain ob w1 where 1: "run_state (os_call E) w = (Inr ob, w1)" using assms unfolding LoadLocalMeta_def ReadFile_opt_def by (auto simp: outcome)
  have f: "w_files w1 = w_files w" using os_call_ok(1) [OF 1] .
  from assms have "run_state (case map_of (w_files w1) (localPath P) of None \<Rightarrow> done_with empty_meta | Some t \<Rightarrow>
      (case pc_unyaml_meta P t of Some meta \<Rightarrow> done_with meta | None \<Rightarrow>
        (case Option.bind (json_parse t) (dec_local_meta (pc_json P)) of None \<Rightarrow> fail (CapErrorf ''failed to unmarshal local metadata'') | Some meta \<Rightarrow> done_with meta))) w1 = (Inr m, w')"
    using 1 unfolding LoadLocalMeta_def ReadFile_opt_def by (simp add: check_run wrapf_run get_run) (simp add: done_with_def)
  with f show ?thesis by (auto simp: outcome split: option.splits)
qed

lemma SaveLocalMeta_ok: "run_state (SaveLocalMeta P E m) w = (Inr (), w') \<Longrightarrow> map_of (w_files w') (localPath P) = Some (pc_yaml_meta P m)"
  unfolding SaveLocalMeta_def WriteFile_def using Copy_ok by (fastforce simp: outcome)

lemma LoadSnapshotWithMeta_ok:
  assumes "run_state (LoadSnapshotWithMeta P E) w = (Inr (s, m), w')" and "map_of (w_files w) (localPath P) = Some t" and "pc_unyaml_meta P t = Some m'"
  shows "m = m'"
proof -
  obtain x w1 where 1: "run_state (ps_LoadSnapshot P E) w = (Inr x, w1)" and 2: "run_state (LoadLocalMeta P E) w1 = (Inr m, w')"
    using assms(1) unfolding LoadSnapshotWithMeta_def by (auto simp: outcome)
  have "touches {} (ps_LoadSnapshot P E)"
    unfolding ps_LoadSnapshot_def ReadFile_opt_def by (auto intro!: files.rules touch split: option.split)
  from touchesD [OF this, of "localPath P" w] 1 have "map_of (w_files w1) (localPath P) = map_of (w_files w) (localPath P)" by simp
  with LoadLocalMeta_ok [OF 2] assms(2,3) show ?thesis by simp
qed

lemma client_Get_run:
  assumes "run_state (LoadSnapshotWithMeta P E) w = (Inr (s, m), w')"
  shows "\<exists>now. fst (run_state (client_Get P E key) w) = lookup P now s m key"
  using assms by (auto simp: client_Get_def case_prod_beta)

lemma client_Set_loaded:
  assumes "run_state (LoadLocalMeta P E) w = (r, w')" and "run_state (client_Set P E key v) w = (Inr (), w1)"
  shows "map_of (w_files w1) (localPath P) = Some (pc_yaml_meta P (set_meta (plain_key key) v (case r of Inr m \<Rightarrow> m | Inl _ \<Rightarrow> empty_meta)))"
  using assms SaveLocalMeta_ok unfolding client_Set_def Let_def by (simp add: case_prod_beta)

subsection \<open>Properties\<close>

text \<open>
  A value that was set is read back, under its name with the prefix \<open>local.\<close>, and the values of
  all other names are those they had, provided that YAML gives back the metadata.
\<close>

theorem set_then_get:
  assumes "run_state (LoadLocalMeta P E) w = (Inr m, w')" and "run_state (client_Set P E (''local.'' @ k) v) w = (Inr (), w1)"
    and "pc_unyaml_meta P (pc_yaml_meta P (set_meta k v m)) = Some (set_meta k v m)" and "k \<noteq> []" and "readable k v"
    and "is_ok (fst (run_state (LoadSnapshotWithMeta P E') w1))"
  shows "fst (run_state (client_Get P E' (''local.'' @ k)) w1) = Some (of_yaml v)
     \<and> (\<forall>k'. k' \<noteq> k \<and> k' \<noteq> [] \<longrightarrow> fst (run_state (client_Get P E' (''local.'' @ k')) w1) = getFromLocalMeta P m k')"
proof -
  obtain s m' w2 where l: "run_state (LoadSnapshotWithMeta P E') w1 = (Inr (s, m'), w2)"
    using is_ok_run [OF assms(6)] by auto
  have "map_of (w_files w1) (localPath P) = Some (pc_yaml_meta P (set_meta k v m))"
    using client_Set_loaded [OF assms(1,2)] unfolding plain_key_def local_key_prefix [OF assms(4)] by simp
  from LoadSnapshotWithMeta_ok [OF l this assms(3)] have m': "m' = set_meta k v m" .
  have "fst (run_state (client_Get P E' (''local.'' @ j)) w1) = getFromLocalMeta P m' j" if "j \<noteq> []" for j
    using client_Get_run [OF l, of "''local.'' @ j"] unfolding lookup_def local_key_prefix [OF that] by simp
  with m' get_set_meta [OF assms(5)] get_set_other assms(4) show ?thesis by simp
qed

text \<open>
  A value that was set without the prefix is not found under the name it was set by: \<open>Set\<close> takes
  any name for one of the metadata, \<open>Get\<close> only one with the prefix.
\<close>

theorem set_without_prefix_is_not_found:
  assumes "run_state (client_Set P E k v) w = (Inr (), w1)" and "run_state (LoadSnapshotWithMeta P E') w1 = (Inr (s, m), w2)"
    and "local_key k = None" and "map_of (payload_map of_yaml (ps_Payload s)) k = None" and "getNestedValue (payload_map of_yaml (ps_Payload s)) k = None"
    and "k \<notin> {''snapshot.version'', ''snapshot.timestamp'', ''snapshot.server_id'', ''snapshot.age''}"
  shows "fst (run_state (client_Get P E' k) w1) = None"
  using client_Get_run [OF assms(2), of k] assms(3-6) by (auto simp: lookup_def special_key_def Let_def)

text \<open>
  Setting one value when the metadata cannot be read drops all the others, the token among them:
  what is written is the value alone.
\<close>

theorem set_after_read_error_forgets:
  assumes "run_state (LoadLocalMeta P E) w = (Inl e, w')" and "run_state (client_Set P E key v) w = (Inr (), w1)"
    and "plain_key key \<noteq> ''auth.token''" and "pc_unyaml_meta P (pc_yaml_meta P (set_meta (plain_key key) v empty_meta)) = Some (set_meta (plain_key key) v empty_meta)"
    and "is_ok (fst (run_state (LoadSnapshotWithMeta P E') w1))"
  shows "fst (run_state (client_Get P E' ''local.auth.token'') w1) = None"
proof -
  obtain s m' w2 where l: "run_state (LoadSnapshotWithMeta P E') w1 = (Inr (s, m'), w2)"
    using is_ok_run [OF assms(5)] by auto
  have "map_of (w_files w1) (localPath P) = Some (pc_yaml_meta P (set_meta (plain_key key) v empty_meta))"
    using client_Set_loaded [OF assms(1,2)] by simp
  from LoadSnapshotWithMeta_ok [OF l this assms(4)] have m': "m' = set_meta (plain_key key) v empty_meta" .
  have "getFromLocalMeta P m' ''auth.token'' = getFromLocalMeta P empty_meta ''auth.token''"
    unfolding m' using assms(3) by (intro get_set_other) simp
  then have "getFromLocalMeta P m' ''auth.token'' = None" by (simp add: getFromLocalMeta_def meta_key_of_def meta_keys_def empty_meta_def unless_empty_def)
  with client_Get_run [OF l, of "''local.'' @ ''auth.token''"] show ?thesis unfolding lookup_def local_key_prefix [of "''auth.token''", simplified]
    by (simp add: local_key_def)
qed

subsection \<open>Witnesses\<close>

text \<open>A YAML that writes one value and reads it back.\<close>

definition demo_meta :: LocalMetadata where
  "demo_meta = empty_meta\<lparr>lm_ServerName := ''n''\<rparr>"

definition demo_client :: policy_cfg where
  "demo_client = demo_policy\<lparr>pc_unyaml_meta := (\<lambda>t. if t = ''m'' then Some demo_meta else None)\<rparr>"

lemma demo_client_fields: "snapshotPath demo_client = ''/p/snapshot.yaml''" "localPath demo_client = ''/p/local.yaml''"
    "pc_yaml_meta demo_client m = ''m''" "pc_unyaml_meta demo_client ''m'' = Some demo_meta" "pc_unyaml_meta demo_client ''bad'' = None"
  using demo_policy_paths(1,2) by (simp_all add: snapshotPath_def localPath_def demo_client_def demo_policy_def)

lemma demo_set_meta: "set_meta ''server_name'' (Jstr ''n'') empty_meta = demo_meta"
  by (simp add: set_meta_def meta_key_of_def meta_keys_def demo_meta_def)

definition demo_set_world :: "(string \<times> bytes) list \<Rightarrow> policy_world" where
  "demo_set_world fs = demo_policy_world\<lparr>w_files := fs\<rparr>"

lemma demo_set_runs:
  assumes "map_of fs ''/p/local.yaml'' \<in> {None, Some ''bad''}" and "map_of fs ''/p/snapshot.yaml'' = None"
  shows "\<exists>w1. run_state (client_Set demo_client demo_upd_env key (Jstr ''n'')) (demo_set_world fs) = (Inr (), w1)
     \<and> is_ok (fst (run_state (LoadSnapshotWithMeta demo_client demo_upd_env) w1))"
proof -
  have "Option.bind (json_parse ''bad'') (dec_local_meta (pc_json demo_client)) = None"
    by (simp add: json_parse_def json_space_def p_number_def p_literal_def is_num_char_def is_digit_def valid_number_def HasPrefix_def)
  with assms show ?thesis
    by (auto simp: client_Set_def LoadLocalMeta_def SaveLocalMeta_def LoadSnapshotWithMeta_def ps_LoadSnapshot_def upd_runs demo_env_run demo_client_fields
        demo_set_world_def demo_policy_world_def update_conv')
qed

theorem set_then_get_witness:
  "\<exists>w1. run_state (client_Set demo_client demo_upd_env ''local.server_name'' (Jstr ''n'')) (demo_set_world []) = (Inr (), w1)
     \<and> fst (run_state (client_Get demo_client demo_upd_env ''local.server_name'') w1) = Some (Gstr ''n'')"
proof -
  have k: "''local.'' @ ''server_name'' = ''local.server_name''" by simp
  obtain w1 where w1: "run_state (client_Set demo_client demo_upd_env (''local.'' @ ''server_name'') (Jstr ''n'')) (demo_set_world []) = (Inr (), w1)"
      "is_ok (fst (run_state (LoadSnapshotWithMeta demo_client demo_upd_env) w1))" using demo_set_runs [of "[]"] by fastforce
  obtain w' where l: "run_state (LoadLocalMeta demo_client demo_upd_env) (demo_set_world []) = (Inr empty_meta, w')"
    by (simp add: LoadLocalMeta_def upd_runs demo_env_run demo_client_fields demo_set_world_def demo_policy_world_def)
  have "readable ''server_name'' (Jstr ''n'')" by (simp add: readable_def meta_key_of_def meta_keys_def)
  from set_then_get [OF l w1(1) _ _ this w1(2)] w1(1) show ?thesis by (simp add: demo_set_meta demo_client_fields)
qed

theorem set_without_prefix_is_not_found_witness:
  "\<exists>w1. run_state (client_Set demo_client demo_upd_env ''server_name'' (Jstr ''n'')) (demo_set_world []) = (Inr (), w1)
     \<and> fst (run_state (client_Get demo_client demo_upd_env ''server_name'') w1) = None"
proof -
  obtain w1 where w1: "run_state (client_Set demo_client demo_upd_env ''server_name'' (Jstr ''n'')) (demo_set_world []) = (Inr (), w1)"
      "is_ok (fst (run_state (LoadSnapshotWithMeta demo_client demo_upd_env) w1))" using demo_set_runs [of "[]"] by fastforce
  have l: "\<exists>m w2. run_state (LoadSnapshotWithMeta demo_client demo_upd_env) w1 = (Inr (\<lparr>ps_Version = 0, ps_Payload = Jobj [], ps_Hash = [], ps_Timestamp = 0, ps_ServerID = [], ps_ConfigVersion = 0\<rparr>, m), w2)"
    using w1(1) by (auto simp: client_Set_def LoadLocalMeta_def SaveLocalMeta_def LoadSnapshotWithMeta_def ps_LoadSnapshot_def upd_runs demo_env_run demo_client_fields
        demo_set_world_def demo_policy_world_def update_conv')
  then obtain m w2 where "run_state (LoadSnapshotWithMeta demo_client demo_upd_env) w1 = (Inr (\<lparr>ps_Version = 0, ps_Payload = Jobj [], ps_Hash = [], ps_Timestamp = 0, ps_ServerID = [], ps_ConfigVersion = 0\<rparr>, m), w2)" by blast
  from set_without_prefix_is_not_found [OF w1(1) this] w1(1) show ?thesis by (simp add: local_key_def payload_map_def getNestedValue_def)
qed

theorem set_after_read_error_forgets_witness:
  "\<exists>w1. run_state (client_Set demo_client demo_upd_env ''server_name'' (Jstr ''n'')) (demo_set_world [(''/p/local.yaml'', ''bad'')]) = (Inr (), w1)
     \<and> fst (run_state (client_Get demo_client demo_upd_env ''local.auth.token'') w1) = None"
proof -
  let ?w = "demo_set_world [(''/p/local.yaml'', ''bad'')]"
  obtain w1 where w1: "run_state (client_Set demo_client demo_upd_env ''server_name'' (Jstr ''n'')) ?w = (Inr (), w1)"
      "is_ok (fst (run_state (LoadSnapshotWithMeta demo_client demo_upd_env) w1))" using demo_set_runs [of "[(''/p/local.yaml'', ''bad'')]"] by fastforce
  have "Option.bind (json_parse ''bad'') (dec_local_meta (pc_json demo_client)) = None"
    by (simp add: json_parse_def json_space_def p_number_def p_literal_def is_num_char_def is_digit_def valid_number_def HasPrefix_def)
  then obtain e w' where l: "run_state (LoadLocalMeta demo_client demo_upd_env) ?w = (Inl e, w')"
    by (simp add: LoadLocalMeta_def upd_runs demo_env_run demo_client_fields demo_set_world_def demo_policy_world_def)
  have p: "plain_key ''server_name'' = ''server_name''" by (simp add: plain_key_def local_key_def)
  from set_after_read_error_forgets [OF l w1(1) _ _ w1(2)] w1(1) show ?thesis unfolding p demo_set_meta by (simp add: demo_client_fields)
qed

end
