(* ===== verification/Membership.thy ===== *)
theory Membership
  imports Raft_Node
begin

text \<open>
  Cluster membership, \<open>internal/raft/membership.go\<close>, with \<open>GetConfiguration\<close> and
  \<open>LeadershipTransfer\<close> of \<open>internal/raft/node.go\<close>. The configuration lives in the
  consensus library: it is a list of servers in the state, and the calls that change it are
  the parameter \<open>L :: raft_lib\<close>. \<open>lib_other\<close> is what other clients of the library change
  between two calls of ours. \<open>raft_lib_ok\<close> states the documented behaviour: a change that
  succeeds adds or removes exactly the given server; one that fails may have been applied
  or not. An \<open>EventPublisher\<close> only appends to the list of published events.
\<close>

subsection \<open>The library and the state\<close>

type_synonym servers = "(string \<times> string \<times> ServerSuffrage) list"

record raft_lib =
  lib_AddVoter :: "nat \<Rightarrow> string \<Rightarrow> string \<Rightarrow> servers \<Rightarrow> raft_err option \<times> servers"
  lib_AddNonvoter :: "nat \<Rightarrow> string \<Rightarrow> string \<Rightarrow> servers \<Rightarrow> raft_err option \<times> servers"
  lib_RemoveServer :: "nat \<Rightarrow> string \<Rightarrow> servers \<Rightarrow> raft_err option \<times> servers"
  lib_GetConfiguration :: "nat \<Rightarrow> raft_err option"
  lib_LeadershipTransfer :: "nat \<Rightarrow> raft_err option"
  lib_other :: "nat \<Rightarrow> servers \<Rightarrow> servers"

datatype member_event =
    MemberJoined string "string list" "(string \<times> string) list"
  | MemberLeft string string
  | MemberUpdated string "string list" "(string \<times> string) list" string

record Cluster =
  cl_node :: Node
  cl_servers :: servers
  cl_calls :: nat
  cl_publisher :: bool
  cl_events :: "member_event list"

type_synonym 'a member_action = "(Cluster, 'a) state"

abbreviation mret :: "'a \<Rightarrow> 'a member_action" where
  "mret \<equiv> State_Monad.return"

definition on_node :: "'a action \<Rightarrow> 'a member_action" where
  "on_node m = State (\<lambda>c. let (x, n) = run_state m (cl_node c) in (x, c\<lparr>cl_node := n\<rparr>))"

definition lib_call :: "raft_lib \<Rightarrow> (nat \<Rightarrow> servers \<Rightarrow> 'a \<times> servers) \<Rightarrow> 'a member_action" where
  "lib_call L f = State (\<lambda>c.
     let (x, srv) = f (cl_calls c) (lib_other L (cl_calls c) (cl_servers c))
     in (x, c\<lparr>cl_servers := srv, cl_calls := Suc (cl_calls c)\<rparr>))"

text \<open>\<open>m.eventPublisher != nil\<close>, and the call, whose error is only logged.\<close>

definition publish :: "member_event \<Rightarrow> unit member_action" where
  "publish ev = State (\<lambda>c. ((), if cl_publisher c then c\<lparr>cl_events := cl_events c @ [ev]\<rparr> else c))"

subsection \<open>node.go\<close>

definition node_info :: "string \<Rightarrow> string \<times> string \<times> ServerSuffrage \<Rightarrow> string \<times> NodeInfo" where
  "node_info leaderAddr = (\<lambda>(i, addr, suffrage).
     (i, \<lparr>info_ID = i, info_Address = addr,
          info_Role = (if suffrage = Nonvoter then RoleLearner
                       else if addr = leaderAddr then RoleLeader else RoleFollower),
          info_Suffrage = suffrage, info_LastContact = 0, info_IsLeader = (addr = leaderAddr)\<rparr>))"

text \<open>Filling the map in the order of the servers, a repeated identifier overwrites.\<close>

definition config_nodes :: "string \<Rightarrow> servers \<Rightarrow> (string, NodeInfo) gomap" where
  "config_nodes leaderAddr srv =
     fold (\<lambda>sv m. AList.update (fst (node_info leaderAddr sv)) (snd (node_info leaderAddr sv)) m) srv []"

definition GetConfiguration :: "raft_env \<Rightarrow> raft_lib \<Rightarrow> (raft_err, ClusterConfig) result member_action" where
  "GetConfiguration R L = do {
     c \<leftarrow> State_Monad.get;
     if \<not> node_started (cl_node c) then mret (Inl (Errorf ''raft not initialized''))
     else do {
       r \<leftarrow> lib_call L (\<lambda>i srv. ((lib_GetConfiguration L i, srv), srv));
       case fst r of
         Some e \<Rightarrow> mret (Inl (Wrapf ''failed to get configuration'' e))
       | None \<Rightarrow> do {
           ob \<leftarrow> on_node (observe R);
           mret (Inr \<lparr>cc_Nodes = config_nodes (ob_leader_addr ob) (snd r),
                      cc_MaintenanceMode = node_maintenanceMode (cl_node c)\<rparr>)
         }
     }
   }"

text \<open>The target is not used.\<close>

definition LeadershipTransfer :: "raft_env \<Rightarrow> raft_lib \<Rightarrow> string \<Rightarrow> string \<Rightarrow> raft_err option member_action" where
  "LeadershipTransfer R L targetID targetAddr = do {
     leader \<leftarrow> on_node (IsLeader R);
     if \<not> leader then mret (Some ErrNotLeader)
     else lib_call L (\<lambda>i srv. (lib_LeadershipTransfer L i, srv))
   }"

definition IsMaintenanceMode :: "bool member_action" where
  "IsMaintenanceMode = do { c \<leftarrow> State_Monad.get; mret (node_maintenanceMode (cl_node c)) }"

subsection \<open>membership.go\<close>

definition countVoters :: "ClusterConfig \<Rightarrow> nat" where
  "countVoters config = foldl (\<lambda>count (k, node). if info_Suffrage node = Voter then count + 1 else count) 0 (cc_Nodes config)"

definition AddNode :: "raft_env \<Rightarrow> raft_lib \<Rightarrow> string \<Rightarrow> string \<Rightarrow> raft_err option member_action" where
  "AddNode R L nodeID address = do {
     leader \<leftarrow> on_node (IsLeader R);
     if \<not> leader then mret (Some ErrNotLeader)
     else do {
       r \<leftarrow> GetConfiguration R L;
       case r of
         Inl e \<Rightarrow> mret (Some e)
       | Inr config \<Rightarrow>
           (if map_of (cc_Nodes config) nodeID \<noteq> None then mret (Some ErrNodeAlreadyExists)
            else let suffrage = (if countVoters config < 3 then Voter else Nonvoter) in do {
              f \<leftarrow> (if suffrage = Voter then lib_call L (\<lambda>i. lib_AddVoter L i nodeID address)
                   else lib_call L (\<lambda>i. lib_AddNonvoter L i nodeID address));
              case f of
                Some e \<Rightarrow> mret (Some (Wrapf ''failed to add node'' e))
              | None \<Rightarrow> do {
                  publish (MemberJoined nodeID [address]
                    [(''role'', if suffrage = Nonvoter then ''learner'' else ''voter'')]);
                  mret None
                }
            })
     }
   }"

definition RemoveNode :: "raft_env \<Rightarrow> raft_lib \<Rightarrow> string \<Rightarrow> raft_err option member_action" where
  "RemoveNode R L nodeID = do {
     leader \<leftarrow> on_node (IsLeader R);
     if \<not> leader then mret (Some ErrNotLeader)
     else do {
       r \<leftarrow> GetConfiguration R L;
       case r of
         Inl e \<Rightarrow> mret (Some e)
       | Inr config \<Rightarrow>
           (case map_of (cc_Nodes config) nodeID of
              None \<Rightarrow> mret (Some ErrNodeNotFound)
            | Some nodeInfo \<Rightarrow>
                if info_Suffrage nodeInfo = Voter \<and> countVoters config \<le> 1
                then mret (Some ErrInsufficientVoters)
                else do {
                  f \<leftarrow> lib_call L (\<lambda>i. lib_RemoveServer L i nodeID);
                  case f of
                    Some e \<Rightarrow> mret (Some (Wrapf ''failed to remove node'' e))
                  | None \<Rightarrow> do { publish (MemberLeft nodeID ''removed_from_cluster''); mret None }
                })
     }
   }"

definition PromoteNode :: "raft_env \<Rightarrow> raft_lib \<Rightarrow> string \<Rightarrow> raft_err option member_action" where
  "PromoteNode R L nodeID = do {
     leader \<leftarrow> on_node (IsLeader R);
     if \<not> leader then mret (Some ErrNotLeader)
     else do {
       maintenance \<leftarrow> IsMaintenanceMode;
       if \<not> maintenance then mret (Some ErrMaintenanceModeRequired)
       else do {
         r \<leftarrow> GetConfiguration R L;
         case r of
           Inl e \<Rightarrow> mret (Some e)
         | Inr config \<Rightarrow>
             (case map_of (cc_Nodes config) nodeID of
                None \<Rightarrow> mret (Some ErrNodeNotFound)
              | Some nodeInfo \<Rightarrow>
                  if info_Suffrage nodeInfo = Voter then mret (Some (Errorf ''node is already a voter''))
                  else if countVoters config \<ge> 3
                  then mret (Some (RaftError ''max_voters_reached'' ''cluster already has maximum of 3 voters''))
                  else do {
                    f \<leftarrow> lib_call L (\<lambda>i. lib_AddVoter L i nodeID (info_Address nodeInfo));
                    case f of
                      Some e \<Rightarrow> mret (Some (Wrapf ''failed to promote node'' e))
                    | None \<Rightarrow> do { publish (MemberUpdated nodeID [] [(''role'', ''voter'')] []); mret None }
                  })
       }
     }
   }"

definition DemoteNode :: "raft_env \<Rightarrow> raft_lib \<Rightarrow> string \<Rightarrow> raft_err option member_action" where
  "DemoteNode R L nodeID = do {
     leader \<leftarrow> on_node (IsLeader R);
     if \<not> leader then mret (Some ErrNotLeader)
     else do {
       maintenance \<leftarrow> IsMaintenanceMode;
       if \<not> maintenance then mret (Some ErrMaintenanceModeRequired)
       else do {
         r \<leftarrow> GetConfiguration R L;
         case r of
           Inl e \<Rightarrow> mret (Some e)
         | Inr config \<Rightarrow>
             (case map_of (cc_Nodes config) nodeID of
                None \<Rightarrow> mret (Some ErrNodeNotFound)
              | Some nodeInfo \<Rightarrow>
                  if info_Suffrage nodeInfo = Nonvoter then mret (Some (Errorf ''node is already a learner''))
                  else if countVoters config \<le> 1 then mret (Some ErrInsufficientVoters)
                  else do {
                    f \<leftarrow> lib_call L (\<lambda>i. lib_RemoveServer L i nodeID);
                    case f of
                      Some e \<Rightarrow> mret (Some (Wrapf ''failed to remove node during demotion'' e))
                    | None \<Rightarrow> do {
                        g \<leftarrow> lib_call L (\<lambda>i. lib_AddNonvoter L i nodeID (info_Address nodeInfo));
                        case g of
                          Some e \<Rightarrow> do {
                            _ \<leftarrow> lib_call L (\<lambda>i. lib_AddVoter L i nodeID (info_Address nodeInfo));
                            mret (Some (Wrapf ''failed to re-add node as learner'' e))
                          }
                        | None \<Rightarrow> do { publish (MemberUpdated nodeID [] [(''role'', ''learner'')] []); mret None }
                      }
                  })
       }
     }
   }"

definition EnableMaintenanceMode :: "raft_env \<Rightarrow> raft_err option member_action" where
  "EnableMaintenanceMode R = on_node (SetMaintenanceMode R True)"

definition DisableMaintenanceMode :: "raft_env \<Rightarrow> raft_err option member_action" where
  "DisableMaintenanceMode R = on_node (SetMaintenanceMode R False)"

definition TransferLeadership :: "raft_env \<Rightarrow> raft_lib \<Rightarrow> string \<Rightarrow> raft_err option member_action" where
  "TransferLeadership R L targetNodeID = do {
     leader \<leftarrow> on_node (IsLeader R);
     if \<not> leader then mret (Some ErrNotLeader)
     else do {
       r \<leftarrow> GetConfiguration R L;
       case r of
         Inl e \<Rightarrow> mret (Some e)
       | Inr config \<Rightarrow>
           (case map_of (cc_Nodes config) targetNodeID of
              None \<Rightarrow> mret (Some ErrNodeNotFound)
            | Some targetNode \<Rightarrow>
                if info_Suffrage targetNode \<noteq> Voter
                then mret (Some (RaftError ''not_voter'' ''target node must be a voter to receive leadership''))
                else do {
                  f \<leftarrow> LeadershipTransfer R L targetNodeID (info_Address targetNode);
                  mret (map_option (Wrapf ''failed to transfer leadership'') f)
                })
     }
   }"

text \<open>The polling loop; every reading of the clock is an observation. Out of fuel is
  \<open>None\<close>.\<close>

fun wait_sync_loop :: "nat \<Rightarrow> raft_env \<Rightarrow> raft_lib \<Rightarrow> string \<Rightarrow> int \<Rightarrow> raft_err option option member_action" where
  "wait_sync_loop 0 R L nodeID deadline = mret None"
| "wait_sync_loop (Suc fuel) R L nodeID deadline = do {
     ob \<leftarrow> on_node (observe R);
     if \<not> ob_now ob < deadline
     then mret (Some (Some (Errorf (''timeout waiting for node '' @ nodeID @ '' to sync''))))
     else do {
       r \<leftarrow> GetConfiguration R L;
       case r of
         Inl e \<Rightarrow> mret (Some (Some e))
       | Inr config \<Rightarrow>
           (if map_of (cc_Nodes config) nodeID \<noteq> None then mret (Some None)
            else wait_sync_loop fuel R L nodeID deadline)
     }
   }"

definition WaitForNodeSync ::
  "nat \<Rightarrow> raft_env \<Rightarrow> raft_lib \<Rightarrow> string \<Rightarrow> int \<Rightarrow> raft_err option option member_action" where
  "WaitForNodeSync fuel R L nodeID timeout = do {
     ob \<leftarrow> on_node (observe R);
     wait_sync_loop fuel R L nodeID (ob_now ob + timeout)
   }"

definition GetNodeStatus :: "raft_env \<Rightarrow> raft_lib \<Rightarrow> string \<Rightarrow> (raft_err, NodeInfo) result member_action" where
  "GetNodeStatus R L nodeID = do {
     r \<leftarrow> GetConfiguration R L;
     mret (case r of
             Inl e \<Rightarrow> Inl e
           | Inr config \<Rightarrow> (case map_of (cc_Nodes config) nodeID of None \<Rightarrow> Inl ErrNodeNotFound | Some i \<Rightarrow> Inr i))
   }"

definition ListNodes :: "raft_env \<Rightarrow> raft_lib \<Rightarrow> (raft_err, NodeInfo list) result member_action" where
  "ListNodes R L = do {
     r \<leftarrow> GetConfiguration R L;
     mret (case r of Inl e \<Rightarrow> Inl e | Inr config \<Rightarrow> Inr (map snd (cc_Nodes config)))
   }"

definition AddNodeAsLearner :: "raft_env \<Rightarrow> raft_lib \<Rightarrow> string \<Rightarrow> string \<Rightarrow> raft_err option member_action" where
  "AddNodeAsLearner R L nodeID address = do {
     leader \<leftarrow> on_node (IsLeader R);
     if \<not> leader then mret (Some ErrNotLeader)
     else do {
       r \<leftarrow> GetConfiguration R L;
       case r of
         Inl e \<Rightarrow> mret (Some e)
       | Inr config \<Rightarrow>
           (if map_of (cc_Nodes config) nodeID \<noteq> None then mret (Some ErrNodeAlreadyExists)
            else do {
              f \<leftarrow> lib_call L (\<lambda>i. lib_AddNonvoter L i nodeID address);
              mret (map_option (Wrapf ''failed to add node as learner'') f)
            })
     }
   }"

subsection \<open>Sequences of calls\<close>

datatype member_op =
    MAdd string string | MRemove string | MPromote string | MDemote string
  | MMaintenance bool | MTransfer string | MAddLearner string string | MStatus string | MList

fun exec_member_op :: "raft_env \<Rightarrow> raft_lib \<Rightarrow> member_op \<Rightarrow> unit member_action" where
  "exec_member_op R L (MAdd i a) = do { _ \<leftarrow> AddNode R L i a; mret () }"
| "exec_member_op R L (MRemove i) = do { _ \<leftarrow> RemoveNode R L i; mret () }"
| "exec_member_op R L (MPromote i) = do { _ \<leftarrow> PromoteNode R L i; mret () }"
| "exec_member_op R L (MDemote i) = do { _ \<leftarrow> DemoteNode R L i; mret () }"
| "exec_member_op R L (MMaintenance b) =
     do { _ \<leftarrow> (if b then EnableMaintenanceMode R else DisableMaintenanceMode R); mret () }"
| "exec_member_op R L (MTransfer i) = do { _ \<leftarrow> TransferLeadership R L i; mret () }"
| "exec_member_op R L (MAddLearner i a) = do { _ \<leftarrow> AddNodeAsLearner R L i a; mret () }"
| "exec_member_op R L (MStatus i) = do { _ \<leftarrow> GetNodeStatus R L i; mret () }"
| "exec_member_op R L MList = do { _ \<leftarrow> ListNodes R L; mret () }"

subsection \<open>The documented behaviour of the library\<close>

definition voter_ids :: "servers \<Rightarrow> string set" where
  "voter_ids srv = {i. \<exists>a. map_of srv i = Some (a, Voter)}"

definition applied_or_failed ::
  "raft_err option \<times> servers \<Rightarrow> servers \<Rightarrow> (string \<rightharpoonup> string \<times> ServerSuffrage) \<Rightarrow> bool" where
  "applied_or_failed r srv m \<longleftrightarrow>
     distinct (map fst (snd r)) \<and> (map_of (snd r) = m \<or> (fst r \<noteq> None \<and> snd r = srv))"

text \<open>
  \<open>AddVoter\<close> makes the server a voter, \<open>AddNonvoter\<close> adds a server without a vote and only
  updates the address of a known one, \<open>RemoveServer\<close> removes it.
\<close>

definition raft_lib_ok :: "raft_lib \<Rightarrow> bool" where
  "raft_lib_ok L \<longleftrightarrow>
     (\<forall>n i a srv. distinct (map fst srv) \<longrightarrow>
        applied_or_failed (lib_AddVoter L n i a srv) srv ((map_of srv)(i \<mapsto> (a, Voter)))
        \<and> applied_or_failed (lib_AddNonvoter L n i a srv) srv
            ((map_of srv)(i \<mapsto> (a, case map_of srv i of None \<Rightarrow> Nonvoter | Some (_, sf) \<Rightarrow> sf)))
        \<and> applied_or_failed (lib_RemoveServer L n i srv) srv ((map_of srv)(i := None)))"

text \<open>No other client of the library changes the configuration.\<close>

definition alone :: "raft_lib \<Rightarrow> bool" where
  "alone L \<longleftrightarrow> (\<forall>n srv. lib_other L n srv = srv)"

text \<open>A concrete library, for the witnesses: it always succeeds.\<close>

definition demo_lib :: raft_lib where
  "demo_lib = \<lparr>lib_AddVoter = (\<lambda>n i a srv. (None, AList.update i (a, Voter) srv)),
     lib_AddNonvoter = (\<lambda>n i a srv. (None, AList.update i
        (a, case map_of srv i of None \<Rightarrow> Nonvoter | Some (_, sf) \<Rightarrow> sf) srv)),
     lib_RemoveServer = (\<lambda>n i srv. (None, AList.delete i srv)),
     lib_GetConfiguration = (\<lambda>n. None), lib_LeadershipTransfer = (\<lambda>n. None),
     lib_other = (\<lambda>n srv. srv)\<rparr>"

text \<open>The same library while another client adds a voter before its second call.\<close>

definition race_lib :: raft_lib where
  "race_lib = demo_lib\<lparr>lib_other := (\<lambda>n srv. if n = 1 then AList.update ''n9'' (''a9'', Voter) srv else srv)\<rparr>"

text \<open>The same library when adding servers fails after a server was removed.\<close>

definition failing_lib :: raft_lib where
  "failing_lib = demo_lib\<lparr>lib_AddVoter := (\<lambda>n i a srv. (Some ErrNoQuorum, srv)),
                          lib_AddNonvoter := (\<lambda>n i a srv. (Some ErrNoQuorum, srv))\<rparr>"

definition demo_cluster :: "nat \<Rightarrow> Cluster" where
  "demo_cluster k = \<lparr>cl_node = demo_node\<lparr>node_maintenanceMode := True\<rparr>,
     cl_servers = take k [(''n1'', ''a1'', Voter), (''n2'', ''a2'', Voter), (''n3'', ''a3'', Voter)],
     cl_calls = 0, cl_publisher = True, cl_events = []\<rparr>"

subsection \<open>The abstract machine of configurations\<close>

definition servers_ok :: "servers \<Rightarrow> bool" where
  "servers_ok srv \<longleftrightarrow> distinct (map fst srv) \<and> (\<forall>i a. map_of srv i \<noteq> Some (a, Staging))
     \<and> 1 \<le> card (voter_ids srv) \<and> card (voter_ids srv) \<le> 3"

text \<open>What may happen to a configuration: a server joins as a voter while there are fewer than
  three, a server joins without a vote, a server that is not the last voter leaves.\<close>

inductive member_step :: "servers \<Rightarrow> servers \<Rightarrow> bool" where
  join_voter: "distinct (map fst srv') \<Longrightarrow> card (voter_ids srv) < 3 \<Longrightarrow>
     map_of srv' = (map_of srv)(i \<mapsto> (a, Voter)) \<Longrightarrow> member_step srv srv'"
| join_learner: "distinct (map fst srv') \<Longrightarrow> i \<notin> voter_ids srv \<Longrightarrow>
     map_of srv' = (map_of srv)(i \<mapsto> (a, Nonvoter)) \<Longrightarrow> member_step srv srv'"
| leave: "distinct (map fst srv') \<Longrightarrow> (i \<in> voter_ids srv \<longrightarrow> 1 < card (voter_ids srv)) \<Longrightarrow>
     map_of srv' = (map_of srv)(i := None) \<Longrightarrow> member_step srv srv'"

inductive_cases member_stepE: "member_step srv srv'"

abbreviation member_steps :: "servers \<Rightarrow> servers \<Rightarrow> bool" where
  "member_steps \<equiv> member_step\<^sup>*\<^sup>*"

subsection \<open>Lemmas: voters\<close>

declare map_of_eq_Some_iff [simp del]

lemma finite_voter_ids [simp]: "finite (voter_ids srv)"
  by (rule finite_subset [OF _ finite_dom_map_of [of srv]]) (auto simp: voter_ids_def)

lemma voter_ids_upd:
  "map_of srv' = (map_of srv)(i \<mapsto> (a, sf)) \<Longrightarrow>
     voter_ids srv' = (if sf = Voter then insert i (voter_ids srv) else voter_ids srv - {i})"
  by (auto simp: voter_ids_def)

lemma voter_ids_del: "map_of srv' = (map_of srv)(i := None) \<Longrightarrow> voter_ids srv' = voter_ids srv - {i}"
  by (auto simp: voter_ids_def)

lemma member_step_ok:
  assumes "member_step srv srv'" and "servers_ok srv"
  shows "servers_ok srv'"
  using assms(1)
proof cases
  case (join_voter i a)
  have v: "voter_ids srv' = insert i (voter_ids srv)" using voter_ids_upd [OF join_voter(3)] by simp
  have "card (insert i (voter_ids srv)) \<le> 3" "1 \<le> card (insert i (voter_ids srv))"
    using join_voter(2) assms(2) by (simp_all add: card_insert_if servers_ok_def)
  with v join_voter assms(2) show ?thesis by (auto simp: servers_ok_def)
next
  case (join_learner i a)
  have "voter_ids srv' = voter_ids srv" using voter_ids_upd [OF join_learner(3)] join_learner(2) by simp
  with join_learner assms(2) show ?thesis by (auto simp: servers_ok_def)
next
  case (leave i)
  have v: "voter_ids srv' = voter_ids srv - {i}" using voter_ids_del [OF leave(3)] .
  have "card (voter_ids srv - {i}) \<le> 3" "1 \<le> card (voter_ids srv - {i})"
    using leave(2) assms(2) by (auto simp: servers_ok_def card_Diff_singleton_if)
  with v leave assms(2) show ?thesis by (auto simp: servers_ok_def)
qed

lemma member_steps_ok: "member_steps srv srv' \<Longrightarrow> servers_ok srv \<Longrightarrow> servers_ok srv'"
  by (induction rule: rtranclp_induct) (auto intro: member_step_ok)

text \<open>The map of the configuration shows the servers as they are.\<close>

lemma node_info_fst [simp]: "fst (node_info l sv) = fst sv"
  by (cases sv) (simp add: node_info_def)

lemma node_info_snd [simp]:
  "info_Address (snd (node_info l (i, a, sf))) = a" "info_Suffrage (snd (node_info l (i, a, sf))) = sf"
  by (simp_all add: node_info_def)

lemma config_nodes_eq:
  assumes "distinct (map fst srv)"
  shows "config_nodes l srv = map (node_info l) srv"
proof -
  have "fold (\<lambda>sv m. AList.update (fst (node_info l sv)) (snd (node_info l sv)) m) srv acc
      = acc @ map (node_info l) srv"
    if "distinct (map fst acc @ map fst srv)" for acc
    using that assms
  proof (induction srv arbitrary: acc)
    case (Cons sv srv)
    have "fst sv \<notin> fst ` set acc" using Cons.prems(1) by auto
    then have "AList.update (fst sv) (snd (node_info l sv)) acc = acc @ [node_info l sv]"
      using gm_update_new by (metis node_info_fst prod.collapse)
    with Cons.IH [of "acc @ [node_info l sv]"] Cons.prems show ?case by simp
  qed simp
  from this [of "[]"] assms show ?thesis by (simp add: config_nodes_def)
qed

lemma map_of_node_info:
  "map_of (map (node_info l) srv) i = map_option (\<lambda>(a, sf). snd (node_info l (i, a, sf))) (map_of srv i)"
  by (induction srv) (auto simp: node_info_def)

lemma voters_listed:
  "distinct (map fst srv) \<Longrightarrow>
     length (filter (\<lambda>sv. snd (snd sv) = Voter) srv) = card (voter_ids srv)"
proof -
  assume d: "distinct (map fst srv)"
  let ?vs = "filter (\<lambda>sv. snd (snd sv) = Voter) srv"
  have "voter_ids srv = fst ` set ?vs"
    using d by (force simp: voter_ids_def gm_lookup_iff)
  moreover have "card (fst ` set ?vs) = length (map fst ?vs)"
    using distinct_card [OF distinct_map_filter [OF d]] by simp
  ultimately show ?thesis by simp
qed

lemma countVoters_servers:
  assumes "distinct (map fst srv)"
  shows "countVoters \<lparr>cc_Nodes = map (node_info l) srv, cc_MaintenanceMode = b\<rparr> = card (voter_ids srv)"
proof -
  have "foldl (\<lambda>count (k, node). if info_Suffrage node = Voter then count + 1 else count) n (map (node_info l) srv)
      = n + length (filter (\<lambda>sv. snd (snd sv) = Voter) srv)" for n :: nat
    by (induction srv arbitrary: n) (auto simp: node_info_def)
  with voters_listed [OF assms] show ?thesis by (simp add: countVoters_def)
qed

subsection \<open>Lemmas: the calls\<close>

lemma run_on_node:
  "run_state (on_node m) c = (fst (run_state m (cl_node c)), c\<lparr>cl_node := snd (run_state m (cl_node c))\<rparr>)"
  by (simp add: on_node_def split: prod.split)

lemma run_lib_call:
  "alone L \<Longrightarrow> run_state (lib_call L f) c =
     (fst (f (cl_calls c) (cl_servers c)),
      c\<lparr>cl_servers := snd (f (cl_calls c) (cl_servers c)), cl_calls := Suc (cl_calls c)\<rparr>)"
  by (simp add: lib_call_def alone_def split: prod.split)

lemma run_publish:
  "run_state (publish ev) c = ((), c\<lparr>cl_events := (if cl_publisher c then cl_events c @ [ev] else cl_events c)\<rparr>)"
  by (simp add: publish_def)

lemma GetConfiguration_alone:
  assumes "alone L" and "distinct (map fst (cl_servers c))"
  shows "\<exists>r c'. run_state (GetConfiguration R L) c = (r, c') \<and> cl_servers c' = cl_servers c
       \<and> (\<forall>config. r = Inr config \<longrightarrow>
            (\<forall>i. map_of (cc_Nodes config) i = None \<longleftrightarrow> map_of (cl_servers c) i = None)
            \<and> (\<forall>i n. map_of (cc_Nodes config) i = Some n \<longrightarrow>
                 map_of (cl_servers c) i = Some (info_Address n, info_Suffrage n))
            \<and> countVoters config = card (voter_ids (cl_servers c)))"
  using assms
  by (auto simp: GetConfiguration_def run_lib_call run_on_node config_nodes_eq countVoters_servers map_of_node_info
      split: option.split)

lemma lib_voter:
  assumes "raft_lib_ok L" and "distinct (map fst srv)" and "card (voter_ids srv) < 3"
  shows "member_steps srv (snd (lib_AddVoter L n i a srv))"
proof -
  have "applied_or_failed (lib_AddVoter L n i a srv) srv ((map_of srv)(i \<mapsto> (a, Voter)))"
    using assms(1,2) unfolding raft_lib_ok_def by blast
  then show ?thesis using assms(3) by (auto simp: applied_or_failed_def intro: r_into_rtranclp join_voter)
qed

lemma lib_nonvoter:
  assumes "raft_lib_ok L" and "distinct (map fst srv)" and "map_of srv i = None"
  shows "member_steps srv (snd (lib_AddNonvoter L n i a srv))"
proof -
  have "applied_or_failed (lib_AddNonvoter L n i a srv) srv ((map_of srv)(i \<mapsto> (a, Nonvoter)))"
    using assms(1) [unfolded raft_lib_ok_def, rule_format, OF assms(2), of n i a] assms(3) by simp
  moreover have "i \<notin> voter_ids srv" using assms(3) by (simp add: voter_ids_def)
  ultimately show ?thesis by (auto simp: applied_or_failed_def intro: r_into_rtranclp join_learner)
qed

lemma lib_remove:
  assumes "raft_lib_ok L" and "distinct (map fst srv)" and "i \<in> voter_ids srv \<longrightarrow> 1 < card (voter_ids srv)"
  shows "member_steps srv (snd (lib_RemoveServer L n i srv))"
proof -
  have "applied_or_failed (lib_RemoveServer L n i srv) srv ((map_of srv)(i := None))"
    using assms(1,2) unfolding raft_lib_ok_def by blast
  then show ?thesis using assms(3) leave [of "snd (lib_RemoveServer L n i srv)" i srv]
    by (auto simp: applied_or_failed_def intro: r_into_rtranclp)
qed

text \<open>Every call begins with the leadership test and a reading of the configuration.\<close>

definition config_shows :: "Cluster \<Rightarrow> ClusterConfig \<Rightarrow> bool" where
  "config_shows c config \<longleftrightarrow>
     (\<forall>i. map_of (cc_Nodes config) i = None \<longrightarrow> map_of (cl_servers c) i = None)
     \<and> (\<forall>i n. map_of (cc_Nodes config) i = Some n \<longrightarrow>
          map_of (cl_servers c) i = Some (info_Address n, info_Suffrage n))
     \<and> countVoters config = card (voter_ids (cl_servers c))"

lemma config_read:
  assumes "alone L" and "distinct (map fst (cl_servers c))"
  obtains r c' where
      "run_state (GetConfiguration R L) (c\<lparr>cl_node := snd (run_state (IsLeader R) (cl_node c))\<rparr>) = (r, c')"
    and "cl_servers c' = cl_servers c" and "\<forall>config. r = Inr config \<longrightarrow> config_shows c config"
  using GetConfiguration_alone [of L "c\<lparr>cl_node := snd (run_state (IsLeader R) (cl_node c))\<rparr>" R] assms
  by (auto simp: config_shows_def)

lemmas member_run = run_on_node run_lib_call run_publish IsMaintenanceMode_def Let_def

lemma AddNode_steps:
  assumes "raft_lib_ok L" and "alone L" and "distinct (map fst (cl_servers c))"
  shows "member_steps (cl_servers c) (cl_servers (snd (run_state (AddNode R L i a) c)))"
proof -
  obtain r c' where g: "run_state (GetConfiguration R L) (c\<lparr>cl_node := snd (run_state (IsLeader R) (cl_node c))\<rparr>) = (r, c')"
      "cl_servers c' = cl_servers c" "\<forall>config. r = Inr config \<longrightarrow> config_shows c config"
    by (rule config_read [OF assms(2,3), of R])
  show ?thesis
    using g assms lib_voter [OF assms(1,3)] lib_nonvoter [OF assms(1,3)]
    by (auto simp: AddNode_def member_run config_shows_def split: sum.split option.split)
qed

lemma AddNodeAsLearner_steps:
  assumes "raft_lib_ok L" and "alone L" and "distinct (map fst (cl_servers c))"
  shows "member_steps (cl_servers c) (cl_servers (snd (run_state (AddNodeAsLearner R L i a) c)))"
proof -
  obtain r c' where g: "run_state (GetConfiguration R L) (c\<lparr>cl_node := snd (run_state (IsLeader R) (cl_node c))\<rparr>) = (r, c')"
      "cl_servers c' = cl_servers c" "\<forall>config. r = Inr config \<longrightarrow> config_shows c config"
    by (rule config_read [OF assms(2,3), of R])
  show ?thesis
    using g assms lib_nonvoter [OF assms(1,3)]
    by (auto simp: AddNodeAsLearner_def member_run config_shows_def split: sum.split option.split)
qed

lemma voter_ids_lookup: "map_of srv i = Some (a, sf) \<Longrightarrow> i \<in> voter_ids srv \<longleftrightarrow> sf = Voter"
  by (simp add: voter_ids_def)

lemma RemoveNode_steps:
  assumes "raft_lib_ok L" and "alone L" and "distinct (map fst (cl_servers c))"
  shows "member_steps (cl_servers c) (cl_servers (snd (run_state (RemoveNode R L i) c)))"
proof -
  obtain r c' where g: "run_state (GetConfiguration R L) (c\<lparr>cl_node := snd (run_state (IsLeader R) (cl_node c))\<rparr>) = (r, c')"
      "cl_servers c' = cl_servers c" "\<forall>config. r = Inr config \<longrightarrow> config_shows c config"
    by (rule config_read [OF assms(2,3), of R])
  show ?thesis
    using g assms lib_remove [OF assms(1,3), of i]
    by (auto simp: RemoveNode_def member_run config_shows_def voter_ids_lookup split: sum.split option.split)
qed

lemma PromoteNode_steps:
  assumes "raft_lib_ok L" and "alone L" and "distinct (map fst (cl_servers c))"
  shows "member_steps (cl_servers c) (cl_servers (snd (run_state (PromoteNode R L i) c)))"
proof -
  obtain r c' where g: "run_state (GetConfiguration R L) (c\<lparr>cl_node := snd (run_state (IsLeader R) (cl_node c))\<rparr>) = (r, c')"
      "cl_servers c' = cl_servers c" "\<forall>config. r = Inr config \<longrightarrow> config_shows c config"
    by (rule config_read [OF assms(2,3), of R])
  show ?thesis
    using g assms lib_voter [OF assms(1,3)]
    by (auto simp: PromoteNode_def member_run config_shows_def split: sum.split option.split)
qed

text \<open>The second half of a demotion starts from a configuration without the server.\<close>

lemma removed_server:
  assumes "raft_lib_ok L" and "servers_ok srv" and "i \<in> voter_ids srv" and "fst (lib_RemoveServer L n i srv) = None"
  shows "map_of (snd (lib_RemoveServer L n i srv)) i = None"
    and "distinct (map fst (snd (lib_RemoveServer L n i srv)))"
    and "card (voter_ids (snd (lib_RemoveServer L n i srv))) < 3"
proof -
  have "distinct (map fst srv)" using assms(2) by (simp add: servers_ok_def)
  then have a: "applied_or_failed (lib_RemoveServer L n i srv) srv ((map_of srv)(i := None))"
    using assms(1) unfolding raft_lib_ok_def by blast
  then have m: "map_of (snd (lib_RemoveServer L n i srv)) = (map_of srv)(i := None)"
    using assms(4) by (simp add: applied_or_failed_def)
  then show "map_of (snd (lib_RemoveServer L n i srv)) i = None" by simp
  show "distinct (map fst (snd (lib_RemoveServer L n i srv)))" using a by (simp add: applied_or_failed_def)
  have "card (voter_ids srv - {i}) < card (voter_ids srv)" using assms(3) by (intro card_Diff1_less) simp_all
  then show "card (voter_ids (snd (lib_RemoveServer L n i srv))) < 3"
    using voter_ids_del [OF m] assms(2) by (simp add: servers_ok_def)
qed

lemma readd_steps:
  assumes "raft_lib_ok L" and "distinct (map fst srv)" and "map_of srv i = None" and "card (voter_ids srv) < 3"
  shows "member_steps srv (snd (lib_AddVoter L k i a (snd (lib_AddNonvoter L n i a srv))))"
proof -
  let ?s = "snd (lib_AddNonvoter L n i a srv)"
  have "applied_or_failed (lib_AddNonvoter L n i a srv) srv ((map_of srv)(i \<mapsto> (a, Nonvoter)))"
    using assms(1) [unfolded raft_lib_ok_def, rule_format, OF assms(2), of n i a] assms(3) by simp
  then have d: "distinct (map fst ?s)" and "voter_ids ?s = voter_ids srv"
    using assms(3) voter_ids_upd [of ?s srv i a Nonvoter] by (auto simp: applied_or_failed_def voter_ids_def [of srv])
  then have "member_steps ?s (snd (lib_AddVoter L k i a ?s))"
    using assms(1,4) by (intro lib_voter) simp_all
  with lib_nonvoter [OF assms(1-3)] show ?thesis by (rule rtranclp_trans)
qed

lemma demotion_steps:
  assumes "raft_lib_ok L" and "servers_ok srv" and "i \<in> voter_ids srv" and "1 < card (voter_ids srv)"
    and "fst (lib_RemoveServer L n i srv) = None"
  shows "member_steps srv (snd (lib_AddNonvoter L k i a (snd (lib_RemoveServer L n i srv))))"
    and "member_steps srv (snd (lib_AddVoter L l i a (snd (lib_AddNonvoter L k i a (snd (lib_RemoveServer L n i srv))))))"
proof -
  note rm = removed_server [OF assms(1-3,5)]
  have d: "distinct (map fst srv)" using assms(2) by (simp add: servers_ok_def)
  have s: "member_steps srv (snd (lib_RemoveServer L n i srv))"
    using assms(4) by (intro lib_remove [OF assms(1) d]) simp
  show "member_steps srv (snd (lib_AddNonvoter L k i a (snd (lib_RemoveServer L n i srv))))"
    by (rule rtranclp_trans [OF s lib_nonvoter [OF assms(1) rm(2,1)]])
  show "member_steps srv (snd (lib_AddVoter L l i a (snd (lib_AddNonvoter L k i a (snd (lib_RemoveServer L n i srv))))))"
    by (rule rtranclp_trans [OF s readd_steps [OF assms(1) rm(2,1,3)]])
qed

lemma DemoteNode_steps:
  assumes "raft_lib_ok L" and "alone L" and "servers_ok (cl_servers c)"
  shows "member_steps (cl_servers c) (cl_servers (snd (run_state (DemoteNode R L i) c)))"
proof -
  have d: "distinct (map fst (cl_servers c))" using assms(3) by (simp add: servers_ok_def)
  obtain r c' where g: "run_state (GetConfiguration R L) (c\<lparr>cl_node := snd (run_state (IsLeader R) (cl_node c))\<rparr>) = (r, c')"
      "cl_servers c' = cl_servers c" "\<forall>config. r = Inr config \<longrightarrow> config_shows c config"
    by (rule config_read [OF assms(2) d, of R])
  have voter: "i \<in> voter_ids (cl_servers c)"
    if "r = Inr config" "map_of (cc_Nodes config) i = Some n" "info_Suffrage n \<noteq> Nonvoter" for config n
  proof -
    have m: "map_of (cl_servers c) i = Some (info_Address n, info_Suffrage n)"
      using g(3) that(1,2) by (simp add: config_shows_def)
    then have "info_Suffrage n \<noteq> Staging" using assms(3) by (auto simp: servers_ok_def)
    with that(3) have "info_Suffrage n = Voter" by (cases "info_Suffrage n") simp_all
    with m show ?thesis by (simp add: voter_ids_lookup)
  qed
  show ?thesis
    using g assms(2) voter demotion_steps [OF assms(1,3)]
      lib_remove [OF assms(1) d, of i]
    by (auto simp: DemoteNode_def member_run config_shows_def voter_ids_lookup
        split: sum.split option.split)
qed

lemma TransferLeadership_servers:
  assumes "alone L" and "distinct (map fst (cl_servers c))"
  shows "cl_servers (snd (run_state (TransferLeadership R L i) c)) = cl_servers c"
proof -
  obtain r c' where g: "run_state (GetConfiguration R L) (c\<lparr>cl_node := snd (run_state (IsLeader R) (cl_node c))\<rparr>) = (r, c')"
      "cl_servers c' = cl_servers c" "\<forall>config. r = Inr config \<longrightarrow> config_shows c config"
    by (rule config_read [OF assms, of R])
  then show ?thesis
    using assms(1)
    by (auto simp: TransferLeadership_def LeadershipTransfer_def member_run split: sum.split option.split)
qed

lemma GetConfiguration_servers:
  assumes "alone L" and "distinct (map fst (cl_servers c))"
  shows "cl_servers (snd (run_state (GetConfiguration R L) c)) = cl_servers c"
  using GetConfiguration_alone [OF assms, of R] by auto

lemma status_servers:
  assumes "alone L" and "distinct (map fst (cl_servers c))"
  shows "cl_servers (snd (run_state (GetNodeStatus R L i) c)) = cl_servers c"
    and "cl_servers (snd (run_state (ListNodes R L) c)) = cl_servers c"
  using GetConfiguration_servers [OF assms, of R]
  by (auto simp: GetNodeStatus_def ListNodes_def split: prod.split)

lemma run_ignore: "snd (run_state (State_Monad.bind m (\<lambda>_. mret ())) c) = snd (run_state m c)"
  by (simp split: prod.split)

lemma exec_member_op_steps:
  assumes "raft_lib_ok L" and "alone L" and "servers_ok (cl_servers c)"
  shows "member_steps (cl_servers c) (cl_servers (snd (run_state (exec_member_op R L op) c)))"
proof -
  have d: "distinct (map fst (cl_servers c))" using assms(3) by (simp add: servers_ok_def)
  show ?thesis
    using AddNode_steps [OF assms(1,2) d] RemoveNode_steps [OF assms(1,2) d] PromoteNode_steps [OF assms(1,2) d]
      DemoteNode_steps [OF assms] AddNodeAsLearner_steps [OF assms(1,2) d]
      TransferLeadership_servers [OF assms(2) d] status_servers [OF assms(2) d]
    by (cases op) (auto simp: run_ignore run_on_node EnableMaintenanceMode_def DisableMaintenanceMode_def
        simp del: State_Monad.run_state_bind)
qed

interpretation cluster_calls: machine "\<lambda>op c. snd (run_state (exec_member_op R L op) c)"
    "\<lambda>c. raft_lib_ok L \<and> alone L \<longrightarrow> servers_ok (cl_servers c)"
  by unfold_locales (auto intro: member_steps_ok [OF exec_member_op_steps])

lemma demo_lib_ok: "raft_lib_ok demo_lib" and demo_lib_alone: "alone demo_lib"
  by (auto simp: raft_lib_ok_def demo_lib_def applied_or_failed_def alone_def split: option.split)

text \<open>A successful demotion, step by step.\<close>

lemma lib_effects:
  assumes "raft_lib_ok L" and "distinct (map fst srv)"
  shows "fst (lib_AddNonvoter L n i a srv) = None \<Longrightarrow> map_of srv i = None \<Longrightarrow>
      map_of (snd (lib_AddNonvoter L n i a srv)) = (map_of srv)(i \<mapsto> (a, Nonvoter))"
    and "fst (lib_RemoveServer L n i srv) = None \<Longrightarrow>
      map_of (snd (lib_RemoveServer L n i srv)) = (map_of srv)(i := None)
      \<and> distinct (map fst (snd (lib_RemoveServer L n i srv)))"
  using assms(1) [unfolded raft_lib_ok_def, rule_format, OF assms(2), of n i a]
  by (simp_all add: applied_or_failed_def)

lemma IsLeader_maintenance [simp]:
  "node_maintenanceMode (snd (run_state (IsLeader R) n)) = node_maintenanceMode n"
  by (simp add: IsLeader_def GetRole_def observe_def Let_def)

lemma DemoteNode_ok_cases:
  assumes "alone L" and "run_state (DemoteNode R L i) c = (None, c')"
    and "run_state (GetConfiguration R L) (c\<lparr>cl_node := snd (run_state (IsLeader R) (cl_node c))\<rparr>) = (r, d)"
  obtains config n srv k j where "r = Inr config" and "map_of (cc_Nodes config) i = Some n"
    and "node_maintenanceMode (cl_node c)"
    and "info_Suffrage n \<noteq> Nonvoter" and "1 < countVoters config"
    and "fst (lib_RemoveServer L k i (cl_servers d)) = None" and "srv = snd (lib_RemoveServer L k i (cl_servers d))"
    and "fst (lib_AddNonvoter L j i (info_Address n) srv) = None"
    and "cl_servers c' = snd (lib_AddNonvoter L j i (info_Address n) srv)"
    and "cl_publisher c' \<longrightarrow> last (cl_events c') = MemberUpdated i [] [(''role'', ''learner'')] []"
  using assms
  by (auto simp: DemoteNode_def member_run not_le split: sum.splits option.splits if_splits)

text \<open>Waiting for a node.\<close>

definition polls_100ms :: "raft_env \<Rightarrow> bool" where
  "polls_100ms R \<longleftrightarrow> (\<forall>k. ob_now (R k) + 100000000 \<le> ob_now (R (k + 2)))"

lemma GetConfiguration_clock:
  "run_state (GetConfiguration R L) c = (Inr config, c') \<Longrightarrow>
     node_clock (cl_node c') = Suc (node_clock (cl_node c))"
  by (auto simp: GetConfiguration_def run_on_node lib_call_def observe_def Let_def
      split: if_splits option.splits prod.splits)

lemma wait_sync_loop_returns:
  assumes "polls_100ms R" and "deadline \<le> ob_now (R (node_clock (cl_node c))) + int k * 100000000"
  shows "\<exists>e. fst (run_state (wait_sync_loop (Suc k) R L i deadline) c) = Some e"
  using assms(2)
proof (induction k arbitrary: c)
  case 0
  then show ?case by (simp add: run_on_node observe_def Let_def)
next
  case (Suc k)
  let ?c = "c\<lparr>cl_node := snd (run_state (observe R) (cl_node c))\<rparr>"
  obtain r c' where g: "run_state (GetConfiguration R L) ?c = (r, c')"
    by (cases "run_state (GetConfiguration R L) ?c")
  have rec: "\<exists>e. fst (run_state (wait_sync_loop (Suc k) R L i deadline) c') = Some e" if "r = Inr config" for config
  proof (rule Suc.IH)
    have "node_clock (cl_node c') = node_clock (cl_node c) + 2"
      using GetConfiguration_clock [OF g [unfolded that]] by (simp add: observe_def Let_def)
    moreover have "ob_now (R (node_clock (cl_node c))) + 100000000 \<le> ob_now (R (node_clock (cl_node c) + 2))"
      using assms(1) by (simp add: polls_100ms_def)
    ultimately show "deadline \<le> ob_now (R (node_clock (cl_node c'))) + int k * 100000000"
      using Suc.prems by simp
  qed
  show ?case
    using g rec by (subst wait_sync_loop.simps(2)) (auto simp: run_on_node simp del: wait_sync_loop.simps split: sum.split)
qed

subsection \<open>Properties\<close>

text \<open>
  C22: as long as one client at a time changes the membership, no sequence of the calls,
  on any node, leader or not, in and out of maintenance mode, with calls of the library
  succeeding, failing, or failing after they took effect, ever leaves the cluster without a
  voter or with more than three, or with a server listed twice.
\<close>

theorem membership_keeps_one_to_three_voters:
  assumes "raft_lib_ok L" and "alone L" and "servers_ok (cl_servers c)"
  shows "servers_ok (cl_servers (fold (\<lambda>op c. snd (run_state (exec_member_op R L op) c)) ops c))"
  using cluster_calls.run_inv [of L c R ops] assms by simp

theorem membership_keeps_one_to_three_voters_witness:
  "let c = fold (\<lambda>op c. snd (run_state (exec_member_op demo_env demo_lib op) c))
             [MAdd ''n4'' ''a4'', MDemote ''n1'', MPromote ''n4'', MRemove ''n2''] (demo_cluster 3)
   in servers_ok (cl_servers c) \<and> cl_servers c = [(''n3'', ''a3'', Voter), (''n4'', ''a4'', Voter), (''n1'', ''a1'', Nonvoter)]"
proof -
  have v: "voter_ids (cl_servers (demo_cluster 3)) = {''n1'', ''n2'', ''n3''}"
    by (auto simp: voter_ids_def demo_cluster_def split: if_splits)
  have ok: "servers_ok (cl_servers (demo_cluster 3))"
    using v by (simp add: servers_ok_def) (simp add: demo_cluster_def)
  have "cl_servers (fold (\<lambda>op c. snd (run_state (exec_member_op demo_env demo_lib op) c))
      [MAdd ''n4'' ''a4'', MDemote ''n1'', MPromote ''n4'', MRemove ''n2''] (demo_cluster 3))
      = [(''n3'', ''a3'', Voter), (''n4'', ''a4'', Voter), (''n1'', ''a1'', Nonvoter)]"
    by code_simp
  with membership_keeps_one_to_three_voters [OF demo_lib_ok demo_lib_alone ok, of demo_env
      "[MAdd ''n4'' ''a4'', MDemote ''n1'', MPromote ''n4'', MRemove ''n2'']"]
  show ?thesis by (simp only: Let_def)
qed

text \<open>
  The limit of three voters is checked against a configuration read earlier. If another
  client's voter is added between the reading and the change, \<open>AddNode\<close> on a cluster with
  two voters reports success and the cluster has four.
\<close>

theorem concurrent_adds_exceed_three_voters:
  "let (e, c) = run_state (AddNode demo_env race_lib ''n4'' ''a4'') (demo_cluster 2)
   in e = None \<and> card (voter_ids (cl_servers c)) = 4 \<and> raft_lib_ok race_lib"
proof -
  have ok: "raft_lib_ok race_lib" using demo_lib_ok by (simp add: raft_lib_ok_def race_lib_def)
  obtain e c where r: "run_state (AddNode demo_env race_lib ''n4'' ''a4'') (demo_cluster 2) = (e, c)"
    by (cases "run_state (AddNode demo_env race_lib ''n4'' ''a4'') (demo_cluster 2)")
  have s: "fst (run_state (AddNode demo_env race_lib ''n4'' ''a4'') (demo_cluster 2)) = None"
    by code_simp
  have "cl_servers (snd (run_state (AddNode demo_env race_lib ''n4'' ''a4'') (demo_cluster 2)))
     = [(''n1'', ''a1'', Voter), (''n2'', ''a2'', Voter), (''n9'', ''a9'', Voter), (''n4'', ''a4'', Voter)]"
    by code_simp
  then have "voter_ids (cl_servers c) = {''n1'', ''n2'', ''n9'', ''n4''}"
    using r by (auto simp: voter_ids_def split: if_splits)
  with r s ok show ?thesis by simp
qed

text \<open>
  A demotion that reports success was made in maintenance mode, of a voter that was not
  the only one; it leaves that server in the configuration, under the same address and
  without a vote, every other server as it was, and announces the new role.
\<close>

theorem demote_success:
  assumes "raft_lib_ok L" and "alone L" and "servers_ok (cl_servers c)"
    and "run_state (DemoteNode R L i) c = (None, c')"
  shows "node_maintenanceMode (cl_node c) \<and> 1 < card (voter_ids (cl_servers c))
       \<and> (\<exists>a. map_of (cl_servers c) i = Some (a, Voter)
            \<and> map_of (cl_servers c') = (map_of (cl_servers c))(i \<mapsto> (a, Nonvoter)))
       \<and> (cl_publisher c' \<longrightarrow> last (cl_events c') = MemberUpdated i [] [(''role'', ''learner'')] [])"
proof -
  have d: "distinct (map fst (cl_servers c))" using assms(3) by (simp add: servers_ok_def)
  obtain r c1 where g: "run_state (GetConfiguration R L) (c\<lparr>cl_node := snd (run_state (IsLeader R) (cl_node c))\<rparr>) = (r, c1)"
      "cl_servers c1 = cl_servers c" "\<forall>config. r = Inr config \<longrightarrow> config_shows c config"
    by (rule config_read [OF assms(2) d, of R])
  obtain config n srv k j where r: "r = Inr config" "map_of (cc_Nodes config) i = Some n"
      "node_maintenanceMode (cl_node c)" "info_Suffrage n \<noteq> Nonvoter" "1 < countVoters config"
      "fst (lib_RemoveServer L k i (cl_servers c1)) = None" "srv = snd (lib_RemoveServer L k i (cl_servers c1))"
      "fst (lib_AddNonvoter L j i (info_Address n) srv) = None"
      "cl_servers c' = snd (lib_AddNonvoter L j i (info_Address n) srv)"
      "cl_publisher c' \<longrightarrow> last (cl_events c') = MemberUpdated i [] [(''role'', ''learner'')] []"
    by (rule DemoteNode_ok_cases [OF assms(2,4) g(1)])
  have m: "map_of (cl_servers c) i = Some (info_Address n, info_Suffrage n)"
    and v: "1 < card (voter_ids (cl_servers c))"
    using g(3) r by (auto simp: config_shows_def)
  have "info_Suffrage n = Voter"
    using m r(4) assms(3) by (cases "info_Suffrage n") (auto simp: servers_ok_def)
  moreover have srv: "map_of srv = (map_of (cl_servers c))(i := None)" "distinct (map fst srv)"
    using lib_effects(2) [OF assms(1) d] r(6,7) g(2) by auto
  moreover have "map_of (cl_servers c') = (map_of srv)(i \<mapsto> (info_Address n, Nonvoter))"
    using lib_effects(1) [OF assms(1) srv(2) r(8)] r(9) srv(1) by simp
  ultimately show ?thesis using m v r(3,10) by simp
qed

theorem demote_success_witness:
  "map_of (cl_servers (snd (run_state (DemoteNode demo_env demo_lib ''n2'') (demo_cluster 3)))) ''n2''
     = Some (''a2'', Nonvoter)"
proof -
  have v: "voter_ids (cl_servers (demo_cluster 3)) = {''n1'', ''n2'', ''n3''}"
    by (auto simp: voter_ids_def demo_cluster_def split: if_splits)
  have ok: "servers_ok (cl_servers (demo_cluster 3))"
    using v by (simp add: servers_ok_def) (simp add: demo_cluster_def)
  have "fst (run_state (DemoteNode demo_env demo_lib ''n2'') (demo_cluster 3)) = None" by code_simp
  then obtain c' where r: "run_state (DemoteNode demo_env demo_lib ''n2'') (demo_cluster 3) = (None, c')"
    by (metis prod.collapse)
  have "map_of (cl_servers (demo_cluster 3)) ''n2'' = Some (''a2'', Voter)" by (simp add: demo_cluster_def)
  with demote_success [OF demo_lib_ok demo_lib_alone ok r] r show ?thesis by auto
qed

text \<open>
  A demotion that fails half-way can lose the server. When adding it back fails, as a
  learner and then as a voter, whose outcome nobody looks at, the call reports the first
  failure and the server is no longer in the configuration, although the documented
  behaviour of the library was respected.
\<close>

theorem failed_demotion_loses_server:
  "let (e, c) = run_state (DemoteNode demo_env failing_lib ''n2'') (demo_cluster 3)
   in raft_lib_ok failing_lib
      \<and> e = Some (Wrapf ''failed to re-add node as learner'' ErrNoQuorum)
      \<and> map_of (cl_servers (demo_cluster 3)) ''n2'' = Some (''a2'', Voter)
      \<and> map_of (cl_servers c) ''n2'' = None"
proof -
  have "raft_lib_ok failing_lib"
    using demo_lib_ok by (simp add: raft_lib_ok_def failing_lib_def applied_or_failed_def)
  moreover have "run_state (DemoteNode demo_env failing_lib ''n2'') (demo_cluster 3)
      = (Some (Wrapf ''failed to re-add node as learner'' ErrNoQuorum),
         snd (run_state (DemoteNode demo_env failing_lib ''n2'') (demo_cluster 3)))"
    by code_simp
  moreover have "map_of (cl_servers (snd (run_state (DemoteNode demo_env failing_lib ''n2'') (demo_cluster 3)))) ''n2'' = None"
    by code_simp
  ultimately show ?thesis by (auto simp: demo_cluster_def split: prod.split)
qed

text \<open>
  A leadership transfer ignores its target: for any two voters the call gives the same
  result and the same state, so leadership may go to either of them, or to a third.
\<close>

theorem transfer_ignores_target:
  assumes "alone L" and "distinct (map fst (cl_servers c))"
    and "i \<in> voter_ids (cl_servers c)" and "j \<in> voter_ids (cl_servers c)"
  shows "run_state (TransferLeadership R L i) c = run_state (TransferLeadership R L j) c"
proof -
  obtain r c' where g: "run_state (GetConfiguration R L) (c\<lparr>cl_node := snd (run_state (IsLeader R) (cl_node c))\<rparr>) = (r, c')"
      "cl_servers c' = cl_servers c" "\<forall>config. r = Inr config \<longrightarrow> config_shows c config"
    by (rule config_read [OF assms(1,2), of R])
  have target: "\<exists>n. map_of (cc_Nodes config) x = Some n \<and> info_Suffrage n = Voter"
    if "r = Inr config" "x \<in> voter_ids (cl_servers c)" for config x
    using g(3) that by (cases "map_of (cc_Nodes config) x") (auto simp: config_shows_def voter_ids_def)
  show ?thesis
  proof (cases r)
    case (Inr config)
    obtain m n where "map_of (cc_Nodes config) i = Some m" "info_Suffrage m = Voter"
        "map_of (cc_Nodes config) j = Some n" "info_Suffrage n = Voter"
      using target [OF Inr assms(3)] target [OF Inr assms(4)] by blast
    with g(1) Inr show ?thesis by (simp add: TransferLeadership_def LeadershipTransfer_def run_on_node)
  qed (use g(1) in \<open>simp add: TransferLeadership_def run_on_node\<close>)
qed

theorem transfer_ignores_target_witness:
  "run_state (TransferLeadership demo_env demo_lib ''n2'') (demo_cluster 3)
     = run_state (TransferLeadership demo_env demo_lib ''n3'') (demo_cluster 3)"
  by (rule transfer_ignores_target [OF demo_lib_alone]) (simp_all add: demo_cluster_def voter_ids_def)

text \<open>
  \<open>WaitForNodeSync\<close> returns: with a clock that advances by the 100 milliseconds slept
  per iteration, as many iterations as fit in the timeout, and one more, are enough, for any
  node, present or not, and any behaviour of the library.
\<close>

theorem wait_for_node_sync_returns:
  assumes "polls_100ms R" and "timeout \<le> int k * 100000000"
    and "ob_now (R (node_clock (cl_node c))) \<le> ob_now (R (Suc (node_clock (cl_node c))))"
  shows "\<exists>e. fst (run_state (WaitForNodeSync (Suc k) R L i timeout) c) = Some e"
proof -
  let ?c = "c\<lparr>cl_node := snd (run_state (observe R) (cl_node c))\<rparr>"
  have "\<exists>e. fst (run_state (wait_sync_loop (Suc k) R L i (ob_now (R (node_clock (cl_node c))) + timeout)) ?c) = Some e"
    using assms by (intro wait_sync_loop_returns) (simp_all add: observe_def Let_def)
  then show ?thesis
    by (simp only: WaitForNodeSync_def State_Monad.run_state_bind run_on_node prod.case)
       (simp add: observe_def Let_def)
qed

theorem wait_for_node_sync_returns_witness:
  "\<exists>e. fst (run_state (WaitForNodeSync 3 (\<lambda>i. (demo_env i)\<lparr>ob_now := int i * 50000000\<rparr>) demo_lib ''n9'' 200000000)
         (demo_cluster 3)) = Some e"
  using wait_for_node_sync_returns [of "\<lambda>i. (demo_env i)\<lparr>ob_now := int i * 50000000\<rparr>" 200000000 2 "demo_cluster 3" demo_lib "''n9''"]
  by (simp add: polls_100ms_def numeral_3_eq_3)

end
