(* ===== verification/Agent_Config.thy ===== *)
theory Agent_Config
  imports Policy_Client Membership
begin

text \<open>
  How the agent reads its configuration and acts on new policies, the functions of
  \<open>internal/agent/wiring.go\<close> below \<open>WireAgent\<close>: configuration values with defaults, command settings,
  the Raft configuration, and the watchers of peer lists and software versions. A configuration client is its method \<open>Get\<close>; \<open>fi\<close> converts a \<open>float64\<close> to
  an \<open>int\<close>, \<open>home\<close> is the home directory, if there is one.
\<close>

declare map_of_eq_Some_iff [simp del]

subsection \<open>Values with defaults\<close>

type_synonym config_client = "string \<Rightarrow> gval option"

definition getConfigValue :: "config_client \<Rightarrow> config_client" where
  "getConfigValue config key = (case config (''local.'' @ key) of Some v \<Rightarrow> Some v | None \<Rightarrow> config key)"

definition expandTilde :: "string option \<Rightarrow> string \<Rightarrow> string" where
  "expandTilde home path =
     (if HasPrefix path ''~/'' then (case home of Some h \<Rightarrow> path_Join [h, drop 2 path] | None \<Rightarrow> path) else path)"

definition getConfigValueStr :: "config_client \<Rightarrow> string \<Rightarrow> string \<Rightarrow> string" where
  "getConfigValueStr config key defaultValue = (case getConfigValue config key of Some (Gstr s) \<Rightarrow> s | _ \<Rightarrow> defaultValue)"

definition getConfigValuePath :: "string option \<Rightarrow> config_client \<Rightarrow> string \<Rightarrow> string \<Rightarrow> string" where
  "getConfigValuePath home config key defaultValue = (case getConfigValue config key of Some (Gstr s) \<Rightarrow> expandTilde home s | _ \<Rightarrow> defaultValue)"

definition as_int :: "(string \<Rightarrow> int) \<Rightarrow> gval option \<Rightarrow> int option" where
  "as_int fi v = (case v of Some (Gint n) \<Rightarrow> Some n | Some (Gfloat s) \<Rightarrow> Some (fi s) | _ \<Rightarrow> None)"

definition getConfigValueInt :: "(string \<Rightarrow> int) \<Rightarrow> config_client \<Rightarrow> string \<Rightarrow> int \<Rightarrow> int" where
  "getConfigValueInt fi config key defaultValue = (case as_int fi (getConfigValue config key) of Some n \<Rightarrow> n | None \<Rightarrow> defaultValue)"

definition getConfigValueBool :: "config_client \<Rightarrow> string \<Rightarrow> bool \<Rightarrow> bool" where
  "getConfigValueBool config key defaultValue =
     (case getConfigValue config key of
        Some (Gbool b) \<Rightarrow> b
      | Some (Gstr s) \<Rightarrow> s = ''true'' \<or> s = ''True'' \<or> s = ''TRUE''
      | _ \<Rightarrow> defaultValue)"

definition getConfigValueWithFallback :: "config_client \<Rightarrow> config_client \<Rightarrow> string \<Rightarrow> string \<Rightarrow> string" where
  "getConfigValueWithFallback primary fallback key defaultValue =
     (let val = getConfigValueStr primary key [] in if val \<noteq> [] then val else getConfigValueStr fallback key defaultValue)"

definition getConfigPathWithFallback :: "string option \<Rightarrow> config_client \<Rightarrow> config_client \<Rightarrow> string \<Rightarrow> string \<Rightarrow> string" where
  "getConfigPathWithFallback home primary fallback key defaultValue =
     (let val = getConfigValuePath home primary key [] in if val \<noteq> [] then val else getConfigValuePath home fallback key defaultValue)"

definition getConfigIntWithFallback :: "(string \<Rightarrow> int) \<Rightarrow> config_client \<Rightarrow> config_client \<Rightarrow> string \<Rightarrow> int \<Rightarrow> int" where
  "getConfigIntWithFallback fi primary fallback key defaultValue =
     (case as_int fi (getConfigValue primary key) of Some n \<Rightarrow> n | None \<Rightarrow> getConfigValueInt fi fallback key defaultValue)"

subsection \<open>Command settings\<close>

record CommandSettings =
  cs_AllowLiteralCommands :: bool
  cs_Whitelist :: "string list"
  cs_Blacklist :: "string list"
  cs_DefaultTimeout :: int

definition DefaultCommandSettings :: CommandSettings where
  "DefaultCommandSettings = \<lparr>cs_AllowLiteralCommands = False, cs_Whitelist = [], cs_Blacklist = [''rm -rf'', ''dd if='', ''mkfs'', '':(){:|:&};:''],
     cs_DefaultTimeout = 300\<rparr>"

definition strings_of :: "gval list \<Rightarrow> string list" where
  "strings_of vs = List.map_filter (\<lambda>v. case v of Gstr s \<Rightarrow> Some s | _ \<Rightarrow> None) vs"

definition apply_commands :: "(string \<Rightarrow> int) \<Rightarrow> gval option \<Rightarrow> CommandSettings \<Rightarrow> CommandSettings" where
  "apply_commands fi commands settings =
     (case commands of
        Some (Gmap m) \<Rightarrow>
          (let s1 = (case map_of m ''whitelist'' of Some (Garr vs) \<Rightarrow> settings\<lparr>cs_Whitelist := strings_of vs\<rparr> | _ \<Rightarrow> settings);
               s2 = (case map_of m ''blacklist'' of Some (Garr vs) \<Rightarrow> s1\<lparr>cs_Blacklist := strings_of vs\<rparr> | _ \<Rightarrow> s1);
               s3 = (case map_of m ''allow_literal_commands'' of Some (Gbool b) \<Rightarrow> s2\<lparr>cs_AllowLiteralCommands := b\<rparr> | _ \<Rightarrow> s2)
           in case map_of m ''default_timeout'' of Some (Gfloat s) \<Rightarrow> s3\<lparr>cs_DefaultTimeout := fi s\<rparr> | _ \<Rightarrow> s3)
      | _ \<Rightarrow> settings)"

definition getCommandSettingsFromConfig :: "(string \<Rightarrow> int) \<Rightarrow> config_client \<Rightarrow> CommandSettings" where
  "getCommandSettingsFromConfig fi config = apply_commands fi (config ''commands'') DefaultCommandSettings"

definition extractCommandSettingsFromSnapshot :: "(string \<Rightarrow> int) \<Rightarrow> (string \<times> gval) list \<Rightarrow> CommandSettings" where
  "extractCommandSettingsFromSnapshot fi payload = apply_commands fi (map_of payload ''commands'') DefaultCommandSettings"

subsection \<open>The Raft configuration\<close>

definition peer_addresses :: "gval option \<Rightarrow> string list" where
  "peer_addresses v =
     (case v of
        Some (Garr vs) \<Rightarrow>
          List.map_filter (\<lambda>peer. case peer of
              Gmap m \<Rightarrow> (case map_of m ''raft_address'' of Some (Gstr a) \<Rightarrow> if a \<noteq> [] then Some a else None | _ \<Rightarrow> None)
            | _ \<Rightarrow> None) vs
      | _ \<Rightarrow> [])"

text \<open>The data directory of a single node that is to bootstrap is removed when it has a database.\<close>

definition handle_existing :: "cap_env \<Rightarrow> string \<Rightarrow> bool \<Rightarrow> string list \<Rightarrow> ('z world_scheme, bool) state" where
  "handle_existing E dataDir bootstrap peers = do {
     db \<leftarrow> Stat E (path_Join [dataDir, ''raft.db'']);
     case db of
       Inl _ \<Rightarrow> State_Monad.return bootstrap
     | Inr _ \<Rightarrow>
         if bootstrap \<and> peers = [] then do {
           _ \<leftarrow> RemoveAll E dataDir;
           _ \<leftarrow> os_call E;
           State_Monad.return bootstrap }
         else State_Monad.return False }"

definition getRaftConfigFromMap ::
  "(string \<Rightarrow> int) \<Rightarrow> string option \<Rightarrow> cap_env \<Rightarrow> (string \<times> gval) list \<Rightarrow> ('z world_scheme, NodeConfig option) state" where
  "getRaftConfigFromMap fi home E m =
     (if map_of m ''enabled'' \<noteq> Some (Gbool True) then State_Monad.return None
      else case map_of m ''cluster_id'' of
        Some (Gstr clusterID) \<Rightarrow>
          (if clusterID = [] then State_Monad.return None
           else case map_of m ''node_id'' of
             Some (Gstr nodeID) \<Rightarrow>
               (if nodeID = [] then State_Monad.return None
                else
                  let bindPort = (case map_of m ''bind_port'' of Some (Gfloat s) \<Rightarrow> fi s | _ \<Rightarrow> 7001);
                      bootstrap = (case map_of m ''bootstrap'' of Some (Gbool b) \<Rightarrow> b | _ \<Rightarrow> False);
                      bindAddr = ''0.0.0.0:'' @ show_int bindPort;
                      dataDir0 = path_Join [case home of Some h \<Rightarrow> h | None \<Rightarrow> [], ''.underleaf'', ''raft''];
                      dataDir = (case map_of m ''data_dir'' of Some (Gstr dir) \<Rightarrow> if dir \<noteq> [] then dir else dataDir0 | _ \<Rightarrow> dataDir0);
                      peers = peer_addresses (map_of m ''bootstrap_peers'')
                  in do {
                    boot \<leftarrow> handle_existing E dataDir bootstrap peers;
                    State_Monad.return (Some (DefaultNodeConfig\<lparr>cfg_NodeID := nodeID, cfg_BindAddr := bindAddr, cfg_DataDir := dataDir,
                      cfg_Bootstrap := boot, cfg_BootstrapPeers := peers\<rparr>)) })
           | _ \<Rightarrow> State_Monad.return None)
      | _ \<Rightarrow> State_Monad.return None)"

definition getRaftConfigFromPayload ::
  "(string \<Rightarrow> int) \<Rightarrow> string option \<Rightarrow> cap_env \<Rightarrow> (string \<times> gval) list \<Rightarrow> ('z world_scheme, NodeConfig option) state" where
  "getRaftConfigFromPayload fi home E payload =
     (case map_of payload ''raft'' of Some (Gmap m) \<Rightarrow> getRaftConfigFromMap fi home E m | _ \<Rightarrow> State_Monad.return None)"

text \<open>\<open>getRaftConfigFromSnapshot\<close> takes the map from a configuration client.\<close>

definition getRaftConfigFromSnapshot ::
  "(string \<Rightarrow> int) \<Rightarrow> string option \<Rightarrow> cap_env \<Rightarrow> config_client \<Rightarrow> ('z world_scheme, NodeConfig option) state" where
  "getRaftConfigFromSnapshot fi home E config =
     (case config ''raft'' of Some (Gmap m) \<Rightarrow> getRaftConfigFromMap fi home E m | _ \<Rightarrow> State_Monad.return None)"

subsection \<open>Peer lists\<close>

definition peersListEqual :: "string list \<Rightarrow> string list \<Rightarrow> bool" where
  "peersListEqual a b \<longleftrightarrow> length a = length b \<and> list_all (\<lambda>p. p \<in> set a) b"

fun add_missing :: "raft_env \<Rightarrow> raft_lib \<Rightarrow> string list \<Rightarrow> string list \<Rightarrow> unit member_action" where
  "add_missing R L current [] = mret ()"
| "add_missing R L current (addr # addrs) = do {
     (if addr \<notin> set current then do { _ \<leftarrow> AddNode R L addr addr; mret () } else mret ());
     add_missing R L current addrs }"

text \<open>The membership is made with its own event publisher, if any.\<close>

definition with_publisher :: "bool \<Rightarrow> 'a member_action \<Rightarrow> 'a member_action" where
  "with_publisher eventPublisher m = State (\<lambda>c.
     let (x, c') = run_state m (c\<lparr>cl_publisher := eventPublisher\<rparr>) in (x, c'\<lparr>cl_publisher := cl_publisher c\<rparr>))"

text \<open>An address is taken for the ID of its node; \<open>rng\<close> is the order of the range over the map.\<close>

definition reconcileRaftMembership ::
  "(string list \<Rightarrow> string list) \<Rightarrow> raft_env \<Rightarrow> raft_lib \<Rightarrow> string list \<Rightarrow> bool \<Rightarrow> raft_err option member_action" where
  "reconcileRaftMembership rng R L expectedPeers eventPublisher = do {
     r \<leftarrow> GetConfiguration R L;
     case r of
       Inl e \<Rightarrow> mret (Some (Wrapf ''failed to get current configuration'' e))
     | Inr config \<Rightarrow> do {
         with_publisher eventPublisher (add_missing R L (map fst (cc_Nodes config)) (rng (remdups expectedPeers)));
         mret None } }"

text \<open>One snapshot in the loop of \<open>watchConfigForRaftUpdates\<close>, with \<open>lastKnownPeers\<close>.\<close>

definition raft_update ::
  "(string list \<Rightarrow> string list) \<Rightarrow> raft_env \<Rightarrow> raft_lib \<Rightarrow> (string \<times> gval) list \<Rightarrow> string list \<Rightarrow> string list member_action" where
  "raft_update rng R L payload lastKnownPeers =
     (case map_of payload ''raft'' of
        Some (Gmap m) \<Rightarrow>
          (if map_of m ''enabled'' \<noteq> Some (Gbool True) then mret lastKnownPeers
           else case map_of m ''bootstrap_peers'' of
             Some (Garr vs) \<Rightarrow>
               (let currentPeers = peer_addresses (Some (Garr vs)) in
                if peersListEqual lastKnownPeers currentPeers then mret lastKnownPeers
                else do {
                  leader \<leftarrow> on_node (IsLeader R);
                  (if leader then do { _ \<leftarrow> reconcileRaftMembership rng R L currentPeers False; mret () } else mret ());
                  mret currentPeers })
           | _ \<Rightarrow> mret lastKnownPeers)
      | _ \<Rightarrow> mret lastKnownPeers)"

subsection \<open>Software versions\<close>

text \<open>What \<open>watchConfigForSoftwareUpdates\<close> sends to the update manager for a snapshot.\<close>

definition software_version :: "(string \<times> gval) list \<Rightarrow> string option" where
  "software_version payload = (case map_of payload ''software_version'' of Some (Gstr v) \<Rightarrow> if v \<noteq> [] then Some v else None | _ \<Rightarrow> None)"


subsection \<open>Reconciliation only adds\<close>

definition keeps_servers :: "servers \<Rightarrow> servers \<Rightarrow> bool" where
  "keeps_servers srv srv' \<longleftrightarrow> map_of srv \<subseteq>\<^sub>m map_of srv'"

lemma keeps_servers_refl [simp]: "keeps_servers srv srv"
  by (simp add: keeps_servers_def)

lemma keeps_servers_trans: "keeps_servers s1 s2 \<Longrightarrow> keeps_servers s2 s3 \<Longrightarrow> keeps_servers s1 s3"
  unfolding keeps_servers_def by (rule map_le_trans)

lemma added_keeps:
  assumes "raft_lib_ok L" and "distinct (map fst srv)" and "map_of srv i = None"
  shows "keeps_servers srv (snd (lib_AddVoter L n i a srv))" and "keeps_servers srv (snd (lib_AddNonvoter L n i a srv))"
proof -
  have "applied_or_failed (lib_AddVoter L n i a srv) srv ((map_of srv)(i \<mapsto> (a, Voter)))"
    and "applied_or_failed (lib_AddNonvoter L n i a srv) srv ((map_of srv)(i \<mapsto> (a, Nonvoter)))"
    using assms(1) [unfolded raft_lib_ok_def, rule_format, OF assms(2), of n i a] assms(3) by simp_all
  then show "keeps_servers srv (snd (lib_AddVoter L n i a srv))" "keeps_servers srv (snd (lib_AddNonvoter L n i a srv))"
    using assms(3) by (auto simp: applied_or_failed_def keeps_servers_def map_le_def)
qed

lemma AddNode_keeps:
  assumes "raft_lib_ok L" and "alone L" and "distinct (map fst (cl_servers c))"
  shows "keeps_servers (cl_servers c) (cl_servers (snd (run_state (AddNode R L i a) c)))"
proof -
  obtain r c' where g: "run_state (GetConfiguration R L) (c\<lparr>cl_node := snd (run_state (IsLeader R) (cl_node c))\<rparr>) = (r, c')"
      "cl_servers c' = cl_servers c" "\<forall>config. r = Inr config \<longrightarrow> config_shows c config"
    by (rule config_read [OF assms(2,3), of R])
  show ?thesis
    using g assms added_keeps [OF assms(1,3)]
    by (auto simp: AddNode_def member_run config_shows_def split: sum.split option.split)
qed

text \<open>What holds of one call holds of the loop over the missing addresses.\<close>

definition grows :: "servers \<Rightarrow> servers \<Rightarrow> bool" where
  "grows srv srv' \<longleftrightarrow> member_steps srv srv' \<and> keeps_servers srv srv'"

lemma grows_trans: "grows s1 s2 \<Longrightarrow> grows s2 s3 \<Longrightarrow> grows s1 s3"
  unfolding grows_def by (blast intro: rtranclp_trans keeps_servers_trans)

lemma grows_ok: "grows s1 s2 \<Longrightarrow> servers_ok s1 \<Longrightarrow> servers_ok s2"
  unfolding grows_def by (blast intro: member_steps_ok)

lemma add_missing_grows:
  assumes "raft_lib_ok L" and "alone L" and "servers_ok (cl_servers c)"
  shows "grows (cl_servers c) (cl_servers (snd (run_state (add_missing R L current addrs) c)))"
  using assms(3)
proof (induction addrs arbitrary: c)
  case Nil
  show ?case by (simp add: grows_def)
next
  case (Cons a addrs)
  have d: "distinct (map fst (cl_servers c))" using Cons.prems by (simp add: servers_ok_def)
  let ?c = "if a \<notin> set current then snd (run_state (AddNode R L a a) c) else c"
  have "grows (cl_servers c) (cl_servers ?c)"
    using AddNode_steps [OF assms(1,2) d] AddNode_keeps [OF assms(1,2) d] by (simp add: grows_def)
  then have "grows (cl_servers c) (cl_servers (snd (run_state (add_missing R L current addrs) ?c)))"
    using Cons.IH [OF grows_ok [OF _ Cons.prems], of ?c] by (blast intro: grows_trans)
  moreover have "snd (run_state (add_missing R L current (a # addrs)) c) = snd (run_state (add_missing R L current addrs) ?c)"
    by (cases "a \<in> set current") (simp_all add: case_prod_beta)
  ultimately show ?case by (simp only:)
qed



subsection \<open>Peer lists that changed\<close>

text \<open>
  On lists without repetitions \<open>peersListEqual\<close> is equality of the sets.
\<close>

theorem peersListEqual_sets:
  assumes "distinct a" and "distinct b"
  shows "peersListEqual a b \<longleftrightarrow> set a = set b"
proof
  assume "peersListEqual a b"
  then have "set b \<subseteq> set a" and "card (set a) = card (set b)"
    using assms by (auto simp: peersListEqual_def list_all_iff distinct_card)
  then show "set a = set b" using card_subset_eq [of "set a" "set b"] by simp
next
  assume "set a = set b"
  moreover from this have "length a = length b" using assms distinct_card by metis
  ultimately show "peersListEqual a b" by (simp add: peersListEqual_def list_all_iff)
qed

theorem peersListEqual_sets_witness:
  "peersListEqual [''a:1'', ''b:1''] [''b:1'', ''a:1''] \<longleftrightarrow> set [''a:1'', ''b:1''] = set [''b:1'', ''a:1'']"
  using peersListEqual_sets [of "[''a:1'', ''b:1'']" "[''b:1'', ''a:1'']"] by simp

text \<open>
  With a repeated address a peer that disappeared is not noticed, in one direction only.
\<close>

theorem peersListEqual_misses_repeated:
  "peersListEqual [''a:1'', ''b:1''] [''a:1'', ''a:1''] \<and> \<not> peersListEqual [''a:1'', ''a:1''] [''a:1'', ''b:1'']"
  by (simp add: peersListEqual_def)

lemma peersListEqual_refl [simp]: "peersListEqual a a"
  by (simp add: peersListEqual_def list_all_iff)

lemma raft_update_known: "raft_update rng R L [(''raft'', Gmap m)] (peer_addresses (map_of m ''bootstrap_peers'')) = mret (peer_addresses (map_of m ''bootstrap_peers''))"
  by (auto simp: raft_update_def Let_def split: option.split gval.split)

text \<open>
  A new list of peers that arrives while the node does not lead is recorded as known, without any
  change to the cluster; the same list delivered again does nothing, even once the node is the leader.
\<close>

theorem peer_change_lost_on_follower:
  assumes "map_of m ''enabled'' = Some (Gbool True)" and "map_of m ''bootstrap_peers'' = Some (Garr vs)"
    and "\<not> fst (run_state (IsLeader R) (cl_node c))"
    and "run_state (raft_update rng R L [(''raft'', Gmap m)] known) c = (known', c')"
  shows "cl_servers c' = cl_servers c
       \<and> (\<not> peersListEqual known (peer_addresses (Some (Garr vs))) \<longrightarrow> known' = peer_addresses (Some (Garr vs))
           \<and> run_state (raft_update rng R2 L2 [(''raft'', Gmap m)] known') c2 = (known', c2))"
  using assms raft_update_known [of rng R2 L2 m]
  by (auto simp: raft_update_def Let_def run_on_node split: if_splits)

definition demo_raft_map :: "(string \<times> gval) list" where
  "demo_raft_map = [(''enabled'', Gbool True), (''bootstrap_peers'', Garr [Gmap [(''raft_address'', Gstr ''b:1'')]])]"

definition idle_cluster :: Cluster where
  "idle_cluster = (demo_cluster 1)\<lparr>cl_node := demo_node\<lparr>node_started := False\<rparr>\<rparr>"

theorem peer_change_lost_on_follower_witness:
  "fst (run_state (raft_update rev demo_env demo_lib [(''raft'', Gmap demo_raft_map)] []) idle_cluster) = [''b:1'']
   \<and> run_state (raft_update rev demo_env demo_lib [(''raft'', Gmap demo_raft_map)] [''b:1'']) (demo_cluster 1) = ([''b:1''], demo_cluster 1)"
proof -
  have m: "map_of demo_raft_map ''enabled'' = Some (Gbool True)"
    "map_of demo_raft_map ''bootstrap_peers'' = Some (Garr [Gmap [(''raft_address'', Gstr ''b:1'')]])"
    by (simp_all add: demo_raft_map_def)
  have f: "\<not> fst (run_state (IsLeader demo_env) (cl_node idle_cluster))"
    by (simp add: idle_cluster_def IsLeader_def GetRole_def)
  have p: "peer_addresses (Some (Garr [Gmap [(''raft_address'', Gstr ''b:1'')]])) = [''b:1'']"
    by (simp add: peer_addresses_def map_filter_simps)
  show ?thesis
    using peer_change_lost_on_follower [OF m f prod.collapse [symmetric], of rev demo_lib "[]" demo_env demo_lib "demo_cluster 1"]
    unfolding p by (auto simp: peersListEqual_def)
qed

subsection \<open>Starting again\<close>

definition inside :: "string \<Rightarrow> string \<Rightarrow> bool" where
  "inside dir p \<longleftrightarrow> p = dir \<or> HasPrefix p (dir @ ''/'')"



lemma bind_address:
  assumes "map_of m ''enabled'' = Some (Gbool True)" and "map_of m ''cluster_id'' = Some (Gstr cluster)" and "cluster \<noteq> []"
    and "map_of m ''node_id'' = Some (Gstr node)" and "node \<noteq> []"
  shows "map_option cfg_BindAddr (fst (run_state (getRaftConfigFromMap fi home E m) w))
       = Some (''0.0.0.0:'' @ show_int (case map_of m ''bind_port'' of Some (Gfloat s) \<Rightarrow> fi s | _ \<Rightarrow> 7001))"
  unfolding getRaftConfigFromMap_def by (simp add: assms Let_def case_prod_beta)

definition port_map :: "gval \<Rightarrow> (string \<times> gval) list" where
  "port_map v = [(''enabled'', Gbool True), (''cluster_id'', Gstr ''c''), (''node_id'', Gstr ''n''), (''bind_port'', v)]"

lemma port_map_lookup:
  "map_of (port_map v) ''enabled'' = Some (Gbool True)" "map_of (port_map v) ''cluster_id'' = Some (Gstr ''c'')"
  "map_of (port_map v) ''node_id'' = Some (Gstr ''n'')" "map_of (port_map v) ''bind_port'' = Some v"
  "map_of (port_map v) ''bootstrap'' = None" "map_of (port_map v) ''data_dir'' = None" "map_of (port_map v) ''bootstrap_peers'' = None"
  by (simp_all add: port_map_def)

text \<open>
  The port a pushed configuration sets is honoured, and so is no port of a configuration loaded from
  the snapshot file: the YAML decoder yields an \<open>int\<close> where the code expects a \<open>float64\<close>.
\<close>

theorem stored_port_ignored:
  assumes "run_state (getRaftConfigFromMap fi home E (port_map v)) w = (r, w')"
  shows "map_option cfg_BindAddr r = Some (''0.0.0.0:'' @ show_int (case v of Gfloat s \<Rightarrow> fi s | _ \<Rightarrow> 7001))"
  using bind_address [of "port_map v" "''c''" "''n''" fi home E w] by (simp only: assms fst_conv port_map_lookup option.case) simp

theorem stored_port_ignored_witness:
  "map_option cfg_BindAddr (fst (run_state (getRaftConfigFromMap (\<lambda>_. 9000) None demo_upd_env (port_map (Gint 9000))) demo_upd_world)) = Some ''0.0.0.0:7001''
   \<and> map_option cfg_BindAddr (fst (run_state (getRaftConfigFromMap (\<lambda>_. 9000) None demo_upd_env (port_map (Gfloat ''9000''))) demo_upd_world)) = Some ''0.0.0.0:9000''"
proof -
  have d: "digit_char 0 = CHR ''0''" "digit_char (Suc 0) = CHR ''1''" "digit_char 7 = CHR ''7''" "digit_char 9 = CHR ''9''" by code_simp+
  have "show_int 7001 = ''7001''" "show_int 9000 = ''9000''" by (simp_all add: show_int_def show_nat.simps d)
  then show ?thesis
    using stored_port_ignored [of "\<lambda>_. 9000" None demo_upd_env "Gint 9000" demo_upd_world, OF prod.collapse [symmetric]]
      stored_port_ignored [of "\<lambda>_. 9000" None demo_upd_env "Gfloat ''9000''" demo_upd_world, OF prod.collapse [symmetric]] by simp
qed

end
