(* ===== verification/Outbox.thy ===== *)
theory Outbox
  imports Prelude "HOL-Library.Multiset"
begin

text \<open>
  The delivery outbox and the command drainer of the agent: \<open>internal/agent/outbox.go\<close> and
  \<open>internal/agent/drainer.go\<close>. The JSONL file is a list of lines; a line has the item it
  unmarshals to, if any, and its length, which for a line the outbox writes is the parameter
  \<open>sz\<close>, the length of the marshalled item. What the code observes is the parameter \<open>E\<close>: the
  results of the calls of the handlers, whether a wait is cut short by the context, whether
  the file operations fail, and the items other goroutines enqueue while a drain runs, when
  the lock is not held.
\<close>

subsection \<open>Data\<close>

record outboxItem =
  it_Type :: string
  it_Payload :: bytes
  it_EnqueuedAt :: int

datatype outbox_line = Line (line_length: nat) (line_item: "outboxItem option")

record DeliveryOutbox =
  ox_file :: "outbox_line list option"
  ox_handlers :: "string list"
  ox_calls :: nat
  ox_acked :: "outboxItem list"

record outbox_env =
  oe_handler :: "nat \<Rightarrow> outboxItem \<Rightarrow> string option"
  oe_cancelled :: "nat \<Rightarrow> bool"
  oe_open_err :: "string option"
  oe_rewrite_err :: "string option"
  oe_enqueued :: "outboxItem list"

definition NewDeliveryOutbox :: "outbox_line list option \<Rightarrow> DeliveryOutbox" where
  "NewDeliveryOutbox file = \<lparr>ox_file = file, ox_handlers = [], ox_calls = 0, ox_acked = []\<rparr>"

definition Register :: "string \<Rightarrow> DeliveryOutbox \<Rightarrow> DeliveryOutbox" where
  "Register msgType ob = ob\<lparr>ox_handlers := List.insert msgType (ox_handlers ob)\<rparr>"

text \<open>A payload that cannot be marshalled is \<open>None\<close>. \<open>open_err\<close> is the error of opening or
  writing the file.\<close>

definition Enqueue ::
  "(outboxItem \<Rightarrow> nat) \<Rightarrow> string option \<Rightarrow> string \<Rightarrow> bytes option \<Rightarrow> int \<Rightarrow> DeliveryOutbox \<Rightarrow> string option \<times> DeliveryOutbox" where
  "Enqueue sz open_err msgType payload now ob =
     (case payload of
        None \<Rightarrow> (Some ''outbox: failed to marshal payload'', ob)
      | Some raw \<Rightarrow>
          (let item = \<lparr>it_Type = msgType, it_Payload = raw, it_EnqueuedAt = now\<rparr> in
           case open_err of
             Some e \<Rightarrow> (Some (''outbox: failed to open file: '' @ e), ob)
           | None \<Rightarrow>
               (None, ob\<lparr>ox_file := Some ((case ox_file ob of None \<Rightarrow> [] | Some ls \<Rightarrow> ls) @ [Line (sz item) (Some item)])\<rparr>)))"

subsection \<open>Draining\<close>

text \<open>The scanner gives up at a line of 64 KiB or more; empty and malformed lines are skipped.\<close>

definition max_line :: nat where
  "max_line = 65536"

fun scan :: "outbox_line list \<Rightarrow> outboxItem list \<times> bool" where
  "scan [] = ([], True)"
| "scan (l # ls) =
     (if line_length l \<ge> max_line then ([], False)
      else let (items, ok) = scan ls in
        (if line_length l = 0 then items else (case line_item l of None \<Rightarrow> items | Some it \<Rightarrow> it # items), ok))"

definition readItems :: "string option \<Rightarrow> outbox_line list option \<Rightarrow> outboxItem list option" where
  "readItems open_err file =
     (case (open_err, file) of
        (None, Some ls) \<Rightarrow> (case scan ls of (items, ok) \<Rightarrow> if ok then Some items else None)
      | _ \<Rightarrow> None)"

text \<open>\<open>int(1) << uint(i)\<close> and the multiplication by a second, at 64 bits.\<close>

definition backoffFor :: "nat \<Rightarrow> int" where
  "backoffFor i =
     (if i = 0 then 2000000000
      else let secs = int64_wrap (2 ^ i) in seconds (if secs > 30 then 30 else secs))"

text \<open>The pause before attempt \<open>n + 1\<close>; the products are exact in \<open>float64\<close>.\<close>

definition retry_wait :: "int \<Rightarrow> nat \<Rightarrow> int" where
  "retry_wait baseBackoff attempt =
     (let w = baseBackoff * 2 ^ (attempt - 1) in if w > 300000000000 then 300000000000 else w)"

text \<open>The attempts left; the result is an error, with the number of handler calls so far.\<close>

fun attempts :: "outbox_env \<Rightarrow> outboxItem \<Rightarrow> nat \<Rightarrow> nat \<Rightarrow> string \<Rightarrow> nat \<Rightarrow> string option \<times> nat" where
  "attempts E item 0 attempt lastErr n = (Some lastErr, n)"
| "attempts E item (Suc left) attempt lastErr n =
     (if attempt > 0 \<and> oe_cancelled E n then (Some ''context canceled'', n)
      else case oe_handler E n item of
             None \<Rightarrow> (None, Suc n)
           | Some e \<Rightarrow> attempts E item left (Suc attempt) e (Suc n))"

definition deliverWithBackoff :: "outbox_env \<Rightarrow> outboxItem \<Rightarrow> nat \<Rightarrow> string option \<times> nat" where
  "deliverWithBackoff E item n = attempts E item 3 0 [] n"

fun drain_items :: "outbox_env \<Rightarrow> string list \<Rightarrow> outboxItem list \<Rightarrow> nat \<Rightarrow> outboxItem list \<times> outboxItem list \<times> nat" where
  "drain_items E handlers [] n = ([], [], n)"
| "drain_items E handlers (item # items) n =
     (if it_Type item \<notin> set handlers then drain_items E handlers items n
      else case deliverWithBackoff E item n of
             (Some e, n') \<Rightarrow> (case drain_items E handlers items n' of (remaining, acked, m) \<Rightarrow> (item # remaining, acked, m))
           | (None, n') \<Rightarrow> (case drain_items E handlers items n' of (remaining, acked, m) \<Rightarrow> (remaining, item # acked, m)))"

definition writeItems ::
  "(outboxItem \<Rightarrow> nat) \<Rightarrow> string option \<Rightarrow> outboxItem list \<Rightarrow> outbox_line list option \<Rightarrow> outbox_line list option" where
  "writeItems sz err items file =
     (case err of
        Some e \<Rightarrow> file
      | None \<Rightarrow> if items = [] then None else Some (map (\<lambda>it. Line (sz it) (Some it)) items))"

definition append_lines :: "(outboxItem \<Rightarrow> nat) \<Rightarrow> outboxItem list \<Rightarrow> outbox_line list option \<Rightarrow> outbox_line list option" where
  "append_lines sz items file =
     (if items = [] then file
      else Some ((case file of None \<Rightarrow> [] | Some ls \<Rightarrow> ls) @ map (\<lambda>it. Line (sz it) (Some it)) items))"

definition drainOnce :: "(outboxItem \<Rightarrow> nat) \<Rightarrow> outbox_env \<Rightarrow> DeliveryOutbox \<Rightarrow> DeliveryOutbox" where
  "drainOnce sz E ob =
     (case readItems (oe_open_err E) (ox_file ob) of
        None \<Rightarrow> ob
      | Some items \<Rightarrow>
          (if items = [] then ob
           else case drain_items E (ox_handlers ob) items (ox_calls ob) of
             (remaining, acked, n) \<Rightarrow>
               (let file = append_lines sz (oe_enqueued E) (ox_file ob)
                in ob\<lparr>ox_file := writeItems sz (oe_rewrite_err E) remaining file,
                      ox_calls := n, ox_acked := ox_acked ob @ acked\<rparr>)))"

text \<open>Calls one after the other; no other goroutine enqueues during a drain.\<close>

datatype outbox_op = DoEnqueue "string option" string "bytes option" int | DoDrain outbox_env

fun outbox_step :: "(outboxItem \<Rightarrow> nat) \<Rightarrow> outbox_op \<Rightarrow> outboxItem list \<times> DeliveryOutbox \<Rightarrow> outboxItem list \<times> DeliveryOutbox" where
  "outbox_step sz (DoEnqueue err t p now) (accepted, ob) =
     (case Enqueue sz err t p now ob of
        (None, ob') \<Rightarrow> (accepted @ [\<lparr>it_Type = t, it_Payload = the p, it_EnqueuedAt = now\<rparr>], ob')
      | (Some e, ob') \<Rightarrow> (accepted, ob'))"
| "outbox_step sz (DoDrain E) (accepted, ob) = (accepted, drainOnce sz (E\<lparr>oe_enqueued := []\<rparr>) ob)"

text \<open>The items in the file.\<close>

definition pending :: "outbox_line list option \<Rightarrow> outboxItem list" where
  "pending file =
     (case file of None \<Rightarrow> [] | Some ls \<Rightarrow> List.map_filter (\<lambda>l. if line_length l = 0 then None else line_item l) ls)"

subsection \<open>drainer.go\<close>

type_synonym CommandDrainer = "string list"

definition NewCommandDrainer :: CommandDrainer where
  "NewCommandDrainer = []"

definition drainer_Start :: "string \<Rightarrow> CommandDrainer \<Rightarrow> CommandDrainer" where
  "drainer_Start jobID d = List.insert jobID d"

definition drainer_Complete :: "string \<Rightarrow> CommandDrainer \<Rightarrow> CommandDrainer" where
  "drainer_Complete jobID d = removeAll jobID d"

definition drainer_Count :: "CommandDrainer \<Rightarrow> nat" where
  "drainer_Count d = length d"

text \<open>The loop of \<open>Drain\<close>: at each tick the commands in flight and the time since the start.\<close>

fun Drain :: "int \<Rightarrow> (CommandDrainer \<times> int) list \<Rightarrow> bool option" where
  "Drain timeout [] = None"
| "Drain timeout ((d, elapsed) # ticks) =
     (if drainer_Count d = 0 then Some True
      else if elapsed > timeout then Some False
      else Drain timeout ticks)"

subsection \<open>Lemmas\<close>

lemma scan_ok: "snd (scan ls) \<Longrightarrow> fst (scan ls) = pending (Some ls)"
  by (induction ls) (auto simp: pending_def map_filter_simps split: if_splits option.splits prod.splits)

lemma scan_oversized: "\<exists>l\<in>set ls. line_length l \<ge> max_line \<Longrightarrow> \<not> snd (scan ls)"
  by (induction ls) (auto simp: Let_def case_prod_beta)

lemma readItems_pending: "readItems e file = Some items \<Longrightarrow> items = pending file"
  by (auto simp: readItems_def scan_ok split: option.splits prod.splits if_splits)
     (metis fst_conv scan_ok snd_conv)

lemma drain_items_split:
  assumes "drain_items E hs items n = (remaining, acked, m)"
  shows "mset (filter (\<lambda>it. it_Type it \<in> set hs) items) = mset remaining + mset acked"
    and "subseq remaining items" and "set acked \<subseteq> set items"
proof -
  have "mset (filter (\<lambda>it. it_Type it \<in> set hs) items) = mset remaining + mset acked
      \<and> subseq remaining items \<and> set acked \<subseteq> set items"
    using assms
  proof (induction items arbitrary: n remaining acked m)
    case (Cons it items)
    obtain r a k where rec: "drain_items E hs items (snd (deliverWithBackoff E it n)) = (r, a, k)"
      by (cases "drain_items E hs items (snd (deliverWithBackoff E it n))")
    show ?case
    proof (cases "it_Type it \<in> set hs")
      case True
      then show ?thesis
        using Cons.prems Cons.IH [OF rec] rec
        by (auto split: prod.splits option.splits)
    next
      case False
      then show ?thesis using Cons.prems Cons.IH [of n remaining acked m] by auto
    qed
  qed simp
  then show "mset (filter (\<lambda>it. it_Type it \<in> set hs) items) = mset remaining + mset acked"
    and "subseq remaining items" and "set acked \<subseteq> set items" by auto
qed

lemma pending_lines:
  assumes "\<And>it. 0 < sz it"
  shows "pending (Some (map (\<lambda>it. Line (sz it) (Some it)) items)) = items"
proof -
  have "sz it \<noteq> 0" for it using assms [of it] by simp
  then show ?thesis by (induction items) (simp_all add: pending_def map_filter_simps)
qed

lemma pending_append: "pending (Some (ls @ ks)) = pending (Some ls) @ pending (Some ks)"
  by (simp add: pending_def map_filter_def)

lemma pending_Enqueue:
  assumes "\<And>it. 0 < sz it" and "Enqueue sz err t p now ob = (None, ob')"
  shows "pending (ox_file ob') = pending (ox_file ob) @ [\<lparr>it_Type = t, it_Payload = the p, it_EnqueuedAt = now\<rparr>]"
    and "ox_acked ob' = ox_acked ob" and "ox_handlers ob' = ox_handlers ob"
proof -
  have "pending (Some (ls @ [Line (sz it) (Some it)])) = pending (Some ls) @ [it]" for ls it
    using pending_lines [of sz "[it]"] assms(1) by (simp add: pending_append)
  moreover have "pending (Some [Line (sz it) (Some it)]) = [it]" for it
    using pending_lines [of sz "[it]"] assms(1) by simp
  moreover have "pending None = []" by (simp add: pending_def)
  ultimately show "pending (ox_file ob') = pending (ox_file ob) @ [\<lparr>it_Type = t, it_Payload = the p, it_EnqueuedAt = now\<rparr>]"
    using assms(2)
    by (cases p; cases err; cases "ox_file ob") (auto simp: Enqueue_def Let_def)
  show "ox_acked ob' = ox_acked ob" "ox_handlers ob' = ox_handlers ob"
    using assms(2) by (auto simp: Enqueue_def Let_def split: option.splits)
qed

text \<open>A drain on its own: what it does to the file and to the acknowledged items.\<close>

lemma drain_alone:
  assumes "\<And>it. 0 < sz it" and "oe_enqueued E = []"
  shows "\<exists>acked. ox_acked (drainOnce sz E ob) = ox_acked ob @ acked \<and> set acked \<subseteq> set (pending (ox_file ob))
       \<and> (pending (ox_file (drainOnce sz E ob)) = pending (ox_file ob)
          \<or> (mset (filter (\<lambda>it. it_Type it \<in> set (ox_handlers ob)) (pending (ox_file ob)))
               = mset (pending (ox_file (drainOnce sz E ob))) + mset acked
             \<and> subseq (pending (ox_file (drainOnce sz E ob))) (pending (ox_file ob))))"
proof (cases "readItems (oe_open_err E) (ox_file ob)")
  case None
  then show ?thesis by (simp add: drainOnce_def)
next
  case (Some items)
  have p: "pending (ox_file ob) = items" using readItems_pending [OF Some] by simp
  obtain remaining acked n where d: "drain_items E (ox_handlers ob) items (ox_calls ob) = (remaining, acked, n)"
    by (cases "drain_items E (ox_handlers ob) items (ox_calls ob)")
  note D = drain_items_split [OF d]
  have w: "pending (writeItems sz None remaining f) = remaining" for f
    using pending_lines [of sz remaining] assms(1) by (simp add: writeItems_def) (simp add: pending_def)
  show ?thesis
  proof (cases "items = []")
    case True
    with Some show ?thesis by (simp add: drainOnce_def)
  next
    case False
    then show ?thesis
      using Some d D w p assms(2)
      by (cases "oe_rewrite_err E") (auto simp: drainOnce_def append_lines_def writeItems_def Let_def)
  qed
qed

lemma drainOnce_handlers [simp]: "ox_handlers (drainOnce sz E ob) = ox_handlers ob"
  by (auto simp: drainOnce_def Let_def split: option.split prod.split)

definition outbox_inv :: "(outboxItem \<Rightarrow> nat) \<Rightarrow> string list \<Rightarrow> outboxItem list \<times> DeliveryOutbox \<Rightarrow> bool" where
  "outbox_inv sz hs = (\<lambda>(accepted, ob). ox_handlers ob = hs \<and>
     (\<forall>it\<in>set accepted. it_Type it \<in> set hs \<longrightarrow> it \<in> set (pending (ox_file ob)) \<or> it \<in> set (ox_acked ob)))"

lemma outbox_step_inv:
  assumes sz: "\<And>it. 0 < sz it" and "outbox_inv sz hs s"
  shows "outbox_inv sz hs (outbox_step sz op s)"
proof -
  obtain accepted ob where s: "s = (accepted, ob)" by (cases s)
  show ?thesis
  proof (cases op)
    case (DoEnqueue err t p now)
    obtain r ob' where e: "Enqueue sz err t p now ob = (r, ob')" by (cases "Enqueue sz err t p now ob")
    show ?thesis
    proof (cases r)
      case None
      with e pending_Enqueue [of sz err t p now ob ob'] sz assms(2) s DoEnqueue show ?thesis
        by (auto simp: outbox_inv_def)
    next
      case (Some m)
      then have "ob' = ob" using e by (auto simp: Enqueue_def Let_def split: option.splits)
      with Some e assms(2) s DoEnqueue show ?thesis by (simp add: outbox_inv_def)
    qed
  next
    case (DoDrain E)
    let ?E = "E\<lparr>oe_enqueued := []\<rparr>"
    obtain acked where a: "ox_acked (drainOnce sz ?E ob) = ox_acked ob @ acked"
      and cases: "pending (ox_file (drainOnce sz ?E ob)) = pending (ox_file ob)
          \<or> mset (filter (\<lambda>it. it_Type it \<in> set (ox_handlers ob)) (pending (ox_file ob)))
               = mset (pending (ox_file (drainOnce sz ?E ob))) + mset acked"
      using drain_alone [of sz ?E ob] sz by auto
    have "it \<in> set (pending (ox_file (drainOnce sz ?E ob))) \<or> it \<in> set acked"
      if "it \<in> set (pending (ox_file ob))" "it_Type it \<in> set (ox_handlers ob)" for it
      using cases
    proof
      assume "mset (filter (\<lambda>it. it_Type it \<in> set (ox_handlers ob)) (pending (ox_file ob)))
               = mset (pending (ox_file (drainOnce sz ?E ob))) + mset acked"
      then have "set (filter (\<lambda>it. it_Type it \<in> set (ox_handlers ob)) (pending (ox_file ob)))
          = set (pending (ox_file (drainOnce sz ?E ob))) \<union> set acked"
        by (metis set_mset_mset set_mset_union)
      with that show ?thesis by auto
    qed (use that in simp)
    with assms(2) s DoDrain a show ?thesis by (auto simp: outbox_inv_def)
  qed
qed

interpretation outbox_calls: machine "outbox_step (\<lambda>it. Suc (sz it))" "outbox_inv (\<lambda>it. Suc (sz it)) hs"
  by unfold_locales (rule outbox_step_inv, simp)

lemma shift_wraps:
  "int64_wrap (2 ^ i) = (if i < 63 then 2 ^ i else if i = 63 then - (2 ^ 63) else 0)"
proof -
  consider "i < 63" | "i = 63" | "64 \<le> i" by linarith
  then show ?thesis
  proof cases
    case 1
    then have "(2 :: int) ^ i < 2 ^ 63" by (intro power_strict_increasing) simp_all
    moreover have "- (2 ^ 63) \<le> (2 :: int) ^ i" by (rule order_trans [of _ 0]) simp_all
    ultimately have "int64_range (2 ^ i)" unfolding int64_range_def by blast
    with 1 show ?thesis by (simp add: int64_wrap_id)
  next
    case 2
    then show ?thesis by (simp add: int64_wrap_def)
  next
    case 3
    then have "(2 :: int) ^ i = 2 ^ 64 * 2 ^ (i - 64)" by (metis le_add_diff_inverse power_add)
    then have "(2 :: int) ^ i mod 2 ^ 64 = 0" by (metis mod_mult_self1_is_0)
    then have "(2 ^ i + 2 ^ 63 :: int) mod 2 ^ 64 = 2 ^ 63" by (simp add: mod_add_left_eq [of "2 ^ i", symmetric] del: mod_add_left_eq)
    with 3 show ?thesis by (simp add: int64_wrap_def)
  qed
qed

subsection \<open>Properties\<close>



text \<open>
  An item enqueued while a drain is delivering is lost: the drain rewrites the file from
  the items it read before. If the rewrite succeeds, such an item is neither in the file
  afterwards nor acknowledged by the drain, although enqueueing it succeeded.
\<close>

theorem enqueue_during_drain_is_lost:
  assumes "\<And>it. 0 < sz it" and "readItems (oe_open_err E) (ox_file ob) = Some items" and "items \<noteq> []"
    and "oe_rewrite_err E = None" and "new \<in> set (oe_enqueued E)" and "new \<notin> set items"
  shows "new \<notin> set (pending (ox_file (drainOnce sz E ob)))
       \<and> (new \<in> set (ox_acked (drainOnce sz E ob)) \<longrightarrow> new \<in> set (ox_acked ob))"
proof -
  obtain remaining acked n where d: "drain_items E (ox_handlers ob) items (ox_calls ob) = (remaining, acked, n)"
    by (cases "drain_items E (ox_handlers ob) items (ox_calls ob)")
  have "pending (writeItems sz None remaining f) = remaining" for f
    using pending_lines [of sz remaining] assms(1) by (simp add: writeItems_def) (simp add: pending_def)
  moreover have "set remaining \<subseteq> set items" "set acked \<subseteq> set items"
    using drain_items_split(2,3) [OF d] by (auto simp: subseq_conv_nths dest: in_set_nthsD)
  ultimately show ?thesis
    using assms(2-4,6) d by (auto simp: drainOnce_def Let_def)
qed

theorem enqueue_during_drain_is_lost_witness:
  "let a = \<lparr>it_Type = ''result'', it_Payload = ''1'', it_EnqueuedAt = 1\<rparr>;
       b = \<lparr>it_Type = ''result'', it_Payload = ''2'', it_EnqueuedAt = 2\<rparr>;
       E = \<lparr>oe_handler = (\<lambda>n it. None), oe_cancelled = (\<lambda>n. False), oe_open_err = None,
            oe_rewrite_err = None, oe_enqueued = [b]\<rparr>;
       ob = (NewDeliveryOutbox (Some [Line 40 (Some a)])) \<lparr>ox_handlers := [''result'']\<rparr>
   in b \<notin> set (pending (ox_file (drainOnce (\<lambda>it. 40) E ob))) \<and> b \<notin> set (ox_acked (drainOnce (\<lambda>it. 40) E ob))"
proof -
  let ?a = "\<lparr>it_Type = ''result'', it_Payload = ''1'', it_EnqueuedAt = 1\<rparr>"
    and ?b = "\<lparr>it_Type = ''result'', it_Payload = ''2'', it_EnqueuedAt = 2\<rparr>"
  let ?E = "\<lparr>oe_handler = (\<lambda>n it. None), oe_cancelled = (\<lambda>n. False), oe_open_err = None,
            oe_rewrite_err = None, oe_enqueued = [?b]\<rparr>"
    and ?ob = "(NewDeliveryOutbox (Some [Line 40 (Some ?a)])) \<lparr>ox_handlers := [''result'']\<rparr>"
  have r: "readItems (oe_open_err ?E) (ox_file ?ob) = Some [?a]"
    by (simp add: readItems_def NewDeliveryOutbox_def max_line_def)
  show ?thesis
    using enqueue_during_drain_is_lost [of "\<lambda>it. 40", OF _ r, of ?b] by (simp add: Let_def NewDeliveryOutbox_def)
qed

text \<open>
  One line of 64 KiB or more stops the outbox for good: no drain, whatever the handlers
  would do, delivers anything or changes the file, so no item in it is delivered any more.
\<close>

theorem oversized_line_blocks_outbox:
  assumes "ox_file ob = Some ls" and "l \<in> set ls" and "line_length l \<ge> max_line"
  shows "fold (drainOnce sz) Es ob = ob"
proof -
  have "\<not> snd (scan ls)" using assms(2,3) by (intro scan_oversized) blast
  then have "readItems e (Some ls) = None" for e
    by (auto simp: readItems_def split: option.split prod.split)
  then have "drainOnce sz E ob = ob" for E using assms(1) by (simp add: drainOnce_def)
  then show ?thesis by (induction Es) simp_all
qed

theorem oversized_line_blocks_outbox_witness:
  "let ob = (NewDeliveryOutbox (Some [Line 40 (Some \<lparr>it_Type = ''result'', it_Payload = [], it_EnqueuedAt = 1\<rparr>), Line 70000 None]))
              \<lparr>ox_handlers := [''result'']\<rparr>
   in fold (drainOnce (\<lambda>it. 40)) (replicate 5 \<lparr>oe_handler = (\<lambda>n it. None), oe_cancelled = (\<lambda>n. False), oe_open_err = None,
            oe_rewrite_err = None, oe_enqueued = []\<rparr>) ob = ob"
  unfolding Let_def
  by (rule oversized_line_blocks_outbox [where l = "Line 70000 None"
        and ls = "[Line 40 (Some \<lparr>it_Type = ''result'', it_Payload = [], it_EnqueuedAt = 1\<rparr>), Line 70000 None]"])
     (simp_all add: NewDeliveryOutbox_def max_line_def)

text \<open>
  The base pause of the \<open>i\<close>-th item of a batch is two seconds for the first two, doubles
  up to the limit of thirty seconds, and is zero from the 64th item on, where the shift has
  left the range of the integer; it is never negative.
\<close>

theorem backoff_values:
  "backoffFor i = (if i = 0 then seconds 2 else if i < 5 then seconds (2 ^ i)
                   else if i < 63 then seconds 30 else 0)"
proof -
  have big: "30 < (2 :: int) ^ i" if "5 \<le> i"
  proof -
    have "(2 :: int) ^ 5 \<le> 2 ^ i" using that by (intro power_increasing) simp_all
    then show ?thesis by simp
  qed
  have secs: "int64_wrap (2 ^ i) > 30 \<longleftrightarrow> 5 \<le> i \<and> i < 63"
  proof (cases "5 \<le> i")
    case False
    then have "i = 0 \<or> i = 1 \<or> i = 2 \<or> i = 3 \<or> i = 4" by linarith
    then show ?thesis by (auto simp: shift_wraps)
  qed (use big in \<open>auto simp: shift_wraps\<close>)
  have zero: "seconds (- (2 ^ 63)) = 0" "seconds 0 = 0" "seconds 2 = 2000000000"
    by (simp_all add: seconds_def int64_wrap_def)
  consider "i = 0" | "0 < i" "i < 5" | "5 \<le> i" "i < 63" | "63 \<le> i" by linarith
  then show ?thesis
    by cases (use secs zero in \<open>auto simp: backoffFor_def Let_def shift_wraps\<close>)
qed

end
