(* ===== verification/Command_Exec.thy ===== *)
theory Command_Exec
  imports Agent_Config Outbox Cap_Lifecycle
begin

text \<open>
  Remote commands, \<open>internal/exec\<close>: the requests, the runner with its black and white list, and
  the handler that runs a request, tracks it in the command drainer of the agent and reports its
  result. The operating system is the parameter \<open>os :: exec_cmd \<Rightarrow> int \<Rightarrow> outcome\<close>: what starting a
  command with a time limit in nanoseconds comes to, i.e. which branch of the \<open>select\<close> in
  \<open>Execute\<close> is taken. The three readings of the clock, in nanoseconds, are an argument; \<open>rng\<close> is the
  order of the range over the environment variables.
\<close>

declare map_of_eq_Some_iff [simp del]

subsection \<open>types.go\<close>

record CommandRequest =
  cq_ServerID :: string
  cq_TraceID :: string
  cq_Command :: string
  cq_Args :: "string list"
  cq_Env :: "(string, string) gomap"
  cq_WorkingDir :: string
  cq_Timeout :: int
  cq_User :: string

record CommandResult =
  cr_TraceID :: string
  cr_ServerID :: string
  cr_PID :: int
  cr_ExitCode :: int
  cr_Stdout :: string
  cr_Stderr :: string
  cr_Timestamp :: int
  cr_Error :: string
  cr_Duration :: int

definition ErrCommandBlocked :: string where "ErrCommandBlocked = ''command is blocked by blacklist''"
definition ErrCommandNotAllowed :: string where "ErrCommandNotAllowed = ''command is not in whitelist''"
definition ErrTimeout :: string where "ErrTimeout = ''command execution timed out''"

fun dec_request :: "json \<Rightarrow> CommandRequest option" where
  "dec_request (Jobj fs) = do {
     server \<leftarrow> dec_string (field fs ''server_id'');
     trace \<leftarrow> dec_string (field fs ''trace_id'');
     command \<leftarrow> dec_string (field fs ''command'');
     args \<leftarrow> dec_string_list (field fs ''args'');
     env \<leftarrow> dec_string_map (field fs ''env_vars'');
     dir \<leftarrow> dec_string (field fs ''work_dir'');
     timeout \<leftarrow> dec_int64 (field fs ''timeout'');
     user \<leftarrow> dec_string (field fs ''user'');
     Some \<lparr>cq_ServerID = server, cq_TraceID = trace, cq_Command = command, cq_Args = args, cq_Env = env, cq_WorkingDir = dir,
           cq_Timeout = timeout, cq_User = user\<rparr> }"
| "dec_request Jnull = Some \<lparr>cq_ServerID = [], cq_TraceID = [], cq_Command = [], cq_Args = [], cq_Env = [], cq_WorkingDir = [],
     cq_Timeout = 0, cq_User = []\<rparr>"
| "dec_request _ = None"

subsection \<open>runner.go\<close>

record LocalRunner =
  lr_serverID :: string
  lr_settings :: CommandSettings

definition NewLocalRunner :: "string \<Rightarrow> CommandSettings \<Rightarrow> LocalRunner" where
  "NewLocalRunner serverID settings = \<lparr>lr_serverID = serverID, lr_settings = settings\<rparr>"

definition SetSettings :: "CommandSettings \<Rightarrow> LocalRunner \<Rightarrow> LocalRunner" where
  "SetSettings settings r = r\<lparr>lr_settings := settings\<rparr>"

definition GetSettings :: "LocalRunner \<Rightarrow> CommandSettings" where
  "GetSettings r = lr_settings r"

definition full_command :: "string \<Rightarrow> string list \<Rightarrow> string" where
  "full_command command args = (if args \<noteq> [] then command @ '' '' @ Join (CHR '' '') args else command)"

definition validateCommand :: "LocalRunner \<Rightarrow> string \<Rightarrow> string list \<Rightarrow> string option" where
  "validateCommand r command args =
     (let s = lr_settings r in
      if cs_Blacklist s \<noteq> [] then
        (case find (Contains (full_command command args)) (cs_Blacklist s) of
           Some pattern \<Rightarrow> Some (ErrCommandBlocked @ '': matches blacklist pattern '' @ [CHR 0x27] @ pattern @ [CHR 0x27])
         | None \<Rightarrow> None)
      else if cs_Whitelist s = [] then None
      else if list_ex (HasPrefix command) (cs_Whitelist s) then None
      else Some (ErrCommandNotAllowed @ '': command '' @ [CHR 0x27] @ command @ [CHR 0x27] @ '' not in whitelist''))"

text \<open>The \<open>exec.Cmd\<close> that is started; without \<open>Env\<close> the process inherits the environment.\<close>

record exec_cmd =
  ec_argv :: "string list"
  ec_Dir :: string
  ec_Env :: "string list option"

datatype outcome =
    StartFails string
  | TimesOut int string string
  | Exits int string string "(string + int) option"

definition command_timeout :: "LocalRunner \<Rightarrow> CommandRequest \<Rightarrow> int" where
  "command_timeout r req =
     (let t = (if cq_Timeout req \<le> 0 then cs_DefaultTimeout (lr_settings r) else cq_Timeout req)
      in if t \<le> 0 then 300 else t)"

text \<open>\<open>time.Duration(timeout) * time.Second\<close> is a product of 64 bits.\<close>

definition timeout_duration :: "int \<Rightarrow> int" where
  "timeout_duration timeout = sint (word_of_int timeout * 1000000000 :: 64 word)"

definition build_command :: "string list \<Rightarrow> ((string, string) gomap \<Rightarrow> (string, string) gomap) \<Rightarrow> CommandRequest \<Rightarrow> exec_cmd" where
  "build_command environ rng req =
     \<lparr>ec_argv = (if cq_Args req \<noteq> [] then cq_Command req # cq_Args req else [''sh'', ''-c'', cq_Command req]),
      ec_Dir = cq_WorkingDir req,
      ec_Env = (if cq_Env req \<noteq> [] then Some (environ @ map (\<lambda>(k, v). k @ ''='' @ v) (rng (cq_Env req))) else None)\<rparr>"

record exec_os =
  eo_run :: "exec_cmd \<Rightarrow> int \<Rightarrow> outcome"
  eo_Environ :: "string list"
  eo_range :: "(string, string) gomap \<Rightarrow> (string, string) gomap"

text \<open>\<open>t1\<close> is the time stamp, \<open>t2 - t0\<close> the duration, in whole milliseconds. The second result is the
  command that was started.\<close>

definition Execute :: "exec_os \<Rightarrow> int \<times> int \<times> int \<Rightarrow> LocalRunner \<Rightarrow> CommandRequest \<Rightarrow> CommandResult \<times> exec_cmd option" where
  "Execute os = (\<lambda>(t0, t1, t2) r req.
     let base = \<lparr>cr_TraceID = cq_TraceID req, cr_ServerID = lr_serverID r, cr_PID = 0, cr_ExitCode = 0, cr_Stdout = [], cr_Stderr = [],
                 cr_Timestamp = t1, cr_Error = [], cr_Duration = (t2 - t0) div 1000000\<rparr>
     in case validateCommand r (cq_Command req) (cq_Args req) of
          Some err \<Rightarrow> (base\<lparr>cr_Error := err, cr_ExitCode := 126\<rparr>, None)
        | None \<Rightarrow>
            (let cmd = build_command (eo_Environ os) (eo_range os) req in
             case eo_run os cmd (timeout_duration (command_timeout r req)) of
               StartFails err \<Rightarrow> (base\<lparr>cr_Error := err, cr_ExitCode := 1\<rparr>, None)
             | TimesOut pid out err \<Rightarrow>
                 (base\<lparr>cr_PID := pid, cr_Error := ErrTimeout, cr_ExitCode := 124, cr_Stdout := out, cr_Stderr := err\<rparr>, Some cmd)
             | Exits pid out err e \<Rightarrow>
                 (let done1 = base\<lparr>cr_PID := pid, cr_Stdout := out, cr_Stderr := err\<rparr> in
                  (case e of
                     None \<Rightarrow> done1
                   | Some (Inr code) \<Rightarrow> done1\<lparr>cr_ExitCode := code\<rparr>
                   | Some (Inl msg) \<Rightarrow> done1\<lparr>cr_ExitCode := 1, cr_Error := msg\<rparr>, Some cmd))))"

subsection \<open>server.go\<close>

text \<open>
  The handler with its runner and drainer. A request is handled in a goroutine of its own, so that
  \<open>HandleCommandEvent\<close> is three steps: it parses the request and enters it in the drainer, it
  runs the command, it reports the result and leaves the drainer. \<open>hd_active\<close> are the calls under
  way, \<open>hd_started\<close> the commands that were started and \<open>hd_sent\<close> the results handed to the sender.
\<close>

datatype phase = Accepted CommandRequest | Executed CommandRequest CommandResult

fun phase_request :: "phase \<Rightarrow> CommandRequest" where
  "phase_request (Accepted req) = req"
| "phase_request (Executed req _) = req"

record handler =
  hd_runner :: LocalRunner
  hd_serverID :: string
  hd_drainer :: "CommandDrainer option"
  hd_sender :: bool
  hd_active :: "(nat, phase) gomap"
  hd_started :: "(exec_cmd \<times> CommandSettings) list"
  hd_sent :: "CommandResult list"

definition track :: "(string \<Rightarrow> CommandDrainer \<Rightarrow> CommandDrainer) \<Rightarrow> CommandRequest \<Rightarrow> handler \<Rightarrow> handler" where
  "track f req h = (if cq_TraceID req \<noteq> [] then h\<lparr>hd_drainer := map_option (f (cq_TraceID req)) (hd_drainer h)\<rparr> else h)"

definition accept_event :: "nat \<Rightarrow> bytes \<Rightarrow> handler \<Rightarrow> handler" where
  "accept_event n payload h =
     (case Option.bind (json_parse payload) dec_request of
        None \<Rightarrow> h
      | Some req \<Rightarrow> track drainer_Start req (h\<lparr>hd_active := AList.update n (Accepted req) (hd_active h)\<rparr>))"

definition log_started :: "exec_cmd option \<Rightarrow> handler \<Rightarrow> handler" where
  "log_started cmd h = (case cmd of None \<Rightarrow> h | Some c \<Rightarrow> h\<lparr>hd_started := (c, lr_settings (hd_runner h)) # hd_started h\<rparr>)"

definition execute_event :: "exec_os \<Rightarrow> int \<times> int \<times> int \<Rightarrow> nat \<Rightarrow> handler \<Rightarrow> handler" where
  "execute_event os ts n h =
     (case map_of (hd_active h) n of
        Some (Accepted req) \<Rightarrow>
          (let (result, cmd) = Execute os ts (hd_runner h) req
           in log_started cmd (h\<lparr>hd_active := AList.update n (Executed req result) (hd_active h)\<rparr>))
      | _ \<Rightarrow> h)"

definition with_server :: "string \<Rightarrow> CommandResult \<Rightarrow> CommandResult" where
  "with_server serverID result = (if cr_ServerID result = [] then result\<lparr>cr_ServerID := serverID\<rparr> else result)"

definition report_event :: "nat \<Rightarrow> handler \<Rightarrow> handler" where
  "report_event n h =
     (case map_of (hd_active h) n of
        Some (Executed req result) \<Rightarrow>
          track drainer_Complete req
            (h\<lparr>hd_active := AList.delete n (hd_active h),
               hd_sent := (if hd_sender h then with_server (hd_serverID h) result # hd_sent h else hd_sent h)\<rparr>)
      | _ \<Rightarrow> h)"

text \<open>One call with nothing in between.\<close>

definition HandleCommandEvent :: "exec_os \<Rightarrow> int \<times> int \<times> int \<Rightarrow> nat \<Rightarrow> bytes \<Rightarrow> handler \<Rightarrow> handler" where
  "HandleCommandEvent os ts n payload h = report_event n (execute_event os ts n (accept_event n payload h))"

definition UpdateSettings :: "CommandSettings \<Rightarrow> handler \<Rightarrow> handler" where
  "UpdateSettings settings h = h\<lparr>hd_runner := SetSettings settings (hd_runner h)\<rparr>"

definition ExecuteLocal :: "exec_os \<Rightarrow> int \<times> int \<times> int \<Rightarrow> CommandRequest \<Rightarrow> handler \<Rightarrow> CommandResult \<times> handler" where
  "ExecuteLocal os ts req h =
     (let (result, cmd) = Execute os ts (hd_runner h) req in (with_server (hd_serverID h) result, log_started cmd h))"

subsection \<open>Calls in any order\<close>

datatype exec_op =
    OpAccept nat bytes
  | OpExecute nat "int \<times> int \<times> int"
  | OpReport nat
  | OpLocal CommandRequest "int \<times> int \<times> int"
  | OpSettings CommandSettings

text \<open>A new call has a number of its own.\<close>

fun exec_step :: "exec_os \<Rightarrow> exec_op \<Rightarrow> handler \<Rightarrow> handler" where
  "exec_step os (OpAccept n payload) h = (if map_of (hd_active h) n = None then accept_event n payload h else h)"
| "exec_step os (OpExecute n ts) h = execute_event os ts n h"
| "exec_step os (OpReport n) h = report_event n h"
| "exec_step os (OpLocal req ts) h = snd (ExecuteLocal os ts req h)"
| "exec_step os (OpSettings s) h = UpdateSettings s h"


subsection \<open>The lists\<close>

lemma Contains_sublist: "Contains s t \<longleftrightarrow> sublist t s"
proof
  assume "Contains s t"
  then obtain i where "HasPrefix (drop i s) t" unfolding Contains_def list_ex_iff by blast
  then obtain r where "drop i s = t @ r" by (auto simp: HasPrefix_iff_prefix prefix_def)
  then have "s = take i s @ t @ r" using append_take_drop_id [of i s] by simp
  then show "sublist t s" unfolding sublist_def by blast
next
  assume "sublist t s"
  then obtain l r where "s = l @ t @ r" by (auto simp: sublist_def)
  then show "Contains s t" by (auto simp: Contains_def list_ex_iff HasPrefix_def intro!: bexI [of _ "length l"])
qed

text \<open>What the settings allow, said without the order of the tests.\<close>

definition permits :: "CommandSettings \<Rightarrow> CommandRequest \<Rightarrow> bool" where
  "permits s req \<longleftrightarrow>
     (if cs_Blacklist s \<noteq> [] then \<forall>p \<in> set (cs_Blacklist s). \<not> sublist p (full_command (cq_Command req) (cq_Args req))
      else cs_Whitelist s = [] \<or> (\<exists>p \<in> set (cs_Whitelist s). prefix p (cq_Command req)))"

lemma validateCommand_permits: "validateCommand r (cq_Command req) (cq_Args req) = None \<longleftrightarrow> permits (lr_settings r) req"
proof (cases "cs_Blacklist (lr_settings r) = []")
  case True
  then show ?thesis by (auto simp: validateCommand_def permits_def HasPrefix_iff_prefix list_ex_iff Let_def)
next
  case False
  then have "validateCommand r (cq_Command req) (cq_Args req) = None
      \<longleftrightarrow> find (Contains (full_command (cq_Command req) (cq_Args req))) (cs_Blacklist (lr_settings r)) = None"
    by (simp add: validateCommand_def split: option.split)
  then show ?thesis using False by (auto simp: permits_def Contains_sublist find_None_iff)
qed

definition allowed_start :: "exec_os \<Rightarrow> exec_cmd \<times> CommandSettings \<Rightarrow> bool" where
  "allowed_start os = (\<lambda>(cmd, s). \<exists>req. cmd = build_command (eo_Environ os) (eo_range os) req \<and> permits s req)"

lemma Execute_started:
  "Execute os ts r req = (result, Some cmd) \<Longrightarrow> cmd = build_command (eo_Environ os) (eo_range os) req \<and> permits (lr_settings r) req"
  unfolding validateCommand_permits [symmetric]
  by (cases ts) (auto simp: Execute_def Let_def split: option.splits outcome.splits)

lemma track_other [simp]:
  "hd_started (track f req h) = hd_started h" "hd_active (track f req h) = hd_active h" "hd_runner (track f req h) = hd_runner h"
  by (simp_all add: track_def)

lemma log_started_other [simp]:
  "hd_active (log_started c h) = hd_active h" "hd_drainer (log_started c h) = hd_drainer h" "hd_runner (log_started c h) = hd_runner h"
  by (simp_all add: log_started_def split: option.split)

lemma started_allowed:
  assumes "list_all (allowed_start os) (hd_started h)" and "Execute os ts (hd_runner h) req = (result, cmd)"
    and "hd_started h' = hd_started h" and "hd_runner h' = hd_runner h"
  shows "list_all (allowed_start os) (hd_started (log_started cmd h'))"
  using assms Execute_started [of os ts "hd_runner h" req result]
  by (auto simp: log_started_def allowed_start_def split: option.split)

interpretation exec_ops: machine "exec_step os" "\<lambda>h :: handler. list_all (allowed_start os) (hd_started h)" for os
proof
  fix h :: handler and c
  assume h: "list_all (allowed_start os) (hd_started h)"
  show "list_all (allowed_start os) (hd_started (exec_step os c h))"
    using h started_allowed [OF h]
    by (cases c) (auto simp: accept_event_def execute_event_def report_event_def ExecuteLocal_def UpdateSettings_def
        split: option.splits phase.splits prod.splits)
qed


definition demo_os :: exec_os where
  "demo_os = \<lparr>eo_run = (\<lambda>cmd limit. Exits 42 ''out'' [] None), eo_Environ = [''PATH=/bin''], eo_range = (\<lambda>m. m)\<rparr>"

definition demo_command_settings :: CommandSettings where
  "demo_command_settings = \<lparr>cs_AllowLiteralCommands = False, cs_Whitelist = [''ls''], cs_Blacklist = [], cs_DefaultTimeout = 300\<rparr>"

definition demo_handler :: handler where
  "demo_handler = \<lparr>hd_runner = NewLocalRunner ''srv'' demo_command_settings, hd_serverID = ''srv'', hd_drainer = Some NewCommandDrainer,
     hd_sender = True, hd_active = [], hd_started = [], hd_sent = []\<rparr>"

definition demo_command :: "string \<Rightarrow> CommandRequest" where
  "demo_command command = \<lparr>cq_ServerID = ''srv'', cq_TraceID = ''t1'', cq_Command = command, cq_Args = [], cq_Env = [], cq_WorkingDir = [],
     cq_Timeout = 0, cq_User = []\<rparr>"


lemma settings_case:
  "(\<And>vs. P (f vs)) \<Longrightarrow> P s \<Longrightarrow> P (case v of Some (Garr vs) \<Rightarrow> f vs | _ \<Rightarrow> s)"
  "(\<And>b. P (g b)) \<Longrightarrow> P s \<Longrightarrow> P (case v of Some (Gbool b) \<Rightarrow> g b | _ \<Rightarrow> s)"
  "(\<And>x. P (h x)) \<Longrightarrow> P s \<Longrightarrow> P (case v of Some (Gfloat x) \<Rightarrow> h x | _ \<Rightarrow> s)"
  by (auto split: option.split gval.split)

lemma apply_keeps_blacklist:
  assumes "map_of m ''blacklist'' = None"
  shows "cs_Blacklist (apply_commands fi (Some (Gmap m)) s) = cs_Blacklist s"
  unfolding apply_commands_def Let_def option.case gval.case assms
  by (rule settings_case [where P = "\<lambda>x. cs_Blacklist x = cs_Blacklist s"]; simp?)+

text \<open>
  A white list that the control plane sends without a black list is not consulted: the default
  black list stays in force, and with it every command without one of its patterns is allowed.
\<close>

theorem whitelist_alone_is_ignored:
  assumes "map_of m ''blacklist'' = None"
  shows "validateCommand \<lparr>lr_serverID = sid, lr_settings = extractCommandSettingsFromSnapshot fi [(''commands'', Gmap m)]\<rparr> command args = None
     \<longleftrightarrow> (\<forall>p \<in> {''rm -rf'', ''dd if='', ''mkfs'', '':(){:|:&};:''}. \<not> sublist p (full_command command args))"
proof -
  let ?s = "extractCommandSettingsFromSnapshot fi [(''commands'', Gmap m)]" and ?req = "(demo_command command)\<lparr>cq_Args := args\<rparr>"
  have b: "cs_Blacklist ?s = [''rm -rf'', ''dd if='', ''mkfs'', '':(){:|:&};:'']"
    by (simp add: extractCommandSettingsFromSnapshot_def apply_keeps_blacklist [OF assms]) (simp add: DefaultCommandSettings_def)
  then have "set (cs_Blacklist ?s) = {''rm -rf'', ''dd if='', ''mkfs'', '':(){:|:&};:''}" and "cs_Blacklist ?s \<noteq> []" by simp_all
  then have "permits ?s ?req \<longleftrightarrow> (\<forall>p \<in> {''rm -rf'', ''dd if='', ''mkfs'', '':(){:|:&};:''}. \<not> sublist p (full_command (cq_Command ?req) (cq_Args ?req)))"
    unfolding permits_def by (simp only: if_True not_False_eq_True)
  moreover have "cq_Command ?req = command" "cq_Args ?req = args" by (simp_all add: demo_command_def)
  ultimately show ?thesis
    using validateCommand_permits [of "\<lparr>lr_serverID = sid, lr_settings = ?s\<rparr>" ?req] by (simp only: LocalRunner.select_convs)
qed

theorem whitelist_alone_is_ignored_witness:
  "validateCommand \<lparr>lr_serverID = ''srv'', lr_settings = extractCommandSettingsFromSnapshot (\<lambda>_. 0) [(''commands'', Gmap [(''whitelist'', Garr [Gstr ''ls''])])]\<rparr>
     ''reboot'' [] = None"
proof -
  have "\<forall>p \<in> {''rm -rf'', ''dd if='', ''mkfs'', '':(){:|:&};:''}. \<not> sublist p (full_command ''reboot'' [])"
    unfolding Contains_sublist [symmetric] by code_simp
  then show ?thesis using whitelist_alone_is_ignored [of "[(''whitelist'', Garr [Gstr ''ls''])]"] by simp
qed

text \<open>
  With a white list in force its entries need only begin a command line, which a shell then runs:
  a request may go on after the entry with any other command.
\<close>

theorem whitelist_admits_appended_commands:
  assumes "cs_Blacklist (lr_settings r) = []" and "p \<in> set (cs_Whitelist (lr_settings r))"
    and "cq_Command req = p @ ''; '' @ rest" and "cq_Args req = []"
    and "eo_run os (build_command (eo_Environ os) (eo_range os) req) (timeout_duration (command_timeout r req)) = Exits pid out err e"
  shows "map_option ec_argv (snd (Execute os ts r req)) = Some [''sh'', ''-c'', p @ ''; '' @ rest]"
proof -
  have "permits (lr_settings r) req" using assms(1-3) by (auto simp: permits_def intro!: bexI [of _ p])
  then have "validateCommand r (cq_Command req) (cq_Args req) = None" by (simp add: validateCommand_permits)
  then show ?thesis using assms(3-5) by (cases ts) (simp add: Execute_def Let_def build_command_def)
qed

theorem whitelist_admits_appended_commands_witness:
  "map_option ec_argv (snd (Execute demo_os (0, 0, 0) (NewLocalRunner ''srv'' demo_command_settings) (demo_command ''ls; reboot'')))
     = Some [''sh'', ''-c'', ''ls; reboot'']"
  using whitelist_admits_appended_commands [of "NewLocalRunner ''srv'' demo_command_settings" "''ls''" "demo_command ''ls; reboot''" "''reboot''" demo_os
      42 "''out''" "[]" None "(0, 0, 0)"]
  by (simp add: NewLocalRunner_def demo_command_settings_def demo_command_def demo_os_def)

subsection \<open>Results\<close>

text \<open>
  A result with exit code zero and no error is that of a process which was started, under a
  limit of at least a second, and ended by itself; its output is that of the process.
\<close>

theorem zero_exit_means_success:
  assumes "Execute os ts r req = (result, cmd)" and "cr_ExitCode result = 0"
  shows "\<exists>c e. cmd = Some c \<and> permits (lr_settings r) req \<and> 1 \<le> command_timeout r req
     \<and> eo_run os c (timeout_duration (command_timeout r req)) = Exits (cr_PID result) (cr_Stdout result) (cr_Stderr result) e
     \<and> (e = None \<or> e = Some (Inr 0)) \<and> cr_Error result = []"
  using assms validateCommand_permits [of r req]
  by (cases ts) (auto simp: Execute_def Let_def command_timeout_def split: option.splits outcome.splits sum.splits)

theorem zero_exit_means_success_witness:
  "\<exists>c e. snd (Execute demo_os (0, 5, 9) (NewLocalRunner ''srv'' demo_command_settings) (demo_command ''ls'')) = Some c
     \<and> permits demo_command_settings (demo_command ''ls'') \<and> eo_run demo_os c 300000000000 = Exits 42 ''out'' [] e"
proof -
  let ?r = "NewLocalRunner ''srv'' demo_command_settings"
  have d: "timeout_duration (command_timeout ?r (demo_command ''ls'')) = 300000000000"
    by (simp add: timeout_duration_def command_timeout_def demo_command_def NewLocalRunner_def demo_command_settings_def)
  have x: "fst (Execute demo_os (0, 5, 9) ?r (demo_command ''ls'')) = \<lparr>cr_TraceID = ''t1'', cr_ServerID = ''srv'', cr_PID = 42, cr_ExitCode = 0,
      cr_Stdout = ''out'', cr_Stderr = [], cr_Timestamp = 5, cr_Error = [], cr_Duration = 0\<rparr>"
    by (simp add: Execute_def validateCommand_def demo_command_def demo_command_settings_def NewLocalRunner_def demo_os_def HasPrefix_def)
  show ?thesis
    using zero_exit_means_success [of demo_os "(0, 5, 9)" ?r "demo_command ''ls''", OF prod.collapse [symmetric]]
    unfolding x d by (auto simp: NewLocalRunner_def)
qed

text \<open>
  A time limit of up to 9223372036 seconds is the limit of the process, to the nanosecond.
\<close>

theorem timeout_in_range:
  assumes "0 \<le> t" and "t \<le> 9223372036"
  shows "timeout_duration t = t * 1000000000"
proof -
  have "timeout_duration t = signed_take_bit 63 (t * 1000000000)"
    unfolding timeout_duration_def by transfer (simp add: signed_take_bit_take_bit)
  also have "\<dots> = t * 1000000000"
    using assms by (intro signed_take_bit_int_eq_self) simp_all
  finally show ?thesis .
qed

theorem timeout_in_range_witness: "timeout_duration 86400 = 86400 * 1000000000"
  using timeout_in_range [of 86400] by simp

text \<open>
  One second more wraps around to a limit in the past.
\<close>

theorem timeout_wraps: "timeout_duration 9223372037 < 0"
  by (simp add: timeout_duration_def)

subsection \<open>The drainer\<close>

text \<open>The trace of a call under way, where it has one; each trace belongs to one call.\<close>

definition trace_of :: "phase option \<Rightarrow> string option" where
  "trace_of ph = (case ph of Some p \<Rightarrow> if cq_TraceID (phase_request p) \<noteq> [] then Some (cq_TraceID (phase_request p)) else None | None \<Rightarrow> None)"

definition traces :: "(nat, phase) gomap \<Rightarrow> nat \<rightharpoonup> string" where
  "traces active n = trace_of (map_of active n)"

lemma traces_simps [simp]:
  "traces (AList.update n ph m) = (traces m)(n := trace_of (Some ph))" "traces (AList.delete n m) = (traces m)(n := None)"
  by (auto simp: traces_def trace_of_def)

definition tracks :: "CommandDrainer \<Rightarrow> (nat \<rightharpoonup> string) \<Rightarrow> bool" where
  "tracks d T \<longleftrightarrow> set d = ran T \<and> inj_on T (dom T)"

lemma tracks_start: "tracks d T \<Longrightarrow> T n = None \<Longrightarrow> (\<And>k. T k \<noteq> Some t) \<Longrightarrow> tracks (drainer_Start t d) (T(n \<mapsto> t))"
  by (auto simp: tracks_def drainer_Start_def ran_map_upd inj_on_def)

lemma tracks_complete:
  assumes "tracks d T" and "T n = Some t"
  shows "tracks (drainer_Complete t d) (T(n := None))"
proof -
  have i: "inj_on T (dom T)" and d: "set d = ran T" using assms(1) by (simp_all add: tracks_def)
  have "T k = Some t \<longleftrightarrow> k = n" for k using inj_onD [OF i, of k n] assms(2) by (auto simp: domI)
  then have "(T(n := None)) k = Some x \<longleftrightarrow> T k = Some x \<and> x \<noteq> t" for k x by (cases "k = n"; cases "x = t") (simp_all add: assms(2))
  then have "ran (T(n := None)) = ran T - {t}" unfolding ran_def by blast
  moreover have "inj_on (T(n := None)) (dom (T(n := None)))" using i unfolding inj_on_def by simp
  ultimately show ?thesis by (simp add: tracks_def drainer_Complete_def d)
qed

definition drainer_exact :: "handler \<Rightarrow> bool" where
  "drainer_exact h \<longleftrightarrow> (\<exists>d. hd_drainer h = Some d \<and> tracks d (traces (hd_active h)))"

fun new_trace :: "exec_op \<Rightarrow> string option" where
  "new_trace (OpAccept n payload) =
     (case Option.bind (json_parse payload) dec_request of Some req \<Rightarrow> if cq_TraceID req \<noteq> [] then Some (cq_TraceID req) else None | None \<Rightarrow> None)"
| "new_trace _ = None"

definition fresh_for :: "handler \<Rightarrow> string option \<Rightarrow> bool" where
  "fresh_for h t \<longleftrightarrow> (case t of None \<Rightarrow> True | Some x \<Rightarrow> \<forall>n. traces (hd_active h) n \<noteq> Some x)"

lemma trace_of_simps [simp]:
  "trace_of None = None" "trace_of (Some (Executed req res)) = trace_of (Some (Accepted req))"
  by (simp_all add: trace_of_def)

text \<open>A step that changes neither the traces of the calls under way nor the drainer.\<close>

lemma drainer_exact_cong:
  assumes "drainer_exact h" and "hd_drainer h' = hd_drainer h" and "traces (hd_active h') = traces (hd_active h)"
  shows "drainer_exact h'"
  using assms by (simp add: drainer_exact_def)

lemma execute_keeps_traces:
  "hd_drainer (execute_event os ts n h) = hd_drainer h" "traces (hd_active (execute_event os ts n h)) = traces (hd_active h)"
  by (auto simp: execute_event_def traces_def [of "hd_active h"] fun_upd_idem_iff split: option.split phase.split prod.split)

lemma trace_of_accepted: "trace_of (Some (Accepted req)) = (if cq_TraceID req \<noteq> [] then Some (cq_TraceID req) else None)"
  by (simp add: trace_of_def)

lemma accept_exact:
  assumes "drainer_exact h" and "map_of (hd_active h) n = None" and "fresh_for h (new_trace (OpAccept n payload))"
  shows "drainer_exact (accept_event n payload h)"
proof (cases "Option.bind (json_parse payload) dec_request")
  case (Some req)
  have n: "traces (hd_active h) n = None" using assms(2) by (simp add: traces_def)
  show ?thesis
  proof (cases "cq_TraceID req = []")
    case True
    then show ?thesis using Some assms(1) n by (simp add: accept_event_def track_def drainer_exact_def trace_of_accepted fun_upd_idem)
  next
    case False
    then have "\<And>k. traces (hd_active h) k \<noteq> Some (cq_TraceID req)" using Some assms(3) by (simp add: fresh_for_def)
    then show ?thesis using Some False assms(1) n tracks_start
      by (auto simp: accept_event_def track_def drainer_exact_def trace_of_accepted)
  qed
qed (use assms(1) in \<open>simp add: accept_event_def\<close>)

lemma report_exact:
  assumes "drainer_exact h"
  shows "drainer_exact (report_event n h)"
proof (cases "\<exists>req result. map_of (hd_active h) n = Some (Executed req result)")
  case True
  then obtain req result where e: "map_of (hd_active h) n = Some (Executed req result)" by blast
  then have n: "traces (hd_active h) n = (if cq_TraceID req \<noteq> [] then Some (cq_TraceID req) else None)" by (simp add: traces_def trace_of_accepted)
  from assms obtain d where d: "hd_drainer h = Some d" "tracks d (traces (hd_active h))" by (auto simp: drainer_exact_def)
  have "traces (hd_active (report_event n h)) = (traces (hd_active h))(n := None)" using e by (simp add: report_event_def)
  moreover have "hd_drainer (report_event n h) = Some (if cq_TraceID req \<noteq> [] then drainer_Complete (cq_TraceID req) d else d)"
    using e d(1) by (simp add: report_event_def track_def)
  ultimately show ?thesis using d(2) n tracks_complete by (simp add: drainer_exact_def fun_upd_idem split: if_splits)
next
  case False
  then have "report_event n h = h" by (auto simp: report_event_def split: option.split phase.split)
  then show ?thesis using assms by simp
qed

lemma exec_step_exact:
  assumes "drainer_exact h" and "fresh_for h (new_trace op)"
  shows "drainer_exact (exec_step os op h)"
proof (cases op)
  case (OpAccept n payload)
  then show ?thesis using assms accept_exact by (simp del: new_trace.simps)
next
  case (OpExecute n ts)
  then show ?thesis using drainer_exact_cong [OF assms(1) execute_keeps_traces] by simp
next
  case (OpReport n)
  then show ?thesis using assms report_exact by simp
next
  case (OpLocal req ts)
  then show ?thesis using drainer_exact_cong [OF assms(1)] by (simp add: ExecuteLocal_def case_prod_beta)
next
  case (OpSettings s)
  then show ?thesis using drainer_exact_cong [OF assms(1)] by (simp add: UpdateSettings_def)
qed

text \<open>Only an arrival brings a trace.\<close>

lemma exec_step_fresh:
  assumes "fresh_for h (Some t)" and "new_trace op \<noteq> Some t"
  shows "fresh_for (exec_step os op h) (Some t)"
proof (cases op)
  case (OpAccept n payload)
  then show ?thesis using assms
    by (cases "Option.bind (json_parse payload) dec_request") (auto simp: accept_event_def fresh_for_def trace_of_accepted split: if_splits)
next
  case (OpReport n)
  then show ?thesis using assms by (auto simp: report_event_def fresh_for_def split: option.split phase.split)
qed (use assms in \<open>simp_all add: fresh_for_def execute_keeps_traces ExecuteLocal_def UpdateSettings_def case_prod_beta\<close>)

lemma run_exact:
  assumes "drainer_exact h" and "distinct (List.map_filter new_trace ops)" and "\<forall>t \<in> set (List.map_filter new_trace ops). fresh_for h (Some t)"
  shows "drainer_exact (fold (exec_step os) ops h)"
  using assms
proof (induction ops arbitrary: h)
  case (Cons op ops)
  have "fresh_for h (new_trace op)" using Cons.prems(3) by (cases "new_trace op") (simp_all add: map_filter_simps fresh_for_def)
  then have "drainer_exact (exec_step os op h)" by (rule exec_step_exact [OF Cons.prems(1)])
  moreover have "fresh_for (exec_step os op h) (Some t)" if "t \<in> set (List.map_filter new_trace ops)" for t
    using that Cons.prems(2,3) by (intro exec_step_fresh) (auto simp: map_filter_simps split: option.splits)
  moreover have "distinct (List.map_filter new_trace ops)" using Cons.prems(2) by (simp add: map_filter_simps split: option.splits)
  ultimately show ?case using Cons.IH by simp
qed simp

text \<open>
  C38: The drainer knows the commands under way. When no two requests have the same trace, then after
  any interleaving of their steps the drainer holds exactly the traces of the calls that have not
  ended, so that a restart that waits for it to be empty waits for all of them and for no others.
\<close>

theorem drainer_holds_calls_under_way:
  assumes "hd_active h = []" and "hd_drainer h = Some []" and "distinct (List.map_filter new_trace ops)"
  shows "\<exists>d. hd_drainer (fold (exec_step os) ops h) = Some d
     \<and> (\<forall>t. t \<in> set d \<longleftrightarrow> (\<exists>n. trace_of (map_of (hd_active (fold (exec_step os) ops h)) n) = Some t))"
proof -
  have "drainer_exact h" using assms(1,2) by (simp add: drainer_exact_def tracks_def traces_def ran_def dom_def)
  then have "drainer_exact (fold (exec_step os) ops h)"
    by (rule run_exact [OF _ assms(3)]) (simp add: fresh_for_def traces_def assms(1))
  then show ?thesis by (auto simp: drainer_exact_def tracks_def traces_def ran_def)
qed

definition demo_payload :: bytes where
  "demo_payload = ''{'' @ [CHR 0x22] @ ''trace_id'' @ [CHR 0x22] @ '':'' @ [CHR 0x22] @ ''t1'' @ [CHR 0x22] @ ''}''"

lemma demo_payload_parses:
  "Option.bind (json_parse demo_payload) dec_request = Some ((demo_command [])\<lparr>cq_ServerID := []\<rparr>)"
  by code_simp

theorem drainer_holds_calls_under_way_witness:
  "hd_drainer (fold (exec_step demo_os) [OpAccept 0 demo_payload, OpExecute 0 (0, 0, 0)] demo_handler) = Some [''t1'']
   \<and> (\<exists>d. hd_drainer (fold (exec_step demo_os) [OpAccept 0 demo_payload, OpExecute 0 (0, 0, 0)] demo_handler) = Some d
       \<and> (''t1'' \<in> set d \<longleftrightarrow> (\<exists>n. trace_of (map_of (hd_active (fold (exec_step demo_os) [OpAccept 0 demo_payload, OpExecute 0 (0, 0, 0)] demo_handler)) n) = Some ''t1'')))"
proof -
  let ?ops = "[OpAccept 0 demo_payload, OpExecute 0 (0, 0, 0)]"
  have "hd_drainer (fold (exec_step demo_os) ?ops demo_handler) = Some [''t1'']" by code_simp
  moreover have "distinct (List.map_filter new_trace ?ops)"
    by (simp add: map_filter_simps demo_payload_parses split: option.split)
  moreover have "hd_active demo_handler = []" "hd_drainer demo_handler = Some []" by (simp_all add: demo_handler_def NewCommandDrainer_def)
  ultimately show ?thesis using drainer_holds_calls_under_way [of demo_handler ?ops demo_os] by blast
qed

text \<open>
  A request that is delivered twice is lost to the drainer: once the first of the two calls has
  ended the drainer is empty, and reports so, while the other is still running.
\<close>

theorem repeated_delivery_is_not_drained:
  "let h = fold (exec_step demo_os) [OpAccept 0 demo_payload, OpAccept 1 demo_payload, OpExecute 0 (0, 0, 0), OpReport 0] demo_handler
   in map_of (hd_active h) 1 = Some (Accepted ((demo_command [])\<lparr>cq_ServerID := []\<rparr>))
      \<and> map_option (\<lambda>d. Drain 30 [(d, 0)]) (hd_drainer h) = Some (Some True)"
  by code_simp

end
