(* ===== verification/Secret_Replication.thy ===== *)
theory Secret_Replication
  imports Secret_Store Upd_Release
begin

text \<open>
  Replication of secrets between clusters, \<open>internal/agent/secret_replication.go\<close>, and the reporter
  of versions, \<open>internal/agent/secret_sync_reporter.go\<close>. The origin asks the control plane for a grant,
  encrypts the data for the public key of the destination and queues the message until its channel is
  active; the destination decrypts and stores it.

  The control plane, the relay and the clock are the parameter \<open>N :: net_env\<close>, one observation per
  call. Key pairs and their encodings come from the libraries \<open>crypto/ecdh\<close>, \<open>crypto/x509\<close> and
  \<open>encoding/pem\<close>, the parameter \<open>X :: ecies_env\<close>; the other primitives are those of the key manager.
  Starting the listener and the ticker is not modelled; messages of errors are shortened.
\<close>

declare map_of_eq_Some_iff [simp del]

subsection \<open>Messages\<close>

record ReplicationPayload =
  rp_ChannelID :: string
  rp_GrantJWT :: string
  rp_SecretID :: string
  rp_SecretName :: string
  rp_Version :: "64 word"
  rp_EphemeralPubKey :: bytes
  rp_WrappedDEK :: bytes
  rp_WrappedDEKNonce :: bytes
  rp_Ciphertext :: bytes
  rp_CiphertextNonce :: bytes

definition payload_fields :: "ReplicationPayload \<Rightarrow> (string \<times> json) list" where
  "payload_fields p =
     [(''channel_id'', Jstr (rp_ChannelID p)), (''grant_jwt'', Jstr (rp_GrantJWT p)), (''secret_id'', Jstr (rp_SecretID p)),
      (''secret_name'', Jstr (rp_SecretName p)), (''version'', enc_uint64 (rp_Version p)),
      (''ephemeral_pub_key'', Jstr (b64_encode (rp_EphemeralPubKey p))), (''wrapped_dek'', Jstr (b64_encode (rp_WrappedDEK p))),
      (''wrapped_dek_nonce'', Jstr (b64_encode (rp_WrappedDEKNonce p))), (''ciphertext'', Jstr (b64_encode (rp_Ciphertext p))),
      (''ciphertext_nonce'', Jstr (b64_encode (rp_CiphertextNonce p)))]"

definition zero_payload :: ReplicationPayload where
  "zero_payload = \<lparr>rp_ChannelID = [], rp_GrantJWT = [], rp_SecretID = [], rp_SecretName = [], rp_Version = 0, rp_EphemeralPubKey = [],
     rp_WrappedDEK = [], rp_WrappedDEKNonce = [], rp_Ciphertext = [], rp_CiphertextNonce = []\<rparr>"

fun dec_payload :: "json \<Rightarrow> ReplicationPayload option" where
  "dec_payload (Jobj fs) = do {
     channel \<leftarrow> dec_string (field fs ''channel_id'');
     grant \<leftarrow> dec_string (field fs ''grant_jwt'');
     i \<leftarrow> dec_string (field fs ''secret_id'');
     name \<leftarrow> dec_string (field fs ''secret_name'');
     version \<leftarrow> dec_uint64 (field fs ''version'');
     eph \<leftarrow> dec_bytes (field fs ''ephemeral_pub_key'');
     dek \<leftarrow> dec_bytes (field fs ''wrapped_dek'');
     dekNonce \<leftarrow> dec_bytes (field fs ''wrapped_dek_nonce'');
     ciphertext \<leftarrow> dec_bytes (field fs ''ciphertext'');
     nonce \<leftarrow> dec_bytes (field fs ''ciphertext_nonce'');
     Some \<lparr>rp_ChannelID = channel, rp_GrantJWT = grant, rp_SecretID = i, rp_SecretName = name, rp_Version = version,
           rp_EphemeralPubKey = eph, rp_WrappedDEK = dek, rp_WrappedDEKNonce = dekNonce, rp_Ciphertext = ciphertext,
           rp_CiphertextNonce = nonce\<rparr> }"
| "dec_payload Jnull = Some zero_payload"
| "dec_payload _ = None"

text \<open>What the control plane knows of a secret, the fields that are used.\<close>

datatype target_status = TPending | TGranted | TDelivered | TAcknowledged | TOther string

record ReplicationTarget =
  rt_ClusterID :: string
  rt_ServerID :: string
  rt_Status :: target_status
  rt_SyncedVersion :: "64 word"

record RemoteSecret =
  rs_Name :: string
  rs_Scope :: string
  rs_OriginClusterID :: string
  rs_CurrentVersion :: "64 word"
  rs_ReplicationTargets :: "ReplicationTarget list"
  rs_State :: string

record GrantResponse =
  gr_ChannelID :: string
  gr_ChannelGrant :: string
  gr_Version :: "64 word"
  gr_DestPubKeyPEM :: bytes

subsection \<open>ECIES\<close>

text \<open>
  \<open>xe_pem\<close> is \<open>pem.Decode\<close>, \<open>xe_parse\<close> is \<open>x509.ParsePKIXPublicKey\<close>, whose result is an ECDSA key or of
  another type, \<open>xe_convert\<close> its method \<open>ECDH\<close>, \<open>xe_generate\<close> the n-th key pair, \<open>xe_public\<close> the
  uncompressed point of a private key, \<open>xe_marshal\<close> is \<open>x509.MarshalPKIXPublicKey\<close> and \<open>xe_point\<close> is
  \<open>NewPublicKey\<close> of the curve.
\<close>

record ecies_env =
  xe_pem :: "bytes \<Rightarrow> bytes option"
  xe_parse :: "bytes \<Rightarrow> (string, bytes + string) result"
  xe_convert :: "bytes \<Rightarrow> (string, bytes) result"
  xe_generate :: "nat \<Rightarrow> (string, bytes) result"
  xe_public :: "bytes \<Rightarrow> bytes"
  xe_marshal :: "bytes \<Rightarrow> (string, bytes) result"
  xe_point :: "bytes \<Rightarrow> (string, bytes) result"

text \<open>A random draw has a number, here and in the key manager.\<close>

definition aesGCMEncrypt :: "crypto_env \<Rightarrow> nat \<Rightarrow> bytes \<Rightarrow> bytes \<Rightarrow> (string, bytes \<times> bytes) result" where
  "aesGCMEncrypt C n key plaintext =
     (if \<not> aes_key_ok key then Inl ''crypto/aes: invalid key size''
      else case rand_read C n nonceSize of
          Inl e \<Rightarrow> Inl e
        | Inr nonce \<Rightarrow> Inr (gcm_seal C key nonce plaintext, nonce))"

text \<open>A nonce of another length than twelve makes \<open>Open\<close> panic.\<close>

definition aesGCMDecrypt :: "crypto_env \<Rightarrow> bytes \<Rightarrow> bytes \<Rightarrow> bytes \<Rightarrow> (string, bytes) result outcome" where
  "aesGCMDecrypt C key ciphertext nonce =
     (if \<not> aes_key_ok key then Returns (Inl ''crypto/aes: invalid key size'')
      else if length nonce \<noteq> nonceSize then Panics
      else Returns (gcm_open C key nonce ciphertext))"

definition replication_info :: bytes where
  "replication_info = ''underleaf-secret-replication''"

definition eciesWrapKey :: "crypto_env \<Rightarrow> ecies_env \<Rightarrow> nat \<Rightarrow> bytes \<Rightarrow> bytes \<Rightarrow> (string, bytes \<times> bytes \<times> bytes) result" where
  "eciesWrapKey C X n recipientPubKeyPEM plainKey =
     (case xe_pem X recipientPubKeyPEM of
        None \<Rightarrow> Inl ''eciesWrapKey: PEM decode failed''
      | Some block \<Rightarrow>
     (case xe_parse X block of
        Inl e \<Rightarrow> Inl (''eciesWrapKey: parse PKIX key: '' @ e)
      | Inr (Inr other) \<Rightarrow> Inl (''eciesWrapKey: expected *ecdsa.PublicKey, got '' @ other)
      | Inr (Inl ecdsaPub) \<Rightarrow>
     (case xe_convert X ecdsaPub of
        Inl e \<Rightarrow> Inl (''eciesWrapKey: convert to ecdh.PublicKey: '' @ e)
      | Inr recipient \<Rightarrow>
     (case xe_generate X n of
        Inl e \<Rightarrow> Inl (''eciesWrapKey: generate ephemeral key: '' @ e)
      | Inr ephPriv \<Rightarrow>
     (case ecdh_agree C ephPriv recipient of
        Inl e \<Rightarrow> Inl (''eciesWrapKey: ECDH: '' @ e)
      | Inr rawSecret \<Rightarrow>
     (case hkdf_read C rawSecret replication_info 32 of
        Inl e \<Rightarrow> Inl (''eciesWrapKey: HKDF: '' @ e)
      | Inr wrappingKey \<Rightarrow>
     (case aesGCMEncrypt C (Suc n) wrappingKey plainKey of
        Inl e \<Rightarrow> Inl (''eciesWrapKey: AES-GCM: '' @ e)
      | Inr (wrapped, gcmNonce) \<Rightarrow>
     (case xe_marshal X (xe_public X ephPriv) of
        Inl e \<Rightarrow> Inl (''eciesWrapKey: marshal ephemeral public key: '' @ e)
      | Inr ephPubDER \<Rightarrow> Inr (wrapped, ephPubDER, gcmNonce)))))))))"

definition extractECDHRawPoint :: "bytes \<Rightarrow> bytes" where
  "extractECDHRawPoint pkixDER = (if length pkixDER < 65 then pkixDER else drop (length pkixDER - 65) pkixDER)"

definition UnwrapReplicationPayload ::
  "crypto_env \<Rightarrow> ecies_env \<Rightarrow> json_env \<Rightarrow> ReplicationPayload \<Rightarrow> softwareKeyManager \<Rightarrow> (string, json) result outcome" where
  "UnwrapReplicationPayload C X J payload km =
     (let err = (\<lambda>s. Returns (Inl (''UnwrapReplicationPayload: '' @ s))) in
      if rp_GrantJWT payload = [] then err ''missing grant JWT''
      else if rp_SecretName payload = [] then err ''missing secret name in payload''
      else case xe_point X (extractECDHRawPoint (rp_EphemeralPubKey payload)) of
        Inl e \<Rightarrow> err ''parse ephemeral pub key''
      | Inr ephPub \<Rightarrow>
     (case sw_ECDHAgree C ephPub km of
        Inl e \<Rightarrow> err ''ECDH key agreement''
      | Inr rawSecret \<Rightarrow>
     (case hkdf_read C rawSecret replication_info 32 of
        Inl e \<Rightarrow> err ''HKDF''
      | Inr wrappingKey \<Rightarrow>
     (case aesGCMDecrypt C wrappingKey (rp_WrappedDEK payload) (rp_WrappedDEKNonce payload) of
        Panics \<Rightarrow> Panics | Blocks \<Rightarrow> Blocks
      | Returns (Inl e) \<Rightarrow> err ''unwrap DEK''
      | Returns (Inr plainDEK) \<Rightarrow>
     (case aesGCMDecrypt C plainDEK (rp_Ciphertext payload) (rp_CiphertextNonce payload) of
        Panics \<Rightarrow> Panics | Blocks \<Rightarrow> Blocks
      | Returns (Inl e) \<Rightarrow> err ''decrypt secret data''
      | Returns (Inr plainJSON) \<Rightarrow>
     (case unmarshal_data J plainJSON of
        None \<Rightarrow> err ''unmarshal secret data''
      | Some secretData \<Rightarrow> Returns (Inr secretData)))))))"

subsection \<open>The manager\<close>

record pendingDeliveryRecord =
  pd_payload :: ReplicationPayload
  pd_destClusterID :: string
  pd_destServerID :: string

text \<open>
  An observation: the clock in nanoseconds, the answers to the three calls of the control plane, what
  became of one delivery, and whether the context is done while the caller waits.
\<close>

datatype delivery = DialFails string | SendFails string | AckFails string | AckOk | AckError string

record net_obs =
  no_now :: int
  no_meta :: "(string, RemoteSecret) result"
  no_grant :: "(string, GrantResponse) result"
  no_patch :: "string option"
  no_delivery :: delivery
  no_cancelled :: bool

type_synonym net_env = "nat \<Rightarrow> net_obs"

datatype patch = PatchTargets string "ReplicationTarget list" | PatchVersion string "64 word"

text \<open>
  The manager with its store; \<open>rm_grants\<close> are the attempts since their guard was last cleared, with
  the time of the guard, \<open>rm_patches\<close> the changes the control plane accepted and
  \<open>rm_sent\<close> the payloads handed to the relay.
\<close>

record repl_state =
  rm_store :: "softwareKeyManager secret_state"
  rm_serverID :: string
  rm_clusterID :: string
  rm_pending :: "(string, pendingDeliveryRecord) gomap"
  rm_inFlight :: "(string, int) gomap"
  rm_draws :: nat
  rm_clock :: nat
  rm_grants :: "(string \<times> int) list"
  rm_patches :: "patch list"
  rm_sent :: "ReplicationPayload list"

type_synonym 'a repl_action = "(repl_state, 'a) state"

abbreviation rret :: "'a \<Rightarrow> 'a repl_action" where
  "rret \<equiv> State_Monad.return"

definition net :: "net_env \<Rightarrow> net_obs repl_action" where
  "net N = State (\<lambda>s. (N (rm_clock s), s\<lparr>rm_clock := Suc (rm_clock s)\<rparr>))"

definition on_store :: "(softwareKeyManager secret_state, 'a) state \<Rightarrow> 'a repl_action" where
  "on_store m = State (\<lambda>s. let (x, t) = run_state m (rm_store s) in (x, s\<lparr>rm_store := t\<rparr>))"

definition upd :: "(repl_state \<Rightarrow> repl_state) \<Rightarrow> unit repl_action" where
  "upd f = State (\<lambda>s. ((), f s))"

definition serverAPIIDKey :: string where
  "serverAPIIDKey = ''server_api_id''"

definition flight_key :: "string \<Rightarrow> string \<Rightarrow> string" where
  "flight_key secretID clusterID = secretID @ '':'' @ clusterID"

text \<open>The second half of \<open>replicateToTarget\<close>: the payload made from the data and the grant.\<close>

definition make_payload ::
  "crypto_env \<Rightarrow> ecies_env \<Rightarrow> string \<Rightarrow> string \<Rightarrow> SecretVersion \<Rightarrow> GrantResponse \<Rightarrow> (string, ReplicationPayload) result repl_action" where
  "make_payload C X secretID name version grant = State (\<lambda>s.
     let n = rm_draws s in
     (if sv_WrappedDEK version = [] then Inl ''secret has no wrapped DEK''
      else case im_UnwrapKey (software C) (sv_WrappedDEK version) (sm_km (rm_store s)) of
        Inl e \<Rightarrow> Inl ''unwrap local DEK''
      | Inr plaintextDEK \<Rightarrow>
          (case aesGCMEncrypt C n plaintextDEK (json_text (sv_Data version)) of
             Inl e \<Rightarrow> Inl (''re-encrypt secret data: '' @ e)
           | Inr (ciphertext, nonce) \<Rightarrow>
               (case eciesWrapKey C X (Suc n) (gr_DestPubKeyPEM grant) plaintextDEK of
                  Inl e \<Rightarrow> Inl (''ECIES wrap DEK: '' @ e)
                | Inr (wrappedDEK, ephPubKey, wrapNonce) \<Rightarrow>
                    Inr \<lparr>rp_ChannelID = gr_ChannelID grant, rp_GrantJWT = gr_ChannelGrant grant, rp_SecretID = secretID,
                         rp_SecretName = name, rp_Version = gr_Version grant, rp_EphemeralPubKey = ephPubKey,
                         rp_WrappedDEK = wrappedDEK, rp_WrappedDEKNonce = wrapNonce, rp_Ciphertext = ciphertext,
                         rp_CiphertextNonce = nonce\<rparr>)),
      s\<lparr>rm_draws := n + 3\<rparr>))"

definition replicateToTarget ::
  "raft_env \<Rightarrow> crypto_env \<Rightarrow> ecies_env \<Rightarrow> json_env \<Rightarrow> net_env \<Rightarrow> string \<Rightarrow> string \<Rightarrow> RemoteSecret \<Rightarrow> string \<Rightarrow> string
     \<Rightarrow> (string, unit) result repl_action" where
  "replicateToTarget R C X J N secretID secretPath remote destClusterID destServerID = do {
     g \<leftarrow> on_store (ss_Get R (software C) J secretPath 0);
     case g of
       Inl e \<Rightarrow> rret (Inl ''get local secret'')
     | Inr version \<Rightarrow> do {
         ob \<leftarrow> net N;
         case no_grant ob of
           Inl e \<Rightarrow> rret (Inl (''issue replication grant: '' @ e))
         | Inr grant \<Rightarrow>
             if gr_DestPubKeyPEM grant = [] then rret (Inr ())
             else do {
               p \<leftarrow> make_payload C X secretID (rs_Name remote) version grant;
               case p of
                 Inl e \<Rightarrow> rret (Inl e)
               | Inr payload \<Rightarrow> do {
                   upd (\<lambda>s. s\<lparr>rm_pending := AList.update (gr_ChannelID grant)
                     \<lparr>pd_payload = payload, pd_destClusterID = destClusterID, pd_destServerID = destServerID\<rparr> (rm_pending s)\<rparr>);
                   rret (Inr ()) } } } }"

definition target_due :: "RemoteSecret \<Rightarrow> ReplicationTarget \<Rightarrow> bool" where
  "target_due remote target =
     (rt_ServerID target \<noteq> []
      \<and> (case rt_Status target of
           TPending \<Rightarrow> True | TGranted \<Rightarrow> True
         | TDelivered \<Rightarrow> \<not> rt_SyncedVersion target \<ge> rs_CurrentVersion remote
         | TAcknowledged \<Rightarrow> \<not> rt_SyncedVersion target \<ge> rs_CurrentVersion remote
         | TOther _ \<Rightarrow> False))"

definition five_minutes :: int where
  "five_minutes = 300000000000"

definition replicate_one ::
  "raft_env \<Rightarrow> crypto_env \<Rightarrow> ecies_env \<Rightarrow> json_env \<Rightarrow> net_env \<Rightarrow> string \<Rightarrow> string \<Rightarrow> RemoteSecret \<Rightarrow> ReplicationTarget \<Rightarrow> unit repl_action" where
  "replicate_one R C X J N secretID path remote target =
     (if \<not> target_due remote target then rret ()
      else let key = flight_key secretID (rt_ClusterID target) in do {
        s \<leftarrow> State_Monad.get;
        ob \<leftarrow> net N;
        (case map_of (rm_inFlight s) key of
           Some ts \<Rightarrow> if no_now ob - ts < five_minutes then rret False
                      else do { upd (\<lambda>s. s\<lparr>rm_inFlight := AList.delete key (rm_inFlight s)\<rparr>); rret True }
         | None \<Rightarrow> rret True) \<bind> (\<lambda>go.
        if \<not> go then rret ()
        else do {
          ob2 \<leftarrow> net N;
          upd (\<lambda>s. s\<lparr>rm_inFlight := AList.update key (no_now ob2) (rm_inFlight s), rm_grants := (key, no_now ob2) # rm_grants s\<rparr>);
          _ \<leftarrow> replicateToTarget R C X J N secretID path remote (rt_ClusterID target) (rt_ServerID target);
          rret () }) })"

fun for_each :: "('a \<Rightarrow> unit repl_action) \<Rightarrow> 'a list \<Rightarrow> unit repl_action" where
  "for_each f [] = rret ()"
| "for_each f (x # xs) = do { f x; for_each f xs }"

definition replicate_secret :: "raft_env \<Rightarrow> crypto_env \<Rightarrow> ecies_env \<Rightarrow> json_env \<Rightarrow> net_env \<Rightarrow> SecretMetadata \<Rightarrow> unit repl_action" where
  "replicate_secret R C X J N meta =
     (case map_of (md_CustomMeta meta) serverAPIIDKey of
        None \<Rightarrow> rret ()
      | Some secretID \<Rightarrow>
          if secretID = [] then rret ()
          else do {
            ob \<leftarrow> net N;
            s \<leftarrow> State_Monad.get;
            case no_meta ob of
              Inl e \<Rightarrow> rret ()
            | Inr remote \<Rightarrow>
                if rs_Scope remote \<noteq> ''org'' \<or> rs_OriginClusterID remote \<noteq> rm_clusterID s then rret ()
                else if rs_State remote = ''revoked'' \<or> rs_State remote = ''deleted'' then rret ()
                else for_each (replicate_one R C X J N secretID (md_Path meta) remote) (rs_ReplicationTargets remote) })"

definition ReplicatePending :: "raft_env \<Rightarrow> crypto_env \<Rightarrow> ecies_env \<Rightarrow> json_env \<Rightarrow> net_env \<Rightarrow> (string, unit) result repl_action" where
  "ReplicatePending R C X J N = do {
     l \<leftarrow> on_store (ss_List R J []);
     case l of
       Inl e \<Rightarrow> rret (Inl ''SecretReplicationManager: list local secrets'')
     | Inr metas \<Rightarrow> do { for_each (replicate_secret R C X J N) metas; rret (Inr ()) } }"

definition HasPendingDelivery :: "string \<Rightarrow> repl_state \<Rightarrow> bool" where
  "HasPendingDelivery channelID s \<longleftrightarrow> map_of (rm_pending s) channelID \<noteq> None"

definition clearInFlight :: "string \<Rightarrow> string \<Rightarrow> repl_state \<Rightarrow> repl_state" where
  "clearInFlight secretID destClusterID s =
     (let key = flight_key secretID destClusterID in
      s\<lparr>rm_inFlight := AList.delete key (rm_inFlight s), rm_grants := filter (\<lambda>(k, _). k \<noteq> key) (rm_grants s)\<rparr>)"

definition deliverOnce :: "net_env \<Rightarrow> ReplicationPayload \<Rightarrow> string option repl_action" where
  "deliverOnce N payload = do {
     ob \<leftarrow> net N;
     case no_delivery ob of
       DialFails e \<Rightarrow> rret (Some (''dial relay socket: '' @ e))
     | SendFails e \<Rightarrow> rret (Some (''send payload: '' @ e))
     | AckFails e \<Rightarrow> do { upd (\<lambda>s. s\<lparr>rm_sent := payload # rm_sent s\<rparr>); rret (Some (''read ack: '' @ e)) }
     | AckError e \<Rightarrow> do { upd (\<lambda>s. s\<lparr>rm_sent := payload # rm_sent s\<rparr>); rret (Some (''destination error: '' @ e)) }
     | AckOk \<Rightarrow> do { upd (\<lambda>s. s\<lparr>rm_sent := payload # rm_sent s\<rparr>); rret None } }"

text \<open>The status of the first target of a cluster; a version of zero is not recorded.\<close>

fun set_target :: "string \<Rightarrow> target_status \<Rightarrow> 64 word \<Rightarrow> ReplicationTarget list \<Rightarrow> ReplicationTarget list" where
  "set_target clusterID status version [] = []"
| "set_target clusterID status version (t # ts) =
     (if rt_ClusterID t = clusterID
      then t\<lparr>rt_Status := status, rt_SyncedVersion := (if version > 0 then version else rt_SyncedVersion t)\<rparr> # ts
      else t # set_target clusterID status version ts)"

definition accept_patch :: "net_env \<Rightarrow> patch \<Rightarrow> string option repl_action" where
  "accept_patch N p = do {
     ob \<leftarrow> net N;
     case no_patch ob of
       Some e \<Rightarrow> rret (Some e)
     | None \<Rightarrow> do { upd (\<lambda>s. s\<lparr>rm_patches := p # rm_patches s\<rparr>); rret None } }"

text \<open>The loop over the attempts that are left.\<close>

fun update_status_loop :: "nat \<Rightarrow> net_env \<Rightarrow> string \<Rightarrow> string \<Rightarrow> target_status \<Rightarrow> 64 word \<Rightarrow> bool repl_action" where
  "update_status_loop 0 N secretID clusterID status version = rret False"
| "update_status_loop (Suc k) N secretID clusterID status version =
     (let again = (if k = 0 then rret False
                   else do { ob \<leftarrow> net N; if no_cancelled ob then rret False else update_status_loop k N secretID clusterID status version })
      in do {
        ob \<leftarrow> net N;
        case no_meta ob of
          Inl e \<Rightarrow> again
        | Inr remote \<Rightarrow> do {
            r \<leftarrow> accept_patch N (PatchTargets secretID (set_target clusterID status version (rs_ReplicationTargets remote)));
            case r of Some e \<Rightarrow> again | None \<Rightarrow> rret True } })"

definition updateReplicationTargetStatus :: "net_env \<Rightarrow> string \<Rightarrow> string \<Rightarrow> target_status \<Rightarrow> 64 word \<Rightarrow> bool repl_action" where
  "updateReplicationTargetStatus N = update_status_loop 3 N"

text \<open>\<open>Some True\<close> is a delivery, \<open>Some False\<close> none after all attempts, \<open>None\<close> one that was cancelled.\<close>

fun deliver_loop :: "nat \<Rightarrow> net_env \<Rightarrow> ReplicationPayload \<Rightarrow> bool option repl_action" where
  "deliver_loop 0 N payload = rret (Some False)"
| "deliver_loop (Suc k) N payload = do {
     r \<leftarrow> deliverOnce N payload;
     case r of
       None \<Rightarrow> rret (Some True)
     | Some e \<Rightarrow>
         if k = 0 then rret (Some False)
         else do { ob \<leftarrow> net N; if no_cancelled ob then rret None else deliver_loop k N payload } }"

definition DeliverPendingPayload :: "net_env \<Rightarrow> string \<Rightarrow> unit repl_action" where
  "DeliverPendingPayload N channelID = do {
     s \<leftarrow> State_Monad.get;
     case map_of (rm_pending s) channelID of
       None \<Rightarrow> rret ()
     | Some rec \<Rightarrow> do {
         upd (\<lambda>s. s\<lparr>rm_pending := AList.delete channelID (rm_pending s)\<rparr>);
         r \<leftarrow> deliver_loop 5 N (pd_payload rec);
         (if r \<noteq> Some True then rret ()
          else do {
            upd (clearInFlight (rp_SecretID (pd_payload rec)) (pd_destClusterID rec));
            _ \<leftarrow> updateReplicationTargetStatus N (rp_SecretID (pd_payload rec)) (pd_destClusterID rec) TDelivered (rp_Version (pd_payload rec));
            rret () }) } }"

subsection \<open>The destination\<close>

datatype replicationAck = Ack_ok | Ack_error string | Ack_panic

text \<open>The goroutine that acknowledges at the control plane.\<close>

definition acknowledge :: "net_env \<Rightarrow> ReplicationPayload \<Rightarrow> string \<Rightarrow> unit repl_action" where
  "acknowledge N payload localClusterID =
     (if rp_SecretID payload = [] then rret ()
      else do {
        ob \<leftarrow> net N;
        case no_meta ob of
          Inl e \<Rightarrow> rret ()
        | Inr remote \<Rightarrow> do {
            _ \<leftarrow> accept_patch N (PatchTargets (rp_SecretID payload)
                   (set_target localClusterID TAcknowledged (rp_Version payload) (rs_ReplicationTargets remote)));
            rret () } })"

definition handleReplicationConnection ::
  "raft_env \<Rightarrow> crypto_env \<Rightarrow> ecies_env \<Rightarrow> json_env \<Rightarrow> net_env \<Rightarrow> bytes \<Rightarrow> replicationAck repl_action" where
  "handleReplicationConnection R C X J N body =
     (case Option.bind (json_first body) dec_payload of
        None \<Rightarrow> rret (Ack_error ''decode'')
      | Some payload \<Rightarrow> do {
          s \<leftarrow> State_Monad.get;
          case UnwrapReplicationPayload C X J payload (sm_km (rm_store s)) of
            Panics \<Rightarrow> rret Ack_panic | Blocks \<Rightarrow> rret Ack_panic
          | Returns (Inl e) \<Rightarrow> rret (Ack_error (''unwrap: '' @ e))
          | Returns (Inr secretData) \<Rightarrow> do {
              r \<leftarrow> on_store (ss_Put R (software C) J (rp_SecretName payload) secretData None);
              case r of
                Inl e \<Rightarrow> rret (Ack_error ''store'')
              | Inr md \<Rightarrow> do { acknowledge N payload (rm_clusterID s); rret Ack_ok } } })"

subsection \<open>secret_sync_reporter.go\<close>

definition syncSecret :: "net_env \<Rightarrow> string \<Rightarrow> SecretMetadata \<Rightarrow> unit repl_action" where
  "syncSecret N secretID local = do {
     ob \<leftarrow> net N;
     case no_meta ob of
       Inl e \<Rightarrow> rret ()
     | Inr remote \<Rightarrow>
         if rs_CurrentVersion remote = md_Version local then rret ()
         else do { _ \<leftarrow> accept_patch N (PatchVersion secretID (md_Version local)); rret () } }"

definition syncInventory :: "raft_env \<Rightarrow> json_env \<Rightarrow> net_env \<Rightarrow> unit repl_action" where
  "syncInventory R J N = do {
     l \<leftarrow> on_store (ss_List R J []);
     case l of
       Inl e \<Rightarrow> rret ()
     | Inr metas \<Rightarrow>
         for_each (\<lambda>meta. case map_of (md_CustomMeta meta) serverAPIIDKey of
             None \<Rightarrow> rret ()
           | Some secretID \<Rightarrow> if secretID = [] then rret () else syncSecret N secretID meta) metas }"


subsection \<open>The message\<close>

lemma payload_names:
  "lower_keys (payload_fields p)" "field (payload_fields p) ''channel_id'' = Jstr (rp_ChannelID p)"
  "field (payload_fields p) ''grant_jwt'' = Jstr (rp_GrantJWT p)" "field (payload_fields p) ''secret_id'' = Jstr (rp_SecretID p)"
  "field (payload_fields p) ''secret_name'' = Jstr (rp_SecretName p)" "field (payload_fields p) ''version'' = enc_uint64 (rp_Version p)"
  "field (payload_fields p) ''ephemeral_pub_key'' = Jstr (b64_encode (rp_EphemeralPubKey p))"
  "field (payload_fields p) ''wrapped_dek'' = Jstr (b64_encode (rp_WrappedDEK p))"
  "field (payload_fields p) ''wrapped_dek_nonce'' = Jstr (b64_encode (rp_WrappedDEKNonce p))"
  "field (payload_fields p) ''ciphertext'' = Jstr (b64_encode (rp_Ciphertext p))"
  "field (payload_fields p) ''ciphertext_nonce'' = Jstr (b64_encode (rp_CiphertextNonce p))"
proof -
  have "list_all (\<lambda>k. map lower_char k = k) [''channel_id'', ''grant_jwt'', ''secret_id'', ''secret_name'', ''version'', ''ephemeral_pub_key'',
      ''wrapped_dek'', ''wrapped_dek_nonce'', ''ciphertext'', ''ciphertext_nonce'']" by code_simp
  then show l: "lower_keys (payload_fields p)" by (simp add: lower_keys_def payload_fields_def)
  show "field (payload_fields p) ''channel_id'' = Jstr (rp_ChannelID p)"
    "field (payload_fields p) ''grant_jwt'' = Jstr (rp_GrantJWT p)" "field (payload_fields p) ''secret_id'' = Jstr (rp_SecretID p)"
    "field (payload_fields p) ''secret_name'' = Jstr (rp_SecretName p)" "field (payload_fields p) ''version'' = enc_uint64 (rp_Version p)"
    "field (payload_fields p) ''ephemeral_pub_key'' = Jstr (b64_encode (rp_EphemeralPubKey p))"
    "field (payload_fields p) ''wrapped_dek'' = Jstr (b64_encode (rp_WrappedDEK p))"
    "field (payload_fields p) ''wrapped_dek_nonce'' = Jstr (b64_encode (rp_WrappedDEKNonce p))"
    "field (payload_fields p) ''ciphertext'' = Jstr (b64_encode (rp_Ciphertext p))"
    "field (payload_fields p) ''ciphertext_nonce'' = Jstr (b64_encode (rp_CiphertextNonce p))"
    unfolding field_lower [OF l] by (simp_all add: payload_fields_def)
qed

definition message :: "ReplicationPayload \<Rightarrow> bytes" where
  "message p = json_text (Jobj (payload_fields p)) @ [CHR 0x0A]"

lemma message_decodes: "Option.bind (json_first (message p)) dec_payload = Some p"
proof -
  have "json_ok (Jobj (payload_fields p))" by (simp add: payload_fields_def enc_uint64_def)
  moreover have "delimited [CHR 0x0A]" by code_simp
  ultimately have "json_first (message p) = Some (Jobj (payload_fields p))"
    unfolding json_first_def message_def by (subst p_value_text) simp_all
  then show ?thesis by (simp add: payload_names)
qed

subsection \<open>Wrapping and unwrapping\<close>

text \<open>
  What the libraries are documented to do: AES-GCM opens what it sealed under a key of any of its
  lengths, an exported public key parses, the encoding of a key ends with its uncompressed point of
  65 bytes, and the two sides of a key agreement obtain the same secret.
\<close>

definition ecies_ok :: "crypto_env \<Rightarrow> ecies_env \<Rightarrow> bool" where
  "ecies_ok C X \<longleftrightarrow>
     (\<forall>k n p. aes_key_ok k \<and> length n = nonceSize \<longrightarrow> gcm_open C k n (gcm_seal C k n p) = Inr p)
     \<and> (\<forall>k pem. pem_public C k = Inr pem \<longrightarrow>
          (\<exists>b e. xe_pem X pem = Some b \<and> xe_parse X b = Inr (Inl e) \<and> xe_convert X e = Inr (xe_public X k)))
     \<and> (\<forall>n d. xe_generate X n = Inr d \<longrightarrow> length (xe_public X d) = 65 \<and> xe_point X (xe_public X d) = Inr (xe_public X d)
          \<and> (\<forall>der. xe_marshal X (xe_public X d) = Inr der \<longrightarrow> (\<exists>h. der = h @ xe_public X d)))
     \<and> (\<forall>n d k. xe_generate X n = Inr d \<longrightarrow> ecdh_agree C d (xe_public X k) = ecdh_agree C k (xe_public X d))"

lemma extract_point: "length p = 65 \<Longrightarrow> extractECDHRawPoint (h @ p) = p"
  by (simp add: extractECDHRawPoint_def)

lemma gcm_roundtrip:
  assumes "crypto_ok C" and "ecies_ok C X" and "aesGCMEncrypt C n key plaintext = Inr (c, nonce)"
  shows "aesGCMDecrypt C key c nonce = Returns (Inr plaintext)"
proof -
  have k: "aes_key_ok key" and r: "rand_read C n nonceSize = Inr nonce" and c: "c = gcm_seal C key nonce plaintext"
    using assms(3) by (auto simp: aesGCMEncrypt_def split: if_splits sum.splits)
  have "length nonce = nonceSize" using r assms(1) by (auto simp: crypto_ok_def)
  moreover from this have "gcm_open C key nonce c = Inr plaintext" using k c assms(2) by (simp add: ecies_ok_def)
  ultimately show ?thesis using k by (simp add: aesGCMDecrypt_def)
qed

text \<open>The wrapped key is opened by the holder of the private key.\<close>

lemma eciesWrapKey_ok:
  assumes "ecies_ok C X" and "pem_public C k = Inr pem" and "eciesWrapKey C X n pem dek = Inr (wrapped, der, nonce)"
  obtains point secret wk where "xe_point X (extractECDHRawPoint der) = Inr point" and "ecdh_agree C k point = Inr secret"
    and "hkdf_read C secret replication_info 32 = Inr wk" and "aesGCMEncrypt C (Suc n) wk dek = Inr (wrapped, nonce)"
proof -
  obtain b e where pem: "xe_pem X pem = Some b" "xe_parse X b = Inr (Inl e)" "xe_convert X e = Inr (xe_public X k)"
    using assms(1,2) unfolding ecies_ok_def by blast
  obtain d where d: "xe_generate X n = Inr d" using assms(3) pem by (auto simp: eciesWrapKey_def split: sum.splits)
  obtain secret where a: "ecdh_agree C d (xe_public X k) = Inr secret"
    using assms(3) pem d by (auto simp: eciesWrapKey_def split: sum.splits)
  obtain wk where h: "hkdf_read C secret replication_info 32 = Inr wk"
    using assms(3) pem d a by (auto simp: eciesWrapKey_def split: sum.splits)
  have w: "aesGCMEncrypt C (Suc n) wk dek = Inr (wrapped, nonce)" and m: "xe_marshal X (xe_public X d) = Inr der"
    using assms(3) pem d a h by (auto simp: eciesWrapKey_def split: sum.splits)
  have p: "length (xe_public X d) = 65" "xe_point X (xe_public X d) = Inr (xe_public X d)" "\<exists>hd. der = hd @ xe_public X d"
    using assms(1) d m unfolding ecies_ok_def by blast+
  have "xe_point X (extractECDHRawPoint der) = Inr (xe_public X d)" using p extract_point by fastforce
  moreover have "ecdh_agree C k (xe_public X d) = Inr secret" using assms(1) a d unfolding ecies_ok_def by metis
  ultimately show thesis using h w by (rule that)
qed

lemma make_payload_ok:
  assumes "run_state (make_payload C X i name v grant) s = (Inr p, s')"
  obtains dek c nonce w der wn where "aesGCMEncrypt C (rm_draws s) dek (json_text (sv_Data v)) = Inr (c, nonce)"
    and "eciesWrapKey C X (Suc (rm_draws s)) (gr_DestPubKeyPEM grant) dek = Inr (w, der, wn)"
    and "p = \<lparr>rp_ChannelID = gr_ChannelID grant, rp_GrantJWT = gr_ChannelGrant grant, rp_SecretID = i, rp_SecretName = name,
           rp_Version = gr_Version grant, rp_EphemeralPubKey = der, rp_WrappedDEK = w, rp_WrappedDEKNonce = wn, rp_Ciphertext = c,
           rp_CiphertextNonce = nonce\<rparr>"
  using assms by (auto simp: make_payload_def Let_def split: if_splits sum.splits)

lemma payload_unwraps:
  assumes "crypto_ok C" and "ecies_ok C X" and "data_ok J (sv_Data v)" and "run_state (make_payload C X i name v grant) s = (Inr p, s')"
    and "sw_ExportPublicKey C km = Inr (gr_DestPubKeyPEM grant)" and "gr_ChannelGrant grant \<noteq> []" and "name \<noteq> []"
  shows "UnwrapReplicationPayload C X J p km = Returns (Inr (sv_Data v))" and "rp_SecretName p = name"
proof -
  obtain dek c nonce w der wn where m: "aesGCMEncrypt C (rm_draws s) dek (json_text (sv_Data v)) = Inr (c, nonce)"
      "eciesWrapKey C X (Suc (rm_draws s)) (gr_DestPubKeyPEM grant) dek = Inr (w, der, wn)"
    and p: "p = \<lparr>rp_ChannelID = gr_ChannelID grant, rp_GrantJWT = gr_ChannelGrant grant, rp_SecretID = i, rp_SecretName = name,
           rp_Version = gr_Version grant, rp_EphemeralPubKey = der, rp_WrappedDEK = w, rp_WrappedDEKNonce = wn, rp_Ciphertext = c,
           rp_CiphertextNonce = nonce\<rparr>"
    using assms(4) by (rule make_payload_ok)
  obtain k where k: "identity_guard ''identity key not available'' km = Inr k" "pem_public C k = Inr (gr_DestPubKeyPEM grant)"
    using assms(5) by (auto simp: sw_ExportPublicKey_def split: sum.splits)
  obtain point secret wk where e: "xe_point X (extractECDHRawPoint der) = Inr point" "ecdh_agree C k point = Inr secret"
      "hkdf_read C secret replication_info 32 = Inr wk" "aesGCMEncrypt C (Suc (Suc (rm_draws s))) wk dek = Inr (w, wn)"
    using assms(2) k(2) m(2) by (rule eciesWrapKey_ok)
  have "sw_ECDHAgree C point km = Inr secret"
    using k(1) e(2) by (auto simp: sw_ECDHAgree_def identity_guard_def split: if_splits option.splits)
  then show "UnwrapReplicationPayload C X J p km = Returns (Inr (sv_Data v))"
    using e(1,3) gcm_roundtrip [OF assms(1,2) e(4)] gcm_roundtrip [OF assms(1,2) m(1)] assms(6,7)
    by (simp add: UnwrapReplicationPayload_def p unmarshal_data_text [OF assms(3)])
  show "rp_SecretName p = name" by (simp add: p)
qed


subsection \<open>From one cluster to the other\<close>

lemma run_on_store: "run_state (on_store m) s = (fst (run_state m (rm_store s)), s\<lparr>rm_store := snd (run_state m (rm_store s))\<rparr>)"
  by (simp add: on_store_def split: prod.split)

lemma run_net: "run_state (net N) s = (N (rm_clock s), s\<lparr>rm_clock := Suc (rm_clock s)\<rparr>)"
  by (simp add: net_def)

lemma run_upd: "run_state (upd f) s = ((), f s)"
  by (simp add: upd_def)

lemmas repl_run = run_on_store run_net run_upd

lemma accept_patch_store: "rm_store (snd (run_state (accept_patch N p) s)) = rm_store s"
  by (simp add: accept_patch_def repl_run split: option.split)

lemma acknowledge_store: "rm_store (snd (run_state (acknowledge N p c) s)) = rm_store s"
  using accept_patch_store by (simp add: acknowledge_def repl_run case_prod_beta split: sum.split)

lemma connection_ok:
  assumes "run_state (handleReplicationConnection R C X J N (message p)) t = (Ack_ok, t')"
    and "UnwrapReplicationPayload C X J p (sm_km (rm_store t)) = Returns (Inr d)"
  obtains md where "run_state (ss_Put R (software C) J (rp_SecretName p) d None) (rm_store t) = (Inr md, rm_store t')"
proof -
  let ?r = "run_state (ss_Put R (software C) J (rp_SecretName p) d None) (rm_store t)"
  obtain md where md: "fst ?r = Inr md" and "t' = snd (run_state (acknowledge N p (rm_clusterID t)) (t\<lparr>rm_store := snd ?r\<rparr>))"
    using assms by (auto simp: handleReplicationConnection_def message_decodes repl_run case_prod_beta split: sum.splits)
  then have "rm_store t' = snd ?r" by (simp add: acknowledge_store)
  with md show thesis by (intro that [of md]) (simp add: prod_eq_iff)
qed

text \<open>
  C7: A secret that was replicated is readable at the destination. When the origin makes a message for the
  public key of the destination, and the destination, on a stable leader, acknowledges it, then
  \<open>Get\<close> at the destination, under the name the control plane has for the secret, returns the data
  the origin had, through JSON, base64, key agreement, two layers of encryption and both stores.
\<close>

theorem replicated_secret_is_readable:
  assumes "crypto_ok C" and "ecies_ok C X" and "json_env_ok J" and "data_ok J (sv_Data v)"
    and "run_state (make_payload C X secretID name v grant) s = (Inr p, s')"
    and "sw_ExportPublicKey C (sm_km (rm_store t)) = Inr (gr_DestPubKeyPEM grant)" and "gr_ChannelGrant grant \<noteq> []" and "name \<noteq> []"
    and "sw_inv C (sm_km (rm_store t))" and "stable_leader R" and "quiet R" and "node_started (sm_node (rm_store t))"
    and "plain_path (normalizePath name)"
    and "run_state (handleReplicationConnection R C X J N (message p)) t = (Ack_ok, t')"
    and "\<And>md u. run_state (ss_Put R (software C) J name (sv_Data v) None) (rm_store t) = (Inr md, u) \<Longrightarrow> 0 < md_Version md \<and> md_Version md < 2 ^ 53"
  shows "\<exists>m w u. run_state (ss_Get R (software C) J name 0) (rm_store t') = (Inr \<lparr>sv_Data = sv_Data v, sv_Metadata = m, sv_WrappedDEK = w\<rparr>, u)"
proof -
  note u = payload_unwraps [OF assms(1,2,4-8)]
  obtain md where md: "run_state (ss_Put R (software C) J name (sv_Data v) None) (rm_store t) = (Inr md, rm_store t')"
    using connection_ok [OF assms(14) u(1)] unfolding u(2) by blast
  have n: "unat (md_Version md) < 2 ^ 53" "md_Version md \<noteq> 0" using assms(15) [OF md] by (auto simp: word_less_nat_alt)
  let ?s = "rm_store t'"
  obtain sec c w dek where a: "stored_secret J (node_fsm (sm_node ?s)) (normalizePath name) = Inr sec" "getLatestVersion sec = md_Version md"
     "map_of (sec_Versions sec) (md_Version md) \<noteq> None" "meta_ok J md"
     "seal_kv ?s (versionKey (normalizePath name) (md_Version md)) = Some (json_text (Jobj (version_entry c w md)))"
     "im_UnwrapKey (software C) w (sm_km ?s) = Inr dek" "im_Decrypt (software C) c (sm_km ?s) = Inr (json_text (sv_Data v))"
     "\<not> sm_sealed ?s" "sm_initialized ?s" "node_started (sm_node ?s)"
    by (rule sw.after_put [OF conjI [OF assms(1,9)] assms(3,4,10-13) refl md n(2)])
  obtain u where "run_state (ss_Get R (software C) J name 0) ?s = (Inr \<lparr>sv_Data = sv_Data v, sv_Metadata = canon_meta md, sv_WrappedDEK = w\<rparr>, u)"
    by (rule get_entry [OF assms(11) a(10,8,9) assms(3,4) a(1) _ a(3,5) n(1) a(4,6,7), of 0]) (use a(2) in auto)
  then show ?thesis by blast
qed


subsection \<open>The guard against repeated attempts\<close>

text \<open>Attempts for the same secret and cluster, newest first, are five minutes apart, and the guard is not older.\<close>

definition guard :: "(string \<rightharpoonup> int) \<Rightarrow> (string \<times> int) list \<Rightarrow> bool" where
  "guard m gs \<longleftrightarrow> sorted_wrt (\<lambda>x y. fst x = fst y \<longrightarrow> snd y + five_minutes \<le> snd x) gs
     \<and> (\<forall>(k, t) \<in> set gs. \<exists>t'. m k = Some t' \<and> t \<le> t')"

lemma guard_attempt:
  assumes "guard m gs" and "\<And>ts. m k = Some ts \<Longrightarrow> ts + five_minutes \<le> t"
  shows "guard (m(k \<mapsto> t)) ((k, t) # gs)"
  using assms by (fastforce simp: guard_def five_minutes_def)

lemma guard_clear: "guard m gs \<Longrightarrow> guard (m(k := None)) (filter (\<lambda>(k', _). k' \<noteq> k) gs)"
  by (auto simp: guard_def sorted_wrt_filter)

definition guarded :: "repl_state \<Rightarrow> repl_state \<Rightarrow> bool" where
  "guarded s s' \<longleftrightarrow> (guard (map_of (rm_inFlight s)) (rm_grants s) \<longrightarrow> guard (map_of (rm_inFlight s')) (rm_grants s'))"

interpretation guards: io_preorder guarded
  by unfold_locales (auto simp: guarded_def)

lemma guarded_basic:
  "state_io_rel guarded (net N)" "state_io_rel guarded (on_store m)"
  "(\<And>s. rm_inFlight (f s) = rm_inFlight s \<and> rm_grants (f s) = rm_grants s) \<Longrightarrow> state_io_rel guarded (upd f)"
  "state_io_rel guarded (upd (clearInFlight i c))"
  by (auto simp: state_io_rel_def guarded_def repl_run clearInFlight_def Let_def intro: guard_clear)

lemma guarded_make_payload: "state_io_rel guarded (make_payload C X i n v g)"
  by (simp add: state_io_rel_def guarded_def make_payload_def Let_def)

lemma guarded_replicateToTarget: "state_io_rel guarded (replicateToTarget R C X J N i p r c d)"
  unfolding replicateToTarget_def by (intro guards.io_intros guarded_basic guarded_make_payload) simp

lemma guarded_accept_patch: "state_io_rel guarded (accept_patch N p)"
  unfolding accept_patch_def by (intro guards.io_intros guarded_basic) simp

lemma guarded_update_status: "state_io_rel guarded (update_status_loop k N i c st v)"
  by (induction k) (auto intro!: guards.io_intros guarded_basic guarded_accept_patch)

lemma guarded_deliverOnce: "state_io_rel guarded (deliverOnce N p)"
proof -
  have "state_io_rel guarded (do { upd (\<lambda>s. s\<lparr>rm_sent := p # rm_sent s\<rparr>); rret x })" for x :: "string option"
    by (intro guards.io_intros guarded_basic) simp
  then show ?thesis unfolding deliverOnce_def by (auto intro!: guards.io_intros guarded_basic split: delivery.split)
qed

lemma guarded_deliver_loop: "state_io_rel guarded (deliver_loop k N p)"
  by (induction k) (auto intro!: guards.io_intros guarded_basic guarded_deliverOnce)

lemma guarded_Deliver: "state_io_rel guarded (DeliverPendingPayload N ch)"
  unfolding DeliverPendingPayload_def updateReplicationTargetStatus_def
  by (intro guards.io_intros guarded_basic guarded_deliver_loop guarded_update_status) simp

lemma guarded_for_each: "(\<And>x. state_io_rel guarded (f x)) \<Longrightarrow> state_io_rel guarded (for_each f xs)"
  by (induction xs) (auto intro!: guards.io_intros)

lemma guarded_handle: "state_io_rel guarded (handleReplicationConnection R C X J N b)"
proof -
  have "state_io_rel guarded (acknowledge N p c)" for p c
    unfolding acknowledge_def by (intro guards.io_intros guarded_basic guarded_accept_patch)
  then show ?thesis
    unfolding handleReplicationConnection_def
    by (auto intro!: guards.io_intros guarded_basic split: outcome.split sum.split)
qed

lemma guarded_sync: "state_io_rel guarded (syncInventory R J N)"
  unfolding syncInventory_def syncSecret_def
  by (intro guards.io_intros guarded_basic guarded_for_each guarded_accept_patch)

text \<open>An attempt, with a clock that does not go back.\<close>

lemma guarded_replicate_one:
  assumes "mono (\<lambda>n. no_now (N n))"
  shows "state_io_rel guarded (replicate_one R C X J N i p remote tgt)"
proof (cases "target_due remote tgt")
  case True
  let ?k = "flight_key i (rt_ClusterID tgt)"
  let ?att = "do {
      ob2 \<leftarrow> net N;
      upd (\<lambda>s. s\<lparr>rm_inFlight := AList.update ?k (no_now ob2) (rm_inFlight s), rm_grants := (?k, no_now ob2) # rm_grants s\<rparr>);
      _ \<leftarrow> replicateToTarget R C X J N i p remote (rt_ClusterID tgt) (rt_ServerID tgt);
      rret () }"
  have att: "guard (map_of (rm_inFlight (snd (run_state ?att s)))) (rm_grants (snd (run_state ?att s)))"
    if "guard m (rm_grants s)" "\<And>ts. m ?k = Some ts \<Longrightarrow> ts + five_minutes \<le> no_now (N (rm_clock s))"
      "m(?k := None) = (map_of (rm_inFlight s))(?k := None)" for m s
  proof -
    let ?t = "no_now (N (rm_clock s))"
    let ?s = "s\<lparr>rm_clock := Suc (rm_clock s), rm_inFlight := AList.update ?k ?t (rm_inFlight s), rm_grants := (?k, ?t) # rm_grants s\<rparr>"
    have "m(?k \<mapsto> ?t) = (map_of (rm_inFlight s))(?k \<mapsto> ?t)" using that(3) by (metis fun_upd_upd)
    then have "guard (map_of (rm_inFlight ?s)) (rm_grants ?s)" using guard_attempt [of m "rm_grants s" ?k ?t] that(1,2) by simp
    moreover have "snd (run_state ?att s) = snd (run_state (replicateToTarget R C X J N i p remote (rt_ClusterID tgt) (rt_ServerID tgt)) ?s)"
      by (simp add: repl_run case_prod_beta)
    ultimately show ?thesis
      using guarded_replicateToTarget [of R C X J N i p remote "rt_ClusterID tgt" "rt_ServerID tgt"] by (auto simp: state_io_rel_def guarded_def)
  qed
  have m: "no_now (N n) \<le> no_now (N (Suc n))" for n using assms by (simp add: mono_def)
  show ?thesis
    unfolding state_io_rel_def guarded_def
  proof (intro allI impI)
    fix s :: repl_state assume g: "guard (map_of (rm_inFlight s)) (rm_grants s)"
    let ?s = "snd (run_state (replicate_one R C X J N i p remote tgt) s)" and ?s1 = "s\<lparr>rm_clock := Suc (rm_clock s)\<rparr>"
    show "guard (map_of (rm_inFlight ?s)) (rm_grants ?s)"
    proof (cases "map_of (rm_inFlight s) ?k")
      case None
      then have "?s = snd (run_state ?att ?s1)" using True by (simp add: replicate_one_def Let_def repl_run case_prod_beta)
      with att [of "map_of (rm_inFlight s)" ?s1] g None show ?thesis by simp
    next
      case (Some ts)
      show ?thesis
      proof (cases "no_now (N (rm_clock s)) - ts < five_minutes")
        case True
        then have "?s = ?s1" using Some \<open>target_due remote tgt\<close> by (simp add: replicate_one_def Let_def repl_run case_prod_beta)
        with g show ?thesis by simp
      next
        case False
        let ?s2 = "?s1\<lparr>rm_inFlight := AList.delete ?k (rm_inFlight s)\<rparr>"
        have "?s = snd (run_state ?att ?s2)" using False Some True by (simp add: replicate_one_def Let_def repl_run case_prod_beta)
        moreover have "ts + five_minutes \<le> no_now (N (Suc (rm_clock s)))" using False m [of "rm_clock s"] by linarith
        ultimately show ?thesis using att [of "map_of (rm_inFlight s)" ?s2] g Some by simp
      qed
    qed
  qed
qed (simp add: replicate_one_def guards.io_return)


lemma guarded_ReplicatePending:
  assumes "mono (\<lambda>n. no_now (N n))"
  shows "state_io_rel guarded (ReplicatePending R C X J N)"
  unfolding ReplicatePending_def replicate_secret_def
  by (intro guards.io_intros guarded_basic guarded_for_each guarded_replicate_one [OF assms])

text \<open>The calls of one agent in any order; the targets of a cycle can also come one by one.\<close>

datatype repl_op =
    RPending
  | ROne string string RemoteSecret ReplicationTarget
  | RDeliver string
  | RReceive bytes
  | RSync

fun repl_step :: "raft_env \<Rightarrow> crypto_env \<Rightarrow> ecies_env \<Rightarrow> json_env \<Rightarrow> net_env \<Rightarrow> repl_op \<Rightarrow> repl_state \<Rightarrow> repl_state" where
  "repl_step R C X J N RPending s = snd (run_state (ReplicatePending R C X J N) s)"
| "repl_step R C X J N (ROne i p r t) s = snd (run_state (replicate_one R C X J N i p r t) s)"
| "repl_step R C X J N (RDeliver ch) s = snd (run_state (DeliverPendingPayload N ch) s)"
| "repl_step R C X J N (RReceive b) s = snd (run_state (handleReplicationConnection R C X J N b) s)"
| "repl_step R C X J N RSync s = snd (run_state (syncInventory R J N) s)"

interpretation repl_ops: machine "repl_step R C X J N"
    "\<lambda>s :: repl_state. mono (\<lambda>n. no_now (N n)) \<longrightarrow> guard (map_of (rm_inFlight s)) (rm_grants s)" for R C X J N
proof
  fix s :: repl_state and c
  assume g: "mono (\<lambda>n. no_now (N n)) \<longrightarrow> guard (map_of (rm_inFlight s)) (rm_grants s)"
  have "guarded s (repl_step R C X J N c s)" if "mono (\<lambda>n. no_now (N n))"
    using guarded_ReplicatePending [OF that] guarded_replicate_one [OF that] guarded_Deliver guarded_handle guarded_sync
    by (cases c) (simp_all add: state_io_rel_def)
  with g show "mono (\<lambda>n. no_now (N n)) \<longrightarrow> guard (map_of (rm_inFlight (repl_step R C X J N c s))) (rm_grants (repl_step R C X J N c s))"
    by (simp add: guarded_def)
qed

text \<open>
  C33: Attempts do not pile up. Whatever cycles, deliveries and receptions an agent goes through, two
  attempts to replicate the same secret to the same cluster are at least five minutes apart, unless
  a delivery succeeded in between.
\<close>

theorem attempts_five_minutes_apart:
  assumes "mono (\<lambda>n. no_now (N n))" and "rm_grants s = []"
    and "gs = rm_grants (fold (repl_step R C X J N) ops s)" and "i < j" and "j < length gs" and "fst (gs ! i) = fst (gs ! j)"
  shows "snd (gs ! j) + 300000000000 \<le> snd (gs ! i)"
proof -
  have "guard (map_of (rm_inFlight s)) (rm_grants s)" by (simp add: guard_def assms(2))
  then have "guard (map_of (rm_inFlight (fold (repl_step R C X J N) ops s))) gs"
    using repl_ops.run_inv [of N s R C X J ops] assms(1,3) by simp
  then have "sorted_wrt (\<lambda>x y. fst x = fst y \<longrightarrow> snd y + five_minutes \<le> snd x) gs" by (simp add: guard_def)
  from sorted_wrt_nth_less [OF this assms(4,5)] assms(6) show ?thesis by (simp add: five_minutes_def)
qed

subsection \<open>Status updates\<close>

lemma set_target_other: "c \<noteq> c' \<Longrightarrow> find (\<lambda>t. rt_ClusterID t = c) (set_target c' st v ts) = find (\<lambda>t. rt_ClusterID t = c) ts"
  by (induction ts) auto

lemma set_target_own:
  "find (\<lambda>t. rt_ClusterID t = c) ts = Some t \<Longrightarrow> find (\<lambda>t. rt_ClusterID t = c) (set_target c st v ts)
     = Some (t\<lparr>rt_Status := st, rt_SyncedVersion := (if v > 0 then v else rt_SyncedVersion t)\<rparr>)"
  by (induction ts) (auto split: if_splits)

text \<open>
  An update of the status changes the target of its cluster and no other; but it replaces the whole list,
  so of two updates that read the same list the first is undone by the second.
\<close>

theorem status_updates_overwrite:
  assumes "c \<noteq> c'" and "find (\<lambda>t. rt_ClusterID t = c) ts = Some t" and "first = set_target c TDelivered v ts"
    and "second = set_target c' TAcknowledged v' ts"
  shows "find (\<lambda>t. rt_ClusterID t = c) first = Some (t\<lparr>rt_Status := TDelivered, rt_SyncedVersion := (if v > 0 then v else rt_SyncedVersion t)\<rparr>)
     \<and> find (\<lambda>t. rt_ClusterID t = c') first = find (\<lambda>t. rt_ClusterID t = c') ts
     \<and> find (\<lambda>t. rt_ClusterID t = c) second = Some t"
  using assms set_target_own [OF assms(2)] set_target_other [of c c'] set_target_other [of c' c] by simp

theorem status_updates_overwrite_witness:
  "let ts = [\<lparr>rt_ClusterID = ''a'', rt_ServerID = ''s1'', rt_Status = TPending, rt_SyncedVersion = 0\<rparr>,
             \<lparr>rt_ClusterID = ''b'', rt_ServerID = ''s2'', rt_Status = TPending, rt_SyncedVersion = 0\<rparr>]
   in find (\<lambda>t. rt_ClusterID t = ''a'') (set_target ''b'' TAcknowledged 2 ts)
        = Some \<lparr>rt_ClusterID = ''a'', rt_ServerID = ''s1'', rt_Status = TPending, rt_SyncedVersion = 0\<rparr>"
proof -
  let ?ts = "[\<lparr>rt_ClusterID = ''a'', rt_ServerID = ''s1'', rt_Status = TPending, rt_SyncedVersion = 0\<rparr>,
             \<lparr>rt_ClusterID = ''b'', rt_ServerID = ''s2'', rt_Status = TPending, rt_SyncedVersion = 0\<rparr>]"
  show ?thesis using status_updates_overwrite [of "''a''" "''b''" ?ts, OF _ _ refl refl, of _ 2 2] by simp
qed

subsection \<open>Deliveries\<close>

text \<open>A number of transmissions, and nothing else that matters here.\<close>

definition sends :: "nat \<Rightarrow> ReplicationPayload \<Rightarrow> repl_state \<Rightarrow> repl_state \<Rightarrow> bool" where
  "sends j p s s' \<longleftrightarrow> rm_sent s' = replicate j p @ rm_sent s \<and> rm_pending s' = rm_pending s \<and> rm_inFlight s' = rm_inFlight s"

lemma deliverOnce_run: "run_state (deliverOnce N p) s = (r, s') \<Longrightarrow> \<exists>i \<le> 1. sends i p s s' \<and> (r = None \<longrightarrow> i = 1)"
proof -
  assume "run_state (deliverOnce N p) s = (r, s')"
  then consider "sends 0 p s s'" "r \<noteq> None" | "sends 1 p s s'" by (auto simp: deliverOnce_def repl_run sends_def split: delivery.splits)
  then show ?thesis by cases fastforce+
qed

lemma deliver_loop_run:
  "run_state (deliver_loop k N p) s = (r, s') \<Longrightarrow> \<exists>j \<le> k. sends j p s s' \<and> (r = Some True \<longrightarrow> 0 < j)"
proof (induction k arbitrary: s)
  case 0
  then show ?case by (auto simp: sends_def)
next
  case (Suc k)
  obtain e s1 where d: "run_state (deliverOnce N p) s = (e, s1)" by (cases "run_state (deliverOnce N p) s")
  obtain i where i: "i \<le> 1" "sends i p s s1" "e = None \<longrightarrow> i = 1" using deliverOnce_run [OF d] by blast
  let ?s = "s1\<lparr>rm_clock := Suc (rm_clock s1)\<rparr>"
  consider "s' = s1" "r = Some True \<longrightarrow> e = None" | "s' = ?s" "r = None" | "run_state (deliver_loop k N p) ?s = (r, s')"
    using Suc.prems d by (auto simp: repl_run split: option.splits if_splits)
  then show ?case
  proof cases
    case 3
    then obtain j where j: "j \<le> k" "sends j p ?s s'" "r = Some True \<longrightarrow> 0 < j" using Suc.IH by blast
    then show ?thesis using i by (intro exI [of _ "j + i"]) (auto simp: sends_def replicate_add)
  qed (use i in \<open>auto intro!: exI [of _ i] simp: sends_def\<close>)
qed

lemma update_status_fields:
  assumes "run_state (update_status_loop k N i c st v) s = (r, s')"
  shows "rm_pending s' = rm_pending s \<and> rm_sent s' = rm_sent s \<and> rm_inFlight s' = rm_inFlight s"
  using assms
proof (induction k arbitrary: s r)
  case (Suc k)
  have a: "rm_pending (snd (run_state (accept_patch N q) s)) = rm_pending s" "rm_sent (snd (run_state (accept_patch N q) s)) = rm_sent s"
    "rm_inFlight (snd (run_state (accept_patch N q) s)) = rm_inFlight s" for q s
    by (simp_all add: accept_patch_def repl_run split: option.split)
  show ?case using Suc.prems
    by (auto simp: repl_run case_prod_beta a Let_def split: sum.splits option.splits if_splits dest!: Suc.IH)
qed simp

text \<open>
  A queued message is sent at most five times and then no longer queued, delivered or not; the guard
  of its secret and cluster is cleared if it was acknowledged, after at least one transmission, and
  kept otherwise.
\<close>

theorem delivery_outcome:
  assumes "map_of (rm_pending s) channelID = Some rec" and "run_state (DeliverPendingPayload N channelID) s = ((), s')"
  shows "\<not> HasPendingDelivery channelID s' \<and> (\<exists>j \<le> 5. rm_sent s' = replicate j (pd_payload rec) @ rm_sent s
     \<and> (map_of (rm_inFlight s') = map_of (rm_inFlight s)
        \<or> 0 < j \<and> map_of (rm_inFlight s') = (map_of (rm_inFlight s))(flight_key (rp_SecretID (pd_payload rec)) (pd_destClusterID rec) := None)))"
proof -
  let ?s = "s\<lparr>rm_pending := AList.delete channelID (rm_pending s)\<rparr>" and ?p = "pd_payload rec"
  obtain r s1 where d: "run_state (deliver_loop 5 N ?p) ?s = (r, s1)" by (cases "run_state (deliver_loop 5 N ?p) ?s")
  obtain j where j: "j \<le> 5" "sends j ?p ?s s1" "r = Some True \<longrightarrow> 0 < j" using deliver_loop_run [OF d] by blast
  let ?s2 = "clearInFlight (rp_SecretID ?p) (pd_destClusterID rec) s1"
  let ?u = "update_status_loop 3 N (rp_SecretID ?p) (pd_destClusterID rec) TDelivered (rp_Version ?p)"
  have "s' = (if r = Some True then snd (run_state ?u ?s2) else s1)"
    using assms d by (simp add: DeliverPendingPayload_def updateReplicationTargetStatus_def repl_run case_prod_beta
        del: deliver_loop.simps update_status_loop.simps split: if_splits)
  moreover note update_status_fields [of 3 N "rp_SecretID ?p" "pd_destClusterID rec" TDelivered "rp_Version ?p" ?s2, OF surjective_pairing]
  ultimately show ?thesis using j by (auto simp: HasPendingDelivery_def clearInFlight_def Let_def sends_def simp del: update_status_loop.simps split: if_splits)
qed

subsection \<open>What the destination accepts\<close>

text \<open>
  The grant of a message is not looked at, beyond being there: with any other text in its place the
  message is decrypted, and stored, all the same.
\<close>

theorem grant_is_not_verified:
  assumes "rp_GrantJWT p \<noteq> []" and "forged \<noteq> []"
  shows "run_state (handleReplicationConnection R C X J N (message (p\<lparr>rp_GrantJWT := forged\<rparr>))) t
       = run_state (handleReplicationConnection R C X J N (message p)) t"
proof -
  have same: "rp_GrantJWT (p\<lparr>rp_GrantJWT := forged\<rparr>) = forged" "rp_SecretName (p\<lparr>rp_GrantJWT := forged\<rparr>) = rp_SecretName p"
    "rp_EphemeralPubKey (p\<lparr>rp_GrantJWT := forged\<rparr>) = rp_EphemeralPubKey p" "rp_WrappedDEK (p\<lparr>rp_GrantJWT := forged\<rparr>) = rp_WrappedDEK p"
    "rp_WrappedDEKNonce (p\<lparr>rp_GrantJWT := forged\<rparr>) = rp_WrappedDEKNonce p" "rp_Ciphertext (p\<lparr>rp_GrantJWT := forged\<rparr>) = rp_Ciphertext p"
    "rp_CiphertextNonce (p\<lparr>rp_GrantJWT := forged\<rparr>) = rp_CiphertextNonce p" "rp_SecretID (p\<lparr>rp_GrantJWT := forged\<rparr>) = rp_SecretID p"
    "rp_Version (p\<lparr>rp_GrantJWT := forged\<rparr>) = rp_Version p" by simp_all
  have un: "UnwrapReplicationPayload C X J (p\<lparr>rp_GrantJWT := forged\<rparr>) km = UnwrapReplicationPayload C X J p km" for km
    using assms unfolding UnwrapReplicationPayload_def Let_def same by (simp only: if_False)
  have ack: "acknowledge N (p\<lparr>rp_GrantJWT := forged\<rparr>) c = acknowledge N p c" for c unfolding acknowledge_def same ..
  show ?thesis unfolding handleReplicationConnection_def message_decodes option.case same un ack ..
qed

text \<open>
  A message with a valid public key and a nonce of a length other than twelve makes the agent panic;
  nothing recovers in the goroutine of the connection.
\<close>

theorem short_nonce_panics:
  assumes "rp_GrantJWT p \<noteq> []" and "rp_SecretName p \<noteq> []" and "xe_point X (extractECDHRawPoint (rp_EphemeralPubKey p)) = Inr point"
    and "sw_ECDHAgree C point (sm_km (rm_store t)) = Inr secret" and "crypto_ok C" and "length (rp_WrappedDEKNonce p) \<noteq> 12"
  shows "run_state (handleReplicationConnection R C X J N (message p)) t = (Ack_panic, t)"
proof -
  obtain wk where "hkdf_read C secret replication_info 32 = Inr wk" "length wk = 32" using assms(5) unfolding crypto_ok_def by blast
  then have "UnwrapReplicationPayload C X J p (sm_km (rm_store t)) = Panics"
    using assms(1-4,6) by (simp add: UnwrapReplicationPayload_def aesGCMDecrypt_def aes_key_ok_def nonceSize_def)
  then show ?thesis by (simp add: handleReplicationConnection_def message_decodes)
qed


subsection \<open>Witnesses\<close>

definition demo_ecies :: ecies_env where
  "demo_ecies = \<lparr>xe_pem = Some, xe_parse = (\<lambda>b. Inr (Inl b)), xe_convert = (\<lambda>k. Inr (k @ replicate 65 CHR 0x04)), xe_generate = (\<lambda>n. Inr []),
     xe_public = (\<lambda>k. k @ replicate 65 CHR 0x04), xe_marshal = (\<lambda>k. Inr (''spki'' @ k)), xe_point = Inr\<rparr>"

lemma demo_ecies_ok: "ecies_ok demo_crypto demo_ecies"
  by (auto simp: ecies_ok_def demo_ecies_def demo_crypto_def nonceSize_def)

definition demo_net :: net_env where
  "demo_net n = \<lparr>no_now = int n * 300000000000, no_meta = Inl ''down'', no_grant = Inl ''down'', no_patch = None, no_delivery = AckOk, no_cancelled = False\<rparr>"

definition demo_repl :: repl_state where
  "demo_repl = \<lparr>rm_store = demo_store, rm_serverID = ''s'', rm_clusterID = ''c'', rm_pending = [], rm_inFlight = [], rm_draws = 1, rm_clock = 0,
     rm_grants = [], rm_patches = [], rm_sent = []\<rparr>"

definition demo_grant :: GrantResponse where
  "demo_grant = \<lparr>gr_ChannelID = ''ch'', gr_ChannelGrant = ''jwt'', gr_Version = 1, gr_DestPubKeyPEM = ''random''\<rparr>"

definition demo_version :: SecretVersion where
  "demo_version = \<lparr>sv_Data = demo_data, sv_Metadata = zero_metadata,
     sv_WrappedDEK = versionByte # replicate 12 CHR 0x01 @ replicate 12 CHR 0x01 @ replicate 32 CHR 0x4B\<rparr>"

lemma demo_identity: "sw_ExportPublicKey demo_crypto demo_km = Inr ''random''"
  by (simp add: sw_ExportPublicKey_def identity_guard_def) (simp add: demo_km_def sw_Initialize_def newSoftwareKeyManager_def demo_crypto_def
      read_random_def masterKeySize_def deriveSubKeys_def deriveKeyInternal_def key_bytes_def)

lemma demo_payload_made: "\<exists>p. fst (run_state (make_payload demo_crypto demo_ecies [] ''app'' demo_version demo_grant) demo_repl) = Inr p \<and> rp_SecretID p = []"
  by (simp add: make_payload_def Let_def demo_version_def demo_grant_def demo_repl_def software_def sw_UnwrapKey_def unsealed_guard_def sub_key_def
      key_bytes_def aes_key_ok_def demo_crypto_def nonceSize_def aesGCMEncrypt_def eciesWrapKey_def demo_ecies_def replication_info_def)

theorem replicated_secret_is_readable_witness:
  "\<exists>p t' m w u. run_state (handleReplicationConnection store_env demo_crypto demo_ecies store_json demo_net (message p)) demo_repl = (Ack_ok, t')
     \<and> run_state (ss_Get store_env (software demo_crypto) store_json ''app'' 0) (rm_store t')
         = (Inr \<lparr>sv_Data = demo_data, sv_Metadata = m, sv_WrappedDEK = w\<rparr>, u)"
proof -
  obtain p where "fst (run_state (make_payload demo_crypto demo_ecies [] ''app'' demo_version demo_grant) demo_repl) = Inr p" and i: "rp_SecretID p = []"
    using demo_payload_made by blast
  then obtain s' where p: "run_state (make_payload demo_crypto demo_ecies [] ''app'' demo_version demo_grant) demo_repl = (Inr p, s')"
    by (metis prod.collapse)
  have v: "sv_Data demo_version = demo_data" "data_ok store_json (sv_Data demo_version)" by (simp_all add: demo_version_def)
  have g: "sw_ExportPublicKey demo_crypto (sm_km (rm_store demo_repl)) = Inr (gr_DestPubKeyPEM demo_grant)" "gr_ChannelGrant demo_grant \<noteq> []"
    using demo_identity by (simp_all add: demo_repl_def demo_grant_def)
  note un = payload_unwraps [OF demo_crypto_ok demo_ecies_ok v(2) p g, unfolded v(1)]
  obtain st where put: "run_state (ss_Put store_env (software demo_crypto) store_json ''app'' demo_data None) demo_store = (Inr (demo_md ''app''), st)"
    by (rule demo_put_app)
  have store: "rm_store demo_repl = demo_store" by (simp add: demo_repl_def)
  obtain t' where t': "run_state (handleReplicationConnection store_env demo_crypto demo_ecies store_json demo_net (message p)) demo_repl = (Ack_ok, t')"
    using un put i by (simp add: handleReplicationConnection_def message_decodes repl_run store acknowledge_def)
  have n: "plain_path (normalizePath ''app'')" using demo_app by simp
  have "0 < md_Version md \<and> md_Version md < 2 ^ 53"
    if "run_state (ss_Put store_env (software demo_crypto) store_json ''app'' (sv_Data demo_version) None) (rm_store demo_repl) = (Inr md, u)" for md u
    using that put by (auto simp: store v(1) demo_md_def new_metadata_def word_less_nat_alt)
  then have "\<exists>m w u. run_state (ss_Get store_env (software demo_crypto) store_json ''app'' 0) (rm_store t')
      = (Inr \<lparr>sv_Data = sv_Data demo_version, sv_Metadata = m, sv_WrappedDEK = w\<rparr>, u)"
    by (intro replicated_secret_is_readable [OF demo_crypto_ok demo_ecies_ok store_json_ok(1) v(2) p g _ _ store_env_stable(1,2) _ n t'])
       (simp_all add: store)
  with t' show ?thesis unfolding v(1) by blast
qed

definition demo_target :: ReplicationTarget where
  "demo_target = \<lparr>rt_ClusterID = ''d'', rt_ServerID = ''s2'', rt_Status = TPending, rt_SyncedVersion = 0\<rparr>"

definition demo_remote :: RemoteSecret where
  "demo_remote = \<lparr>rs_Name = ''app'', rs_Scope = ''org'', rs_OriginClusterID = ''c'', rs_CurrentVersion = 1, rs_ReplicationTargets = [demo_target],
     rs_State = ''active''\<rparr>"

definition sealed_repl :: repl_state where
  "sealed_repl = demo_repl\<lparr>rm_store := demo_store\<lparr>sm_sealed := True\<rparr>\<rparr>"

lemma sealed_attempts:
  "rm_grants (fold (repl_step store_env demo_crypto demo_ecies store_json demo_net) [ROne ''i'' ''app'' demo_remote demo_target, ROne ''i'' ''app'' demo_remote demo_target] sealed_repl)
     = [(''i:d'', 900000000000), (''i:d'', 300000000000)]"
proof -
  have "target_due demo_remote demo_target" "flight_key ''i'' (rt_ClusterID demo_target) = ''i:d''"
    by (simp_all add: target_due_def demo_target_def flight_key_def)
  moreover have "run_state (ss_Get store_env (software demo_crypto) store_json ''app'' 0) (demo_store\<lparr>sm_sealed := True\<rparr>)
      = (Inl (SKm ErrSealedKey), demo_store\<lparr>sm_sealed := True\<rparr>)"
    by (simp add: ss_Get_def run_checkSealed)
  ultimately show ?thesis
    by (simp add: replicate_one_def replicateToTarget_def repl_run case_prod_beta Let_def five_minutes_def demo_net_def sealed_repl_def demo_repl_def)
qed

theorem attempts_five_minutes_apart_witness: "(300000000000 :: int) + 300000000000 \<le> 900000000000
   \<and> rm_grants (fold (repl_step store_env demo_crypto demo_ecies store_json demo_net) [ROne ''i'' ''app'' demo_remote demo_target, ROne ''i'' ''app'' demo_remote demo_target] sealed_repl)
     = [(''i:d'', 900000000000), (''i:d'', 300000000000)]"
proof -
  have "mono (\<lambda>n. no_now (demo_net n))" by (rule monoI) (simp add: demo_net_def)
  moreover have "rm_grants sealed_repl = []" by (simp add: sealed_repl_def demo_repl_def)
  ultimately show ?thesis
    using attempts_five_minutes_apart [of demo_net sealed_repl _ store_env demo_crypto demo_ecies store_json
        "[ROne ''i'' ''app'' demo_remote demo_target, ROne ''i'' ''app'' demo_remote demo_target]" 0 1, OF _ _ refl] sealed_attempts by simp
qed

theorem grant_is_not_verified_witness:
  "run_state (handleReplicationConnection store_env demo_crypto demo_ecies store_json demo_net (message (zero_payload\<lparr>rp_GrantJWT := ''forged''\<rparr>))) demo_repl
     = run_state (handleReplicationConnection store_env demo_crypto demo_ecies store_json demo_net (message (zero_payload\<lparr>rp_GrantJWT := ''jwt''\<rparr>))) demo_repl"
  using grant_is_not_verified [of "zero_payload\<lparr>rp_GrantJWT := ''jwt''\<rparr>" "''forged''"] by simp

theorem short_nonce_panics_witness:
  "fst (run_state (handleReplicationConnection store_env demo_crypto demo_ecies store_json demo_net
     (message (zero_payload\<lparr>rp_GrantJWT := ''jwt'', rp_SecretName := ''n''\<rparr>))) demo_repl) = Ack_panic"
proof -
  obtain k where "identity_guard ''identity key not available'' demo_km = Inr k"
    using demo_identity by (auto simp: sw_ExportPublicKey_def split: sum.splits)
  then have "sw_ECDHAgree demo_crypto [] (sm_km (rm_store demo_repl)) = Inr (k @ [])"
    by (auto simp: sw_ECDHAgree_def identity_guard_def demo_repl_def demo_crypto_def split: if_splits option.splits)
  then show ?thesis
    using short_nonce_panics [of "zero_payload\<lparr>rp_GrantJWT := ''jwt'', rp_SecretName := ''n''\<rparr>" demo_ecies "[]" demo_crypto demo_repl "k @ []"
        store_env store_json demo_net]
    by (simp add: zero_payload_def extractECDHRawPoint_def demo_ecies_def)
qed


theorem delivery_outcome_witness:
  "\<not> HasPendingDelivery ''ch'' (snd (run_state (DeliverPendingPayload demo_net ''ch'')
     (demo_repl\<lparr>rm_pending := [(''ch'', \<lparr>pd_payload = zero_payload, pd_destClusterID = ''d'', pd_destServerID = ''s2''\<rparr>)]\<rparr>)))"
  using delivery_outcome [of "demo_repl\<lparr>rm_pending := [(''ch'', \<lparr>pd_payload = zero_payload, pd_destClusterID = ''d'', pd_destServerID = ''s2''\<rparr>)]\<rparr>"
      "''ch''" "\<lparr>pd_payload = zero_payload, pd_destClusterID = ''d'', pd_destServerID = ''s2''\<rparr>" demo_net]
  by (cases "run_state (DeliverPendingPayload demo_net ''ch'')
     (demo_repl\<lparr>rm_pending := [(''ch'', \<lparr>pd_payload = zero_payload, pd_destClusterID = ''d'', pd_destServerID = ''s2''\<rparr>)]\<rparr>)") simp

end
