(* ===== verification/Spec2Isabelle.thy ===== *)
theory Spec2Isabelle
  imports Lease_Lock Watch Reconcile_Plan Secret_Audit Cap_Manager Command_Exec Secret_Replication
begin

text \<open>
  A verification development of the Underleaf client and agent (\<open>src/internal\<close>), the program that runs
  on each server of a fleet. An agent joins a Raft cluster with its peers and keeps a replicated
  key-value store, with leases, locks, watch streams and an encrypted secret store on top; it compiles
  application deployments into plans for Docker; it installs and supervises capability providers; it
  takes policies and commands from a control plane and updates itself.

  \<^bold>\<open>Theories and sources.\<close> The paths are below \<open>src/internal/\<close>. A definition has the name of the Go
  function or type it translates, with a prefix where the name is taken (\<open>kv_Get\<close>, \<open>ss_Get\<close>).

  \<^item> \<open>Prelude\<close>: Go strings, maps as association lists, decimal numbers, and the locales all
    components use.
  \<^item> \<open>Raft_Types\<close> (\<open>raft/types.go\<close>, \<open>errors.go\<close>), \<open>KV_FSM\<close> (\<open>fsm.go\<close>): the state machine. Its commands
    refine an abstract map with leases, every log keeps its invariant and exact size accounting,
    replicas agree, snapshots restore.
  \<^item> \<open>Raft_Node\<close> (\<open>node.go\<close>, \<open>kv.go\<close>), \<open>Lease_Lock\<close> (\<open>lease.go\<close>), \<open>Watch\<close> (\<open>watch.go\<close>), \<open>Membership\<close>
    (\<open>membership.go\<close>): what clients see. Calls keep the store, a put is read back, locks are
    released without a trace, a watcher misses no update, membership keeps one to three voters.
  \<^item> \<open>Key_Manager\<close> (\<open>crypto/keymanager\<close>), \<open>Seal_Manager\<close> (\<open>raft/seal.go\<close>), \<open>Go_Json\<close>, \<open>Secret_Codec\<close>,
    \<open>Secret_Store\<close> (\<open>raft/secrets.go\<close>), \<open>Secret_Audit\<close> (\<open>raft/secrets_audit.go\<close>): no key while
    sealed, a seal cycle restores the keys, a secret is read back through encryption, base64
    and JSON, access lists decide as documented or as the findings say. \<open>Go_Json\<close> is a parser and
    printer of JSON with the decoding rules of \<open>encoding/json\<close>.
  \<^item> \<open>Secret_Replication\<close> (\<open>agent/secret_replication.go\<close>, \<open>secret_sync_reporter.go\<close>): secrets wrapped for
    the key of another cluster, queued, delivered and stored there. A replicated secret is readable at
    its destination, attempts keep five minutes apart, a delivery ends in at most five transmissions.
  \<^item> \<open>Dep_Graph\<close>, \<open>Deploy_Compiler\<close>, \<open>Reconcile_Plan\<close> (\<open>compiler\<close>, \<open>types/deployment.go\<close>): sorting,
    compiling, three-way reconciliation and planning; below, the pipeline as a whole.
  \<^item> \<open>Cap_Registry\<close>, \<open>Cap_Supervisor\<close>, \<open>Cap_Downloader\<close>, \<open>Cap_Lifecycle\<close>, \<open>Cap_Manager\<close> (\<open>capability\<close>):
    choice of a provider, verified installation, and the supervisor as a step relation over
    objects, goroutines and processes.
  \<^item> \<open>Outbox\<close> (\<open>agent/outbox.go\<close>, \<open>drainer.go\<close>): at-least-once delivery.
  \<^item> \<open>Upd_Release\<close>, \<open>Upd_Manager\<close> (\<open>updater\<close>): releases of GitHub, their checksums, staging, installing,
    rolling back, and the state on disk.
  \<^item> \<open>Policy_Manager\<close>, \<open>Policy_Client\<close> (\<open>policy_manager\<close>): versioned policies, their file and watchers,
    and the configuration client.
  \<^item> \<open>Agent_Config\<close> (\<open>agent/wiring.go\<close>, the functions besides \<open>WireAgent\<close>): how policies become the
    settings of commands, of Raft and of its membership.
  \<^item> \<open>Command_Exec\<close> (\<open>exec\<close>): remote commands, what is allowed to start and what the drainer knows.

  \<^bold>\<open>How code becomes definitions.\<close> Structs are records, enumerations datatypes, errors values of a sum.
  Stateful code is an action of the state monad: over the node (\<open>'a action\<close>), the cluster
  (\<open>'a member_action\<close>), or a world of files, clock and processes (\<open>cap_action\<close>, extended by the updater
  and the policy manager). What code outside the repository does is a parameter: \<open>raft_env\<close> and
  \<open>raft_lib\<close> for the consensus library, the record of cryptographic functions, \<open>json_env\<close> for time
  stamps and floating point numbers, \<open>cap_env\<close> for the operating system, Docker and HTTP (each call is an
  observation that may be an error), YAML, SHA-256, semantic versions, \<open>net_env\<close> for the
  control plane and the relay, \<open>ecies_env\<close> for the encodings of keys, \<open>exec_os\<close> for processes. The laws a theorem needs of a parameter are among its hypotheses. The order of a range over
  a map is a parameter as well, and so is the order an unstable sort leaves ties in. Where goroutines
  can interleave (supervisor, watch streams, policy updates, remote commands, outbox) a call is
  split into the steps between which others run.

  \<^bold>\<open>Interfaces.\<close> \<open>machine\<close>, \<open>lockstep\<close> and \<open>io_preorder\<close> of \<open>Prelude\<close> state what sequences of
  operations keep: an invariant, a relation between two machines, a preorder on states. \<open>machine\<close> is
  interpreted for logs, for the clients of the store, of locks and of the membership, for the outbox, the
  updater, the policy manager, the command handler and the replication of secrets, and holds of every key manager and of the
  seal manager over it; \<open>lockstep\<close> for two replicas, \<open>io_preorder\<close> for the growth of the log, for
  calls that leave the seal alone and for the guards of replication. \<open>key_manager\<close> of \<open>Key_Manager\<close> is the
  interface of the key backends, with the laws the secret store relies on, interpreted by the
  software backend. \<open>frame\<close> of \<open>Cap_Downloader\<close> and \<open>lifecycle_frame\<close> of \<open>Cap_Lifecycle\<close> carry
  relations through the actions of the world; their interpretations give what the downloader, the
  providers, the updater and the policy manager leave unchanged.

  \<^bold>\<open>Bounds and fuel.\<close> The sort has fuel for one more round than there are nodes, proved enough. A
  \<open>WaitForNodeSync\<close> has fuel for its polls; that it returns is proved from a clock that advances. The JSON
  parser has fuel for one more step than the text has characters, enough for every text that is
  printed. The wait of the seal manager for its cluster is a list of ticks, fifty before its deadline. Lengths and sizes are exact
  where the code uses an unbounded or a large enough type; revisions and durations are words of 64 bits
  where they can wrap around. The exponential pause is exact below 2^52. White space is that of ASCII.

  \<^bold>\<open>Not modelled.\<close> The transport of the consensus library and the generated protocol buffers; the
  construction of the components in \<open>WireAgent\<close>, the HTTP and gRPC servers and the command line, which
  connect the parts above; clients of the control plane; the TPM backend, which issues commands to a
  hardware library; the Docker runner; local discovery; the polling client of the capability
  registry; the CLI configuration client, a layer over a configuration library. Logging has no
  counterpart. Each theory says at its head what of its source it leaves out.
\<close>

subsection \<open>From a deployment to its plan\<close>



end
